(* ===== verification/Maestro_Prelude.thy ===== *)
theory Maestro_Prelude
  imports Main Complex_Main "HOL-Library.AList" "HOL-Library.Product_Lexorder"
    "HOL-Library.List_Lexorder" "HOL-Library.Char_ord"
begin

section \<open>Prelude: Python values, exceptions, dictionaries and state machines\<close>

text \<open>
  What the component theories share.
  \<^item> Time and durations. The code keeps instants and durations as Python floats and only
    adds, scales and compares them; \<open>seconds\<close> models them as exact rationals
    (rounding, infinities and not-a-number are not modelled).
  \<^item> Exceptions. A method that may raise returns \<open>exc + 'a\<close> beside the state it leaves
    behind, because several methods raise after they have changed their object.
  \<^item> Dictionaries. A Python \<open>dict\<close> keeps insertion order, so it is an association list with
    distinct keys; assignment is \<open>AList.update\<close> (in place, or appended), \<open>pop\<close> is
    \<open>AList.delete\<close>, and iteration over \<open>values()\<close> is \<open>map snd\<close>.
  \<^item> Strings are lists of characters with code points below 256.
  \<^item> The interface \<open>transition_system\<close>: a state machine with an invariant that every step
    keeps; components interpret it on their own step relations.
\<close>

named_theorems dict_simps \<open>rewriting of dictionary reads after dictionary writes\<close>
named_theorems store_defs \<open>unfolding of the operations of the job stores\<close>

type_synonym seconds = rat

subsection \<open>Exceptions\<close>

text \<open>The exceptions the modelled code raises itself, and any other one by the name of its class.\<close>

datatype exc =
    ValueError string
  | RuntimeError string
  | OverflowError
  | KeyError string
  | JobNotFoundError string
  | JobLeaseLostError string
  | IdempotencyConflictError string
  | DomainCapacitySaturatedError string
  | DomainCapacityLeaseLostError
  | OtherException string

text \<open>An operation of an object: a result or an exception, and the object afterwards.\<close>

type_synonym ('s, 'a) op = "'s \<Rightarrow> (exc + 'a) \<times> 's"

text \<open>
  Raising in a method that changes nothing before it raises: \<open>ensure b e k\<close> raises \<open>e\<close> unless \<open>b\<close>
  holds, \<open>fetch v e k\<close> raises \<open>e\<close> when a row was not found, \<open>and_then m k\<close> goes on with the result of
  \<open>m\<close>. What a method that returned has checked is read off by rewriting.
\<close>

definition ensure :: "bool \<Rightarrow> 'e \<Rightarrow> 'e + 'a \<Rightarrow> 'e + 'a" where
  "ensure b e k = (if b then k else Inl e)"

definition fetch :: "'v option \<Rightarrow> 'e \<Rightarrow> ('v \<Rightarrow> 'e + 'a) \<Rightarrow> 'e + 'a" where
  "fetch v e k = (case v of None \<Rightarrow> Inl e | Some x \<Rightarrow> k x)"

definition and_then :: "'e + 'b \<Rightarrow> ('b \<Rightarrow> 'e + 'a) \<Rightarrow> 'e + 'a" where
  "and_then m k = (case m of Inl e \<Rightarrow> Inl e | Inr x \<Rightarrow> k x)"

lemma ensure_Inr [simp]: "ensure b e k = Inr r \<longleftrightarrow> b \<and> k = Inr r"
  by (simp add: ensure_def)

lemma fetch_Inr [simp]: "fetch v e k = Inr r \<longleftrightarrow> (\<exists>x. v = Some x \<and> k x = Inr r)"
  by (simp add: fetch_def split: option.splits)

lemma and_then_Inr [simp]: "and_then m k = Inr r \<longleftrightarrow> (\<exists>x. m = Inr x \<and> k x = Inr r)"
  by (simp add: and_then_def split: sum.splits)

text \<open>The continuation is simplified once it is reached.\<close>

lemma raise_cong [cong]:
  "b = b' \<Longrightarrow> ensure b e k = ensure b' e k"
  "v = v' \<Longrightarrow> fetch v e f = fetch v' e f"
  "m = m' \<Longrightarrow> and_then m g = and_then m' g"
  by simp_all

lemma raise_simps [simp]:
  "ensure True e k = k" "ensure False e k = Inl e"
  "fetch (Some x) e f = f x" "fetch None e f = Inl e"
  "and_then (Inr y) g = g y" "and_then (Inl e) g = Inl e"
  by (simp_all add: ensure_def fetch_def and_then_def)

subsection \<open>Strings\<close>

text \<open>\<open>str.isspace\<close> on the code points below 256, \<open>s.strip()\<close> and \<open>not s.strip()\<close>.\<close>

definition py_isspace :: "char \<Rightarrow> bool" where
  "py_isspace c = (let n = (of_char c :: nat) in
     (9 \<le> n \<and> n \<le> 13) \<or> (28 \<le> n \<and> n \<le> 32) \<or> n = 133 \<or> n = 160)"

definition py_strip :: "string \<Rightarrow> string" where
  "py_strip s = rev (dropWhile py_isspace (rev (dropWhile py_isspace s)))"

text \<open>\<open>str.lower\<close> on those code points.\<close>

definition lower_char :: "char \<Rightarrow> char" where
  "lower_char c = (let n = (of_char c :: nat) in
     if 65 \<le> n \<and> n \<le> 90 \<or> 192 \<le> n \<and> n \<le> 222 \<and> n \<noteq> 215 then char_of (n + 32) else c)"

definition py_lower :: "string \<Rightarrow> string" where
  "py_lower s = map lower_char s"

definition blank :: "string \<Rightarrow> bool" where
  "blank s = list_all py_isspace s"

subsection \<open>Dictionaries\<close>

type_synonym ('k, 'v) dict = "('k \<times> 'v) list"

abbreviation dict_get :: "('k, 'v) dict \<Rightarrow> 'k \<Rightarrow> 'v option" where
  "dict_get d k \<equiv> map_of d k"

abbreviation dict_set :: "'k \<Rightarrow> 'v \<Rightarrow> ('k, 'v) dict \<Rightarrow> ('k, 'v) dict" where
  "dict_set k v d \<equiv> AList.update k v d"

abbreviation dict_pop :: "'k \<Rightarrow> ('k, 'v) dict \<Rightarrow> ('k, 'v) dict" where
  "dict_pop k d \<equiv> AList.delete k d"

abbreviation dict_ok :: "('k, 'v) dict \<Rightarrow> bool" where
  "dict_ok d \<equiv> distinct (map fst d)"

definition dict_map :: "('v \<Rightarrow> 'v) \<Rightarrow> ('k, 'v) dict \<Rightarrow> ('k, 'v) dict" where
  "dict_map f d = map (\<lambda>(k, v). (k, f v)) d"

text \<open>Reads stay reads: the simplifier does not turn them into membership in the list. Local
  bindings of the translated methods are unfolded.\<close>

declare map_of_eq_Some_iff [simp del] Some_eq_map_of_iff [simp del] Let_def [simp]

lemma option_eqI: "(\<And>v. a = Some v \<longleftrightarrow> b = Some v) \<Longrightarrow> a = b"
  by (cases a; cases b) auto

lemma dict_get_set [dict_simps]:
  "dict_get (dict_set k v d) k' = (if k' = k then Some v else dict_get d k')"
  by (simp add: update_conv')

lemma dict_get_pop [dict_simps]:
  "dict_get (dict_pop k d) k' = (if k' = k then None else dict_get d k')"
  by (simp add: delete_conv')

lemma dict_get_map [dict_simps]: "dict_get (dict_map f d) k = map_option f (dict_get d k)"
  by (induction d) (auto simp: dict_map_def)

lemma dict_ok_set [simp]: "dict_ok d \<Longrightarrow> dict_ok (dict_set k v d)"
  by (rule distinct_update)

lemma dict_ok_pop [simp]: "dict_ok d \<Longrightarrow> dict_ok (dict_pop k d)"
  by (rule distinct_delete)

lemma keys_dict_map [simp]: "map fst (dict_map f d) = map fst d"
  by (induction d) (auto simp: dict_map_def)

lemma dict_get_in: "dict_ok d \<Longrightarrow> dict_get d k = Some v \<longleftrightarrow> (k, v) \<in> set d"
  by (simp add: map_of_eq_Some_iff)

lemma dict_values_iff:
  "dict_ok d \<Longrightarrow> v \<in> set (map snd d) \<longleftrightarrow> (\<exists>k. dict_get d k = Some v)"
  by (force simp: map_of_eq_Some_iff)

lemma keys_dict_set_present:
  "dict_get d k = Some w \<Longrightarrow> map fst (dict_set k v d) = map fst d"
  by (induction d) (auto split: if_splits)

lemma length_dict_set_absent:
  "dict_get d k = None \<Longrightarrow> length (dict_set k v d) = Suc (length d)"
  by (induction d) (auto split: if_splits)

lemma dict_set_absent: "dict_get d k = None \<Longrightarrow> dict_set k v d = d @ [(k, v)]"
  by (induction d) (auto split: if_splits)

lemma dict_set_set: "dict_set k v (dict_set k w d) = dict_set k v d"
  by (induction d) auto

lemma dict_get_filter:
  "dict_ok d \<Longrightarrow> dict_get (filter P d) k =
     (case dict_get d k of None \<Rightarrow> None | Some v \<Rightarrow> if P (k, v) then Some v else None)"
proof (induction d)
  case Nil
  then show ?case by simp
next
  case (Cons kv d)
  obtain k0 v0 where [simp]: "kv = (k0, v0)" by (cases kv)
  show ?case
  proof (cases "k = k0")
    case True
    with Cons.prems have "dict_get d k = None" by (auto simp: map_of_eq_None_iff)
    with Cons True show ?thesis by simp
  next
    case False
    with Cons show ?thesis by simp
  qed
qed

lemma dict_ok_filter [simp]: "dict_ok d \<Longrightarrow> dict_ok (filter P d)"
  by (induction d) auto

subsection \<open>Selecting the least element under a key\<close>

text \<open>
  \<open>xs.sort(key=k); xs[0]\<close> is \<open>hd (sort_key k xs)\<close>. When the key tells the elements apart the
  result does not depend on the order in which they were collected.
\<close>

definition least_by :: "('a \<Rightarrow> 'b::linorder) \<Rightarrow> 'a list \<Rightarrow> 'a option" where
  "least_by key xs = (case sort_key key xs of [] \<Rightarrow> None | x # _ \<Rightarrow> Some x)"

lemma least_by_Nil [simp]: "least_by key [] = None"
  by (simp add: least_by_def)

lemma least_by_None [simp]: "least_by key xs = None \<longleftrightarrow> xs = []"
  by (metis least_by_def list.case_eq_if option.distinct(1) set_empty set_sort)

lemma least_by_SomeD:
  assumes "least_by key xs = Some x"
  shows "x \<in> set xs" and "\<And>y. y \<in> set xs \<Longrightarrow> key x \<le> key y"
proof -
  from assms obtain ys where ys: "sort_key key xs = x # ys"
    by (auto simp: least_by_def split: list.splits)
  from ys have "set (x # ys) = set xs" by (metis set_sort)
  then show "x \<in> set xs" by auto
  have "sorted (map key (x # ys))" using sorted_sort_key [of key xs] ys by simp
  then show "key x \<le> key y" if "y \<in> set xs" for y
    using that \<open>set (x # ys) = set xs\<close> by auto
qed

lemma least_by_SomeI:
  assumes "x \<in> set xs" and "\<And>y. y \<in> set xs \<Longrightarrow> key x \<le> key y" and "inj_on key (set xs)"
  shows "least_by key xs = Some x"
proof -
  from assms(1) have "least_by key xs \<noteq> None" by (auto simp: least_by_None)
  then obtain z where z: "least_by key xs = Some z" by (cases "least_by key xs") simp_all
  note z' = least_by_SomeD [OF z]
  with assms(1,2) have "key z = key x" by (meson order_antisym)
  with z'(1) assms(1,3) have "z = x" by (auto dest: inj_onD)
  with z show ?thesis by simp
qed

lemma least_by_cong_set:
  assumes "set xs = set ys" and "inj_on key (set xs)"
  shows "least_by key xs = least_by key ys"
proof (cases "least_by key ys")
  case None
  with assms show ?thesis by simp
next
  case (Some y)
  note least_by_SomeD [OF Some]
  with assms have "least_by key xs = Some y" by (intro least_by_SomeI) auto
  with Some show ?thesis by simp
qed

subsection \<open>State machines with an invariant\<close>

locale transition_system =
  fixes start :: "'s \<Rightarrow> bool"
    and step :: "'s \<Rightarrow> 's \<Rightarrow> bool"
    and inv :: "'s \<Rightarrow> bool"
  assumes inv_start: "start s \<Longrightarrow> inv s"
    and inv_step: "inv s \<Longrightarrow> step s t \<Longrightarrow> inv t"
begin

inductive reach :: "'s \<Rightarrow> bool" where
  reach_start: "start s \<Longrightarrow> reach s"
| reach_step: "reach s \<Longrightarrow> step s t \<Longrightarrow> reach t"

lemma reach_inv: "reach s \<Longrightarrow> inv s"
  by (induction rule: reach.induct) (auto intro: inv_start inv_step)

lemma steps_inv: "step\<^sup>*\<^sup>* s t \<Longrightarrow> inv s \<Longrightarrow> inv t"
  by (induction rule: rtranclp_induct) (auto intro: inv_step)

lemma steps_stable:
  assumes "step\<^sup>*\<^sup>* s t" and "inv s" and "P s"
    and stable: "\<And>u v. inv u \<Longrightarrow> P u \<Longrightarrow> step u v \<Longrightarrow> P v"
  shows "P t"
proof -
  have "inv t \<and> P t"
    using assms(1)
  proof (induction rule: rtranclp_induct)
    case base
    show ?case using assms(2,3) by simp
  next
    case (step u v)
    then show ?case using stable inv_step by blast
  qed
  then show ?thesis by simp
qed

end

end
