(* ===== verification/Durable_Job.thy ===== *)
theory Durable_Job
  imports Maestro_Prelude
begin

section \<open>Durable jobs: the data contract of execution/durable.py\<close>

text \<open>
  Statuses, priorities, retry policies, job specifications and jobs, with the validation each
  constructor runs, the exponential back-off, and the well-formedness predicate on jobs that
  every store keeps. The payload type \<open>'p\<close> and the result type \<open>'r\<close> stand for the values
  the code leaves open (\<open>Mapping[str, Any]\<close> and \<open>Any\<close>), compared by the language's equality;
  a Python \<open>None\<close> is the option \<open>None\<close>.
\<close>

datatype job_status = QUEUED | RUNNING | RETRY_WAIT | SUCCEEDED | FAILED | CANCELLED

datatype execution_priority = EMERGENCY | INTERACTIVE | NORMAL | BATCH

fun priority_value :: "execution_priority \<Rightarrow> int" where
  "priority_value EMERGENCY = 0"
| "priority_value INTERACTIVE = 10"
| "priority_value NORMAL = 20"
| "priority_value BATCH = 30"

lemma priority_value_inject [simp]: "priority_value p = priority_value q \<longleftrightarrow> p = q"
  by (cases p; cases q) simp_all

text \<open>The comparison of an \<open>IntEnum\<close> is that of its values.\<close>

instantiation execution_priority :: linorder
begin

definition less_eq_execution_priority :: "execution_priority \<Rightarrow> execution_priority \<Rightarrow> bool" where
  "p \<le> q \<longleftrightarrow> priority_value p \<le> priority_value q"

definition less_execution_priority :: "execution_priority \<Rightarrow> execution_priority \<Rightarrow> bool" where
  "p < q \<longleftrightarrow> priority_value p < priority_value q"

instance
  by standard (auto simp: less_eq_execution_priority_def less_execution_priority_def)

end

subsection \<open>Retry policies\<close>

record retry_policy =
  max_attempts :: int
  initial_backoff_seconds :: seconds
  max_backoff_seconds :: seconds

definition retry_policy_error :: "retry_policy \<Rightarrow> exc option" where
  "retry_policy_error r =
     (if max_attempts r < 1 then Some (ValueError ''max_attempts must be at least 1'')
      else if initial_backoff_seconds r < 0
        then Some (ValueError ''initial_backoff_seconds cannot be negative'')
      else if max_backoff_seconds r < initial_backoff_seconds r
        then Some (ValueError
          ''max_backoff_seconds cannot be smaller than initial_backoff_seconds'')
      else None)"

definition new_RetryPolicy :: "int \<Rightarrow> seconds \<Rightarrow> seconds \<Rightarrow> exc + retry_policy" where
  "new_RetryPolicy m i x =
     (let r = \<lparr>max_attempts = m, initial_backoff_seconds = i, max_backoff_seconds = x\<rparr>
      in case retry_policy_error r of Some e \<Rightarrow> Inl e | None \<Rightarrow> Inr r)"

definition default_retry :: retry_policy where
  "default_retry =
     \<lparr>max_attempts = 3, initial_backoff_seconds = 1, max_backoff_seconds = 30\<rparr>"

text \<open>
  The factor \<open>2 ** (attempt - 1)\<close> is an unbounded integer that is converted to a float for the
  product; from \<open>2 ** 1024\<close> on that conversion raises.
\<close>

definition delay_after_attempt :: "retry_policy \<Rightarrow> int \<Rightarrow> exc + seconds" where
  "delay_after_attempt r attempt =
     (if attempt < 1 then Inl (ValueError ''attempt must be at least 1'')
      else if 1024 \<le> attempt - 1 then Inl OverflowError
      else Inr (min (initial_backoff_seconds r * 2 ^ nat (attempt - 1)) (max_backoff_seconds r)))"

definition retry_ok :: "retry_policy \<Rightarrow> bool" where
  "retry_ok r \<longleftrightarrow> retry_policy_error r = None"

lemma retry_ok_iff:
  "retry_ok r \<longleftrightarrow> 1 \<le> max_attempts r \<and> 0 \<le> initial_backoff_seconds r \<and>
     initial_backoff_seconds r \<le> max_backoff_seconds r"
  by (auto simp: retry_ok_def retry_policy_error_def)

lemma delay_after_attempt_bounds:
  assumes "retry_ok r" and "delay_after_attempt r n = Inr d"
  shows "initial_backoff_seconds r \<le> d" and "d \<le> max_backoff_seconds r" and "0 \<le> d"
proof -
  from assms have *: "0 \<le> initial_backoff_seconds r"
    "initial_backoff_seconds r \<le> max_backoff_seconds r"
    by (auto simp: retry_ok_iff)
  have "initial_backoff_seconds r * 1 \<le> initial_backoff_seconds r * 2 ^ nat (n - 1)"
    using * by (intro mult_left_mono) auto
  with assms * show "initial_backoff_seconds r \<le> d" and "d \<le> max_backoff_seconds r" and "0 \<le> d"
    by (auto simp: delay_after_attempt_def split: if_splits)
qed

lemma delay_after_attempt_mono:
  assumes "retry_ok r" and "delay_after_attempt r m = Inr d" and "delay_after_attempt r n = Inr e"
    and "m \<le> n"
  shows "d \<le> e"
proof -
  from assms have "initial_backoff_seconds r * 2 ^ nat (m - 1)
      \<le> initial_backoff_seconds r * 2 ^ nat (n - 1)"
    by (intro mult_left_mono power_increasing) (auto simp: retry_ok_iff)
  with assms(2,3) show ?thesis
    by (auto simp: delay_after_attempt_def split: if_splits)
qed

subsection \<open>Job specifications and jobs\<close>

record 'p job_spec =
  idempotency_key :: string
  domain :: string
  payload :: 'p
  priority :: execution_priority
  retry :: retry_policy
  deadline_at :: "seconds option"

definition job_spec_error :: "'p job_spec \<Rightarrow> exc option" where
  "job_spec_error sp =
     (if blank (idempotency_key sp) then Some (ValueError ''idempotency_key cannot be empty'')
      else if blank (domain sp) then Some (ValueError ''domain cannot be empty'')
      else None)"

definition new_JobSpec ::
    "string \<Rightarrow> string \<Rightarrow> 'p \<Rightarrow> execution_priority \<Rightarrow> retry_policy \<Rightarrow> seconds option
      \<Rightarrow> exc + 'p job_spec" where
  "new_JobSpec key dm pay prio ret dl =
     (let sp = \<lparr>idempotency_key = key, domain = dm, payload = pay, priority = prio,
                retry = ret, deadline_at = dl\<rparr>
      in case job_spec_error sp of Some e \<Rightarrow> Inl e | None \<Rightarrow> Inr sp)"

text \<open>The specifications a caller can build: both constructors accepted their arguments.\<close>

definition spec_ok :: "'p job_spec \<Rightarrow> bool" where
  "spec_ok sp \<longleftrightarrow> job_spec_error sp = None \<and> retry_ok (retry sp)"

lemma new_JobSpec_ok:
  "retry_ok ret \<Longrightarrow> new_JobSpec key dm pay prio ret dl = Inr sp \<Longrightarrow> spec_ok sp"
  by (auto simp: new_JobSpec_def spec_ok_def Let_def split: option.splits)

lemma new_RetryPolicy_ok: "new_RetryPolicy m i x = Inr r \<Longrightarrow> retry_ok r"
  by (auto simp: new_RetryPolicy_def retry_ok_def Let_def split: option.splits)

record ('p, 'r) execution_job =
  job_id :: string
  spec :: "'p job_spec"
  status :: job_status
  created_at :: seconds
  updated_at :: seconds
  available_at :: seconds
  attempt :: int
  worker_id :: "string option"
  lease_token :: "string option"
  lease_expires_at :: "seconds option"
  cancel_requested :: bool
  last_error :: "string option"
  result :: "'r option"

record ('p, 'r) submit_result =
  submitted_job :: "('p, 'r) execution_job"
  created :: bool

abbreviation terminal_status :: "job_status \<Rightarrow> bool" where
  "terminal_status s \<equiv> s \<in> {SUCCEEDED, FAILED, CANCELLED}"

abbreviation waiting_status :: "job_status \<Rightarrow> bool" where
  "waiting_status s \<equiv> s \<in> {QUEUED, RETRY_WAIT}"

text \<open>The job a submission creates (the fields not named take their defaults).\<close>

definition fresh_job :: "'p job_spec \<Rightarrow> string \<Rightarrow> seconds \<Rightarrow> ('p, 'r) execution_job" where
  "fresh_job sp jid now =
     \<lparr>job_id = jid, spec = sp, status = QUEUED, created_at = now, updated_at = now,
      available_at = now, attempt = 0, worker_id = None, lease_token = None,
      lease_expires_at = None, cancel_requested = False, last_error = None, result = None\<rparr>"

text \<open>The order in which claims take jobs.\<close>

definition claim_key ::
    "('p, 'r) execution_job \<Rightarrow> int \<times> seconds \<times> seconds \<times> string" where
  "claim_key j = (priority_value (priority (spec j)), available_at j, created_at j, job_id j)"

text \<open>
  What is true of a job between two operations: a running job holds a complete lease and has
  been started between one and \<open>max_attempts\<close> times, every other job holds no part of a lease,
  a waiting job still has an attempt left, a cancelled job was asked to cancel, and a succeeded
  job has no error.
\<close>

definition job_wf :: "('p, 'r) execution_job \<Rightarrow> bool" where
  "job_wf j \<longleftrightarrow>
     spec_ok (spec j) \<and> 0 \<le> attempt j \<and> attempt j \<le> max_attempts (retry (spec j)) \<and>
     (status j = RUNNING \<longrightarrow> 1 \<le> attempt j \<and> worker_id j \<noteq> None \<and> lease_token j \<noteq> None
        \<and> lease_expires_at j \<noteq> None) \<and>
     (status j \<noteq> RUNNING \<longrightarrow> worker_id j = None \<and> lease_token j = None
        \<and> lease_expires_at j = None) \<and>
     (waiting_status (status j) \<longrightarrow> attempt j < max_attempts (retry (spec j))) \<and>
     (status j = CANCELLED \<longrightarrow> cancel_requested j) \<and>
     (status j = SUCCEEDED \<longrightarrow> last_error j = None)"

lemma fresh_job_sel [simp]:
  "job_id (fresh_job sp jid now) = jid" "spec (fresh_job sp jid now) = sp"
  "status (fresh_job sp jid now) = QUEUED" "attempt (fresh_job sp jid now) = 0"
  "available_at (fresh_job sp jid now) = now" "cancel_requested (fresh_job sp jid now) = False"
  by (simp_all add: fresh_job_def)

lemma job_wf_fresh: "spec_ok sp \<Longrightarrow> job_wf (fresh_job sp jid now)"
  by (auto simp: job_wf_def fresh_job_def spec_ok_def retry_ok_iff)

subsection \<open>Steps on one job that the stores share\<close>

definition clear_lease :: "('p, 'r) execution_job \<Rightarrow> ('p, 'r) execution_job" where
  "clear_lease j = j\<lparr>worker_id := None, lease_token := None, lease_expires_at := None\<rparr>"

definition lease_active ::
    "('p, 'r) execution_job \<Rightarrow> string \<Rightarrow> string \<Rightarrow> seconds \<Rightarrow> bool" where
  "lease_active j w tok now \<longleftrightarrow>
     \<not> (status j \<noteq> RUNNING \<or> worker_id j \<noteq> Some w \<or> lease_token j \<noteq> Some tok \<or>
        (case lease_expires_at j of None \<Rightarrow> True | Some e \<Rightarrow> e \<le> now))"

definition deadline_expired :: "('p, 'r) execution_job \<Rightarrow> seconds \<Rightarrow> bool" where
  "deadline_expired j now = (case deadline_at (spec j) of None \<Rightarrow> False | Some d \<Rightarrow> d \<le> now)"

definition expire_deadline ::
    "('p, 'r) execution_job \<Rightarrow> seconds \<Rightarrow> bool \<times> ('p, 'r) execution_job" where
  "expire_deadline j now =
     (if terminal_status (status j) then (False, j)
      else if \<not> deadline_expired j now then (False, j)
      else (True, clear_lease (j\<lparr>status := FAILED, last_error := Some ''deadline_exceeded'',
                                 updated_at := now\<rparr>)))"

text \<open>Taking the lease of a job.\<close>

definition start_lease ::
    "string \<Rightarrow> string \<Rightarrow> seconds \<Rightarrow> seconds \<Rightarrow> ('p, 'r) execution_job
      \<Rightarrow> ('p, 'r) execution_job" where
  "start_lease w tok now lease_seconds j =
     j\<lparr>status := RUNNING, attempt := attempt j + 1, worker_id := Some w, lease_token := Some tok,
       lease_expires_at := Some (now + lease_seconds), updated_at := now\<rparr>"

lemmas job_step_defs =
  clear_lease_def expire_deadline_def start_lease_def deadline_expired_def

lemma start_lease_sel [simp]:
  "job_id (start_lease w tok now ls j) = job_id j" "spec (start_lease w tok now ls j) = spec j"
  "status (start_lease w tok now ls j) = RUNNING"
  "attempt (start_lease w tok now ls j) = attempt j + 1"
  "worker_id (start_lease w tok now ls j) = Some w"
  "lease_token (start_lease w tok now ls j) = Some tok"
  "lease_expires_at (start_lease w tok now ls j) = Some (now + ls)"
  "cancel_requested (start_lease w tok now ls j) = cancel_requested j"
  by (simp_all add: start_lease_def)

lemma lease_active_iff:
  "lease_active j w tok now \<longleftrightarrow>
     status j = RUNNING \<and> worker_id j = Some w \<and> lease_token j = Some tok \<and>
     (\<exists>e. lease_expires_at j = Some e \<and> now < e)"
  by (auto simp: lease_active_def split: option.splits)

lemma expire_deadline_keeps [simp]:
  "job_id (snd (expire_deadline j now)) = job_id j"
  "spec (snd (expire_deadline j now)) = spec j"
  "created_at (snd (expire_deadline j now)) = created_at j"
  "available_at (snd (expire_deadline j now)) = available_at j"
  "cancel_requested (snd (expire_deadline j now)) = cancel_requested j"
  "attempt (snd (expire_deadline j now)) = attempt j"
  by (auto simp: expire_deadline_def clear_lease_def)

lemma job_wf_expire_deadline: "job_wf j \<Longrightarrow> job_wf (snd (expire_deadline j now))"
  by (auto simp: expire_deadline_def clear_lease_def job_wf_def)

lemma job_wf_start_lease:
  "job_wf j \<Longrightarrow> waiting_status (status j) \<Longrightarrow> job_wf (start_lease w tok now ls j)"
  by (auto simp: start_lease_def job_wf_def)

lemma expire_deadline_terminal:
  "terminal_status (status j) \<Longrightarrow> expire_deadline j now = (False, j)"
  by (simp add: expire_deadline_def)

end
