(* ===== verification/Redis_Model.thy ===== *)
theory Redis_Model
  imports Durable_Job
begin

section \<open>Redis data, optimistic transactions and the job codec\<close>

text \<open>
  What the Redis stores use of Redis, which is not part of the repository, is modelled from its
  documentation: sorted sets with their order by score and then by member, and optimistic
  transactions, in which \<open>EXEC\<close> fails exactly when a watched key was written by somebody else
  after \<open>WATCH\<close>. The commands between \<open>MULTI\<close> and \<open>EXEC\<close> run as one step, so an attempt
  either has the effect of all of them or none.

  The second half is the codec of \<open>execution/redis_store.py\<close>. The fields of a job hash are
  texts; numbers are kept as the numbers their decimal text denotes and JSON texts as the values
  they encode, the text fields in which the code tells an empty string from a name are strings,
  and a field that is empty for \<open>None\<close> is an option. The round trip of the codec is not the
  identity: an empty worker, token or error reads back as \<open>None\<close>.
\<close>

subsection \<open>Sorted sets\<close>

type_synonym zset = "(string, seconds) dict"

abbreviation zadd :: "string \<Rightarrow> seconds \<Rightarrow> zset \<Rightarrow> zset" where
  "zadd m sc z \<equiv> dict_set m sc z"

abbreviation zrem :: "string \<Rightarrow> zset \<Rightarrow> zset" where
  "zrem m z \<equiv> dict_pop m z"

definition zrangebyscore :: "zset \<Rightarrow> seconds \<Rightarrow> string list" where
  "zrangebyscore z hi =
     map fst (sort_key (\<lambda>(m, sc). (sc, m)) (filter (\<lambda>(m, sc). sc \<le> hi) z))"

lemma set_zrangebyscore:
  "dict_ok z \<Longrightarrow> m \<in> set (zrangebyscore z hi) \<longleftrightarrow> (\<exists>sc. dict_get z m = Some sc \<and> sc \<le> hi)"
  by (force simp: zrangebyscore_def dict_get_in)

lemma distinct_zrangebyscore: "dict_ok z \<Longrightarrow> distinct (zrangebyscore z hi)"
  using dict_ok_filter [of z] by (simp add: zrangebyscore_def distinct_map)

subsection \<open>Attempts of an optimistic transaction\<close>

text \<open>
  One pass through a \<open>WATCH\<close> loop sees: the clock and identifier it draws, the state it finds
  when it has watched its keys (other clients may have written since the last read), and whether
  \<open>EXEC\<close> succeeds. \<open>Some st\<close> is a conflict: a watched key was written and the data is now
  \<open>st\<close>, whatever that is.
\<close>

record 'st attempt_env =
  at_now :: seconds
  at_uuid :: string
  at_watch :: "'st \<Rightarrow> 'st"
  at_conflict :: "'st option"

definition quiet :: "seconds \<Rightarrow> string \<Rightarrow> 'st attempt_env" where
  "quiet now uuid = \<lparr>at_now = now, at_uuid = uuid, at_watch = (\<lambda>s. s), at_conflict = None\<rparr>"

lemma quiet_sel [simp]:
  "at_now (quiet now u) = now" "at_uuid (quiet now u) = u" "at_watch (quiet now u) s = s"
  "at_conflict (quiet now u) = None"
  by (simp_all add: quiet_def)

subsection \<open>The job codec\<close>

record ('p, 'r) job_hash =
  h_job_id :: string
  h_spec :: "'p job_spec"
  h_status :: string
  h_created_at :: seconds
  h_updated_at :: seconds
  h_available_at :: seconds
  h_attempt :: int
  h_worker_id :: string
  h_lease_token :: string
  h_lease_expires_at :: "seconds option"
  h_cancel_requested :: string
  h_last_error :: string
  h_result :: "'r option"

fun status_value :: "job_status \<Rightarrow> string" where
  "status_value QUEUED = ''queued''"
| "status_value RUNNING = ''running''"
| "status_value RETRY_WAIT = ''retry_wait''"
| "status_value SUCCEEDED = ''succeeded''"
| "status_value FAILED = ''failed''"
| "status_value CANCELLED = ''cancelled''"

definition status_of_value :: "string \<Rightarrow> exc + job_status" where
  "status_of_value v =
     (if v = ''queued'' then Inr QUEUED else if v = ''running'' then Inr RUNNING
      else if v = ''retry_wait'' then Inr RETRY_WAIT else if v = ''succeeded'' then Inr SUCCEEDED
      else if v = ''failed'' then Inr FAILED else if v = ''cancelled'' then Inr CANCELLED
      else Inl (ValueError (v @ '' is not a valid JobStatus'')))"

lemma status_of_value_value [simp]: "status_of_value (status_value s) = Inr s"
  by (cases s) (simp_all add: status_of_value_def)

text \<open>\<open>x or ""\<close> for an optional text, and \<open>text or None\<close>.\<close>

definition text_of :: "string option \<Rightarrow> string" where
  "text_of x = (case x of None \<Rightarrow> [] | Some t \<Rightarrow> t)"

definition opt_of :: "string \<Rightarrow> string option" where
  "opt_of t = (if t = [] then None else Some t)"

definition job_mapping :: "('p, 'r) execution_job \<Rightarrow> ('p, 'r) job_hash" where
  "job_mapping j =
     \<lparr>h_job_id = job_id j, h_spec = spec j, h_status = status_value (status j),
      h_created_at = created_at j, h_updated_at = updated_at j, h_available_at = available_at j,
      h_attempt = attempt j, h_worker_id = text_of (worker_id j),
      h_lease_token = text_of (lease_token j), h_lease_expires_at = lease_expires_at j,
      h_cancel_requested = (if cancel_requested j then ''1'' else ''0''),
      h_last_error = text_of (last_error j), h_result = result j\<rparr>"

text \<open>Reading rebuilds the specification through its validating constructors.\<close>

definition job_from_hash :: "('p, 'r) job_hash \<Rightarrow> exc + ('p, 'r) execution_job" where
  "job_from_hash h =
     (let sp = h_spec h in
      case new_RetryPolicy (max_attempts (retry sp)) (initial_backoff_seconds (retry sp))
             (max_backoff_seconds (retry sp)) of
        Inl e \<Rightarrow> Inl e
      | Inr rt \<Rightarrow>
     case new_JobSpec (idempotency_key sp) (domain sp) (payload sp) (priority sp) rt
             (deadline_at sp) of
        Inl e \<Rightarrow> Inl e
      | Inr sp' \<Rightarrow>
     case status_of_value (h_status h) of
        Inl e \<Rightarrow> Inl e
      | Inr st \<Rightarrow>
        Inr \<lparr>job_id = h_job_id h, spec = sp', status = st, created_at = h_created_at h,
             updated_at = h_updated_at h, available_at = h_available_at h, attempt = h_attempt h,
             worker_id = opt_of (h_worker_id h), lease_token = opt_of (h_lease_token h),
             lease_expires_at = h_lease_expires_at h,
             cancel_requested = (h_cancel_requested h = ''1''),
             last_error = opt_of (h_last_error h), result = h_result h\<rparr>)"

text \<open>The texts of a job are clean when none of them is the empty string.\<close>

definition texts_ok :: "('p, 'r) execution_job \<Rightarrow> bool" where
  "texts_ok j \<longleftrightarrow> worker_id j \<noteq> Some [] \<and> lease_token j \<noteq> Some [] \<and> last_error j \<noteq> Some []"

lemma opt_of_text_of: "opt_of (text_of x) = (if x = Some [] then None else x)"
  by (cases x) (auto simp: opt_of_def text_of_def)

lemma new_RetryPolicy_same:
  "retry_ok r \<Longrightarrow> new_RetryPolicy (max_attempts r) (initial_backoff_seconds r) (max_backoff_seconds r)
     = Inr r"
  by (cases r) (simp add: new_RetryPolicy_def retry_ok_def)

lemma new_JobSpec_same:
  "job_spec_error sp = None \<Longrightarrow>
     new_JobSpec (idempotency_key sp) (domain sp) (payload sp) (priority sp) (retry sp)
       (deadline_at sp) = Inr sp"
  by (cases sp) (simp add: new_JobSpec_def)

lemma job_from_hash_mapping:
  assumes "spec_ok (spec j)"
  shows "job_from_hash (job_mapping j) = Inr (j\<lparr>
     worker_id := (if worker_id j = Some [] then None else worker_id j),
     lease_token := (if lease_token j = Some [] then None else lease_token j),
     last_error := (if last_error j = Some [] then None else last_error j)\<rparr>)"
  using assms
  by (simp add: job_from_hash_def job_mapping_def new_RetryPolicy_same new_JobSpec_same spec_ok_def
      opt_of_text_of)

lemma job_codec_roundtrip:
  "spec_ok (spec j) \<Longrightarrow> texts_ok j \<Longrightarrow> job_from_hash (job_mapping j) = Inr j"
  by (simp add: job_from_hash_mapping texts_ok_def)

lemma job_mapping_inject:
  "spec_ok (spec i) \<Longrightarrow> spec_ok (spec j) \<Longrightarrow> texts_ok i \<Longrightarrow> texts_ok j \<Longrightarrow>
     job_mapping i = job_mapping j \<longleftrightarrow> i = j"
  by (metis job_codec_roundtrip sum.inject(2))

text \<open>Up to the conversions of JSON and of decimal texts, which are the identity here, a job written to
  its Redis hash and read back passes the validating constructors again and
  comes back unchanged, except that a worker, lease token or error text that is the empty string
  reads back as absent; a hash whose status is none of the six values is rejected.\<close>

theorem job_hash_roundtrip:
  assumes "spec_ok (spec j)"
  shows "job_from_hash (job_mapping j) = Inr (j\<lparr>
       worker_id := (if worker_id j = Some [] then None else worker_id j),
       lease_token := (if lease_token j = Some [] then None else lease_token j),
       last_error := (if last_error j = Some [] then None else last_error j)\<rparr>) \<and>
    (v \<notin> status_value ` UNIV \<longrightarrow> (\<exists>e. job_from_hash ((job_mapping j)\<lparr>h_status := v\<rparr>) = Inl e))"
proof -
  have "\<exists>e. job_from_hash ((job_mapping j)\<lparr>h_status := v\<rparr>) = Inl e" if "v \<notin> status_value ` UNIV"
  proof -
    have ne: "v \<noteq> status_value st" for st using that by blast
    have "status_of_value v = Inl (ValueError (v @ '' is not a valid JobStatus''))"
      using ne [of QUEUED] ne [of RUNNING] ne [of RETRY_WAIT] ne [of SUCCEEDED] ne [of FAILED]
        ne [of CANCELLED]
      by (simp add: status_of_value_def)
    then show ?thesis
      using assms
      by (simp add: job_from_hash_def job_mapping_def new_RetryPolicy_same new_JobSpec_same spec_ok_def)
  qed
  with job_from_hash_mapping [OF assms] show ?thesis by blast
qed

definition ex_hash_spec :: "unit job_spec" where
  "ex_hash_spec = \<lparr>idempotency_key = ''key'', domain = ''cgt'', payload = (), priority = NORMAL,
     retry = default_retry, deadline_at = None\<rparr>"

theorem job_hash_roundtrip_witness:
  "job_from_hash (job_mapping (fresh_job ex_hash_spec ''j1'' 0 :: (unit, unit) execution_job)) =
     Inr (fresh_job ex_hash_spec ''j1'' 0) \<and>
   (\<exists>e. job_from_hash ((job_mapping (fresh_job ex_hash_spec ''j1'' 0 :: (unit, unit) execution_job))
      \<lparr>h_status := ''lost''\<rparr>) = Inl e)"
proof -
  let ?j = "fresh_job ex_hash_spec ''j1'' 0 :: (unit, unit) execution_job"
  have ok: "spec_ok (spec ?j)" unfolding fresh_job_def by code_simp
  have bad: "''lost'' \<notin> status_value ` UNIV"
  proof
    assume "''lost'' \<in> status_value ` UNIV"
    then obtain st where "''lost'' = status_value st" by blast
    then show False by (cases st) simp_all
  qed
  from job_hash_roundtrip [OF ok, of "''lost''"] bad show ?thesis
    by (simp add: fresh_job_def)
qed

end
