(* ===== verification/Job_Contract.thy ===== *)
theory Job_Contract
  imports Durable_Job
begin

section \<open>The contract of a durable job store\<close>

text \<open>
  What \<open>DurableJobStore\<close> in execution/durable.py promises of every job, whatever the backend: the
  status graph with the changes a step may make (\<open>job_follows\<close>), the invariant on jobs
  (\<open>job_ok\<close>), and the interface \<open>durable_store\<close>, a state machine together with the view of its
  jobs. What clients rely on is proved once in the interface; the in-memory store and the Redis
  stores interpret it.
\<close>

subsection \<open>The life cycle of a job\<close>

text \<open>The status changes a job may make in one step, and what a step keeps of it.\<close>

fun next_status :: "job_status \<Rightarrow> job_status \<Rightarrow> bool" where
  "next_status QUEUED t = (t \<in> {RUNNING, FAILED, CANCELLED})"
| "next_status RETRY_WAIT t = (t \<in> {RUNNING, FAILED, CANCELLED})"
| "next_status RUNNING t = True"
| "next_status SUCCEEDED t = False"
| "next_status FAILED t = False"
| "next_status CANCELLED t = False"

definition job_follows ::
    "('p, 'r) execution_job \<Rightarrow> ('p, 'r) execution_job \<Rightarrow> bool" where
  "job_follows j j' \<longleftrightarrow> j' = j \<or>
     (next_status (status j) (status j') \<and> job_id j' = job_id j \<and> spec j' = spec j \<and>
      created_at j' = created_at j \<and> (cancel_requested j \<longrightarrow> cancel_requested j') \<and>
      (lease_token j' = None \<or> lease_token j' = lease_token j
       \<or> waiting_status (status j) \<and> status j' = RUNNING) \<and>
      (attempt j' = attempt j
       \<or> waiting_status (status j) \<and> status j' = RUNNING \<and> attempt j' = attempt j + 1
       \<or> status j = RUNNING \<and> status j' = QUEUED \<and> attempt j' = attempt j - 1))"

lemma job_follows_refl [simp]: "job_follows j j"
  by (simp add: job_follows_def)

lemma job_follows_keeps:
  "job_follows j j' \<Longrightarrow> job_id j' = job_id j \<and> spec j' = spec j \<and> created_at j' = created_at j
     \<and> (cancel_requested j \<longrightarrow> cancel_requested j')"
  by (auto simp: job_follows_def)

lemma job_follows_terminal: "job_follows j j' \<Longrightarrow> terminal_status (status j) \<Longrightarrow> j' = j"
  by (auto simp: job_follows_def)

text \<open>A well-formed job whose back-off factor stays within the range of a float.\<close>

definition job_ok :: "('p, 'r) execution_job \<Rightarrow> bool" where
  "job_ok j \<longleftrightarrow> job_wf j \<and> max_attempts (retry (spec j)) \<le> 1024"

lemmas job_ok_defs = job_ok_def job_wf_def

lemma job_ok_expire: "job_ok j \<Longrightarrow> job_ok (snd (expire_deadline j now))"
  by (simp add: job_ok_def job_wf_expire_deadline)

lemma job_follows_expire: "job_follows j (snd (expire_deadline j now))"
  by (cases "status j") (auto simp: job_follows_def expire_deadline_def clear_lease_def)

subsection \<open>The interface\<close>

locale durable_store = transition_system start step inv
  for start :: "'s \<Rightarrow> bool" and step :: "'s \<Rightarrow> 's \<Rightarrow> bool" and inv :: "'s \<Rightarrow> bool" +
  fixes job_of :: "'s \<Rightarrow> string \<Rightarrow> ('p, 'r) execution_job option"
  assumes inv_job: "inv s \<Longrightarrow> job_of s k = Some j \<Longrightarrow> job_id j = k \<and> job_ok j"
    and step_job: "inv s \<Longrightarrow> step s t \<Longrightarrow> job_of s k = Some j \<Longrightarrow>
      \<exists>j'. job_of t k = Some j' \<and> job_follows j j'"
begin

lemma steps_terminal:
  assumes "inv s" and "step\<^sup>*\<^sup>* s t" and "job_of s k = Some j" and "terminal_status (status j)"
  shows "job_of t k = Some j"
proof (rule steps_stable [OF assms(2,1), where P = "\<lambda>s. job_of s k = Some j"])
  show "job_of s k = Some j" by (fact assms(3))
next
  fix u v
  assume "inv u" and "job_of u k = Some j" and "step u v"
  then show "job_of v k = Some j"
    using step_job job_follows_terminal [OF _ assms(4)] by blast
qed

lemma steps_spec:
  assumes "inv s" and "step\<^sup>*\<^sup>* s t" and "job_of s k = Some j"
  shows "\<exists>j'. job_of t k = Some j' \<and> job_id j' = k \<and> spec j' = spec j \<and>
    created_at j' = created_at j \<and> (cancel_requested j \<longrightarrow> cancel_requested j')"
proof (rule steps_stable [OF assms(2,1)])
  show "\<exists>j'. job_of s k = Some j' \<and> job_id j' = k \<and> spec j' = spec j \<and>
      created_at j' = created_at j \<and> (cancel_requested j \<longrightarrow> cancel_requested j')"
    using assms inv_job by auto
next
  fix u v
  assume u: "inv u" "step u v" "\<exists>j'. job_of u k = Some j' \<and> job_id j' = k \<and> spec j' = spec j \<and>
      created_at j' = created_at j \<and> (cancel_requested j \<longrightarrow> cancel_requested j')"
  then obtain i where i: "job_of u k = Some i" "job_id i = k" "spec i = spec j"
    "created_at i = created_at j" "cancel_requested j \<longrightarrow> cancel_requested i" by blast
  from step_job [OF u(1,2) i(1)] i(2-) show "\<exists>j'. job_of v k = Some j' \<and> job_id j' = k \<and>
      spec j' = spec j \<and> created_at j' = created_at j \<and> (cancel_requested j \<longrightarrow> cancel_requested j')"
    by (auto dest: job_follows_keeps)
qed

lemma steps_attempts:
  assumes "inv s" and "step\<^sup>*\<^sup>* s t" and "job_of s k = Some j"
  shows "\<exists>j'. job_of t k = Some j' \<and> attempt j' \<le> max_attempts (retry (spec j))"
proof -
  from steps_spec [OF assms] obtain j' where "job_of t k = Some j'" "spec j' = spec j" by blast
  moreover have "inv t" using steps_inv assms by blast
  ultimately show ?thesis using inv_job by (fastforce simp: job_ok_defs)
qed

end

end
