(* ===== verification/Memory_Store.thy ===== *)
theory Memory_Store
  imports Job_Contract
begin

section \<open>The in-memory durable job store (execution/durable.py)\<close>

text \<open>
  \<open>InMemoryDurableJobStore\<close>, the reference implementation of the durable execution state
  machine. Its object is the record \<open>mem_store\<close>; every method holds the store's lock from the
  first read to the last write, so a method is one function of the store. The clock reading
  \<open>now\<close> and the identifiers that \<open>uuid.uuid4\<close> returns are arguments. Methods return copies
  (\<open>copy.deepcopy\<close>), so the values returned and the store never share structure.

  The lemmas show that every method keeps the store invariant \<open>mem_inv\<close> and what each method
  does to each job; the step relation \<open>mem_step\<close> takes any method with any arguments and any
  clock reading, and \<open>transition_system\<close> is interpreted on it.
\<close>

record ('p, 'r) mem_store =
  jobs :: "(string, ('p, 'r) execution_job) dict"
  idempotency :: "(string, string) dict"

definition mem_empty :: "('p, 'r) mem_store" where
  "mem_empty = \<lparr>jobs = [], idempotency = []\<rparr>"

definition same_submission :: "'p job_spec \<Rightarrow> 'p job_spec \<Rightarrow> bool" where
  "same_submission existing submitted \<longleftrightarrow> existing = submitted"

definition mem_lookup ::
    "('p, 'r) mem_store \<Rightarrow> string \<Rightarrow> exc + ('p, 'r) execution_job" where
  "mem_lookup s jid =
     (case dict_get (jobs s) jid of None \<Rightarrow> Inl (JobNotFoundError jid) | Some j \<Rightarrow> Inr j)"

definition put_job ::
    "('p, 'r) execution_job \<Rightarrow> ('p, 'r) mem_store \<Rightarrow> ('p, 'r) mem_store" where
  "put_job j s = s\<lparr>jobs := dict_set (job_id j) j (jobs s)\<rparr>"

subsection \<open>Methods\<close>

definition mem_submit ::
    "'p job_spec \<Rightarrow> string \<Rightarrow> seconds \<Rightarrow> (('p, 'r) mem_store, ('p, 'r) submit_result) op" where
  "mem_submit sp uuid now s =
     (case dict_get (idempotency s) (idempotency_key sp) of
        Some existing_id \<Rightarrow>
          (case dict_get (jobs s) existing_id of
             None \<Rightarrow> (Inl (KeyError existing_id), s)
           | Some existing \<Rightarrow>
               if \<not> same_submission (spec existing) sp
               then (Inl (IdempotencyConflictError
                       (''idempotency key already belongs to another job: '' @ idempotency_key sp)), s)
               else (Inr \<lparr>submitted_job = existing, created = False\<rparr>, s))
      | None \<Rightarrow>
          let j = fresh_job sp uuid now
          in (Inr \<lparr>submitted_job = j, created = True\<rparr>,
              s\<lparr>jobs := dict_set uuid j (jobs s),
                idempotency := dict_set (idempotency_key sp) uuid (idempotency s)\<rparr>))"

definition mem_get :: "string \<Rightarrow> (('p, 'r) mem_store, ('p, 'r) execution_job) op" where
  "mem_get jid s = (mem_lookup s jid, s)"

definition domain_allowed :: "string list option \<Rightarrow> ('p, 'r) execution_job \<Rightarrow> bool" where
  "domain_allowed domains j = (case domains of None \<Rightarrow> True | Some ds \<Rightarrow> domain (spec j) \<in> set ds)"

definition claimable :: "string list option \<Rightarrow> seconds \<Rightarrow> ('p, 'r) execution_job \<Rightarrow> bool" where
  "claimable domains now j \<longleftrightarrow>
     waiting_status (status j) \<and> available_at j \<le> now \<and> \<not> cancel_requested j \<and>
     domain_allowed domains j"

definition mem_claim ::
    "string \<Rightarrow> seconds \<Rightarrow> string list option \<Rightarrow> string \<Rightarrow> seconds
      \<Rightarrow> (('p, 'r) mem_store, ('p, 'r) execution_job option) op" where
  "mem_claim w lease_seconds domains uuid now s =
     (if blank w then (Inl (ValueError ''worker_id cannot be empty''), s)
      else if lease_seconds \<le> 0 then (Inl (ValueError ''lease_seconds must be positive''), s)
      else
        let s1 = s\<lparr>jobs := dict_map (\<lambda>j. snd (expire_deadline j now)) (jobs s)\<rparr>;
            candidates = filter (claimable domains now) (map snd (jobs s1))
        in case least_by claim_key candidates of
             None \<Rightarrow> (Inr None, s1)
           | Some j \<Rightarrow>
               let j' = start_lease w uuid now lease_seconds j
               in (Inr (Some j'), put_job j' s1))"

text \<open>\<open>_get\<close> followed by \<open>_assert_lease\<close>, as every method of a lease holder begins.\<close>

definition with_lease ::
    "string \<Rightarrow> string \<Rightarrow> string \<Rightarrow> seconds
      \<Rightarrow> (('p, 'r) execution_job \<Rightarrow> (exc + 'a) \<times> ('p, 'r) mem_store)
      \<Rightarrow> (('p, 'r) mem_store, 'a) op" where
  "with_lease jid w tok now body s =
     (case mem_lookup s jid of
        Inl e \<Rightarrow> (Inl e, s)
      | Inr j \<Rightarrow>
          if \<not> lease_active j w tok now
          then (Inl (JobLeaseLostError (''job lease is not active: '' @ job_id j)), s)
          else body j)"

definition mem_heartbeat ::
    "string \<Rightarrow> string \<Rightarrow> string \<Rightarrow> seconds \<Rightarrow> seconds
      \<Rightarrow> (('p, 'r) mem_store, ('p, 'r) execution_job) op" where
  "mem_heartbeat jid w tok lease_seconds now s =
     (if lease_seconds \<le> 0 then (Inl (ValueError ''lease_seconds must be positive''), s)
      else with_lease jid w tok now (\<lambda>j.
        if deadline_expired j now
        then (Inl (JobLeaseLostError (''job deadline expired: '' @ jid)),
              put_job (snd (expire_deadline j now)) s)
        else let j' = j\<lparr>lease_expires_at := Some (now + lease_seconds), updated_at := now\<rparr>
             in (Inr j', put_job j' s)) s)"

definition mem_release_unstarted_claim ::
    "string \<Rightarrow> string \<Rightarrow> string \<Rightarrow> seconds \<Rightarrow> seconds
      \<Rightarrow> (('p, 'r) mem_store, ('p, 'r) execution_job) op" where
  "mem_release_unstarted_claim jid w tok delay_seconds now s =
     (if delay_seconds < 0 then (Inl (ValueError ''delay_seconds cannot be negative''), s)
      else with_lease jid w tok now (\<lambda>j.
        let j' = clear_lease (j\<lparr>status := QUEUED, attempt := max (attempt j - 1) 0,
                                available_at := now + delay_seconds, updated_at := now\<rparr>)
        in (Inr j', put_job j' s)) s)"

definition mem_succeed ::
    "string \<Rightarrow> string \<Rightarrow> string \<Rightarrow> 'r option \<Rightarrow> seconds
      \<Rightarrow> (('p, 'r) mem_store, ('p, 'r) execution_job) op" where
  "mem_succeed jid w tok res now s =
     with_lease jid w tok now (\<lambda>j.
       let j' =
         (if cancel_requested j then clear_lease (j\<lparr>status := CANCELLED, updated_at := now\<rparr>)
          else if deadline_expired j now then snd (expire_deadline j now)
          else clear_lease (j\<lparr>status := SUCCEEDED, result := res, last_error := None,
                              updated_at := now\<rparr>))
       in (Inr j', put_job j' s)) s"

definition mem_fail ::
    "string \<Rightarrow> string \<Rightarrow> string \<Rightarrow> string \<Rightarrow> seconds
      \<Rightarrow> (('p, 'r) mem_store, ('p, 'r) execution_job) op" where
  "mem_fail jid w tok error now s =
     with_lease jid w tok now (\<lambda>j0.
       let j = clear_lease (j0\<lparr>last_error := Some error, updated_at := now\<rparr>)
       in if cancel_requested j
          then (let j' = j\<lparr>status := CANCELLED\<rparr> in (Inr j', put_job j' s))
          else if deadline_expired j now
          then (let j' = j\<lparr>status := FAILED, last_error := Some ''deadline_exceeded''\<rparr>
                in (Inr j', put_job j' s))
          else if max_attempts (retry (spec j)) \<le> attempt j
          then (let j' = j\<lparr>status := FAILED\<rparr> in (Inr j', put_job j' s))
          else case delay_after_attempt (retry (spec j)) (attempt j) of
              Inl e \<Rightarrow> (Inl e, put_job j s)
            | Inr delay \<Rightarrow>
                let retry_at = now + delay
                in if (case deadline_at (spec j) of None \<Rightarrow> False | Some d \<Rightarrow> d \<le> retry_at)
                   then (let j' = j\<lparr>status := FAILED, last_error := Some ''deadline_exceeded''\<rparr>
                         in (Inr j', put_job j' s))
                   else (let j' = j\<lparr>status := RETRY_WAIT, available_at := retry_at\<rparr>
                         in (Inr j', put_job j' s))) s"

definition mem_request_cancel ::
    "string \<Rightarrow> seconds \<Rightarrow> (('p, 'r) mem_store, ('p, 'r) execution_job) op" where
  "mem_request_cancel jid now s =
     (case mem_lookup s jid of
        Inl e \<Rightarrow> (Inl e, s)
      | Inr j \<Rightarrow>
          if terminal_status (status j) then (Inr j, s)
          else
            let j1 = j\<lparr>cancel_requested := True, updated_at := now\<rparr>;
                j' = (if waiting_status (status j1) then j1\<lparr>status := CANCELLED\<rparr> else j1)
            in (Inr j', put_job j' s))"

definition mem_cancel_claimed ::
    "string \<Rightarrow> string \<Rightarrow> string \<Rightarrow> seconds
      \<Rightarrow> (('p, 'r) mem_store, ('p, 'r) execution_job) op" where
  "mem_cancel_claimed jid w tok now s =
     with_lease jid w tok now (\<lambda>j.
       let j' = clear_lease (j\<lparr>status := CANCELLED, cancel_requested := True, updated_at := now\<rparr>)
       in (Inr j', put_job j' s)) s"

text \<open>One iteration of the recovery loop: whether the job counts as recovered, and the job after.\<close>

definition recover_job ::
    "seconds \<Rightarrow> ('p, 'r) execution_job \<Rightarrow> bool \<times> ('p, 'r) execution_job" where
  "recover_job now j =
     (if status j \<noteq> RUNNING then (False, j)
      else if (case lease_expires_at j of None \<Rightarrow> True | Some e \<Rightarrow> now < e) then (False, j)
      else
        let j1 = (clear_lease j)\<lparr>updated_at := now, last_error := Some ''worker_lease_expired''\<rparr>
        in (True,
            if cancel_requested j1 then j1\<lparr>status := CANCELLED\<rparr>
            else if deadline_expired j1 now
              then j1\<lparr>status := FAILED, last_error := Some ''deadline_exceeded''\<rparr>
            else if max_attempts (retry (spec j1)) \<le> attempt j1 then j1\<lparr>status := FAILED\<rparr>
            else j1\<lparr>status := QUEUED, available_at := now\<rparr>))"

definition mem_recover_expired_leases :: "seconds \<Rightarrow> (('p, 'r) mem_store, int) op" where
  "mem_recover_expired_leases now s =
     (Inr (int (length (filter (\<lambda>(k, j). fst (recover_job now j)) (jobs s)))),
      s\<lparr>jobs := dict_map (\<lambda>j. snd (recover_job now j)) (jobs s)\<rparr>)"

lemmas mem_op_defs =
  mem_submit_def mem_get_def mem_claim_def mem_heartbeat_def mem_release_unstarted_claim_def
  mem_succeed_def mem_fail_def mem_request_cancel_def mem_cancel_claimed_def
  mem_recover_expired_leases_def

subsection \<open>The recovery loop keeps jobs well-formed\<close>

lemma job_ok_recover: "job_ok j \<Longrightarrow> job_ok (snd (recover_job now j))"
  by (cases "status j")
    (auto simp: recover_job_def job_ok_defs clear_lease_def Let_def split: option.splits)

lemma job_follows_recover: "job_follows j (snd (recover_job now j))"
  by (cases "status j") (auto simp: recover_job_def job_follows_def clear_lease_def Let_def)

subsection \<open>The store invariant\<close>

text \<open>
  Jobs are stored under their own identifiers, every job is well-formed, and the idempotency
  index maps each key to exactly the one job submitted with it.
\<close>

definition mem_inv :: "('p, 'r) mem_store \<Rightarrow> bool" where
  "mem_inv s \<longleftrightarrow>
     dict_ok (jobs s) \<and> dict_ok (idempotency s) \<and>
     (\<forall>k j. dict_get (jobs s) k = Some j \<longrightarrow> job_id j = k \<and> job_ok j) \<and>
     (\<forall>key jid. dict_get (idempotency s) key = Some jid \<longleftrightarrow>
        (\<exists>j. dict_get (jobs s) jid = Some j \<and> idempotency_key (spec j) = key))"

lemma mem_inv_empty: "mem_inv mem_empty"
  by (simp add: mem_inv_def mem_empty_def)

lemma mem_inv_job:
  "mem_inv s \<Longrightarrow> dict_get (jobs s) k = Some j \<Longrightarrow> job_id j = k \<and> job_ok j"
  by (simp add: mem_inv_def)

lemma mem_inv_key_unique:
  assumes "mem_inv s" and "dict_get (jobs s) k = Some j" and "dict_get (jobs s) k' = Some j'"
    and "idempotency_key (spec j) = idempotency_key (spec j')"
  shows "k = k'"
proof -
  from assms have "dict_get (idempotency s) (idempotency_key (spec j)) = Some k"
    and "dict_get (idempotency s) (idempotency_key (spec j)) = Some k'"
    by (auto simp: mem_inv_def)
  then show ?thesis by simp
qed

text \<open>Replacing jobs by successors keeps the invariant: one job, or all of them.\<close>

lemma mem_inv_put:
  assumes "mem_inv s" and "dict_get (jobs s) jid = Some j" and "job_ok j'" and "job_follows j j'"
  shows "mem_inv (put_job j' s)"
proof -
  from assms have id: "job_id j' = jid" "spec j' = spec j"
    by (auto simp: mem_inv_def dest: job_follows_keeps)
  show ?thesis
    using assms id unfolding mem_inv_def put_job_def
    by (auto simp: dict_simps)
qed

lemma mem_inv_map:
  assumes "mem_inv s" and ok: "\<And>j. job_ok j \<Longrightarrow> job_ok (f j)" and fo: "\<And>j. job_follows j (f j)"
  shows "mem_inv (s\<lparr>jobs := dict_map f (jobs s)\<rparr>)"
proof -
  have "job_id (f j) = job_id j" and "spec (f j) = spec j" for j
    using job_follows_keeps [OF fo [of j]] by auto
  then show ?thesis
    using assms(1) ok unfolding mem_inv_def by (auto simp: dict_simps)
qed

text \<open>
  The effect of a method on the jobs that exist: the store is as before, or one job was
  replaced by a well-formed successor.
\<close>

definition job_update :: "('p, 'r) mem_store \<Rightarrow> ('p, 'r) mem_store \<Rightarrow> bool" where
  "job_update s t \<longleftrightarrow> t = s \<or>
     (\<exists>jid j j'. dict_get (jobs s) jid = Some j \<and> job_ok j' \<and> job_follows j j' \<and> t = put_job j' s)"

lemma job_update_refl [simp]: "job_update s s"
  by (simp add: job_update_def)

lemma job_update_put:
  "dict_get (jobs s) jid = Some j \<Longrightarrow> job_ok j' \<Longrightarrow> job_follows j j' \<Longrightarrow> job_update s (put_job j' s)"
  by (auto simp: job_update_def)

lemma mem_inv_job_update: "mem_inv s \<Longrightarrow> job_update s t \<Longrightarrow> mem_inv t"
  by (auto simp: job_update_def intro: mem_inv_put)

lemma job_update_job:
  assumes "mem_inv s" and "job_update s t" and "dict_get (jobs s) k = Some j"
  shows "\<exists>j'. dict_get (jobs t) k = Some j' \<and> job_follows j j'"
proof (cases "t = s")
  case True
  with assms show ?thesis by auto
next
  case False
  then obtain jid i i' where i: "dict_get (jobs s) jid = Some i" "job_follows i i'"
    "t = put_job i' s"
    using assms(2) by (auto simp: job_update_def)
  with assms(1) have "job_id i' = jid" by (auto dest: mem_inv_job job_follows_keeps)
  with i assms(3) show ?thesis by (auto simp: put_job_def dict_simps)
qed

lemma with_lease_update:
  assumes "mem_inv s"
    and "\<And>j. dict_get (jobs s) jid = Some j \<Longrightarrow> job_ok j \<Longrightarrow> lease_active j w tok now \<Longrightarrow>
          job_update s (snd (body j))"
  shows "job_update s (snd (with_lease jid w tok now body s))"
proof (cases "dict_get (jobs s) jid")
  case None
  then show ?thesis by (simp add: with_lease_def mem_lookup_def)
next
  case (Some j)
  with assms show ?thesis
    by (auto simp: with_lease_def mem_lookup_def dest: mem_inv_job)
qed

lemma heartbeat_update:
  assumes "mem_inv s"
  shows "job_update s (snd (mem_heartbeat jid w tok ls now s))"
proof (cases "ls \<le> 0")
  case True
  then show ?thesis by (simp add: mem_heartbeat_def)
next
  case False
  show ?thesis
    unfolding mem_heartbeat_def if_not_P [OF False]
  proof (rule with_lease_update [OF assms])
    fix j
    assume "dict_get (jobs s) jid = Some j" and "job_ok j" and "lease_active j w tok now"
    then show "job_update s (snd (if deadline_expired j now
        then (Inl (JobLeaseLostError (''job deadline expired: '' @ jid)),
              put_job (snd (expire_deadline j now)) s)
        else let j' = j\<lparr>lease_expires_at := Some (now + ls), updated_at := now\<rparr>
             in (Inr j', put_job j' s)))"
      by (auto simp: Let_def lease_active_iff job_ok_expire job_follows_expire
          intro!: job_update_put) (auto simp: job_ok_defs job_follows_def)
  qed
qed

lemma release_update:
  assumes "mem_inv s"
  shows "job_update s (snd (mem_release_unstarted_claim jid w tok d now s))"
  unfolding mem_release_unstarted_claim_def
  by (auto simp: Let_def lease_active_iff clear_lease_def job_ok_defs job_follows_def
      intro!: with_lease_update [OF assms] job_update_put)

lemma succeed_update:
  assumes "mem_inv s"
  shows "job_update s (snd (mem_succeed jid w tok res now s))"
  unfolding mem_succeed_def
  by (auto simp: Let_def lease_active_iff clear_lease_def expire_deadline_def job_ok_defs
      job_follows_def intro!: with_lease_update [OF assms] job_update_put)

lemma delay_defined:
  assumes "job_ok j" and "status j = RUNNING"
  shows "\<exists>d. delay_after_attempt (retry (spec j)) (attempt j) = Inr d"
  using assms by (auto simp: delay_after_attempt_def job_ok_defs)

lemma cancel_claimed_update:
  assumes "mem_inv s"
  shows "job_update s (snd (mem_cancel_claimed jid w tok now s))"
  unfolding mem_cancel_claimed_def
  by (auto simp: Let_def lease_active_iff clear_lease_def job_ok_defs job_follows_def
      intro!: with_lease_update [OF assms] job_update_put)

lemma request_cancel_update:
  assumes "mem_inv s"
  shows "job_update s (snd (mem_request_cancel jid now s))"
proof (cases "dict_get (jobs s) jid")
  case None
  then show ?thesis by (simp add: mem_request_cancel_def mem_lookup_def)
next
  case (Some j)
  with assms have "job_ok j" by (auto dest: mem_inv_job)
  with Some show ?thesis
    by (cases "status j")
      (auto simp: mem_request_cancel_def mem_lookup_def Let_def job_ok_defs job_follows_def
        intro!: job_update_put)
qed

lemma fail_update:
  assumes "mem_inv s"
  shows "job_update s (snd (mem_fail jid w tok err now s))"
  unfolding mem_fail_def
proof (rule with_lease_update [OF assms], goal_cases)
  case (1 j)
  then have run: "status j = RUNNING" by (simp add: lease_active_iff)
  with 1 obtain d where "delay_after_attempt (retry (spec j)) (attempt j) = Inr d"
    using delay_defined by blast
  with 1 run show ?case
    by (auto simp: Let_def clear_lease_def job_ok_defs job_follows_def intro!: job_update_put)
qed

lemma submit_inv:
  assumes "mem_inv s" and "spec_ok sp" and "max_attempts (retry sp) \<le> 1024"
    and "dict_get (jobs s) uuid = None"
  shows "mem_inv (snd (mem_submit sp uuid now s))"
proof (cases "dict_get (idempotency s) (idempotency_key sp)")
  case (Some e)
  then show ?thesis using assms(1) by (auto simp: mem_submit_def split: option.splits)
next
  case None
  have new: "job_ok (fresh_job sp uuid now :: ('a, 'b) execution_job)"
    using assms(2,3) by (simp add: job_ok_def job_wf_fresh)
  have "\<nexists>key. dict_get (idempotency s) key = Some uuid"
    using assms(1,4) by (auto simp: mem_inv_def)
  moreover have "\<nexists>k j. dict_get (jobs s) k = Some j \<and> idempotency_key (spec j) = idempotency_key sp"
    using assms(1) None unfolding mem_inv_def by (metis option.distinct(1))
  ultimately show ?thesis
    using assms None new unfolding mem_inv_def mem_submit_def
    by (auto simp: dict_simps Let_def)
qed

lemma submit_keeps_jobs:
  assumes "dict_get (jobs s) uuid = None" and "dict_get (jobs s) k = Some j"
  shows "dict_get (jobs (snd (mem_submit sp uuid now s))) k = Some j"
  using assms by (auto simp: mem_submit_def Let_def dict_simps split: option.splits)

subsection \<open>Claims\<close>

definition expire_all :: "seconds \<Rightarrow> ('p, 'r) mem_store \<Rightarrow> ('p, 'r) mem_store" where
  "expire_all now s = s\<lparr>jobs := dict_map (\<lambda>j. snd (expire_deadline j now)) (jobs s)\<rparr>"

lemma mem_inv_expire_all: "mem_inv s \<Longrightarrow> mem_inv (expire_all now s)"
  unfolding expire_all_def by (rule mem_inv_map) (auto intro: job_ok_expire job_follows_expire)

lemma get_expire_all [dict_simps]:
  "dict_get (jobs (expire_all now s)) k =
     map_option (\<lambda>j. snd (expire_deadline j now)) (dict_get (jobs s) k)"
  by (simp add: expire_all_def dict_simps)

lemma inj_on_claim_key:
  assumes "mem_inv s"
  shows "inj_on claim_key (set (map snd (jobs s)))"
proof (rule inj_onI)
  fix i j
  assume "i \<in> set (map snd (jobs s))" and "j \<in> set (map snd (jobs s))"
    and "claim_key i = claim_key j"
  then obtain k l where kl: "dict_get (jobs s) k = Some i" "dict_get (jobs s) l = Some j"
    and "job_id i = job_id j"
    using assms by (auto simp: mem_inv_def dict_values_iff claim_key_def simp del: set_map)
  moreover from kl have "job_id i = k" "job_id j = l"
    using assms by (auto dest: mem_inv_job)
  ultimately show "i = j" by simp
qed

text \<open>
  The two outcomes of an accepted claim: nothing is claimable after the deadline sweep, or the
  claimable job that is first in the claim order got the lease.
\<close>

lemma claim_cases:
  assumes "mem_inv s" and "\<not> blank w" and "0 < ls"
  obtains (none) "mem_claim w ls ds uuid now s = (Inr None, expire_all now s)"
      and "\<And>k j. dict_get (jobs (expire_all now s)) k = Some j \<Longrightarrow> \<not> claimable ds now j"
    | (some) j where "dict_get (jobs (expire_all now s)) (job_id j) = Some j"
      and "claimable ds now j"
      and "\<And>k i. dict_get (jobs (expire_all now s)) k = Some i \<Longrightarrow> claimable ds now i \<Longrightarrow>
             claim_key j \<le> claim_key i"
      and "mem_claim w ls ds uuid now s =
             (Inr (Some (start_lease w uuid now ls j)),
              put_job (start_lease w uuid now ls j) (expire_all now s))"
proof -
  let ?s = "expire_all now s"
  let ?c = "filter (claimable ds now) (map snd (jobs ?s))"
  have inv: "mem_inv ?s" using assms(1) by (rule mem_inv_expire_all)
  then have vals: "i \<in> set ?c \<longleftrightarrow> (\<exists>k. dict_get (jobs ?s) k = Some i) \<and> claimable ds now i" for i
    by (auto simp: mem_inv_def dict_values_iff simp del: set_map)
  have eq: "mem_claim w ls ds uuid now s = (case least_by claim_key ?c of
      None \<Rightarrow> (Inr None, ?s)
    | Some j \<Rightarrow> (Inr (Some (start_lease w uuid now ls j)), put_job (start_lease w uuid now ls j) ?s))"
    using assms(2,3) by (auto simp: mem_claim_def expire_all_def Let_def split: option.split)
  show ?thesis
  proof (cases "least_by claim_key ?c")
    case None
    then have "?c = []" by simp
    then have "\<not> claimable ds now j" if "dict_get (jobs ?s) k = Some j" for k j
      using vals that by (metis empty_iff list.set(1))
    with eq None show ?thesis by (intro none) auto
  next
    case (Some j)
    note min = least_by_SomeD [OF Some]
    from min(1) obtain k where k: "dict_get (jobs ?s) k = Some j" and "claimable ds now j"
      using vals by blast
    with inv have "dict_get (jobs ?s) (job_id j) = Some j" by (auto dest: mem_inv_job)
    with k \<open>claimable ds now j\<close> min(2) vals eq Some show ?thesis
      by (intro some [of j]) auto
  qed
qed

lemma mem_claim_rejected: "blank w \<or> ls \<le> 0 \<Longrightarrow> snd (mem_claim w ls ds uuid now s) = s"
  by (auto simp: mem_claim_def)

lemma claimable_waiting: "claimable ds now j \<Longrightarrow> waiting_status (status j)"
  by (simp add: claimable_def)

lemma start_lease_follows:
  "waiting_status (status j) \<Longrightarrow> job_follows j (start_lease w tok now ls j)"
  by (cases "status j") (auto simp: start_lease_def job_follows_def)

lemma claim_inv:
  assumes "mem_inv s"
  shows "mem_inv (snd (mem_claim w ls ds uuid now s))"
proof (cases "blank w \<or> ls \<le> 0")
  case True
  then show ?thesis using assms by (auto simp: mem_claim_rejected)
next
  case False
  then have *: "\<not> blank w" "0 < ls" by auto
  note inv = mem_inv_expire_all [OF assms]
  from assms * show ?thesis
  proof (cases rule: claim_cases [where ds = ds and uuid = uuid and now = now])
    case none
    then show ?thesis by (simp add: inv)
  next
    case (some j)
    with inv have "job_ok j" by (auto dest: mem_inv_job)
    with some have "job_ok (start_lease w uuid now ls j)"
      by (auto simp: job_ok_def job_wf_start_lease dest!: claimable_waiting)
    then have "mem_inv (put_job (start_lease w uuid now ls j) (expire_all now s))"
      using mem_inv_put [OF inv some(1)] start_lease_follows [OF claimable_waiting [OF some(2)]]
      by blast
    with some show ?thesis by simp
  qed
qed

lemma claim_job:
  assumes "mem_inv s" and "dict_get (jobs s) k = Some j"
  shows "\<exists>j'. dict_get (jobs (snd (mem_claim w ls ds uuid now s))) k = Some j' \<and> job_follows j j'"
proof (cases "blank w \<or> ls \<le> 0")
  case True
  then show ?thesis using assms by (auto simp: mem_claim_rejected)
next
  case False
  then have *: "\<not> blank w" "0 < ls" by auto
  let ?x = "snd (expire_deadline j now)"
  have x: "dict_get (jobs (expire_all now s)) k = Some ?x" using assms(2) by (simp add: dict_simps)
  from assms(1) * show ?thesis
  proof (cases rule: claim_cases [where ds = ds and uuid = uuid and now = now])
    case none
    with x show ?thesis by (auto intro: job_follows_expire)
  next
    case (some i)
    show ?thesis
    proof (cases "k = job_id i")
      case True
      with x some(1) have "i = ?x" by simp
      with some(2) have "?x = j"
        by (auto simp: expire_deadline_def clear_lease_def claimable_def split: if_splits)
      with \<open>i = ?x\<close> True some show ?thesis
        by (auto simp: put_job_def dict_simps start_lease_def dest!: claimable_waiting)
          (auto simp: job_follows_def)
    next
      case False
      with x some show ?thesis
        by (auto simp: put_job_def dict_simps start_lease_def intro: job_follows_expire)
    qed
  qed
qed

lemma recover_inv: "mem_inv s \<Longrightarrow> mem_inv (snd (mem_recover_expired_leases now s))"
  by (simp add: mem_recover_expired_leases_def mem_inv_map job_ok_recover job_follows_recover)

end
