(* ===== verification/Redis_Store.thy ===== *)
theory Redis_Store
  imports Redis_Model Memory_Store
begin

section \<open>The Redis job store (execution/redis_store.py)\<close>

text \<open>
  \<open>RedisDurableJobStore\<close>: job hashes, the idempotency keys, the queue index (scores are
  \<open>available_at\<close>) and the running index (scores are \<open>lease_expires_at\<close>). Each method is a
  loop of at most eight (claims: twelve) optimistic attempts; \<open>env i\<close> is what the \<open>i\<close>-th
  attempt meets. Every branch of a loop body is kept: missing hashes, stale index entries, lost
  leases, conflicts, and the exceptions raised when the attempts are used up.
\<close>

record ('p, 'r) redis_store =
  hashes :: "(string, ('p, 'r) job_hash) dict"
  idem :: "(string, string) dict"
  queue :: zset
  running :: zset

definition redis_empty :: "('p, 'r) redis_store" where
  "redis_empty = \<lparr>hashes = [], idem = [], queue = [], running = []\<rparr>"

type_synonym ('p, 'r) env = "('p, 'r) redis_store attempt_env"

definition hset_job ::
    "string \<Rightarrow> ('p, 'r) execution_job \<Rightarrow> ('p, 'r) redis_store \<Rightarrow> ('p, 'r) redis_store" where
  "hset_job jid j s = s\<lparr>hashes := dict_set jid (job_mapping j) (hashes s)\<rparr>"

definition redis_lookup :: "string \<Rightarrow> ('p, 'r) redis_store \<Rightarrow> exc + ('p, 'r) execution_job" where
  "redis_lookup jid s =
     (case dict_get (hashes s) jid of None \<Rightarrow> Inl (JobNotFoundError jid) | Some h \<Rightarrow> job_from_hash h)"

definition redis_get :: "string \<Rightarrow> (('p, 'r) redis_store, ('p, 'r) execution_job) op" where
  "redis_get jid s = (redis_lookup jid s, s)"

subsection \<open>Submission\<close>

fun submit_loop ::
    "'p job_spec \<Rightarrow> ('p, 'r) env list \<Rightarrow> (('p, 'r) redis_store, ('p, 'r) submit_result) op" where
  "submit_loop sp [] s =
     (Inl (RuntimeError ''durable submit contention exceeded retry budget''), s)"
| "submit_loop sp (a # as) s0 =
     (let s = at_watch a s0; existing = dict_get (idem s) (idempotency_key sp)
      in if existing \<noteq> None \<and> existing \<noteq> Some []
         then case redis_lookup (the existing) s of
                Inl e \<Rightarrow> (Inl e, s)
              | Inr j \<Rightarrow>
                  if spec j \<noteq> sp
                  then (Inl (IdempotencyConflictError
                         (''idempotency key already belongs to another job: '' @ idempotency_key sp)), s)
                  else (Inr \<lparr>submitted_job = j, created = False\<rparr>, s)
         else
           let now = at_now a; j = fresh_job sp (at_uuid a) now
           in case at_conflict a of
                Some st \<Rightarrow> submit_loop sp as st
              | None \<Rightarrow>
                  (Inr \<lparr>submitted_job = j, created = True\<rparr>,
                   (hset_job (at_uuid a) j s)
                     \<lparr>idem := dict_set (idempotency_key sp) (at_uuid a) (idem s),
                      queue := zadd (at_uuid a) now (queue s)\<rparr>))"

definition redis_submit ::
    "'p job_spec \<Rightarrow> (nat \<Rightarrow> ('p, 'r) env) \<Rightarrow> (('p, 'r) redis_store, ('p, 'r) submit_result) op" where
  "redis_submit sp env s = submit_loop sp (map env [0..<8]) s"

subsection \<open>Claims\<close>

definition fail_deadline :: "seconds \<Rightarrow> ('p, 'r) execution_job \<Rightarrow> ('p, 'r) execution_job" where
  "fail_deadline now j =
     j\<lparr>status := FAILED, last_error := Some ''deadline_exceeded'', updated_at := now,
       worker_id := None, lease_token := None, lease_expires_at := None\<rparr>"

fun expire_loop ::
    "string \<Rightarrow> seconds \<Rightarrow> ('p, 'r) env list \<Rightarrow> (('p, 'r) redis_store, bool) op" where
  "expire_loop jid now [] s = (Inr False, s)"
| "expire_loop jid now (a # as) s0 =
     (let s = at_watch a s0 in
      case dict_get (hashes s) jid of
        None \<Rightarrow>
          (case at_conflict a of
             Some st \<Rightarrow> expire_loop jid now as st
           | None \<Rightarrow> (Inr False, s\<lparr>queue := zrem jid (queue s)\<rparr>))
      | Some h \<Rightarrow>
     case job_from_hash h of
        Inl e \<Rightarrow> (Inl e, s)
      | Inr j \<Rightarrow>
          if \<not> waiting_status (status j) then (Inr False, s)
          else if \<not> deadline_expired j now then (Inr False, s)
          else case at_conflict a of
              Some st \<Rightarrow> expire_loop jid now as st
            | None \<Rightarrow>
                (Inr True, (hset_job jid (fail_deadline now j) s)\<lparr>queue := zrem jid (queue s)\<rparr>))"

definition expire_queued_deadline ::
    "string \<Rightarrow> seconds \<Rightarrow> (nat \<Rightarrow> ('p, 'r) env) \<Rightarrow> (('p, 'r) redis_store, bool) op" where
  "expire_queued_deadline jid now env s = expire_loop jid now (map env [0..<8]) s"

text \<open>The scan over the candidate identifiers, which also cleans the queue and expires jobs.\<close>

fun claim_scan ::
    "string list option \<Rightarrow> seconds \<Rightarrow> (string \<Rightarrow> nat \<Rightarrow> ('p, 'r) env) \<Rightarrow> string list
      \<Rightarrow> (('p, 'r) redis_store, ('p, 'r) execution_job list) op" where
  "claim_scan ds now xenv [] s = (Inr [], s)"
| "claim_scan ds now xenv (jid # ids) s =
     (case dict_get (hashes s) jid of
        None \<Rightarrow> claim_scan ds now xenv ids (s\<lparr>queue := zrem jid (queue s)\<rparr>)
      | Some h \<Rightarrow>
     case job_from_hash h of
        Inl e \<Rightarrow> (Inl e, s)
      | Inr j \<Rightarrow>
          if \<not> waiting_status (status j)
          then claim_scan ds now xenv ids (s\<lparr>queue := zrem jid (queue s)\<rparr>)
          else if cancel_requested j then claim_scan ds now xenv ids s
          else if deadline_expired j now
          then (case expire_queued_deadline jid now (xenv jid) s of
                  (Inl e, s') \<Rightarrow> (Inl e, s')
                | (Inr _, s') \<Rightarrow> claim_scan ds now xenv ids s')
          else if \<not> domain_allowed ds j then claim_scan ds now xenv ids s
          else (case claim_scan ds now xenv ids s of
                  (Inl e, s') \<Rightarrow> (Inl e, s')
                | (Inr js, s') \<Rightarrow> (Inr (j # js), s')))"

fun claim_loop ::
    "string \<Rightarrow> seconds \<Rightarrow> string list option \<Rightarrow> (nat \<Rightarrow> string \<Rightarrow> nat \<Rightarrow> ('p, 'r) env)
      \<Rightarrow> ('p, 'r) env list \<Rightarrow> (('p, 'r) redis_store, ('p, 'r) execution_job option) op" where
  "claim_loop w ls ds xenv [] s = (Inr None, s)"
| "claim_loop w ls ds xenv (a # as) s =
     (let now = at_now a in
      case claim_scan ds now (xenv (length as)) (zrangebyscore (queue s) now) s of
        (Inl e, s1) \<Rightarrow> (Inl e, s1)
      | (Inr cands, s1) \<Rightarrow>
     case least_by claim_key cands of
        None \<Rightarrow> (Inr None, s1)
      | Some sel \<Rightarrow>
     let s2 = at_watch a s1 in
     case dict_get (hashes s2) (job_id sel) of
        None \<Rightarrow> claim_loop w ls ds xenv as s2
      | Some h \<Rightarrow>
     case job_from_hash h of
        Inl e \<Rightarrow> (Inl e, s2)
      | Inr cur \<Rightarrow>
          if \<not> waiting_status (status cur) then claim_loop w ls ds xenv as s2
          else if now < available_at cur \<or> cancel_requested cur then claim_loop w ls ds xenv as s2
          else if deadline_expired cur now then claim_loop w ls ds xenv as s2
          else if \<not> domain_allowed ds cur then claim_loop w ls ds xenv as s2
          else
            let cur' = start_lease w (at_uuid a) now ls cur
            in case at_conflict a of
                 Some st \<Rightarrow> claim_loop w ls ds xenv as st
               | None \<Rightarrow>
                   (Inr (Some cur'),
                    hset_job (job_id sel) cur'
                      (s2\<lparr>queue := zrem (job_id cur) (queue s2),
                          running := zadd (job_id cur) (now + ls) (running s2)\<rparr>)))"

definition redis_claim ::
    "string \<Rightarrow> seconds \<Rightarrow> string list option \<Rightarrow> (nat \<Rightarrow> string \<Rightarrow> nat \<Rightarrow> ('p, 'r) env)
      \<Rightarrow> (nat \<Rightarrow> ('p, 'r) env) \<Rightarrow> (('p, 'r) redis_store, ('p, 'r) execution_job option) op" where
  "redis_claim w lease_seconds ds xenv env s =
     (if blank w then (Inl (ValueError ''worker_id cannot be empty''), s)
      else if lease_seconds \<le> 0 then (Inl (ValueError ''lease_seconds must be positive''), s)
      else claim_loop w lease_seconds ds xenv (map env [0..<12]) s)"

subsection \<open>Methods of a lease holder\<close>

text \<open>The index updates queued between \<open>MULTI\<close> and \<open>EXEC\<close> once the mutated job is written.\<close>

definition index_claimed ::
    "string \<Rightarrow> ('p, 'r) execution_job \<Rightarrow> ('p, 'r) redis_store \<Rightarrow> ('p, 'r) redis_store" where
  "index_claimed jid j s =
     (if status j = RUNNING
      then s\<lparr>running := zadd jid (the (lease_expires_at j)) (running s)\<rparr>
      else if waiting_status (status j)
      then s\<lparr>running := zrem jid (running s), queue := zadd jid (available_at j) (queue s)\<rparr>
      else s\<lparr>running := zrem jid (running s), queue := zrem jid (queue s)\<rparr>)"

fun mutate_loop ::
    "string \<Rightarrow> string \<Rightarrow> string
      \<Rightarrow> (('p, 'r) execution_job \<Rightarrow> seconds \<Rightarrow> exc + ('p, 'r) execution_job)
      \<Rightarrow> ('p, 'r) env list \<Rightarrow> (('p, 'r) redis_store, ('p, 'r) execution_job) op" where
  "mutate_loop jid w tok mutate [] s =
     (Inl (JobLeaseLostError (''job lease changed during mutation: '' @ jid)), s)"
| "mutate_loop jid w tok mutate (a # as) s0 =
     (let now = at_now a; s = at_watch a s0 in
      case dict_get (hashes s) jid of
        None \<Rightarrow> (Inl (JobNotFoundError jid), s)
      | Some h \<Rightarrow>
     case job_from_hash h of
        Inl e \<Rightarrow> (Inl e, s)
      | Inr j \<Rightarrow>
          if \<not> lease_active j w tok now
          then (Inl (JobLeaseLostError (''job lease is not active: '' @ jid)), s)
          else case mutate j now of
              Inl e \<Rightarrow> (Inl e, s)
            | Inr j' \<Rightarrow>
                if status j' = RUNNING \<and> lease_expires_at j' = None
                then (Inl (JobLeaseLostError (''running job has no lease expiry: '' @ jid)), s)
                else case at_conflict a of
                    Some st \<Rightarrow> mutate_loop jid w tok mutate as st
                  | None \<Rightarrow> (Inr j', index_claimed jid j' (hset_job jid j' s)))"

definition mutate_claimed ::
    "string \<Rightarrow> string \<Rightarrow> string
      \<Rightarrow> (('p, 'r) execution_job \<Rightarrow> seconds \<Rightarrow> exc + ('p, 'r) execution_job)
      \<Rightarrow> (nat \<Rightarrow> ('p, 'r) env) \<Rightarrow> (('p, 'r) redis_store, ('p, 'r) execution_job) op" where
  "mutate_claimed jid w tok mutate env s = mutate_loop jid w tok mutate (map env [0..<8]) s"

definition heartbeat_mutate ::
    "seconds \<Rightarrow> ('p, 'r) execution_job \<Rightarrow> seconds \<Rightarrow> exc + ('p, 'r) execution_job" where
  "heartbeat_mutate ls j now =
     (if deadline_expired j now then Inr (fail_deadline now j)
      else Inr (j\<lparr>lease_expires_at := Some (now + ls), updated_at := now\<rparr>))"

definition redis_heartbeat ::
    "string \<Rightarrow> string \<Rightarrow> string \<Rightarrow> seconds \<Rightarrow> (nat \<Rightarrow> ('p, 'r) env)
      \<Rightarrow> (('p, 'r) redis_store, ('p, 'r) execution_job) op" where
  "redis_heartbeat jid w tok ls env s =
     (if ls \<le> 0 then (Inl (ValueError ''lease_seconds must be positive''), s)
      else case mutate_claimed jid w tok (heartbeat_mutate ls) env s of
          (Inl e, t) \<Rightarrow> (Inl e, t)
        | (Inr j, t) \<Rightarrow>
            if status j = FAILED \<and> last_error j = Some ''deadline_exceeded''
            then (Inl (JobLeaseLostError (''job deadline expired: '' @ jid)), t)
            else (Inr j, t))"

definition release_mutate ::
    "seconds \<Rightarrow> ('p, 'r) execution_job \<Rightarrow> seconds \<Rightarrow> exc + ('p, 'r) execution_job" where
  "release_mutate d j now =
     Inr (j\<lparr>status := QUEUED, attempt := max (attempt j - 1) 0, available_at := now + d,
            updated_at := now, worker_id := None, lease_token := None, lease_expires_at := None\<rparr>)"

definition redis_release_unstarted_claim ::
    "string \<Rightarrow> string \<Rightarrow> string \<Rightarrow> seconds \<Rightarrow> (nat \<Rightarrow> ('p, 'r) env)
      \<Rightarrow> (('p, 'r) redis_store, ('p, 'r) execution_job) op" where
  "redis_release_unstarted_claim jid w tok d env s =
     (if d < 0 then (Inl (ValueError ''delay_seconds cannot be negative''), s)
      else mutate_claimed jid w tok (release_mutate d) env s)"

definition succeed_mutate ::
    "'r option \<Rightarrow> ('p, 'r) execution_job \<Rightarrow> seconds \<Rightarrow> exc + ('p, 'r) execution_job" where
  "succeed_mutate res j now =
     (let j1 = (if cancel_requested j then j\<lparr>status := CANCELLED\<rparr>
                else if deadline_expired j now
                then j\<lparr>status := FAILED, last_error := Some ''deadline_exceeded''\<rparr>
                else j\<lparr>status := SUCCEEDED, result := res, last_error := None\<rparr>)
      in Inr (j1\<lparr>updated_at := now, worker_id := None, lease_token := None,
                 lease_expires_at := None\<rparr>))"

definition redis_succeed ::
    "string \<Rightarrow> string \<Rightarrow> string \<Rightarrow> 'r option \<Rightarrow> (nat \<Rightarrow> ('p, 'r) env)
      \<Rightarrow> (('p, 'r) redis_store, ('p, 'r) execution_job) op" where
  "redis_succeed jid w tok res env s = mutate_claimed jid w tok (succeed_mutate res) env s"

definition fail_mutate ::
    "string \<Rightarrow> ('p, 'r) execution_job \<Rightarrow> seconds \<Rightarrow> exc + ('p, 'r) execution_job" where
  "fail_mutate error j0 now =
     (let j = j0\<lparr>last_error := Some error, updated_at := now, worker_id := None,
                 lease_token := None, lease_expires_at := None\<rparr>
      in if cancel_requested j then Inr (j\<lparr>status := CANCELLED\<rparr>)
         else if deadline_expired j now
         then Inr (j\<lparr>status := FAILED, last_error := Some ''deadline_exceeded''\<rparr>)
         else if max_attempts (retry (spec j)) \<le> attempt j then Inr (j\<lparr>status := FAILED\<rparr>)
         else case delay_after_attempt (retry (spec j)) (attempt j) of
             Inl e \<Rightarrow> Inl e
           | Inr delay \<Rightarrow>
               let retry_at = now + delay
               in if (case deadline_at (spec j) of None \<Rightarrow> False | Some d \<Rightarrow> d \<le> retry_at)
                  then Inr (j\<lparr>status := FAILED, last_error := Some ''deadline_exceeded''\<rparr>)
                  else Inr (j\<lparr>status := RETRY_WAIT, available_at := retry_at\<rparr>))"

definition redis_fail ::
    "string \<Rightarrow> string \<Rightarrow> string \<Rightarrow> string \<Rightarrow> (nat \<Rightarrow> ('p, 'r) env)
      \<Rightarrow> (('p, 'r) redis_store, ('p, 'r) execution_job) op" where
  "redis_fail jid w tok error env s = mutate_claimed jid w tok (fail_mutate error) env s"

definition cancel_mutate ::
    "('p, 'r) execution_job \<Rightarrow> seconds \<Rightarrow> exc + ('p, 'r) execution_job" where
  "cancel_mutate j now =
     Inr (j\<lparr>status := CANCELLED, cancel_requested := True, updated_at := now, worker_id := None,
            lease_token := None, lease_expires_at := None\<rparr>)"

definition redis_cancel_claimed ::
    "string \<Rightarrow> string \<Rightarrow> string \<Rightarrow> (nat \<Rightarrow> ('p, 'r) env)
      \<Rightarrow> (('p, 'r) redis_store, ('p, 'r) execution_job) op" where
  "redis_cancel_claimed jid w tok env s = mutate_claimed jid w tok cancel_mutate env s"

subsection \<open>Cancellation requests and recovery\<close>

fun cancel_loop ::
    "string \<Rightarrow> ('p, 'r) env list \<Rightarrow> (('p, 'r) redis_store, ('p, 'r) execution_job) op" where
  "cancel_loop jid [] s =
     (Inl (RuntimeError (''cancel contention exceeded retry budget: '' @ jid)), s)"
| "cancel_loop jid (a # as) s0 =
     (let now = at_now a; s = at_watch a s0 in
      case dict_get (hashes s) jid of
        None \<Rightarrow> (Inl (JobNotFoundError jid), s)
      | Some h \<Rightarrow>
     case job_from_hash h of
        Inl e \<Rightarrow> (Inl e, s)
      | Inr j \<Rightarrow>
          if terminal_status (status j) then (Inr j, s)
          else
            let j1 = j\<lparr>cancel_requested := True, updated_at := now\<rparr>;
                j' = (if waiting_status (status j1) then j1\<lparr>status := CANCELLED\<rparr> else j1)
            in case at_conflict a of
                 Some st \<Rightarrow> cancel_loop jid as st
               | None \<Rightarrow>
                   (Inr j',
                    if status j' = CANCELLED
                    then (hset_job jid j' s)\<lparr>queue := zrem jid (queue s)\<rparr>
                    else hset_job jid j' s))"

definition redis_request_cancel ::
    "string \<Rightarrow> (nat \<Rightarrow> ('p, 'r) env) \<Rightarrow> (('p, 'r) redis_store, ('p, 'r) execution_job) op" where
  "redis_request_cancel jid env s = cancel_loop jid (map env [0..<8]) s"

text \<open>The job a recovery writes.\<close>

definition redis_recover_job :: "seconds \<Rightarrow> ('p, 'r) execution_job \<Rightarrow> ('p, 'r) execution_job" where
  "redis_recover_job now j =
     (let j1 = j\<lparr>worker_id := None, lease_token := None, lease_expires_at := None,
                 updated_at := now, last_error := Some ''worker_lease_expired''\<rparr>
      in if cancel_requested j1 then j1\<lparr>status := CANCELLED\<rparr>
         else if deadline_expired j1 now
         then j1\<lparr>status := FAILED, last_error := Some ''deadline_exceeded''\<rparr>
         else if max_attempts (retry (spec j1)) \<le> attempt j1 then j1\<lparr>status := FAILED\<rparr>
         else j1\<lparr>status := QUEUED, available_at := now\<rparr>)"

text \<open>One identifier of the running index: whether it was recovered.\<close>

fun recover_loop ::
    "string \<Rightarrow> seconds \<Rightarrow> ('p, 'r) env list \<Rightarrow> (('p, 'r) redis_store, bool) op" where
  "recover_loop jid now [] s = (Inr False, s)"
| "recover_loop jid now (a # as) s0 =
     (let s = at_watch a s0 in
      case dict_get (hashes s) jid of
        None \<Rightarrow>
          (case at_conflict a of
             Some st \<Rightarrow> recover_loop jid now as st
           | None \<Rightarrow> (Inr False, s\<lparr>running := zrem jid (running s)\<rparr>))
      | Some h \<Rightarrow>
     case job_from_hash h of
        Inl e \<Rightarrow> (Inl e, s)
      | Inr j \<Rightarrow>
          if status j \<noteq> RUNNING \<or>
             (case lease_expires_at j of None \<Rightarrow> True | Some e \<Rightarrow> now < e)
          then (Inr False, s)
          else
            let j' = redis_recover_job now j;
                s1 = (hset_job jid j' s)\<lparr>running := zrem jid (running s)\<rparr>
            in case at_conflict a of
                 Some st \<Rightarrow> recover_loop jid now as st
               | None \<Rightarrow>
                   (Inr True,
                    if status j' = QUEUED then s1\<lparr>queue := zadd jid now (queue s1)\<rparr> else s1))"

fun recover_all ::
    "seconds \<Rightarrow> (string \<Rightarrow> nat \<Rightarrow> ('p, 'r) env) \<Rightarrow> string list \<Rightarrow> int
      \<Rightarrow> (('p, 'r) redis_store, int) op" where
  "recover_all now renv [] n s = (Inr n, s)"
| "recover_all now renv (jid # ids) n s =
     (case recover_loop jid now (map (renv jid) [0..<8]) s of
        (Inl e, t) \<Rightarrow> (Inl e, t)
      | (Inr b, t) \<Rightarrow> recover_all now renv ids (if b then n + 1 else n) t)"

definition redis_recover_expired_leases ::
    "seconds \<Rightarrow> (string \<Rightarrow> nat \<Rightarrow> ('p, 'r) env) \<Rightarrow> (('p, 'r) redis_store, int) op" where
  "redis_recover_expired_leases now renv s =
     recover_all now renv (zrangebyscore (running s) now) 0 s"

end
