(* ===== verification/Job_Lifecycle.thy ===== *)
theory Job_Lifecycle
  imports Memory_Store
begin

section \<open>Runs of the in-memory job store\<close>

text \<open>
  A run of the store is any sequence of method calls, by any workers and clients, with any
  arguments and any clock readings: \<open>mem_step issued\<close> has one rule per method. What the
  environment guarantees are the premises of two rules: specifications come from the validating
  constructors (with retry counts whose back-off factor a float can hold) and carry a job
  identifier not used before, and the lease tokens that claims draw come from the set
  \<open>issued\<close>. The properties are the invariant in every reachable state, the life cycle of each
  job along any run, fencing of stale lease holders, idempotent submission, the claim order,
  recovery, and the two ways in which a job can get stuck.
\<close>

inductive mem_step ::
    "string set \<Rightarrow> ('p, 'r) mem_store \<Rightarrow> ('p, 'r) mem_store \<Rightarrow> bool" for issued where
  submit: "spec_ok sp \<Longrightarrow> max_attempts (retry sp) \<le> 1024 \<Longrightarrow> dict_get (jobs s) uuid = None \<Longrightarrow>
    mem_step issued s (snd (mem_submit sp uuid now s))"
| claim: "uuid \<in> issued \<Longrightarrow> mem_step issued s (snd (mem_claim w ls ds uuid now s))"
| heartbeat: "mem_step issued s (snd (mem_heartbeat jid w tok ls now s))"
| release: "mem_step issued s (snd (mem_release_unstarted_claim jid w tok d now s))"
| succeed: "mem_step issued s (snd (mem_succeed jid w tok res now s))"
| fail: "mem_step issued s (snd (mem_fail jid w tok err now s))"
| request_cancel: "mem_step issued s (snd (mem_request_cancel jid now s))"
| cancel_claimed: "mem_step issued s (snd (mem_cancel_claimed jid w tok now s))"
| recover: "mem_step issued s (snd (mem_recover_expired_leases now s))"

lemmas lease_update =
  heartbeat_update release_update succeed_update fail_update request_cancel_update
  cancel_claimed_update

lemma mem_step_cases:
  assumes "mem_inv s" and "mem_step issued s t"
  obtains (submit) sp uuid now where "spec_ok sp" and "max_attempts (retry sp) \<le> 1024"
      and "dict_get (jobs s) uuid = None" and "t = snd (mem_submit sp uuid now s)"
    | (claim) w ls ds uuid now where "uuid \<in> issued" and "t = snd (mem_claim w ls ds uuid now s)"
    | (recover) now where "t = snd (mem_recover_expired_leases now s)"
    | (update) "job_update s t"
  using assms(2)
proof cases
  case submit
  then show ?thesis using that(1) by blast
next
  case claim
  then show ?thesis using that(2) by blast
next
  case recover
  then show ?thesis using that(3) by blast
qed (auto intro!: that(4) lease_update assms(1))

lemma mem_step_inv:
  assumes "mem_inv s" and "mem_step issued s t"
  shows "mem_inv t"
  using assms
  by (cases rule: mem_step_cases)
    (auto intro: submit_inv claim_inv recover_inv mem_inv_job_update assms(1))

lemma mem_step_job:
  assumes "mem_inv s" and "mem_step issued s t" and "dict_get (jobs s) k = Some j"
  shows "\<exists>j'. dict_get (jobs t) k = Some j' \<and> job_follows j j'"
  using assms(1,2)
proof (cases rule: mem_step_cases)
  case submit
  with assms(3) show ?thesis by (auto simp: submit_keeps_jobs)
next
  case claim
  with assms show ?thesis by (auto intro: claim_job)
next
  case recover
  with assms(3) show ?thesis
    by (auto simp: mem_recover_expired_leases_def dict_simps intro: job_follows_recover)
next
  case update
  with assms show ?thesis by (auto intro: job_update_job)
qed

abbreviation mem_job :: "('p, 'r) mem_store \<Rightarrow> string \<Rightarrow> ('p, 'r) execution_job option" where
  "mem_job s k \<equiv> dict_get (jobs s) k"

interpretation mem: durable_store "\<lambda>s. s = mem_empty" "mem_step issued" mem_inv mem_job
  for issued :: "string set"
  by unfold_locales (auto simp: mem_inv_empty intro: mem_step_inv mem_step_job dest: mem_inv_job)

subsection \<open>Leases along a run\<close>

lemma claim_token:
  assumes "mem_inv s" and "dict_get (jobs s) k = Some j"
    and "dict_get (jobs (snd (mem_claim w ls ds uuid now s))) k = Some j'"
    and "lease_token j' = Some tok"
  shows "lease_token j = Some tok \<or> tok = uuid"
proof (cases "blank w \<or> ls \<le> 0")
  case True
  then show ?thesis using assms by (simp add: mem_claim_rejected)
next
  case False
  then have *: "\<not> blank w" "0 < ls" by auto
  have x: "dict_get (jobs (expire_all now s)) k = Some (snd (expire_deadline j now))"
    using assms(2) by (simp add: dict_simps)
  have y: "lease_token (snd (expire_deadline j now)) = Some tok \<Longrightarrow> lease_token j = Some tok"
    by (auto simp: expire_deadline_def clear_lease_def split: if_splits)
  from assms(1) * show ?thesis
  proof (cases rule: claim_cases [where ds = ds and uuid = uuid and now = now])
    case none
    with x y assms show ?thesis by auto
  next
    case (some i)
    with x y assms show ?thesis
      by (cases "k = job_id i") (auto simp: put_job_def dict_simps)
  qed
qed

lemma job_follows_token:
  "job_follows j j' \<Longrightarrow> lease_token j' = Some tok \<Longrightarrow> lease_token j = Some tok \<or>
     waiting_status (status j) \<and> status j' = RUNNING"
  by (auto simp: job_follows_def)

text \<open>Outside claims no step hands out a token: a token a job did not hold it does not get.\<close>

lemma recover_token: "lease_token (snd (recover_job now j)) = Some tok \<Longrightarrow> lease_token j = Some tok"
  by (auto simp: recover_job_def clear_lease_def Let_def split: if_splits)

definition token_kept :: "('p, 'r) mem_store \<Rightarrow> ('p, 'r) mem_store \<Rightarrow> bool" where
  "token_kept s t \<longleftrightarrow> (\<forall>k j j' tok. dict_get (jobs s) k = Some j \<longrightarrow> dict_get (jobs t) k = Some j' \<longrightarrow>
     lease_token j' = Some tok \<longrightarrow> lease_token j = Some tok)"

lemma token_keptD:
  "token_kept s t \<Longrightarrow> dict_get (jobs s) k = Some j \<Longrightarrow> dict_get (jobs t) k = Some j' \<Longrightarrow>
     lease_token j' = Some tok \<Longrightarrow> lease_token j = Some tok"
  by (simp add: token_kept_def)

lemma token_kept_put:
  assumes "mem_inv s" and "dict_get (jobs s) jid = Some j" and "job_id j' = jid"
    and "\<And>tok. lease_token j' = Some tok \<Longrightarrow> lease_token j = Some tok"
  shows "token_kept s (put_job j' s)"
  using assms by (auto simp: token_kept_def put_job_def dict_simps)

lemma token_kept_refl [simp]: "token_kept s s"
  by (auto simp: token_kept_def)

lemma token_kept_with_lease:
  assumes "mem_inv s"
    and "\<And>j. dict_get (jobs s) jid = Some j \<Longrightarrow> job_id j = jid \<Longrightarrow> token_kept s (snd (body j))"
  shows "token_kept s (snd (with_lease jid w tok now body s))"
  using assms mem_inv_job [OF assms(1)]
  by (auto simp: with_lease_def mem_lookup_def split: option.splits)

lemmas lease_op_defs =
  mem_heartbeat_def mem_release_unstarted_claim_def mem_succeed_def mem_fail_def
  mem_cancel_claimed_def

lemma token_kept_lease_ops:
  assumes "mem_inv s"
  shows "token_kept s (snd (mem_heartbeat jid w tok ls now s))"
    and "token_kept s (snd (mem_release_unstarted_claim jid w tok d now s))"
    and "token_kept s (snd (mem_succeed jid w tok res now s))"
    and "token_kept s (snd (mem_fail jid w tok err now s))"
    and "token_kept s (snd (mem_cancel_claimed jid w tok now s))"
  unfolding lease_op_defs
  by (auto simp: Let_def clear_lease_def expire_deadline_def split: sum.splits
      intro!: token_kept_with_lease [OF assms] token_kept_put [OF assms])

lemma token_kept_request_cancel:
  assumes "mem_inv s"
  shows "token_kept s (snd (mem_request_cancel jid now s))"
  using mem_inv_job [OF assms]
  by (auto simp: mem_request_cancel_def mem_lookup_def Let_def split: option.splits
      intro!: token_kept_put [OF assms])

lemma mem_step_token:
  assumes "mem_inv s" and "mem_step issued s t" and "dict_get (jobs s) k = Some j"
    and "dict_get (jobs t) k = Some j'" and "lease_token j' = Some tok" and "tok \<notin> issued"
  shows "lease_token j = Some tok"
  using assms(2)
proof cases
  case (submit sp uuid now)
  with assms show ?thesis by (auto simp: submit_keeps_jobs)
next
  case (claim uuid w ls ds now)
  with assms show ?thesis using claim_token by blast
next
  case (recover now)
  with assms show ?thesis
    by (auto simp: mem_recover_expired_leases_def dict_simps dest: recover_token)
qed (rule token_keptD [OF _ assms(3-5)],
    simp add: token_kept_lease_ops [OF assms(1)] token_kept_request_cancel [OF assms(1)])+

lemma mem_steps_inv: "mem_inv s \<Longrightarrow> (mem_step issued)\<^sup>*\<^sup>* s t \<Longrightarrow> mem_inv t"
  by (rule mem.steps_inv)

lemma mem_steps_not_held:
  assumes "mem_inv s" and "(mem_step issued)\<^sup>*\<^sup>* s t" and "tok \<notin> issued"
    and "dict_get (jobs s) k = Some j" and "lease_token j \<noteq> Some tok"
  shows "\<exists>j'. dict_get (jobs t) k = Some j' \<and> lease_token j' \<noteq> Some tok"
proof (rule mem.steps_stable [OF assms(2,1),
      where P = "\<lambda>s. \<exists>j. dict_get (jobs s) k = Some j \<and> lease_token j \<noteq> Some tok"])
  show "\<exists>j. dict_get (jobs s) k = Some j \<and> lease_token j \<noteq> Some tok" using assms by blast
next
  fix u v
  assume u: "mem_inv u" "\<exists>j. dict_get (jobs u) k = Some j \<and> lease_token j \<noteq> Some tok"
    and st: "mem_step issued u v"
  then obtain i where i: "dict_get (jobs u) k = Some i" "lease_token i \<noteq> Some tok" by blast
  with u st obtain i' where "dict_get (jobs v) k = Some i'" using mem_step_job by blast
  with i u st assms(3) show "\<exists>j. dict_get (jobs v) k = Some j \<and> lease_token j \<noteq> Some tok"
    using mem_step_token by blast
qed

lemma with_lease_fenced:
  assumes "dict_get (jobs s) k = Some j" and "lease_token j \<noteq> Some tok"
  shows "with_lease k w tok now body s =
    (Inl (JobLeaseLostError (''job lease is not active: '' @ job_id j)), s)"
  using assms by (auto simp: with_lease_def mem_lookup_def lease_active_iff)

subsection \<open>A concrete store for the instances\<close>

text \<open>
  One job submitted at time 0 and claimed at time 1 for thirty seconds. The instances of the
  properties below evaluate the methods on these stores.
\<close>

definition ex_spec :: "unit job_spec" where
  "ex_spec = \<lparr>idempotency_key = ''key'', domain = ''cgt'', payload = (), priority = NORMAL,
     retry = default_retry, deadline_at = None\<rparr>"

definition ex_queued :: "(unit, unit) mem_store" where
  "ex_queued = snd (mem_submit ex_spec ''j1'' 0 mem_empty)"

definition ex_claimed :: "(unit, unit) mem_store" where
  "ex_claimed = snd (mem_claim ''w1'' 30 None ''t1'' 1 ex_queued)"

definition ex_job :: "(unit, unit) execution_job" where
  "ex_job = start_lease ''w1'' ''t1'' 1 30 (fresh_job ex_spec ''j1'' 0)"

definition ex_cancelling :: "(unit, unit) mem_store" where
  "ex_cancelling = snd (mem_request_cancel ''j1'' 2 ex_claimed)"

lemma ex_spec_ok: "spec_ok ex_spec" "max_attempts (retry ex_spec) \<le> 1024"
  by code_simp+

lemma ex_queued_eq:
  "ex_queued = \<lparr>jobs = [(''j1'', fresh_job ex_spec ''j1'' 0)], idempotency = [(''key'', ''j1'')]\<rparr>"
  by (simp add: ex_queued_def mem_submit_def mem_empty_def ex_spec_def Let_def)

lemma ex_claimed_eq:
  "ex_claimed = \<lparr>jobs = [(''j1'', ex_job)], idempotency = [(''key'', ''j1'')]\<rparr>"
  by (simp add: ex_claimed_def ex_queued_eq mem_claim_def blank_def py_isspace_def Let_def
      dict_map_def expire_deadline_def deadline_expired_def ex_spec_def claimable_def
      domain_allowed_def least_by_def put_job_def ex_job_def fresh_job_def start_lease_def)

lemma ex_claim_eq:
  "mem_claim ''w1'' 30 None ''t1'' 1 ex_queued = (Inr (Some ex_job), ex_claimed)"
  unfolding ex_claimed_eq
  by (simp add: ex_queued_eq mem_claim_def blank_def py_isspace_def dict_map_def
      expire_deadline_def deadline_expired_def ex_spec_def claimable_def domain_allowed_def
      least_by_def put_job_def ex_job_def fresh_job_def start_lease_def)

lemma ex_steps: "mem_step {''t1''} mem_empty ex_queued" "mem_step {''t1''} ex_queued ex_claimed"
  unfolding ex_queued_def ex_claimed_def
  by (rule mem_step.submit, simp_all add: ex_spec_ok mem_empty_def)
    (rule mem_step.claim, simp)

lemma ex_run: "(mem_step {''t1''})\<^sup>*\<^sup>* ex_queued ex_claimed"
  using ex_steps(2) by (rule r_into_rtranclp)

lemma ex_inv: "mem_inv ex_queued" "mem_inv ex_claimed" "mem_inv ex_cancelling"
proof -
  show q: "mem_inv ex_queued" using ex_steps mem_step_inv mem_inv_empty by blast
  then show c: "mem_inv ex_claimed" using ex_steps mem_step_inv by blast
  then show "mem_inv ex_cancelling"
    unfolding ex_cancelling_def by (intro mem_step_inv [OF c mem_step.request_cancel])
qed

subsection \<open>Properties of the reference store\<close>

text \<open>C1. The store invariant holds after any sequence of method calls on an empty store, as long as
  every submitted job allows at most 1024 attempts: jobs are stored under their identifiers and are
  well-formed (a running job holds a complete lease and has used between one and \<open>max_attempts\<close>
  attempts, any other job holds none, a waiting job has an attempt left), and the idempotency index
  is exactly the inverse of the jobs' keys. The limit on the attempts is needed: \<open>RetryPolicy\<close> accepts
  more, and then \<open>fail_overflow_wedges\<close> leaves a running job without a lease.\<close>

theorem mem_reachable_inv: "(mem_step issued)\<^sup>*\<^sup>* mem_empty s \<Longrightarrow> mem_inv s"
  by (rule mem_steps_inv [OF mem_inv_empty])

theorem mem_reachable_inv_witness:
  "(mem_step {''t1''})\<^sup>*\<^sup>* mem_empty ex_claimed \<and> mem_inv ex_claimed"
proof -
  have run: "(mem_step {''t1''})\<^sup>*\<^sup>* mem_empty ex_claimed"
    using ex_steps by (meson converse_rtranclp_into_rtranclp r_into_rtranclp)
  with mem_reachable_inv [OF run] show ?thesis by blast
qed

text \<open>Along any run a job keeps its identifier, specification and creation time, moves only
  along the edges of the status graph, never loses a cancellation request, and its attempt
  counter changes only by one: up when a waiting job is started, down when an unstarted claim is
  given back.\<close>

theorem mem_step_lifecycle:
  assumes "mem_inv s" and "mem_step issued s t" and "dict_get (jobs s) k = Some j"
  shows "\<exists>j'. dict_get (jobs t) k = Some j' \<and> job_follows j j' \<and> job_ok j'"
proof -
  from assms obtain j' where "dict_get (jobs t) k = Some j'" "job_follows j j'"
    using mem_step_job by blast
  moreover have "mem_inv t" using assms by (blast intro: mem_step_inv)
  ultimately show ?thesis by (auto dest: mem_inv_job)
qed

theorem mem_step_lifecycle_witness:
  "\<exists>j'. dict_get (jobs ex_claimed) ''j1'' = Some j' \<and> job_follows (fresh_job ex_spec ''j1'' 0) j'
     \<and> job_ok j'"
  by (rule mem_step_lifecycle [OF ex_inv(1) ex_steps(2)]) (simp add: ex_queued_eq)

text \<open>C19. A finished job is final: once a job has succeeded, failed or been cancelled, no run of
  the store changes any field of it.\<close>

theorem terminal_job_final:
  assumes "mem_inv s" and "(mem_step issued)\<^sup>*\<^sup>* s t" and "dict_get (jobs s) k = Some j"
    and "terminal_status (status j)"
  shows "dict_get (jobs t) k = Some j"
  using assms by (rule mem.steps_terminal)

theorem terminal_job_final_witness:
  "let s = snd (mem_succeed ''j1'' ''w1'' ''t1'' (Some ()) 5 ex_claimed);
       t = snd (mem_claim ''w2'' 30 None ''t2'' 9 s)
   in \<exists>j. status j = SUCCEEDED \<and> dict_get (jobs s) ''j1'' = Some j \<and>
          dict_get (jobs t) ''j1'' = Some j"
proof -
  let ?s = "snd (mem_succeed ''j1'' ''w1'' ''t1'' (Some ()) 5 ex_claimed)"
  let ?t = "snd (mem_claim ''w2'' 30 None ''t2'' 9 ?s)"
  have inv: "mem_inv ?s" by (rule mem_step_inv [OF ex_inv(2) mem_step.succeed])
  have run: "(mem_step UNIV)\<^sup>*\<^sup>* ?s ?t" by (intro r_into_rtranclp mem_step.claim) simp
  obtain j where j: "dict_get (jobs ?s) ''j1'' = Some j" "status j = SUCCEEDED"
    by (simp add: ex_claimed_eq ex_job_def mem_succeed_def with_lease_def mem_lookup_def
        lease_active_def deadline_expired_def ex_spec_def put_job_def clear_lease_def Let_def)
  with terminal_job_final [OF inv run j(1)] show ?thesis by (auto simp: Let_def)
qed

text \<open>C2. Fencing of stale workers: if a job is not held under a lease token at some point and
  that token is not drawn again, then at every later point each of the five methods of a lease
  holder, called with that token, raises \<open>JobLeaseLostError\<close> and leaves the whole store as it
  is.\<close>

theorem stale_token_fenced:
  assumes "mem_inv s" and "(mem_step issued)\<^sup>*\<^sup>* s t" and "tok \<notin> issued"
    and "dict_get (jobs s) k = Some j" and "lease_token j \<noteq> Some tok"
  shows "\<exists>e. (0 < ls \<longrightarrow> mem_heartbeat k w tok ls now t = (Inl (JobLeaseLostError e), t)) \<and>
     (0 \<le> d \<longrightarrow> mem_release_unstarted_claim k w tok d now t = (Inl (JobLeaseLostError e), t)) \<and>
     mem_succeed k w tok res now t = (Inl (JobLeaseLostError e), t) \<and>
     mem_fail k w tok err now t = (Inl (JobLeaseLostError e), t) \<and>
     mem_cancel_claimed k w tok now t = (Inl (JobLeaseLostError e), t)"
proof -
  from assms obtain j' where "dict_get (jobs t) k = Some j'" "lease_token j' \<noteq> Some tok"
    using mem_steps_not_held by blast
  then show ?thesis unfolding lease_op_defs by (auto simp: with_lease_fenced)
qed

theorem stale_token_fenced_witness:
  "\<exists>e. mem_succeed ''j1'' ''w1'' ''t0'' (Some ()) 5 ex_claimed = (Inl (JobLeaseLostError e), ex_claimed)"
  using stale_token_fenced [OF ex_inv(1) ex_run, of "''t0''" "''j1''"
      "fresh_job ex_spec ''j1'' 0" 1 "''w1''" 5 0 "Some ()" "''e''"]
  by (auto simp: ex_queued_eq fresh_job_def)

text \<open>C6. Exclusive leases: while a job's lease has not expired and its deadline has not passed,
  no claim, no recovery sweep and no call of a lease method with another worker or another token
  changes the job; the one method that can is \<open>request_cancel\<close>, which only records the request.\<close>

theorem lease_exclusive:
  assumes "mem_inv s" and "dict_get (jobs s) k = Some j" and "status j = RUNNING"
    and "lease_expires_at j = Some e" and "now < e" and "\<not> deadline_expired j now"
    and "worker_id j \<noteq> Some w \<or> lease_token j \<noteq> Some tok"
  shows "dict_get (jobs (snd (mem_claim w' ls ds uuid now s))) k = Some j \<and>
    dict_get (jobs (snd (mem_recover_expired_leases now s))) k = Some j \<and>
    mem_succeed k w tok res now s =
      (Inl (JobLeaseLostError (''job lease is not active: '' @ k)), s) \<and>
    mem_fail k w tok err now s =
      (Inl (JobLeaseLostError (''job lease is not active: '' @ k)), s) \<and>
    mem_cancel_claimed k w tok now s =
      (Inl (JobLeaseLostError (''job lease is not active: '' @ k)), s) \<and>
    dict_get (jobs (snd (mem_heartbeat k w tok ls now s))) k = Some j \<and>
    dict_get (jobs (snd (mem_release_unstarted_claim k w tok d now s))) k = Some j \<and>
    dict_get (jobs (snd (mem_request_cancel k now s))) k =
      Some (j\<lparr>cancel_requested := True, updated_at := now\<rparr>)"
proof -
  have id: "job_id j = k" using assms(1,2) by (auto dest: mem_inv_job)
  have lost: "with_lease k w tok now body s =
      (Inl (JobLeaseLostError (''job lease is not active: '' @ k)), s)"
    for body :: "('a, 'b) execution_job \<Rightarrow> (exc + ('a, 'b) execution_job) \<times> ('a, 'b) mem_store"
    using assms id by (auto simp: with_lease_def mem_lookup_def lease_active_iff)
  have x: "snd (expire_deadline j now) = j" using assms(6) by (simp add: expire_deadline_def)
  have "dict_get (jobs (snd (mem_claim w' ls ds uuid now s))) k = Some j"
  proof (cases "blank w' \<or> ls \<le> 0")
    case True
    then show ?thesis using assms by (simp add: mem_claim_rejected)
  next
    case False
    then have *: "\<not> blank w'" "0 < ls" by auto
    have y: "dict_get (jobs (expire_all now s)) k = Some j" using assms(2) x by (simp add: dict_simps)
    from assms(1) * show ?thesis
    proof (cases rule: claim_cases [where ds = ds and uuid = uuid and now = now])
      case none
      with y show ?thesis by simp
    next
      case (some i)
      with y assms(3) have "job_id i \<noteq> k" by (auto simp: claimable_def)
      with y some show ?thesis by (simp add: put_job_def dict_simps)
    qed
  qed
  moreover have "dict_get (jobs (snd (mem_recover_expired_leases now s))) k = Some j"
    using assms by (simp add: mem_recover_expired_leases_def dict_simps recover_job_def)
  moreover have "dict_get (jobs (snd (mem_request_cancel k now s))) k =
      Some (j\<lparr>cancel_requested := True, updated_at := now\<rparr>)"
    using assms id
    by (simp add: mem_request_cancel_def mem_lookup_def put_job_def dict_simps)
  ultimately show ?thesis using assms(2) lost unfolding lease_op_defs by simp
qed

theorem lease_exclusive_witness:
  "mem_fail ''j1'' ''w2'' ''t1'' ''boom'' 5 ex_claimed =
     (Inl (JobLeaseLostError ''job lease is not active: j1''), ex_claimed)"
  using lease_exclusive [of ex_claimed "''j1''" ex_job 31 5 "''w2''" "''t1''" "''w2''" 30 None
      "''t2''" "Some ()" "''boom''" 0] ex_inv(2)
  by (simp add: ex_claimed_eq ex_job_def deadline_expired_def ex_spec_def)

text \<open>C20. Idempotent submission: after a submission has been accepted, resubmitting the same
  specification at any later point returns the job created first and changes nothing, and
  submitting a different specification under the same key raises \<open>IdempotencyConflictError\<close> and
  changes nothing.\<close>

theorem submit_idempotent:
  assumes "mem_inv s" and "spec_ok sp" and "max_attempts (retry sp) \<le> 1024"
    and "dict_get (jobs s) uuid = None"
    and sub: "mem_submit sp uuid now s = (Inr r, s')" and run: "(mem_step issued)\<^sup>*\<^sup>* s' t"
  shows "\<exists>j. dict_get (jobs t) (job_id (submitted_job r)) = Some j \<and> spec j = sp \<and>
    mem_submit sp uuid' now' t = (Inr \<lparr>submitted_job = j, created = False\<rparr>, t) \<and>
    (\<forall>sp'. idempotency_key sp' = idempotency_key sp \<longrightarrow> sp' \<noteq> sp \<longrightarrow>
       mem_submit sp' uuid' now' t = (Inl (IdempotencyConflictError
         (''idempotency key already belongs to another job: '' @ idempotency_key sp)), t))"
proof -
  let ?k = "job_id (submitted_job r)"
  have s': "mem_inv s'" using submit_inv [OF assms(1-4)] sub by (metis snd_conv)
  have "\<exists>j. dict_get (jobs s') ?k = Some j \<and> spec j = sp"
    using sub mem_inv_job [OF assms(1)]
    by (auto simp: mem_submit_def same_submission_def dict_simps split: option.splits if_splits)
  with mem.steps_spec [OF s' run] have "\<exists>j. dict_get (jobs t) ?k = Some j \<and> spec j = sp" by metis
  then obtain j where j: "dict_get (jobs t) ?k = Some j" "spec j = sp" by blast
  have "mem_inv t" using mem_steps_inv [OF s' run] .
  with j have "dict_get (idempotency t) (idempotency_key sp) = Some ?k" by (auto simp: mem_inv_def)
  with j show ?thesis by (auto simp: mem_submit_def same_submission_def)
qed

theorem submit_idempotent_witness:
  "\<exists>j. mem_submit ex_spec ''j2'' 40 ex_claimed = (Inr \<lparr>submitted_job = j, created = False\<rparr>, ex_claimed)"
proof -
  have "mem_submit ex_spec ''j1'' 0 (mem_empty :: (unit, unit) mem_store) =
      (Inr \<lparr>submitted_job = fresh_job ex_spec ''j1'' 0, created = True\<rparr>, ex_queued)"
    by (simp add: ex_queued_def mem_submit_def mem_empty_def)
  from submit_idempotent [OF mem_inv_empty ex_spec_ok _ this ex_run, of "''j2''" 40]
  show ?thesis by (auto simp: mem_empty_def)
qed

text \<open>C11. What a claim does: an accepted claim first fails every unfinished job whose deadline
  has passed, and leaves the other jobs, the keys and the idempotency index alone; then it either
  finds no claimable job and returns \<open>None\<close>, or leases to the caller the claimable job that is
  first by priority, then availability, then creation time, then identifier, and returns it as it
  is stored: running, with one more attempt.\<close>

theorem claim_takes_first:
  assumes "mem_inv s" and "\<not> blank w" and "0 < ls"
    and "mem_claim w ls ds uuid now s = (r, t)"
  shows "((r = Inr None \<and> t = expire_all now s \<and>
      (\<forall>k j. dict_get (jobs t) k = Some j \<longrightarrow> \<not> claimable ds now j)) \<or>
    (\<exists>j. r = Inr (Some (start_lease w uuid now ls j)) \<and>
      dict_get (jobs s) (job_id j) = Some j \<and> claimable ds now j \<and> \<not> deadline_expired j now \<and>
      t = put_job (start_lease w uuid now ls j) (expire_all now s) \<and>
      (\<forall>k i. dict_get (jobs s) k = Some i \<longrightarrow> claimable ds now i \<longrightarrow> \<not> deadline_expired i now \<longrightarrow>
         claim_key j \<le> claim_key i))) \<and>
    idempotency t = idempotency s \<and>
    (\<forall>k i. dict_get (jobs s) k = Some i \<longrightarrow> (\<forall>c. r = Inr (Some c) \<longrightarrow> job_id c \<noteq> k) \<longrightarrow>
      dict_get (jobs t) k = Some (if terminal_status (status i) \<or> \<not> deadline_expired i now then i
        else clear_lease (i\<lparr>status := FAILED, last_error := Some ''deadline_exceeded'', updated_at := now\<rparr>)))"
  using assms(1-3)
proof (cases rule: claim_cases [where ds = ds and uuid = uuid and now = now])
  case none
  with assms(4) show ?thesis
    by (auto simp: dict_simps expire_deadline_def) (auto simp: expire_all_def)
next
  case (some j)
  have same: "snd (expire_deadline i now) = i" if "\<not> deadline_expired i now"
    for i :: "('a, 'b) execution_job"
    using that by (simp add: expire_deadline_def)
  from some(1) obtain i where i: "dict_get (jobs s) (job_id j) = Some i"
    "j = snd (expire_deadline i now)" by (auto simp: dict_simps)
  with some(2) have "\<not> deadline_expired i now"
    by (auto simp: expire_deadline_def clear_lease_def claimable_def split: if_splits)
  with i same have ij: "dict_get (jobs s) (job_id j) = Some j" "\<not> deadline_expired j now" by auto
  have "claim_key j \<le> claim_key l"
    if "dict_get (jobs s) k = Some l" "claimable ds now l" "\<not> deadline_expired l now" for k l
    using that same by (intro some(3) [of k]) (auto simp: dict_simps)
  moreover have rt: "r = Inr (Some (start_lease w uuid now ls j))"
    "t = put_job (start_lease w uuid now ls j) (expire_all now s)" using some(4) assms(4) by auto
  moreover have "dict_get (jobs t) k = Some (if terminal_status (status l) \<or> \<not> deadline_expired l now then l
      else clear_lease (l\<lparr>status := FAILED, last_error := Some ''deadline_exceeded'', updated_at := now\<rparr>))"
    if "dict_get (jobs s) k = Some l" "\<forall>c. r = Inr (Some c) \<longrightarrow> job_id c \<noteq> k" for k l
  proof -
    have "k \<noteq> job_id j" using that(2) by (auto simp: rt(1))
    with that(1) have "dict_get (jobs t) k = Some (snd (expire_deadline l now))"
      by (simp add: rt(2) put_job_def dict_simps)
    then show ?thesis by (simp add: expire_deadline_def)
  qed
  moreover have "idempotency t = idempotency s" by (simp add: rt(2) put_job_def expire_all_def)
  ultimately show ?thesis using some(2) ij by blast
qed

theorem claim_takes_first_witness:
  "\<exists>j. ex_job = start_lease ''w1'' ''t1'' 1 30 j \<and> dict_get (jobs ex_queued) (job_id j) = Some j
     \<and> claimable None 1 j"
  using claim_takes_first [OF ex_inv(1) _ _ ex_claim_eq] by (auto simp: blank_def py_isspace_def)

text \<open>Capacity back-pressure costs no attempt: giving back a claim at once leaves the job
  queued, unleased, with the attempt counter it had before the claim, available after the
  requested delay.\<close>

theorem release_undoes_claim:
  assumes "mem_inv s" and "mem_claim w ls ds uuid now s = (Inr (Some c), t)"
    and "now' < now + ls" and "0 \<le> d"
  shows "\<exists>j j'. dict_get (jobs s) (job_id c) = Some j \<and>
    mem_release_unstarted_claim (job_id c) w uuid d now' t = (Inr j', put_job j' t) \<and>
    job_id j' = job_id c \<and> status j' = QUEUED \<and> attempt j' = attempt j \<and> spec j' = spec j \<and>
    available_at j' = now' + d \<and>
    worker_id j' = None \<and> lease_token j' = None \<and> lease_expires_at j' = None"
proof -
  have *: "\<not> blank w" "0 < ls" using assms(2) by (auto simp: mem_claim_def split: if_splits)
  obtain j where j: "c = start_lease w uuid now ls j" "dict_get (jobs s) (job_id j) = Some j"
    "dict_get (jobs t) (job_id j) = Some c"
    using assms(1) * by (cases rule: claim_cases [where ds = ds and uuid = uuid and now = now])
      (use assms(2) in \<open>auto simp: put_job_def dict_simps expire_deadline_def clear_lease_def claimable_def
        split: if_splits\<close>)
  moreover have "0 \<le> attempt j" using assms(1) j(2) by (auto simp: job_ok_defs dest: mem_inv_job)
  ultimately show ?thesis
    using assms(3,4)
    by (intro exI [of _ j] exI [of _ "clear_lease (c\<lparr>status := QUEUED, attempt := attempt j,
          available_at := now' + d, updated_at := now'\<rparr>)"])
      (auto simp: mem_release_unstarted_claim_def with_lease_def mem_lookup_def lease_active_iff
        clear_lease_def)
qed

theorem release_undoes_claim_witness:
  "\<exists>j'. mem_release_unstarted_claim ''j1'' ''w1'' ''t1'' (1/20) 1 ex_claimed =
      (Inr j', put_job j' ex_claimed) \<and> attempt j' = 0 \<and> status j' = QUEUED"
  using release_undoes_claim [OF ex_inv(1) ex_claim_eq, of 1 "1/20"]
  by (auto simp: ex_queued_eq ex_job_def)

text \<open>C21. A failed attempt of a lease holder, on every branch: the lease is cleared; a job somebody
  asked to cancel is cancelled; otherwise the job fails when its deadline has passed or its attempts
  are used up; otherwise, up to attempt 1024, a retry is scheduled at \<open>now\<close> plus the doubled back-off
  capped at the policy's maximum, or the job fails when that is not strictly before the deadline;
  from attempt 1025 on the back-off overflows, the call raises and the job stays running without a
  lease. In every case exactly this job is written.\<close>

theorem fail_schedules_retry:
  assumes "dict_get (jobs s) k = Some j" and "job_id j = k" and "lease_active j w tok now"
    and "retry_ok (retry (spec j))" and "1 \<le> attempt j"
  defines "delay \<equiv> min (initial_backoff_seconds (retry (spec j)) * 2 ^ nat (attempt j - 1))
                       (max_backoff_seconds (retry (spec j)))"
  shows "\<exists>m j'. mem_fail k w tok err now s = (m, put_job j' s) \<and> job_id j' = k \<and>
    spec j' = spec j \<and> attempt j' = attempt j \<and> created_at j' = created_at j \<and>
    cancel_requested j' = cancel_requested j \<and>
    worker_id j' = None \<and> lease_token j' = None \<and> lease_expires_at j' = None \<and>
    (if cancel_requested j then m = Inr j' \<and> status j' = CANCELLED
     else if deadline_expired j now
       then m = Inr j' \<and> status j' = FAILED \<and> last_error j' = Some ''deadline_exceeded''
     else if max_attempts (retry (spec j)) \<le> attempt j
       then m = Inr j' \<and> status j' = FAILED \<and> last_error j' = Some err
     else if 1025 \<le> attempt j then m = Inl OverflowError \<and> status j' = RUNNING
     else if \<exists>dl. deadline_at (spec j) = Some dl \<and> dl \<le> now + delay
       then m = Inr j' \<and> status j' = FAILED \<and> last_error j' = Some ''deadline_exceeded''
     else m = Inr j' \<and> status j' = RETRY_WAIT \<and> available_at j' = now + delay \<and> last_error j' = Some err)"
proof -
  have d: "delay_after_attempt (retry (spec j)) (attempt j) = (if 1025 \<le> attempt j then Inl OverflowError else Inr delay)"
    using assms(5) by (simp add: delay_after_attempt_def delay_def)
  have run: "status j = RUNNING" using assms(3) by (simp add: lease_active_iff)
  show ?thesis
    using assms(1-3) run d unfolding deadline_expired_def
    by (cases "deadline_at (spec j)")
      (auto simp: mem_fail_def with_lease_def mem_lookup_def clear_lease_def deadline_expired_def Let_def)
qed

theorem fail_schedules_retry_witness:
  "\<exists>j'. mem_fail ''j1'' ''w1'' ''t1'' ''boom'' 5 ex_claimed = (Inr j', put_job j' ex_claimed) \<and>
     status j' = RETRY_WAIT \<and> available_at j' = 6"
  using fail_schedules_retry [of ex_claimed "''j1''" ex_job "''w1''" "''t1''" 5 "''boom''"]
  by (auto simp: ex_claimed_eq ex_job_def lease_active_iff ex_spec_def default_retry_def retry_ok_iff
      deadline_expired_def)

text \<open>The back-off of a valid policy is defined for every attempt up to 1024, never below the
  initial nor above the maximal back-off, never shrinks from one attempt to the next, and
  doubles as long as it stays under the maximum.\<close>

theorem backoff_bounds:
  assumes "retry_ok r" and "1 \<le> n" and "n < 1024"
  shows "\<exists>d e. delay_after_attempt r n = Inr d \<and> delay_after_attempt r (n + 1) = Inr e \<and>
    initial_backoff_seconds r \<le> d \<and> d \<le> e \<and> e \<le> max_backoff_seconds r \<and>
    (2 * d \<le> max_backoff_seconds r \<longrightarrow> e = 2 * d)"
proof -
  let ?i = "initial_backoff_seconds r * 2 ^ nat (n - 1)"
  have e: "nat (n + 1 - 1) = Suc (nat (n - 1))" using assms(2) by simp
  have d1: "delay_after_attempt r n = Inr (min ?i (max_backoff_seconds r))"
    using assms by (simp add: delay_after_attempt_def)
  have d2: "delay_after_attempt r (n + 1) = Inr (min (2 * ?i) (max_backoff_seconds r))"
    using assms e by (simp add: delay_after_attempt_def)
  have pos: "0 \<le> max_backoff_seconds r" "0 \<le> ?i" using assms(1) by (auto simp: retry_ok_iff)
  then have "2 * min ?i (max_backoff_seconds r) \<le> max_backoff_seconds r \<longrightarrow>
      min (2 * ?i) (max_backoff_seconds r) = 2 * min ?i (max_backoff_seconds r)"
    by (auto simp: min_def)
  then show ?thesis
    using delay_after_attempt_bounds [OF assms(1) d1] delay_after_attempt_bounds [OF assms(1) d2]
      delay_after_attempt_mono [OF assms(1) d1 d2] d1 d2 by auto
qed

theorem backoff_bounds_witness:
  "delay_after_attempt default_retry 4 = Inr 8 \<and> delay_after_attempt default_retry 5 = Inr 16"
proof -
  have "retry_ok default_retry" by code_simp
  then show ?thesis
    using backoff_bounds [of default_retry 4] by (auto simp: delay_after_attempt_def default_retry_def)
qed

text \<open>Recovery of dead workers: after a recovery sweep no running job has an expired lease,
  the returned number is that of the running jobs whose lease had expired, every such job went
  back to the queue, or was cancelled because that was requested, or failed because its deadline
  or its attempts were used up; no other job changed; and a second sweep at the same time finds
  nothing.\<close>

theorem recover_sweep:
  assumes "mem_inv s" and "mem_recover_expired_leases now s = (Inr n, t)"
  shows "n = int (card {k. \<exists>j e. dict_get (jobs s) k = Some j \<and> status j = RUNNING \<and>
                             lease_expires_at j = Some e \<and> e \<le> now}) \<and>
    (\<forall>k j e. dict_get (jobs t) k = Some j \<longrightarrow> status j = RUNNING \<longrightarrow> lease_expires_at j = Some e \<longrightarrow>
       now < e) \<and>
    (\<forall>k j. dict_get (jobs s) k = Some j \<longrightarrow> dict_get (jobs t) k = Some (snd (recover_job now j))) \<and>
    fst (mem_recover_expired_leases now t) = Inr 0"
proof -
  let ?exp = "\<lambda>j. fst (recover_job now j)"
  have exp: "?exp j \<longleftrightarrow> (\<exists>e. status j = RUNNING \<and> lease_expires_at j = Some e \<and> e \<le> now)"
    for j :: "('a, 'b) execution_job"
    by (auto simp: recover_job_def split: option.splits)
  have idem: "\<not> ?exp (snd (recover_job now j))" for j :: "('a, 'b) execution_job"
    by (auto simp: recover_job_def clear_lease_def split: option.splits)
  have t: "t = s\<lparr>jobs := dict_map (\<lambda>j. snd (recover_job now j)) (jobs s)\<rparr>"
    and n: "n = int (length (filter (\<lambda>(k, j). ?exp j) (jobs s)))"
    using assms(2) by (auto simp: mem_recover_expired_leases_def)
  have dist: "dict_ok (jobs s)" using assms(1) by (simp add: mem_inv_def)
  then have "length (filter (\<lambda>(k, j). ?exp j) (jobs s)) =
      card (fst ` set (filter (\<lambda>(k, j). ?exp j) (jobs s)))"
    by (metis dict_ok_filter distinct_card length_map set_map)
  also have "fst ` set (filter (\<lambda>(k, j). ?exp j) (jobs s)) =
      {k. \<exists>j. dict_get (jobs s) k = Some j \<and> ?exp j}"
    using dist by (force simp: dict_get_in)
  finally have card: "n = int (card {k. \<exists>j e. dict_get (jobs s) k = Some j \<and> status j = RUNNING \<and>
      lease_expires_at j = Some e \<and> e \<le> now})"
    using n by (simp add: exp)
  have "filter (\<lambda>(k, j). ?exp j) (jobs t) = []"
    using idem by (auto simp: t dict_map_def filter_empty_conv)
  then have "fst (mem_recover_expired_leases now t) = Inr 0"
    by (simp add: mem_recover_expired_leases_def)
  moreover have "now < e" if "dict_get (jobs t) k = Some j" "status j = RUNNING"
    "lease_expires_at j = Some e" for k j e
    using that idem exp by (fastforce simp: t dict_simps)
  ultimately show ?thesis using card by (auto simp: t dict_simps)
qed

theorem recover_sweep_witness:
  "dict_get (jobs (snd (mem_recover_expired_leases 40 ex_claimed))) ''j1'' =
     Some (snd (recover_job 40 ex_job)) \<and> status (snd (recover_job 40 ex_job)) = QUEUED"
proof -
  obtain n t where r: "mem_recover_expired_leases 40 ex_claimed = (Inr n, t)"
    by (simp add: mem_recover_expired_leases_def)
  have "dict_get (jobs ex_claimed) ''j1'' = Some ex_job" by (simp add: ex_claimed_eq)
  with recover_sweep [OF ex_inv(2) r] r show ?thesis
    by (simp add: recover_job_def ex_job_def clear_lease_def deadline_expired_def ex_spec_def
        default_retry_def)
qed

subsection \<open>Jobs that no worker finishes\<close>

lemma with_lease_frame:
  assumes "dict_get (jobs s) k = Some j" and "status j \<noteq> RUNNING"
    and "\<And>i. dict_get (jobs s) jid = Some i \<Longrightarrow> jid \<noteq> k \<Longrightarrow>
           dict_get (jobs (snd (body i))) k = dict_get (jobs s) k"
  shows "dict_get (jobs (snd (with_lease jid w tok now body s))) k = Some j"
  using assms
  by (cases "jid = k") (auto simp: with_lease_def mem_lookup_def lease_active_iff split: option.splits)

lemma lease_ops_frame:
  assumes "mem_inv s" and "dict_get (jobs s) k = Some j" and "status j \<noteq> RUNNING"
  shows "dict_get (jobs (snd (mem_heartbeat jid w tok ls now s))) k = Some j"
    and "dict_get (jobs (snd (mem_release_unstarted_claim jid w tok d now s))) k = Some j"
    and "dict_get (jobs (snd (mem_succeed jid w tok res now s))) k = Some j"
    and "dict_get (jobs (snd (mem_fail jid w tok err now s))) k = Some j"
    and "dict_get (jobs (snd (mem_cancel_claimed jid w tok now s))) k = Some j"
  unfolding lease_op_defs using assms(2) mem_inv_job [OF assms(1)]
  by (auto intro!: with_lease_frame [OF assms(2,3)]
      simp: put_job_def dict_simps clear_lease_def expire_deadline_def split: sum.splits)

lemma claim_frame:
  assumes "mem_inv s" and "dict_get (jobs s) k = Some j" and "snd (expire_deadline j now) = j"
    and "\<not> claimable ds now j"
  shows "dict_get (jobs (snd (mem_claim w ls ds uuid now s))) k = Some j"
proof (cases "blank w \<or> ls \<le> 0")
  case True
  then show ?thesis using assms by (simp add: mem_claim_rejected)
next
  case False
  then have *: "\<not> blank w" "0 < ls" by auto
  have x: "dict_get (jobs (expire_all now s)) k = Some j" using assms by (simp add: dict_simps)
  from assms(1) * show ?thesis
  proof (cases rule: claim_cases [where ds = ds and uuid = uuid and now = now])
    case none
    with x show ?thesis by simp
  next
    case (some i)
    with x assms(4) have "job_id i \<noteq> k" by auto
    with x some show ?thesis by (simp add: put_job_def dict_simps)
  qed
qed

text \<open>A cancellation request that arrives between a claim and the return of that claim is
  lost: \<open>release_unstarted_claim\<close> puts the job back into the queue with the request still set, and
  from then on no step of any worker, claim or recovery sweep changes the job. Without a deadline
  only a second \<open>request_cancel\<close> ends it.\<close>

theorem released_cancel_stuck:
  assumes "mem_inv s" and "dict_get (jobs s) k = Some j" and "lease_active j w tok now"
    and "cancel_requested j" and "deadline_at (spec j) = None" and "0 \<le> d"
  shows "\<exists>j'. mem_release_unstarted_claim k w tok d now s = (Inr j', put_job j' s) \<and>
    status j' = QUEUED \<and> cancel_requested j' \<and>
    (\<forall>u v issued. mem_inv u \<longrightarrow> dict_get (jobs u) k = Some j' \<longrightarrow> mem_step issued u v \<longrightarrow>
       dict_get (jobs v) k = Some j' \<or> (\<exists>now'. v = snd (mem_request_cancel k now' u)))"
proof -
  define j' where "j' = clear_lease (j\<lparr>status := QUEUED, attempt := max (attempt j - 1) 0,
      available_at := now + d, updated_at := now\<rparr>)"
  have st: "status j' = QUEUED" "cancel_requested j'" "deadline_at (spec j') = None"
    using assms(4,5) by (auto simp: j'_def clear_lease_def)
  have rel: "mem_release_unstarted_claim k w tok d now s = (Inr j', put_job j' s)"
    using assms(2,3,6)
    by (simp add: mem_release_unstarted_claim_def with_lease_def mem_lookup_def j'_def)
  have "dict_get (jobs v) k = Some j' \<or> (\<exists>now'. v = snd (mem_request_cancel k now' u))"
    if u: "mem_inv u" "dict_get (jobs u) k = Some j'" and step: "mem_step issued u v"
    for u v :: "('a, 'b) mem_store" and issued
    using step
  proof cases
    case (submit sp uuid now')
    with u(2) show ?thesis by (auto simp: submit_keeps_jobs)
  next
    case (claim uuid w' ls ds now')
    moreover have "snd (expire_deadline j' now') = j'"
      using st by (simp add: expire_deadline_def deadline_expired_def)
    moreover have "\<not> claimable ds now' j'" using st by (simp add: claimable_def)
    ultimately show ?thesis using claim_frame [OF u] by blast
  next
    case (request_cancel jid now')
    show ?thesis
    proof (cases "jid = k")
      case True
      with request_cancel show ?thesis by blast
    next
      case False
      with request_cancel u mem_inv_job [OF u(1)] show ?thesis
        by (auto simp: mem_request_cancel_def mem_lookup_def put_job_def dict_simps
            split: option.splits)
    qed
  next
    case (recover now')
    with u st show ?thesis by (simp add: mem_recover_expired_leases_def dict_simps recover_job_def)
  qed (use lease_ops_frame [OF u] st in auto)
  with rel st show ?thesis by blast
qed

theorem released_cancel_stuck_witness:
  "\<exists>j'. mem_release_unstarted_claim ''j1'' ''w1'' ''t1'' (1/20) 3 ex_cancelling =
      (Inr j', put_job j' ex_cancelling) \<and> status j' = QUEUED \<and> cancel_requested j'"
proof -
  have j: "dict_get (jobs ex_cancelling) ''j1'' = Some (ex_job\<lparr>cancel_requested := True, updated_at := 2\<rparr>)"
    by (simp add: ex_cancelling_def ex_claimed_eq mem_request_cancel_def mem_lookup_def put_job_def
        ex_job_def)
  show ?thesis
    using released_cancel_stuck [OF ex_inv(3) j, of "''w1''" "''t1''" 3 "1/20"]
    by (auto simp: lease_active_iff ex_job_def ex_spec_def)
qed

text \<open>A retry count beyond the range of the float factor wedges its job: at attempt 1025 or
  later with attempts left, \<open>fail\<close> raises \<open>OverflowError\<close> after it has cleared the lease, and the
  job stays \<open>RUNNING\<close> without a lease; recovery sweeps skip it, claims never return it and every
  method of a lease holder is refused.\<close>

theorem fail_overflow_wedges:
  assumes "dict_get (jobs s) k = Some j" and "job_id j = k" and "lease_active j w tok now"
    and "\<not> cancel_requested j" and "\<not> deadline_expired j now"
    and "1025 \<le> attempt j" and "attempt j < max_attempts (retry (spec j))"
  shows "\<exists>j' t. mem_fail k w tok err now s = (Inl OverflowError, t) \<and>
    dict_get (jobs t) k = Some j' \<and> status j' = RUNNING \<and> lease_token j' = None \<and>
    (\<forall>now'. dict_get (jobs (snd (mem_recover_expired_leases now' t))) k = Some j') \<and>
    (\<forall>ds now'. \<not> claimable ds now' j') \<and>
    (\<forall>w' tok' now'. \<not> lease_active j' w' tok' now')"
proof -
  define j' where "j' = clear_lease (j\<lparr>last_error := Some err, updated_at := now\<rparr>)"
  have st: "status j' = RUNNING" "lease_token j' = None" "lease_expires_at j' = None" "job_id j' = k"
    using assms(2,3) by (auto simp: j'_def clear_lease_def lease_active_iff)
  have "mem_fail k w tok err now s = (Inl OverflowError, put_job j' s)"
    using assms
    by (auto simp: mem_fail_def with_lease_def mem_lookup_def j'_def clear_lease_def
        deadline_expired_def delay_after_attempt_def)
  with st show ?thesis
    by (intro exI [of _ j'] exI [of _ "put_job j' s"])
      (auto simp: put_job_def dict_simps mem_recover_expired_leases_def recover_job_def
        claimable_def lease_active_iff)
qed

theorem fail_overflow_wedges_witness:
  "\<exists>t. mem_fail ''j1'' ''w1'' ''t1'' ''boom'' 5
     (ex_claimed\<lparr>jobs := [(''j1'', ex_job\<lparr>attempt := 1025,
        spec := ex_spec\<lparr>retry := default_retry\<lparr>max_attempts := 2000\<rparr>\<rparr>\<rparr>)]\<rparr>) = (Inl OverflowError, t)"
  using fail_overflow_wedges [of "ex_claimed\<lparr>jobs := [(''j1'', ex_job\<lparr>attempt := 1025,
        spec := ex_spec\<lparr>retry := default_retry\<lparr>max_attempts := 2000\<rparr>\<rparr>\<rparr>)]\<rparr>" "''j1''" _ "''w1''" "''t1''" 5
      "''boom''"]
  by (auto simp: ex_job_def lease_active_iff deadline_expired_def ex_spec_def)

end
