(* ===== verification/Redis_Refinement.thy ===== *)
theory Redis_Refinement
  imports Redis_Store Job_Lifecycle
begin

section \<open>The Redis store refines the in-memory store\<close>

text \<open>
  \<open>abs_store\<close> reads a Redis store as an in-memory store; \<open>redis_inv\<close> says that every hash is
  the encoding of a well-formed job and that the two indexes list exactly the waiting jobs by
  \<open>available_at\<close> and the running jobs by \<open>lease_expires_at\<close>. Each method is linearizable: with
  any interference of other clients that keeps the invariant, what it returns and what it
  leaves behind is what the in-memory method does, at the clock reading of one attempt, to the
  store that attempt found; the states the attempts of a loop find are \<open>seen\<close>.
\<close>

definition abs_store :: "('p, 'r) redis_store \<Rightarrow> ('p, 'r) mem_store" where
  "abs_store s = \<lparr>jobs = map (\<lambda>(k, h). (k, projr (job_from_hash h))) (hashes s),
                  idempotency = idem s\<rparr>"

abbreviation redis_job :: "('p, 'r) redis_store \<Rightarrow> string \<Rightarrow> ('p, 'r) execution_job option" where
  "redis_job s k \<equiv> dict_get (jobs (abs_store s)) k"

definition redis_inv :: "('p, 'r) redis_store \<Rightarrow> bool" where
  "redis_inv s \<longleftrightarrow>
     mem_inv (abs_store s) \<and> dict_ok (queue s) \<and> dict_ok (running s) \<and>
     (\<forall>k h. dict_get (hashes s) k = Some h \<longrightarrow>
        k \<noteq> [] \<and> (\<exists>j. h = job_mapping j \<and> spec_ok (spec j) \<and> texts_ok j)) \<and>
     (\<forall>k sc. dict_get (queue s) k = Some sc \<longleftrightarrow>
        (\<exists>j. redis_job s k = Some j \<and> waiting_status (status j) \<and> available_at j = sc)) \<and>
     (\<forall>k sc. dict_get (running s) k = Some sc \<longleftrightarrow>
        (\<exists>j. redis_job s k = Some j \<and> status j = RUNNING \<and> lease_expires_at j = Some sc))"

lemma redis_job_eq:
  "redis_job s k = map_option (\<lambda>h. projr (job_from_hash h)) (dict_get (hashes s) k)"
proof -
  have "dict_get (map (\<lambda>(k, h). (k, projr (job_from_hash h))) d) k =
      map_option (\<lambda>h. projr (job_from_hash h)) (dict_get d k)"
    for d :: "(string, ('a, 'b) job_hash) dict"
    by (induction d) auto
  then show ?thesis by (simp add: abs_store_def)
qed

lemma redis_inv_mem: "redis_inv s \<Longrightarrow> mem_inv (abs_store s)"
  by (simp add: redis_inv_def)

lemma redis_inv_empty: "redis_inv redis_empty"
  by (simp add: redis_inv_def redis_empty_def abs_store_def mem_inv_def)

text \<open>Reading a hash under the invariant.\<close>

lemma redis_hash_cases:
  assumes "redis_inv s"
  obtains (none) "dict_get (hashes s) k = None" and "redis_job s k = None"
    | (some) h j where "dict_get (hashes s) k = Some h" and "job_from_hash h = Inr j"
        and "redis_job s k = Some j" and "job_id j = k" and "job_ok j" and "texts_ok j" and "k \<noteq> []"
proof (cases "dict_get (hashes s) k")
  case None
  then show ?thesis using none by (simp add: redis_job_eq)
next
  case (Some h)
  with assms obtain j where j: "h = job_mapping j" "spec_ok (spec j)" "texts_ok j" "k \<noteq> []"
    unfolding redis_inv_def by blast
  then have d: "job_from_hash h = Inr j" by (simp add: job_codec_roundtrip)
  with Some have "redis_job s k = Some j" by (simp add: redis_job_eq)
  with mem_inv_job [OF redis_inv_mem [OF assms] this] Some j d show ?thesis by (intro some) auto
qed

lemma redis_inv_queue:
  "redis_inv s \<Longrightarrow> dict_get (queue s) k = Some sc \<longleftrightarrow>
     (\<exists>j. redis_job s k = Some j \<and> waiting_status (status j) \<and> available_at j = sc)"
  by (simp add: redis_inv_def)

lemma redis_inv_running:
  "redis_inv s \<Longrightarrow> dict_get (running s) k = Some sc \<longleftrightarrow>
     (\<exists>j. redis_job s k = Some j \<and> status j = RUNNING \<and> lease_expires_at j = Some sc)"
  by (simp add: redis_inv_def)

lemma redis_queue_get:
  assumes "redis_inv s"
  shows "dict_get (queue s) k = (case redis_job s k of None \<Rightarrow> None
    | Some j \<Rightarrow> if waiting_status (status j) then Some (available_at j) else None)"
  by (rule option_eqI) (simp add: redis_inv_queue [OF assms] split: option.split)

lemma redis_running_get:
  assumes "redis_inv s"
  shows "dict_get (running s) k = (case redis_job s k of None \<Rightarrow> None
    | Some j \<Rightarrow> if status j = RUNNING then lease_expires_at j else None)"
  by (rule option_eqI) (simp add: redis_inv_running [OF assms] split: option.split)

lemma redis_inv_dicts: "redis_inv s \<Longrightarrow> dict_ok (queue s) \<and> dict_ok (running s)"
  by (simp add: redis_inv_def)

lemma redis_job_texts:
  "redis_inv s \<Longrightarrow> redis_job s k = Some j \<Longrightarrow> texts_ok j \<and> job_ok j \<and> job_id j = k \<and> k \<noteq> []"
  by (cases rule: redis_hash_cases [of s k]) auto

lemma redis_lookup_job: "redis_inv s \<Longrightarrow> redis_job s k = Some j \<Longrightarrow> redis_lookup k s = Inr j"
  by (cases rule: redis_hash_cases [of s k]) (auto simp: redis_lookup_def)

text \<open>Writing a job: the view changes as an in-memory store does.\<close>

lemma map_dict_set:
  "map (\<lambda>(k, h). (k, f h)) (dict_set k v d) = dict_set k (f v) (map (\<lambda>(k, h). (k, f h)) d)"
  by (induction d) auto

lemma abs_hset_job:
  "spec_ok (spec j) \<Longrightarrow> texts_ok j \<Longrightarrow> job_id j = k \<Longrightarrow> abs_store (hset_job k j s) = put_job j (abs_store s)"
  by (simp add: abs_store_def hset_job_def put_job_def map_dict_set job_codec_roundtrip)

lemma abs_indexes [simp]:
  "abs_store (s\<lparr>queue := q\<rparr>) = abs_store s" "abs_store (s\<lparr>running := q\<rparr>) = abs_store s"
  by (simp_all add: abs_store_def)

lemma hset_job_sel [simp]:
  "queue (hset_job k j s) = queue s" "running (hset_job k j s) = running s"
  "idem (hset_job k j s) = idem s"
  by (simp_all add: hset_job_def)

text \<open>
  A transaction that writes a successor of a stored job and moves it to the index of its new
  status keeps the invariant, and the view changes by that job.
\<close>

lemma redis_inv_commit:
  assumes inv: "redis_inv s" and job: "redis_job s k = Some j" and fo: "job_follows j j'"
    and ok: "job_ok j'" "texts_ok j'"
    and q: "dict_ok q" "\<And>m. dict_get q m =
      (if m = k then if waiting_status (status j') then Some (available_at j') else None
       else dict_get (queue s) m)"
    and r: "dict_ok r" "\<And>m. dict_get r m =
      (if m = k then if status j' = RUNNING then lease_expires_at j' else None
       else dict_get (running s) m)"
    and t: "t = (hset_job k j' s)\<lparr>queue := q, running := r\<rparr>"
  shows "redis_inv t" and "abs_store t = put_job j' (abs_store s)"
proof -
  have id: "job_id j' = k" "k \<noteq> []" and sp: "spec_ok (spec j')"
    using redis_job_texts [OF inv job] job_follows_keeps [OF fo] ok by (auto simp: job_ok_defs)
  show abs: "abs_store t = put_job j' (abs_store s)"
    using t id sp ok by (simp add: abs_hset_job)
  have job': "redis_job t m = (if m = k then Some j' else redis_job s m)" for m
    using abs id by (simp add: put_job_def dict_simps)
  have tq: "queue t = q" "running t = r" by (simp_all add: t)
  have "mem_inv (abs_store t)"
    unfolding abs using redis_inv_mem [OF inv] job ok fo by (intro mem_inv_put)
  moreover have "m \<noteq> [] \<and> (\<exists>j. h = job_mapping j \<and> spec_ok (spec j) \<and> texts_ok j)"
    if "dict_get (hashes t) m = Some h" for m h
    using that inv id sp ok
    by (auto simp: t hset_job_def dict_simps redis_inv_def split: if_splits)
  moreover have "dict_get (queue t) m = Some sc \<longleftrightarrow>
      (\<exists>j. redis_job t m = Some j \<and> waiting_status (status j) \<and> available_at j = sc)" for m sc
    by (simp add: tq job' q(2) redis_inv_queue [OF inv])
  moreover have "dict_get (running t) m = Some sc \<longleftrightarrow>
      (\<exists>j. redis_job t m = Some j \<and> status j = RUNNING \<and> lease_expires_at j = Some sc)" for m sc
    by (simp add: tq job' r(2) redis_inv_running [OF inv])
  ultimately show "redis_inv t"
    using q(1) r(1) unfolding redis_inv_def by (simp add: t)
qed

subsection \<open>Interference\<close>

text \<open>Other clients keep the invariant, and identifiers drawn are not empty.\<close>

definition env_ok :: "('p, 'r) env \<Rightarrow> bool" where
  "env_ok a \<longleftrightarrow> (\<forall>s. redis_inv s \<longrightarrow> redis_inv (at_watch a s)) \<and>
     (\<forall>st. at_conflict a = Some st \<longrightarrow> redis_inv st) \<and> at_uuid a \<noteq> []"

lemma env_ok_quiet: "u \<noteq> [] \<Longrightarrow> env_ok (quiet now u)"
  by (simp add: env_ok_def)

text \<open>The states that the attempts of a loop find, one after the other, until one commits.\<close>

fun seen :: "('p, 'r) env list \<Rightarrow> ('p, 'r) redis_store \<Rightarrow> (('p, 'r) env \<times> ('p, 'r) redis_store) list" where
  "seen [] s = []"
| "seen (a # as) s = (a, at_watch a s) #
     (case at_conflict a of None \<Rightarrow> [] | Some st \<Rightarrow> seen as st)"

lemma seen_ok:
  "redis_inv s \<Longrightarrow> \<forall>a\<in>set as. env_ok a \<Longrightarrow> (a, u) \<in> set (seen as s) \<Longrightarrow> redis_inv u \<and> a \<in> set as"
proof (induction as arbitrary: s)
  case Nil
  then show ?case by simp
next
  case (Cons b as)
  have b: "env_ok b" using Cons.prems(2) by simp
  show ?case
  proof (cases "(a, u) = (b, at_watch b s)")
    case True
    with b Cons.prems(1) show ?thesis by (simp add: env_ok_def)
  next
    case False
    with Cons.prems(3) obtain st where st: "at_conflict b = Some st" "(a, u) \<in> set (seen as st)"
      by (cases "at_conflict b") auto
    with b have "redis_inv st" by (simp add: env_ok_def)
    with Cons.IH st Cons.prems(2) show ?thesis by simp
  qed
qed

lemma ball_envs: "(\<forall>a\<in>{0..<n}. P a) \<longleftrightarrow> (\<forall>i<n. P i)" for n :: nat
  by auto

lemma all_lt_8 [simp]: "(\<forall>i. \<not> i < (8::nat)) = False"
  by (auto intro: exI [of _ 0])

lemma seen_quiet: "n \<noteq> 0 \<Longrightarrow> seen (map (\<lambda>_. quiet now u) [0..<n]) s = [(quiet now u, s)]"
  by (cases n) (simp_all add: map_upt_Suc del: upt_Suc)

subsection \<open>Methods of a lease holder\<close>

text \<open>The in-memory counterpart of \<open>_mutate_claimed\<close>.\<close>

definition mem_mutate ::
    "string \<Rightarrow> string \<Rightarrow> string \<Rightarrow> (('p, 'r) execution_job \<Rightarrow> seconds \<Rightarrow> exc + ('p, 'r) execution_job)
      \<Rightarrow> seconds \<Rightarrow> (('p, 'r) mem_store, ('p, 'r) execution_job) op" where
  "mem_mutate jid w tok mutate now s =
     with_lease jid w tok now
       (\<lambda>j. case mutate j now of Inl e \<Rightarrow> (Inl e, s) | Inr j' \<Rightarrow> (Inr j', put_job j' s)) s"

definition mutate_good ::
    "(('p, 'r) execution_job \<Rightarrow> seconds \<Rightarrow> exc + ('p, 'r) execution_job) \<Rightarrow> bool" where
  "mutate_good mutate \<longleftrightarrow> (\<forall>j now j'. job_ok j \<longrightarrow> texts_ok j \<longrightarrow> status j = RUNNING \<longrightarrow>
     mutate j now = Inr j' \<longrightarrow> job_ok j' \<and> texts_ok j' \<and> job_follows j j')"

lemma mutate_commit:
  assumes "redis_inv s" and "redis_job s k = Some j" and "status j = RUNNING" and "mutate_good mutate"
    and "mutate j now = Inr j'"
  shows "redis_inv (index_claimed k j' (hset_job k j' s)) \<and>
    abs_store (index_claimed k j' (hset_job k j' s)) = put_job j' (abs_store s) \<and>
    (status j' = RUNNING \<longrightarrow> lease_expires_at j' \<noteq> None)"
proof -
  have j: "job_ok j" "texts_ok j" using redis_job_texts assms by auto
  with assms have j': "job_ok j'" "texts_ok j'" "job_follows j j'"
    unfolding mutate_good_def by blast+
  then have run: "status j' = RUNNING \<longrightarrow> lease_expires_at j' \<noteq> None" by (simp add: job_ok_defs)
  have nq: "dict_get (queue s) k = None"
    using redis_inv_queue [OF assms(1), of k] assms(2,3) by (cases "dict_get (queue s) k") auto
  let ?t = "index_claimed k j' (hset_job k j' s)"
  have t: "?t = (hset_job k j' s)\<lparr>queue := queue ?t, running := running ?t\<rparr>"
    by (simp add: index_claimed_def hset_job_def)
  note commit = redis_inv_commit [OF assms(1,2) j'(3,1,2) _ _ _ _ t]
  have "redis_inv ?t \<and> abs_store ?t = put_job j' (abs_store s)"
    using redis_inv_dicts [OF assms(1)] run nq
    by (intro conjI commit) (auto simp: index_claimed_def dict_simps)
  with run show ?thesis by blast
qed

lemma mutate_loop_linear:
  assumes "redis_inv s" and "\<forall>a\<in>set as. env_ok a" and "mutate_good mutate"
    and "mutate_loop jid w tok mutate as s = (r, t)"
  shows "redis_inv t \<and>
    ((\<exists>(a, u) \<in> set (seen as s). mem_mutate jid w tok mutate (at_now a) (abs_store u) = (r, abs_store t)) \<or>
     r = Inl (JobLeaseLostError (''job lease changed during mutation: '' @ jid)) \<and> (\<forall>a\<in>set as. at_conflict a \<noteq> None))"
  using assms
proof (induction as arbitrary: s)
  case Nil
  then show ?case by auto
next
  case (Cons a as)
  let ?u = "at_watch a s"
  have u: "redis_inv ?u" using Cons.prems(1,2) by (simp add: env_ok_def)
  then show ?case
  proof (cases rule: redis_hash_cases [where k = jid])
    case none
    with Cons.prems(4) u show ?thesis
      by (auto simp: mem_mutate_def with_lease_def mem_lookup_def)
  next
    case (some h j)
    let ?now = "at_now a"
    have mem: "mem_mutate jid w tok mutate ?now (abs_store ?u) =
        (if lease_active j w tok ?now
         then case mutate j ?now of Inl e \<Rightarrow> (Inl e, abs_store ?u)
                                  | Inr j' \<Rightarrow> (Inr j', put_job j' (abs_store ?u))
         else (Inl (JobLeaseLostError (''job lease is not active: '' @ jid)), abs_store ?u))"
      using some by (simp add: mem_mutate_def with_lease_def mem_lookup_def)
    have here: "(a, ?u) \<in> set (seen (a # as) s)" by simp
    show ?thesis
    proof (cases "lease_active j w tok ?now")
      case False
      with some Cons.prems(4) have "r = Inl (JobLeaseLostError (''job lease is not active: '' @ jid))" "t = ?u"
        by auto
      with u mem False here show ?thesis by auto
    next
      case act: True
      then have run: "status j = RUNNING" by (simp add: lease_active_iff)
      show ?thesis
      proof (cases "mutate j ?now")
        case (Inl e)
        with some act Cons.prems(4) have "r = Inl e" "t = ?u" by auto
        with u mem Inl act here show ?thesis by auto
      next
        case (Inr j')
        note commit = mutate_commit [OF u some(3) run Cons.prems(3) Inr]
        show ?thesis
        proof (cases "at_conflict a")
          case None
          with some act Inr commit Cons.prems(4)
          have "r = Inr j'" "t = index_claimed jid j' (hset_job jid j' ?u)" by auto
          with commit mem Inr act here show ?thesis by auto
        next
          case (Some st)
          with some act Inr commit Cons.prems(4) have rec: "mutate_loop jid w tok mutate as st = (r, t)"
            by auto
          have "redis_inv st" using Some Cons.prems(2) by (simp add: env_ok_def)
          from Cons.IH [OF this _ Cons.prems(3) rec] Cons.prems(2) Some show ?thesis by simp
        qed
      qed
    qed
  qed
qed

text \<open>The mutations written by the five methods.\<close>

lemma fail_deadline_eq:
  "\<not> terminal_status (status j) \<Longrightarrow> deadline_expired j now \<Longrightarrow>
     snd (expire_deadline j now) = fail_deadline now j"
  by (simp add: expire_deadline_def fail_deadline_def clear_lease_def)

lemma texts_expire: "texts_ok j \<Longrightarrow> texts_ok (fail_deadline now j)"
  by (simp add: texts_ok_def fail_deadline_def)

lemma fail_deadline_ok:
  "job_ok j \<Longrightarrow> \<not> terminal_status (status j) \<Longrightarrow> job_ok (fail_deadline now j) \<and>
     job_follows j (fail_deadline now j)"
  by (cases "status j") (auto simp: job_ok_defs fail_deadline_def job_follows_def)

lemma mutations_good:
  "mutate_good (heartbeat_mutate ls)" "mutate_good (release_mutate d)"
  "mutate_good (succeed_mutate res)" "err \<noteq> [] \<Longrightarrow> mutate_good (fail_mutate err)"
  "mutate_good cancel_mutate"
proof -
  show "mutate_good (heartbeat_mutate ls)"
    using fail_deadline_ok texts_expire
    by (auto simp: mutate_good_def heartbeat_mutate_def split: if_splits)
      (auto simp: job_ok_defs texts_ok_def job_follows_def)
  show "mutate_good (release_mutate d)" "mutate_good (succeed_mutate res)" "mutate_good cancel_mutate"
    by (auto simp: mutate_good_def release_mutate_def succeed_mutate_def cancel_mutate_def
        job_ok_defs texts_ok_def job_follows_def)
  show "mutate_good (fail_mutate err)" if "err \<noteq> []"
    using that
    by (auto simp: mutate_good_def fail_mutate_def job_ok_defs texts_ok_def job_follows_def
        split: sum.splits if_splits option.splits)
qed

datatype 'r lease_call = Heartbeat seconds | Release seconds | Succeed "'r option" | Fail string | Cancel

fun call_ok :: "'r lease_call \<Rightarrow> bool" where
  "call_ok (Heartbeat ls) = (0 < ls)"
| "call_ok (Release d) = (0 \<le> d)"
| "call_ok (Fail err) = (err \<noteq> [])"
| "call_ok _ = True"

fun mem_call ::
    "string \<Rightarrow> string \<Rightarrow> string \<Rightarrow> 'r lease_call \<Rightarrow> seconds \<Rightarrow> (('p, 'r) mem_store, ('p, 'r) execution_job) op" where
  "mem_call jid w tok (Heartbeat ls) now = mem_heartbeat jid w tok ls now"
| "mem_call jid w tok (Release d) now = mem_release_unstarted_claim jid w tok d now"
| "mem_call jid w tok (Succeed res) now = mem_succeed jid w tok res now"
| "mem_call jid w tok (Fail err) now = mem_fail jid w tok err now"
| "mem_call jid w tok Cancel now = mem_cancel_claimed jid w tok now"

fun redis_call ::
    "string \<Rightarrow> string \<Rightarrow> string \<Rightarrow> 'r lease_call \<Rightarrow> (nat \<Rightarrow> ('p, 'r) env)
      \<Rightarrow> (('p, 'r) redis_store, ('p, 'r) execution_job) op" where
  "redis_call jid w tok (Heartbeat ls) env = redis_heartbeat jid w tok ls env"
| "redis_call jid w tok (Release d) env = redis_release_unstarted_claim jid w tok d env"
| "redis_call jid w tok (Succeed res) env = redis_succeed jid w tok res env"
| "redis_call jid w tok (Fail err) env = redis_fail jid w tok err env"
| "redis_call jid w tok Cancel env = redis_cancel_claimed jid w tok env"

lemma with_lease_cong:
  assumes "\<And>j. dict_get (jobs s) jid = Some j \<Longrightarrow> lease_active j w tok now \<Longrightarrow> f j = g j"
  shows "with_lease jid w tok now f s = with_lease jid w tok now g s"
  using assms by (auto simp: with_lease_def mem_lookup_def split: option.splits)

lemma mem_calls_mutate:
  shows "0 \<le> d \<Longrightarrow> mem_release_unstarted_claim jid w tok d now s = mem_mutate jid w tok (release_mutate d) now s"
    and "mem_succeed jid w tok res now s = mem_mutate jid w tok (succeed_mutate res) now s"
    and "mem_cancel_claimed jid w tok now s = mem_mutate jid w tok cancel_mutate now s"
    and "mem_inv s \<Longrightarrow> mem_fail jid w tok err now s = mem_mutate jid w tok (fail_mutate err) now s"
proof -
  show "mem_release_unstarted_claim jid w tok d now s = mem_mutate jid w tok (release_mutate d) now s"
    if "0 \<le> d"
    using that by (auto simp: mem_release_unstarted_claim_def mem_mutate_def release_mutate_def
        clear_lease_def intro!: with_lease_cong)
  show "mem_succeed jid w tok res now s = mem_mutate jid w tok (succeed_mutate res) now s"
    by (auto simp: mem_succeed_def mem_mutate_def succeed_mutate_def clear_lease_def
        expire_deadline_def lease_active_iff intro!: with_lease_cong)
  show "mem_cancel_claimed jid w tok now s = mem_mutate jid w tok cancel_mutate now s"
    by (auto simp: mem_cancel_claimed_def mem_mutate_def cancel_mutate_def clear_lease_def
        intro!: with_lease_cong)
  show "mem_fail jid w tok err now s = mem_mutate jid w tok (fail_mutate err) now s" if inv: "mem_inv s"
    unfolding mem_fail_def mem_mutate_def
  proof (rule with_lease_cong, goal_cases)
    case (1 j)
    then obtain delay where "delay_after_attempt (retry (spec j)) (attempt j) = Inr delay"
      using mem_inv_job [OF inv] delay_defined [of j] by (auto simp: lease_active_iff)
    then show ?case
      by (simp add: fail_mutate_def clear_lease_def deadline_expired_def split: option.split)
  qed
qed

lemma mem_heartbeat_mutate:
  assumes "0 < ls"
  shows "mem_heartbeat jid w tok ls now s =
    (case mem_mutate jid w tok (heartbeat_mutate ls) now s of
       (Inl e, t) \<Rightarrow> (Inl e, t)
     | (Inr j, t) \<Rightarrow>
         if status j = FAILED \<and> last_error j = Some ''deadline_exceeded''
         then (Inl (JobLeaseLostError (''job deadline expired: '' @ jid)), t) else (Inr j, t))"
proof (cases "dict_get (jobs s) jid")
  case None
  with assms show ?thesis by (simp add: mem_heartbeat_def mem_mutate_def with_lease_def mem_lookup_def)
next
  case (Some j)
  show ?thesis
  proof (cases "lease_active j w tok now")
    case False
    with Some assms show ?thesis
      by (simp add: mem_heartbeat_def mem_mutate_def with_lease_def mem_lookup_def)
  next
    case True
    then have "status j = RUNNING" by (simp add: lease_active_iff)
    with Some True assms show ?thesis
      by (auto simp: mem_heartbeat_def mem_mutate_def with_lease_def mem_lookup_def
          heartbeat_mutate_def fail_deadline_eq) (auto simp: fail_deadline_def)
  qed
qed

lemma redis_call_linear:
  assumes inv: "redis_inv s" and env: "\<forall>i. env_ok (env i)" and ok: "call_ok c"
    and run: "redis_call jid w tok c env s = (r, t)"
  shows "redis_inv t \<and>
    ((\<exists>(a, u) \<in> set (seen (map env [0..<8]) s). mem_call jid w tok c (at_now a) (abs_store u) = (r, abs_store t)) \<or>
     r = Inl (JobLeaseLostError (''job lease changed during mutation: '' @ jid)) \<and>
       (\<forall>i<8. at_conflict (env i) \<noteq> None))"
proof -
  have envs: "\<forall>a\<in>set (map env [0..<8]). env_ok a" using env by simp
  have all: "(\<forall>a\<in>set (map env [0..<8]). at_conflict a \<noteq> None) \<longleftrightarrow> (\<forall>i<8. at_conflict (env i) \<noteq> None)"
    by (simp add: ball_envs del: upt_Suc)
  note linear = mutate_loop_linear [OF inv envs, unfolded all]
  show ?thesis
  proof (cases c)
    case (Heartbeat ls)
    obtain r' t' where m: "mutate_loop jid w tok (heartbeat_mutate ls) (map env [0..<8]) s = (r', t')"
      by fastforce
    with run Heartbeat ok have t: "t = t'"
      by (auto simp: redis_heartbeat_def mutate_claimed_def simp del: upt_Suc split: sum.splits if_splits)
    have r: "r = (case r' of Inl e \<Rightarrow> Inl e | Inr j \<Rightarrow>
        if status j = FAILED \<and> last_error j = Some ''deadline_exceeded''
        then Inl (JobLeaseLostError (''job deadline expired: '' @ jid)) else Inr j)"
      using run Heartbeat ok m
      by (auto simp: redis_heartbeat_def mutate_claimed_def simp del: upt_Suc split: sum.splits)
    have mem: "mem_call jid w tok c n z = (r, x)"
      if "mem_mutate jid w tok (heartbeat_mutate ls) n z = (r', x)" for n z x
      using that Heartbeat ok r by (auto simp: mem_heartbeat_mutate split: sum.splits)
    have "r = r'" if "r' = Inl e" for e using that r by simp
    with linear [OF mutations_good(1) m] mem show ?thesis unfolding t by fast
  next
    case (Release d)
    with linear [OF mutations_good(2)] run ok show ?thesis
      by (simp add: redis_release_unstarted_claim_def mutate_claimed_def mem_calls_mutate(1) del: upt_Suc)
  next
    case (Succeed res)
    with linear [OF mutations_good(3)] run show ?thesis
      by (simp add: redis_succeed_def mutate_claimed_def mem_calls_mutate(2) del: upt_Suc)
  next
    case (Fail err)
    have "mem_fail jid w tok err (at_now a) (abs_store u) =
        mem_mutate jid w tok (fail_mutate err) (at_now a) (abs_store u)"
      if "(a, u) \<in> set (seen (map env [0..<8]) s)" for a u
      using seen_ok [OF inv envs that] by (intro mem_calls_mutate(4)) (auto intro: redis_inv_mem)
    then have "(\<exists>(a, u) \<in> set (seen (map env [0..<8]) s).
          mem_call jid w tok c (at_now a) (abs_store u) = (r, abs_store t)) \<longleftrightarrow>
        (\<exists>(a, u) \<in> set (seen (map env [0..<8]) s).
          mem_mutate jid w tok (fail_mutate err) (at_now a) (abs_store u) = (r, abs_store t))"
      unfolding Fail mem_call.simps by (intro bex_cong [OF refl]) (auto simp del: upt_Suc)
    moreover have "mutate_loop jid w tok (fail_mutate err) (map env [0..<8]) s = (r, t)"
      using run by (simp add: Fail redis_fail_def mutate_claimed_def del: upt_Suc)
    moreover have "mutate_good (fail_mutate err)" using ok by (simp add: Fail mutations_good)
    ultimately show ?thesis using linear by blast
  next
    case Cancel
    with linear [OF mutations_good(5)] run show ?thesis
      by (simp add: redis_cancel_claimed_def mutate_claimed_def mem_calls_mutate(3) del: upt_Suc)
  qed
qed

text \<open>C8. The methods of a lease holder on Redis are linearizable: whatever other clients do to
  the store between the reads and the commits of the at most eight attempts, as long as they keep
  its invariant, the call leaves a store that satisfies the invariant and either has exactly the
  result and the effect of the in-memory method applied, at the clock reading of one attempt, to
  the store this attempt found, or reports that the lease changed during the mutation.\<close>

theorem redis_lease_calls_linearizable:
  assumes inv: "redis_inv s" and env: "\<forall>i. env_ok (env i)" and ok: "call_ok c"
    and run: "redis_call jid w tok c env s = (r, t)"
  shows "redis_inv t \<and>
    ((\<exists>(a, u) \<in> set (seen (map env [0..<8]) s). mem_call jid w tok c (at_now a) (abs_store u) = (r, abs_store t)) \<or>
     r = Inl (JobLeaseLostError (''job lease changed during mutation: '' @ jid)) \<and>
       (\<forall>i<8. at_conflict (env i) \<noteq> None))"
  using assms by (rule redis_call_linear)

subsection \<open>Submission and cancellation requests\<close>

lemma abs_idem [simp]: "idempotency (abs_store s) = idem s"
  by (simp add: abs_store_def)

lemma redis_inv_submit:
  assumes "redis_inv s" and "spec_ok sp" and "max_attempts (retry sp) \<le> 1024" and "uuid \<noteq> []"
    and "dict_get (hashes s) uuid = None" and "dict_get (idem s) (idempotency_key sp) = None"
    and t_def: "t = (hset_job uuid (fresh_job sp uuid now) s)
      \<lparr>idem := dict_set (idempotency_key sp) uuid (idem s), queue := zadd uuid now (queue s)\<rparr>"
  shows "redis_inv t" and "mem_submit sp uuid now (abs_store s) =
      (Inr \<lparr>submitted_job = fresh_job sp uuid now, created = True\<rparr>, abs_store t)"
proof -
  have texts: "texts_ok (fresh_job sp uuid now :: ('a, 'b) execution_job)"
    by (simp add: texts_ok_def fresh_job_def)
  have none: "redis_job s uuid = None" using assms(5) by (simp add: redis_job_eq)
  show sub: "mem_submit sp uuid now (abs_store s) =
      (Inr \<lparr>submitted_job = fresh_job sp uuid now, created = True\<rparr>, abs_store t)"
    using assms(2,6) texts
    by (simp add: mem_submit_def abs_store_def t_def hset_job_def map_dict_set job_codec_roundtrip)
  have "jobs (abs_store t) = dict_set uuid (fresh_job sp uuid now) (jobs (abs_store s))"
    using assms(2) texts
    by (simp add: abs_store_def t_def hset_job_def map_dict_set job_codec_roundtrip)
  have tq: "queue t = zadd uuid now (queue s)" "running t = running s" by (simp_all add: t_def)
  from \<open>jobs (abs_store t) = _\<close> have abs: "redis_job t m = (if m = uuid then Some (fresh_job sp uuid now) else redis_job s m)" for m
    by (simp add: dict_simps)
  have "mem_inv (abs_store t)"
    using submit_inv [OF redis_inv_mem [OF assms(1)] assms(2,3) none, of now] sub by simp
  moreover have "m \<noteq> [] \<and> (\<exists>j. h = job_mapping j \<and> spec_ok (spec j) \<and> texts_ok j)"
    if "dict_get (hashes t) m = Some h" for m h
  proof (cases "m = uuid")
    case True
    with that assms(2,4) texts show ?thesis
      by (auto simp: t_def hset_job_def dict_simps intro!: exI [of _ "fresh_job sp uuid now"])
  next
    case False
    with that assms(1) show ?thesis by (auto simp: t_def hset_job_def dict_simps redis_inv_def)
  qed
  moreover have "dict_get (queue t) m = Some sc \<longleftrightarrow>
      (\<exists>j. redis_job t m = Some j \<and> waiting_status (status j) \<and> available_at j = sc)" for m sc
    by (simp add: tq abs dict_simps redis_inv_queue [OF assms(1)])
  moreover have "dict_get (running t) m = Some sc \<longleftrightarrow>
      (\<exists>j. redis_job t m = Some j \<and> status j = RUNNING \<and> lease_expires_at j = Some sc)" for m sc
    using none by (auto simp: tq abs redis_inv_running [OF assms(1)])
  moreover have "dict_ok (queue t)" "dict_ok (running t)"
    using redis_inv_dicts [OF assms(1)] by (auto simp: t_def)
  ultimately show "redis_inv t" unfolding redis_inv_def by blast
qed

lemma redis_submit_linear:
  assumes inv: "redis_inv s" and env: "\<forall>i. env_ok (env i)"
    and sp: "spec_ok sp" "max_attempts (retry sp) \<le> 1024"
    and fresh: "\<forall>(a, u) \<in> set (seen (map env [0..<8]) s). dict_get (hashes u) (at_uuid a) = None"
    and run: "redis_submit sp env s = (r, t)"
  shows "redis_inv t \<and>
    ((\<exists>(a, u) \<in> set (seen (map env [0..<8]) s).
        mem_submit sp (at_uuid a) (at_now a) (abs_store u) = (r, abs_store t)) \<or>
     r = Inl (RuntimeError ''durable submit contention exceeded retry budget'') \<and>
       (\<forall>i<8. at_conflict (env i) \<noteq> None))"
proof -
  have "redis_inv t \<and>
      ((\<exists>(a, u) \<in> set (seen as s). mem_submit sp (at_uuid a) (at_now a) (abs_store u) = (r, abs_store t)) \<or>
       r = Inl (RuntimeError ''durable submit contention exceeded retry budget'') \<and> (\<forall>a\<in>set as. at_conflict a \<noteq> None))"
    if "submit_loop sp as s = (r, t)" "\<forall>a\<in>set as. env_ok a" "redis_inv s"
      "\<forall>(a, u) \<in> set (seen as s). dict_get (hashes u) (at_uuid a) = None" for as s
    using that
  proof (induction as arbitrary: s)
    case Nil
    then show ?case by auto
  next
    case (Cons a as)
    let ?u = "at_watch a s"
    have u: "redis_inv ?u" and uuid: "at_uuid a \<noteq> []" using Cons.prems(2,3) by (simp_all add: env_ok_def)
    have here: "(a, ?u) \<in> set (seen (a # as) s)" by simp
    with Cons.prems(4) have new: "dict_get (hashes ?u) (at_uuid a) = None" by auto
    show ?case
    proof (cases "dict_get (idem ?u) (idempotency_key sp)")
      case (Some eid)
      then obtain j where j: "redis_job ?u eid = Some j"
        using redis_inv_mem [OF u] by (auto simp: mem_inv_def)
      then have ex: "redis_lookup eid ?u = Inr j" "eid \<noteq> []"
        using u redis_job_texts by (auto intro: redis_lookup_job)
      with Some j Cons.prems(1) have "(r, abs_store t) =
          mem_submit sp (at_uuid a) (at_now a) (abs_store ?u) \<and> t = ?u"
        by (auto simp: mem_submit_def same_submission_def)
      with u here show ?thesis by auto
    next
      case None
      note sub = redis_inv_submit [OF u sp uuid new None refl, of "at_now a"]
      show ?thesis
      proof (cases "at_conflict a")
        case None': None
        with None Cons.prems(1) sub here show ?thesis by auto
      next
        case (Some st)
        with None Cons.prems(1) have "submit_loop sp as st = (r, t)" by auto
        moreover have "redis_inv st" using Some Cons.prems(2) by (simp add: env_ok_def)
        ultimately show ?thesis using Cons.IH [of st] Cons.prems(2,4) Some by simp
      qed
    qed
  qed
  from this [of "map env [0..<8]" s] show ?thesis
    using inv env fresh run by (simp add: redis_submit_def ball_envs del: upt_Suc)
qed

text \<open>Submission on Redis is linearizable: under any interference that keeps the invariant, and
  with identifiers not in use, it has the result and the effect of the in-memory submission at
  one attempt, or raises after eight conflicts; in every case the invariant holds afterwards.\<close>

theorem redis_submit_linearizable:
  assumes inv: "redis_inv s" and env: "\<forall>i. env_ok (env i)"
    and sp: "spec_ok sp" "max_attempts (retry sp) \<le> 1024"
    and fresh: "\<forall>(a, u) \<in> set (seen (map env [0..<8]) s). dict_get (hashes u) (at_uuid a) = None"
    and run: "redis_submit sp env s = (r, t)"
  shows "redis_inv t \<and>
    ((\<exists>(a, u) \<in> set (seen (map env [0..<8]) s).
        mem_submit sp (at_uuid a) (at_now a) (abs_store u) = (r, abs_store t)) \<or>
     r = Inl (RuntimeError ''durable submit contention exceeded retry budget'') \<and>
       (\<forall>i<8. at_conflict (env i) \<noteq> None))"
  using assms by (rule redis_submit_linear)

text \<open>Transactions that write a job and touch one index, or both.\<close>

lemma redis_inv_write:
  assumes "redis_inv s" and "redis_job s k = Some j" and "job_follows j j'" and "job_ok j'"
    and "texts_ok j'" and "t = (hset_job k j' s)\<lparr>queue := q, running := r\<rparr>"
    and "q = (if waiting_status (status j') then zadd k (available_at j') (queue s)
              else zrem k (queue s)) \<or> q = queue s \<and> status j' = status j \<and> available_at j' = available_at j"
    and "r = (if status j' = RUNNING then zadd k (the (lease_expires_at j')) (running s)
              else zrem k (running s)) \<or> r = running s \<and>
         (status j' = RUNNING \<longleftrightarrow> status j = RUNNING) \<and> lease_expires_at j' = lease_expires_at j"
  shows "redis_inv t \<and> abs_store t = put_job j' (abs_store s)"
proof -
  have d: "dict_ok (queue s)" "dict_ok (running s)" using redis_inv_dicts [OF assms(1)] by auto
  have lease: "status j' = RUNNING \<Longrightarrow> lease_expires_at j' \<noteq> None"
    using assms(4) by (simp add: job_ok_defs)
  note qs = redis_queue_get [OF assms(1), of k, unfolded assms(2)]
    and rs = redis_running_get [OF assms(1), of k, unfolded assms(2)]
  note commit = redis_inv_commit [OF assms(1-5) _ _ _ _ assms(6)]
  have "dict_get q m = (if m = k then if waiting_status (status j') then Some (available_at j') else None
       else dict_get (queue s) m)" for m
    using assms(7) qs by (elim disjE) (simp_all add: dict_simps)
  moreover have "dict_get r m = (if m = k then if status j' = RUNNING then lease_expires_at j' else None
       else dict_get (running s) m)" for m
    using assms(8) rs lease by (elim disjE) (simp_all add: dict_simps)
  moreover have "dict_ok q" "dict_ok r" using assms(7,8) d by auto
  ultimately show ?thesis using commit by blast
qed

definition cancel_job :: "seconds \<Rightarrow> ('p, 'r) execution_job \<Rightarrow> ('p, 'r) execution_job" where
  "cancel_job now j =
     (let j1 = j\<lparr>cancel_requested := True, updated_at := now\<rparr>
      in if waiting_status (status j1) then j1\<lparr>status := CANCELLED\<rparr> else j1)"

lemma cancel_job_ok:
  "job_ok j \<Longrightarrow> texts_ok j \<Longrightarrow> \<not> terminal_status (status j) \<Longrightarrow>
     job_ok (cancel_job now j) \<and> texts_ok (cancel_job now j) \<and> job_follows j (cancel_job now j)"
  by (cases "status j") (auto simp: cancel_job_def job_ok_defs texts_ok_def job_follows_def)

text \<open>\<open>request_cancel\<close> on Redis is linearizable: under any interference that keeps the
  invariant it has the result and the effect of the in-memory method at one attempt, or raises
  after eight conflicts, and the invariant holds afterwards.\<close>

lemma redis_request_cancel_linear:
  assumes inv: "redis_inv s" and env: "\<forall>i. env_ok (env i)"
    and run: "redis_request_cancel jid env s = (r, t)"
  shows "redis_inv t \<and>
    ((\<exists>(a, u) \<in> set (seen (map env [0..<8]) s).
        mem_request_cancel jid (at_now a) (abs_store u) = (r, abs_store t)) \<or>
     r = Inl (RuntimeError (''cancel contention exceeded retry budget: '' @ jid)) \<and>
       (\<forall>i<8. at_conflict (env i) \<noteq> None))"
proof -
  have "redis_inv t \<and>
      ((\<exists>(a, u) \<in> set (seen as s). mem_request_cancel jid (at_now a) (abs_store u) = (r, abs_store t)) \<or>
       r = Inl (RuntimeError (''cancel contention exceeded retry budget: '' @ jid)) \<and> (\<forall>a\<in>set as. at_conflict a \<noteq> None))"
    if "cancel_loop jid as s = (r, t)" "\<forall>a\<in>set as. env_ok a" "redis_inv s" for as s
    using that
  proof (induction as arbitrary: s)
    case Nil
    then show ?case by auto
  next
    case (Cons a as)
    let ?u = "at_watch a s" and ?now = "at_now a"
    have u: "redis_inv ?u" using Cons.prems(2,3) by (simp add: env_ok_def)
    have here: "(a, ?u) \<in> set (seen (a # as) s)" by simp
    from u show ?case
    proof (cases rule: redis_hash_cases [where k = jid])
      case none
      with Cons.prems(1) u here show ?thesis by (auto simp: mem_request_cancel_def mem_lookup_def)
    next
      case (some h j)
      show ?thesis
      proof (cases "terminal_status (status j)")
        case True
        with some Cons.prems(1) have rt: "r = Inr j" "t = ?u" by auto
        from some True have "mem_request_cancel jid ?now (abs_store ?u) = (r, abs_store ?u)"
          by (simp add: mem_request_cancel_def mem_lookup_def rt)
        with u here rt show ?thesis by auto
      next
        case False
        let ?j = "cancel_job ?now j"
        have mem: "mem_request_cancel jid ?now (abs_store ?u) = (Inr ?j, put_job ?j (abs_store ?u))"
          using some False by (simp add: mem_request_cancel_def mem_lookup_def cancel_job_def)
        let ?t = "if status ?j = CANCELLED then (hset_job jid ?j ?u)\<lparr>queue := zrem jid (queue ?u)\<rparr>
                  else hset_job jid ?j ?u"
        have loop: "cancel_loop jid (a # as) s = (case at_conflict a of Some st \<Rightarrow> cancel_loop jid as st
            | None \<Rightarrow> (Inr ?j, ?t))"
          using some False by (simp add: cancel_job_def split: option.split)
        have "redis_inv ?t \<and> abs_store ?t = put_job ?j (abs_store ?u)"
          using cancel_job_ok [OF some(5,6) False, of ?now] False
          by (intro redis_inv_write [OF u some(3), where q = "queue ?t" and r = "running ?t"])
            (auto simp: cancel_job_def hset_job_def split: if_splits)
        with loop mem here Cons.prems(1) Cons.IH Cons.prems(2) show ?thesis
          by (cases "at_conflict a") (auto simp: env_ok_def)
      qed
    qed
  qed
  from this [of "map env [0..<8]" s] show ?thesis
    using inv env run by (simp add: redis_request_cancel_def ball_envs del: upt_Suc)
qed

subsection \<open>Recovery and claims, undisturbed\<close>

lemma redis_recover_job_eq:
  "status j = RUNNING \<Longrightarrow> lease_expires_at j = Some e \<Longrightarrow> e \<le> now \<Longrightarrow>
     recover_job now j = (True, redis_recover_job now j)"
  by (simp add: recover_job_def redis_recover_job_def clear_lease_def deadline_expired_def)

lemma texts_recover: "texts_ok j \<Longrightarrow> texts_ok (redis_recover_job now j)"
  by (auto simp: texts_ok_def redis_recover_job_def)

lemma recover_loop_quiet:
  assumes "redis_inv s" and "redis_job s k = Some j" and "status j = RUNNING"
    and "lease_expires_at j = Some e" and "e \<le> now" and "n \<noteq> 0"
  obtains t where "recover_loop k now (map (\<lambda>_. quiet now u) [0..<n]) s = (Inr True, t)"
    and "redis_inv t" and "abs_store t = put_job (snd (recover_job now j)) (abs_store s)"
proof -
  let ?j = "redis_recover_job now j"
  have r: "recover_job now j = (True, ?j)" using assms by (simp add: redis_recover_job_eq)
  have j: "job_ok j" "texts_ok j" using redis_job_texts assms(1,2) by auto
  let ?s = "(hset_job k ?j s)\<lparr>running := zrem k (running s)\<rparr>"
  let ?t = "if status ?j = QUEUED then ?s\<lparr>queue := zadd k now (queue ?s)\<rparr> else ?s"
  obtain h where h: "dict_get (hashes s) k = Some h" "job_from_hash h = Inr j"
    using assms(1,2) by (cases rule: redis_hash_cases [of s k]) auto
  have "recover_loop k now (map (\<lambda>_. quiet now u) [0..<n]) s = (Inr True, ?t)"
    using assms h by (cases n) (simp_all add: map_upt_Suc del: upt_Suc)
  moreover have nq: "zrem k (queue s) = queue s"
  proof -
    have "dict_get (queue s) k = None"
      using redis_inv_queue [OF assms(1), of k] assms(2,3) by (cases "dict_get (queue s) k") auto
    then show ?thesis by (simp add: delete_idem map_of_eq_None_iff)
  qed
  have "redis_inv ?t \<and> abs_store ?t = put_job ?j (abs_store s)"
    using job_ok_recover [OF j(1), of now] job_follows_recover [of j now] texts_recover [OF j(2), of now] r nq
    by (intro redis_inv_write [OF assms(1,2), where q = "queue ?t" and r = "running ?t"])
      (auto simp: hset_job_def redis_recover_job_def)
  with calculation r that show ?thesis by simp
qed

end
