(* ===== verification/Redis_Claims.thy ===== *)
theory Redis_Claims
  imports Redis_Refinement
begin

section \<open>Claims, recovery and runs of the Redis store\<close>

text \<open>
  The recovery sweep and the claim of execution/redis_store.py work through an index. Without
  interference the sweep does what the in-memory sweep does, and a claim hands out the job that
  the in-memory claim hands out; the two stores then differ only in overdue jobs that the scan
  of the index does not reach. With interference a claim still commits only on a job that is
  claimable at the commit. Runs of the store interpret the contract \<open>durable_store\<close>.
\<close>

subsection \<open>Rewriting a set of jobs\<close>

lemma dict_set_map:
  "dict_ok d \<Longrightarrow> dict_get d k = Some v \<Longrightarrow>
     dict_set k (f v) d = map (\<lambda>(k', v'). (k', if k' = k then f v' else v')) d"
proof (induction d)
  case Nil
  then show ?case by simp
next
  case (Cons kv d)
  obtain k0 v0 where [simp]: "kv = (k0, v0)" by (cases kv)
  show ?case
  proof (cases "k0 = k")
    case True
    with Cons.prems have "k \<notin> fst ` set d" by simp
    then have "map (\<lambda>(k', v'). (k', if k' = k then f v' else v')) d = d"
      by (intro map_idI) (auto simp: image_iff)
    with True Cons.prems show ?thesis by simp
  next
    case False
    with Cons show ?thesis by simp
  qed
qed

definition rewrite_jobs ::
    "(string \<Rightarrow> bool) \<Rightarrow> (('p, 'r) execution_job \<Rightarrow> ('p, 'r) execution_job)
      \<Rightarrow> ('p, 'r) mem_store \<Rightarrow> ('p, 'r) mem_store" where
  "rewrite_jobs P f s = s\<lparr>jobs := map (\<lambda>(k, j). (k, if P k then f j else j)) (jobs s)\<rparr>"

lemma rewrite_jobs_none [simp]: "rewrite_jobs (\<lambda>k. False) f s = s"
proof -
  have "map (\<lambda>(k, j). (k, j)) xs = xs" for xs :: "(string \<times> ('a, 'b) execution_job) list"
    by (induction xs) auto
  then show ?thesis by (simp add: rewrite_jobs_def)
qed

lemma get_rewrite_jobs [dict_simps]:
  "dict_get (jobs (rewrite_jobs P f s)) k =
     map_option (\<lambda>j. if P k then f j else j) (dict_get (jobs s) k)"
proof -
  have "dict_get (map (\<lambda>(k, j). (k, if P k then f j else j)) xs) k =
      map_option (\<lambda>j. if P k then f j else j) (dict_get xs k)"
    for xs :: "(string, ('a, 'b) execution_job) dict"
    by (induction xs) auto
  then show ?thesis by (simp add: rewrite_jobs_def)
qed

lemma put_job_rewrite:
  assumes "mem_inv s" and "dict_get (jobs s) k = Some j" and "job_id (f j) = k"
  shows "put_job (f j) s = rewrite_jobs (\<lambda>m. m = k) f s"
  using assms dict_set_map [of "jobs s" k j f]
  by (simp add: put_job_def rewrite_jobs_def mem_inv_def)

lemma rewrite_jobs_rewrite:
  assumes "\<And>k. P k \<Longrightarrow> \<not> Q k"
  shows "rewrite_jobs Q f (rewrite_jobs P f s) = rewrite_jobs (\<lambda>k. P k \<or> Q k) f s"
proof -
  have "map (\<lambda>(k, j). (k, if Q k then f j else j)) (map (\<lambda>(k, j). (k, if P k then f j else j)) xs) =
      map (\<lambda>(k, j). (k, if P k \<or> Q k then f j else j)) xs"
    for xs :: "(string, ('a, 'b) execution_job) dict"
    using assms by (induction xs) auto
  then show ?thesis by (simp add: rewrite_jobs_def)
qed

subsection \<open>The recovery sweep\<close>

lemma recover_all_quiet:
  assumes "redis_inv s" and "distinct ids"
    and "\<And>k. k \<in> set ids \<Longrightarrow> \<exists>j e. redis_job s k = Some j \<and> status j = RUNNING \<and>
      lease_expires_at j = Some e \<and> e \<le> now"
  shows "\<exists>t. recover_all now (\<lambda>_ _. quiet now u) ids n s = (Inr (n + int (length ids)), t) \<and>
    redis_inv t \<and>
    abs_store t = rewrite_jobs (\<lambda>k. k \<in> set ids) (\<lambda>j. snd (recover_job now j)) (abs_store s)"
  using assms
proof (induction ids arbitrary: s n)
  case Nil
  then show ?case by simp
next
  case (Cons k ids)
  from Cons.prems(3) [of k] obtain j e where j: "redis_job s k = Some j" "status j = RUNNING"
    "lease_expires_at j = Some e" "e \<le> now" by auto
  let ?f = "\<lambda>j. snd (recover_job now j)"
  obtain s' where s': "recover_loop k now (map (\<lambda>_. quiet now u) [0..<8]) s = (Inr True, s')"
    "redis_inv s'" "abs_store s' = put_job (?f j) (abs_store s)"
    using recover_loop_quiet [OF Cons.prems(1) j, of 8 u] by auto
  have "job_id (?f j) = k"
    using redis_job_texts [OF Cons.prems(1) j(1)] job_follows_keeps [OF job_follows_recover] by metis
  with s' put_job_rewrite [OF redis_inv_mem [OF Cons.prems(1)] j(1), of ?f]
  have abs: "abs_store s' = rewrite_jobs (\<lambda>m. m = k) ?f (abs_store s)" by simp
  have "\<exists>j e. redis_job s' m = Some j \<and> status j = RUNNING \<and> lease_expires_at j = Some e \<and> e \<le> now"
    if "m \<in> set ids" for m
    using Cons.prems(2) Cons.prems(3) [of m] that by (auto simp: abs dict_simps)
  with Cons.IH [OF s'(2), of "n + 1"] Cons.prems(2) obtain t where
    t: "recover_all now (\<lambda>_ _. quiet now u) ids (n + 1) s' = (Inr (n + 1 + int (length ids)), t)"
      "redis_inv t" "abs_store t = rewrite_jobs (\<lambda>k. k \<in> set ids) ?f (abs_store s')"
    by auto
  moreover have "abs_store t = rewrite_jobs (\<lambda>m. m \<in> set (k # ids)) ?f (abs_store s)"
    unfolding t(3) abs using Cons.prems(2) by (subst rewrite_jobs_rewrite) auto
  ultimately show ?case using s'(1) by (simp del: upt_Suc)
qed

lemma redis_recover_mem:
  assumes inv: "redis_inv s"
    and run: "redis_recover_expired_leases now (\<lambda>_ _. quiet now u) s = (r, t)"
  shows "redis_inv t \<and> mem_recover_expired_leases now (abs_store s) = (r, abs_store t)"
proof -
  let ?ids = "zrangebyscore (running s) now"
  let ?J = "jobs (abs_store s)"
  have ok: "dict_ok (running s)" "dict_ok ?J"
    using redis_inv_dicts [OF inv] redis_inv_mem [OF inv] by (auto simp: mem_inv_def)
  have ids: "k \<in> set ?ids \<longleftrightarrow> (\<exists>j. redis_job s k = Some j \<and> fst (recover_job now j))" for k
    using set_zrangebyscore [OF ok(1), of k now] redis_inv_running [OF inv, of k]
    by (auto simp: recover_job_def not_less split: option.splits)
  obtain t' where t': "redis_recover_expired_leases now (\<lambda>_ _. quiet now u) s = (Inr (int (length ?ids)), t')"
    "redis_inv t'" "abs_store t' = rewrite_jobs (\<lambda>k. k \<in> set ?ids) (\<lambda>j. snd (recover_job now j)) (abs_store s)"
    using recover_all_quiet [OF inv distinct_zrangebyscore [OF ok(1)], of now now u 0]
      set_zrangebyscore [OF ok(1), of _ now] redis_inv_running [OF inv]
    unfolding redis_recover_expired_leases_def by auto
  have "map (\<lambda>(k, j). (k, if k \<in> set ?ids then snd (recover_job now j) else j)) ?J =
      map (\<lambda>(k, j). (k, snd (recover_job now j))) ?J"
  proof (rule map_cong [OF refl], clarsimp)
    fix k j
    assume "(k, j) \<in> set ?J" and "k \<notin> set ?ids"
    then have "\<not> fst (recover_job now j)" using ids [of k] dict_get_in [OF ok(2)] by auto
    then show "j = snd (recover_job now j)" by (auto simp: recover_job_def split: if_splits)
  qed
  then have state: "abs_store t' = (abs_store s)\<lparr>jobs := dict_map (\<lambda>j. snd (recover_job now j)) ?J\<rparr>"
    by (simp add: t'(3) rewrite_jobs_def dict_map_def)
  let ?F = "filter (\<lambda>(k, j). fst (recover_job now j)) ?J"
  have "set ?ids = set (map fst ?F)"
    using ids by (force simp: dict_get_in [OF ok(2)])
  then have "length ?ids = length (map fst ?F)"
    using distinct_card [OF distinct_zrangebyscore [OF ok(1)]] distinct_card [OF dict_ok_filter [OF ok(2)]]
    by metis
  then have "length ?ids = length ?F" by simp
  with t' state run show ?thesis by (simp add: mem_recover_expired_leases_def)
qed

text \<open>The recovery sweep over the running index of Redis, without interference, returns the
  number of jobs and leaves the jobs that the in-memory sweep over all jobs returns and leaves.\<close>

theorem redis_recover_refines:
  assumes inv: "redis_inv s"
    and run: "redis_recover_expired_leases now (\<lambda>_ _. quiet now u) s = (r, t)"
  shows "redis_inv t \<and> mem_recover_expired_leases now (abs_store s) = (r, abs_store t)"
  using assms by (rule redis_recover_mem)

subsection \<open>The scan of a claim\<close>

text \<open>Removing an identifier that the queue does not list changes nothing.\<close>

lemma zrem_absent: "dict_get z k = None \<Longrightarrow> zrem k z = z"
  by (simp add: delete_idem map_of_eq_None_iff)

lemma queue_self [simp]: "(s::('p, 'r) redis_store)\<lparr>queue := queue s\<rparr> = s"
  by simp

definition overdue :: "seconds \<Rightarrow> ('p, 'r) execution_job \<Rightarrow> bool" where
  "overdue now j \<longleftrightarrow> \<not> cancel_requested j \<and> deadline_expired j now"

lemma expire_commit:
  assumes "redis_inv s" and "redis_job s k = Some j" and "waiting_status (status j)"
  shows "redis_inv ((hset_job k (fail_deadline now j) s)\<lparr>queue := zrem k (queue s)\<rparr>) \<and>
    abs_store ((hset_job k (fail_deadline now j) s)\<lparr>queue := zrem k (queue s)\<rparr>) =
      put_job (fail_deadline now j) (abs_store s)"
proof -
  have j: "job_ok j" "texts_ok j" using redis_job_texts assms by auto
  have nt: "\<not> terminal_status (status j)" using assms(3) by (cases "status j") auto
  have "lease_expires_at j = None" using j(1) assms(3) by (cases "status j") (simp_all add: job_ok_defs)
  then have lease: "None = lease_expires_at j" by simp
  let ?t = "(hset_job k (fail_deadline now j) s)\<lparr>queue := zrem k (queue s)\<rparr>"
  show ?thesis
    using fail_deadline_ok [OF j(1) nt, of now] texts_expire [OF j(2), of now] assms(3) lease
    by (intro redis_inv_write [OF assms(1,2), where q = "queue ?t" and r = "running ?t"])
      (auto simp: fail_deadline_def hset_job_def)
qed

lemma expire_loop_inv:
  "redis_inv s \<Longrightarrow> \<forall>a\<in>set as. env_ok a \<Longrightarrow> expire_loop k now as s = (r, t) \<Longrightarrow>
     redis_inv t \<and> (\<exists>b. r = Inr b)"
proof (induction as arbitrary: s)
  case Nil
  then show ?case by auto
next
  case (Cons a as)
  let ?u = "at_watch a s"
  have u: "redis_inv ?u" using Cons.prems(1,2) by (simp add: env_ok_def)
  have conflict: "redis_inv t \<and> (\<exists>b. r = Inr b)"
    if "at_conflict a = Some st" "expire_loop k now as st = (r, t)" for st
    using that Cons.IH [of st] Cons.prems(2) by (simp add: env_ok_def)
  from u show ?case
  proof (cases rule: redis_hash_cases [where k = k])
    case none
    then have "zrem k (queue ?u) = queue ?u"
      by (intro zrem_absent) (simp add: redis_queue_get [OF u])
    with none Cons.prems(3) u conflict show ?thesis
      by (cases "at_conflict a") auto
  next
    case (some h j)
    with Cons.prems(3) u conflict expire_commit [OF u some(3), of now] show ?thesis
      by (cases "at_conflict a") (auto split: if_splits)
  qed
qed

lemma claim_scan_inv:
  assumes "redis_inv s" and "\<forall>k i. env_ok (xenv k i)"
  shows "\<exists>js t. claim_scan ds now xenv ids s = (Inr js, t) \<and> redis_inv t"
  using assms(1)
proof (induction ids arbitrary: s)
  case Nil
  then show ?case by simp
next
  case (Cons k ids)
  from Cons.prems show ?case
  proof (cases rule: redis_hash_cases [where k = k])
    case none
    then have "zrem k (queue s) = queue s"
      by (intro zrem_absent) (simp add: redis_queue_get [OF Cons.prems])
    with none Cons.IH [OF Cons.prems] show ?thesis by simp
  next
    case (some h j)
    show ?thesis
    proof (cases "waiting_status (status j)")
      case False
      with some have "zrem k (queue s) = queue s"
        by (intro zrem_absent) (simp add: redis_queue_get [OF Cons.prems])
      with some False Cons.IH [OF Cons.prems] show ?thesis by simp
    next
      case True
      obtain r t where x: "expire_queued_deadline k now (xenv k) s = (r, t)" by fastforce
      then obtain b where "r = Inr b" "redis_inv t"
        using expire_loop_inv [of s "map (xenv k) [0..<8]" k now r t] Cons.prems assms(2)
        by (auto simp: expire_queued_deadline_def simp del: upt_Suc)
      with x some True Cons.IH [OF Cons.prems] Cons.IH [of t] show ?thesis
        by (auto split: prod.splits sum.splits)
    qed
  qed
qed

subsection \<open>Committing a claim\<close>

lemma claim_commit:
  assumes "redis_inv s" and "redis_job s k = Some j" and "waiting_status (status j)" and "0 < ls"
    and "\<not> blank w" and "tok \<noteq> []"
  shows "redis_inv (hset_job k (start_lease w tok now ls j)
      (s\<lparr>queue := zrem k (queue s), running := zadd k (now + ls) (running s)\<rparr>)) \<and>
    abs_store (hset_job k (start_lease w tok now ls j)
      (s\<lparr>queue := zrem k (queue s), running := zadd k (now + ls) (running s)\<rparr>)) =
      put_job (start_lease w tok now ls j) (abs_store s)"
proof -
  have j: "job_ok j" "texts_ok j" using redis_job_texts assms by auto
  let ?j = "start_lease w tok now ls j"
  let ?t = "hset_job k ?j (s\<lparr>queue := zrem k (queue s), running := zadd k (now + ls) (running s)\<rparr>)"
  have "w \<noteq> []" using assms(5) by (auto simp: blank_def)
  then have "texts_ok ?j" using j(2) assms(6) by (simp add: texts_ok_def start_lease_def)
  moreover have "job_ok ?j" using j(1) assms(3) by (simp add: job_ok_def job_wf_start_lease)
  ultimately show ?thesis
    using start_lease_follows [OF assms(3)]
    by (intro redis_inv_write [OF assms(1,2), where q = "queue ?t" and r = "running ?t"])
      (auto simp: start_lease_def hset_job_def)
qed

text \<open>Claims on Redis are safe under interference: whatever other clients do between the scan
  of the queue, the reads and the commits of the at most twelve attempts, a claim keeps the
  invariant, raises nothing once its arguments are accepted, and when it returns a job then some
  attempt found that job claimable (waiting, due, not cancelled, not overdue, of an allowed
  domain) in the very store its transaction committed on, and that transaction did nothing but
  start the lease.\<close>

theorem redis_claim_safe:
  assumes inv: "redis_inv s" and env: "\<forall>i. env_ok (env i)" and xenv: "\<forall>n k i. env_ok (xenv n k i)"
    and args: "\<not> blank w" "0 < ls"
    and run: "redis_claim w ls ds xenv env s = (r, t)"
  shows "redis_inv t \<and> (r = Inr None \<or>
    (\<exists>i < 12. \<exists>u cur. redis_inv u \<and> redis_job u (job_id cur) = Some cur \<and>
        claimable ds (at_now (env i)) cur \<and> \<not> deadline_expired cur (at_now (env i)) \<and>
        r = Inr (Some (start_lease w (at_uuid (env i)) (at_now (env i)) ls cur)) \<and>
        abs_store t = put_job (start_lease w (at_uuid (env i)) (at_now (env i)) ls cur) (abs_store u)))"
proof -
  have "redis_inv t \<and> (r = Inr None \<or>
      (\<exists>a \<in> set as. \<exists>u cur. redis_inv u \<and> redis_job u (job_id cur) = Some cur \<and>
        claimable ds (at_now a) cur \<and> \<not> deadline_expired cur (at_now a) \<and>
        r = Inr (Some (start_lease w (at_uuid a) (at_now a) ls cur)) \<and>
        abs_store t = put_job (start_lease w (at_uuid a) (at_now a) ls cur) (abs_store u)))"
    if "claim_loop w ls ds xenv as s = (r, t)" "\<forall>a\<in>set as. env_ok a" "redis_inv s" for as s
    using that
  proof (induction as arbitrary: s)
    case Nil
    then show ?case by auto
  next
    case (Cons a as)
    let ?now = "at_now a"
    obtain cands s1 where scan: "claim_scan ds ?now (xenv (length as)) (zrangebyscore (queue s) ?now) s = (Inr cands, s1)"
      "redis_inv s1"
      using claim_scan_inv [OF Cons.prems(3)] xenv by blast
    let ?u = "at_watch a s1"
    have u: "redis_inv ?u" and tok: "at_uuid a \<noteq> []"
      using scan(2) Cons.prems(2) by (simp_all add: env_ok_def)
    note again = Cons.IH [OF _ _ u]
    show ?case
    proof (cases "least_by claim_key cands")
      case None
      with scan Cons.prems(1) show ?thesis by auto
    next
      case (Some sel)
      from u show ?thesis
      proof (cases rule: redis_hash_cases [where k = "job_id sel"])
        case none
        with scan Some Cons.prems(1,2) again show ?thesis by auto
      next
        case (some h cur)
        show ?thesis
        proof (cases "claimable ds ?now cur \<and> \<not> deadline_expired cur ?now")
          case False
          with some scan Some Cons.prems(1) have "claim_loop w ls ds xenv as ?u = (r, t)"
            by (auto simp: claimable_def not_less split: if_splits)
          with again Cons.prems(2) show ?thesis by auto
        next
          case True
          then have wait: "waiting_status (status cur)" by (simp add: claimable_def)
          let ?j = "start_lease w (at_uuid a) ?now ls cur"
          note commit = claim_commit [OF u some(3) wait args(2,1) tok, of ?now]
          show ?thesis
          proof (cases "at_conflict a")
            case None
            with True some scan Some Cons.prems(1) have r: "r = Inr (Some ?j)"
              and t: "t = hset_job (job_id sel) ?j (?u\<lparr>queue := zrem (job_id sel) (queue ?u),
                running := zadd (job_id sel) (?now + ls) (running ?u)\<rparr>)"
              by (auto simp: claimable_def)
            have "redis_job ?u (job_id cur) = Some cur" using some by simp
            with commit u True r t show ?thesis by auto
          next
            case (Some st)
            with True some scan \<open>least_by claim_key cands = Some sel\<close> Cons.prems(1)
            have "claim_loop w ls ds xenv as st = (r, t)" by (auto simp: claimable_def)
            with Cons.IH [of st] Cons.prems(2) Some show ?thesis by (auto simp: env_ok_def)
          qed
        qed
      qed
    qed
  qed
  from this [of "map env [0..<12]" s] show ?thesis
    using inv env run args by (fastforce simp: redis_claim_def simp del: upt_Suc)
qed

subsection \<open>Claims without interference\<close>

lemma expire_quiet:
  assumes "redis_inv s" and "redis_job s k = Some j" and "waiting_status (status j)"
    and "deadline_expired j now"
  shows "expire_queued_deadline k now (\<lambda>_. quiet n u) s =
    (Inr True, (hset_job k (fail_deadline now j) s)\<lparr>queue := zrem k (queue s)\<rparr>)"
  using assms(1)
proof (cases rule: redis_hash_cases [where k = k])
  case none
  with assms show ?thesis by simp
next
  case (some h i)
  with assms show ?thesis
    by (simp add: expire_queued_deadline_def eval_nat_numeral map_upt_Suc del: upt_Suc)
qed

text \<open>
  The scan collects the candidates in the order of the identifiers and fails the overdue jobs
  among them, except those with a cancellation request.
\<close>

lemma claim_scan_quiet:
  assumes "redis_inv s" and "distinct ids"
    and "\<And>k. k \<in> set ids \<Longrightarrow> \<exists>j. redis_job s k = Some j \<and> waiting_status (status j)"
  shows "\<exists>t. claim_scan ds now (\<lambda>_ _. quiet n u) ids s =
      (Inr (filter (\<lambda>j. \<not> cancel_requested j \<and> \<not> deadline_expired j now \<and> domain_allowed ds j)
              (map (\<lambda>k. the (redis_job s k)) ids)), t) \<and>
    redis_inv t \<and>
    abs_store t = rewrite_jobs (\<lambda>k. k \<in> set ids \<and> overdue now (the (redis_job s k)))
      (fail_deadline now) (abs_store s)"
  using assms
proof (induction ids arbitrary: s)
  case Nil
  then show ?case by simp
next
  case (Cons k ids)
  note inv = Cons.prems(1)
  from Cons.prems(3) [of k] obtain j where j: "redis_job s k = Some j" "waiting_status (status j)"
    by auto
  from inv j(1) obtain h where h: "dict_get (hashes s) k = Some h" "job_from_hash h = Inr j"
    by (cases rule: redis_hash_cases [where k = k]) auto
  let ?f = "fail_deadline now" and ?P = "\<lambda>k. k \<in> set ids \<and> overdue now (the (redis_job s k))"
  have k: "k \<notin> set ids" "distinct ids" using Cons.prems(2) by auto
  show ?case
  proof (cases "overdue now j")
    case True
    let ?s = "(hset_job k (?f j) s)\<lparr>queue := zrem k (queue s)\<rparr>"
    have s': "redis_inv ?s" "abs_store ?s = put_job (?f j) (abs_store s)"
      using expire_commit [OF inv j, of now] by auto
    have "job_id (?f j) = k" using redis_job_texts [OF inv j(1)] by (simp add: fail_deadline_def)
    with s'(2) put_job_rewrite [OF redis_inv_mem [OF inv] j(1), of ?f]
    have abs: "abs_store ?s = rewrite_jobs (\<lambda>m. m = k) ?f (abs_store s)" by simp
    then have same: "redis_job ?s m = redis_job s m" if "m \<in> set ids" for m
      using that k by (cases "redis_job s m") (auto simp: dict_simps)
    with Cons.IH [OF s'(1) k(2)] Cons.prems(3) obtain t where
      t: "claim_scan ds now (\<lambda>_ _. quiet n u) ids ?s =
        (Inr (filter (\<lambda>j. \<not> cancel_requested j \<and> \<not> deadline_expired j now \<and> domain_allowed ds j)
              (map (\<lambda>k. the (redis_job ?s k)) ids)), t)" "redis_inv t"
        "abs_store t = rewrite_jobs (\<lambda>m. m \<in> set ids \<and> overdue now (the (redis_job ?s m))) ?f (abs_store ?s)"
      by auto
    have m: "map (\<lambda>k. the (redis_job ?s k)) ids = map (\<lambda>k. the (redis_job s k)) ids"
      by (rule map_cong [OF refl], subst same) auto
    have P: "(\<lambda>m. m \<in> set ids \<and> overdue now (the (redis_job ?s m))) = ?P"
      using same by auto
    have "abs_store t = rewrite_jobs (\<lambda>m. m = k \<or> ?P m) ?f (abs_store s)"
      unfolding t(3) P unfolding abs using k by (subst rewrite_jobs_rewrite) auto
    moreover have "(\<lambda>m. m = k \<or> ?P m) = (\<lambda>m. m \<in> set (k # ids) \<and> overdue now (the (redis_job s m)))"
      using True j by auto
    ultimately have abs': "abs_store t = rewrite_jobs (\<lambda>m. m \<in> set (k # ids) \<and>
        overdue now (the (redis_job s m))) ?f (abs_store s)" by simp
    have "claim_scan ds now (\<lambda>_ _. quiet n u) (k # ids) s = claim_scan ds now (\<lambda>_ _. quiet n u) ids ?s"
      using True j h expire_quiet [OF inv j, of now n u] by (simp add: overdue_def)
    with t(1,2) abs' True j show ?thesis unfolding m by (simp add: overdue_def)
  next
    case False
    from Cons.IH [OF inv k(2)] Cons.prems(3) obtain t where
      t: "claim_scan ds now (\<lambda>_ _. quiet n u) ids s =
        (Inr (filter (\<lambda>j. \<not> cancel_requested j \<and> \<not> deadline_expired j now \<and> domain_allowed ds j)
              (map (\<lambda>k. the (redis_job s k)) ids)), t)" "redis_inv t"
        "abs_store t = rewrite_jobs ?P ?f (abs_store s)"
      by auto
    have "?P = (\<lambda>m. m \<in> set (k # ids) \<and> overdue now (the (redis_job s m)))"
      using False j by auto
    with False j h t show ?thesis by (auto simp: overdue_def)
  qed
qed

text \<open>The jobs that the scan of a claim fails: due, not cancelled and past their deadline.\<close>

definition swept :: "seconds \<Rightarrow> ('p, 'r) redis_store \<Rightarrow> string \<Rightarrow> bool" where
  "swept now s k \<longleftrightarrow> (\<exists>j. redis_job s k = Some j \<and> waiting_status (status j) \<and>
     available_at j \<le> now \<and> overdue now j)"

lemma redis_claim_cases:
  assumes inv: "redis_inv s" and args: "\<not> blank w" "0 < ls" and tok: "u \<noteq> []"
  obtains (none) t where "redis_claim w ls ds (\<lambda>_ _ _. quiet now u) (\<lambda>_. quiet now u) s = (Inr None, t)"
      and "redis_inv t" and "abs_store t = rewrite_jobs (swept now s) (fail_deadline now) (abs_store s)"
      and "\<And>k j. redis_job s k = Some j \<Longrightarrow> \<not> (claimable ds now j \<and> \<not> deadline_expired j now)"
    | (some) t j where "redis_claim w ls ds (\<lambda>_ _ _. quiet now u) (\<lambda>_. quiet now u) s =
          (Inr (Some (start_lease w u now ls j)), t)"
      and "redis_inv t" and "abs_store t = put_job (start_lease w u now ls j)
          (rewrite_jobs (swept now s) (fail_deadline now) (abs_store s))"
      and "redis_job s (job_id j) = Some j" and "claimable ds now j" and "\<not> deadline_expired j now"
      and "\<And>k i. redis_job s k = Some i \<Longrightarrow> claimable ds now i \<Longrightarrow> \<not> deadline_expired i now \<Longrightarrow>
          claim_key j \<le> claim_key i"
proof -
  let ?ids = "zrangebyscore (queue s) now" and ?q = "quiet now u :: ('a, 'b) env"
  have ok: "dict_ok (queue s)" using redis_inv_dicts [OF inv] by simp
  have ids: "k \<in> set ?ids \<longleftrightarrow> (\<exists>j. redis_job s k = Some j \<and> waiting_status (status j) \<and> available_at j \<le> now)"
    for k using set_zrangebyscore [OF ok, of k now] redis_inv_queue [OF inv, of k] by auto
  let ?g = "\<lambda>j. \<not> cancel_requested j \<and> \<not> deadline_expired j now \<and> domain_allowed ds j"
  let ?cands = "filter ?g (map (\<lambda>k. the (redis_job s k)) ?ids)"
  obtain s1 where scan: "claim_scan ds now (\<lambda>_ _. ?q) ?ids s = (Inr ?cands, s1)" and s1: "redis_inv s1"
    and abs': "abs_store s1 = rewrite_jobs (\<lambda>k. k \<in> set ?ids \<and> overdue now (the (redis_job s k)))
      (fail_deadline now) (abs_store s)"
    using claim_scan_quiet [OF inv distinct_zrangebyscore [OF ok], of now ds now now u] ids by auto
  have "(\<lambda>k. k \<in> set ?ids \<and> overdue now (the (redis_job s k))) = swept now s"
    using ids by (intro ext) (auto simp: swept_def)
  with abs' have abs: "abs_store s1 = rewrite_jobs (swept now s) (fail_deadline now) (abs_store s)" by simp
  have cands: "j \<in> set ?cands \<longleftrightarrow> (\<exists>k. redis_job s k = Some j) \<and> claimable ds now j \<and> \<not> deadline_expired j now"
    for j using ids by (force simp: claimable_def)
  have loop: "redis_claim w ls ds (\<lambda>_ _ _. ?q) (\<lambda>_. ?q) s =
      claim_loop w ls ds (\<lambda>_ _ _. ?q) (?q # map (\<lambda>_. ?q) [0..<11]) s"
    using args by (simp add: redis_claim_def eval_nat_numeral map_upt_Suc del: upt_Suc)
  show ?thesis
  proof (cases "least_by claim_key ?cands")
    case None
    then have "?cands = []" by simp
    then have "\<not> (claimable ds now j \<and> \<not> deadline_expired j now)" if "redis_job s k = Some j" for k j
      using cands [of j] that by (metis empty_iff list.set(1))
    moreover have "redis_claim w ls ds (\<lambda>_ _ _. ?q) (\<lambda>_. ?q) s = (Inr None, s1)"
      unfolding loop using scan None by simp
    ultimately show ?thesis using s1 abs none by blast
  next
    case (Some j)
    note min = least_by_SomeD [OF Some]
    from min(1) cands obtain k where k: "redis_job s k = Some j"
      and cl: "claimable ds now j" "\<not> deadline_expired j now" by blast
    then have id: "k = job_id j" using redis_job_texts [OF inv] by auto
    have k1: "redis_job s1 (job_id j) = Some j"
      using k cl by (auto simp: abs dict_simps swept_def overdue_def id)
    from s1 k1 obtain h where h: "dict_get (hashes s1) (job_id j) = Some h" "job_from_hash h = Inr j"
      by (cases rule: redis_hash_cases [where k = "job_id j"]) auto
    have wait: "waiting_status (status j)" using cl by (simp add: claimable_def)
    let ?t = "hset_job (job_id j) (start_lease w u now ls j) (s1\<lparr>queue := zrem (job_id j) (queue s1),
        running := zadd (job_id j) (now + ls) (running s1)\<rparr>)"
    have "redis_claim w ls ds (\<lambda>_ _ _. ?q) (\<lambda>_. ?q) s = (Inr (Some (start_lease w u now ls j)), ?t)"
      unfolding loop using scan Some h cl by (simp add: claimable_def)
    moreover have "claim_key j \<le> claim_key i"
      if "redis_job s m = Some i" "claimable ds now i" "\<not> deadline_expired i now" for m i
      using min(2) [of i] cands [of i] that by blast
    ultimately show ?thesis
      using claim_commit [OF s1 k1 wait args(2,1) tok, of now] cl k id abs by (intro some [of j ?t]) auto
  qed
qed

lemma sweep_agrees:
  assumes "redis_job s k = Some j"
  shows "(if swept now s k then fail_deadline now j else j) = snd (expire_deadline j now) \<or>
    \<not> swept now s k \<and> snd (expire_deadline j now) = fail_deadline now j \<and> deadline_expired j now \<and>
    (status j = RUNNING \<or> now < available_at j \<or> cancel_requested j)"
proof (cases "\<not> terminal_status (status j) \<and> deadline_expired j now")
  case True
  with assms show ?thesis
    by (cases "status j") (auto simp: fail_deadline_eq swept_def overdue_def not_less)
next
  case False
  then have "snd (expire_deadline j now) = j" by (auto simp: expire_deadline_def)
  moreover have "\<not> swept now s k"
    using False assms by (cases "status j") (auto simp: swept_def overdue_def)
  ultimately show ?thesis by simp
qed

lemma claimable_expire:
  "claimable ds now (snd (expire_deadline j now)) \<longleftrightarrow> claimable ds now j \<and> \<not> deadline_expired j now"
  "claimable ds now (snd (expire_deadline j now)) \<Longrightarrow> snd (expire_deadline j now) = j"
  by (cases "status j"; auto simp: claimable_def expire_deadline_def clear_lease_def)+

text \<open>C22. Without interference a claim on Redis returns exactly what the in-memory claim returns on
  the same jobs (the same job with the same lease, nothing, or the same error), and afterwards the
  two stores agree on every job except for overdue jobs outside the scan of the queue (running,
  not yet due or with a cancellation request): the in-memory claim fails all of them and revokes
  their leases, the Redis claim leaves them as they were.\<close>

theorem redis_claim_agrees:
  assumes inv: "redis_inv s" and tok: "u \<noteq> []"
    and run: "redis_claim w ls ds (\<lambda>_ _ _. quiet now u) (\<lambda>_. quiet now u) s = (r, t)"
    and mem: "mem_claim w ls ds u now (abs_store s) = (r', m)"
  shows "r = r' \<and> redis_inv t \<and>
    (\<forall>k. redis_job t k = dict_get (jobs m) k \<or>
      (\<exists>j. redis_job s k = Some j \<and> redis_job t k = Some j \<and>
         dict_get (jobs m) k = Some (fail_deadline now j) \<and> deadline_expired j now \<and>
         (status j = RUNNING \<or> now < available_at j \<or> cancel_requested j)))"
proof -
  let ?E = "\<lambda>k. redis_job t k = dict_get (jobs m) k \<or>
      (\<exists>j. redis_job s k = Some j \<and> redis_job t k = Some j \<and>
         dict_get (jobs m) k = Some (fail_deadline now j) \<and> deadline_expired j now \<and>
         (status j = RUNNING \<or> now < available_at j \<or> cancel_requested j))"
  let ?R = "rewrite_jobs (swept now s) (fail_deadline now) (abs_store s)"
  have agree: "dict_get (jobs ?R) k = dict_get (jobs (expire_all now (abs_store s))) k \<or>
      (\<exists>j. redis_job s k = Some j \<and> dict_get (jobs ?R) k = Some j \<and>
         dict_get (jobs (expire_all now (abs_store s))) k = Some (fail_deadline now j) \<and> deadline_expired j now \<and>
         (status j = RUNNING \<or> now < available_at j \<or> cancel_requested j))" for k
    using sweep_agrees [of s k _ now] by (cases "redis_job s k") (auto simp: dict_simps)
  show ?thesis
  proof (cases "\<not> blank w \<and> 0 < ls")
    case False
    with run mem have "r = r' \<and> t = s \<and> m = abs_store s"
      by (auto simp: redis_claim_def mem_claim_def not_less split: if_splits)
    with inv show ?thesis by simp
  next
    case True
    then have args: "\<not> blank w" "0 < ls" by auto
    have free: "(\<exists>k j. dict_get (jobs (expire_all now (abs_store s))) k = Some j \<and> claimable ds now j \<and> Q k j) \<longleftrightarrow>
        (\<exists>k j. redis_job s k = Some j \<and> claimable ds now j \<and> \<not> deadline_expired j now \<and> Q k j)" for Q
      using claimable_expire by (fastforce simp: dict_simps)
    show ?thesis
      using redis_inv_mem [OF inv] args
    proof (cases rule: claim_cases [where ds = ds and uuid = u and now = now])
      case none
      note memnone = none
      show ?thesis
        using inv args tok
      proof (cases rule: redis_claim_cases [where ds = ds and now = now])
        case none
        with memnone run mem agree show ?thesis by auto
      next
        case (some t' j)
        with free [of "\<lambda>_ _. True"] memnone(2) show ?thesis by blast
      qed
    next
      case (some i)
      note memsome = some
      show ?thesis
        using inv args tok
      proof (cases rule: redis_claim_cases [where ds = ds and now = now])
        case none
        with free [of "\<lambda>_ _. True"] memsome(1,2) show ?thesis by blast
      next
        case (some t' j)
        have i: "redis_job s (job_id i) = Some i" "\<not> deadline_expired i now"
          if "redis_job s (job_id i) = Some z" "i = snd (expire_deadline z now)" for z
          using that memsome(2) claimable_expire [of ds now z] by simp_all
        obtain z where "redis_job s (job_id i) = Some z" "i = snd (expire_deadline z now)"
          using memsome(1) by (auto simp: dict_simps)
        note i = i [OF this]
        have j: "dict_get (jobs (expire_all now (abs_store s))) (job_id j) = Some j"
          using some(4-6) claimable_expire [of ds now j] by (simp add: dict_simps)
        have "claim_key i = claim_key j"
          using memsome(2) memsome(3) [OF j some(5)] some(7) [OF i(1) memsome(2) i(2)] by simp
        then have "job_id i = job_id j" by (simp add: claim_key_def)
        with i(1) some(4) have ij: "i = j" by (metis option.inject)
        have t: "t = t'" "r = r'" "m = put_job (start_lease w u now ls j) (expire_all now (abs_store s))"
          using some(1) memsome(4) [unfolded ij] run mem by auto
        have "?E k" for k
          using agree [of k] by (auto simp: t some(3) put_job_def dict_simps)
        with t some(2) show ?thesis by blast
      qed
    qed
  qed
qed

subsection \<open>Runs of the Redis store\<close>

text \<open>
  A run applies the methods one after the other; the linearization theorems reduce an overlapping
  use of the methods that write one job to this case.
\<close>

inductive redis_step ::
    "string set \<Rightarrow> ('p, 'r) redis_store \<Rightarrow> ('p, 'r) redis_store \<Rightarrow> bool" for issued where
  submit: "spec_ok sp \<Longrightarrow> max_attempts (retry sp) \<le> 1024 \<Longrightarrow> u \<noteq> [] \<Longrightarrow>
    dict_get (hashes s) u = None \<Longrightarrow>
    redis_step issued s (snd (redis_submit sp (\<lambda>_. quiet now u) s))"
| claim: "u \<in> issued \<Longrightarrow> u \<noteq> [] \<Longrightarrow> redis_step issued s
    (snd (redis_claim w ls ds (\<lambda>_ _ _. quiet now u) (\<lambda>_. quiet now u) s))"
| call: "call_ok c \<Longrightarrow> u \<noteq> [] \<Longrightarrow> redis_step issued s (snd (redis_call jid w tok c (\<lambda>_. quiet now u) s))"
| request_cancel: "u \<noteq> [] \<Longrightarrow> redis_step issued s (snd (redis_request_cancel jid (\<lambda>_. quiet now u) s))"
| recover: "redis_step issued s (snd (redis_recover_expired_leases now (\<lambda>_ _. quiet now u) s))"

text \<open>Apart from claims, a step is a step of the in-memory store on the same jobs, or none.\<close>

lemma mem_call_step: "mem_step issued s (snd (mem_call jid w tok c now s))"
  by (cases c) (simp_all add: mem_step.intros)

lemma redis_step_cases:
  assumes inv: "redis_inv s" and "redis_step issued s t"
  obtains (mem) "redis_inv t" and "mem_step issued (abs_store s) (abs_store t)"
    | (claim) u w ls ds now where "u \<noteq> []" and "u \<in> issued"
      and "t = snd (redis_claim w ls ds (\<lambda>_ _ _. quiet now u) (\<lambda>_. quiet now u) s)"
  using assms(2)
proof cases
  case (submit sp u now)
  obtain r where r: "redis_submit sp (\<lambda>_. quiet now u) s = (r, t)"
    using submit(1) by (metis surjective_pairing)
  have *: "redis_inv t" "mem_submit sp u now (abs_store s) = (r, abs_store t)"
    using redis_submit_linear [OF inv _ submit(2,3) _ r] submit env_ok_quiet [of u now]
    by (auto simp: seen_quiet simp del: upt_Suc)
  moreover have "redis_job s u = None" using submit(5) by (simp add: redis_job_eq)
  ultimately show ?thesis
    using mem_step.submit [OF submit(2,3), of "abs_store s" u issued now] mem by simp
next
  case (claim u w ls ds now)
  then show ?thesis using that(2) by blast
next
  case (call c u jid w tok now)
  obtain r where r: "redis_call jid w tok c (\<lambda>_. quiet now u) s = (r, t)"
    using call(1) by (metis surjective_pairing)
  have "redis_inv t" "mem_call jid w tok c now (abs_store s) = (r, abs_store t)"
    using redis_call_linear [OF inv _ call(2) r] env_ok_quiet [OF call(3)]
    by (auto simp: seen_quiet simp del: upt_Suc)
  with mem_call_step [of issued "abs_store s" jid w tok c now] mem show ?thesis by simp
next
  case (request_cancel u jid now)
  obtain r where r: "redis_request_cancel jid (\<lambda>_. quiet now u) s = (r, t)"
    using request_cancel(1) by (metis surjective_pairing)
  have "redis_inv t" "mem_request_cancel jid now (abs_store s) = (r, abs_store t)"
    using redis_request_cancel_linear [OF inv _ r] env_ok_quiet [OF request_cancel(2)]
    by (auto simp: seen_quiet simp del: upt_Suc)
  with mem_step.request_cancel [of issued "abs_store s" jid now] mem show ?thesis by simp
next
  case (recover now u)
  obtain r where r: "redis_recover_expired_leases now (\<lambda>_ _. quiet now u) s = (r, t)"
    using recover by (metis surjective_pairing)
  from redis_recover_mem [OF inv r] mem mem_step.recover [of issued "abs_store s" now]
  show ?thesis by simp
qed

lemma redis_claim_rejected:
  "blank w \<or> ls \<le> 0 \<Longrightarrow> snd (redis_claim w ls ds xenv env s) = s"
  by (auto simp: redis_claim_def)

lemma swept_follows:
  assumes "redis_job s k = Some j"
  shows "job_follows j (if swept now s k then fail_deadline now j else j)"
  using assms by (cases "status j") (auto simp: swept_def fail_deadline_def job_follows_def)

lemma redis_claim_step:
  assumes inv: "redis_inv s" and tok: "u \<noteq> []"
    and t: "t = snd (redis_claim w ls ds (\<lambda>_ _ _. quiet now u) (\<lambda>_. quiet now u) s)"
  shows "redis_inv t \<and> (\<forall>k j. redis_job s k = Some j \<longrightarrow> (\<exists>j'. redis_job t k = Some j' \<and> job_follows j j'))"
proof (cases "blank w \<or> ls \<le> 0")
  case True
  with inv show ?thesis by (auto simp: t redis_claim_rejected)
next
  case False
  then have args: "\<not> blank w" "0 < ls" by auto
  from inv args tok show ?thesis
  proof (cases rule: redis_claim_cases [where ds = ds and now = now])
    case (none t')
    then have "t = t'" by (simp add: t)
    with none swept_follows [of s] show ?thesis by (fastforce simp: dict_simps)
  next
    case (some t' i)
    then have tt: "t = t'" by (simp add: t)
    have "\<exists>j'. redis_job t k = Some j' \<and> job_follows j j'" if j: "redis_job s k = Some j" for k j
    proof (cases "k = job_id i")
      case True
      with j some(4) have "j = i" by simp
      with some(5) start_lease_follows [OF claimable_waiting] show ?thesis
        by (auto simp: tt some(3) put_job_def dict_simps True)
    next
      case False
      with j swept_follows [OF j, of now] show ?thesis
        by (simp add: tt some(3) put_job_def dict_simps)
    qed
    with tt some(2) show ?thesis by blast
  qed
qed

lemma redis_step_inv: "redis_inv s \<Longrightarrow> redis_step issued s t \<Longrightarrow> redis_inv t"
  by (cases rule: redis_step_cases) (auto dest: redis_claim_step)

lemma redis_step_job:
  assumes "redis_inv s" and "redis_step issued s t" and "redis_job s k = Some j"
  shows "\<exists>j'. redis_job t k = Some j' \<and> job_follows j j'"
  using assms(1,2)
proof (cases rule: redis_step_cases)
  case mem
  then show ?thesis using mem_step_job [OF redis_inv_mem [OF assms(1)] mem(2) assms(3)] by simp
next
  case (claim u w ls ds now)
  with redis_claim_step [OF assms(1) claim(1,3)] assms(3) show ?thesis by blast
qed

interpretation redis: durable_store "\<lambda>s. s = redis_empty" "redis_step issued" redis_inv redis_job
  for issued :: "string set"
  by unfold_locales
    (auto simp: redis_inv_empty intro: redis_step_inv redis_step_job dest: redis_job_texts)

subsection \<open>A concrete Redis store\<close>

definition ex_redis :: "(unit, unit) redis_store" where
  "ex_redis = snd (redis_submit ex_spec (\<lambda>_. quiet 0 ''j1'') redis_empty)"

definition ex_redis_claimed :: "(unit, unit) redis_store" where
  "ex_redis_claimed = snd (redis_claim ''w1'' 30 None (\<lambda>_ _ _. quiet 1 ''t1'') (\<lambda>_. quiet 1 ''t1'') ex_redis)"

lemma ex_redis_eq:
  "ex_redis = \<lparr>hashes = [(''j1'', job_mapping (fresh_job ex_spec ''j1'' 0))],
     idem = [(''key'', ''j1'')], queue = [(''j1'', 0)], running = []\<rparr>"
  by (simp add: ex_redis_def redis_submit_def redis_empty_def eval_nat_numeral map_upt_Suc
      hset_job_def ex_spec_def del: upt_Suc)

lemma ex_redis_step: "redis_step {''t1''} redis_empty ex_redis"
  unfolding ex_redis_def by (rule redis_step.submit) (simp_all add: ex_spec_ok redis_empty_def)

lemma ex_redis_claim_step: "redis_step {''t1''} ex_redis ex_redis_claimed"
  unfolding ex_redis_claimed_def by (rule redis_step.claim) simp_all

lemma ex_redis_inv: "redis_inv ex_redis" "redis_inv ex_redis_claimed"
  using redis_step_inv [OF redis_inv_empty ex_redis_step] redis_step_inv ex_redis_claim_step by blast+

lemma ex_fresh_ok: "spec_ok (spec (fresh_job ex_spec ''j1'' 0))"
    "texts_ok (fresh_job ex_spec ''j1'' 0 :: (unit, unit) execution_job)"
  using ex_spec_ok by (simp_all add: fresh_job_def texts_ok_def)

lemma ex_redis_abs: "abs_store ex_redis = ex_queued"
  using ex_fresh_ok by (simp add: ex_redis_eq abs_store_def ex_queued_eq job_codec_roundtrip)

text \<open>The contract of a durable store on Redis: along any run of undisturbed calls of the Redis store, one
  after another, from a store that satisfies the invariant (what a call does under interference is
  said by the linearizability of the calls), a finished job never changes and every job keeps its
  identifier, specification and creation time, never loses a cancellation request and never uses
  more attempts than its retry policy allows.\<close>

theorem redis_runs_keep_contract:
  assumes "redis_inv s" and "(redis_step issued)\<^sup>*\<^sup>* s t" and "redis_job s k = Some j"
  shows "\<exists>j'. redis_job t k = Some j' \<and> job_id j' = k \<and> spec j' = spec j \<and>
    created_at j' = created_at j \<and> (cancel_requested j \<longrightarrow> cancel_requested j') \<and>
    attempt j' \<le> max_attempts (retry (spec j)) \<and> (terminal_status (status j) \<longrightarrow> j' = j)"
proof -
  obtain j' where j': "redis_job t k = Some j'" "job_id j' = k" "spec j' = spec j"
    "created_at j' = created_at j" "cancel_requested j \<longrightarrow> cancel_requested j'"
    using redis.steps_spec [OF assms] by blast
  moreover have "attempt j' \<le> max_attempts (retry (spec j))"
    using redis.steps_attempts [OF assms] j'(1) by simp
  moreover have "terminal_status (status j) \<longrightarrow> j' = j"
    using redis.steps_terminal [OF assms] j'(1) by auto
  ultimately show ?thesis by blast
qed

theorem redis_runs_keep_contract_witness:
  "\<exists>j'. redis_job ex_redis_claimed ''j1'' = Some j' \<and> spec j' = ex_spec"
proof -
  have "redis_job ex_redis ''j1'' = Some (fresh_job ex_spec ''j1'' 0)"
    by (simp add: ex_redis_abs ex_queued_eq)
  moreover have "(redis_step {''t1''})\<^sup>*\<^sup>* ex_redis ex_redis_claimed"
    using ex_redis_claim_step by (rule r_into_rtranclp)
  ultimately have "\<exists>j'. redis_job ex_redis_claimed ''j1'' = Some j' \<and>
      spec j' = spec (fresh_job ex_spec ''j1'' 0 :: (unit, unit) execution_job)"
    using redis_runs_keep_contract [OF ex_redis_inv(1)] by blast
  then show ?thesis by (auto simp: fresh_job_def)
qed

subsection \<open>Instances on the concrete stores\<close>

theorem redis_recover_refines_witness:
  "let (r, t) = redis_recover_expired_leases 100 (\<lambda>_ _. quiet 100 ''u'') ex_redis_claimed
   in redis_inv t \<and> mem_recover_expired_leases 100 (abs_store ex_redis_claimed) = (r, abs_store t)"
  using redis_recover_refines [OF ex_redis_inv(2)] by (auto split: prod.split)

theorem redis_claim_safe_witness:
  "let (r, t) = redis_claim ''w1'' 30 None (\<lambda>_ _ _. quiet 1 ''t1'') (\<lambda>_. quiet 1 ''t1'') ex_redis
   in redis_inv t \<and> (r = Inr None \<or> (\<exists>cur. r = Inr (Some (start_lease ''w1'' ''t1'' 1 30 cur))))"
proof -
  have "\<forall>i. env_ok ((\<lambda>_. quiet 1 ''t1'') i :: (unit, unit) env)" by (simp add: env_ok_quiet)
  moreover have "\<not> blank ''w1''" by code_simp
  ultimately show ?thesis
    using redis_claim_safe [OF ex_redis_inv(1), of "\<lambda>_. quiet 1 ''t1''" "\<lambda>_ _ _. quiet 1 ''t1''" "''w1''" 30 None]
    by (fastforce simp: env_ok_quiet split: prod.split)
qed

text \<open>A job with a deadline at time 10 that is still running, under lease, at time 20.\<close>

definition ex_late :: "(unit, unit) redis_store" where
  "ex_late = snd (redis_claim ''w1'' 30 None (\<lambda>_ _ _. quiet 1 ''t1'') (\<lambda>_. quiet 1 ''t1'')
     (snd (redis_submit (ex_spec\<lparr>deadline_at := Some 10\<rparr>) (\<lambda>_. quiet 0 ''j1'') redis_empty)))"

definition ex_late_job :: "(unit, unit) execution_job" where
  "ex_late_job = start_lease ''w1'' ''t1'' 1 30 (fresh_job (ex_spec\<lparr>deadline_at := Some 10\<rparr>) ''j1'' 0)"

lemma ex_late_spec_ok: "spec_ok (ex_spec\<lparr>deadline_at := Some 10\<rparr>)"
    "max_attempts (retry (ex_spec\<lparr>deadline_at := Some 10\<rparr>)) \<le> 1024"
  by code_simp+

lemma ex_late_inv: "redis_inv ex_late"
proof -
  let ?s = "snd (redis_submit (ex_spec\<lparr>deadline_at := Some 10\<rparr>) (\<lambda>_. quiet 0 ''j1'') redis_empty)
    :: (unit, unit) redis_store"
  have "redis_step {''t1''} redis_empty ?s"
    by (rule redis_step.submit [OF ex_late_spec_ok]) (simp_all add: redis_empty_def)
  then have "redis_inv ?s" using redis_step_inv redis_inv_empty by blast
  then show ?thesis unfolding ex_late_def by (rule redis_step_inv [OF _ redis_step.claim [where issued = UNIV]]) simp_all
qed

lemma ex_late_eq:
  "ex_late = \<lparr>hashes = [(''j1'', job_mapping ex_late_job)],
     idem = [(''key'', ''j1'')], queue = [], running = [(''j1'', 31)]\<rparr>"
proof -
  let ?j = "fresh_job (ex_spec\<lparr>deadline_at := Some 10\<rparr>) ''j1'' 0 :: (unit, unit) execution_job"
  have s: "redis_submit (ex_spec\<lparr>deadline_at := Some 10\<rparr>) (\<lambda>_. quiet 0 ''j1'') redis_empty =
     (Inr \<lparr>submitted_job = ?j, created = True\<rparr>,
      \<lparr>hashes = [(''j1'', job_mapping ?j)], idem = [(''key'', ''j1'')], queue = [(''j1'', 0)], running = []\<rparr>)"
    by (simp add: redis_submit_def redis_empty_def eval_nat_numeral map_upt_Suc hset_job_def
        ex_spec_def del: upt_Suc)
  have "texts_ok ?j" by (simp add: fresh_job_def texts_ok_def)
  then have d: "job_from_hash (job_mapping ?j) = Inr ?j"
    using ex_late_spec_ok by (intro job_codec_roundtrip) (simp_all add: fresh_job_def)
  have "\<not> blank ''w1''" by code_simp
  then show ?thesis
    unfolding ex_late_def s
    by (simp add: redis_claim_def eval_nat_numeral map_upt_Suc zrangebyscore_def d least_by_def
        deadline_expired_def domain_allowed_def ex_late_job_def hset_job_def del: upt_Suc)
qed

theorem redis_claim_agrees_witness:
  "let t = snd (redis_claim ''w2'' 30 None (\<lambda>_ _ _. quiet 20 ''t2'') (\<lambda>_. quiet 20 ''t2'') ex_late);
       m = snd (mem_claim ''w2'' 30 None ''t2'' 20 (abs_store ex_late))
   in redis_inv t \<and> map_option status (redis_job t ''j1'') = Some RUNNING \<and>
      map_option status (dict_get (jobs m) ''j1'') = Some FAILED"
proof -
  have blank: "\<not> blank ''w2''" by code_simp
  have "texts_ok ex_late_job" by (simp add: ex_late_job_def start_lease_def fresh_job_def texts_ok_def)
  then have "job_from_hash (job_mapping ex_late_job) = Inr ex_late_job"
    using ex_late_spec_ok
    by (intro job_codec_roundtrip) (simp_all add: ex_late_job_def start_lease_def fresh_job_def)
  then have abs: "abs_store ex_late = \<lparr>jobs = [(''j1'', ex_late_job)], idempotency = [(''key'', ''j1'')]\<rparr>"
    by (simp add: ex_late_eq abs_store_def)
  have r: "redis_claim ''w2'' 30 None (\<lambda>_ _ _. quiet 20 ''t2'') (\<lambda>_. quiet 20 ''t2'') ex_late = (Inr None, ex_late)"
    using blank by (simp add: redis_claim_def eval_nat_numeral map_upt_Suc zrangebyscore_def ex_late_eq
        del: upt_Suc)
  have m: "status (snd (expire_deadline ex_late_job 20)) = FAILED"
    by (simp add: ex_late_job_def expire_deadline_def deadline_expired_def clear_lease_def
        start_lease_def fresh_job_def)
  then have "mem_claim ''w2'' 30 None ''t2'' 20 (abs_store ex_late) =
      (Inr None, expire_all 20 (abs_store ex_late))"
    using blank by (simp add: mem_claim_def abs dict_map_def claimable_def expire_all_def)
  moreover from redis_claim_agrees [OF ex_late_inv _ r this] have "redis_inv ex_late" by simp
  moreover have "status ex_late_job = RUNNING" by (simp add: ex_late_job_def start_lease_def)
  ultimately show ?thesis using r m by (simp add: abs dict_simps expire_all_def dict_map_def)
qed

theorem redis_lease_calls_linearizable_witness:
  "let (r, t) = redis_call ''j1'' ''w1'' ''t1'' (Succeed (Some ())) (\<lambda>_. quiet 2 ''u'') ex_redis_claimed
   in redis_inv t \<and>
      mem_call ''j1'' ''w1'' ''t1'' (Succeed (Some ())) 2 (abs_store ex_redis_claimed) = (r, abs_store t)"
proof -
  have "\<forall>i. env_ok ((\<lambda>_. quiet 2 ''u'') i :: (unit, unit) env)" by (simp add: env_ok_quiet)
  from redis_lease_calls_linearizable [OF ex_redis_inv(2) this, of "Succeed (Some ())" "''j1''" "''w1''" "''t1''"]
  show ?thesis by (auto simp: seen_quiet simp del: upt_Suc redis_call.simps mem_call.simps split: prod.split)
qed

theorem redis_submit_linearizable_witness:
  "let (r, t) = redis_submit ex_spec (\<lambda>_. quiet 0 ''j1'') (redis_empty :: (unit, unit) redis_store)
   in redis_inv t \<and> mem_submit ex_spec ''j1'' 0 (abs_store redis_empty) = (r, abs_store t)"
proof -
  have "\<forall>i. env_ok ((\<lambda>_. quiet 0 ''j1'') i :: (unit, unit) env)" by (simp add: env_ok_quiet)
  from redis_submit_linearizable [OF redis_inv_empty this ex_spec_ok]
  show ?thesis by (auto simp: seen_quiet redis_empty_def simp del: upt_Suc split: prod.split)
qed

end
