(* ===== verification/Optimized_Store.thy ===== *)
theory Optimized_Store
  imports Redis_Claims
begin

section \<open>The optimized Redis store and the repair of its indexes\<close>

text \<open>
  \<open>execution/redis_store_optimized.py\<close>: the Redis store with one more sorted set per priority,
  which every method keeps beside the shared queue, a claim that runs as one Lua script, and a
  claim by optimistic transactions over the priority indexes; and
  \<open>execution/redis_index_repair.py\<close>, which rebuilds the priority indexes. The store is the record of
  the Redis store and the four indexes.
\<close>

record ('p, 'r) opt_store =
  base :: "('p, 'r) redis_store"
  pqueue :: "execution_priority \<Rightarrow> zset"

type_synonym ('p, 'r) oenv = "('p, 'r) opt_store attempt_env"

definition priority_order :: "execution_priority list" where
  "priority_order = [EMERGENCY, INTERACTIVE, NORMAL, BATCH]"

definition opt_empty :: "('p, 'r) opt_store" where
  "opt_empty = \<lparr>base = redis_empty, pqueue = (\<lambda>_. [])\<rparr>"

definition window_error :: "int \<Rightarrow> exc option" where
  "window_error n = (if n < 1 then Some (ValueError ''candidate_window must be positive'') else None)"

definition upd_base :: "(('p, 'r) redis_store \<Rightarrow> ('p, 'r) redis_store) \<Rightarrow> ('p, 'r) opt_store \<Rightarrow> ('p, 'r) opt_store" where
  "upd_base f s = s\<lparr>base := f (base s)\<rparr>"

definition queue_job :: "('p, 'r) execution_job \<Rightarrow> ('p, 'r) opt_store \<Rightarrow> ('p, 'r) opt_store" where
  "queue_job j s =
     (let p = priority (spec j)
      in s\<lparr>base := (base s)\<lparr>queue := zadd (job_id j) (available_at j) (queue (base s))\<rparr>,
           pqueue := (pqueue s)(p := zadd (job_id j) (available_at j) (pqueue s p))\<rparr>)"

definition dequeue_job :: "('p, 'r) execution_job \<Rightarrow> ('p, 'r) opt_store \<Rightarrow> ('p, 'r) opt_store" where
  "dequeue_job j s =
     (let p = priority (spec j)
      in s\<lparr>base := (base s)\<lparr>queue := zrem (job_id j) (queue (base s))\<rparr>,
           pqueue := (pqueue s)(p := zrem (job_id j) (pqueue s p))\<rparr>)"

text \<open>\<open>zrem\<close> of stale members from the shared queue and from every priority index.\<close>

definition purge :: "string list \<Rightarrow> ('p, 'r) opt_store \<Rightarrow> ('p, 'r) opt_store" where
  "purge ids s =
     s\<lparr>base := (base s)\<lparr>queue := fold zrem ids (queue (base s))\<rparr>, pqueue := (\<lambda>p. fold zrem ids (pqueue s p))\<rparr>"

text \<open>\<open>str.find\<close> of a character from an index on, and the test for a hash tag in the prefix.\<close>

fun find_from :: "char \<Rightarrow> nat \<Rightarrow> string \<Rightarrow> int" where
  "find_from c i [] = -1"
| "find_from c i (x # xs) = (if x = c then int i else find_from c (Suc i) xs)"

definition py_find :: "char \<Rightarrow> string \<Rightarrow> int \<Rightarrow> int" where
  "py_find c s start = find_from c (nat start) (drop (nat start) s)"

definition supports_atomic_claim :: "string \<Rightarrow> bool" where
  "supports_atomic_claim prefix =
     (let start = py_find (CHR ''{'') prefix 0; stop = py_find (CHR ''}'') prefix (start + 1)
      in 0 \<le> start \<and> start + 1 < stop)"

subsection \<open>Submission\<close>

fun opt_submit_loop ::
    "'p job_spec \<Rightarrow> ('p, 'r) oenv list \<Rightarrow> (('p, 'r) opt_store, ('p, 'r) submit_result) op" where
  "opt_submit_loop sp [] s =
     (Inl (RuntimeError ''durable submit contention exceeded retry budget''), s)"
| "opt_submit_loop sp (a # as) s0 =
     (let s = at_watch a s0; existing = dict_get (idem (base s)) (idempotency_key sp)
      in if existing \<noteq> None \<and> existing \<noteq> Some []
         then case redis_lookup (the existing) (base s) of
                Inl e \<Rightarrow> (Inl e, s)
              | Inr j \<Rightarrow>
                  if spec j \<noteq> sp
                  then (Inl (IdempotencyConflictError
                         (''idempotency key already belongs to another job: '' @ idempotency_key sp)), s)
                  else (Inr \<lparr>submitted_job = j, created = False\<rparr>, s)
         else
           let now = at_now a; j = fresh_job sp (at_uuid a) now
           in case at_conflict a of
                Some st \<Rightarrow> opt_submit_loop sp as st
              | None \<Rightarrow>
                  (Inr \<lparr>submitted_job = j, created = True\<rparr>,
                   queue_job j (upd_base (\<lambda>b. (hset_job (at_uuid a) j b)
                     \<lparr>idem := dict_set (idempotency_key sp) (at_uuid a) (idem b)\<rparr>) s)))"

definition opt_submit ::
    "'p job_spec \<Rightarrow> (nat \<Rightarrow> ('p, 'r) oenv) \<Rightarrow> (('p, 'r) opt_store, ('p, 'r) submit_result) op" where
  "opt_submit sp env s = opt_submit_loop sp (map env [0..<8]) s"

subsection \<open>The atomic claim\<close>

text \<open>
  The body of the script for the candidates of one priority index: entries without a waiting job
  are dropped, jobs with a cancellation request are cancelled, overdue jobs fail, and the first
  other job is claimed. The script writes single fields of the hash; a time it writes as text is the
  number \<open>tostr\<close> of the time, since Lua prints a number with fourteen significant digits.
\<close>

definition drop_entry :: "execution_priority \<Rightarrow> string \<Rightarrow> ('p, 'r) opt_store \<Rightarrow> ('p, 'r) opt_store" where
  "drop_entry p jid s =
     s\<lparr>base := (base s)\<lparr>queue := zrem jid (queue (base s))\<rparr>, pqueue := (pqueue s)(p := zrem jid (pqueue s p))\<rparr>"

definition hset_hash :: "string \<Rightarrow> ('p, 'r) job_hash \<Rightarrow> ('p, 'r) opt_store \<Rightarrow> ('p, 'r) opt_store" where
  "hset_hash jid h s = upd_base (\<lambda>b. b\<lparr>hashes := dict_set jid h (hashes b)\<rparr>) s"

definition hash_unleased :: "(seconds \<Rightarrow> seconds) \<Rightarrow> string \<Rightarrow> seconds \<Rightarrow> ('p, 'r) job_hash \<Rightarrow> ('p, 'r) job_hash" where
  "hash_unleased tostr st now h =
     h\<lparr>h_status := st, h_updated_at := tostr now, h_worker_id := [], h_lease_token := [], h_lease_expires_at := None\<rparr>"

definition hash_claimed :: "(seconds \<Rightarrow> seconds) \<Rightarrow> string \<Rightarrow> string \<Rightarrow> seconds \<Rightarrow> seconds \<Rightarrow> ('p, 'r) job_hash \<Rightarrow> ('p, 'r) job_hash" where
  "hash_claimed tostr w tok now expires h =
     h\<lparr>h_attempt := h_attempt h + 1, h_status := ''running'', h_updated_at := tostr now, h_worker_id := w,
       h_lease_token := tok, h_lease_expires_at := Some (tostr expires)\<rparr>"

fun lua_scan ::
    "(seconds \<Rightarrow> seconds) \<Rightarrow> string \<Rightarrow> string \<Rightarrow> seconds \<Rightarrow> seconds \<Rightarrow> execution_priority \<Rightarrow> string list \<Rightarrow> ('p, 'r) opt_store
      \<Rightarrow> string option \<times> ('p, 'r) opt_store" where
  "lua_scan tostr w tok now expires p [] s = (None, s)"
| "lua_scan tostr w tok now expires p (jid # ids) s =
     (case dict_get (hashes (base s)) jid of
        None \<Rightarrow> lua_scan tostr w tok now expires p ids (drop_entry p jid s)
      | Some h \<Rightarrow>
          if h_status h \<noteq> ''queued'' \<and> h_status h \<noteq> ''retry_wait''
          then lua_scan tostr w tok now expires p ids (drop_entry p jid s)
          else if h_cancel_requested h = ''1''
          then lua_scan tostr w tok now expires p ids
                 (drop_entry p jid (hset_hash jid (hash_unleased tostr ''cancelled'' now h) s))
          else if (case deadline_at (h_spec h) of None \<Rightarrow> False | Some d \<Rightarrow> d \<le> now)
          then lua_scan tostr w tok now expires p ids
                 (drop_entry p jid (hset_hash jid
                    ((hash_unleased tostr ''failed'' now h)\<lparr>h_last_error := ''deadline_exceeded''\<rparr>) s))
          else if h_available_at h \<le> now
          then (Some jid, upd_base (\<lambda>b. b\<lparr>running := zadd jid expires (running b)\<rparr>)
                  (drop_entry p jid (hset_hash jid (hash_claimed tostr w tok now expires h) s)))
          else lua_scan tostr w tok now expires p ids s)"

fun lua_claim ::
    "(seconds \<Rightarrow> seconds) \<Rightarrow> nat \<Rightarrow> string \<Rightarrow> string \<Rightarrow> seconds \<Rightarrow> seconds \<Rightarrow> execution_priority list \<Rightarrow> ('p, 'r) opt_store
      \<Rightarrow> string option \<times> ('p, 'r) opt_store" where
  "lua_claim tostr window w tok now expires [] s = (None, s)"
| "lua_claim tostr window w tok now expires (p # ps) s =
     (case lua_scan tostr w tok now expires p (take window (zrangebyscore (pqueue s p) now)) s of
        (Some jid, t) \<Rightarrow> (Some jid, t)
      | (None, t) \<Rightarrow> lua_claim tostr window w tok now expires ps t)"

text \<open>After the script the claimed job is read; \<open>later\<close> is what others did in between.\<close>

definition claim_atomic ::
    "(seconds \<Rightarrow> seconds) \<Rightarrow> nat \<Rightarrow> string \<Rightarrow> seconds \<Rightarrow> string \<Rightarrow> seconds \<Rightarrow> (('p, 'r) opt_store \<Rightarrow> ('p, 'r) opt_store)
      \<Rightarrow> (('p, 'r) opt_store, ('p, 'r) execution_job option) op" where
  "claim_atomic tostr window w ls tok now later s =
     (case lua_claim tostr window w tok now (now + ls) priority_order s of
        (None, t) \<Rightarrow> (Inr None, t)
      | (Some jid, t) \<Rightarrow>
          let u = later t
          in (case redis_lookup jid (base u) of Inl e \<Rightarrow> Inl e | Inr j \<Rightarrow> Inr (Some j), u))"

subsection \<open>The claim by optimistic transactions\<close>

definition candidate_ids :: "nat \<Rightarrow> bool \<Rightarrow> execution_priority \<Rightarrow> seconds \<Rightarrow> ('p, 'r) opt_store \<Rightarrow> string list" where
  "candidate_ids window bounded p now s =
     (let ids = zrangebyscore (pqueue s p) now in if bounded then take window ids else ids)"

fun hydrate :: "string list \<Rightarrow> ('p, 'r) redis_store \<Rightarrow> exc + ('p, 'r) execution_job list \<times> string list" where
  "hydrate [] s = Inr ([], [])"
| "hydrate (jid # ids) s =
     (case dict_get (hashes s) jid of
        None \<Rightarrow> (case hydrate ids s of Inl e \<Rightarrow> Inl e | Inr (js, stale) \<Rightarrow> Inr (js, jid # stale))
      | Some h \<Rightarrow>
     case job_from_hash h of
        Inl e \<Rightarrow> Inl e
      | Inr j \<Rightarrow>
          (case hydrate ids s of
             Inl e \<Rightarrow> Inl e
           | Inr (js, stale) \<Rightarrow>
               if \<not> waiting_status (status j) then Inr (js, jid # stale) else Inr (j # js, stale)))"

definition hydrate_candidates :: "string list \<Rightarrow> (('p, 'r) opt_store, ('p, 'r) execution_job list) op" where
  "hydrate_candidates ids s =
     (case hydrate ids (base s) of
        Inl e \<Rightarrow> (Inl e, s)
      | Inr (js, stale) \<Rightarrow> (Inr js, if stale = [] then s else purge stale s))"

fun opt_expire_loop ::
    "string \<Rightarrow> seconds \<Rightarrow> ('p, 'r) oenv list \<Rightarrow> (('p, 'r) opt_store, bool) op" where
  "opt_expire_loop jid now [] s = (Inr False, s)"
| "opt_expire_loop jid now (a # as) s0 =
     (let s = at_watch a s0 in
      case dict_get (hashes (base s)) jid of
        None \<Rightarrow>
          (case at_conflict a of
             Some st \<Rightarrow> opt_expire_loop jid now as st
           | None \<Rightarrow> (Inr False, purge [jid] s))
      | Some h \<Rightarrow>
     case job_from_hash h of
        Inl e \<Rightarrow> (Inl e, s)
      | Inr j \<Rightarrow>
          if \<not> waiting_status (status j) then (Inr False, s)
          else if \<not> deadline_expired j now then (Inr False, s)
          else case at_conflict a of
              Some st \<Rightarrow> opt_expire_loop jid now as st
            | None \<Rightarrow>
                (Inr True, dequeue_job (fail_deadline now j) (upd_base (hset_job jid (fail_deadline now j)) s)))"

fun pick ::
    "string list option \<Rightarrow> execution_priority \<Rightarrow> seconds \<Rightarrow> (string \<Rightarrow> nat \<Rightarrow> ('p, 'r) oenv)
      \<Rightarrow> ('p, 'r) execution_job list \<Rightarrow> (('p, 'r) opt_store, ('p, 'r) execution_job option) op" where
  "pick ds p now xenv [] s = (Inr None, s)"
| "pick ds p now xenv (j # js) s =
     (if cancel_requested j then pick ds p now xenv js s
      else if priority (spec j) \<noteq> p then pick ds p now xenv js s
      else if deadline_expired j now
      then (case opt_expire_loop (job_id j) now (map (xenv (job_id j)) [0..<8]) s of
              (Inl e, t) \<Rightarrow> (Inl e, t)
            | (Inr _, t) \<Rightarrow> pick ds p now xenv js t)
      else if \<not> domain_allowed ds j then pick ds p now xenv js s
      else (Inr (Some j), s))"

fun select_candidate ::
    "nat \<Rightarrow> string list option \<Rightarrow> seconds \<Rightarrow> (string \<Rightarrow> nat \<Rightarrow> ('p, 'r) oenv) \<Rightarrow> execution_priority list
      \<Rightarrow> (('p, 'r) opt_store, ('p, 'r) execution_job option) op" where
  "select_candidate window ds now xenv [] s = (Inr None, s)"
| "select_candidate window ds now xenv (p # ps) s =
     (case hydrate_candidates (candidate_ids window (ds = None) p now s) s of
        (Inl e, t) \<Rightarrow> (Inl e, t)
      | (Inr cands, t) \<Rightarrow>
     case pick ds p now xenv (sort_key (\<lambda>j. (available_at j, created_at j, job_id j)) cands) t of
        (Inl e, u) \<Rightarrow> (Inl e, u)
      | (Inr (Some j), u) \<Rightarrow> (Inr (Some j), u)
      | (Inr None, u) \<Rightarrow> select_candidate window ds now xenv ps u)"

fun opt_claim_loop ::
    "nat \<Rightarrow> string \<Rightarrow> seconds \<Rightarrow> string list option \<Rightarrow> (nat \<Rightarrow> string \<Rightarrow> nat \<Rightarrow> ('p, 'r) oenv)
      \<Rightarrow> ('p, 'r) oenv list \<Rightarrow> (('p, 'r) opt_store, ('p, 'r) execution_job option) op" where
  "opt_claim_loop window w ls ds xenv [] s = (Inr None, s)"
| "opt_claim_loop window w ls ds xenv (a # as) s =
     (let now = at_now a in
      case select_candidate window ds now (xenv (length as)) priority_order s of
        (Inl e, s1) \<Rightarrow> (Inl e, s1)
      | (Inr None, s1) \<Rightarrow> (Inr None, s1)
      | (Inr (Some sel), s1) \<Rightarrow>
     let s2 = at_watch a s1 in
     case dict_get (hashes (base s2)) (job_id sel) of
        None \<Rightarrow> opt_claim_loop window w ls ds xenv as s2
      | Some h \<Rightarrow>
     case job_from_hash h of
        Inl e \<Rightarrow> (Inl e, s2)
      | Inr cur \<Rightarrow>
          if \<not> waiting_status (status cur) then opt_claim_loop window w ls ds xenv as s2
          else if now < available_at cur \<or> cancel_requested cur then opt_claim_loop window w ls ds xenv as s2
          else if deadline_expired cur now then opt_claim_loop window w ls ds xenv as s2
          else if \<not> domain_allowed ds cur then opt_claim_loop window w ls ds xenv as s2
          else
            let cur' = start_lease w (at_uuid a) now ls cur
            in case at_conflict a of
                 Some st \<Rightarrow> opt_claim_loop window w ls ds xenv as st
               | None \<Rightarrow>
                   (Inr (Some cur'),
                    upd_base (hset_job (job_id sel) cur')
                      (upd_base (\<lambda>b. b\<lparr>running := zadd (job_id cur) (now + ls) (running b)\<rparr>) (dequeue_job cur s2))))"

definition opt_claim ::
    "(seconds \<Rightarrow> seconds) \<Rightarrow> string \<Rightarrow> nat \<Rightarrow> string \<Rightarrow> seconds \<Rightarrow> string list option \<Rightarrow> string \<Rightarrow> seconds
      \<Rightarrow> (('p, 'r) opt_store \<Rightarrow> ('p, 'r) opt_store) \<Rightarrow> (nat \<Rightarrow> string \<Rightarrow> nat \<Rightarrow> ('p, 'r) oenv) \<Rightarrow> (nat \<Rightarrow> ('p, 'r) oenv)
      \<Rightarrow> (('p, 'r) opt_store, ('p, 'r) execution_job option) op" where
  "opt_claim tostr prefix window w ls ds tok now later xenv env s =
     (if blank w then (Inl (ValueError ''worker_id cannot be empty''), s)
      else if ls \<le> 0 then (Inl (ValueError ''lease_seconds must be positive''), s)
      else if ds = None \<and> supports_atomic_claim prefix then claim_atomic tostr window w ls tok now later s
      else opt_claim_loop window w ls ds xenv (map env [0..<12]) s)"

subsection \<open>The other methods\<close>

definition opt_index_claimed ::
    "string \<Rightarrow> ('p, 'r) execution_job \<Rightarrow> ('p, 'r) opt_store \<Rightarrow> ('p, 'r) opt_store" where
  "opt_index_claimed jid j s =
     (if status j = RUNNING
      then upd_base (\<lambda>b. b\<lparr>running := zadd jid (the (lease_expires_at j)) (running b)\<rparr>) s
      else let t = dequeue_job j (upd_base (\<lambda>b. b\<lparr>running := zrem jid (running b)\<rparr>) s)
           in if waiting_status (status j) then queue_job j t else t)"

fun opt_mutate_loop ::
    "string \<Rightarrow> string \<Rightarrow> string
      \<Rightarrow> (('p, 'r) execution_job \<Rightarrow> seconds \<Rightarrow> exc + ('p, 'r) execution_job)
      \<Rightarrow> ('p, 'r) oenv list \<Rightarrow> (('p, 'r) opt_store, ('p, 'r) execution_job) op" where
  "opt_mutate_loop jid w tok mutate [] s =
     (Inl (JobLeaseLostError (''job lease changed during mutation: '' @ jid)), s)"
| "opt_mutate_loop jid w tok mutate (a # as) s0 =
     (let now = at_now a; s = at_watch a s0 in
      case dict_get (hashes (base s)) jid of
        None \<Rightarrow> (Inl (JobNotFoundError jid), s)
      | Some h \<Rightarrow>
     case job_from_hash h of
        Inl e \<Rightarrow> (Inl e, s)
      | Inr j \<Rightarrow>
          if \<not> lease_active j w tok now
          then (Inl (JobLeaseLostError (''job lease is not active: '' @ jid)), s)
          else case mutate j now of
              Inl e \<Rightarrow> (Inl e, s)
            | Inr j' \<Rightarrow>
                if status j' = RUNNING \<and> lease_expires_at j' = None
                then (Inl (JobLeaseLostError (''running job has no lease expiry: '' @ jid)), s)
                else case at_conflict a of
                    Some st \<Rightarrow> opt_mutate_loop jid w tok mutate as st
                  | None \<Rightarrow> (Inr j', opt_index_claimed jid j' (upd_base (hset_job jid j') s)))"

definition opt_mutate_claimed ::
    "string \<Rightarrow> string \<Rightarrow> string
      \<Rightarrow> (('p, 'r) execution_job \<Rightarrow> seconds \<Rightarrow> exc + ('p, 'r) execution_job)
      \<Rightarrow> (nat \<Rightarrow> ('p, 'r) oenv) \<Rightarrow> (('p, 'r) opt_store, ('p, 'r) execution_job) op" where
  "opt_mutate_claimed jid w tok mutate env s = opt_mutate_loop jid w tok mutate (map env [0..<8]) s"

text \<open>The methods of a lease holder are inherited and call the new \<open>_mutate_claimed\<close>.\<close>

fun opt_call ::
    "string \<Rightarrow> string \<Rightarrow> string \<Rightarrow> 'r lease_call \<Rightarrow> (nat \<Rightarrow> ('p, 'r) oenv)
      \<Rightarrow> (('p, 'r) opt_store, ('p, 'r) execution_job) op" where
  "opt_call jid w tok (Heartbeat ls) env s =
     (if ls \<le> 0 then (Inl (ValueError ''lease_seconds must be positive''), s)
      else case opt_mutate_claimed jid w tok (heartbeat_mutate ls) env s of
          (Inl e, t) \<Rightarrow> (Inl e, t)
        | (Inr j, t) \<Rightarrow>
            if status j = FAILED \<and> last_error j = Some ''deadline_exceeded''
            then (Inl (JobLeaseLostError (''job deadline expired: '' @ jid)), t)
            else (Inr j, t))"
| "opt_call jid w tok (Release d) env s =
     (if d < 0 then (Inl (ValueError ''delay_seconds cannot be negative''), s)
      else opt_mutate_claimed jid w tok (release_mutate d) env s)"
| "opt_call jid w tok (Succeed res) env s = opt_mutate_claimed jid w tok (succeed_mutate res) env s"
| "opt_call jid w tok (Fail err) env s = opt_mutate_claimed jid w tok (fail_mutate err) env s"
| "opt_call jid w tok Cancel env s = opt_mutate_claimed jid w tok cancel_mutate env s"

fun opt_cancel_loop ::
    "string \<Rightarrow> ('p, 'r) oenv list \<Rightarrow> (('p, 'r) opt_store, ('p, 'r) execution_job) op" where
  "opt_cancel_loop jid [] s =
     (Inl (RuntimeError (''cancel contention exceeded retry budget: '' @ jid)), s)"
| "opt_cancel_loop jid (a # as) s0 =
     (let now = at_now a; s = at_watch a s0 in
      case dict_get (hashes (base s)) jid of
        None \<Rightarrow> (Inl (JobNotFoundError jid), s)
      | Some h \<Rightarrow>
     case job_from_hash h of
        Inl e \<Rightarrow> (Inl e, s)
      | Inr j \<Rightarrow>
          if terminal_status (status j) then (Inr j, s)
          else
            let j1 = j\<lparr>cancel_requested := True, updated_at := now\<rparr>;
                j' = (if waiting_status (status j1) then j1\<lparr>status := CANCELLED\<rparr> else j1)
            in case at_conflict a of
                 Some st \<Rightarrow> opt_cancel_loop jid as st
               | None \<Rightarrow>
                   (Inr j',
                    if status j' = CANCELLED
                    then dequeue_job j' (upd_base (hset_job jid j') s)
                    else upd_base (hset_job jid j') s))"

definition opt_request_cancel ::
    "string \<Rightarrow> (nat \<Rightarrow> ('p, 'r) oenv) \<Rightarrow> (('p, 'r) opt_store, ('p, 'r) execution_job) op" where
  "opt_request_cancel jid env s = opt_cancel_loop jid (map env [0..<8]) s"

fun opt_recover_loop ::
    "string \<Rightarrow> seconds \<Rightarrow> ('p, 'r) oenv list \<Rightarrow> (('p, 'r) opt_store, bool) op" where
  "opt_recover_loop jid now [] s = (Inr False, s)"
| "opt_recover_loop jid now (a # as) s0 =
     (let s = at_watch a s0 in
      case dict_get (hashes (base s)) jid of
        None \<Rightarrow>
          (case at_conflict a of
             Some st \<Rightarrow> opt_recover_loop jid now as st
           | None \<Rightarrow> (Inr False, upd_base (\<lambda>b. b\<lparr>running := zrem jid (running b)\<rparr>) s))
      | Some h \<Rightarrow>
     case job_from_hash h of
        Inl e \<Rightarrow> (Inl e, s)
      | Inr j \<Rightarrow>
          if status j \<noteq> RUNNING \<or> (case lease_expires_at j of None \<Rightarrow> True | Some e \<Rightarrow> now < e)
          then (Inr False, s)
          else
            let j' = redis_recover_job now j;
                s1 = dequeue_job j' (upd_base (\<lambda>b. (hset_job jid j' b)\<lparr>running := zrem jid (running b)\<rparr>) s)
            in case at_conflict a of
                 Some st \<Rightarrow> opt_recover_loop jid now as st
               | None \<Rightarrow> (Inr True, if status j' = QUEUED then queue_job j' s1 else s1))"

fun opt_recover_all ::
    "seconds \<Rightarrow> (string \<Rightarrow> nat \<Rightarrow> ('p, 'r) oenv) \<Rightarrow> string list \<Rightarrow> int \<Rightarrow> (('p, 'r) opt_store, int) op" where
  "opt_recover_all now renv [] n s = (Inr n, s)"
| "opt_recover_all now renv (jid # ids) n s =
     (case opt_recover_loop jid now (map (renv jid) [0..<8]) s of
        (Inl e, t) \<Rightarrow> (Inl e, t)
      | (Inr b, t) \<Rightarrow> opt_recover_all now renv ids (if b then n + 1 else n) t)"

definition opt_recover_expired_leases ::
    "seconds \<Rightarrow> (string \<Rightarrow> nat \<Rightarrow> ('p, 'r) oenv) \<Rightarrow> (('p, 'r) opt_store, int) op" where
  "opt_recover_expired_leases now renv s = opt_recover_all now renv (zrangebyscore (running (base s)) now) 0 s"

subsection \<open>Activation and repair\<close>

text \<open>\<open>build_redis_durable_store\<close> chooses between the two classes.\<close>

datatype store_type = Redis_Durable | Optimized_Redis_Durable

definition build_redis_durable_store :: "bool \<Rightarrow> store_type" where
  "build_redis_durable_store optimized = (if optimized then Optimized_Redis_Durable else Redis_Durable)"

record repair_result =
  scanned_shared :: int
  indexed :: int
  removed_stale_shared :: int
  removed_stale_priority :: int

text \<open>The writes for one member of the shared queue: it is removed, or scored again in the shared
  queue and put into exactly the index of its priority.\<close>

definition reindex :: "string \<Rightarrow> ('p, 'r) execution_job \<Rightarrow> ('p, 'r) opt_store \<Rightarrow> ('p, 'r) opt_store" where
  "reindex jid j s =
     s\<lparr>base := (base s)\<lparr>queue := zadd jid (available_at j) (queue (base s))\<rparr>,
       pqueue := (\<lambda>p. if p = priority (spec j) then zadd jid (available_at j) (pqueue s p) else zrem jid (pqueue s p))\<rparr>"

definition zrange_all :: "zset \<Rightarrow> string list" where
  "zrange_all z = map fst (sort_key (\<lambda>(m, sc). (sc, m)) z)"

fun chunks :: "nat \<Rightarrow> 'a list \<Rightarrow> 'a list list" where
  "chunks n xs = (if n = 0 \<or> xs = [] then [] else take n xs # chunks n (drop n xs))"

declare chunks.simps [simp del]

text \<open>One batch: the hashes are read first, and the writes are sent when all of them were decoded.\<close>

fun batch_writes ::
    "string list \<Rightarrow> ('p, 'r) redis_store \<Rightarrow> exc + (('p, 'r) opt_store \<Rightarrow> ('p, 'r) opt_store) \<times> int \<times> int" where
  "batch_writes [] b = Inr (\<lambda>s. s, 0, 0)"
| "batch_writes (jid # ids) b =
     (let drop = (case batch_writes ids b of Inl e \<Rightarrow> Inl e | Inr (f, ix, rm) \<Rightarrow> Inr (\<lambda>s. f (purge [jid] s), ix, rm + 1))
      in case dict_get (hashes b) jid of
           None \<Rightarrow> drop
         | Some h \<Rightarrow>
        case job_from_hash h of
           Inl e \<Rightarrow> Inl e
         | Inr j \<Rightarrow>
             if \<not> waiting_status (status j) then drop
             else case batch_writes ids b of
                 Inl e \<Rightarrow> Inl e
               | Inr (f, ix, rm) \<Rightarrow> Inr (\<lambda>s. f (reindex jid j s), ix + 1, rm))"

fun repair_shared :: "string list list \<Rightarrow> int \<times> int \<Rightarrow> (('p, 'r) opt_store, int \<times> int) op" where
  "repair_shared [] n s = (Inr n, s)"
| "repair_shared (ids # batches) (ix, rm) s =
     (case batch_writes ids (base s) of
        Inl e \<Rightarrow> (Inl e, s)
      | Inr (f, i, r) \<Rightarrow> repair_shared batches (ix + i, rm + r) (f s))"

fun repair_priority :: "execution_priority list \<Rightarrow> int \<Rightarrow> ('p, 'r) opt_store \<Rightarrow> int \<times> ('p, 'r) opt_store" where
  "repair_priority [] n s = (n, s)"
| "repair_priority (p # ps) n s =
     (let stale = filter (\<lambda>m. dict_get (queue (base s)) m = None) (zrange_all (pqueue s p))
      in repair_priority ps (n + int (length stale))
           (s\<lparr>pqueue := (pqueue s)(p := fold zrem stale (pqueue s p))\<rparr>))"

definition rebuild_priority_indexes :: "int \<Rightarrow> (('p, 'r) opt_store, repair_result) op" where
  "rebuild_priority_indexes batch_size s =
     (if batch_size < 1 then (Inl (ValueError ''batch_size must be positive''), s)
      else let ids = zrange_all (queue (base s))
           in case repair_shared (chunks (nat batch_size) ids) (0, 0) s of
                (Inl e, t) \<Rightarrow> (Inl e, t)
              | (Inr (ix, rm), t) \<Rightarrow>
                  let (rp, u) = repair_priority priority_order 0 t
                  in (Inr \<lparr>scanned_shared = int (length ids), indexed = ix, removed_stale_shared = rm,
                           removed_stale_priority = rp\<rparr>, u))"

end
