(* ===== verification/Optimized_Refinement.thy ===== *)
theory Optimized_Refinement
  imports Optimized_Store
begin

section \<open>The optimized Redis store refines the Redis store\<close>

text \<open>
  The invariant of the optimized store adds to that of the Redis store that each priority index
  holds exactly the waiting jobs of its priority. Under it the methods with optimistic transactions
  give the results of the Redis store's methods and leave the same hashes and shared indexes, and
  every claim keeps the invariant and hands out only what may be handed out. The repair of the
  indexes establishes the invariant from any content of the indexes.
\<close>

subsection \<open>The invariant\<close>

definition index_entry :: "execution_priority \<Rightarrow> ('p, 'r) execution_job option \<Rightarrow> seconds option" where
  "index_entry p jo = (case jo of None \<Rightarrow> None
     | Some j \<Rightarrow> if waiting_status (status j) \<and> priority (spec j) = p then Some (available_at j) else None)"

definition opt_inv :: "('p, 'r) opt_store \<Rightarrow> bool" where
  "opt_inv s \<longleftrightarrow> redis_inv (base s) \<and>
     (\<forall>p. dict_ok (pqueue s p) \<and> (\<forall>m. dict_get (pqueue s p) m = index_entry p (redis_job (base s) m)))"

lemma opt_inv_base: "opt_inv s \<Longrightarrow> redis_inv (base s)"
  by (simp add: opt_inv_def)

lemma opt_inv_index:
  "opt_inv s \<Longrightarrow> dict_ok (pqueue s p) \<and> dict_get (pqueue s p) m = index_entry p (redis_job (base s) m)"
  by (simp add: opt_inv_def)

lemma opt_inv_empty: "opt_inv opt_empty"
  by (simp add: opt_inv_def opt_empty_def redis_inv_empty index_entry_def)
    (simp add: redis_empty_def abs_store_def)

lemma get_put_job_if [dict_simps]:
  "dict_get (jobs (put_job j s)) k = (if k = job_id j then Some j else dict_get (jobs s) k)"
  by (simp add: put_job_def dict_get_set)

text \<open>A job is replaced by a successor: only the index of its priority may change, at this job.\<close>

lemma opt_inv_commit:
  assumes inv: "opt_inv s" and t: "redis_inv (base t)" "abs_store (base t) = put_job j' (abs_store (base s))"
    and q: "\<And>p. dict_ok (pqueue t p)"
      "\<And>p m. dict_get (pqueue t p) m =
         (if m = job_id j' then index_entry p (Some j') else dict_get (pqueue s p) m)"
  shows "opt_inv t"
  using assms opt_inv_index [OF inv] by (simp add: opt_inv_def dict_simps)

lemma base_upd [simp]: "base (upd_base f s) = f (base s)" "pqueue (upd_base f s) = pqueue s"
  by (simp_all add: upd_base_def)

lemma base_queue_job [simp]:
  "base (queue_job j s) = (base s)\<lparr>queue := zadd (job_id j) (available_at j) (queue (base s))\<rparr>"
  "pqueue (queue_job j s) = (pqueue s)(priority (spec j) :=
     zadd (job_id j) (available_at j) (pqueue s (priority (spec j))))"
  by (simp_all add: queue_job_def)

lemma base_dequeue_job [simp]:
  "base (dequeue_job j s) = (base s)\<lparr>queue := zrem (job_id j) (queue (base s))\<rparr>"
  "pqueue (dequeue_job j s) = (pqueue s)(priority (spec j) := zrem (job_id j) (pqueue s (priority (spec j))))"
  by (simp_all add: dequeue_job_def)

subsection \<open>What the Redis store sees of the interference\<close>

definition oenv_ok :: "('p, 'r) oenv \<Rightarrow> bool" where
  "oenv_ok a \<longleftrightarrow> (\<forall>s. opt_inv s \<longrightarrow> opt_inv (at_watch a s)) \<and>
     (\<forall>st. at_conflict a = Some st \<longrightarrow> opt_inv st) \<and> at_uuid a \<noteq> []"

definition proj_env :: "('p, 'r) oenv \<Rightarrow> ('p, 'r) opt_store \<Rightarrow> ('p, 'r) env" where
  "proj_env a s = \<lparr>at_now = at_now a, at_uuid = at_uuid a, at_watch = (\<lambda>_. base (at_watch a s)),
     at_conflict = map_option base (at_conflict a)\<rparr>"

fun proj_envs :: "('p, 'r) oenv list \<Rightarrow> ('p, 'r) opt_store \<Rightarrow> ('p, 'r) env list" where
  "proj_envs [] s = []"
| "proj_envs (a # as) s = proj_env a s #
     (case at_conflict a of None \<Rightarrow> map (\<lambda>a. proj_env a s) as | Some st \<Rightarrow> proj_envs as st)"

lemma proj_env_sel [simp]:
  "at_now (proj_env a s) = at_now a" "at_uuid (proj_env a s) = at_uuid a"
  "at_watch (proj_env a s) b = base (at_watch a s)"
  "at_conflict (proj_env a s) = map_option base (at_conflict a)"
  by (simp_all add: proj_env_def)

lemma env_ok_proj: "oenv_ok a \<Longrightarrow> opt_inv s \<Longrightarrow> env_ok (proj_env a s)"
  by (auto simp: env_ok_def oenv_ok_def opt_inv_base)

lemma oenv_ok_quiet: "u \<noteq> [] \<Longrightarrow> oenv_ok (quiet now u)"
  by (simp add: oenv_ok_def)

lemma oenv_ok_watch: "oenv_ok a \<Longrightarrow> opt_inv s \<Longrightarrow> opt_inv (at_watch a s)"
  by (simp add: oenv_ok_def)

lemma oenv_ok_conflict: "oenv_ok a \<Longrightarrow> at_conflict a = Some st \<Longrightarrow> opt_inv st"
  by (simp add: oenv_ok_def)

subsection \<open>Methods of a lease holder\<close>

lemma opt_running_absent:
  assumes "opt_inv s" and "redis_job (base s) k = Some j" and "\<not> waiting_status (status j)"
  shows "zrem k (queue (base s)) = queue (base s)" and "zrem k (pqueue s p) = pqueue s p"
proof -
  have "dict_get (queue (base s)) k = None"
    using redis_queue_get [OF opt_inv_base [OF assms(1)]] assms(2,3) by simp
  then show "zrem k (queue (base s)) = queue (base s)" by (rule zrem_absent)
  have "dict_get (pqueue s p) k = None"
    using opt_inv_index [OF assms(1)] assms(2,3) by (simp add: index_entry_def)
  then show "zrem k (pqueue s p) = pqueue s p" by (rule zrem_absent)
qed

lemma opt_mutate_commit:
  assumes inv: "opt_inv s" and job: "redis_job (base s) k = Some j" and run: "status j = RUNNING"
    and good: "mutate_good mutate" and m: "mutate j now = Inr j'"
  defines "t \<equiv> opt_index_claimed k j' (upd_base (hset_job k j') s)"
  shows "base t = index_claimed k j' (hset_job k j' (base s)) \<and> opt_inv t"
proof -
  note b = opt_inv_base [OF inv]
  have j: "job_ok j" "texts_ok j" "job_id j = k" using redis_job_texts [OF b job] by auto
  with good m run have "job_follows j j'" unfolding mutate_good_def by blast
  then have id: "job_id j' = k" using j(3) by (auto simp: job_follows_def)
  note absent = opt_running_absent [OF inv job]
  have base: "base t = index_claimed k j' (hset_job k j' (base s))"
    using absent(1) run by (simp add: t_def opt_index_claimed_def index_claimed_def id)
  have c: "redis_inv (base t) \<and> abs_store (base t) = put_job j' (abs_store (base s))"
    unfolding base using mutate_commit [OF b job run good m] by blast
  have "dict_ok (pqueue t p)" for p
    using opt_inv_index [OF inv] by (simp add: t_def opt_index_claimed_def)
  moreover have "dict_get (pqueue t p) m =
      (if m = job_id j' then index_entry p (Some j') else dict_get (pqueue s p) m)" for p m
    using opt_inv_index [OF inv, of p m] job run
    by (auto simp: t_def opt_index_claimed_def id index_entry_def dict_simps)
  ultimately show ?thesis using base c opt_inv_commit [OF inv, of t j'] by blast
qed

lemma opt_mutate_refines:
  assumes "opt_inv s" and "\<forall>a\<in>set as. oenv_ok a" and "mutate_good mutate"
    and "opt_mutate_loop jid w tok mutate as s = (r, t)"
  shows "mutate_loop jid w tok mutate (proj_envs as s) (base s) = (r, base t) \<and> opt_inv t"
  using assms
proof (induction as arbitrary: s)
  case Nil
  then show ?case by auto
next
  case (Cons a as)
  let ?u = "at_watch a s"
  have a: "oenv_ok a" using Cons.prems(2) by simp
  have u: "opt_inv ?u" using oenv_ok_watch [OF a Cons.prems(1)] .
  from opt_inv_base [OF u] show ?case
  proof (cases rule: redis_hash_cases [where k = jid])
    case none
    with Cons.prems(4) u show ?thesis by auto
  next
    case (some h j)
    show ?thesis
    proof (cases "\<exists>j'. lease_active j w tok (at_now a) \<and> mutate j (at_now a) = Inr j' \<and>
        \<not> (status j' = RUNNING \<and> lease_expires_at j' = None)")
      case False
      with some Cons.prems(4) u show ?thesis by (auto split: sum.splits if_splits)
    next
      case True
      then obtain j' where j': "lease_active j w tok (at_now a)" "mutate j (at_now a) = Inr j'"
        "\<not> (status j' = RUNNING \<and> lease_expires_at j' = None)" by blast
      have run: "status j = RUNNING" using j'(1) by (simp add: lease_active_iff)
      note commit = opt_mutate_commit [OF u some(3) run Cons.prems(3) j'(2)]
      show ?thesis
      proof (cases "at_conflict a")
        case None
        with j' some Cons.prems(4) commit show ?thesis by auto
      next
        case (Some st)
        with j' some Cons.prems(4) have "opt_mutate_loop jid w tok mutate as st = (r, t)" by auto
        with Cons.IH [OF oenv_ok_conflict [OF a Some]] Cons.prems(2,3) Some j' some show ?thesis by auto
      qed
    qed
  qed
qed

subsection \<open>Cancellation, recovery and submission\<close>

lemma cancel_commit:
  fixes s :: "('p, 'r) redis_store"
  assumes "redis_inv s" and "redis_job s k = Some j" and "\<not> terminal_status (status j)"
    and "j' = cancel_job now j"
    and "t = (if status j' = CANCELLED then (hset_job k j' s)\<lparr>queue := zrem k (queue s)\<rparr> else hset_job k j' s)"
  shows "redis_inv t \<and> abs_store t = put_job j' (abs_store s)"
proof -
  have j: "job_ok j" "texts_ok j" using redis_job_texts assms(1,2) by auto
  note j' = cancel_job_ok [OF j assms(3), of now, folded assms(4)]
  show ?thesis
    using j' assms(3,4,5)
    by (intro redis_inv_write [OF assms(1,2), where j' = j' and q = "queue t" and r = "running t"])
      (auto simp: cancel_job_def hset_job_def split: if_splits)
qed

lemma opt_cancel_commit:
  fixes s :: "('p, 'r) opt_store"
  assumes inv: "opt_inv s" and job: "redis_job (base s) k = Some j" and live: "\<not> terminal_status (status j)"
    and j': "j' = cancel_job now j"
    and t: "t = (if status j' = CANCELLED then dequeue_job j' (upd_base (hset_job k j') s)
       else upd_base (hset_job k j') s)"
  shows "base t = (if status j' = CANCELLED then (hset_job k j' (base s))\<lparr>queue := zrem k (queue (base s))\<rparr>
       else hset_job k j' (base s)) \<and> opt_inv t"
proof -
  note b = opt_inv_base [OF inv]
  have idj: "job_id j = k" using redis_job_texts [OF b job] by simp
  then have id: "job_id j' = k" by (simp add: j' cancel_job_def)
  have base: "base t = (if status j' = CANCELLED then (hset_job k j' (base s))\<lparr>queue := zrem k (queue (base s))\<rparr>
      else hset_job k j' (base s))" by (simp add: t id)
  have "dict_ok (pqueue t p)" for p using opt_inv_index [OF inv] by (simp add: t)
  moreover have "dict_get (pqueue t p) m =
      (if m = job_id j' then index_entry p (Some j') else dict_get (pqueue s p) m)" for p m
    using opt_inv_index [OF inv, of p m] job live
    by (auto simp: t j' cancel_job_def idj index_entry_def dict_simps)
  ultimately show ?thesis using base cancel_commit [OF b job live j' base] opt_inv_commit [OF inv, of t j'] by blast
qed

lemma opt_cancel_refines:
  assumes "opt_inv s" and "\<forall>a\<in>set as. oenv_ok a" and "opt_cancel_loop jid as s = (r, t)"
  shows "cancel_loop jid (proj_envs as s) (base s) = (r, base t) \<and> opt_inv t"
  using assms
proof (induction as arbitrary: s)
  case Nil
  then show ?case by auto
next
  case (Cons a as)
  let ?u = "at_watch a s"
  have a: "oenv_ok a" using Cons.prems(2) by simp
  have u: "opt_inv ?u" using oenv_ok_watch [OF a Cons.prems(1)] .
  from opt_inv_base [OF u] show ?case
  proof (cases rule: redis_hash_cases [where k = jid])
    case none
    with Cons.prems(3) u show ?thesis by auto
  next
    case (some h j)
    show ?thesis
    proof (cases "terminal_status (status j)")
      case True
      with some(1,2) Cons.prems(3) have "r = Inr j" "t = ?u" by simp_all
      with True some(1,2) u show ?thesis by simp
    next
      case live: False
      define j' where "j' = cancel_job (at_now a) j"
      note commit = opt_cancel_commit [OF u some(3) live j'_def refl]
      show ?thesis
      proof (cases "at_conflict a")
        case None
        with live some Cons.prems(3) commit show ?thesis by (auto simp: j'_def cancel_job_def)
      next
        case (Some st)
        with live some Cons.prems(3) have "opt_cancel_loop jid as st = (r, t)" by auto
        with Cons.IH [OF oenv_ok_conflict [OF a Some]] Cons.prems(2) Some live some show ?thesis by auto
      qed
    qed
  qed
qed

lemma recover_commit:
  assumes "redis_inv s" and "redis_job s k = Some j" and "status j = RUNNING"
    and "lease_expires_at j = Some e" and "e \<le> now"
    and "j' = redis_recover_job now j"
    and "s1 = (hset_job k j' s)\<lparr>running := zrem k (running s)\<rparr>"
    and "t = (if status j' = QUEUED then s1\<lparr>queue := zadd k now (queue s1)\<rparr> else s1)"
  shows "redis_inv t \<and> abs_store t = put_job j' (abs_store s)"
proof -
  have "recover_loop k now [quiet now ''u''] s = (Inr True, t)"
    using assms redis_job_texts [OF assms(1,2)]
    by (cases rule: redis_hash_cases [of s k]) auto
  with recover_loop_quiet [OF assms(1-5), of "Suc 0" "''u''"] show ?thesis
    using redis_recover_job_eq [OF assms(3-5)] by (simp add: assms(6)) (metis prod.inject)
qed

lemma opt_recover_commit:
  fixes s :: "('p, 'r) opt_store"
  assumes inv: "opt_inv s" and job: "redis_job (base s) k = Some j" and run: "status j = RUNNING"
    and exp: "lease_expires_at j = Some e" "e \<le> now"
    and j': "j' = redis_recover_job now j"
    and s1: "s1 = dequeue_job j' (upd_base (\<lambda>b. (hset_job k j' b)\<lparr>running := zrem k (running b)\<rparr>) s)"
    and t: "t = (if status j' = QUEUED then queue_job j' s1 else s1)"
  shows "base t = (let b = (hset_job k j' (base s))\<lparr>running := zrem k (running (base s))\<rparr>
       in if status j' = QUEUED then b\<lparr>queue := zadd k now (queue b)\<rparr> else b) \<and> opt_inv t"
proof -
  note b = opt_inv_base [OF inv]
  have idj: "job_id j = k" using redis_job_texts [OF b job] by simp
  then have id: "job_id j' = k" and sp: "spec j' = spec j" and at: "status j' = QUEUED \<Longrightarrow> available_at j' = now"
    and wait: "waiting_status (status j') \<longleftrightarrow> status j' = QUEUED"
    by (auto simp: j' redis_recover_job_def split: if_splits)
  have base: "base t = (let b = (hset_job k j' (base s))\<lparr>running := zrem k (running (base s))\<rparr>
      in if status j' = QUEUED then b\<lparr>queue := zadd k now (queue b)\<rparr> else b)"
    using opt_running_absent(1) [OF inv job] run at by (simp add: t s1 id)
  have "redis_inv (base t) \<and> abs_store (base t) = put_job j' (abs_store (base s))"
    by (rule recover_commit [OF b job run exp j' refl]) (simp add: base)
  moreover have "dict_ok (pqueue t p)" for p using opt_inv_index [OF inv] by (simp add: t s1)
  moreover have "dict_get (pqueue t p) m =
      (if m = job_id j' then index_entry p (Some j') else dict_get (pqueue s p) m)" for p m
    using opt_inv_index [OF inv, of p m] job run wait
    by (auto simp: t s1 id sp index_entry_def dict_simps)
  ultimately show ?thesis using base opt_inv_commit [OF inv, of t j'] by blast
qed

lemma opt_recover_refines:
  assumes "opt_inv s" and "\<forall>a\<in>set as. oenv_ok a" and "opt_recover_loop jid now as s = (r, t)"
  shows "recover_loop jid now (proj_envs as s) (base s) = (r, base t) \<and> opt_inv t"
  using assms
proof (induction as arbitrary: s)
  case Nil
  then show ?case by auto
next
  case (Cons a as)
  let ?u = "at_watch a s"
  have a: "oenv_ok a" using Cons.prems(2) by simp
  have u: "opt_inv ?u" using oenv_ok_watch [OF a Cons.prems(1)] .
  from opt_inv_base [OF u] show ?case
  proof (cases rule: redis_hash_cases [where k = jid])
    case none
    have "dict_get (running (base ?u)) jid = None"
      using redis_running_get [OF opt_inv_base [OF u]] none by simp
    then have "upd_base (\<lambda>b. b\<lparr>running := zrem jid (running b)\<rparr>) ?u = ?u"
      "(base ?u)\<lparr>running := zrem jid (running (base ?u))\<rparr> = base ?u"
      by (simp_all add: upd_base_def zrem_absent)
    with none Cons.prems u Cons.IH oenv_ok_conflict [OF a] show ?thesis
      by (cases "at_conflict a") auto
  next
    case (some h j)
    show ?thesis
    proof (cases "\<exists>e. status j = RUNNING \<and> lease_expires_at j = Some e \<and> e \<le> now")
      case False
      with some Cons.prems(3) u show ?thesis by (auto split: option.splits)
    next
      case True
      then obtain e where e: "status j = RUNNING" "lease_expires_at j = Some e" "e \<le> now" by blast
      note commit = opt_recover_commit [OF u some(3) e refl refl refl]
      show ?thesis
      proof (cases "at_conflict a")
        case None
        with e some Cons.prems(3) commit show ?thesis by auto
      next
        case (Some st)
        with e some Cons.prems(3) have "opt_recover_loop jid now as st = (r, t)" by auto
        with Cons.IH [OF oenv_ok_conflict [OF a Some]] Cons.prems(2) Some e some show ?thesis by auto
      qed
    qed
  qed
qed

lemma opt_submit_commit:
  fixes s :: "('p, 'r) opt_store"
  assumes inv: "opt_inv s" and sp: "spec_ok sp" "max_attempts (retry sp) \<le> 1024" and u: "uuid \<noteq> []"
    and fresh: "dict_get (hashes (base s)) uuid = None" "dict_get (idem (base s)) (idempotency_key sp) = None"
    and j: "j = fresh_job sp uuid now"
    and t: "t = queue_job j (upd_base (\<lambda>b. (hset_job uuid j b)\<lparr>idem := dict_set (idempotency_key sp) uuid (idem b)\<rparr>) s)"
  shows "opt_inv t"
proof -
  note b = opt_inv_base [OF inv]
  have base: "base t = (hset_job uuid (fresh_job sp uuid now) (base s))
      \<lparr>idem := dict_set (idempotency_key sp) uuid (idem (base s)), queue := zadd uuid now (queue (base s))\<rparr>"
    by (simp add: t j fresh_job_def)
  have id: "job_id j = uuid" "spec j = sp" "waiting_status (status j)" "available_at j = now" "texts_ok j"
    by (simp_all add: j fresh_job_def texts_ok_def)
  have job: "redis_job (base t) m = (if m = uuid then Some j else redis_job (base s) m)" for m
    using id(2,5) sp(1) by (simp add: redis_job_eq base hset_job_def dict_simps j [symmetric] job_codec_roundtrip)
  have old: "redis_job (base s) uuid = None" using fresh(1) by (simp add: redis_job_eq)
  have "redis_inv (base t)" by (rule redis_inv_submit(1) [OF b sp u fresh base])
  moreover have "dict_ok (pqueue t p)" for p using opt_inv_index [OF inv] by (simp add: t)
  moreover have "dict_get (pqueue t p) m = index_entry p (redis_job (base t) m)" for p m
    using opt_inv_index [OF inv, of p m] id old unfolding job
    by (auto simp: t index_entry_def dict_simps)
  ultimately show ?thesis by (simp add: opt_inv_def)
qed

lemma redis_idem_nonempty:
  assumes "redis_inv s"
  shows "dict_get (idem s) key \<noteq> Some []"
proof
  assume "dict_get (idem s) key = Some []"
  with redis_inv_mem [OF assms] obtain j where "redis_job s [] = Some j"
    unfolding mem_inv_def abs_idem by blast
  with redis_job_texts [OF assms] show False by blast
qed

lemma opt_submit_refines:
  assumes "opt_inv s" and "\<forall>a\<in>set as. oenv_ok a" and "spec_ok sp" and "max_attempts (retry sp) \<le> 1024"
    and "\<forall>(a, u) \<in> set (seen (proj_envs as s) (base s)). dict_get (hashes u) (at_uuid a) = None"
    and "opt_submit_loop sp as s = (r, t)"
  shows "submit_loop sp (proj_envs as s) (base s) = (r, base t) \<and> opt_inv t"
  using assms
proof (induction as arbitrary: s)
  case Nil
  then show ?case by auto
next
  case (Cons a as)
  let ?u = "at_watch a s"
  have a: "oenv_ok a" "at_uuid a \<noteq> []" using Cons.prems(2) by (auto simp: oenv_ok_def)
  have u: "opt_inv ?u" using oenv_ok_watch [OF a(1) Cons.prems(1)] .
  have fresh: "dict_get (hashes (base ?u)) (at_uuid a) = None" using Cons.prems(5) by simp
  have keys: "dict_get (idem (base ?u)) (idempotency_key sp) \<noteq> Some []"
    using redis_idem_nonempty [OF opt_inv_base [OF u]] .
  show ?case
  proof (cases "dict_get (idem (base ?u)) (idempotency_key sp)")
    case (Some k)
    show ?thesis
    proof (cases "redis_lookup k (base ?u)")
      case (Inl e)
      with Some keys Cons.prems(6) have "r = Inl e" "t = ?u" by auto
      with Some keys Inl u show ?thesis by simp
    next
      case (Inr j)
      with Some keys Cons.prems(6) u show ?thesis by (auto split: if_splits)
    qed
  next
    case None
    note commit = opt_submit_commit [OF u Cons.prems(3,4) a(2) fresh None refl refl, of "at_now a"]
    show ?thesis
    proof (cases "at_conflict a")
      case no: None
      with None Cons.prems(6) commit show ?thesis by (auto simp: fresh_job_def)
    next
      case (Some st)
      with None Cons.prems(6) have "opt_submit_loop sp as st = (r, t)" by auto
      with Cons.IH [OF oenv_ok_conflict [OF a(1) Some]] Cons.prems(2-5) Some None show ?thesis by auto
    qed
  qed
qed

subsection \<open>Whole methods\<close>

text \<open>The environment of a method with \<open>n\<close> attempts as the Redis store meets it.\<close>

definition base_env :: "nat \<Rightarrow> (nat \<Rightarrow> ('p, 'r) oenv) \<Rightarrow> ('p, 'r) opt_store \<Rightarrow> nat \<Rightarrow> ('p, 'r) env" where
  "base_env n env s i = (if i < n then proj_envs (map env [0..<n]) s ! i else proj_env (env i) s)"

lemma length_proj_envs [simp]: "length (proj_envs as s) = length as"
  by (induction as s rule: proj_envs.induct) (auto split: option.split)

lemma map_base_env [simp]: "map (base_env n env s) [0..<n] = proj_envs (map env [0..<n]) s"
  by (rule nth_equalityI) (simp_all add: base_env_def)

lemma proj_envs_ok:
  "opt_inv s \<Longrightarrow> \<forall>a\<in>set as. oenv_ok a \<Longrightarrow> \<forall>e\<in>set (proj_envs as s). env_ok e"
proof (induction as arbitrary: s)
  case Nil
  then show ?case by simp
next
  case (Cons a as)
  then show ?case
    by (cases "at_conflict a") (auto intro: env_ok_proj oenv_ok_conflict)
qed

lemma base_env_ok: "opt_inv s \<Longrightarrow> \<forall>i. oenv_ok (env i) \<Longrightarrow> env_ok (base_env n env s i)"
  using proj_envs_ok [of s "map env [0..<n]"] by (auto simp: base_env_def env_ok_proj)

lemma opt_mutate_claimed_refines:
  assumes "opt_inv s" and "\<forall>i. oenv_ok (env i)" and "mutate_good mutate"
  shows "mutate_claimed jid w tok mutate (base_env 8 env s) (base s) =
      map_prod id base (opt_mutate_claimed jid w tok mutate env s) \<and>
    opt_inv (snd (opt_mutate_claimed jid w tok mutate env s))"
  using opt_mutate_refines [OF assms(1) _ assms(3), of "map env [0..<8]" jid w tok] assms(2)
  by (cases "opt_mutate_claimed jid w tok mutate env s")
    (simp add: mutate_claimed_def opt_mutate_claimed_def del: upt_Suc)

lemma opt_call_refines:
  assumes "opt_inv s" and "\<forall>i. oenv_ok (env i)" and "call_ok c"
  shows "redis_call jid w tok c (base_env 8 env s) (base s) = map_prod id base (opt_call jid w tok c env s) \<and>
    opt_inv (snd (opt_call jid w tok c env s))"
proof -
  note refines = opt_mutate_claimed_refines [OF assms(1,2), of _ jid w tok]
  show ?thesis
  proof (cases c)
    case (Heartbeat ls)
    with refines [OF mutations_good(1), of ls] assms(3) show ?thesis
      by (cases "opt_mutate_claimed jid w tok (heartbeat_mutate ls) env s")
        (auto simp: redis_heartbeat_def split: sum.splits)
  next
    case (Release d)
    with refines [OF mutations_good(2), of d] assms(3) show ?thesis
      by (simp add: redis_release_unstarted_claim_def)
  next
    case (Succeed res)
    with refines [OF mutations_good(3), of res] show ?thesis by (simp add: redis_succeed_def)
  next
    case (Fail err)
    with refines [OF mutations_good(4), of err] assms(3) show ?thesis by (simp add: redis_fail_def)
  next
    case Cancel
    with refines [OF mutations_good(5)] show ?thesis by (simp add: redis_cancel_claimed_def)
  qed
qed

lemma opt_request_cancel_refines:
  assumes "opt_inv s" and "\<forall>i. oenv_ok (env i)"
  shows "redis_request_cancel jid (base_env 8 env s) (base s) = map_prod id base (opt_request_cancel jid env s) \<and>
    opt_inv (snd (opt_request_cancel jid env s))"
  using opt_cancel_refines [OF assms(1), of "map env [0..<8]" jid] assms(2)
  by (cases "opt_request_cancel jid env s")
    (simp add: redis_request_cancel_def opt_request_cancel_def del: upt_Suc)

lemma opt_submit_method_refines:
  assumes "opt_inv s" and "\<forall>i. oenv_ok (env i)" and "spec_ok sp" and "max_attempts (retry sp) \<le> 1024"
    and "\<forall>(a, u) \<in> set (seen (map (base_env 8 env s) [0..<8]) (base s)). dict_get (hashes u) (at_uuid a) = None"
  shows "redis_submit sp (base_env 8 env s) (base s) = map_prod id base (opt_submit sp env s) \<and>
    opt_inv (snd (opt_submit sp env s))"
  using opt_submit_refines [OF assms(1) _ assms(3,4), of "map env [0..<8]"] assms(2,5)
  by (cases "opt_submit sp env s") (simp add: redis_submit_def opt_submit_def del: upt_Suc)

lemma recover_all_other:
  assumes "\<And>k. k \<in> set ids \<Longrightarrow> renv k = renv' k"
  shows "recover_all now renv ids n s = recover_all now renv' ids n s"
  using assms by (induction ids arbitrary: n s) (auto split: prod.split sum.split simp del: upt_Suc)

lemma opt_recover_all_refines:
  assumes "opt_inv s" and "\<forall>k i. oenv_ok (renv k i)" and "distinct ids"
    and "opt_recover_all now renv ids n s = (r, t)"
  shows "opt_inv t \<and> (\<exists>renv'. (\<forall>k i. env_ok (renv' k i)) \<and> recover_all now renv' ids n (base s) = (r, base t))"
  using assms
proof (induction ids arbitrary: n s)
  case Nil
  then have "env_ok (proj_env (renv k i) s)" for k i by (simp add: env_ok_proj)
  with Nil show ?case by (auto intro: exI [of _ "\<lambda>k i. proj_env (renv k i) s"])
next
  case (Cons jid ids)
  let ?one = "opt_recover_loop jid now (map (renv jid) [0..<8]) s"
  obtain q u where one: "?one = (q, u)" by fastforce
  have step: "recover_loop jid now (proj_envs (map (renv jid) [0..<8]) s) (base s) = (q, base u) \<and> opt_inv u"
    using opt_recover_refines [OF Cons.prems(1) _ one] Cons.prems(2) by (simp del: upt_Suc)
  have ok: "env_ok (base_env 8 (renv k) s i)" for k i using base_env_ok Cons.prems(1,2) by blast
  show ?case
  proof (cases q)
    case (Inl e)
    with Cons.prems(4) one have "r = Inl e" "t = u" by (simp_all del: upt_Suc)
    with Inl step ok show ?thesis
      by (intro conjI exI [of _ "\<lambda>k. base_env 8 (renv k) s"]) (simp_all del: upt_Suc)
  next
    case (Inr b)
    with Cons.prems(4) one have "opt_recover_all now renv ids (if b then n + 1 else n) u = (r, t)"
      by (simp del: upt_Suc)
    from Cons.IH [OF _ Cons.prems(2) _ this] step Cons.prems(3)
    obtain renv' where rest: "opt_inv t" "\<forall>k i. env_ok (renv' k i)"
      "recover_all now renv' ids (if b then n + 1 else n) (base u) = (r, base t)"
      unfolding distinct.simps by blast
    let ?renv = "renv'(jid := base_env 8 (renv jid) s)"
    have "recover_all now ?renv ids m v = recover_all now renv' ids m v" for m v
      using Cons.prems(3) by (intro recover_all_other) auto
    with rest(3) step Inr have "recover_all now ?renv (jid # ids) n (base s) = (r, base t)"
      by (simp add: fun_upd_same del: upt_Suc fun_upd_apply)
    moreover have "\<forall>k i. env_ok (?renv k i)" using rest(2) ok by simp
    ultimately show ?thesis using rest(1) by blast
  qed
qed

lemma opt_recover_method_refines:
  assumes "opt_inv s" and "\<forall>k i. oenv_ok (renv k i)"
    and "opt_recover_expired_leases now renv s = (r, t)"
  shows "opt_inv t \<and>
    (\<exists>renv'. (\<forall>k i. env_ok (renv' k i)) \<and> redis_recover_expired_leases now renv' (base s) = (r, base t))"
proof -
  have "distinct (zrangebyscore (running (base s)) now)"
    using redis_inv_dicts [OF opt_inv_base [OF assms(1)]] by (simp add: distinct_zrangebyscore)
  with opt_recover_all_refines [OF assms(1,2), of _ now 0] assms(3) show ?thesis
    by (simp add: opt_recover_expired_leases_def redis_recover_expired_leases_def)
qed

end
