(* ===== verification/Optimized_Claims.thy ===== *)
theory Optimized_Claims
  imports Optimized_Refinement
begin

section \<open>Claims of the optimized store\<close>

text \<open>
  The script of the atomic claim takes, among the jobs within its window, the first one by
  priority, due time and identifier; the due jobs it passes over are those with a cancellation
  request, which it cancels, and those past their deadline, which it fails. The claim by optimistic
  transactions is safe under interference, like that of the Redis store.
\<close>

subsection \<open>One candidate of the script\<close>

definition ready :: "seconds \<Rightarrow> ('p, 'r) execution_job \<Rightarrow> bool" where
  "ready now j \<longleftrightarrow> \<not> cancel_requested j \<and> \<not> deadline_expired j now"

definition lua_settle :: "seconds \<Rightarrow> ('p, 'r) execution_job \<Rightarrow> ('p, 'r) execution_job" where
  "lua_settle now j =
     (if cancel_requested j then j\<lparr>status := CANCELLED, updated_at := now\<rparr> else fail_deadline now j)"

lemma waiting_unleased:
  "job_ok j \<Longrightarrow> waiting_status (status j) \<Longrightarrow> worker_id j = None \<and> lease_token j = None \<and> lease_expires_at j = None"
  by (auto simp: job_ok_defs)

lemma lua_settle_ok:
  assumes "job_ok j" and "texts_ok j" and "waiting_status (status j)"
  shows "job_ok (lua_settle now j) \<and> texts_ok (lua_settle now j) \<and> job_follows j (lua_settle now j)"
proof (cases "cancel_requested j")
  case True
  with assms show ?thesis
    by (auto simp: lua_settle_def job_ok_defs texts_ok_def job_follows_def)
next
  case False
  have "\<not> terminal_status (status j)" using assms(3) by auto
  with False assms fail_deadline_ok [OF assms(1), of now] texts_expire [OF assms(2), of now] show ?thesis
    by (simp add: lua_settle_def)
qed

text \<open>What the script writes is the hash of the settled or of the claimed job.\<close>

lemma lua_hashes:
  assumes "job_ok j" and "waiting_status (status j)"
  shows "cancel_requested j \<Longrightarrow> hash_unleased tostr ''cancelled'' now (job_mapping j) = job_mapping (lua_settle (tostr now) j)"
    and "\<not> cancel_requested j \<Longrightarrow> (hash_unleased tostr ''failed'' now (job_mapping j))\<lparr>h_last_error := ''deadline_exceeded''\<rparr>
      = job_mapping (lua_settle (tostr now) j)"
    and "tostr now = now \<Longrightarrow> tostr (now + ls) = now + ls \<Longrightarrow>
      hash_claimed tostr w tok now (now + ls) (job_mapping j) = job_mapping (start_lease w tok now ls j)"
  using waiting_unleased [OF assms]
  by (simp_all add: hash_unleased_def hash_claimed_def job_mapping_def lua_settle_def fail_deadline_def
      start_lease_def text_of_def)

lemma base_drop_entry [simp]:
  "base (drop_entry p k s) = (base s)\<lparr>queue := zrem k (queue (base s))\<rparr>"
  "pqueue (drop_entry p k s) = (pqueue s)(p := zrem k (pqueue s p))"
  by (simp_all add: drop_entry_def)

lemma hset_hash_job: "hset_hash k (job_mapping j) s = upd_base (hset_job k j) s"
  by (simp add: hset_hash_def hset_job_def)

lemma lua_settle_commit:
  assumes inv: "opt_inv s" and job: "redis_job (base s) k = Some j" and wait: "waiting_status (status j)"
    and p: "priority (spec j) = p"
    and t: "t = drop_entry p k (upd_base (hset_job k (lua_settle now j)) s)"
  shows "opt_inv t \<and> abs_store (base t) = put_job (lua_settle now j) (abs_store (base s))"
proof -
  note b = opt_inv_base [OF inv]
  have j: "job_ok j" "texts_ok j" "job_id j = k" using redis_job_texts [OF b job] by auto
  note ok = lua_settle_ok [OF j(1,2) wait, of now]
  have id: "job_id (lua_settle now j) = k" "spec (lua_settle now j) = spec j" using ok j(3)
    by (auto dest: job_follows_keeps)
  have st: "\<not> waiting_status (status (lua_settle now j))" "status (lua_settle now j) \<noteq> RUNNING"
    "lease_expires_at (lua_settle now j) = lease_expires_at j"
    using waiting_unleased [OF j(1) wait] by (auto simp: lua_settle_def fail_deadline_def)
  have base: "base t = (hset_job k (lua_settle now j) (base s))\<lparr>queue := zrem k (queue (base s)), running := running (base s)\<rparr>"
    by (simp add: t hset_job_def)
  have c: "redis_inv (base t) \<and> abs_store (base t) = put_job (lua_settle now j) (abs_store (base s))"
    by (rule redis_inv_write [OF b job _ _ _ base]) (use ok st wait in auto)
  moreover have "dict_ok (pqueue t q)" for q using opt_inv_index [OF inv] by (simp add: t)
  moreover have "dict_get (pqueue t q) m = (if m = job_id (lua_settle now j)
      then index_entry q (Some (lua_settle now j)) else dict_get (pqueue s q) m)" for q m
    using opt_inv_index [OF inv, of q m] job st id p by (auto simp: t index_entry_def dict_simps)
  ultimately show ?thesis using opt_inv_commit [OF inv, of t] by blast
qed

lemma opt_claim_commit:
  assumes inv: "opt_inv s" and job: "redis_job (base s) k = Some j" and wait: "waiting_status (status j)"
    and p: "priority (spec j) = p" and args: "0 < ls" "\<not> blank w" "tok \<noteq> []"
    and base: "base t = hset_job k (start_lease w tok now ls j)
      ((base s)\<lparr>queue := zrem k (queue (base s)), running := zadd k (now + ls) (running (base s))\<rparr>)"
    and t: "pqueue t = (pqueue s)(p := zrem k (pqueue s p))"
  shows "opt_inv t \<and> abs_store (base t) = put_job (start_lease w tok now ls j) (abs_store (base s))"
proof -
  note b = opt_inv_base [OF inv]
  have "job_id j = k" using redis_job_texts [OF b job] by auto
  then have id: "job_id (start_lease w tok now ls j) = k" by simp
  note c = claim_commit [OF b job wait args, of now, folded base]
  moreover have "dict_ok (pqueue t q)" for q using opt_inv_index [OF inv] by (simp add: t)
  moreover have "dict_get (pqueue t q) m = (if m = job_id (start_lease w tok now ls j)
      then index_entry q (Some (start_lease w tok now ls j)) else dict_get (pqueue s q) m)" for q m
    using opt_inv_index [OF inv, of q m] job id p by (auto simp: t index_entry_def dict_simps)
  ultimately show ?thesis using opt_inv_commit [OF inv, of t] by blast
qed

subsection \<open>The scan of one index\<close>

text \<open>What passing over candidates does to the jobs.\<close>

definition lua_settles :: "seconds \<Rightarrow> ('p, 'r) opt_store \<Rightarrow> ('p, 'r) opt_store \<Rightarrow> bool" where
  "lua_settles now s t \<longleftrightarrow> (\<forall>m. redis_job (base t) m = redis_job (base s) m \<or>
     (\<exists>j. redis_job (base s) m = Some j \<and> waiting_status (status j) \<and> available_at j \<le> now \<and>
        \<not> ready now j \<and> redis_job (base t) m = Some (lua_settle now j)))"

lemma lua_settle_done: "\<not> waiting_status (status (lua_settle now j))"
  by (simp add: lua_settle_def fail_deadline_def)

lemma lua_settles_refl [simp]: "lua_settles now s s"
  by (simp add: lua_settles_def)

lemma lua_settles_trans:
  assumes "lua_settles now s t" and "lua_settles now t u"
  shows "lua_settles now s u"
  unfolding lua_settles_def
proof
  fix m
  show "redis_job (base u) m = redis_job (base s) m \<or>
     (\<exists>j. redis_job (base s) m = Some j \<and> waiting_status (status j) \<and> available_at j \<le> now \<and>
        \<not> ready now j \<and> redis_job (base u) m = Some (lua_settle now j))"
    using assms lua_settle_done unfolding lua_settles_def by (metis option.inject)
qed

lemma lua_settles_commit:
  "redis_job (base s) k = Some j \<Longrightarrow> waiting_status (status j) \<Longrightarrow> available_at j \<le> now \<Longrightarrow> \<not> ready now j \<Longrightarrow>
     job_id (lua_settle now j) = k \<Longrightarrow> abs_store (base t) = put_job (lua_settle now j) (abs_store (base s)) \<Longrightarrow>
     lua_settles now s t"
  by (simp add: lua_settles_def dict_simps)

lemma lua_settles_ready:
  "lua_settles now s t \<Longrightarrow> redis_job (base t) k = Some j \<Longrightarrow> waiting_status (status j) \<Longrightarrow> redis_job (base s) k = Some j"
  unfolding lua_settles_def using lua_settle_done by (metis option.inject)

definition candidate :: "('p, 'r) opt_store \<Rightarrow> execution_priority \<Rightarrow> seconds \<Rightarrow> string \<Rightarrow> bool" where
  "candidate s p now k \<longleftrightarrow> (\<exists>j. redis_job (base s) k = Some j \<and> waiting_status (status j) \<and>
     available_at j \<le> now \<and> priority (spec j) = p)"

definition due_key :: "('p, 'r) opt_store \<Rightarrow> string \<Rightarrow> seconds \<times> string" where
  "due_key s k = (available_at (the (redis_job (base s) k)), k)"

definition ready_id :: "('p, 'r) opt_store \<Rightarrow> seconds \<Rightarrow> string \<Rightarrow> bool" where
  "ready_id s now k \<longleftrightarrow> ready now (the (redis_job (base s) k))"

lemma lua_scan_step:
  assumes inv: "opt_inv s" and cand: "candidate s p now k" and exact: "tostr now = now" "tostr (now + ls) = now + ls"
    and args: "0 < ls" "\<not> blank w" "tok \<noteq> []"
  obtains (pass) t where "\<not> ready_id s now k" and "opt_inv t" and "lua_settles now s t"
      and "\<And>m. m \<noteq> k \<Longrightarrow> redis_job (base t) m = redis_job (base s) m" and "\<And>q. q \<noteq> p \<Longrightarrow> pqueue t q = pqueue s q"
      and "\<And>ids. lua_scan tostr w tok now (now + ls) p (k # ids) s = lua_scan tostr w tok now (now + ls) p ids t"
    | (take) t j where "ready_id s now k" and "redis_job (base s) k = Some j" and "opt_inv t"
      and "abs_store (base t) = put_job (start_lease w tok now ls j) (abs_store (base s))"
      and "\<And>ids. lua_scan tostr w tok now (now + ls) p (k # ids) s = (Some k, t)"
proof -
  note b = opt_inv_base [OF inv]
  from cand obtain j where j: "redis_job (base s) k = Some j" "waiting_status (status j)"
    "available_at j \<le> now" "priority (spec j) = p" unfolding candidate_def by blast
  have ok: "job_ok j" "texts_ok j" "job_id j = k" using redis_job_texts [OF b j(1)] by auto
  have h: "dict_get (hashes (base s)) k = Some (job_mapping j)"
  proof -
    from b j(1) obtain h where h: "dict_get (hashes (base s)) k = Some h" "job_from_hash h = Inr j"
      by (cases rule: redis_hash_cases [where k = k]) auto
    with b obtain i where i: "h = job_mapping i" "spec_ok (spec i)" "texts_ok i"
      unfolding redis_inv_def by blast
    then have "i = j" using h(2) by (simp add: job_codec_roundtrip)
    with h i show ?thesis by simp
  qed
  have sel: "h_status (job_mapping j) = ''queued'' \<or> h_status (job_mapping j) = ''retry_wait''"
    "(h_cancel_requested (job_mapping j) = ''1'') = cancel_requested j" "h_spec (job_mapping j) = spec j"
    "h_available_at (job_mapping j) = available_at j"
    using j(2) by (auto simp: job_mapping_def)
  show ?thesis
  proof (cases "ready now j")
    case True
    let ?t = "upd_base (\<lambda>b. b\<lparr>running := zadd k (now + ls) (running b)\<rparr>)
        (drop_entry p k (upd_base (hset_job k (start_lease w tok now ls j)) s))"
    have "lua_scan tostr w tok now (now + ls) p (k # ids) s = (Some k, ?t)" for ids
      using True h sel j lua_hashes(3) [OF ok(1) j(2) exact, of w tok]
      by (auto simp: ready_def deadline_expired_def hset_hash_job)
    moreover have "opt_inv ?t \<and> abs_store (base ?t) = put_job (start_lease w tok now ls j) (abs_store (base s))"
      by (rule opt_claim_commit [OF inv j(1,2,4) args]) (simp_all add: hset_job_def)
    ultimately show ?thesis using True j(1) by (intro take [of j ?t]) (simp_all add: ready_id_def)
  next
    case False
    let ?t = "drop_entry p k (upd_base (hset_job k (lua_settle now j)) s)"
    note commit = lua_settle_commit [OF inv j(1,2,4) refl, of now]
    have "lua_scan tostr w tok now (now + ls) p (k # ids) s = lua_scan tostr w tok now (now + ls) p ids ?t" for ids
      using False h sel j lua_hashes(1,2) [OF ok(1) j(2), of tostr now] exact(1)
      by (cases "cancel_requested j") (auto simp: ready_def deadline_expired_def hset_hash_job)
    moreover have id: "job_id (lua_settle now j) = k"
      using lua_settle_ok [OF ok(1,2) j(2), of now] ok(3) by (auto dest: job_follows_keeps)
    moreover have "lua_settles now s ?t"
      using lua_settles_commit [OF j(1-3) False id] commit by blast
    ultimately show ?thesis
      using False j(1) commit by (intro pass [of ?t]) (simp_all add: ready_id_def dict_simps)
  qed
qed

text \<open>
  The outcome of a pass over the candidates \<open>C\<close> of a store: the due jobs that were passed over are
  settled, and the least ready candidate, if there is one, is claimed.
\<close>

definition lua_outcome ::
    "string \<Rightarrow> string \<Rightarrow> seconds \<Rightarrow> seconds \<Rightarrow> ('p, 'r) opt_store \<Rightarrow> (execution_priority \<times> string) set
      \<Rightarrow> string option \<Rightarrow> ('p, 'r) opt_store \<Rightarrow> bool" where
  "lua_outcome w tok now ls s C r t \<longleftrightarrow> opt_inv t \<and> (\<exists>s1. opt_inv s1 \<and> lua_settles now s s1 \<and>
     (case r of
        None \<Rightarrow> t = s1 \<and> (\<forall>(p, k) \<in> C. \<not> ready_id s now k)
      | Some k \<Rightarrow> \<exists>p j. (p, k) \<in> C \<and> ready_id s now k \<and> redis_job (base s) k = Some j \<and>
          redis_job (base s1) k = Some j \<and>
          abs_store (base t) = put_job (start_lease w tok now ls j) (abs_store (base s1)) \<and>
          (\<forall>(q, m) \<in> C. ready_id s now m \<longrightarrow> (p, due_key s k) \<le> (q, due_key s m))))"

lemma lua_outcome_none:
  "lua_outcome w tok now ls s C None t \<longleftrightarrow> opt_inv t \<and> lua_settles now s t \<and> (\<forall>(p, k) \<in> C. \<not> ready_id s now k)"
  by (auto simp: lua_outcome_def)

lemma lua_outcome_someI:
  "opt_inv t \<Longrightarrow> opt_inv s1 \<Longrightarrow> lua_settles now s s1 \<Longrightarrow> (p, k) \<in> C \<Longrightarrow> ready_id s now k \<Longrightarrow>
     redis_job (base s) k = Some j \<Longrightarrow> redis_job (base s1) k = Some j \<Longrightarrow>
     abs_store (base t) = put_job (start_lease w tok now ls j) (abs_store (base s1)) \<Longrightarrow>
     (\<And>q m. (q, m) \<in> C \<Longrightarrow> ready_id s now m \<Longrightarrow> (p, due_key s k) \<le> (q, due_key s m)) \<Longrightarrow>
     lua_outcome w tok now ls s C (Some k) t"
  unfolding lua_outcome_def option.case by blast

lemma lua_outcome_someE:
  assumes "lua_outcome w tok now ls s C (Some k) t"
  obtains s1 p j where "opt_inv t" and "opt_inv s1" and "lua_settles now s s1" and "(p, k) \<in> C"
    and "ready_id s now k" and "redis_job (base s) k = Some j" and "redis_job (base s1) k = Some j"
    and "abs_store (base t) = put_job (start_lease w tok now ls j) (abs_store (base s1))"
    and "\<And>q m. (q, m) \<in> C \<Longrightarrow> ready_id s now m \<Longrightarrow> (p, due_key s k) \<le> (q, due_key s m)"
  using assms unfolding lua_outcome_def option.case by blast

lemma lua_outcome_take:
  assumes "lua_outcome w tok now ls s C (Some k) t"
    and "\<And>p k q m. (p, k) \<in> C \<Longrightarrow> (q, m) \<in> D \<Longrightarrow> (p, due_key s k) \<le> (q, due_key s m)"
  shows "lua_outcome w tok now ls s (C \<union> D) (Some k) t"
  using assms(1)
proof (cases rule: lua_outcome_someE)
  case (1 s1 p j)
  show ?thesis
  proof (rule lua_outcome_someI [OF 1(1-3) _ 1(5-8)])
    show "(p, k) \<in> C \<union> D" using 1(4) by blast
    show "(p, due_key s k) \<le> (q, due_key s m)" if "(q, m) \<in> C \<union> D" "ready_id s now m" for q m
      using that 1(9) assms(2) [OF 1(4)] by blast
  qed
qed

lemma lua_outcome_pass:
  assumes pass: "lua_outcome w tok now ls s C None t" and rest: "lua_outcome w tok now ls t D r u"
    and same: "\<And>q m. (q, m) \<in> D \<Longrightarrow> redis_job (base t) m = redis_job (base s) m"
  shows "lua_outcome w tok now ls s (C \<union> D) r u"
proof -
  have keep: "ready_id t now m = ready_id s now m" "due_key t m = due_key s m" if "(q, m) \<in> D" for q m
    using same [OF that] by (simp_all add: ready_id_def due_key_def)
  have pre: "lua_settles now s t" "\<And>q m. (q, m) \<in> C \<Longrightarrow> \<not> ready_id s now m"
    using pass by (auto simp: lua_outcome_none)
  show ?thesis
  proof (cases r)
    case None
    with rest pre keep(1) show ?thesis
      by (auto simp: lua_outcome_none intro: lua_settles_trans)
  next
    case (Some k)
    from rest [unfolded Some] show ?thesis
    proof (cases rule: lua_outcome_someE)
      case (1 s1 p j)
      note d = 1(4)
      show ?thesis unfolding Some
      proof (rule lua_outcome_someI [OF 1(1,2) lua_settles_trans [OF pre(1) 1(3)], where p = p and j = j])
        fix q m
        assume "(q, m) \<in> C \<union> D" "ready_id s now m"
        with pre(2) 1(9) keep d show "(p, due_key s k) \<le> (q, due_key s m)" by (metis Un_iff)
      qed (use 1 d keep(1) [OF d] same [OF d] in auto)
    qed
  qed
qed

text \<open>The scan of one index takes its first ready candidate and settles those before it.\<close>

lemma lua_scan_outcome:
  assumes "opt_inv s" and "\<forall>k \<in> set ids. candidate s p now k" and "distinct ids"
    and "sorted (map (due_key s) ids)" and "lua_scan tostr w tok now (now + ls) p ids s = (r, t)"
    and exact: "tostr now = now" "tostr (now + ls) = now + ls" and args: "0 < ls" "\<not> blank w" "tok \<noteq> []"
  shows "lua_outcome w tok now ls s ({p} \<times> set ids) r t \<and>
    (r = None \<longrightarrow> (\<forall>m. m \<notin> set ids \<longrightarrow> redis_job (base t) m = redis_job (base s) m) \<and>
       (\<forall>q. q \<noteq> p \<longrightarrow> pqueue t q = pqueue s q))"
  using assms(1-5)
proof (induction ids arbitrary: s)
  case Nil
  then show ?case by (auto simp: lua_outcome_none)
next
  case (Cons k ids)
  have C: "{p} \<times> set (k # ids) = {(p, k)} \<union> {p} \<times> set ids" by auto
  have cand: "candidate s p now k" using Cons.prems(2) by simp
  from Cons.prems(1) cand exact args show ?case
  proof (cases rule: lua_scan_step)
    case (pass u)
    have same: "redis_job (base u) m = redis_job (base s) m" if "m \<in> set ids" for m
      using Cons.prems(3) that by (intro pass(4)) auto
    then have keep: "candidate u p now m = candidate s p now m" "due_key u m = due_key s m" if "m \<in> set ids" for m
      using that by (simp_all add: candidate_def due_key_def)
    have m: "map (due_key u) ids = map (due_key s) ids" using keep(2) by simp
    have "\<forall>k\<in>set ids. candidate u p now k" "distinct ids" "sorted (map (due_key u) ids)"
      unfolding m using Cons.prems keep(1) by simp_all
    note rest = Cons.IH [OF pass(2) this Cons.prems(5) [unfolded pass(6)]]
    have "lua_outcome w tok now ls s {(p, k)} None u" using pass(1-3) by (simp add: lua_outcome_none)
    then have "lua_outcome w tok now ls s ({p} \<times> set (k # ids)) r t"
      unfolding C using rest same by (intro lua_outcome_pass [where t = u]) auto
    with rest pass(4,5) show ?thesis by auto
  next
    case (take u j)
    with Cons.prems(5) have r: "r = Some k" "t = u" by auto
    have "lua_outcome w tok now ls s {(p, k)} (Some k) u"
      using take Cons.prems(1) by (intro lua_outcome_someI [where ?s1.0 = s]) auto
    then have "lua_outcome w tok now ls s ({p} \<times> set (k # ids)) (Some k) u"
      unfolding C using Cons.prems(4) by (intro lua_outcome_take) auto
    with r show ?thesis by simp
  qed
qed

subsection \<open>The whole script\<close>

definition window_ids :: "nat \<Rightarrow> seconds \<Rightarrow> ('p, 'r) opt_store \<Rightarrow> execution_priority \<Rightarrow> string list" where
  "window_ids n now s p = take n (zrangebyscore (pqueue s p) now)"

lemma due_candidates:
  assumes "opt_inv s"
  shows "k \<in> set (zrangebyscore (pqueue s p) now) \<longleftrightarrow> candidate s p now k"
    and "distinct (zrangebyscore (pqueue s p) now)"
    and "sorted (map (due_key s) (zrangebyscore (pqueue s p) now))"
proof -
  have ok: "dict_ok (pqueue s p)" and get: "\<And>m. dict_get (pqueue s p) m = index_entry p (redis_job (base s) m)"
    using opt_inv_index [OF assms] by auto
  show "k \<in> set (zrangebyscore (pqueue s p) now) \<longleftrightarrow> candidate s p now k"
    using set_zrangebyscore [OF ok] by (auto simp: get index_entry_def candidate_def split: option.splits)
  show "distinct (zrangebyscore (pqueue s p) now)" by (rule distinct_zrangebyscore [OF ok])
  let ?key = "\<lambda>(m, sc). (sc, m)"
  let ?z = "sort_key ?key (filter (\<lambda>(m, sc). sc \<le> now) (pqueue s p))"
  have "due_key s (fst x) = ?key x" if "x \<in> set ?z" for x
  proof (cases x)
    case (Pair m sc)
    with that have "dict_get (pqueue s p) m = Some sc" using dict_get_in [OF ok] by simp
    then show ?thesis
      by (auto simp: Pair get due_key_def index_entry_def split: option.splits if_splits)
  qed
  then have "map (due_key s) (zrangebyscore (pqueue s p) now) = map ?key ?z"
    by (simp add: zrangebyscore_def)
  then show "sorted (map (due_key s) (zrangebyscore (pqueue s p) now))" by (simp only: sorted_sort_key)
qed

lemma window_candidates:
  assumes "opt_inv s"
  shows "\<forall>k \<in> set (window_ids n now s p). candidate s p now k" and "distinct (window_ids n now s p)"
    and "sorted (map (due_key s) (window_ids n now s p))"
proof -
  note due = due_candidates [OF assms, where p = p and now = now]
  show "\<forall>k \<in> set (window_ids n now s p). candidate s p now k"
    using due(1) by (auto simp: window_ids_def dest: in_set_takeD)
  show "distinct (window_ids n now s p)" using due(2) by (simp add: window_ids_def)
  show "sorted (map (due_key s) (window_ids n now s p))"
    using sorted_wrt_take [OF due(3), of n] by (simp add: window_ids_def take_map)
qed

definition opt_key :: "('p, 'r) execution_job \<Rightarrow> execution_priority \<times> seconds \<times> string" where
  "opt_key j = (priority (spec j), available_at j, job_id j)"

lemma lua_claim_outcome:
  assumes "opt_inv s" and "sorted ps" and "distinct ps" and "lua_claim tostr n w tok now (now + ls) ps s = (r, t)"
    and exact: "tostr now = now" "tostr (now + ls) = now + ls" and args: "0 < ls" "\<not> blank w" "tok \<noteq> []"
  shows "lua_outcome w tok now ls s (SIGMA p : set ps. set (window_ids n now s p)) r t"
  using assms(1-4)
proof (induction ps arbitrary: s)
  case Nil
  then show ?case by (auto simp: lua_outcome_none)
next
  case (Cons p ps)
  let ?W = "\<lambda>s ps. SIGMA p : set ps. set (window_ids n now s p)"
  have C: "?W s (p # ps) = {p} \<times> set (window_ids n now s p) \<union> ?W s ps" by auto
  note cands = window_candidates [OF Cons.prems(1), of n now p]
  obtain q u where scan: "lua_scan tostr w tok now (now + ls) p (window_ids n now s p) s = (q, u)" by fastforce
  note out = lua_scan_outcome [OF Cons.prems(1) cands scan exact args]
  show ?case
  proof (cases q)
    case (Some k)
    with scan Cons.prems(4) have r: "r = Some k" "t = u" by (auto simp: window_ids_def)
    have "p < q" if "q \<in> set ps" for q using Cons.prems(2,3) that by (auto simp: less_le)
    with out Some show ?thesis unfolding r C by (intro lua_outcome_take) (auto simp: less_eq_prod_def)
  next
    case None
    have step: "lua_claim tostr n w tok now (now + ls) ps u = (r, t)"
      using Cons.prems(4) scan None by (simp add: window_ids_def)
    have "window_ids n now u q = window_ids n now s q" if "q \<in> set ps" for q
      using out None Cons.prems(3) that by (auto simp: window_ids_def)
    then have D: "?W u ps = ?W s ps" by auto
    have "opt_inv u" using out None by (simp add: lua_outcome_none)
    with Cons.IH step Cons.prems(2,3) have rest: "lua_outcome w tok now ls u (?W s ps) r t"
      unfolding D [symmetric] by simp
    have "redis_job (base u) m = redis_job (base s) m" if "(q, m) \<in> ?W s ps" for q m
    proof -
      have "candidate s q now m" using window_candidates(1) [OF Cons.prems(1)] that by blast
      moreover have "p \<noteq> q" using Cons.prems(3) that by auto
      ultimately have "m \<notin> set (window_ids n now s p)" using cands(1) by (auto simp: candidate_def)
      with out None show ?thesis by blast
    qed
    with out None rest show ?thesis unfolding C by (intro lua_outcome_pass [where t = u]) auto
  qed
qed

text \<open>The jobs the script looks at, and that these are all due jobs when the window is wide enough.\<close>

definition windowed :: "nat \<Rightarrow> seconds \<Rightarrow> ('p, 'r) opt_store \<Rightarrow> ('p, 'r) execution_job \<Rightarrow> bool" where
  "windowed n now s j \<longleftrightarrow> redis_job (base s) (job_id j) = Some j \<and>
     job_id j \<in> set (window_ids n now s (priority (spec j)))"

lemma windowed_iff:
  assumes inv: "opt_inv s"
  shows "windowed n now s j \<longleftrightarrow> (\<exists>p. job_id j \<in> set (window_ids n now s p)) \<and> redis_job (base s) (job_id j) = Some j"
  using window_candidates(1) [OF inv, of n now] by (fastforce simp: windowed_def candidate_def)

lemma windowed_all:
  assumes "opt_inv s" and "\<forall>p. length (zrangebyscore (pqueue s p) now) \<le> n"
  shows "windowed n now s j \<longleftrightarrow>
    redis_job (base s) (job_id j) = Some j \<and> waiting_status (status j) \<and> available_at j \<le> now"
  using due_candidates(1) [OF assms(1)] assms(2) by (auto simp: windowed_def window_ids_def candidate_def)

lemma priority_order_ok [simp]: "sorted priority_order" "distinct priority_order" "set priority_order = UNIV"
proof -
  show "sorted priority_order" "distinct priority_order"
    by (simp_all add: priority_order_def less_eq_execution_priority_def)
  have "p \<in> set priority_order" for p by (cases p) (simp_all add: priority_order_def)
  then show "set priority_order = UNIV" by blast
qed

lemma atomic_claim_first:
  assumes inv: "opt_inv s" and exact: "tostr now = now" "tostr (now + ls) = now + ls"
    and args: "0 < ls" "\<not> blank w" "tok \<noteq> []"
    and run: "claim_atomic tostr n w ls tok now (\<lambda>t. t) s = (r, t)"
  shows "opt_inv t \<and> (\<exists>s1. lua_settles now s s1 \<and>
      (r = Inr None \<and> t = s1 \<and> (\<forall>i. windowed n now s i \<longrightarrow> \<not> ready now i) \<or>
       (\<exists>j. r = Inr (Some (start_lease w tok now ls j)) \<and> windowed n now s j \<and> ready now j \<and>
          abs_store (base t) = put_job (start_lease w tok now ls j) (abs_store (base s1)) \<and>
          (\<forall>i. windowed n now s i \<longrightarrow> ready now i \<longrightarrow> opt_key j \<le> opt_key i)))) \<and>
    ((\<forall>p. length (zrangebyscore (pqueue s p) now) \<le> n) \<longrightarrow>
       (\<forall>i. windowed n now s i \<longleftrightarrow>
          redis_job (base s) (job_id i) = Some i \<and> waiting_status (status i) \<and> available_at i \<le> now))"
proof -
  let ?W = "SIGMA p : set priority_order. set (window_ids n now s p)"
  obtain q u where script: "lua_claim tostr n w tok now (now + ls) priority_order s = (q, u)" by fastforce
  note out = lua_claim_outcome [OF inv _ _ script exact args, simplified]
  have win: "(priority (spec i), job_id i) \<in> ?W" "ready_id s now (job_id i) = ready now i"
    "(priority (spec i), due_key s (job_id i)) = opt_key i" if "windowed n now s i" for i
    using that by (simp_all add: windowed_def ready_id_def due_key_def opt_key_def)
  have "opt_inv t \<and> (\<exists>s1. lua_settles now s s1 \<and>
      (r = Inr None \<and> t = s1 \<and> (\<forall>i. windowed n now s i \<longrightarrow> \<not> ready now i) \<or>
       (\<exists>j. r = Inr (Some (start_lease w tok now ls j)) \<and> windowed n now s j \<and> ready now j \<and>
          abs_store (base t) = put_job (start_lease w tok now ls j) (abs_store (base s1)) \<and>
          (\<forall>i. windowed n now s i \<longrightarrow> ready now i \<longrightarrow> opt_key j \<le> opt_key i))))"
  proof (cases q)
    case None
    with script run have "r = Inr None" "t = u" by (auto simp: claim_atomic_def)
    with out None win show ?thesis by (fastforce simp: lua_outcome_none)
  next
    case (Some k)
    from out [unfolded Some] show ?thesis
    proof (cases rule: lua_outcome_someE)
      case (1 s1 p j)
      have j: "job_id j = k" using redis_job_texts [OF opt_inv_base [OF inv] 1(6)] by simp
      then have wj: "windowed n now s j" using 1(4,6) windowed_iff [OF inv] by auto
      have p: "p = priority (spec j)"
        using window_candidates(1) [OF inv, of n now p] 1(4,6) by (auto simp: candidate_def)
      have "redis_job (base u) k = Some (start_lease w tok now ls j)" using 1(8) j by (simp add: dict_simps)
      then have "r = Inr (Some (start_lease w tok now ls j))" "t = u"
        using script Some run redis_lookup_job [OF opt_inv_base [OF 1(1)]] by (auto simp: claim_atomic_def)
      moreover have "opt_key j \<le> opt_key i" if "windowed n now s i" "ready now i" for i
        using 1(9) [of "priority (spec i)" "job_id i"] win [OF that(1)] that(2) win(3) [OF wj] p j by auto
      moreover have "ready now j" using 1(5,6) by (simp add: ready_id_def)
      ultimately show ?thesis using 1(1,3,8) wj by blast
    qed
  qed
  with windowed_all [OF inv] show ?thesis by blast
qed

text \<open>The atomic claim of the optimized Redis store takes the first job in the order of priority,
  due time and identifier among the ready jobs (no cancellation request, not past the deadline)
  within the window of its priority index, and starts its lease; it returns nothing exactly when
  the windows hold no ready job. Before that it only settled due jobs that are not ready: the ones
  with a cancellation request are cancelled, the overdue ones fail. All this holds when Lua prints
  the present time and the expiry exactly (\<open>tostr\<close> is the identity on them; it prints 14 digits). The
  invariant with the priority indexes is kept, and when no index has more due jobs than the window, the windows hold all
  due jobs.\<close>

theorem atomic_claim_takes_first:
  assumes inv: "opt_inv s" and exact: "tostr now = now" "tostr (now + ls) = now + ls"
    and args: "0 < ls" "\<not> blank w" "tok \<noteq> []"
    and run: "claim_atomic tostr n w ls tok now (\<lambda>t. t) s = (r, t)"
  shows "opt_inv t \<and> (\<exists>s1. lua_settles now s s1 \<and>
      (r = Inr None \<and> t = s1 \<and> (\<forall>i. windowed n now s i \<longrightarrow> \<not> ready now i) \<or>
       (\<exists>j. r = Inr (Some (start_lease w tok now ls j)) \<and> windowed n now s j \<and> ready now j \<and>
          abs_store (base t) = put_job (start_lease w tok now ls j) (abs_store (base s1)) \<and>
          (\<forall>i. windowed n now s i \<longrightarrow> ready now i \<longrightarrow> opt_key j \<le> opt_key i)))) \<and>
    ((\<forall>p. length (zrangebyscore (pqueue s p) now) \<le> n) \<longrightarrow>
       (\<forall>i. windowed n now s i \<longleftrightarrow>
          redis_job (base s) (job_id i) = Some i \<and> waiting_status (status i) \<and> available_at i \<le> now))"
  using assms by (rule atomic_claim_first)

subsection \<open>The claim by optimistic transactions\<close>

lemma opt_expire_commit:
  assumes inv: "opt_inv s" and job: "redis_job (base s) k = Some j" and wait: "waiting_status (status j)"
  shows "opt_inv (dequeue_job (fail_deadline now j) (upd_base (hset_job k (fail_deadline now j)) s))"
    (is "opt_inv ?t")
proof -
  note b = opt_inv_base [OF inv]
  have id: "job_id j = k" using redis_job_texts [OF b job] by auto
  then have sel: "job_id (fail_deadline now j) = k" "spec (fail_deadline now j) = spec j"
    "status (fail_deadline now j) = FAILED" by (simp_all add: fail_deadline_def)
  then have "base ?t = (hset_job k (fail_deadline now j) (base s))\<lparr>queue := zrem k (queue (base s))\<rparr>" by simp
  with expire_commit [OF b job wait, of now]
  have "redis_inv (base ?t)" "abs_store (base ?t) = put_job (fail_deadline now j) (abs_store (base s))" by simp_all
  moreover have "dict_ok (pqueue ?t q)" for q using opt_inv_index [OF inv] by simp
  moreover have "dict_get (pqueue ?t q) m = (if m = job_id (fail_deadline now j)
      then index_entry q (Some (fail_deadline now j)) else dict_get (pqueue s q) m)" for q m
    using opt_inv_index [OF inv, of q m] job sel by (auto simp: index_entry_def dict_simps)
  ultimately show ?thesis using opt_inv_commit [OF inv, of ?t] by blast
qed

lemma purge_absent:
  assumes "opt_inv s" and "redis_job (base s) k = None"
  shows "purge [k] s = s"
proof -
  have "dict_get (queue (base s)) k = None" using redis_queue_get [OF opt_inv_base [OF assms(1)]] assms(2) by simp
  moreover have "dict_get (pqueue s p) k = None" for p
    using opt_inv_index [OF assms(1)] assms(2) by (simp add: index_entry_def)
  ultimately show ?thesis by (simp add: purge_def zrem_absent)
qed

lemma opt_expire_loop_inv:
  "opt_inv s \<Longrightarrow> \<forall>a\<in>set as. oenv_ok a \<Longrightarrow> opt_expire_loop k now as s = (r, t) \<Longrightarrow> opt_inv t \<and> (\<exists>b. r = Inr b)"
proof (induction as arbitrary: s)
  case Nil
  then show ?case by auto
next
  case (Cons a as)
  let ?u = "at_watch a s"
  have a: "oenv_ok a" using Cons.prems(2) by simp
  have u: "opt_inv ?u" using oenv_ok_watch [OF a Cons.prems(1)] .
  have conflict: "opt_inv t \<and> (\<exists>b. r = Inr b)"
    if "at_conflict a = Some st" "opt_expire_loop k now as st = (r, t)" for st
    using that Cons.IH [OF oenv_ok_conflict [OF a that(1)]] Cons.prems(2) by simp
  from opt_inv_base [OF u] show ?case
  proof (cases rule: redis_hash_cases [where k = k])
    case none
    with Cons.prems(3) u conflict purge_absent [OF u none(2)] show ?thesis by (cases "at_conflict a") auto
  next
    case (some h j)
    with Cons.prems(3) u conflict opt_expire_commit [OF u some(3), of now] show ?thesis
      by (cases "at_conflict a") (auto split: if_splits)
  qed
qed

lemma hydrate_candidates_inv:
  assumes inv: "opt_inv s" and ids: "set ids \<subseteq> set (zrangebyscore (pqueue s p) now)"
  shows "hydrate_candidates ids s = (Inr (map (\<lambda>k. the (redis_job (base s) k)) ids), s)"
proof -
  have "candidate s p now k" if "k \<in> set ids" for k using due_candidates(1) [OF inv] ids that by blast
  then have "hydrate ids (base s) = Inr (map (\<lambda>k. the (redis_job (base s) k)) ids, [])"
  proof (induction ids)
    case Nil
    then show ?case by simp
  next
    case (Cons k ids)
    obtain j where j: "redis_job (base s) k = Some j" "waiting_status (status j)"
      using Cons.prems [of k] by (auto simp: candidate_def)
    obtain h where "dict_get (hashes (base s)) k = Some h" "job_from_hash h = Inr j"
      using opt_inv_base [OF inv] j(1) by (cases rule: redis_hash_cases [where k = k]) auto
    with j Cons show ?case by simp
  qed
  then show ?thesis by (simp add: hydrate_candidates_def)
qed

lemma pick_inv:
  assumes "opt_inv s" and "\<forall>k i. oenv_ok (xenv k i)"
  shows "\<exists>jo t. pick ds p now xenv js s = (Inr jo, t) \<and> opt_inv t"
  using assms(1)
proof (induction js arbitrary: s)
  case Nil
  then show ?case by simp
next
  case (Cons j js)
  obtain r t where x: "opt_expire_loop (job_id j) now (map (xenv (job_id j)) [0..<8]) s = (r, t)" by fastforce
  then obtain b where "r = Inr b" "opt_inv t"
    using opt_expire_loop_inv [OF Cons.prems _ x] assms(2) by (auto simp del: upt_Suc)
  with x Cons.IH [OF Cons.prems] Cons.IH [of t] Cons.prems show ?case by (simp del: upt_Suc)
qed

lemma select_candidate_inv:
  assumes "opt_inv s" and "\<forall>k i. oenv_ok (xenv k i)"
  shows "\<exists>jo t. select_candidate n ds now xenv ps s = (Inr jo, t) \<and> opt_inv t"
  using assms(1)
proof (induction ps arbitrary: s)
  case Nil
  then show ?case by simp
next
  case (Cons p ps)
  let ?ids = "candidate_ids n (ds = None) p now s"
  let ?js = "sort_key (\<lambda>j. (available_at j, created_at j, job_id j)) (map (\<lambda>k. the (redis_job (base s) k)) ?ids)"
  have h: "hydrate_candidates ?ids s = (Inr (map (\<lambda>k. the (redis_job (base s) k)) ?ids), s)"
    by (rule hydrate_candidates_inv [OF Cons.prems]) (auto simp: candidate_ids_def dest: in_set_takeD)
  obtain jo t where x: "pick ds p now xenv ?js s = (Inr jo, t)" "opt_inv t"
    using pick_inv [OF Cons.prems assms(2)] by blast
  with h Cons.IH [of t] show ?case by (cases jo) simp_all
qed

text \<open>What a claim promises of its result: nothing was claimed, or the lease of a claimable job was
  started in the very store the transaction committed on.\<close>

definition claim_safe ::
    "string \<Rightarrow> seconds \<Rightarrow> string list option \<Rightarrow> ('p, 'r) oenv set \<Rightarrow> exc + ('p, 'r) execution_job option
      \<Rightarrow> ('p, 'r) opt_store \<Rightarrow> bool" where
  "claim_safe w ls ds A r t \<longleftrightarrow> opt_inv t \<and> (r = Inr None \<or>
     (\<exists>a \<in> A. \<exists>u cur. opt_inv u \<and> redis_job (base u) (job_id cur) = Some cur \<and>
        claimable ds (at_now a) cur \<and> \<not> deadline_expired cur (at_now a) \<and>
        r = Inr (Some (start_lease w (at_uuid a) (at_now a) ls cur)) \<and>
        abs_store (base t) = put_job (start_lease w (at_uuid a) (at_now a) ls cur) (abs_store (base u))))"

lemma claim_safe_mono: "claim_safe w ls ds A r t \<Longrightarrow> A \<subseteq> B \<Longrightarrow> claim_safe w ls ds B r t"
  unfolding claim_safe_def by blast

lemma opt_claim_loop_safe:
  assumes "opt_inv s" and "\<forall>a\<in>set as. oenv_ok a" and xenv: "\<forall>i k m. oenv_ok (xenv i k m)"
    and args: "0 < ls" "\<not> blank w" and "opt_claim_loop n w ls ds xenv as s = (r, t)"
  shows "claim_safe w ls ds (set as) r t"
  using assms(1,2,6)
proof (induction as arbitrary: s)
  case Nil
  then show ?case by (auto simp: claim_safe_def)
next
  case (Cons a as)
  have a: "oenv_ok a" "at_uuid a \<noteq> []" using Cons.prems(2) by (auto simp: oenv_ok_def)
  obtain jo s1 where sel: "select_candidate n ds (at_now a) (xenv (length as)) priority_order s = (Inr jo, s1)"
    and s1: "opt_inv s1"
    using select_candidate_inv [OF Cons.prems(1), of "xenv (length as)"] xenv by blast
  let ?u = "at_watch a s1"
  have u: "opt_inv ?u" using oenv_ok_watch [OF a(1) s1] .
  have again: "claim_safe w ls ds (set (a # as)) r t"
    if "opt_inv v" "opt_claim_loop n w ls ds xenv as v = (r, t)" for v
    using Cons.IH [OF that(1) _ that(2)] Cons.prems(2) claim_safe_mono by (metis list.set_intros(2) subsetI)
  show ?case
  proof (cases jo)
    case None
    with sel Cons.prems(3) s1 show ?thesis by (auto simp: claim_safe_def)
  next
    case (Some j)
    from opt_inv_base [OF u] show ?thesis
    proof (cases rule: redis_hash_cases [where k = "job_id j"])
      case none
      with sel Some Cons.prems(3) have "opt_claim_loop n w ls ds xenv as ?u = (r, t)" by simp
      with again [OF u] show ?thesis .
    next
      case (some h cur)
      show ?thesis
      proof (cases "claimable ds (at_now a) cur \<and> \<not> deadline_expired cur (at_now a)")
        case False
        with some sel Some Cons.prems(3) have "opt_claim_loop n w ls ds xenv as ?u = (r, t)"
          by (auto simp: claimable_def not_less split: if_splits)
        with again [OF u] show ?thesis .
      next
        case True
        then have wait: "waiting_status (status cur)" by (simp add: claimable_def)
        let ?j = "start_lease w (at_uuid a) (at_now a) ls cur"
        let ?t = "upd_base (hset_job (job_id j) ?j)
            (upd_base (\<lambda>b. b\<lparr>running := zadd (job_id cur) (at_now a + ls) (running b)\<rparr>) (dequeue_job cur ?u))"
        have commit: "opt_inv ?t \<and> abs_store (base ?t) = put_job ?j (abs_store (base ?u))"
          by (rule opt_claim_commit [OF u some(3) wait refl args a(2)]) (simp_all add: some(4))
        show ?thesis
        proof (cases "at_conflict a")
          case None
          with True some sel Some Cons.prems(3) have r: "r = Inr (Some ?j)" "t = ?t"
            by (simp_all add: claimable_def not_less)
          have "redis_job (base ?u) (job_id cur) = Some cur" using some(3,4) by simp
          with commit u True show ?thesis unfolding claim_safe_def r
            by (intro conjI disjI2 bexI [of _ a] exI [of _ ?u] exI [of _ cur]) auto
        next
          case conflict: (Some st)
          with True some sel Some Cons.prems(3) have "opt_claim_loop n w ls ds xenv as st = (r, t)"
            by (auto simp: claimable_def)
          with again [OF oenv_ok_conflict [OF a(1) conflict]] show ?thesis .
        qed
      qed
    qed
  qed
qed

end
