(* ===== verification/Index_Repair.thy ===== *)
theory Index_Repair
  imports Optimized_Claims
begin

section \<open>The repair of the priority indexes\<close>

text \<open>
  \<open>rebuild_priority_indexes\<close> from any content of the indexes: afterwards the shared queue holds the
  waiting ones among the jobs it listed, and the index of each priority holds those of its priority,
  all of them scored by their due time. On a store written by the plain Redis store this is the
  invariant of the optimized store.
\<close>

subsection \<open>Sorted sets\<close>

lemma set_zrange_all: "set (zrange_all z) = dom (dict_get z)"
  by (simp add: zrange_all_def dom_map_of_conv_image_fst)

lemma length_zrange_all [simp]: "length (zrange_all z) = length z"
  by (simp add: zrange_all_def)

lemma distinct_zrange_all: "dict_ok z \<Longrightarrow> distinct (zrange_all z)"
  by (simp add: zrange_all_def distinct_map)

lemma dict_get_zrems: "dict_get (fold zrem ks z) m = (if m \<in> set ks then None else dict_get z m)"
  by (induction ks arbitrary: z) (simp_all add: dict_simps)

lemma dict_ok_zrems: "dict_ok z \<Longrightarrow> dict_ok (fold zrem ks z)"
  by (induction ks arbitrary: z) simp_all

lemma concat_chunks: "n \<noteq> 0 \<Longrightarrow> concat (chunks n xs) = xs"
  by (induction n xs rule: chunks.induct) (subst chunks.simps, simp)

subsection \<open>The shared phase\<close>

definition queue_entry :: "('p, 'r) execution_job option \<Rightarrow> seconds option" where
  "queue_entry jo = (case jo of None \<Rightarrow> None
     | Some j \<Rightarrow> if waiting_status (status j) then Some (available_at j) else None)"

text \<open>The writes for one member of the shared queue.\<close>

definition repair_write :: "('p, 'r) redis_store \<Rightarrow> string \<Rightarrow> ('p, 'r) opt_store \<Rightarrow> ('p, 'r) opt_store" where
  "repair_write b k s = (case redis_job b k of
     Some j \<Rightarrow> if waiting_status (status j) then reindex k j s else purge [k] s
   | None \<Rightarrow> purge [k] s)"

definition decodable :: "('p, 'r) redis_store \<Rightarrow> bool" where
  "decodable b \<longleftrightarrow> (\<forall>k h. dict_get (hashes b) k = Some h \<longrightarrow> (\<exists>j. job_from_hash h = Inr j))"

lemma redis_inv_decodable: "redis_inv b \<Longrightarrow> decodable b"
  unfolding decodable_def by (metis redis_inv_def job_codec_roundtrip)

lemma repair_write_sel:
  "hashes (base (repair_write b k s)) = hashes (base s)" "idem (base (repair_write b k s)) = idem (base s)"
  "running (base (repair_write b k s)) = running (base s)"
  by (simp_all add: repair_write_def reindex_def purge_def split: option.split)

lemma repair_write_queue:
  "dict_get (queue (base (repair_write b k s))) m =
     (if m = k then queue_entry (redis_job b k) else dict_get (queue (base s)) m)"
  by (simp add: repair_write_def reindex_def purge_def queue_entry_def dict_simps split: option.split)

lemma repair_write_index:
  "dict_get (pqueue (repair_write b k s) p) m =
     (if m = k then index_entry p (redis_job b k) else dict_get (pqueue s p) m)"
  by (auto simp: repair_write_def reindex_def purge_def index_entry_def dict_simps split: option.split)

lemma repair_write_ok:
  "dict_ok (queue (base s)) \<Longrightarrow> dict_ok (queue (base (repair_write b k s)))"
  "dict_ok (pqueue s p) \<Longrightarrow> dict_ok (pqueue (repair_write b k s) p)"
  by (auto simp: repair_write_def reindex_def purge_def split: option.split)

lemma repair_writes:
  defines "go \<equiv> \<lambda>b ks s. fold (repair_write b) ks s"
  shows "hashes (base (go b ks s)) = hashes (base s) \<and> idem (base (go b ks s)) = idem (base s) \<and>
      running (base (go b ks s)) = running (base s)"
    and "dict_get (queue (base (go b ks s))) m =
      (if m \<in> set ks then queue_entry (redis_job b m) else dict_get (queue (base s)) m)"
    and "dict_get (pqueue (go b ks s) p) m =
      (if m \<in> set ks then index_entry p (redis_job b m) else dict_get (pqueue s p) m)"
    and "dict_ok (queue (base s)) \<Longrightarrow> dict_ok (queue (base (go b ks s)))"
    and "dict_ok (pqueue s p) \<Longrightarrow> dict_ok (pqueue (go b ks s) p)"
  unfolding go_def
  by (induction ks arbitrary: s)
    (simp_all add: repair_write_sel repair_write_queue repair_write_index repair_write_ok)

text \<open>How many members of a list are waiting jobs.\<close>

definition waiting_count :: "('p, 'r) redis_store \<Rightarrow> string list \<Rightarrow> nat" where
  "waiting_count b ks = length (filter (\<lambda>k. queue_entry (redis_job b k) \<noteq> None) ks)"

lemma batch_writes_eq:
  assumes "decodable b"
  shows "batch_writes ks b = Inr (fold (repair_write b) ks, int (waiting_count b ks),
    int (length ks) - int (waiting_count b ks))"
proof (induction ks)
  case Nil
  then show ?case by (simp add: waiting_count_def fun_eq_iff)
next
  case (Cons k ks)
  show ?case
  proof (cases "dict_get (hashes b) k")
    case None
    then have "redis_job b k = None" by (simp add: redis_job_eq)
    with None Cons show ?thesis
      by (auto simp: waiting_count_def queue_entry_def repair_write_def fun_eq_iff)
  next
    case (Some h)
    with assms obtain j where j: "job_from_hash h = Inr j" unfolding decodable_def by blast
    with Some have "redis_job b k = Some j" by (simp add: redis_job_eq)
    with Some j Cons show ?thesis
      by (auto simp: waiting_count_def queue_entry_def repair_write_def fun_eq_iff)
  qed
qed

lemma repair_shared_eq:
  assumes "decodable (base s)"
  shows "repair_shared bs (ix, rm) s =
    (Inr (ix + int (waiting_count (base s) (concat bs)),
          rm + int (length (concat bs)) - int (waiting_count (base s) (concat bs))),
     fold (repair_write (base s)) (concat bs) s)"
  using assms
proof (induction bs arbitrary: ix rm s)
  case Nil
  then show ?case by (simp add: waiting_count_def)
next
  case (Cons ks bs)
  let ?t = "fold (repair_write (base s)) ks s"
  have h: "hashes (base ?t) = hashes (base s)" using repair_writes(1) by blast
  then have job: "redis_job (base ?t) = redis_job (base s)" by (simp add: redis_job_eq fun_eq_iff)
  then have same: "repair_write (base ?t) = repair_write (base s)" "waiting_count (base ?t) = waiting_count (base s)"
    by (simp_all add: repair_write_def waiting_count_def fun_eq_iff)
  have "decodable (base ?t)" using Cons.prems h by (simp add: decodable_def)
  from Cons.IH [OF this] show ?case
    by (simp add: batch_writes_eq [OF Cons.prems] same) (simp add: waiting_count_def)
qed

subsection \<open>The stale members of the priority indexes\<close>

definition stale_members :: "('p, 'r) redis_store \<Rightarrow> zset \<Rightarrow> string list" where
  "stale_members b z = filter (\<lambda>m. dict_get (queue b) m = None) (zrange_all z)"

lemma repair_priority_eq:
  assumes "distinct ps"
  shows "base (snd (repair_priority ps n s)) = base s \<and>
    pqueue (snd (repair_priority ps n s)) p =
      (if p \<in> set ps then fold zrem (stale_members (base s) (pqueue s p)) (pqueue s p) else pqueue s p) \<and>
    fst (repair_priority ps n s) = n + (\<Sum>q\<leftarrow>ps. int (length (stale_members (base s) (pqueue s q))))"
  using assms
proof (induction ps arbitrary: n s)
  case Nil
  then show ?case by simp
next
  case (Cons q ps)
  have "(\<Sum>p\<leftarrow>ps. int (length (stale_members (base s) (((pqueue s)(q := y)) p)))) =
      (\<Sum>p\<leftarrow>ps. int (length (stale_members (base s) (pqueue s p))))" for y
    using Cons.prems by (intro arg_cong [where f = sum_list] map_cong [OF refl]) auto
  with Cons show ?case by (auto simp: stale_members_def [symmetric] simp del: fun_upd_apply) auto
qed

subsection \<open>The whole repair\<close>

lemma rebuild_eq:
  assumes dec: "decodable (base s)" and n: "1 \<le> n"
  obtains res t where "rebuild_priority_indexes n s = (Inr res, t)"
    and "hashes (base t) = hashes (base s)" and "idem (base t) = idem (base s)" and "running (base t) = running (base s)"
    and "\<And>m. dict_get (queue (base t)) m =
      (if dict_get (queue (base s)) m = None then None else queue_entry (redis_job (base s) m))"
    and "\<And>p m. dict_get (pqueue t p) m =
      (if dict_get (queue (base s)) m = None then None else index_entry p (redis_job (base s) m))"
    and "dict_ok (queue (base s)) \<Longrightarrow> dict_ok (queue (base t))"
    and "\<And>p. dict_ok (pqueue s p) \<Longrightarrow> dict_ok (pqueue t p)"
    and "scanned_shared res = int (length (queue (base s)))"
    and "indexed res = int (waiting_count (base s) (zrange_all (queue (base s))))"
    and "indexed res + removed_stale_shared res = scanned_shared res"
    and "removed_stale_priority res = (\<Sum>p\<leftarrow>priority_order. int (length
      (stale_members (base t) (pqueue (fold (repair_write (base s)) (zrange_all (queue (base s))) s) p))))"
proof -
  let ?ids = "zrange_all (queue (base s))"
  let ?u = "fold (repair_write (base s)) ?ids s"
  let ?w = "int (waiting_count (base s) ?ids)"
  obtain rp t where p: "repair_priority priority_order 0 ?u = (rp, t)" by fastforce
  have c: "concat (chunks (nat n) ?ids) = ?ids" using n by (intro concat_chunks) simp
  have run: "rebuild_priority_indexes n s = (Inr \<lparr>scanned_shared = int (length (queue (base s))), indexed = ?w,
      removed_stale_shared = int (length (queue (base s))) - ?w, removed_stale_priority = rp\<rparr>, t)"
    using n p by (simp add: rebuild_priority_indexes_def repair_shared_eq [OF dec] c)
  have pri: "base t = base ?u" "\<And>q. pqueue t q = fold zrem (stale_members (base ?u) (pqueue ?u q)) (pqueue ?u q)"
    "rp = (\<Sum>q\<leftarrow>priority_order. int (length (stale_members (base ?u) (pqueue ?u q))))"
    using repair_priority_eq [OF priority_order_ok(2), where n = 0 and s = ?u] by (simp_all add: p)
  have in_ids: "m \<in> set ?ids \<longleftrightarrow> dict_get (queue (base s)) m \<noteq> None" for m by (auto simp: set_zrange_all)
  have q: "dict_get (queue (base t)) m =
      (if dict_get (queue (base s)) m = None then None else queue_entry (redis_job (base s) m))" for m
    using in_ids [of m] by (simp add: pri(1) repair_writes(2))
  have x: "dict_get (pqueue t p) m =
      (if dict_get (queue (base s)) m = None then None else index_entry p (redis_job (base s) m))" for p m
  proof -
    have "m \<in> set (stale_members (base ?u) (pqueue ?u p)) \<longleftrightarrow>
        dict_get (queue (base ?u)) m = None \<and> dict_get (pqueue ?u p) m \<noteq> None"
      by (auto simp: stale_members_def set_zrange_all)
    then have "dict_get (pqueue t p) m =
        (if dict_get (queue (base ?u)) m = None then None else dict_get (pqueue ?u p) m)"
      by (auto simp: pri(2) dict_get_zrems)
    also have "\<dots> = (if dict_get (queue (base s)) m = None then None else index_entry p (redis_job (base s) m))"
      using in_ids [of m]
      by (auto simp: repair_writes(2,3) queue_entry_def index_entry_def split: option.splits)
    finally show ?thesis .
  qed
  have d: "dict_ok (pqueue t p)" if "dict_ok (pqueue s p)" for p
    using repair_writes(5) [OF that] by (simp add: pri(2) dict_ok_zrems)
  show ?thesis
    by (rule that [OF run _ _ _ q x _ d]) (simp_all add: pri repair_writes)
qed

lemma waiting_count_all:
  assumes "\<And>k. k \<in> set ks \<Longrightarrow> queue_entry (redis_job b k) \<noteq> None"
  shows "waiting_count b ks = length ks"
  using assms by (simp add: waiting_count_def)

text \<open>A second repair finds nothing to remove.\<close>

lemma rebuild_clean:
  assumes dec: "decodable (base t)" and n: "1 \<le> n"
    and q: "\<And>m. dict_get (queue (base t)) m \<noteq> None \<Longrightarrow> queue_entry (redis_job (base t) m) \<noteq> None"
    and x: "\<And>p m. dict_get (pqueue t p) m \<noteq> None \<Longrightarrow> dict_get (queue (base t)) m \<noteq> None"
  shows "\<exists>res u. rebuild_priority_indexes n t = (Inr res, u) \<and> removed_stale_shared res = 0 \<and>
    removed_stale_priority res = 0 \<and> indexed res = scanned_shared res"
proof -
  obtain res u where run: "rebuild_priority_indexes n t = (Inr res, u)"
    and qu: "\<And>m. dict_get (queue (base u)) m =
      (if dict_get (queue (base t)) m = None then None else queue_entry (redis_job (base t) m))"
    and sc: "scanned_shared res = int (length (queue (base t)))"
    and ix: "indexed res = int (waiting_count (base t) (zrange_all (queue (base t))))"
    and sum: "indexed res + removed_stale_shared res = scanned_shared res"
    and rp: "removed_stale_priority res = (\<Sum>p\<leftarrow>priority_order. int (length
      (stale_members (base u) (pqueue (fold (repair_write (base t)) (zrange_all (queue (base t))) t) p))))"
    using rebuild_eq [OF dec n] by metis
  have "waiting_count (base t) (zrange_all (queue (base t))) = length (zrange_all (queue (base t)))"
    by (rule waiting_count_all) (use q in \<open>auto simp: set_zrange_all\<close>)
  with sc ix sum have "removed_stale_shared res = 0" "indexed res = scanned_shared res" by simp_all
  moreover have "stale_members (base u) (pqueue (fold (repair_write (base t)) (zrange_all (queue (base t))) t) p) = []"
    for p
  proof -
    let ?z = "pqueue (fold (repair_write (base t)) (zrange_all (queue (base t))) t) p"
    have "dict_get (queue (base u)) m \<noteq> None" if "m \<in> dom (dict_get ?z)" for m
      using that q [of m] x [of p m] by (auto simp: qu repair_writes(3) set_zrange_all split: if_splits)
    then show ?thesis by (auto simp: stale_members_def set_zrange_all filter_empty_conv)
  qed
  ultimately show ?thesis using run rp by simp
qed

lemma rebuild_invariant:
  assumes dec: "decodable (base s)" and ok: "dict_ok (queue (base s))" "\<forall>p. dict_ok (pqueue s p)" and n: "1 \<le> n"
  shows "\<exists>res t. rebuild_priority_indexes n s = (Inr res, t) \<and>
    abs_store (base t) = abs_store (base s) \<and> running (base t) = running (base s) \<and>
    (\<forall>m. dict_get (queue (base t)) m =
       (if dict_get (queue (base s)) m = None then None else queue_entry (redis_job (base s) m))) \<and>
    (\<forall>p m. dict_get (pqueue t p) m =
       (if dict_get (queue (base s)) m = None then None else index_entry p (redis_job (base s) m))) \<and>
    scanned_shared res = int (length (queue (base s))) \<and>
    indexed res + removed_stale_shared res = scanned_shared res \<and>
    (redis_inv (base s) \<longrightarrow> opt_inv t \<and> removed_stale_shared res = 0) \<and>
    (\<exists>res' u. rebuild_priority_indexes n t = (Inr res', u) \<and> removed_stale_shared res' = 0 \<and>
       removed_stale_priority res' = 0 \<and> indexed res' = scanned_shared res')"
proof -
  obtain res t where t: "rebuild_priority_indexes n s = (Inr res, t)"
    and same: "hashes (base t) = hashes (base s)" "idem (base t) = idem (base s)" "running (base t) = running (base s)"
    and q: "\<And>m. dict_get (queue (base t)) m =
      (if dict_get (queue (base s)) m = None then None else queue_entry (redis_job (base s) m))"
    and x: "\<And>p m. dict_get (pqueue t p) m =
      (if dict_get (queue (base s)) m = None then None else index_entry p (redis_job (base s) m))"
    and d: "dict_ok (queue (base t))" "\<And>p. dict_ok (pqueue t p)"
    and res: "scanned_shared res = int (length (queue (base s)))"
      "indexed res = int (waiting_count (base s) (zrange_all (queue (base s))))"
      "indexed res + removed_stale_shared res = scanned_shared res"
    using ok by - (rule rebuild_eq [OF dec n], blast)
  have abs: "abs_store (base t) = abs_store (base s)" using same by (simp add: abs_store_def)
  have dec': "decodable (base t)" using dec same(1) by (simp add: decodable_def)
  have again: "\<exists>res' u. rebuild_priority_indexes n t = (Inr res', u) \<and> removed_stale_shared res' = 0 \<and>
      removed_stale_priority res' = 0 \<and> indexed res' = scanned_shared res'"
    by (rule rebuild_clean [OF dec' n])
      (auto simp: q x abs queue_entry_def index_entry_def split: option.splits if_splits)
  have "opt_inv t \<and> removed_stale_shared res = 0" if inv: "redis_inv (base s)"
  proof -
    have queue: "dict_get (queue (base s)) m = queue_entry (redis_job (base s) m)" for m
      by (simp add: redis_queue_get [OF inv] queue_entry_def)
    then have q': "dict_get (queue (base t)) m = queue_entry (redis_job (base s) m)" for m by (simp add: q)
    have "redis_inv (base t)"
      using inv d(1) same q' queue unfolding redis_inv_def abs by simp
    moreover have "dict_get (pqueue t p) m = index_entry p (redis_job (base t) m)" for p m
      by (auto simp: x abs queue queue_entry_def index_entry_def split: option.split)
    moreover have "waiting_count (base s) (zrange_all (queue (base s))) = length (zrange_all (queue (base s)))"
      by (rule waiting_count_all) (auto simp: set_zrange_all queue)
    ultimately show ?thesis using d(2) res by (simp add: opt_inv_def)
  qed
  with t abs same(3) q x res(1,3) again show ?thesis by blast
qed

text \<open>C29. The repair of the priority indexes always ends, reads the job hashes but changes none of them,
  and leaves exactly the right indexes whatever they held before: of the members of the shared queue
  those that are waiting jobs stay, and each priority index holds those of its priority, with their due
  times. Every member it scanned was either indexed or removed. On a store that satisfies the
  invariant of the plain Redis store the result satisfies the invariant of the optimized store,
  and a second repair removes nothing.\<close>

theorem repair_restores_indexes:
  assumes dec: "decodable (base s)" and ok: "dict_ok (queue (base s))" "\<forall>p. dict_ok (pqueue s p)" and n: "1 \<le> n"
  shows "\<exists>res t. rebuild_priority_indexes n s = (Inr res, t) \<and>
    abs_store (base t) = abs_store (base s) \<and> running (base t) = running (base s) \<and>
    (\<forall>m. dict_get (queue (base t)) m =
       (if dict_get (queue (base s)) m = None then None else queue_entry (redis_job (base s) m))) \<and>
    (\<forall>p m. dict_get (pqueue t p) m =
       (if dict_get (queue (base s)) m = None then None else index_entry p (redis_job (base s) m))) \<and>
    scanned_shared res = int (length (queue (base s))) \<and>
    indexed res + removed_stale_shared res = scanned_shared res \<and>
    (redis_inv (base s) \<longrightarrow> opt_inv t \<and> removed_stale_shared res = 0) \<and>
    (\<exists>res' u. rebuild_priority_indexes n t = (Inr res', u) \<and> removed_stale_shared res' = 0 \<and>
       removed_stale_priority res' = 0 \<and> indexed res' = scanned_shared res')"
  using assms by (rule rebuild_invariant)

end
