(* ===== verification/Optimized_Runs.thy ===== *)
theory Optimized_Runs
  imports Index_Repair
begin

section \<open>Claims and runs of the optimized store without interference\<close>

text \<open>
  The claim over the priority indexes, undisturbed, against the claim of the Redis store, and the
  contract of a durable store along the runs of the optimized store.
\<close>

subsection \<open>The scan of the candidates\<close>

lemma opt_expire_quiet:
  assumes inv: "opt_inv s" and job: "redis_job (base s) k = Some j" and wait: "waiting_status (status j)"
    and late: "deadline_expired j now"
  shows "\<exists>t. opt_expire_loop k now (map (\<lambda>_. quiet now u) [0..<8]) s = (Inr True, t) \<and> opt_inv t \<and>
    abs_store (base t) = put_job (fail_deadline now j) (abs_store (base s)) \<and>
    (\<forall>q. q \<noteq> priority (spec j) \<longrightarrow> pqueue t q = pqueue s q)"
proof -
  let ?j = "fail_deadline now j"
  let ?t = "dequeue_job ?j (upd_base (hset_job k ?j) s)"
  have id: "job_id j = k" using redis_job_texts [OF opt_inv_base [OF inv] job] by auto
  then have sel: "job_id ?j = k" "spec ?j = spec j" by (simp_all add: fail_deadline_def)
  obtain h where "dict_get (hashes (base s)) k = Some h" "job_from_hash h = Inr j"
    using opt_inv_base [OF inv] job by (cases rule: redis_hash_cases [where k = k]) auto
  then have "opt_expire_loop k now (map (\<lambda>_. quiet now u) [0..<8]) s = (Inr True, ?t)"
    using wait late by (simp add: map_upt_Suc eval_nat_numeral del: upt_Suc)
  moreover have "abs_store (base ?t) = put_job ?j (abs_store (base s))"
    using expire_commit [OF opt_inv_base [OF inv] job wait, of now] sel by simp
  ultimately show ?thesis using opt_expire_commit [OF inv job wait, of now] sel(2) by auto
qed

text \<open>What passing over candidates does to the jobs: overdue ones fail.\<close>

definition sweeps :: "seconds \<Rightarrow> ('p, 'r) opt_store \<Rightarrow> ('p, 'r) opt_store \<Rightarrow> bool" where
  "sweeps now s t \<longleftrightarrow> (\<forall>m. redis_job (base t) m = redis_job (base s) m \<or>
     (\<exists>j. redis_job (base s) m = Some j \<and> waiting_status (status j) \<and> available_at j \<le> now \<and>
        overdue now j \<and> redis_job (base t) m = Some (fail_deadline now j)))"

lemma sweeps_refl [simp]: "sweeps now s s"
  by (simp add: sweeps_def)

lemma sweeps_trans: "sweeps now s t \<Longrightarrow> sweeps now t u \<Longrightarrow> sweeps now s u"
  unfolding sweeps_def
proof
  fix m
  assume st: "\<forall>m. redis_job (base t) m = redis_job (base s) m \<or>
     (\<exists>j. redis_job (base s) m = Some j \<and> waiting_status (status j) \<and> available_at j \<le> now \<and>
        overdue now j \<and> redis_job (base t) m = Some (fail_deadline now j))"
    and tu: "\<forall>m. redis_job (base u) m = redis_job (base t) m \<or>
     (\<exists>j. redis_job (base t) m = Some j \<and> waiting_status (status j) \<and> available_at j \<le> now \<and>
        overdue now j \<and> redis_job (base u) m = Some (fail_deadline now j))"
  have "\<not> waiting_status (status (fail_deadline now j))" for j :: "('a, 'b) execution_job" by (simp add: fail_deadline_def)
  with st tu show "redis_job (base u) m = redis_job (base s) m \<or>
     (\<exists>j. redis_job (base s) m = Some j \<and> waiting_status (status j) \<and> available_at j \<le> now \<and>
        overdue now j \<and> redis_job (base u) m = Some (fail_deadline now j))"
    by (metis option.inject)
qed

lemma sweeps_commit:
  "redis_job (base s) (job_id j) = Some j \<Longrightarrow> waiting_status (status j) \<Longrightarrow> available_at j \<le> now \<Longrightarrow> overdue now j \<Longrightarrow>
     abs_store (base t) = put_job (fail_deadline now j) (abs_store (base s)) \<Longrightarrow> sweeps now s t"
  by (simp add: sweeps_def dict_simps) (simp add: fail_deadline_def)

text \<open>The candidates of one priority: jobs as the store has them, waiting and due.\<close>

definition due_jobs :: "('p, 'r) opt_store \<Rightarrow> seconds \<Rightarrow> execution_priority \<Rightarrow> ('p, 'r) execution_job list \<Rightarrow> bool" where
  "due_jobs s now p js \<longleftrightarrow> distinct (map job_id js) \<and>
     (\<forall>j \<in> set js. redis_job (base s) (job_id j) = Some j \<and> waiting_status (status j) \<and>
        available_at j \<le> now \<and> priority (spec j) = p)"

definition takeable :: "string list option \<Rightarrow> seconds \<Rightarrow> ('p, 'r) execution_job \<Rightarrow> bool" where
  "takeable ds now j \<longleftrightarrow> ready now j \<and> domain_allowed ds j"

lemma due_jobs_tl: "due_jobs s now p (j # js) \<Longrightarrow> due_jobs s now p js"
  by (auto simp: due_jobs_def)

lemma due_jobs_same:
  assumes "due_jobs s now p (j # js)" and "\<And>m. m \<noteq> job_id j \<Longrightarrow> redis_job (base t) m = redis_job (base s) m"
  shows "due_jobs t now p js"
proof -
  have "job_id i \<noteq> job_id j" if "i \<in> set js" for i using assms(1) that by (force simp: due_jobs_def)
  with assms show ?thesis by (auto simp: due_jobs_def)
qed

lemma pick_quiet:
  assumes "opt_inv s" and "due_jobs s now p js"
  shows "\<exists>t. pick ds p now (\<lambda>_ _. quiet now u) js s = (Inr (List.find (takeable ds now) js), t) \<and> opt_inv t \<and>
    sweeps now s t \<and> (\<forall>m. m \<notin> job_id ` set js \<longrightarrow> redis_job (base t) m = redis_job (base s) m) \<and>
    (\<forall>q. q \<noteq> p \<longrightarrow> pqueue t q = pqueue s q)"
  using assms
proof (induction js arbitrary: s)
  case Nil
  then show ?case by simp
next
  case (Cons j js)
  have j: "redis_job (base s) (job_id j) = Some j" "waiting_status (status j)" "available_at j \<le> now" "priority (spec j) = p"
    using Cons.prems(2) by (auto simp: due_jobs_def)
  show ?case
  proof (cases "\<not> cancel_requested j \<and> deadline_expired j now")
    case True
    then obtain t where t: "opt_expire_loop (job_id j) now (map (\<lambda>_. quiet now u) [0..<8]) s = (Inr True, t)" "opt_inv t"
      "abs_store (base t) = put_job (fail_deadline now j) (abs_store (base s))"
      "\<forall>q. q \<noteq> p \<longrightarrow> pqueue t q = pqueue s q"
      using opt_expire_quiet [OF Cons.prems(1) j(1,2)] j(4) by blast
    have id: "job_id (fail_deadline now j) = job_id j" by (simp add: fail_deadline_def)
    have same: "redis_job (base t) m = redis_job (base s) m" if "m \<noteq> job_id j" for m
      using that by (simp add: t(3) id dict_simps)
    have nr: "\<not> ready now j" "overdue now j" using True by (simp_all add: ready_def overdue_def)
    have st: "sweeps now s t" by (rule sweeps_commit [OF j(1-3) nr(2) t(3)])
    from Cons.IH [OF t(2) due_jobs_same [OF Cons.prems(2) same]] obtain v where v:
      "pick ds p now (\<lambda>_ _. quiet now u) js t = (Inr (List.find (takeable ds now) js), v)" "opt_inv v"
      "sweeps now t v" "\<forall>m. m \<notin> job_id ` set js \<longrightarrow> redis_job (base v) m = redis_job (base t) m"
      "\<forall>q. q \<noteq> p \<longrightarrow> pqueue v q = pqueue t q" by blast
    have "pick ds p now (\<lambda>_ _. quiet now u) (j # js) s = (Inr (List.find (takeable ds now) (j # js)), v)"
      using True t(1) v(1) j(4) nr(1) by (simp add: takeable_def del: upt_Suc)
    moreover have "redis_job (base v) m = redis_job (base s) m" if "m \<notin> job_id ` set (j # js)" for m
      using that v(4) same [of m] by auto
    moreover have "\<forall>q. q \<noteq> p \<longrightarrow> pqueue v q = pqueue s q" using v(5) t(4) by simp
    ultimately show ?thesis using v(2) sweeps_trans [OF st v(3)] by blast
  next
    case False
    show ?thesis
    proof (cases "takeable ds now j")
      case True
      with False j(4) Cons.prems(1) show ?thesis by (auto simp: takeable_def ready_def)
    next
      case no: False
      with False j(4) have "pick ds p now (\<lambda>_ _. quiet now u) (j # js) s = pick ds p now (\<lambda>_ _. quiet now u) js s"
        by (auto simp: takeable_def ready_def simp del: upt_Suc)
      with Cons.IH [OF Cons.prems(1) due_jobs_tl [OF Cons.prems(2)]] no show ?thesis by auto
    qed
  qed
qed

lemma find_sorted:
  assumes "List.find P xs = Some x" and "sorted (map f xs)"
  shows "P x \<and> x \<in> set xs \<and> (\<forall>y \<in> set xs. P y \<longrightarrow> f x \<le> f y)"
  using assms by (induction xs) (auto split: if_splits)

text \<open>The jobs a claim reads from the index of a priority.\<close>

definition read_jobs :: "nat \<Rightarrow> bool \<Rightarrow> seconds \<Rightarrow> ('p, 'r) opt_store \<Rightarrow> execution_priority \<Rightarrow> ('p, 'r) execution_job list" where
  "read_jobs n bounded now s p = map (\<lambda>k. the (redis_job (base s) k)) (candidate_ids n bounded p now s)"

lemma read_jobs_candidates:
  assumes "opt_inv s"
  shows "set (candidate_ids n bd p now s) \<subseteq> set (zrangebyscore (pqueue s p) now)" and "distinct (candidate_ids n bd p now s)"
    and "k \<in> set (candidate_ids n bd p now s) \<Longrightarrow> candidate s p now k"
proof -
  show sub: "set (candidate_ids n bd p now s) \<subseteq> set (zrangebyscore (pqueue s p) now)"
    by (auto simp: candidate_ids_def dest: in_set_takeD)
  show "distinct (candidate_ids n bd p now s)" using due_candidates(2) [OF assms] by (simp add: candidate_ids_def)
  show "k \<in> set (candidate_ids n bd p now s) \<Longrightarrow> candidate s p now k" using due_candidates(1) [OF assms] sub by blast
qed

lemma read_jobs_ids:
  assumes "opt_inv s"
  shows "map job_id (read_jobs n bd now s p) = candidate_ids n bd p now s"
proof -
  have "job_id (the (redis_job (base s) k)) = k" if "k \<in> set (candidate_ids n bd p now s)" for k
    using read_jobs_candidates(3) [OF assms that] redis_job_texts [OF opt_inv_base [OF assms]]
    by (auto simp: candidate_def)
  then show ?thesis by (simp add: read_jobs_def map_idI)
qed

lemma due_jobs_perm: "set xs = set ys \<Longrightarrow> distinct (map job_id xs) \<Longrightarrow> due_jobs s now p ys \<Longrightarrow> due_jobs s now p xs"
  by (simp add: due_jobs_def)

lemma due_jobs_read:
  assumes "opt_inv s"
  shows "due_jobs s now p (sort_key f (read_jobs n bd now s p))"
proof -
  have d: "distinct (map job_id (read_jobs n bd now s p))"
    using read_jobs_ids [OF assms] read_jobs_candidates(2) [OF assms] by metis
  then have "distinct (map job_id (sort_key f (read_jobs n bd now s p)))" by (simp add: distinct_map)
  moreover have "redis_job (base s) (job_id j) = Some j \<and> waiting_status (status j) \<and> available_at j \<le> now \<and>
      priority (spec j) = p" if "j \<in> set (read_jobs n bd now s p)" for j
    using that read_jobs_candidates(3) [OF assms] redis_job_texts [OF opt_inv_base [OF assms]]
    by (fastforce simp: read_jobs_def candidate_def)
  ultimately show ?thesis by (simp add: due_jobs_def)
qed

lemma select_quiet_step:
  fixes s :: "('p, 'r) opt_store"
  assumes inv: "opt_inv s"
  defines "key \<equiv> \<lambda>j :: ('p, 'r) execution_job. (available_at j, created_at j, job_id j)"
  obtains t where "opt_inv t" and "sweeps now s t" and "\<And>q. q \<noteq> p \<Longrightarrow> pqueue t q = pqueue s q"
    and "\<And>m. m \<notin> set (candidate_ids n (ds = None) p now s) \<Longrightarrow> redis_job (base t) m = redis_job (base s) m"
    and "\<And>ps. select_candidate n ds now (\<lambda>_ _. quiet now u) (p # ps) s =
      (case List.find (takeable ds now) (sort_key key (read_jobs n (ds = None) now s p)) of
         Some j \<Rightarrow> (Inr (Some j), t) | None \<Rightarrow> select_candidate n ds now (\<lambda>_ _. quiet now u) ps t)"
proof -
  let ?ids = "candidate_ids n (ds = None) p now s"
  let ?js = "sort_key key (read_jobs n (ds = None) now s p)"
  have h: "hydrate_candidates ?ids s = (Inr (read_jobs n (ds = None) now s p), s)"
    unfolding read_jobs_def by (rule hydrate_candidates_inv [OF inv read_jobs_candidates(1) [OF inv]])
  obtain t where t: "pick ds p now (\<lambda>_ _. quiet now u) ?js s = (Inr (List.find (takeable ds now) ?js), t)" "opt_inv t"
    "sweeps now s t" "\<forall>m. m \<notin> job_id ` set ?js \<longrightarrow> redis_job (base t) m = redis_job (base s) m"
    "\<forall>q. q \<noteq> p \<longrightarrow> pqueue t q = pqueue s q"
    using pick_quiet [OF inv due_jobs_read [OF inv]] by blast
  have ids: "job_id ` set ?js = set ?ids" using read_jobs_ids [OF inv, of n "ds = None" now p] by (metis list.set_map set_sort)
  show ?thesis
    by (rule that [OF t(2,3)]) (use t ids h in \<open>auto simp: key_def split: option.split\<close>)
qed

definition selected ::
    "nat \<Rightarrow> string list option \<Rightarrow> seconds \<Rightarrow> ('p, 'r) opt_store \<Rightarrow> execution_priority list
      \<Rightarrow> ('p, 'r) execution_job option \<Rightarrow> bool" where
  "selected n ds now s ps r = (let C = (\<Union>p \<in> set ps. set (read_jobs n (ds = None) now s p)) in
     case r of
       None \<Rightarrow> \<forall>i \<in> C. \<not> takeable ds now i
     | Some j \<Rightarrow> j \<in> C \<and> takeable ds now j \<and> (\<forall>i \<in> C. takeable ds now i \<longrightarrow> claim_key j \<le> claim_key i))"

lemma read_jobs_priority: "opt_inv s \<Longrightarrow> i \<in> set (read_jobs n bd now s p) \<Longrightarrow> priority (spec i) = p"
  using due_jobs_read [of s now p "\<lambda>_. 0 :: nat" n bd] by (auto simp: due_jobs_def)

lemma select_quiet:
  assumes "opt_inv s" and "sorted ps" and "distinct ps"
  shows "\<exists>r t. select_candidate n ds now (\<lambda>_ _. quiet now u) ps s = (Inr r, t) \<and> opt_inv t \<and> sweeps now s t \<and>
    selected n ds now s ps r"
  using assms
proof (induction ps arbitrary: s)
  case Nil
  then show ?case by (simp add: selected_def)
next
  case (Cons p ps)
  let ?key = "\<lambda>j. (available_at j, created_at j, job_id j)"
  let ?js = "sort_key ?key (read_jobs n (ds = None) now s p)"
  obtain t where t: "opt_inv t" "sweeps now s t" "\<And>q. q \<noteq> p \<Longrightarrow> pqueue t q = pqueue s q"
    "\<And>m. m \<notin> set (candidate_ids n (ds = None) p now s) \<Longrightarrow> redis_job (base t) m = redis_job (base s) m"
    and step: "\<And>ps. select_candidate n ds now (\<lambda>_ _. quiet now u) (p # ps) s =
      (case List.find (takeable ds now) ?js of
         Some j \<Rightarrow> (Inr (Some j), t) | None \<Rightarrow> select_candidate n ds now (\<lambda>_ _. quiet now u) ps t)"
    by (rule select_quiet_step [OF Cons.prems(1), of now p n ds u], rule that)
  show ?case
  proof (cases "List.find (takeable ds now) ?js")
    case (Some j)
    have j: "takeable ds now j" "j \<in> set (read_jobs n (ds = None) now s p)"
      "\<forall>i \<in> set (read_jobs n (ds = None) now s p). takeable ds now i \<longrightarrow> ?key j \<le> ?key i"
      using find_sorted [OF Some sorted_sort_key] by simp_all
    have "claim_key j \<le> claim_key i" if "q \<in> set (p # ps)" "i \<in> set (read_jobs n (ds = None) now s q)" "takeable ds now i" for q i
    proof (cases "q = p")
      case True
      with that j show ?thesis using read_jobs_priority [OF Cons.prems(1)] by (auto simp: claim_key_def)
    next
      case False
      with that(1) Cons.prems(2) have "p < q" by auto
      then show ?thesis
        using read_jobs_priority [OF Cons.prems(1) that(2)] read_jobs_priority [OF Cons.prems(1) j(2)]
        by (simp add: claim_key_def less_execution_priority_def)
    qed
    then have "selected n ds now s (p # ps) (Some j)" using j(1,2) by (auto simp: selected_def)
    with step Some t(1,2) show ?thesis by auto
  next
    case None
    have no: "\<not> takeable ds now i" if "i \<in> set (read_jobs n (ds = None) now s p)" for i
      using None that by (simp add: find_None_iff)
    have read: "read_jobs n (ds = None) now t q = read_jobs n (ds = None) now s q" if q: "q \<in> set ps" for q
    proof -
      have qp: "q \<noteq> p" using Cons.prems(3) q by auto
      then have ids: "candidate_ids n (ds = None) q now t = candidate_ids n (ds = None) q now s"
        by (simp add: candidate_ids_def t(3))
      have "redis_job (base t) k = redis_job (base s) k" if "k \<in> set (candidate_ids n (ds = None) q now s)" for k
        using read_jobs_candidates(3) [OF Cons.prems(1), of k n "ds = None" p now] qp
          read_jobs_candidates(3) [OF Cons.prems(1) that] by (intro t(4)) (auto simp: candidate_def)
      then show ?thesis by (simp add: read_jobs_def ids)
    qed
    have "sorted ps" "distinct ps" using Cons.prems by auto
    from Cons.IH [OF t(1) this] obtain r v where v: "select_candidate n ds now (\<lambda>_ _. quiet now u) ps t = (Inr r, v)"
      "opt_inv v" "sweeps now t v" "selected n ds now t ps r" by blast
    have "selected n ds now s (p # ps) r" using v(4) read no by (auto simp: selected_def split: option.splits)
    with v step None sweeps_trans [OF t(2) v(3)] show ?thesis by auto
  qed
qed

text \<open>The whole claim, undisturbed.\<close>

lemma opt_claim_loop_quiet:
  assumes inv: "opt_inv s" and args: "0 < ls" "\<not> blank w" and tok: "u \<noteq> []"
  shows "\<exists>r t s1. opt_claim_loop n w ls ds (\<lambda>_ _ _. quiet now u) (map (\<lambda>_. quiet now u) [0..<12]) s =
      (Inr (map_option (start_lease w u now ls) r), t) \<and> opt_inv t \<and> sweeps now s s1 \<and>
    selected n ds now s priority_order r \<and>
    (case r of None \<Rightarrow> t = s1
     | Some j \<Rightarrow> redis_job (base s1) (job_id j) = Some j \<and> waiting_status (status j) \<and>
         abs_store (base t) = put_job (start_lease w u now ls j) (abs_store (base s1)))"
proof -
  let ?q = "quiet now u :: ('a, 'b) oenv"
  obtain r s1 where sel: "select_candidate n ds now (\<lambda>_ _. ?q) priority_order s = (Inr r, s1)" "opt_inv s1"
    "sweeps now s s1" "selected n ds now s priority_order r"
    using select_quiet [OF inv priority_order_ok(1,2)] by blast
  have loop: "opt_claim_loop n w ls ds (\<lambda>_ _ _. ?q) (map (\<lambda>_. ?q) [0..<12]) s =
      opt_claim_loop n w ls ds (\<lambda>_ _ _. ?q) (?q # map (\<lambda>_. ?q) [0..<11]) s"
    by (simp add: eval_nat_numeral map_upt_Suc del: upt_Suc opt_claim_loop.simps)
  show ?thesis
  proof (cases r)
    case None
    with sel show ?thesis unfolding loop by (intro exI [of _ r] exI [of _ s1]) simp
  next
    case (Some j)
    with sel(4) obtain p where "j \<in> set (read_jobs n (ds = None) now s p)" and tk: "takeable ds now j"
      by (auto simp: selected_def)
    then have j: "redis_job (base s) (job_id j) = Some j" "waiting_status (status j)" "available_at j \<le> now"
      using due_jobs_read [OF inv, of now p "\<lambda>_. 0 :: nat" n "ds = None"] by (auto simp: due_jobs_def)
    have j1: "redis_job (base s1) (job_id j) = Some j"
      using sel(3) j(1) tk unfolding sweeps_def takeable_def ready_def overdue_def by (metis option.inject)
    obtain h where h: "dict_get (hashes (base s1)) (job_id j) = Some h" "job_from_hash h = Inr j"
      using opt_inv_base [OF sel(2)] j1 by (cases rule: redis_hash_cases [where k = "job_id j"]) auto
    let ?j = "start_lease w u now ls j"
    let ?t = "upd_base (hset_job (job_id j) ?j)
        (upd_base (\<lambda>b. b\<lparr>running := zadd (job_id j) (now + ls) (running b)\<rparr>) (dequeue_job j s1))"
    have "opt_inv ?t \<and> abs_store (base ?t) = put_job ?j (abs_store (base s1))"
      by (rule opt_claim_commit [OF sel(2) j1 j(2) refl args tok]) simp_all
    moreover have "opt_claim_loop n w ls ds (\<lambda>_ _ _. ?q) (map (\<lambda>_. ?q) [0..<12]) s = (Inr (Some ?j), ?t)"
      unfolding loop using sel(1) Some h j tk by (simp add: takeable_def ready_def)
    ultimately show ?thesis using Some sel j1 j(2)
      by (intro exI [of _ r] exI [of _ ?t] exI [of _ s1]) auto
  qed
qed

subsection \<open>Agreement with the Redis store\<close>

lemma read_all:
  assumes inv: "opt_inv s" and win: "ds \<noteq> None \<or> (\<forall>p. length (zrangebyscore (pqueue s p) now) \<le> n)"
  shows "(\<exists>p. i \<in> set (read_jobs n (ds = None) now s p)) \<and> takeable ds now i \<longleftrightarrow>
    redis_job (base s) (job_id i) = Some i \<and> claimable ds now i \<and> \<not> deadline_expired i now"
proof -
  have ids: "candidate_ids n (ds = None) p now s = zrangebyscore (pqueue s p) now" for p
    using win by (auto simp: candidate_ids_def)
  have "i \<in> set (read_jobs n (ds = None) now s p) \<longleftrightarrow> redis_job (base s) (job_id i) = Some i \<and>
      waiting_status (status i) \<and> available_at i \<le> now \<and> priority (spec i) = p" for p
  proof
    assume "i \<in> set (read_jobs n (ds = None) now s p)"
    then show "redis_job (base s) (job_id i) = Some i \<and>
        waiting_status (status i) \<and> available_at i \<le> now \<and> priority (spec i) = p"
      using due_jobs_read [OF inv, of now p "\<lambda>_. 0 :: nat" n "ds = None"] by (auto simp: due_jobs_def)
  next
    assume i: "redis_job (base s) (job_id i) = Some i \<and>
        waiting_status (status i) \<and> available_at i \<le> now \<and> priority (spec i) = p"
    then have "job_id i \<in> set (zrangebyscore (pqueue s p) now)"
      using due_candidates(1) [OF inv] by (auto simp: candidate_def)
    with i show "i \<in> set (read_jobs n (ds = None) now s p)"
      unfolding read_jobs_def ids by (auto intro!: image_eqI [of _ _ "job_id i"])
  qed
  then show ?thesis by (auto simp: takeable_def ready_def claimable_def)
qed

lemma selected_all:
  assumes inv: "opt_inv s" and win: "ds \<noteq> None \<or> (\<forall>p. length (zrangebyscore (pqueue s p) now) \<le> n)"
    and sel: "selected n ds now s priority_order r"
  shows "case r of
      None \<Rightarrow> \<forall>i. redis_job (base s) (job_id i) = Some i \<longrightarrow> \<not> (claimable ds now i \<and> \<not> deadline_expired i now)
    | Some j \<Rightarrow> redis_job (base s) (job_id j) = Some j \<and> claimable ds now j \<and> \<not> deadline_expired j now \<and>
        (\<forall>i. redis_job (base s) (job_id i) = Some i \<longrightarrow> claimable ds now i \<and> \<not> deadline_expired i now \<longrightarrow>
           claim_key j \<le> claim_key i)"
proof -
  note all = read_all [OF inv win, unfolded conj_assoc]
  show ?thesis
  proof (cases r)
    case None
    with sel have no: "\<not> ((\<exists>p. i \<in> set (read_jobs n (ds = None) now s p)) \<and> takeable ds now i)" for i
      by (auto simp: selected_def)
    show ?thesis unfolding None option.case using no [unfolded all] by blast
  next
    case (Some j)
    with sel have j: "(\<exists>p. j \<in> set (read_jobs n (ds = None) now s p)) \<and> takeable ds now j"
      and min: "\<And>i p. i \<in> set (read_jobs n (ds = None) now s p) \<Longrightarrow> takeable ds now i \<Longrightarrow> claim_key j \<le> claim_key i"
      by (auto simp: selected_def)
    show ?thesis unfolding Some option.case using j all min by blast
  qed
qed

text \<open>C28. Undisturbed, the claim of the optimized store by optimistic transactions returns exactly what the
  claim of the plain Redis store returns on the same jobs, provided that the window does not cut off
  due jobs (it is not used when domains are given). Afterwards the two stores hold the same jobs,
  except that the optimized store may still hold overdue jobs behind the claimed one as waiting,
  which the plain store has failed.\<close>

theorem optimized_claim_agrees:
  assumes inv: "opt_inv s" and tok: "u \<noteq> []"
    and path: "ds \<noteq> None \<or> \<not> supports_atomic_claim prefix"
    and win: "ds \<noteq> None \<or> (\<forall>p. length (zrangebyscore (pqueue s p) now) \<le> n)"
    and run: "opt_claim tostr prefix n w ls ds tk tm later (\<lambda>_ _ _. quiet now u) (\<lambda>_. quiet now u) s = (r, t)"
    and base: "redis_claim w ls ds (\<lambda>_ _ _. quiet now u) (\<lambda>_. quiet now u) (base s) = (r', b)"
  shows "r = r' \<and> opt_inv t \<and> (\<forall>k. redis_job (base t) k = redis_job b k \<or>
    (\<exists>j. redis_job (base s) k = Some j \<and> redis_job (base t) k = Some j \<and>
       redis_job b k = Some (fail_deadline now j) \<and> overdue now j))"
proof (cases "blank w \<or> ls \<le> 0")
  case True
  with inv run base show ?thesis
    by (cases "blank w") (auto simp: opt_claim_def redis_claim_def simp del: upt_Suc)
next
  case False
  then have args: "0 < ls" "\<not> blank w" by auto
  obtain x v s1 where loop: "opt_claim_loop n w ls ds (\<lambda>_ _ _. quiet now u) (map (\<lambda>_. quiet now u) [0..<12]) s =
      (Inr (map_option (start_lease w u now ls) x), v)" and v: "opt_inv v" and sw: "sweeps now s s1"
    and sel: "selected n ds now s priority_order x"
    and st: "case x of None \<Rightarrow> v = s1
     | Some j \<Rightarrow> redis_job (base s1) (job_id j) = Some j \<and> waiting_status (status j) \<and>
         abs_store (base v) = put_job (start_lease w u now ls j) (abs_store (base s1))"
    using opt_claim_loop_quiet [OF inv args tok, of n ds now] by blast
  from loop run path args have r: "r = Inr (map_option (start_lease w u now ls) x)" "t = v"
    by (auto simp: opt_claim_def simp del: upt_Suc)
  note pick = selected_all [OF inv win sel]
  have id: "job_id i = k" if "redis_job (base s) k = Some i" for k i
    using redis_job_texts [OF opt_inv_base [OF inv] that] by simp
  let ?R = "rewrite_jobs (swept now (base s)) (fail_deadline now) (abs_store (base s))"
  have sweep: "redis_job (base s1) k = dict_get (jobs ?R) k \<or>
      (\<exists>j. redis_job (base s) k = Some j \<and> redis_job (base s1) k = Some j \<and>
         dict_get (jobs ?R) k = Some (fail_deadline now j) \<and> overdue now j)" for k
    using sw [unfolded sweeps_def, rule_format, of k] by (cases "redis_job (base s) k") (auto simp: dict_simps swept_def)
  from opt_inv_base [OF inv] args(2,1) tok show ?thesis
  proof (cases rule: redis_claim_cases [where ds = ds and now = now])
    case (none b')
    have "x = None" using pick none(4) by (cases x) auto
    with none(1,3) base r st sweep v show ?thesis by auto
  next
    case (some b' j)
    have b: "r' = Inr (Some (start_lease w u now ls j))" "b = b'" using some(1) base by auto
    have "x = Some j"
    proof (cases x)
      case None
      with pick some(4-6) show ?thesis by auto
    next
      case (Some i)
      from pick [unfolded Some option.case] have i: "redis_job (base s) (job_id i) = Some i" "claimable ds now i"
        "\<not> deadline_expired i now" "claim_key i \<le> claim_key j" using some(4-6) by blast+
      with some(7) [OF i(1-3)] have "claim_key i = claim_key j" by (simp only: order.antisym)
      then have "job_id i = job_id j" by (simp add: claim_key_def)
      with i(1) some(4) have "i = j" by (metis option.inject)
      with Some show ?thesis by (simp only:)
    qed
    with st r have t: "r = Inr (Some (start_lease w u now ls j))"
      "abs_store (base t) = put_job (start_lease w u now ls j) (abs_store (base s1))" by simp_all
    have "redis_job (base t) k = redis_job b k \<or>
        (\<exists>j. redis_job (base s) k = Some j \<and> redis_job (base t) k = Some j \<and>
           redis_job b k = Some (fail_deadline now j) \<and> overdue now j)" for k
      using sweep [of k] by (cases "k = job_id j") (simp_all add: t(2) b(2) some(3) dict_simps)
    with t(1) b(1) r(2) v show ?thesis by simp
  qed
qed

subsection \<open>Runs of the optimized store\<close>

inductive opt_step ::
    "string set \<Rightarrow> ('p, 'r) opt_store \<Rightarrow> ('p, 'r) opt_store \<Rightarrow> bool" for issued where
  submit: "spec_ok sp \<Longrightarrow> max_attempts (retry sp) \<le> 1024 \<Longrightarrow> u \<noteq> [] \<Longrightarrow>
    dict_get (hashes (base s)) u = None \<Longrightarrow> opt_step issued s (snd (opt_submit sp (\<lambda>_. quiet now u) s))"
| claim: "u \<in> issued \<Longrightarrow> u \<noteq> [] \<Longrightarrow> tostr now = now \<Longrightarrow> tostr (now + ls) = now + ls \<Longrightarrow> opt_step issued s
    (snd (opt_claim tostr prefix n w ls ds u now (\<lambda>t. t) (\<lambda>_ _ _. quiet now u) (\<lambda>_. quiet now u) s))"
| call: "call_ok c \<Longrightarrow> u \<noteq> [] \<Longrightarrow> opt_step issued s (snd (opt_call jid w tok c (\<lambda>_. quiet now u) s))"
| request_cancel: "u \<noteq> [] \<Longrightarrow> opt_step issued s (snd (opt_request_cancel jid (\<lambda>_. quiet now u) s))"
| recover: "u \<noteq> [] \<Longrightarrow> opt_step issued s (snd (opt_recover_expired_leases now (\<lambda>_ _. quiet now u) s))"
| repair: "opt_step issued s (snd (rebuild_priority_indexes n s))"

definition jobs_follow :: "('p, 'r) redis_store \<Rightarrow> ('p, 'r) redis_store \<Rightarrow> bool" where
  "jobs_follow b c \<longleftrightarrow> (\<forall>k j. redis_job b k = Some j \<longrightarrow> (\<exists>j'. redis_job c k = Some j' \<and> job_follows j j'))"

lemma jobs_follow_refl [simp]: "jobs_follow b b"
  by (auto simp: jobs_follow_def)

lemma jobs_follow_mem: "redis_inv b \<Longrightarrow> mem_step issued (abs_store b) (abs_store c) \<Longrightarrow> jobs_follow b c"
  unfolding jobs_follow_def using mem_step_job redis_inv_mem by blast

lemma lua_settles_follow: "opt_inv s \<Longrightarrow> lua_settles now s t \<Longrightarrow> jobs_follow (base s) (base t)"
  unfolding jobs_follow_def lua_settles_def
  using lua_settle_ok redis_job_texts [OF opt_inv_base] by (metis job_follows_refl option.inject)

lemma fail_deadline_follows: "waiting_status (status j) \<Longrightarrow> job_follows j (fail_deadline now j)"
  by (auto simp: fail_deadline_def job_follows_def)

lemma sweeps_follow: "sweeps now s t \<Longrightarrow> jobs_follow (base s) (base t)"
  unfolding jobs_follow_def sweeps_def using fail_deadline_follows job_follows_refl by (metis option.inject)

lemma lease_follows:
  assumes "jobs_follow (base s) (base s1)" and "redis_job (base s) (job_id j) = Some j" and "waiting_status (status j)"
    and "abs_store (base t) = put_job (start_lease w tok now ls j) (abs_store (base s1))"
  shows "jobs_follow (base s) (base t)"
  using assms start_lease_follows [OF assms(3), of w tok now ls]
  by (auto simp: jobs_follow_def dict_simps)

lemma base_seen_quiet:
  "seen (proj_envs (map (\<lambda>_. quiet now u) [0..<8]) s) (base s) = [(proj_env (quiet now u) s, base s)]"
  by (simp add: eval_nat_numeral map_upt_Suc del: upt_Suc)

lemma base_env_quiet: "at_conflict (base_env 8 (\<lambda>_. quiet now u) s 0) = None"
  by (simp add: base_env_def eval_nat_numeral map_upt_Suc del: upt_Suc)

lemma recover_loop_proj_quiet:
  "recover_loop k now (proj_envs (map (\<lambda>_. quiet now u) [0..<8]) s) (base s) =
     recover_loop k now (map (\<lambda>_. quiet now u) [0..<8]) (base s)"
  by (simp add: eval_nat_numeral map_upt_Suc del: upt_Suc split: option.split sum.split)

lemma opt_recover_all_quiet:
  assumes "opt_inv s" and "u \<noteq> []" and "opt_recover_all now (\<lambda>_ _. quiet now u) ids n s = (r, t)"
  shows "recover_all now (\<lambda>_ _. quiet now u) ids n (base s) = (r, base t) \<and> opt_inv t"
  using assms(1,3)
proof (induction ids arbitrary: n s)
  case Nil
  then show ?case by simp
next
  case (Cons k ids)
  obtain q v where one: "opt_recover_loop k now (map (\<lambda>_. quiet now u) [0..<8]) s = (q, v)" by fastforce
  have "\<forall>a \<in> set (map (\<lambda>_. quiet now u :: ('a, 'b) oenv) [0..<8]). oenv_ok a" by (simp add: oenv_ok_quiet assms(2))
  from opt_recover_refines [OF Cons.prems(1) this one]
  have step: "recover_loop k now (map (\<lambda>_. quiet now u) [0..<8]) (base s) = (q, base v)" "opt_inv v"
    unfolding recover_loop_proj_quiet by auto
  show ?case
  proof (cases q)
    case (Inl e)
    with Cons.prems(2) one have "r = Inl e" "t = v" by (simp_all del: upt_Suc)
    with Inl step show ?thesis by (simp del: upt_Suc)
  next
    case (Inr b)
    with Cons.prems(2) one have "opt_recover_all now (\<lambda>_ _. quiet now u) ids (if b then n + 1 else n) v = (r, t)"
      by (simp del: upt_Suc)
    from Cons.IH [OF step(2) this] Inr step(1) show ?thesis by (simp del: upt_Suc)
  qed
qed

lemma rebuild_step:
  assumes inv: "opt_inv s"
  shows "opt_inv (snd (rebuild_priority_indexes n s)) \<and>
    jobs_follow (base s) (base (snd (rebuild_priority_indexes n s)))"
proof (cases "n < 1")
  case True
  with inv show ?thesis by (simp add: rebuild_priority_indexes_def)
next
  case False
  have "decodable (base s)" "dict_ok (queue (base s))" "\<forall>p. dict_ok (pqueue s p)"
    using opt_inv_base [OF inv] redis_inv_decodable redis_inv_dicts opt_inv_index [OF inv] by auto
  from rebuild_invariant [OF this] False opt_inv_base [OF inv]
  obtain res t where "rebuild_priority_indexes n s = (Inr res, t)" "opt_inv t" "abs_store (base t) = abs_store (base s)"
    by (metis linorder_not_less)
  then show ?thesis by (simp add: jobs_follow_def)
qed

lemma opt_claim_step:
  assumes inv: "opt_inv s" and tok: "u \<noteq> []" and exact: "tostr now = now" "tostr (now + ls) = now + ls"
    and run: "opt_claim tostr prefix n w ls ds u now (\<lambda>t. t) (\<lambda>_ _ _. quiet now u) (\<lambda>_. quiet now u) s = (r, t)"
  shows "opt_inv t \<and> jobs_follow (base s) (base t)"
proof (cases "blank w \<or> ls \<le> 0")
  case True
  with inv run show ?thesis by (cases "blank w") (auto simp: opt_claim_def)
next
  case False
  then have args: "0 < ls" "\<not> blank w" by auto
  show ?thesis
  proof (cases "ds = None \<and> supports_atomic_claim prefix")
    case True
    with run args have "claim_atomic tostr n w ls u now (\<lambda>t. t) s = (r, t)" by (simp add: opt_claim_def)
    from atomic_claim_first [OF inv exact args tok this] obtain s1 where "opt_inv t" and st: "lua_settles now s s1"
      and "r = Inr None \<and> t = s1 \<or> (\<exists>j. windowed n now s j \<and>
          abs_store (base t) = put_job (start_lease w u now ls j) (abs_store (base s1)))" by blast
    moreover have "redis_job (base s) (job_id j) = Some j \<and> waiting_status (status j)" if "windowed n now s j" for j
      using that window_candidates(1) [OF inv, of n now "priority (spec j)"] by (auto simp: windowed_def candidate_def)
    ultimately show ?thesis using lua_settles_follow [OF inv st] lease_follows by blast
  next
    case no: False
    obtain x v s1 where loop: "opt_claim_loop n w ls ds (\<lambda>_ _ _. quiet now u) (map (\<lambda>_. quiet now u) [0..<12]) s =
        (Inr (map_option (start_lease w u now ls) x), v)" and v: "opt_inv v" and sw: "sweeps now s s1"
      and sel: "selected n ds now s priority_order x"
      and st: "case x of None \<Rightarrow> v = s1
       | Some j \<Rightarrow> redis_job (base s1) (job_id j) = Some j \<and> waiting_status (status j) \<and>
           abs_store (base v) = put_job (start_lease w u now ls j) (abs_store (base s1))"
      using opt_claim_loop_quiet [OF inv args tok, of n ds now] by blast
    from loop run no args have t: "t = v" by (auto simp: opt_claim_def simp del: upt_Suc)
    show ?thesis
    proof (cases x)
      case None
      with st v t sweeps_follow [OF sw] show ?thesis by simp
    next
      case (Some j)
      then have "redis_job (base s) (job_id j) = Some j" using sel due_jobs_read [OF inv, of now _ "\<lambda>_. 0 :: nat" n "ds = None"]
        by (auto simp: selected_def due_jobs_def)
      with Some st v t lease_follows [OF sweeps_follow [OF sw], of j v w u now ls] show ?thesis by simp
    qed
  qed
qed

lemma opt_step_ok:
  assumes inv: "opt_inv s" and "opt_step issued s t"
  shows "opt_inv t \<and> jobs_follow (base s) (base t)"
  using assms(2)
proof cases
  case (submit sp u now)
  have envs: "\<forall>i. oenv_ok ((\<lambda>_. quiet now u :: ('a, 'b) oenv) i)" by (simp add: oenv_ok_quiet submit(4))
  have fresh: "\<forall>(a, v) \<in> set (seen (map (base_env 8 (\<lambda>_. quiet now u) s) [0..<8]) (base s)).
      dict_get (hashes v) (at_uuid a) = None" using submit(5) by (simp add: base_seen_quiet del: upt_Suc)
  obtain r where r: "redis_submit sp (base_env 8 (\<lambda>_. quiet now u) s) (base s) = (r, base t)" and t: "opt_inv t"
    using opt_submit_method_refines [OF inv envs submit(2,3) fresh] submit(1)
    by (cases "opt_submit sp (\<lambda>_. quiet now u) s") (simp del: upt_Suc)
  have "mem_submit sp u now (abs_store (base s)) = (r, abs_store (base t))"
    using redis_submit_linear [OF opt_inv_base [OF inv] _ submit(2,3) fresh r] base_env_ok [OF inv envs]
    by (auto simp: base_seen_quiet base_env_quiet simp del: upt_Suc dest: spec [of _ 0])
  moreover have "redis_job (base s) u = None" using submit(5) by (simp add: redis_job_eq)
  ultimately have "mem_step issued (abs_store (base s)) (abs_store (base t))"
    using mem_step.submit [OF submit(2,3), of "abs_store (base s)" u issued now] by simp
  with t jobs_follow_mem [OF opt_inv_base [OF inv]] show ?thesis by blast
next
  case (claim u tostr now ls prefix n w ds)
  obtain r where "opt_claim tostr prefix n w ls ds u now (\<lambda>t. t) (\<lambda>_ _ _. quiet now u) (\<lambda>_. quiet now u) s = (r, t)"
    using claim(1) by (metis surjective_pairing)
  from opt_claim_step [OF inv claim(3-5) this] show ?thesis .
next
  case (call c u jid w tok now)
  have envs: "\<forall>i. oenv_ok ((\<lambda>_. quiet now u :: ('a, 'b) oenv) i)" by (simp add: oenv_ok_quiet call(3))
  obtain r where r: "redis_call jid w tok c (base_env 8 (\<lambda>_. quiet now u) s) (base s) = (r, base t)" and t: "opt_inv t"
    using opt_call_refines [OF inv envs call(2), of jid w tok] call(1)
    by (cases "opt_call jid w tok c (\<lambda>_. quiet now u) s") (simp del: upt_Suc)
  have "mem_call jid w tok c now (abs_store (base s)) = (r, abs_store (base t))"
    using redis_call_linear [OF opt_inv_base [OF inv] _ call(2) r] base_env_ok [OF inv envs]
    by (auto simp: base_seen_quiet base_env_quiet simp del: upt_Suc dest: spec [of _ 0])
  with mem_call_step [of issued "abs_store (base s)" jid w tok c now] t
    jobs_follow_mem [OF opt_inv_base [OF inv], where issued = issued] show ?thesis by simp
next
  case (request_cancel u jid now)
  have envs: "\<forall>i. oenv_ok ((\<lambda>_. quiet now u :: ('a, 'b) oenv) i)" by (simp add: oenv_ok_quiet request_cancel(2))
  obtain r where r: "redis_request_cancel jid (base_env 8 (\<lambda>_. quiet now u) s) (base s) = (r, base t)" and t: "opt_inv t"
    using opt_request_cancel_refines [OF inv envs, of jid] request_cancel(1)
    by (cases "opt_request_cancel jid (\<lambda>_. quiet now u) s") (simp del: upt_Suc)
  have "mem_request_cancel jid now (abs_store (base s)) = (r, abs_store (base t))"
    using redis_request_cancel_linear [OF opt_inv_base [OF inv] _ r] base_env_ok [OF inv envs]
    by (auto simp: base_seen_quiet base_env_quiet simp del: upt_Suc dest: spec [of _ 0])
  with mem_step.request_cancel [of issued "abs_store (base s)" jid now] t
    jobs_follow_mem [OF opt_inv_base [OF inv], where issued = issued] show ?thesis by simp
next
  case (recover u now)
  obtain r where run: "opt_recover_all now (\<lambda>_ _. quiet now u) (zrangebyscore (running (base s)) now) 0 s = (r, t)"
    using recover(1) by (metis opt_recover_expired_leases_def prod.collapse)
  from opt_recover_all_quiet [OF inv recover(2) run]
  have r: "redis_recover_expired_leases now (\<lambda>_ _. quiet now u) (base s) = (r, base t)" and t: "opt_inv t"
    by (simp_all add: redis_recover_expired_leases_def)
  from redis_recover_mem [OF opt_inv_base [OF inv] r] mem_step.recover [of issued "abs_store (base s)" now] t
    jobs_follow_mem [OF opt_inv_base [OF inv], where issued = issued] show ?thesis by simp
next
  case (repair n)
  with rebuild_step [OF inv] show ?thesis by simp
qed

interpretation opt: durable_store "\<lambda>s. s = opt_empty" "opt_step issued" opt_inv "\<lambda>s. redis_job (base s)"
  for issued :: "string set"
proof unfold_locales
  show "s = opt_empty \<Longrightarrow> opt_inv s" for s :: "('p, 'r) opt_store" by (simp add: opt_inv_empty)
  show "opt_inv s \<Longrightarrow> opt_step issued s t \<Longrightarrow> opt_inv t" for s t :: "('p, 'r) opt_store" using opt_step_ok by blast
  show "opt_inv s \<Longrightarrow> redis_job (base s) k = Some j \<Longrightarrow> job_id j = k \<and> job_ok j" for s :: "('p, 'r) opt_store" and k j
    using redis_job_texts [OF opt_inv_base] by blast
  show "opt_inv s \<Longrightarrow> opt_step issued s t \<Longrightarrow> redis_job (base s) k = Some j \<Longrightarrow>
      \<exists>j'. redis_job (base t) k = Some j' \<and> job_follows j j'" for s t :: "('p, 'r) opt_store" and k j
    using opt_step_ok unfolding jobs_follow_def by blast
qed

subsection \<open>The theorems on the optimized store\<close>

text \<open>C27. The optimized store refines the plain Redis store: under any interference that keeps the
  invariant with the priority indexes, submission, the methods of a lease holder and cancellation
  requests return exactly what the methods of the plain store return when they meet the same
  clocks, identifiers, store contents and conflicts, leave the same hashes, idempotency keys, queue
  and running index, and keep the priority indexes exact.\<close>

theorem optimized_methods_refine:
  assumes inv: "opt_inv s" and env: "\<forall>i. oenv_ok (env i)" and ok: "call_ok c"
    and sp: "spec_ok sp" "max_attempts (retry sp) \<le> 1024"
    and fresh: "\<forall>(a, u) \<in> set (seen (map (base_env 8 env s) [0..<8]) (base s)). dict_get (hashes u) (at_uuid a) = None"
  shows "redis_submit sp (base_env 8 env s) (base s) = map_prod id base (opt_submit sp env s) \<and>
    opt_inv (snd (opt_submit sp env s)) \<and>
    redis_call jid w tok c (base_env 8 env s) (base s) = map_prod id base (opt_call jid w tok c env s) \<and>
    opt_inv (snd (opt_call jid w tok c env s)) \<and>
    redis_request_cancel jid (base_env 8 env s) (base s) = map_prod id base (opt_request_cancel jid env s) \<and>
    opt_inv (snd (opt_request_cancel jid env s))"
  using opt_submit_method_refines [OF inv env sp fresh] opt_call_refines [OF inv env ok]
    opt_request_cancel_refines [OF inv env] by blast

text \<open>The claim of the optimized store by optimistic transactions is safe under interference:
  whatever other clients do between the reads of the indexes and hashes and the commits of the at
  most twelve attempts, it keeps the invariant with the priority indexes, raises nothing once its
  arguments are accepted, and a job it returns was claimable in the very store its transaction
  committed on, which did nothing but start the lease.\<close>

theorem optimized_claim_safe:
  assumes inv: "opt_inv s" and env: "\<forall>i. oenv_ok (env i)" and xenv: "\<forall>i k m. oenv_ok (xenv i k m)"
    and args: "0 < ls" "\<not> blank w" and path: "ds \<noteq> None \<or> \<not> supports_atomic_claim prefix"
    and run: "opt_claim tostr prefix n w ls ds tk tm later xenv env s = (r, t)"
  shows "claim_safe w ls ds (range env) r t"
proof -
  have "opt_claim_loop n w ls ds xenv (map env [0..<12]) s = (r, t)"
    using run args path by (auto simp: opt_claim_def simp del: upt_Suc)
  from opt_claim_loop_safe [OF inv _ xenv args this] env have "claim_safe w ls ds (set (map env [0..<12])) r t"
    by simp
  then show ?thesis by (rule claim_safe_mono) auto
qed

text \<open>Along any run of the optimized store, repairs included, a finished job never changes and every job
  keeps its identity, its cancellation request and its attempt limit.\<close>

theorem optimized_runs_keep_contract:
  assumes "opt_inv s" and "(opt_step issued)\<^sup>*\<^sup>* s t" and "redis_job (base s) k = Some j"
  shows "\<exists>j'. redis_job (base t) k = Some j' \<and> job_id j' = k \<and> spec j' = spec j \<and>
    created_at j' = created_at j \<and> (cancel_requested j \<longrightarrow> cancel_requested j') \<and>
    attempt j' \<le> max_attempts (retry (spec j)) \<and> (terminal_status (status j) \<longrightarrow> j' = j)"
proof -
  obtain j' where j': "redis_job (base t) k = Some j'" "job_id j' = k" "spec j' = spec j"
    "created_at j' = created_at j" "cancel_requested j \<longrightarrow> cancel_requested j'"
    using opt.steps_spec [OF assms] by blast
  moreover have "attempt j' \<le> max_attempts (retry (spec j))" using opt.steps_attempts [OF assms] j'(1) by simp
  moreover have "terminal_status (status j) \<longrightarrow> j' = j" using opt.steps_terminal [OF assms] j'(1) by auto
  ultimately show ?thesis by blast
qed

text \<open>The window can starve: while the window of every priority holds only jobs with a cancellation
  request, the claim by optimistic transactions returns nothing and leaves these jobs where they
  are, whatever claimable jobs are behind them.\<close>

theorem window_starves:
  assumes inv: "opt_inv s" and args: "0 < ls" "\<not> blank w" and tok: "u \<noteq> []"
    and path: "\<not> supports_atomic_claim prefix"
    and full: "\<forall>p. \<forall>i \<in> set (read_jobs n True now s p). cancel_requested i"
  shows "\<exists>t. opt_claim tostr prefix n w ls None tk tm later (\<lambda>_ _ _. quiet now u) (\<lambda>_. quiet now u) s = (Inr None, t) \<and>
    (\<forall>k j. redis_job (base s) k = Some j \<longrightarrow> cancel_requested j \<longrightarrow> redis_job (base t) k = Some j)"
proof -
  obtain x v s1 where loop: "opt_claim_loop n w ls None (\<lambda>_ _ _. quiet now u) (map (\<lambda>_. quiet now u) [0..<12]) s =
      (Inr (map_option (start_lease w u now ls) x), v)" and sw: "sweeps now s s1"
    and sel: "selected n None now s priority_order x" and st: "case x of None \<Rightarrow> v = s1
     | Some j \<Rightarrow> redis_job (base s1) (job_id j) = Some j \<and> waiting_status (status j) \<and>
         abs_store (base v) = put_job (start_lease w u now ls j) (abs_store (base s1))"
    using opt_claim_loop_quiet [OF inv args tok, of n None now] by blast
  have x: "x = None"
    using sel full by (cases x) (auto simp: selected_def takeable_def ready_def)
  have v: "v = s1" using st by (simp add: x)
  have "redis_job (base v) k = Some j" if "redis_job (base s) k = Some j" "cancel_requested j" for k j
    using sw that unfolding sweeps_def v overdue_def by (metis option.inject)
  with loop x args path show ?thesis by (simp add: opt_claim_def del: upt_Suc)
qed

subsection \<open>A concrete store\<close>

definition ex_opt :: "(unit, unit) opt_store" where
  "ex_opt = snd (opt_submit ex_spec (\<lambda>_. quiet 0 ''j1'') opt_empty)"

lemma ex_opt_inv: "opt_inv ex_opt"
proof -
  have "opt_step {} opt_empty ex_opt"
    unfolding ex_opt_def by (rule opt_step.submit) (simp_all add: ex_spec_ok opt_empty_def redis_empty_def)
  from opt_step_ok [OF opt_inv_empty this] show ?thesis by blast
qed

theorem atomic_claim_takes_first_witness:
  "let (r, t) = claim_atomic id 16 ''w1'' 30 ''t1'' 1 (\<lambda>t. t) ex_opt
   in opt_inv t \<and> (r = Inr None \<or> (\<exists>j. r = Inr (Some (start_lease ''w1'' ''t1'' 1 30 j)) \<and> ready 1 j))"
proof -
  obtain r t where run: "claim_atomic id 16 ''w1'' 30 ''t1'' 1 (\<lambda>t. t) ex_opt = (r, t)" by fastforce
  have "\<not> blank ''w1''" by code_simp
  with atomic_claim_takes_first [OF ex_opt_inv, of id 1 30 "''w1''" "''t1''" 16 r t] run show ?thesis by auto
qed

theorem optimized_methods_refine_witness:
  "redis_call ''j1'' ''w1'' ''t1'' Cancel (base_env 8 (\<lambda>_. quiet 1 ''u1'') ex_opt) (base ex_opt) =
     map_prod id base (opt_call ''j1'' ''w1'' ''t1'' Cancel (\<lambda>_. quiet 1 ''u1'') ex_opt) \<and>
   opt_inv (snd (opt_submit ex_spec (\<lambda>_. quiet 1 ''u1'') ex_opt))"
proof -
  have env: "\<forall>i. oenv_ok ((\<lambda>_. quiet 1 ''u1'' :: (unit, unit) oenv) i)" by (simp add: oenv_ok_quiet)
  have "dict_get (hashes (base ex_opt)) ''u1'' = None"
    by (simp add: ex_opt_def opt_submit_def opt_empty_def redis_empty_def eval_nat_numeral map_upt_Suc hset_job_def
        queue_job_def upd_base_def del: upt_Suc)
  then have "\<forall>(a, u) \<in> set (seen (map (base_env 8 (\<lambda>_. quiet 1 ''u1'') ex_opt) [0..<8]) (base ex_opt)).
      dict_get (hashes u) (at_uuid a) = None" by (simp add: base_seen_quiet del: upt_Suc)
  from optimized_methods_refine [OF ex_opt_inv env _ ex_spec_ok this, of Cancel] show ?thesis by simp
qed

theorem optimized_claim_safe_witness:
  "let (r, t) = opt_claim id ''maestro'' 16 ''w1'' 30 None ''t1'' 1 (\<lambda>t. t) (\<lambda>_ _ _. quiet 1 ''t1'') (\<lambda>_. quiet 1 ''t1'') ex_opt
   in claim_safe ''w1'' 30 None {quiet 1 ''t1''} r t"
proof -
  have env: "\<forall>i. oenv_ok ((\<lambda>_. quiet 1 ''t1'' :: (unit, unit) oenv) i)"
    "\<forall>i k m. oenv_ok ((\<lambda>_ _ _. quiet 1 ''t1'' :: (unit, unit) oenv) i k m)" by (simp_all add: oenv_ok_quiet)
  have w: "\<not> blank ''w1''" and p: "None \<noteq> (None :: string list option) \<or> \<not> supports_atomic_claim ''maestro''"
    by code_simp+
  show ?thesis
    using optimized_claim_safe [OF ex_opt_inv env _ w p, of 30 id 16 "''t1''" 1 "\<lambda>t. t"] by (auto split: prod.split)
qed

theorem optimized_claim_agrees_witness:
  "fst (opt_claim id ''maestro'' 16 ''w1'' 30 (Some [''cgt'']) ''t1'' 1 (\<lambda>t. t) (\<lambda>_ _ _. quiet 1 ''t1'') (\<lambda>_. quiet 1 ''t1'') ex_opt) =
     fst (redis_claim ''w1'' 30 (Some [''cgt'']) (\<lambda>_ _ _. quiet 1 ''t1'') (\<lambda>_. quiet 1 ''t1'') (base ex_opt))"
proof -
  have "\<exists>r t r' b. opt_claim id ''maestro'' 16 ''w1'' 30 (Some [''cgt'']) ''t1'' 1 (\<lambda>t. t) (\<lambda>_ _ _. quiet 1 ''t1'') (\<lambda>_. quiet 1 ''t1'') ex_opt = (r, t) \<and>
      redis_claim ''w1'' 30 (Some [''cgt'']) (\<lambda>_ _ _. quiet 1 ''t1'') (\<lambda>_. quiet 1 ''t1'') (base ex_opt) = (r', b)"
    by (meson surj_pair)
  with optimized_claim_agrees [OF ex_opt_inv, of "''t1''" "Some [''cgt'']" "''maestro''" 1 16 id "''w1''" 30 "''t1''" 1 "\<lambda>t. t"]
  show ?thesis by fastforce
qed

theorem repair_restores_indexes_witness:
  "\<exists>res t. rebuild_priority_indexes 256 \<lparr>base = ex_redis, pqueue = (\<lambda>_. [])\<rparr> = (Inr res, t) \<and> opt_inv t \<and>
     removed_stale_shared res = 0"
proof -
  let ?s = "\<lparr>base = ex_redis, pqueue = (\<lambda>_. [])\<rparr> :: (unit, unit) opt_store"
  have "decodable (base ?s)" "dict_ok (queue (base ?s))" "\<forall>p. dict_ok (pqueue ?s p)"
    using redis_inv_decodable [OF ex_redis_inv(1)] redis_inv_dicts [OF ex_redis_inv(1)] by simp_all
  from repair_restores_indexes [OF this, of 256] ex_redis_inv(1) show ?thesis by auto
qed

end
