(* ===== verification/Adaptive_Concurrency.thy ===== *)
theory Adaptive_Concurrency
  imports Durable_Job
begin

section \<open>Adaptive concurrency (execution/adaptive.py)\<close>

text \<open>
  The controller that turns latency and error samples into a concurrency limit, the sampler that
  aggregates completed attempts into samples, and the gate that applies the limit. The objects
  are records, their methods functions of them. Ratios and latencies are exact rationals; a
  latency that is not finite is a value of its own. A gate's \<open>acquire\<close> waits on a condition, so
  it is a step that is enabled when the predicate holds.
\<close>

subsection \<open>Policy and samples\<close>

record adaptive_policy =
  ap_minimum :: int
  ap_maximum :: int
  additive_step :: int
  decrease_ratio :: rat
  latency_target_ms :: rat
  error_rate_threshold :: rat
  recovery_windows :: int
  pressure_windows :: int
  healthy_latency_ratio :: rat
  ewma_alpha :: rat

definition default_adaptive_policy :: adaptive_policy where
  "default_adaptive_policy =
     \<lparr>ap_minimum = 1, ap_maximum = 8, additive_step = 1, decrease_ratio = 1 / 2,
      latency_target_ms = 250, error_rate_threshold = 1 / 20, recovery_windows = 3,
      pressure_windows = 2, healthy_latency_ratio = 9 / 10, ewma_alpha = 1 / 4\<rparr>"

definition adaptive_policy_error :: "adaptive_policy \<Rightarrow> exc option" where
  "adaptive_policy_error p =
     (if ap_minimum p < 1 then Some (ValueError ''minimum must be at least 1'')
      else if ap_maximum p < ap_minimum p
      then Some (ValueError ''maximum must be greater than or equal to minimum'')
      else if additive_step p < 1 then Some (ValueError ''additive_step must be at least 1'')
      else if \<not> (0 < decrease_ratio p \<and> decrease_ratio p < 1)
      then Some (ValueError ''decrease_ratio must be between 0 and 1'')
      else if latency_target_ms p \<le> 0 then Some (ValueError ''latency_target_ms must be positive'')
      else if \<not> (0 \<le> error_rate_threshold p \<and> error_rate_threshold p \<le> 1)
      then Some (ValueError ''error_rate_threshold must be between 0 and 1'')
      else if recovery_windows p < 1 \<or> pressure_windows p < 1
      then Some (ValueError ''window counts must be at least 1'')
      else if \<not> (0 < healthy_latency_ratio p \<and> healthy_latency_ratio p \<le> 1)
      then Some (ValueError ''healthy_latency_ratio must be between 0 and 1'')
      else if \<not> (0 < ewma_alpha p \<and> ewma_alpha p \<le> 1)
      then Some (ValueError ''ewma_alpha must be between 0 and 1'')
      else None)"

datatype latency = Finite rat | NonFinite

record adaptive_sample =
  requests :: int
  latency_p95_ms :: latency
  errors :: int
  timeouts :: int
  rate_limited :: int

subsection \<open>The controller\<close>

record controller =
  policy :: adaptive_policy
  current_limit :: int
  latency_ewma_ms :: "rat option"
  healthy_streak :: int
  pressure_streak :: int

definition new_controller :: "adaptive_policy \<Rightarrow> int option \<Rightarrow> exc + controller" where
  "new_controller p initial =
     (let chosen = (case initial of None \<Rightarrow> ap_minimum p | Some i \<Rightarrow> i)
      in if \<not> (ap_minimum p \<le> chosen \<and> chosen \<le> ap_maximum p)
         then Inl (ValueError ''initial_limit must be within policy bounds'')
         else Inr \<lparr>policy = p, current_limit = chosen, latency_ewma_ms = None,
                   healthy_streak = 0, pressure_streak = 0\<rparr>)"

definition valid_sample :: "adaptive_sample \<Rightarrow> bool" where
  "valid_sample x \<longleftrightarrow>
     \<not> (requests x \<le> 0 \<or> (\<exists>v \<in> set [requests x, errors x, timeouts x, rate_limited x]. v < 0)) \<and>
     \<not> requests x < errors x \<and>
     \<not> (requests x < timeouts x \<or> requests x < rate_limited x) \<and>
     (case latency_p95_ms x of NonFinite \<Rightarrow> False | Finite l \<Rightarrow> 0 \<le> l)"

definition adaptive_increase :: "controller \<Rightarrow> controller" where
  "adaptive_increase c =
     c\<lparr>current_limit := min (current_limit c + additive_step (policy c)) (ap_maximum (policy c))\<rparr>"

definition adaptive_decrease :: "controller \<Rightarrow> controller" where
  "adaptive_decrease c =
     c\<lparr>current_limit := max \<lfloor>of_int (current_limit c) * decrease_ratio (policy c)\<rfloor>
                           (ap_minimum (policy c))\<rparr>"

definition update_latency :: "latency \<Rightarrow> controller \<Rightarrow> controller" where
  "update_latency x c =
     (case x of NonFinite \<Rightarrow> c | Finite l \<Rightarrow>
      case latency_ewma_ms c of
        None \<Rightarrow> c\<lparr>latency_ewma_ms := Some l\<rparr>
      | Some w \<Rightarrow>
          let alpha = ewma_alpha (policy c)
          in c\<lparr>latency_ewma_ms := Some (alpha * l + (1 - alpha) * w)\<rparr>)"

definition adaptive_observe :: "adaptive_sample \<Rightarrow> controller \<Rightarrow> int \<times> controller" where
  "adaptive_observe x c0 =
     (if \<not> valid_sample x
      then (current_limit c0, c0\<lparr>healthy_streak := 0, pressure_streak := 0\<rparr>)
      else
        let c = update_latency (latency_p95_ms x) c0; p = policy c;
            hard_pressure = (0 < timeouts x \<or> 0 < rate_limited x);
            error_rate = of_int (errors x) / of_int (requests x);
            soft_pressure = (error_rate_threshold p \<le> error_rate \<or>
              (case latency_ewma_ms c of None \<Rightarrow> False | Some w \<Rightarrow> latency_target_ms p < w))
        in if hard_pressure
           then let c' = adaptive_decrease (c\<lparr>healthy_streak := 0, pressure_streak := 0\<rparr>)
                in (current_limit c', c')
           else if soft_pressure
           then let c1 = c\<lparr>healthy_streak := 0, pressure_streak := pressure_streak c + 1\<rparr>;
                    c' = (if pressure_windows p \<le> pressure_streak c1
                          then adaptive_decrease (c1\<lparr>pressure_streak := 0\<rparr>) else c1)
                in (current_limit c', c')
           else
             let c1 = c\<lparr>pressure_streak := 0\<rparr>;
                 threshold = latency_target_ms p * healthy_latency_ratio p;
                 c' = (if (case latency_ewma_ms c1 of None \<Rightarrow> False | Some w \<Rightarrow> w \<le> threshold)
                       then let c2 = c1\<lparr>healthy_streak := healthy_streak c1 + 1\<rparr>
                            in if recovery_windows p \<le> healthy_streak c2
                               then adaptive_increase (c2\<lparr>healthy_streak := 0\<rparr>) else c2
                       else c1\<lparr>healthy_streak := 0\<rparr>)
             in (current_limit c', c'))"

subsection \<open>The telemetry sampler\<close>

datatype failure_kind = ERROR | TIMEOUT | RATE_LIMITED

definition classify_adaptive_failure :: "('p, 'r) execution_job \<Rightarrow> failure_kind" where
  "classify_adaptive_failure j = (if last_error j = Some ''TimeoutError'' then TIMEOUT else ERROR)"

record sampler =
  window_size :: int
  latencies_ms :: "rat list"
  s_errors :: int
  s_timeouts :: int
  s_rate_limited :: int

definition new_sampler :: "int \<Rightarrow> exc + sampler" where
  "new_sampler w =
     (if w < 1 then Inl (ValueError ''window_size must be at least 1'')
      else Inr \<lparr>window_size = w, latencies_ms = [], s_errors = 0, s_timeouts = 0, s_rate_limited = 0\<rparr>)"

definition p95_index :: "nat \<Rightarrow> nat" where
  "p95_index n = nat (max (\<lceil>19 * of_nat n / (20 :: rat)\<rceil> - 1) 0)"

definition count_failure :: "failure_kind \<Rightarrow> sampler \<Rightarrow> sampler" where
  "count_failure k s =
     (case k of
        TIMEOUT \<Rightarrow> s\<lparr>s_timeouts := s_timeouts s + 1\<rparr>
      | RATE_LIMITED \<Rightarrow> s\<lparr>s_rate_limited := s_rate_limited s + 1\<rparr>
      | ERROR \<Rightarrow> s\<lparr>s_errors := s_errors s + 1\<rparr>)"

definition sampler_record ::
    "(('p, 'r) execution_job \<Rightarrow> failure_kind) \<Rightarrow> ('p, 'r) execution_job \<Rightarrow> latency \<Rightarrow> sampler
      \<Rightarrow> adaptive_sample option \<times> sampler" where
  "sampler_record classify j l s0 =
     (case l of NonFinite \<Rightarrow> (None, s0) | Finite ms \<Rightarrow>
      if ms < 0 then (None, s0)
      else if status j \<notin> {SUCCEEDED, RETRY_WAIT, FAILED} then (None, s0)
      else
        let s1 = s0\<lparr>latencies_ms := latencies_ms s0 @ [ms]\<rparr>;
            s = (if status j \<noteq> SUCCEEDED then count_failure (classify j) s1 else s1)
        in if int (length (latencies_ms s)) < window_size s then (None, s)
           else
             let ordered = sort (latencies_ms s)
             in (Some \<lparr>requests = int (length ordered),
                       latency_p95_ms = Finite (ordered ! p95_index (length ordered)),
                       errors = s_errors s, timeouts = s_timeouts s, rate_limited = s_rate_limited s\<rparr>,
                 s\<lparr>latencies_ms := [], s_errors := 0, s_timeouts := 0, s_rate_limited := 0\<rparr>))"

subsection \<open>The gate\<close>

record gate =
  controller_of :: controller
  active :: int

text \<open>\<open>None\<close> is a worker that keeps waiting.\<close>

definition gate_acquire :: "gate \<Rightarrow> gate option" where
  "gate_acquire g =
     (if active g < current_limit (controller_of g) then Some (g\<lparr>active := active g + 1\<rparr>) else None)"

definition gate_release :: "(gate, unit) op" where
  "gate_release g =
     (if active g \<le> 0
      then (Inl (RuntimeError ''adaptive concurrency gate released without acquire''), g)
      else (Inr (), g\<lparr>active := active g - 1\<rparr>))"

definition gate_observe :: "adaptive_sample \<Rightarrow> gate \<Rightarrow> int \<times> gate" where
  "gate_observe x g =
     (case adaptive_observe x (controller_of g) of (l, c) \<Rightarrow> (l, g\<lparr>controller_of := c\<rparr>))"

subsection \<open>The controller stays within its bounds\<close>

definition controller_inv :: "controller \<Rightarrow> bool" where
  "controller_inv c \<longleftrightarrow> adaptive_policy_error (policy c) = None \<and>
     ap_minimum (policy c) \<le> current_limit c \<and> current_limit c \<le> ap_maximum (policy c) \<and>
     0 \<le> healthy_streak c \<and> healthy_streak c < recovery_windows (policy c) \<and>
     0 \<le> pressure_streak c \<and> pressure_streak c < pressure_windows (policy c) \<and>
     (case latency_ewma_ms c of None \<Rightarrow> True | Some w \<Rightarrow> 0 \<le> w)"

lemma policy_errorD:
  assumes "adaptive_policy_error p = None"
  shows "1 \<le> ap_minimum p" "ap_minimum p \<le> ap_maximum p" "1 \<le> additive_step p"
    "0 < decrease_ratio p" "decrease_ratio p < 1" "0 < latency_target_ms p"
    "1 \<le> recovery_windows p" "1 \<le> pressure_windows p"
    "0 < ewma_alpha p" "ewma_alpha p \<le> 1"
  using assms by (auto simp: adaptive_policy_error_def split: if_splits)

lemma scaled_floor_le:
  assumes "0 \<le> l" and "0 < (r :: rat)" and "r < 1"
  shows "\<lfloor>of_int l * r\<rfloor> \<le> (l :: int)"
proof -
  have "of_int l * r \<le> of_int l * (1 :: rat)" using assms by (intro mult_left_mono) auto
  then show ?thesis by (simp add: floor_le_iff)
qed

lemma policy_same [simp]:
  "policy (update_latency x c) = policy c" "policy (adaptive_decrease c) = policy c"
  "policy (adaptive_increase c) = policy c" "current_limit (update_latency x c) = current_limit c"
  "healthy_streak (update_latency x c) = healthy_streak c"
  "pressure_streak (update_latency x c) = pressure_streak c"
  "healthy_streak (adaptive_decrease c) = healthy_streak c"
  "pressure_streak (adaptive_decrease c) = pressure_streak c"
  "latency_ewma_ms (adaptive_decrease c) = latency_ewma_ms c"
  "healthy_streak (adaptive_increase c) = healthy_streak c"
  "pressure_streak (adaptive_increase c) = pressure_streak c"
  "latency_ewma_ms (adaptive_increase c) = latency_ewma_ms c"
  by (simp_all add: update_latency_def adaptive_decrease_def adaptive_increase_def
      split: latency.split option.split)

lemma decrease_inv: "controller_inv c \<Longrightarrow> controller_inv (adaptive_decrease c)"
  using policy_errorD [of "policy c"] scaled_floor_le [of "current_limit c" "decrease_ratio (policy c)"]
  by (auto simp: controller_inv_def) (auto simp: adaptive_decrease_def)

lemma increase_inv: "controller_inv c \<Longrightarrow> controller_inv (adaptive_increase c)"
  using policy_errorD [of "policy c"]
  by (auto simp: controller_inv_def) (auto simp: adaptive_increase_def)

lemma update_latency_inv:
  assumes "controller_inv c" and "valid_sample x"
  shows "controller_inv (update_latency (latency_p95_ms x) c)"
proof -
  obtain l where l: "latency_p95_ms x = Finite l" "0 \<le> l"
    using assms(2) by (auto simp: valid_sample_def split: latency.splits)
  have a: "0 < ewma_alpha (policy c)" "ewma_alpha (policy c) \<le> 1"
    using assms(1) policy_errorD by (auto simp: controller_inv_def)
  show ?thesis
    using assms(1) l a by (cases "latency_ewma_ms c") (auto simp: controller_inv_def update_latency_def)
qed

text \<open>What one observation does, by the kind of the sample.\<close>

lemma observe_result: "fst (adaptive_observe x c) = current_limit (snd (adaptive_observe x c))"
  by (simp add: adaptive_observe_def)

lemma observe_policy [simp]: "policy (snd (adaptive_observe x c)) = policy c"
  by (simp add: adaptive_observe_def)

lemma observe_inv:
  assumes "controller_inv c"
  shows "controller_inv (snd (adaptive_observe x c))"
proof (cases "valid_sample x")
  case False
  with assms policy_errorD [of "policy c"] show ?thesis
    by (auto simp: adaptive_observe_def controller_inv_def)
next
  case True
  let ?c = "update_latency (latency_p95_ms x) c"
  have inv: "controller_inv ?c" using update_latency_inv [OF assms True] .
  have p: "1 \<le> recovery_windows (policy c)" "1 \<le> pressure_windows (policy c)"
    using assms policy_errorD [of "policy c"] by (auto simp: controller_inv_def)
  have streaks: "controller_inv (?c\<lparr>healthy_streak := h, pressure_streak := q\<rparr>)"
    if "0 \<le> h" "h < recovery_windows (policy c)" "0 \<le> q" "q < pressure_windows (policy c)" for h q
    using inv that by (simp add: controller_inv_def)
  have *: "controller_inv (?c\<lparr>healthy_streak := 0, pressure_streak := 0\<rparr>)"
    "pressure_streak c + 1 < pressure_windows (policy c) \<Longrightarrow>
       controller_inv (?c\<lparr>healthy_streak := 0, pressure_streak := pressure_streak c + 1\<rparr>)"
    "healthy_streak c + 1 < recovery_windows (policy c) \<Longrightarrow>
       controller_inv (?c\<lparr>healthy_streak := healthy_streak c + 1, pressure_streak := 0\<rparr>)"
    using p inv by (auto intro!: streaks simp: controller_inv_def)
  have swap: "?c\<lparr>pressure_streak := q, healthy_streak := h\<rparr> = ?c\<lparr>healthy_streak := h, pressure_streak := q\<rparr>" for h q
    by simp
  show ?thesis
    using True * decrease_inv increase_inv by (simp add: adaptive_observe_def swap not_le)
qed

definition observe_all :: "adaptive_sample list \<Rightarrow> controller \<Rightarrow> controller" where
  "observe_all xs c = fold (\<lambda>x c. snd (adaptive_observe x c)) xs c"

lemma observe_all_simps [simp]:
  "observe_all [] c = c" "observe_all (x # xs) c = observe_all xs (snd (adaptive_observe x c))"
  by (simp_all add: observe_all_def)

lemma observe_all_inv: "controller_inv c \<Longrightarrow> controller_inv (observe_all xs c)"
  by (induction xs arbitrary: c) (auto intro: observe_inv)

lemma observe_all_policy [simp]: "policy (observe_all xs c) = policy c"
  by (induction xs arbitrary: c) auto

lemma new_controller_inv:
  "adaptive_policy_error p = None \<Longrightarrow> new_controller p i = Inr c \<Longrightarrow> controller_inv c \<and> policy c = p"
  using policy_errorD [of p] by (auto simp: new_controller_def controller_inv_def split: if_splits)

subsection \<open>Decrease and recovery\<close>

definition hard_sample :: "adaptive_sample \<Rightarrow> bool" where
  "hard_sample x \<longleftrightarrow> valid_sample x \<and> (0 < timeouts x \<or> 0 < rate_limited x)"

lemma observe_hard:
  "hard_sample x \<Longrightarrow> current_limit (snd (adaptive_observe x c)) =
     max \<lfloor>of_int (current_limit c) * decrease_ratio (policy c)\<rfloor> (ap_minimum (policy c))"
  by (auto simp: hard_sample_def adaptive_observe_def adaptive_decrease_def)

lemma hard_run_bound:
  assumes "controller_inv c" and "\<forall>x\<in>set xs. hard_sample x"
  shows "of_int (current_limit (observe_all xs c)) \<le>
    max (of_int (ap_minimum (policy c))) (of_int (current_limit c) * decrease_ratio (policy c) ^ length xs)"
  using assms
proof (induction xs arbitrary: c)
  case Nil
  then show ?case by simp
next
  case (Cons x xs)
  let ?c = "snd (adaptive_observe x c)" and ?r = "decrease_ratio (policy c)" and ?m = "ap_minimum (policy c)"
  have r: "0 < ?r" "?r < 1" "1 \<le> ?m" using Cons.prems(1) policy_errorD [of "policy c"] by (auto simp: controller_inv_def)
  have l: "current_limit ?c = max \<lfloor>of_int (current_limit c) * ?r\<rfloor> ?m" using Cons.prems(2) by (simp add: observe_hard)
  have IH: "of_int (current_limit (observe_all xs ?c)) \<le>
      max (of_int ?m) (of_int (current_limit ?c) * ?r ^ length xs)"
    using Cons.IH [OF observe_inv [OF Cons.prems(1)]] Cons.prems(2) by simp
  have pw: "0 \<le> ?r ^ length xs" "?r ^ length xs \<le> 1" using r by (auto intro: power_le_one)
  have "of_int (current_limit ?c) \<le> max (of_int (current_limit c) * ?r) (of_int ?m)"
    unfolding l by (simp add: of_int_max max.coboundedI1)
  then have "of_int (current_limit ?c) * ?r ^ length xs \<le>
      max (of_int (current_limit c) * ?r) (of_int ?m) * ?r ^ length xs"
    using pw by (intro mult_right_mono)
  also have "\<dots> \<le> max (of_int ?m) (of_int (current_limit c) * ?r ^ length (x # xs))"
  proof -
    have "of_int ?m * ?r ^ length xs \<le> of_int ?m" using pw r by (simp add: mult_left_le)
    then show ?thesis by (simp add: max_def mult.assoc)
  qed
  finally show ?case using IH by simp
qed

text \<open>A sample without errors above the threshold, with a latency in the healthy band.\<close>

definition healthy_sample :: "adaptive_policy \<Rightarrow> adaptive_sample \<Rightarrow> bool" where
  "healthy_sample p x \<longleftrightarrow> valid_sample x \<and> timeouts x = 0 \<and> rate_limited x = 0 \<and>
     of_int (errors x) / of_int (requests x) < error_rate_threshold p \<and>
     (\<exists>l. latency_p95_ms x = Finite l \<and> l \<le> latency_target_ms p * healthy_latency_ratio p)"

definition ewma_healthy :: "controller \<Rightarrow> bool" where
  "ewma_healthy c \<longleftrightarrow> (case latency_ewma_ms c of None \<Rightarrow> True
     | Some w \<Rightarrow> w \<le> latency_target_ms (policy c) * healthy_latency_ratio (policy c))"

lemma update_latency_healthy:
  assumes "adaptive_policy_error (policy c) = None" and "ewma_healthy c" and "healthy_sample (policy c) x"
  shows "\<exists>w. latency_ewma_ms (update_latency (latency_p95_ms x) c) = Some w \<and>
    w \<le> latency_target_ms (policy c) * healthy_latency_ratio (policy c) \<and> w \<le> latency_target_ms (policy c)"
proof -
  let ?t = "latency_target_ms (policy c) * healthy_latency_ratio (policy c)"
  have a: "0 < ewma_alpha (policy c)" "ewma_alpha (policy c) \<le> 1" using assms(1) policy_errorD by auto
  have "healthy_latency_ratio (policy c) \<le> 1" "0 < latency_target_ms (policy c)"
    using assms(1) by (auto simp: adaptive_policy_error_def split: if_splits)
  then have t: "?t \<le> latency_target_ms (policy c)" by (simp add: mult_left_le)
  obtain l where l: "latency_p95_ms x = Finite l" "l \<le> ?t"
    using assms(3) by (auto simp: healthy_sample_def)
  have "ewma_alpha (policy c) * l + (1 - ewma_alpha (policy c)) * w \<le> ?t" if "w \<le> ?t" for w
    using convex_bound_le [OF l(2) that, of "ewma_alpha (policy c)" "1 - ewma_alpha (policy c)"] a by simp
  with assms(2) l t show ?thesis
    by (cases "latency_ewma_ms c") (auto simp: update_latency_def ewma_healthy_def intro: order_trans)
qed

lemma observe_healthy:
  assumes "adaptive_policy_error (policy c) = None" and "ewma_healthy c" and "healthy_sample (policy c) x"
  shows "let c' = snd (adaptive_observe x c); h = healthy_streak c + 1 in
    ewma_healthy c' \<and>
    (if recovery_windows (policy c) \<le> h
     then healthy_streak c' = 0 \<and>
       current_limit c' = min (current_limit c + additive_step (policy c)) (ap_maximum (policy c))
     else healthy_streak c' = h \<and> current_limit c' = current_limit c)"
  using update_latency_healthy [OF assms] assms(3)
  by (auto simp: adaptive_observe_def healthy_sample_def ewma_healthy_def not_less not_le adaptive_increase_def)

lemma healthy_run:
  assumes "controller_inv c" and "ewma_healthy c" and "\<forall>x\<in>set xs. healthy_sample (policy c) x"
  shows "current_limit (observe_all xs c) = min (current_limit c + additive_step (policy c) *
      ((healthy_streak c + int (length xs)) div recovery_windows (policy c))) (ap_maximum (policy c))"
  using assms
proof (induction xs arbitrary: c)
  case Nil
  then show ?case by (simp add: controller_inv_def)
next
  case (Cons x xs)
  let ?c = "snd (adaptive_observe x c)" and ?p = "policy c"
  have p: "adaptive_policy_error ?p = None" using Cons.prems(1) by (simp add: controller_inv_def)
  have s: "1 \<le> additive_step ?p" "1 \<le> recovery_windows ?p" using policy_errorD [OF p] by auto
  note step = observe_healthy [OF p Cons.prems(2), of x]
  have IH: "current_limit (observe_all xs ?c) = min (current_limit ?c + additive_step ?p *
      ((healthy_streak ?c + int (length xs)) div recovery_windows ?p)) (ap_maximum ?p)"
    using Cons.IH [of ?c] observe_inv [OF Cons.prems(1)] step Cons.prems(3) by simp
  have h: "healthy_streak c < recovery_windows ?p" "0 \<le> healthy_streak c"
    using Cons.prems(1) by (auto simp: controller_inv_def)
  show ?case
  proof (cases "recovery_windows ?p \<le> healthy_streak c + 1")
    case True
    with h have eq: "healthy_streak c + int (length (x # xs)) = recovery_windows ?p + int (length xs)" by simp
    have "(healthy_streak c + int (length (x # xs))) div recovery_windows ?p = int (length xs) div recovery_windows ?p + 1"
      unfolding eq using s(2) by simp
    moreover have "0 \<le> additive_step ?p * (int (length xs) div recovery_windows ?p)"
      using s by (intro mult_nonneg_nonneg) (auto simp: pos_imp_zdiv_nonneg_iff)
    ultimately show ?thesis
      using True IH step Cons.prems(3) by (simp add: algebra_simps)
  next
    case False
    then show ?thesis using IH step Cons.prems(3) by (simp add: algebra_simps)
  qed
qed

text \<open>After a time of pressure the average is above the healthy band. How far it is above a latency
  \<open>m\<close> shrinks by a factor with every sample of at most \<open>m\<close>.\<close>

definition excess :: "rat \<Rightarrow> controller \<Rightarrow> rat" where
  "excess m c = (case latency_ewma_ms c of None \<Rightarrow> 0 | Some w \<Rightarrow> max 0 (w - m))"

definition calm_sample :: "adaptive_policy \<Rightarrow> rat \<Rightarrow> adaptive_sample \<Rightarrow> bool" where
  "calm_sample p m x \<longleftrightarrow> healthy_sample p x \<and> (\<exists>l. latency_p95_ms x = Finite l \<and> l \<le> m)"

lemma observe_ewma: "valid_sample x \<Longrightarrow>
    latency_ewma_ms (snd (adaptive_observe x c)) = latency_ewma_ms (update_latency (latency_p95_ms x) c)"
  by (simp add: adaptive_observe_def Let_def)

lemma observe_excess:
  assumes "adaptive_policy_error (policy c) = None" and "calm_sample (policy c) m x"
  shows "excess m (snd (adaptive_observe x c)) \<le> (1 - ewma_alpha (policy c)) * excess m c"
proof -
  let ?a = "ewma_alpha (policy c)"
  have a: "0 < ?a" "0 \<le> 1 - ?a" using policy_errorD [OF assms(1)] by auto
  obtain l where l: "latency_p95_ms x = Finite l" "l \<le> m" "valid_sample x"
    using assms(2) by (auto simp: calm_sample_def healthy_sample_def)
  show ?thesis
  proof (cases "latency_ewma_ms c")
    case None
    with l show ?thesis by (simp add: excess_def observe_ewma update_latency_def)
  next
    case (Some w)
    have "?a * l + (1 - ?a) * w - m = ?a * (l - m) + (1 - ?a) * (w - m)" by (simp add: algebra_simps)
    also have "\<dots> \<le> (1 - ?a) * (w - m)" using a(1) l(2) by (simp add: mult_le_0_iff)
    also have "\<dots> \<le> (1 - ?a) * max 0 (w - m)" using a(2) by (intro mult_left_mono) simp_all
    finally have "?a * l + (1 - ?a) * w - m \<le> (1 - ?a) * max 0 (w - m)" .
    moreover have "0 \<le> (1 - ?a) * max 0 (w - m)" using a(2) by simp
    ultimately show ?thesis using Some l by (simp add: excess_def observe_ewma update_latency_def)
  qed
qed

lemma calm_run:
  assumes "controller_inv c" and "\<forall>x\<in>set xs. calm_sample (policy c) m x"
  shows "excess m (observe_all xs c) \<le> (1 - ewma_alpha (policy c)) ^ length xs * excess m c"
  using assms
proof (induction xs arbitrary: c)
  case Nil
  then show ?case by simp
next
  case (Cons x xs)
  let ?c = "snd (adaptive_observe x c)" and ?b = "1 - ewma_alpha (policy c)"
  have p: "adaptive_policy_error (policy c) = None" using Cons.prems(1) by (simp add: controller_inv_def)
  then have b: "0 \<le> ?b" using policy_errorD by auto
  have "excess m (observe_all (x # xs) c) \<le> ?b ^ length xs * excess m ?c"
    using Cons.IH [OF observe_inv [OF Cons.prems(1)]] Cons.prems(2) by simp
  also have "\<dots> \<le> ?b ^ length xs * (?b * excess m c)"
    using observe_excess [OF p, of m x] Cons.prems(2) b by (intro mult_left_mono) simp_all
  finally show ?case by (simp add: mult_ac)
qed

lemma calm_run_healthy:
  assumes "controller_inv c" and "\<forall>x\<in>set ys. calm_sample (policy c) m x"
    and "(1 - ewma_alpha (policy c)) ^ length ys * excess m c \<le>
      latency_target_ms (policy c) * healthy_latency_ratio (policy c) - m"
  shows "ewma_healthy (observe_all ys c)"
proof -
  have "excess m (observe_all ys c) \<le> latency_target_ms (policy c) * healthy_latency_ratio (policy c) - m"
    using calm_run [OF assms(1,2)] assms(3) by (rule order_trans)
  then show ?thesis
    by (cases "latency_ewma_ms (observe_all ys c)") (simp_all add: ewma_healthy_def excess_def)
qed

lemma observe_all_append: "observe_all (xs @ ys) c = observe_all ys (observe_all xs c)"
  by (simp add: observe_all_def)

lemma recovery_run:
  assumes "controller_inv c" and "\<forall>x\<in>set ys. calm_sample (policy c) m x"
    and "(1 - ewma_alpha (policy c)) ^ length ys * excess m c \<le>
      latency_target_ms (policy c) * healthy_latency_ratio (policy c) - m"
    and "\<forall>x\<in>set xs. healthy_sample (policy c) x"
  shows "current_limit (observe_all (ys @ xs) c) = min (current_limit (observe_all ys c) + additive_step (policy c) *
      ((healthy_streak (observe_all ys c) + int (length xs)) div recovery_windows (policy c))) (ap_maximum (policy c))"
  using healthy_run [OF observe_all_inv [OF assms(1)] calm_run_healthy [OF assms(1-3)], of xs] assms(4)
  by (simp add: observe_all_append)

subsection \<open>Properties of the controller\<close>

text \<open>C10. The concurrency limit stays within the policy: starting from a controller that its
  constructor accepts, after any samples at all, valid or not, the limit lies between the
  minimum and the maximum, and every observation returns the limit it leaves.\<close>

theorem adaptive_limit_bounded:
  assumes "adaptive_policy_error p = None" and "new_controller p i = Inr c"
  shows "ap_minimum p \<le> current_limit (observe_all xs c) \<and> current_limit (observe_all xs c) \<le> ap_maximum p \<and>
    1 \<le> current_limit (observe_all xs c) \<and>
    fst (adaptive_observe x (observe_all xs c)) = current_limit (snd (adaptive_observe x (observe_all xs c)))"
proof -
  from new_controller_inv [OF assms] have "controller_inv (observe_all xs c)" "policy c = p"
    by (auto intro: observe_all_inv)
  then show ?thesis
    using policy_errorD(1) [OF assms(1)] observe_result by (auto simp: controller_inv_def)
qed

definition ex_ctrl :: controller where
  "ex_ctrl = \<lparr>policy = default_adaptive_policy, current_limit = 8, latency_ewma_ms = None,
     healthy_streak = 0, pressure_streak = 0\<rparr>"

definition ex_hard :: adaptive_sample where
  "ex_hard = \<lparr>requests = 10, latency_p95_ms = Finite 100, errors = 0, timeouts = 1, rate_limited = 0\<rparr>"

definition ex_good :: adaptive_sample where
  "ex_good = \<lparr>requests = 10, latency_p95_ms = Finite 100, errors = 0, timeouts = 0, rate_limited = 0\<rparr>"

lemma ex_ctrl_ok: "adaptive_policy_error default_adaptive_policy = None"
    "new_controller default_adaptive_policy (Some 8) = Inr ex_ctrl"
  by (simp_all add: adaptive_policy_error_def default_adaptive_policy_def new_controller_def ex_ctrl_def)

theorem adaptive_limit_bounded_witness:
  "1 \<le> current_limit (observe_all [ex_hard] ex_ctrl) \<and> current_limit (observe_all [ex_hard] ex_ctrl) = 4"
proof -
  have "current_limit (observe_all [ex_hard] ex_ctrl) = 4" by code_simp
  with adaptive_limit_bounded [OF ex_ctrl_ok, of "[ex_hard]" ex_good] show ?thesis by simp
qed

text \<open>C24. The limit follows pressure and health as documented. Under consecutive samples with
  timeouts or rate limits it falls at least geometrically by the decrease ratio down to the minimum.
  Over consecutive healthy samples it recovers from any state, also from one after high latencies:
  as soon as enough samples with a latency of at most \<open>m\<close>, below the healthy band, have brought the
  moving average back into the band (their number is determined by the smoothing factor), every
  recovery window of healthy samples raises the limit by one additive step, up to the maximum.\<close>

theorem adaptive_limit_follows_load:
  assumes "controller_inv c"
  shows "(\<forall>xs. (\<forall>x\<in>set xs. hard_sample x) \<longrightarrow>
      of_int (current_limit (observe_all xs c)) \<le>
        max (of_int (ap_minimum (policy c))) (of_int (current_limit c) * decrease_ratio (policy c) ^ length xs)) \<and>
    (\<forall>ys xs m. (\<forall>x\<in>set ys. calm_sample (policy c) m x) \<longrightarrow> (\<forall>x\<in>set xs. healthy_sample (policy c) x) \<longrightarrow>
      (1 - ewma_alpha (policy c)) ^ length ys *
          (case latency_ewma_ms c of None \<Rightarrow> 0 | Some w \<Rightarrow> max 0 (w - m)) \<le>
        latency_target_ms (policy c) * healthy_latency_ratio (policy c) - m \<longrightarrow>
      current_limit (observe_all (ys @ xs) c) = min (current_limit (observe_all ys c) + additive_step (policy c) *
        ((healthy_streak (observe_all ys c) + int (length xs)) div recovery_windows (policy c))) (ap_maximum (policy c)))"
  using hard_run_bound [OF assms] recovery_run [OF assms] unfolding excess_def by blast

text \<open>A controller whose average has risen to twice the target: seven calm samples bring it back, then
  three healthy ones raise the limit.\<close>

definition ex_slow :: controller where
  "ex_slow = ex_ctrl\<lparr>current_limit := 2, latency_ewma_ms := Some 500\<rparr>"

theorem adaptive_limit_follows_load_witness:
  "hard_sample ex_hard \<and> of_int (current_limit (observe_all [ex_hard, ex_hard] ex_ctrl)) \<le> (2 :: rat) \<and>
    current_limit (observe_all (replicate 7 ex_good @ replicate 3 ex_good) ex_slow) =
      min (current_limit (observe_all (replicate 7 ex_good) ex_slow) + 1 *
        ((healthy_streak (observe_all (replicate 7 ex_good) ex_slow) + 3) div 3)) 8"
proof -
  have slow: "controller_inv ex_slow" by code_simp
  have good: "\<forall>x\<in>set (replicate n ex_good). calm_sample (policy ex_slow) 100 x" for n
    by (simp add: calm_sample_def healthy_sample_def valid_sample_def ex_good_def ex_slow_def ex_ctrl_def
        default_adaptive_policy_def)
  have "(1 - ewma_alpha (policy ex_slow)) ^ length (replicate 7 ex_good) *
      (case latency_ewma_ms ex_slow of None \<Rightarrow> 0 | Some w \<Rightarrow> max 0 (w - 100)) \<le>
      latency_target_ms (policy ex_slow) * healthy_latency_ratio (policy ex_slow) - 100" by code_simp
  moreover have "\<forall>x\<in>set (replicate 3 ex_good). healthy_sample (policy ex_slow) x"
    using good [of 3] by (simp add: calm_sample_def)
  ultimately have "current_limit (observe_all (replicate 7 ex_good @ replicate 3 ex_good) ex_slow) =
      min (current_limit (observe_all (replicate 7 ex_good) ex_slow) + additive_step (policy ex_slow) *
        ((healthy_streak (observe_all (replicate 7 ex_good) ex_slow) + int (length (replicate 3 ex_good)))
          div recovery_windows (policy ex_slow))) (ap_maximum (policy ex_slow))"
    using conjunct2 [OF adaptive_limit_follows_load [OF slow]] good [of 7] by blast
  moreover have "additive_step (policy ex_slow) = 1" "recovery_windows (policy ex_slow) = 3"
    "ap_maximum (policy ex_slow) = 8" by code_simp+
  ultimately have recovered: "current_limit (observe_all (replicate 7 ex_good @ replicate 3 ex_good) ex_slow) =
      min (current_limit (observe_all (replicate 7 ex_good) ex_slow) + 1 *
        ((healthy_streak (observe_all (replicate 7 ex_good) ex_slow) + 3) div 3)) 8"
    by (simp only: length_replicate of_nat_numeral)
  have "controller_inv ex_ctrl" using new_controller_inv [OF ex_ctrl_ok] by blast
  note follow = adaptive_limit_follows_load [OF this]
  have hard: "hard_sample ex_hard" by (simp add: hard_sample_def valid_sample_def ex_hard_def)
  then have "of_int (current_limit (observe_all [ex_hard, ex_hard] ex_ctrl)) \<le>
      max (of_int (ap_minimum (policy ex_ctrl))) (of_int (current_limit ex_ctrl) * decrease_ratio (policy ex_ctrl) ^ 2)"
    using conjunct1 [OF follow, rule_format, of "[ex_hard, ex_hard]"] by (simp add: numeral_2_eq_2)
  also have "\<dots> = 2" by (simp add: ex_ctrl_def default_adaptive_policy_def power2_eq_square)
  finally show ?thesis using hard recovered by blast
qed

subsection \<open>Properties of the sampler\<close>

lemma p95_index_bounds:
  assumes "0 < n"
  shows "p95_index n < n" and "19 * n \<le> 20 * (p95_index n + 1)"
proof -
  let ?c = "\<lceil>19 * of_nat n / (20 :: rat)\<rceil>"
  have lo: "19 * of_nat n / (20 :: rat) \<le> of_int ?c" by (rule le_of_int_ceiling)
  have hi: "?c \<le> int n" using assms by (simp add: ceiling_le_iff divide_le_eq)
  have pos: "1 \<le> ?c" using assms by (simp add: le_ceiling_iff)
  show "p95_index n < n" using pos hi assms by (simp add: p95_index_def)
  have "20 * (19 * of_nat n / 20) \<le> 20 * (of_int ?c :: rat)" using lo by (intro mult_left_mono) auto
  then have "(of_int (19 * int n) :: rat) \<le> of_int (20 * ?c)" by simp
  then have "19 * int n \<le> 20 * ?c" by (simp only: of_int_le_iff)
  moreover have "int (p95_index n + 1) = ?c" using pos by (simp add: p95_index_def)
  ultimately have "int (19 * n) \<le> int (20 * (p95_index n + 1))"
    by (simp only: of_nat_mult of_nat_numeral)
  then show "19 * n \<le> 20 * (p95_index n + 1)" by (simp only: of_nat_le_iff)
qed

lemma rank_sort:
  assumes "i < length xs"
  shows "i + 1 \<le> length (filter (\<lambda>y. y \<le> sort xs ! i) xs)"
proof -
  let ?s = "sort xs"
  have "length (filter (\<lambda>y. y \<le> ?s ! i) xs) = length (filter (\<lambda>y. y \<le> ?s ! i) ?s)"
    by (simp add: filter_sort)
  also have "\<dots> \<ge> length (filter (\<lambda>y. y \<le> ?s ! i) (take (i + 1) ?s))"
    by (metis append_take_drop_id filter_append le_add1 length_append)
  moreover have "filter (\<lambda>y. y \<le> ?s ! i) (take (i + 1) ?s) = take (i + 1) ?s"
    using assms by (auto simp: filter_id_conv in_set_conv_nth intro!: sorted_nth_mono)
  ultimately show ?thesis using assms by simp
qed

definition sampler_inv :: "sampler \<Rightarrow> bool" where
  "sampler_inv s \<longleftrightarrow> int (length (latencies_ms s)) < window_size s \<and> (\<forall>l\<in>set (latencies_ms s). 0 \<le> l) \<and>
     0 \<le> s_errors s \<and> 0 \<le> s_timeouts s \<and> 0 \<le> s_rate_limited s \<and>
     s_errors s + s_timeouts s + s_rate_limited s \<le> int (length (latencies_ms s))"

lemma count_failure_sel [simp]:
  "latencies_ms (count_failure k s) = latencies_ms s" "window_size (count_failure k s) = window_size s"
  "s_errors (count_failure k s) + s_timeouts (count_failure k s) + s_rate_limited (count_failure k s) =
     s_errors s + s_timeouts s + s_rate_limited s + 1"
  "s_errors (count_failure k s) = (if k = ERROR then s_errors s + 1 else s_errors s)"
  "s_timeouts (count_failure k s) = (if k = TIMEOUT then s_timeouts s + 1 else s_timeouts s)"
  "s_rate_limited (count_failure k s) = (if k = RATE_LIMITED then s_rate_limited s + 1 else s_rate_limited s)"
  by (simp_all add: count_failure_def split: failure_kind.split)

text \<open>The sampler hands the controller usable samples: from a fresh sampler on, a recorded
  attempt keeps the counters consistent with the window, a sample is emitted exactly when the
  window is full and is never rejected by the controller; its latency is one of the latencies of
  the window, and at least 95 percent of them do not exceed it.\<close>

theorem sampler_samples_valid:
  assumes inv: "sampler_inv s" and run: "sampler_record classify j l s = (out, t)"
  shows "sampler_inv t \<and> window_size t = window_size s \<and>
    (\<forall>x. out = Some x \<longrightarrow> valid_sample x \<and> requests x = window_size s \<and> latencies_ms t = [] \<and>
       (\<exists>ms p. l = Finite ms \<and> latency_p95_ms x = Finite p \<and> p \<in> set (latencies_ms s @ [ms]) \<and>
          19 * window_size s \<le> 20 * int (length (filter (\<lambda>y. y \<le> p) (latencies_ms s @ [ms])))))"
proof (cases "\<exists>ms. l = Finite ms \<and> 0 \<le> ms \<and> status j \<in> {SUCCEEDED, RETRY_WAIT, FAILED}")
  case False
  with run have "out = None \<and> t = s"
    by (auto simp: sampler_record_def not_less split: latency.splits if_splits)
  with inv show ?thesis by simp
next
  case True
  then obtain ms where ms: "l = Finite ms" "0 \<le> ms" and st: "status j \<in> {SUCCEEDED, RETRY_WAIT, FAILED}"
    by blast
  let ?s1 = "s\<lparr>latencies_ms := latencies_ms s @ [ms]\<rparr>"
  define u where "u = (if status j \<noteq> SUCCEEDED then count_failure (classify j) ?s1 else ?s1)"
  let ?L = "latencies_ms s @ [ms]"
  have u: "latencies_ms u = ?L" "window_size u = window_size s" "0 \<le> s_errors u" "0 \<le> s_timeouts u"
    "0 \<le> s_rate_limited u" "s_errors u + s_timeouts u + s_rate_limited u \<le> int (length ?L)"
    using inv by (auto simp: u_def sampler_inv_def)
  have rec: "sampler_record classify j l s = (if int (length ?L) < window_size s then (None, u)
      else (Some \<lparr>requests = int (length ?L), latency_p95_ms = Finite (sort ?L ! p95_index (length ?L)),
              errors = s_errors u, timeouts = s_timeouts u, rate_limited = s_rate_limited u\<rparr>,
            u\<lparr>latencies_ms := [], s_errors := 0, s_timeouts := 0, s_rate_limited := 0\<rparr>))"
    using ms st u unfolding sampler_record_def by (simp add: u_def [symmetric])
  have L: "\<forall>l\<in>set ?L. 0 \<le> l" using inv ms by (auto simp: sampler_inv_def)
  show ?thesis
  proof (cases "int (length ?L) < window_size s")
    case True
    with rec run u L show ?thesis by (auto simp: sampler_inv_def)
  next
    case False
    with inv have w: "int (length ?L) = window_size s" by (simp add: sampler_inv_def)
    let ?i = "p95_index (length ?L)"
    have i: "?i < length ?L" "19 * length ?L \<le> 20 * (?i + 1)" using p95_index_bounds [of "length ?L"] by auto
    have mem: "sort ?L ! ?i \<in> set ?L" using i(1) by (metis length_sort nth_mem set_sort)
    have "19 * window_size s \<le> 20 * int (length (filter (\<lambda>y. y \<le> sort ?L ! ?i) ?L))"
    proof -
      have "19 * length ?L \<le> 20 * length (filter (\<lambda>y. y \<le> sort ?L ! ?i) ?L)"
        by (rule order_trans [OF i(2) mult_le_mono2 [OF rank_sort [OF i(1)]]])
      then have "int (19 * length ?L) \<le> int (20 * length (filter (\<lambda>y. y \<le> sort ?L ! ?i) ?L))"
        by (rule of_nat_mono)
      then show ?thesis by (simp only: of_nat_mult of_nat_numeral w)
    qed
    moreover have "0 \<le> sort ?L ! ?i" using L mem by blast
    moreover have "out = Some \<lparr>requests = int (length ?L), latency_p95_ms = Finite (sort ?L ! ?i),
        errors = s_errors u, timeouts = s_timeouts u, rate_limited = s_rate_limited u\<rparr>"
      "t = u\<lparr>latencies_ms := [], s_errors := 0, s_timeouts := 0, s_rate_limited := 0\<rparr>"
      using False rec run by auto
    ultimately show ?thesis
      using u w mem ms by (simp add: valid_sample_def sampler_inv_def)
  qed
qed

theorem sampler_samples_valid_witness:
  "let j = (fresh_job \<lparr>idempotency_key = ''k'', domain = ''d'', payload = (), priority = NORMAL,
        retry = default_retry, deadline_at = None\<rparr> ''j'' 0)\<lparr>status := SUCCEEDED, result := Some ()\<rparr>;
       s = \<lparr>window_size = 1, latencies_ms = [], s_errors = 0, s_timeouts = 0, s_rate_limited = 0\<rparr>
   in \<exists>x. fst (sampler_record classify_adaptive_failure j (Finite 7) s) = Some x \<and> valid_sample x"
proof -
  let ?j = "(fresh_job \<lparr>idempotency_key = ''k'', domain = ''d'', payload = (), priority = NORMAL,
        retry = default_retry, deadline_at = None\<rparr> ''j'' 0)\<lparr>status := SUCCEEDED, result := Some ()\<rparr>"
  let ?s = "\<lparr>window_size = 1, latencies_ms = [], s_errors = 0, s_timeouts = 0, s_rate_limited = 0\<rparr>"
  have inv: "sampler_inv ?s" by (simp add: sampler_inv_def)
  have "fst (sampler_record classify_adaptive_failure ?j (Finite 7) ?s) \<noteq> None"
    by (simp add: sampler_record_def)
  then obtain x where "fst (sampler_record classify_adaptive_failure ?j (Finite 7) ?s) = Some x" by auto
  with sampler_samples_valid [OF inv, of classify_adaptive_failure ?j "Finite 7"]
  show ?thesis by (metis prod.collapse)
qed

subsection \<open>Properties of the gate\<close>

inductive gate_step :: "gate \<Rightarrow> gate \<Rightarrow> bool" where
  acquire: "gate_acquire g = Some h \<Longrightarrow> gate_step g h"
| release: "gate_step g (snd (gate_release g))"
| observe: "gate_step g (snd (gate_observe x g))"

definition gate_inv :: "gate \<Rightarrow> bool" where
  "gate_inv g \<longleftrightarrow> controller_inv (controller_of g) \<and> 0 \<le> active g \<and>
     active g \<le> ap_maximum (policy (controller_of g))"

lemma gate_step_inv:
  assumes "gate_inv g" and "gate_step g h"
  shows "gate_inv h"
  using assms(2)
proof cases
  case acquire
  with assms(1) show ?thesis by (auto simp: gate_inv_def gate_acquire_def controller_inv_def split: if_splits)
next
  case release
  with assms(1) show ?thesis by (auto simp: gate_inv_def gate_release_def)
next
  case (observe x)
  with assms(1) observe_inv [of "controller_of g" x] show ?thesis
    by (simp add: gate_inv_def gate_observe_def case_prod_unfold)
qed

interpretation gate: transition_system "\<lambda>g. controller_inv (controller_of g) \<and> active g = 0" gate_step gate_inv
proof
  fix g h
  show "controller_inv (controller_of g) \<and> active g = 0 \<Longrightarrow> gate_inv g"
    using policy_errorD [of "policy (controller_of g)"] by (auto simp: gate_inv_def controller_inv_def)
  show "gate_inv g \<Longrightarrow> gate_step g h \<Longrightarrow> gate_inv h" by (rule gate_step_inv)
qed

text \<open>The gate never lets more workers in than the policy's maximum: in every run from an idle
  gate the number of active iterations lies between zero and the maximum, a worker enters
  exactly when there is room under the current limit, and a change of the limit neither adds nor
  removes active work.\<close>

theorem gate_limits_active:
  assumes "controller_inv (controller_of g)" and "active g = 0" and "gate_step\<^sup>*\<^sup>* g h"
  shows "0 \<le> active h \<and> active h \<le> ap_maximum (policy (controller_of h)) \<and>
    (gate_acquire h \<noteq> None \<longleftrightarrow> active h < current_limit (controller_of h)) \<and>
    active (snd (gate_observe x h)) = active h \<and>
    (active h = 0 \<longrightarrow> gate_acquire h \<noteq> None \<and>
       gate_release h = (Inl (RuntimeError ''adaptive concurrency gate released without acquire''), h))"
proof -
  have "gate_inv g" using gate.inv_start assms by blast
  then have inv: "gate_inv h" using gate.steps_inv [OF assms(3)] by blast
  then have "1 \<le> current_limit (controller_of h)"
    using policy_errorD(1) [of "policy (controller_of h)"] by (auto simp: gate_inv_def controller_inv_def)
  with inv show ?thesis
    by (auto simp: gate_inv_def gate_acquire_def gate_observe_def gate_release_def case_prod_unfold)
qed

theorem gate_limits_active_witness:
  "let g = \<lparr>controller_of = ex_ctrl, active = 0\<rparr>; h = g\<lparr>active := 1\<rparr>
   in gate_step\<^sup>*\<^sup>* g h \<and> active h \<le> ap_maximum (policy (controller_of h))"
proof -
  let ?g = "\<lparr>controller_of = ex_ctrl, active = 0\<rparr>"
  have "gate_acquire ?g = Some (?g\<lparr>active := 1\<rparr>)" by (simp add: gate_acquire_def ex_ctrl_def)
  then have run: "gate_step\<^sup>*\<^sup>* ?g (?g\<lparr>active := 1\<rparr>)" by (intro r_into_rtranclp gate_step.acquire)
  have inv: "controller_inv (controller_of ?g)" "active ?g = 0"
    using new_controller_inv [OF ex_ctrl_ok] by auto
  from gate_limits_active [OF inv run] run show ?thesis by (simp add: Let_def)
qed

end
