(* ===== verification/Durable_Worker.thy ===== *)
theory Durable_Worker
  imports Redis_Claims Adaptive_Concurrency
begin

section \<open>Workers, pool and service (execution/worker.py, pool.py, service.py)\<close>

text \<open>
  \<open>DurableWorker.run_once\<close> over any job store: the store is the record of the methods the
  worker calls, and the interface \<open>worker_store\<close> states what the worker relies on. The tasks
  that a run waits for (the handler, the lease heartbeat, the capacity heartbeat) and everything
  that happens meanwhile are a script of events; the body of the run is a function of the
  script. A script that ends before the run does gives \<open>None\<close>. The in-memory store and the
  Redis store are instances.
\<close>

subsection \<open>The store as the worker sees it\<close>

record ('s, 'p, 'r) store_ops =
  op_claim :: "string \<Rightarrow> seconds \<Rightarrow> string list option \<Rightarrow> string \<Rightarrow> seconds
    \<Rightarrow> ('s, ('p, 'r) execution_job option) op"
  op_heartbeat :: "string \<Rightarrow> string \<Rightarrow> string \<Rightarrow> seconds \<Rightarrow> seconds \<Rightarrow> ('s, ('p, 'r) execution_job) op"
  op_release :: "string \<Rightarrow> string \<Rightarrow> string \<Rightarrow> seconds \<Rightarrow> seconds \<Rightarrow> ('s, ('p, 'r) execution_job) op"
  op_succeed :: "string \<Rightarrow> string \<Rightarrow> string \<Rightarrow> 'r option \<Rightarrow> seconds \<Rightarrow> ('s, ('p, 'r) execution_job) op"
  op_fail :: "string \<Rightarrow> string \<Rightarrow> string \<Rightarrow> string \<Rightarrow> seconds \<Rightarrow> ('s, ('p, 'r) execution_job) op"

definition mem_ops :: "(('p, 'r) mem_store, 'p, 'r) store_ops" where
  "mem_ops = \<lparr>op_claim = mem_claim, op_heartbeat = mem_heartbeat,
     op_release = mem_release_unstarted_claim, op_succeed = mem_succeed, op_fail = mem_fail\<rparr>"

text \<open>The Redis store used by one client at a time.\<close>

definition redis_ops :: "(('p, 'r) redis_store, 'p, 'r) store_ops" where
  "redis_ops =
     \<lparr>op_claim = (\<lambda>w ls ds u now. redis_claim w ls ds (\<lambda>_ _ _. quiet now u) (\<lambda>_. quiet now u)),
      op_heartbeat = (\<lambda>jid w tok ls now. redis_heartbeat jid w tok ls (\<lambda>_. quiet now ''u'')),
      op_release = (\<lambda>jid w tok d now. redis_release_unstarted_claim jid w tok d (\<lambda>_. quiet now ''u'')),
      op_succeed = (\<lambda>jid w tok res now. redis_succeed jid w tok res (\<lambda>_. quiet now ''u'')),
      op_fail = (\<lambda>jid w tok err now. redis_fail jid w tok err (\<lambda>_. quiet now ''u''))\<rparr>"

subsection \<open>The worker\<close>

record worker =
  w_name :: string
  w_handlers :: "string list"
  w_lease :: seconds
  w_heartbeat_interval :: seconds
  w_requeue_delay :: seconds
  w_unfiltered :: bool

definition default_interval :: "seconds \<Rightarrow> seconds" where
  "default_interval ls = max (min (ls / 3) (ls - 1 / 1000)) (1 / 1000)"

definition new_worker ::
    "string \<Rightarrow> string list \<Rightarrow> seconds \<Rightarrow> seconds option \<Rightarrow> seconds \<Rightarrow> seconds \<Rightarrow> bool \<Rightarrow> exc + worker" where
  "new_worker name handlers ls hb cap_hb delay unfiltered =
     (if blank name then Inl (ValueError ''worker_id cannot be empty'')
      else if handlers = [] then Inl (ValueError ''at least one domain handler is required'')
      else if ls \<le> 0 then Inl (ValueError ''lease_seconds must be positive'')
      else if cap_hb \<le> 0 then Inl (ValueError ''capacity heartbeat interval must be positive'')
      else if delay < 0 then Inl (ValueError ''capacity requeue delay cannot be negative'')
      else
        let interval = (case hb of None \<Rightarrow> default_interval ls | Some i \<Rightarrow> i)
        in if interval \<le> 0 \<or> ls \<le> interval
           then Inl (ValueError ''heartbeat interval must be positive and smaller than lease_seconds'')
           else Inr \<lparr>w_name = name, w_handlers = handlers, w_lease = ls,
                     w_heartbeat_interval = interval, w_requeue_delay = delay,
                     w_unfiltered = unfiltered\<rparr>)"

text \<open>\<open>type(exc).__name__\<close> of the exceptions the components raise.\<close>

fun exc_name :: "exc \<Rightarrow> string" where
  "exc_name (ValueError _) = ''ValueError''"
| "exc_name (RuntimeError _) = ''RuntimeError''"
| "exc_name OverflowError = ''OverflowError''"
| "exc_name (KeyError _) = ''KeyError''"
| "exc_name (JobNotFoundError _) = ''JobNotFoundError''"
| "exc_name (JobLeaseLostError _) = ''JobLeaseLostError''"
| "exc_name (IdempotencyConflictError _) = ''IdempotencyConflictError''"
| "exc_name (DomainCapacitySaturatedError _) = ''DomainCapacitySaturatedError''"
| "exc_name DomainCapacityLeaseLostError = ''DomainCapacityLeaseLostError''"
| "exc_name (OtherException n) = n"

fun lease_lost :: "exc \<Rightarrow> bool" where
  "lease_lost (JobLeaseLostError _) = True"
| "lease_lost DomainCapacityLeaseLostError = True"
| "lease_lost _ = False"

text \<open>What can happen while a run waits: other clients change the store, a heartbeat is due at a
  clock reading, the capacity heartbeat fails, the handler returns or raises (its result is
  written at the given clock reading), the worker's own task is cancelled.\<close>

datatype ('s, 'r) wevent =
    Others "'s \<Rightarrow> 's"
  | Beat seconds
  | Capacity_Lost exc
  | Returned "'r option" seconds
  | Raised exc seconds
  | Cancelled

datatype 'a outcome = Result "exc + 'a" | CancelledError

text \<open>The exception clauses of the body: lost leases propagate, any other error fails the job.\<close>

definition worker_except ::
    "('s, 'p, 'r) store_ops \<Rightarrow> worker \<Rightarrow> string \<Rightarrow> string \<Rightarrow> exc \<Rightarrow> seconds \<Rightarrow> 's
      \<Rightarrow> (exc + ('p, 'r) execution_job) \<times> 's" where
  "worker_except ops w jid tok e now s =
     (if lease_lost e then (Inl e, s) else op_fail ops jid (w_name w) tok (exc_name e) now s)"

text \<open>
  What happens while a run winds down: the exception the handler raises when it is cancelled (other
  than its cancellation), and the exception with which the heartbeat or the capacity heartbeat has
  ended by the time the \<open>finally\<close> clause awaits it, when that is not what ended the run.
\<close>

record wind_down =
  cancel_raises :: "exc option"
  task_error :: "exc option"

definition raised_or :: "exc option \<Rightarrow> exc \<Rightarrow> exc" where
  "raised_or x e = (case x of None \<Rightarrow> e | Some y \<Rightarrow> y)"

text \<open>The \<open>finally\<close> clause awaits the two tasks; only a cancellation of them is suppressed, and an
  exception that it raises replaces the outcome.\<close>

definition worker_finally :: "exc option \<Rightarrow> 'a outcome \<Rightarrow> 'a outcome" where
  "worker_finally x out = (case x of None \<Rightarrow> out | Some e \<Rightarrow> Result (Inl e))"

lemma worker_finally_Inr [simp]: "worker_finally x out = Result (Inr j) \<longleftrightarrow> x = None \<and> out = Result (Inr j)"
  by (simp add: worker_finally_def split: option.split)

lemma worker_finally_Cancelled [simp]: "worker_finally x out = CancelledError \<longleftrightarrow> x = None \<and> out = CancelledError"
  by (simp add: worker_finally_def split: option.split)

text \<open>A heartbeat that fails is awaited once more by the \<open>finally\<close> clause, so its exception ends the
  run also when it was no loss of the lease and the job has just been failed for it.\<close>

fun worker_body ::
    "('s, 'p, 'r) store_ops \<Rightarrow> worker \<Rightarrow> wind_down \<Rightarrow> string \<Rightarrow> string \<Rightarrow> ('s, 'r) wevent list \<Rightarrow> seconds \<Rightarrow> 's
      \<Rightarrow> (('p, 'r) execution_job outcome \<times> 's) option" where
  "worker_body ops w wd jid tok [] end_now s = None"
| "worker_body ops w wd jid tok (Others f # es) end_now s = worker_body ops w wd jid tok es end_now (f s)"
| "worker_body ops w wd jid tok (Beat now # es) end_now s =
     (case op_heartbeat ops jid (w_name w) tok (w_lease w) now s of
        (Inr _, t) \<Rightarrow> worker_body ops w wd jid tok es end_now t
      | (Inl e, t) \<Rightarrow>
          (case worker_except ops w jid tok (raised_or (cancel_raises wd) e) end_now t of
             (r, u) \<Rightarrow> Some (worker_finally (Some e) (Result r), u)))"
| "worker_body ops w wd jid tok (Capacity_Lost e # es) end_now s =
     (case worker_except ops w jid tok (raised_or (cancel_raises wd) e) end_now s of
        (r, u) \<Rightarrow> Some (worker_finally (Some (raised_or (task_error wd) e)) (Result r), u))"
| "worker_body ops w wd jid tok (Returned res now # es) end_now s =
     (case op_succeed ops jid (w_name w) tok res now s of
        (Inr j, t) \<Rightarrow> Some (worker_finally (task_error wd) (Result (Inr j)), t)
      | (Inl e, t) \<Rightarrow>
          (case worker_except ops w jid tok e end_now t of
             (r, u) \<Rightarrow> Some (worker_finally (task_error wd) (Result r), u)))"
| "worker_body ops w wd jid tok (Raised e now # es) end_now s =
     (case worker_except ops w jid tok e now s of
        (r, u) \<Rightarrow> Some (worker_finally (task_error wd) (Result r), u))"
| "worker_body ops w wd jid tok (Cancelled # es) end_now s =
     Some (worker_finally (task_error wd)
       (case cancel_raises wd of None \<Rightarrow> CancelledError | Some e \<Rightarrow> Result (Inl e)), s)"

text \<open>
  \<open>run_once\<close>: \<open>cap\<close> is the capacity controller's answer when one is configured (the store
  may have changed while waiting for it, \<open>cap_env\<close>).
\<close>

definition run_once ::
    "('s, 'p, 'r) store_ops \<Rightarrow> worker \<Rightarrow> wind_down \<Rightarrow> string \<Rightarrow> seconds \<Rightarrow> ('s \<Rightarrow> 's)
      \<Rightarrow> (exc + unit) option \<Rightarrow> seconds \<Rightarrow> ('s, 'r) wevent list \<Rightarrow> seconds \<Rightarrow> 's
      \<Rightarrow> (('p, 'r) execution_job option outcome \<times> 's) option" where
  "run_once ops w wd uuid now cap_env cap rel_now es end_now s =
     (case op_claim ops (w_name w) (w_lease w)
             (if w_unfiltered w then None else Some (w_handlers w)) uuid now s of
        (Inl e, t) \<Rightarrow> Some (Result (Inl e), t)
      | (Inr None, t) \<Rightarrow> Some (Result (Inr None), t)
      | (Inr (Some j), t) \<Rightarrow>
          if domain (spec j) \<notin> set (w_handlers w)
          then Some (Result (Inl (RuntimeError
                 (''unfiltered durable worker claimed unsupported domain: '' @ domain (spec j)))), t)
          else case lease_token j of
            None \<Rightarrow> Some (Result (Inl (JobLeaseLostError (''claimed job has no lease token: '' @ job_id j))), t)
          | Some tok \<Rightarrow>
              (let body = (\<lambda>u. map_option (\<lambda>(r, v). ((case r of CancelledError \<Rightarrow> CancelledError
                     | Result (Inl e) \<Rightarrow> Result (Inl e) | Result (Inr j') \<Rightarrow> Result (Inr (Some j'))), v))
                     (worker_body ops w wd (job_id j) tok es end_now u))
               in case cap of
                    None \<Rightarrow> body t
                  | Some (Inr _) \<Rightarrow> body (cap_env t)
                  | Some (Inl (DomainCapacitySaturatedError m)) \<Rightarrow>
                      (case op_release ops (job_id j) (w_name w) tok (w_requeue_delay w) rel_now (cap_env t) of
                         (Inl e, v) \<Rightarrow> Some (Result (Inl e), v)
                       | (Inr j', v) \<Rightarrow> Some (Result (Inr (Some j')), v))
                  | Some (Inl e) \<Rightarrow> Some (Result (Inl e), cap_env t)))"

subsection \<open>What the worker relies on\<close>

locale worker_store =
  fixes ops :: "('s, 'p, 'r) store_ops"
    and inv :: "'s \<Rightarrow> bool"
    and job_of :: "'s \<Rightarrow> string \<Rightarrow> ('p, 'r) execution_job option"
  assumes claim_law: "inv s \<Longrightarrow> uuid \<noteq> [] \<Longrightarrow> op_claim ops w ls ds uuid now s = (c, t) \<Longrightarrow>
      inv t \<and> (\<forall>j. c = Inr (Some j) \<longrightarrow> job_of t (job_id j) = Some j \<and> status j = RUNNING \<and>
        lease_token j = Some uuid \<and> domain_allowed ds j)"
    and heartbeat_law: "inv s \<Longrightarrow> 0 < ls \<Longrightarrow> op_heartbeat ops jid w tok ls now s = (r, t) \<Longrightarrow>
      inv t \<and> (\<forall>e. r = Inl e \<longrightarrow> exc_name e \<noteq> [])"
    and release_law: "inv s \<Longrightarrow> 0 \<le> d \<Longrightarrow> op_release ops jid w tok d now s = (r, t) \<Longrightarrow>
      inv t \<and> (\<forall>j. r = Inr j \<longrightarrow> job_of t jid = Some j \<and> job_id j = jid \<and> status j = QUEUED \<and> lease_token j = None)"
    and succeed_law: "inv s \<Longrightarrow> op_succeed ops jid w tok res now s = (r, t) \<Longrightarrow>
      inv t \<and> (\<forall>e. r = Inl e \<longrightarrow> job_of t = job_of s \<and> exc_name e \<noteq> []) \<and>
      (\<forall>j. r = Inr j \<longrightarrow> job_of t jid = Some j \<and> job_id j = jid \<and> lease_token j = None \<and>
        (status j = SUCCEEDED \<and> result j = res \<or> status j = FAILED \<or> status j = CANCELLED))"
    and fail_law: "inv s \<Longrightarrow> err \<noteq> [] \<Longrightarrow> op_fail ops jid w tok err now s = (r, t) \<Longrightarrow>
      inv t \<and> (\<forall>e. r = Inl e \<longrightarrow> job_of t = job_of s) \<and>
      (\<forall>j. r = Inr j \<longrightarrow> job_of t jid = Some j \<and> job_id j = jid \<and> lease_token j = None \<and>
        (status j = RETRY_WAIT \<or> status j = FAILED \<or> status j = CANCELLED))"
begin

definition settled :: "('s, 'r) wevent list \<Rightarrow> 's \<Rightarrow> ('p, 'r) execution_job \<Rightarrow> bool" where
  "settled es t j \<longleftrightarrow> job_of t (job_id j) = Some j \<and> lease_token j = None \<and> status j \<noteq> RUNNING \<and>
     (status j = SUCCEEDED \<longrightarrow> (\<exists>now. Returned (result j) now \<in> set es))"

definition script_ok :: "('s, 'r) wevent list \<Rightarrow> bool" where
  "script_ok es \<longleftrightarrow> (\<forall>f s. Others f \<in> set es \<longrightarrow> inv s \<longrightarrow> inv (f s)) \<and>
     (\<forall>e. Capacity_Lost e \<in> set es \<longrightarrow> exc_name e \<noteq> []) \<and>
     (\<forall>e now. Raised e now \<in> set es \<longrightarrow> exc_name e \<noteq> [])"

lemma worker_except_settled:
  assumes "inv s" and "exc_name e \<noteq> []" and "worker_except ops w jid tok e now s = (r, t)"
  shows "inv t \<and> (\<forall>j. r = Inr j \<longrightarrow> settled es t j \<and> job_id j = jid) \<and> (\<forall>e'. r = Inl e' \<longrightarrow> job_of t = job_of s)"
  using assms fail_law [OF assms(1,2), of jid "w_name w" tok now r t]
  by (auto simp: worker_except_def settled_def split: if_splits)

lemma script_ok_Cons:
  "script_ok (e # es) \<Longrightarrow> script_ok es"
  by (auto simp: script_ok_def)

lemma settled_Cons: "settled es t j \<Longrightarrow> settled (e # es) t j"
  by (auto simp: settled_def)

lemma worker_body_settled:
  assumes "inv s" and "0 < w_lease w" and "script_ok es" and wd: "\<And>y. cancel_raises wd = Some y \<Longrightarrow> exc_name y \<noteq> []"
    and "worker_body ops w wd jid tok es end_now s = Some (out, t)"
  shows "inv t \<and> (\<forall>j. out = Result (Inr j) \<longrightarrow> settled es t j \<and> job_id j = jid) \<and>
    (out = CancelledError \<longrightarrow> Cancelled \<in> set es)"
  using assms(1-3,5)
proof (induction es arbitrary: s)
  case Nil
  then show ?case by simp
next
  case (Cons e es)
  note ok = script_ok_Cons [OF Cons.prems(3)]
  have rest: ?case if "inv u" "worker_body ops w wd jid tok es end_now u = Some (out, t)" for u
    using Cons.IH [OF that(1) Cons.prems(2) ok that(2)] settled_Cons by auto
  have raised: ?case
    if "inv u" "exc_name x \<noteq> []" "worker_except ops w jid tok x n u = (r, v)" "out = worker_finally y (Result r)" "t = v"
    for u x n r v y
    using worker_except_settled [OF that(1-3), of "e # es"] that(4,5) by auto
  have late: "exc_name (raised_or (cancel_raises wd) x) \<noteq> []" if "exc_name x \<noteq> []" for x
    using wd that by (cases "cancel_raises wd") (simp_all add: raised_or_def)
  show ?case
  proof (cases e)
    case (Others f)
    have "inv (f s)" using Cons.prems(1,3) Others by (simp add: script_ok_def)
    with rest Cons.prems(4) Others show ?thesis by simp
  next
    case (Beat now)
    obtain r u where h: "op_heartbeat ops jid (w_name w) tok (w_lease w) now s = (r, u)" by fastforce
    note law = heartbeat_law [OF Cons.prems(1,2) h]
    show ?thesis
    proof (cases r)
      case (Inr j)
      with h Beat Cons.prems(4) law rest show ?thesis by simp
    next
      case (Inl x)
      let ?x = "raised_or (cancel_raises wd) x"
      obtain r' v where x: "worker_except ops w jid tok ?x end_now u = (r', v)" by fastforce
      have "out = worker_finally (Some x) (Result r')" "t = v" using Inl h x Beat Cons.prems(4) by simp_all
      with Inl law x late [of x] show ?thesis by (intro raised [of u ?x end_now r' v]) auto
    qed
  next
    case (Capacity_Lost x)
    then have "exc_name x \<noteq> []" using Cons.prems(3) by (auto simp: script_ok_def)
    moreover obtain r' v where x: "worker_except ops w jid tok (raised_or (cancel_raises wd) x) end_now s = (r', v)" by fastforce
    moreover have "out = worker_finally (Some (raised_or (task_error wd) x)) (Result r')" "t = v"
      using x Capacity_Lost Cons.prems(4) by simp_all
    ultimately show ?thesis
      using Cons.prems(1) late [of x] by (intro raised [of s "raised_or (cancel_raises wd) x" end_now r' v]) auto
  next
    case (Returned res now)
    obtain r u where h: "op_succeed ops jid (w_name w) tok res now s = (r, u)" by fastforce
    note law = succeed_law [OF Cons.prems(1) h]
    show ?thesis
    proof (cases r)
      case (Inr j)
      with h Returned Cons.prems(4) have "out = worker_finally (task_error wd) (Result (Inr j))" "t = u" by auto
      with law Inr Returned show ?thesis by (auto simp: settled_def)
    next
      case (Inl x)
      obtain r' v where x: "worker_except ops w jid tok x end_now u = (r', v)" by fastforce
      have "out = worker_finally (task_error wd) (Result r')" "t = v" using Inl h x Returned Cons.prems(4) by simp_all
      with Inl law x show ?thesis by (intro raised [of u x end_now r' v]) auto
    qed
  next
    case (Raised x now)
    then have "exc_name x \<noteq> []" using Cons.prems(3) by (auto simp: script_ok_def)
    moreover obtain r' v where x: "worker_except ops w jid tok x now s = (r', v)" by fastforce
    moreover have "out = worker_finally (task_error wd) (Result r')" "t = v" using x Raised Cons.prems(4) by simp_all
    ultimately show ?thesis using Cons.prems(1) by (intro raised [of s x now r' v]) auto
  next
    case Cancelled
    with Cons.prems(1,4) show ?thesis by (auto split: option.splits)
  qed
qed

lemma run_once_settled:
  assumes "inv s" and "uuid \<noteq> []" and "0 < w_lease w" and "0 \<le> w_requeue_delay w" and "script_ok es"
    and wd: "\<And>y. cancel_raises wd = Some y \<Longrightarrow> exc_name y \<noteq> []"
    and "\<And>s. inv s \<Longrightarrow> inv (cap_env s)"
    and run: "run_once ops w wd uuid now cap_env cap rel_now es end_now s = Some (out, t)"
  shows "inv t \<and> (\<forall>j. out = Result (Inr (Some j)) \<longrightarrow> settled es t j)"
proof -
  obtain c u where c: "op_claim ops (w_name w) (w_lease w) (if w_unfiltered w then None else Some (w_handlers w)) uuid now s = (c, u)"
    by fastforce
  note law = claim_law [OF assms(1,2) c]
  show ?thesis
  proof (cases "\<exists>j. c = Inr (Some j) \<and> domain (spec j) \<in> set (w_handlers w)")
    case False
    with run c law show ?thesis by (auto simp: run_once_def split: sum.splits option.splits)
  next
    case True
    then obtain j where j: "c = Inr (Some j)" "domain (spec j) \<in> set (w_handlers w)" by blast
    have tok: "lease_token j = Some uuid" and u: "inv u" using law j by auto
    have body: "inv t \<and> (\<forall>j. out = Result (Inr (Some j)) \<longrightarrow> settled es t j)"
      if "inv v" "map_option (\<lambda>(r, v). ((case r of CancelledError \<Rightarrow> CancelledError
            | Result (Inl e) \<Rightarrow> Result (Inl e) | Result (Inr j') \<Rightarrow> Result (Inr (Some j'))), v))
          (worker_body ops w wd (job_id j) uuid es end_now v) = Some (out, t)" for v
    proof -
      from that(2) obtain a where a: "worker_body ops w wd (job_id j) uuid es end_now v = Some (a, t)"
        "out = (case a of CancelledError \<Rightarrow> CancelledError | Result (Inl e) \<Rightarrow> Result (Inl e)
           | Result (Inr j') \<Rightarrow> Result (Inr (Some j')))"
        by auto
      note b = worker_body_settled [OF that(1) assms(3,5) wd a(1)]
      have "a = Result (Inr j)" if "out = Result (Inr (Some j))" for j
        using that a(2) by (cases a) (auto split: sum.splits)
      with b show ?thesis by blast
    qed
    show ?thesis
    proof (cases cap)
      case None
      with run c j tok body [OF u] show ?thesis by (simp add: run_once_def)
    next
      case (Some a)
      note env = assms(7) [OF u]
      show ?thesis
      proof (cases "\<exists>m. a = Inl (DomainCapacitySaturatedError m)")
        case True
        then obtain m where m: "a = Inl (DomainCapacitySaturatedError m)" by blast
        obtain r v where r: "op_release ops (job_id j) (w_name w) uuid (w_requeue_delay w) rel_now (cap_env u) = (r, v)"
          by fastforce
        note rel = release_law [OF env assms(4) r]
        show ?thesis
        proof (cases r)
          case (Inl e)
          have "run_once ops w wd uuid now cap_env cap rel_now es end_now s = Some (Result (Inl e), v)"
            using c j tok Some m r Inl by (simp add: run_once_def)
          with run rel show ?thesis by auto
        next
          case (Inr j')
          have "run_once ops w wd uuid now cap_env cap rel_now es end_now s = Some (Result (Inr (Some j')), v)"
            using c j tok Some m r Inr by (simp add: run_once_def)
          then have "out = Result (Inr (Some j'))" "t = v" using run by auto
          with rel Inr show ?thesis by (auto simp: settled_def)
        qed
      next
        case False
        show ?thesis
        proof (cases a)
          case (Inl e)
          have "run_once ops w wd uuid now cap_env cap rel_now es end_now s = Some (Result (Inl e), cap_env u)"
            using c j tok Some Inl False by (cases e) (simp_all add: run_once_def)
          with run env show ?thesis by auto
        next
          case (Inr x)
          with run c j tok Some body [OF env] show ?thesis by (simp add: run_once_def)
        qed
      qed
    qed
  qed
qed

end

subsection \<open>The in-memory store and the Redis store as providers\<close>

lemma lease_cases:
  assumes "mem_inv s"
  obtains (missing) "dict_get (jobs s) jid = None"
    | (lost) j where "dict_get (jobs s) jid = Some j" and "\<not> lease_active j w tok now"
    | (active) j where "dict_get (jobs s) jid = Some j" and "job_id j = jid" and "job_ok j"
        and "lease_active j w tok now" and "status j = RUNNING"
proof (cases "dict_get (jobs s) jid")
  case None
  then show ?thesis using missing by blast
next
  case (Some j)
  show ?thesis
  proof (cases "lease_active j w tok now")
    case True
    then have "status j = RUNNING" by (simp add: lease_active_iff)
    with True mem_inv_job [OF assms Some] Some show ?thesis using active by blast
  next
    case False
    with Some show ?thesis using lost by blast
  qed
qed

lemmas run_lease = with_lease_def mem_lookup_def

lemma get_put_job [simp]: "job_id j = k \<Longrightarrow> dict_get (jobs (put_job j s)) k = Some j"
  by (simp add: put_job_def dict_simps)

lemma mem_claim_law:
  assumes "mem_inv s" and "mem_claim w ls ds uuid now s = (c, t)"
  shows "mem_inv t \<and> (\<forall>j. c = Inr (Some j) \<longrightarrow> dict_get (jobs t) (job_id j) = Some j \<and>
    status j = RUNNING \<and> lease_token j = Some uuid \<and> domain_allowed ds j)"
proof (cases "blank w \<or> ls \<le> 0")
  case True
  with assms show ?thesis by (auto simp: mem_claim_def split: if_splits)
next
  case False
  have "mem_inv t" using claim_inv [OF assms(1), of w ls ds uuid now] assms(2) by simp
  moreover from False have "\<not> blank w" "0 < ls" by auto
  with assms(1) have "\<forall>j. c = Inr (Some j) \<longrightarrow> dict_get (jobs t) (job_id j) = Some j \<and>
      status j = RUNNING \<and> lease_token j = Some uuid \<and> domain_allowed ds j"
  proof (cases rule: claim_cases [where ds = ds and uuid = uuid and now = now])
    case none
    then have "c = Inr None" using assms(2) by auto
    then show ?thesis by simp
  next
    case (some i)
    with assms(2) have "c = Inr (Some (start_lease w uuid now ls i))"
      "t = put_job (start_lease w uuid now ls i) (expire_all now s)" by auto
    with some(2) show ?thesis by (auto simp: claimable_def domain_allowed_def split: option.splits)
  qed
  ultimately show ?thesis by blast
qed

definition finished :: "job_status set \<Rightarrow> 'r option \<Rightarrow> string \<Rightarrow> ('p, 'r) execution_job \<Rightarrow> bool" where
  "finished S res jid j \<longleftrightarrow> job_id j = jid \<and> lease_token j = None \<and> status j \<in> S \<and>
     (status j = SUCCEEDED \<longrightarrow> result j = res)"

lemma mem_succeed_law:
  assumes "mem_inv s" and "mem_succeed jid w tok res now s = (r, t)"
  shows "(\<forall>e. r = Inl e \<longrightarrow> t = s \<and> exc_name e \<noteq> []) \<and>
    (\<forall>j. r = Inr j \<longrightarrow> dict_get (jobs t) jid = Some j \<and> finished {SUCCEEDED, FAILED, CANCELLED} res jid j)"
  using assms(1)
proof (cases rule: lease_cases [where jid = jid and w = w and tok = tok and now = now])
  case (active j)
  with assms(2) show ?thesis
    by (auto simp: mem_succeed_def run_lease finished_def clear_lease_def expire_deadline_def split: if_splits)
qed (use assms(2) in \<open>auto simp: mem_succeed_def run_lease\<close>)

lemma mem_fail_law:
  assumes "mem_inv s" and "mem_fail jid w tok err now s = (r, t)"
  shows "(\<forall>e. r = Inl e \<longrightarrow> t = s) \<and>
    (\<forall>j. r = Inr j \<longrightarrow> dict_get (jobs t) jid = Some j \<and> finished {RETRY_WAIT, FAILED, CANCELLED} res jid j)"
  using assms(1)
proof (cases rule: lease_cases [where jid = jid and w = w and tok = tok and now = now])
  case (active j)
  then obtain d where "delay_after_attempt (retry (spec j)) (attempt j) = Inr d" using delay_defined by blast
  with active assms(2) show ?thesis
    by (auto simp: mem_fail_def run_lease finished_def clear_lease_def split: if_splits)
qed (use assms(2) in \<open>auto simp: mem_fail_def run_lease\<close>)

lemma mem_release_law:
  assumes "mem_inv s" and "0 \<le> d" and "mem_release_unstarted_claim jid w tok d now s = (r, t)"
  shows "\<forall>j. r = Inr j \<longrightarrow> dict_get (jobs t) jid = Some j \<and> job_id j = jid \<and> status j = QUEUED \<and> lease_token j = None"
  using assms(1)
proof (cases rule: lease_cases [where jid = jid and w = w and tok = tok and now = now])
  case (active j)
  with assms(2,3) show ?thesis by (auto simp: mem_release_unstarted_claim_def run_lease clear_lease_def)
qed (use assms(2,3) in \<open>auto simp: mem_release_unstarted_claim_def run_lease\<close>)

lemma mem_heartbeat_law:
  assumes "mem_inv s" and "0 < ls" and "mem_heartbeat jid w tok ls now s = (r, t)"
  shows "\<forall>e. r = Inl e \<longrightarrow> exc_name e \<noteq> []"
  using assms(1)
proof (cases rule: lease_cases [where jid = jid and w = w and tok = tok and now = now])
  case (active j)
  with assms(2,3) show ?thesis by (auto simp: mem_heartbeat_def run_lease split: if_splits)
qed (use assms(2,3) in \<open>auto simp: mem_heartbeat_def run_lease\<close>)

lemma mem_call_inv: "mem_inv s \<Longrightarrow> mem_call jid w tok c now s = (r, t) \<Longrightarrow> mem_inv t"
  by (metis mem_call_step mem_step_inv snd_conv)

interpretation mem_worker: worker_store mem_ops mem_inv mem_job
proof
  fix s t :: "('a, 'b) mem_store" and uuid w ls ds now c jid tok res r d err
  assume inv: "mem_inv s"
  show "mem_inv t \<and> (\<forall>j. c = Inr (Some j) \<longrightarrow> mem_job t (job_id j) = Some j \<and> status j = RUNNING \<and>
        lease_token j = Some uuid \<and> domain_allowed ds j)"
    if "op_claim mem_ops w ls ds uuid now s = (c, t)"
    using that mem_claim_law [OF inv] by (auto simp: mem_ops_def)
  show "mem_inv t \<and> (\<forall>e. r = Inl e \<longrightarrow> exc_name e \<noteq> [])"
    if "0 < ls" "op_heartbeat mem_ops jid w tok ls now s = (r, t)"
    using that mem_heartbeat_law [OF inv] mem_call_inv [OF inv, of jid w tok "Heartbeat ls" now r t]
    by (simp add: mem_ops_def)
  show "mem_inv t \<and> (\<forall>j. r = Inr j \<longrightarrow> mem_job t jid = Some j \<and> job_id j = jid \<and> status j = QUEUED \<and> lease_token j = None)"
    if "0 \<le> d" "op_release mem_ops jid w tok d now s = (r, t)"
    using that mem_release_law [OF inv] mem_call_inv [OF inv, of jid w tok "Release d" now r t]
    by (simp add: mem_ops_def)
  show "mem_inv t \<and> (\<forall>e. r = Inl e \<longrightarrow> mem_job t = mem_job s \<and> exc_name e \<noteq> []) \<and>
      (\<forall>j. r = Inr j \<longrightarrow> mem_job t jid = Some j \<and> job_id j = jid \<and> lease_token j = None \<and>
        (status j = SUCCEEDED \<and> result j = res \<or> status j = FAILED \<or> status j = CANCELLED))"
    if "op_succeed mem_ops jid w tok res now s = (r, t)"
    using mem_succeed_law [OF inv, of jid w tok res now r t] that mem_call_inv [OF inv, of jid w tok "Succeed res" now r t]
    by (auto simp: mem_ops_def finished_def)
  show "mem_inv t \<and> (\<forall>e. r = Inl e \<longrightarrow> mem_job t = mem_job s) \<and>
      (\<forall>j. r = Inr j \<longrightarrow> mem_job t jid = Some j \<and> job_id j = jid \<and> lease_token j = None \<and>
        (status j = RETRY_WAIT \<or> status j = FAILED \<or> status j = CANCELLED))"
    if "err \<noteq> []" "op_fail mem_ops jid w tok err now s = (r, t)"
    using mem_fail_law [OF inv, of jid w tok err now r t] that mem_call_inv [OF inv, of jid w tok "Fail err" now r t]
    by (auto simp: mem_ops_def finished_def)
qed

lemma redis_call_quiet:
  assumes "redis_inv s" and "call_ok c" and "redis_call jid w tok c (\<lambda>_. quiet now ''u'') s = (r, t)"
  shows "redis_inv t \<and> mem_call jid w tok c now (abs_store s) = (r, abs_store t)"
  using redis_call_linear [OF assms(1) _ assms(2,3)] env_ok_quiet [of "''u''" now]
  by (auto simp: seen_quiet simp del: upt_Suc)

lemma redis_claim_law:
  assumes inv: "redis_inv s" and tok: "u \<noteq> []"
    and run: "redis_claim w ls ds (\<lambda>_ _ _. quiet now u) (\<lambda>_. quiet now u) s = (c, t)"
  shows "redis_inv t \<and> (\<forall>j. c = Inr (Some j) \<longrightarrow> redis_job t (job_id j) = Some j \<and>
    status j = RUNNING \<and> lease_token j = Some u \<and> domain_allowed ds j)"
proof (cases "blank w \<or> ls \<le> 0")
  case True
  with inv run show ?thesis by (auto simp: redis_claim_def split: if_splits)
next
  case False
  then have args: "\<not> blank w" "0 < ls" by auto
  from inv args tok show ?thesis
  proof (cases rule: redis_claim_cases [where ds = ds and now = now])
    case (none t')
    then have "c = Inr None" "t = t'" using run by auto
    with none show ?thesis by simp
  next
    case (some t' i)
    then have "c = Inr (Some (start_lease w u now ls i))" "t = t'" using run by auto
    with some(2,3,5) show ?thesis by (auto simp: claimable_def domain_allowed_def split: option.splits)
  qed
qed

interpretation redis_worker: worker_store redis_ops redis_inv redis_job
proof
  fix s t :: "('a, 'b) redis_store" and uuid w ls ds now c jid tok res r d err
  assume inv: "redis_inv s"
  note mem = redis_inv_mem [OF inv]
  show "redis_inv t \<and> (\<forall>j. c = Inr (Some j) \<longrightarrow> redis_job t (job_id j) = Some j \<and> status j = RUNNING \<and>
        lease_token j = Some uuid \<and> domain_allowed ds j)"
    if "uuid \<noteq> []" "op_claim redis_ops w ls ds uuid now s = (c, t)"
    using that redis_claim_law [OF inv that(1)] by (simp add: redis_ops_def)
  show "redis_inv t \<and> (\<forall>e. r = Inl e \<longrightarrow> exc_name e \<noteq> [])"
    if "0 < ls" "op_heartbeat redis_ops jid w tok ls now s = (r, t)"
    using that redis_call_quiet [OF inv, of "Heartbeat ls" jid w tok now r t]
      mem_heartbeat_law [OF mem, of ls jid w tok now r "abs_store t"]
    by (simp add: redis_ops_def)
  show "redis_inv t \<and> (\<forall>j. r = Inr j \<longrightarrow> redis_job t jid = Some j \<and> job_id j = jid \<and> status j = QUEUED \<and> lease_token j = None)"
    if "0 \<le> d" "op_release redis_ops jid w tok d now s = (r, t)"
    using that redis_call_quiet [OF inv, of "Release d" jid w tok now r t]
      mem_release_law [OF mem, of d jid w tok now r "abs_store t"]
    by (simp add: redis_ops_def)
  show "redis_inv t \<and> (\<forall>e. r = Inl e \<longrightarrow> redis_job t = redis_job s \<and> exc_name e \<noteq> []) \<and>
      (\<forall>j. r = Inr j \<longrightarrow> redis_job t jid = Some j \<and> job_id j = jid \<and> lease_token j = None \<and>
        (status j = SUCCEEDED \<and> result j = res \<or> status j = FAILED \<or> status j = CANCELLED))"
    if "op_succeed redis_ops jid w tok res now s = (r, t)"
    using that redis_call_quiet [OF inv, of "Succeed res" jid w tok now r t]
      mem_succeed_law [OF mem, of jid w tok res now r "abs_store t"]
    by (auto simp: redis_ops_def finished_def)
  show "redis_inv t \<and> (\<forall>e. r = Inl e \<longrightarrow> redis_job t = redis_job s) \<and>
      (\<forall>j. r = Inr j \<longrightarrow> redis_job t jid = Some j \<and> job_id j = jid \<and> lease_token j = None \<and>
        (status j = RETRY_WAIT \<or> status j = FAILED \<or> status j = CANCELLED))"
    if "err \<noteq> []" "op_fail redis_ops jid w tok err now s = (r, t)"
    using that redis_call_quiet [OF inv, of "Fail err" jid w tok now r t]
      mem_fail_law [OF mem, of jid w tok err now r "abs_store t"]
    by (auto simp: redis_ops_def finished_def)
qed

end
