(* ===== verification/Worker_Pool.thy ===== *)
theory Worker_Pool
  imports Durable_Worker
begin

section \<open>Properties of workers; the pool, the service and its HTTP surface\<close>

text \<open>
  What a run of a worker leaves behind, the worker pool with its adaptive gate and its start and
  stop protocol (execution/pool.py), the service facade (execution/service.py) and the handlers
  of the internal HTTP router (execution/http.py) over the in-memory store.
\<close>

subsection \<open>Runs of a worker\<close>

fun ends_run :: "('s, 'r) wevent \<Rightarrow> bool" where
  "ends_run (Others f) = False"
| "ends_run (Beat now) = False"
| "ends_run _ = True"

lemma worker_body_ends: "\<exists>e\<in>set es. ends_run e \<Longrightarrow> worker_body ops w wd jid tok es end_now s \<noteq> None"
proof (induction es arbitrary: s)
  case Nil
  then show ?case by simp
next
  case (Cons e es)
  then show ?case by (cases e) (auto split: prod.split sum.split)
qed

lemma run_once_ends:
  assumes "\<exists>e\<in>set es. ends_run e"
  shows "run_once ops w wd uuid now cap_env cap rel_now es end_now s \<noteq> None"
proof -
  obtain c u where c: "op_claim ops (w_name w) (w_lease w)
      (if w_unfiltered w then None else Some (w_handlers w)) uuid now s = (c, u)"
    by fastforce
  show ?thesis
  proof (cases "\<exists>j tok. c = Inr (Some j) \<and> domain (spec j) \<in> set (w_handlers w) \<and> lease_token j = Some tok")
    case False
    with c show ?thesis by (auto simp: run_once_def split: sum.split option.split)
  next
    case True
    then obtain j tok where j: "c = Inr (Some j)" "domain (spec j) \<in> set (w_handlers w)" "lease_token j = Some tok"
      by blast
    have body: "worker_body ops w wd (job_id j) tok es end_now v \<noteq> None" for v
      using assms by (rule worker_body_ends)
    obtain r v where r: "op_release ops (job_id j) (w_name w) tok (w_requeue_delay w) rel_now (cap_env u) = (r, v)"
      by fastforce
    consider "cap = None" | x where "cap = Some (Inr x)" | e where "cap = Some (Inl e)"
      by (metis not_None_eq sum.exhaust)
    then show ?thesis
    proof cases
      case 1
      with c j body [of u] show ?thesis by (simp add: run_once_def)
    next
      case (2 x)
      with c j body [of "cap_env u"] show ?thesis by (simp add: run_once_def)
    next
      case (3 e)
      with c j r show ?thesis by (cases e; cases r) (simp_all add: run_once_def)
    qed
  qed
qed

text \<open>A run of a worker ends and settles what it claimed: whatever other clients do to the store
  between its calls (keeping its invariant; the calls themselves are undisturbed), once the handler finishes, a lease is lost or the worker is
  cancelled, \<open>run_once\<close> returns; the store invariant holds; a job that it returns is stored as
  returned, holds no lease and is not running; and it is marked succeeded only with the value
  that the handler returned in this very run.\<close>

theorem worker_settles_job:
  assumes inv: "redis_inv s" and "uuid \<noteq> []" and "0 < w_lease w" and "0 \<le> w_requeue_delay w"
    and others: "\<And>f s. Others f \<in> set es \<Longrightarrow> redis_inv s \<Longrightarrow> redis_inv (f s)"
    and names: "\<And>e. Capacity_Lost e \<in> set es \<Longrightarrow> exc_name e \<noteq> []"
      "\<And>e t. Raised e t \<in> set es \<Longrightarrow> exc_name e \<noteq> []" "\<And>e. cancel_raises wd = Some e \<Longrightarrow> exc_name e \<noteq> []"
    and env: "\<And>s. redis_inv s \<Longrightarrow> redis_inv (cap_env s)"
    and ends: "\<exists>e\<in>set es. ends_run e"
  shows "\<exists>out t. run_once redis_ops w wd uuid now cap_env cap rel_now es end_now s = Some (out, t) \<and>
    redis_inv t \<and> (\<forall>j. out = Result (Inr (Some j)) \<longrightarrow>
      redis_job t (job_id j) = Some j \<and> lease_token j = None \<and> status j \<noteq> RUNNING \<and>
      (status j = SUCCEEDED \<longrightarrow> (\<exists>now. Returned (result j) now \<in> set es)))"
proof -
  obtain out t where run: "run_once redis_ops w wd uuid now cap_env cap rel_now es end_now s = Some (out, t)"
    using run_once_ends [OF ends, of redis_ops w wd uuid now cap_env cap rel_now end_now s] by auto
  have "redis_worker.script_ok es" using others names by (auto simp: redis_worker.script_ok_def)
  from redis_worker.run_once_settled [OF inv assms(2-4) this names(3) env run] run show ?thesis
    by (auto simp: redis_worker.settled_def)
qed

definition ex_worker :: worker where
  "ex_worker = \<lparr>w_name = ''w1'', w_handlers = [''cgt''], w_lease = 30, w_heartbeat_interval = 10,
     w_requeue_delay = 1 / 20, w_unfiltered = False\<rparr>"

definition ex_wind :: wind_down where
  "ex_wind = \<lparr>cancel_raises = None, task_error = None\<rparr>"

theorem worker_settles_job_witness:
  "\<exists>out t. run_once redis_ops ex_worker ex_wind ''t1'' 1 (\<lambda>s. s) None 1 [Beat 2, Returned (Some ()) 3] 3 ex_redis = Some (out, t) \<and>
    redis_inv t"
proof -
  have "\<exists>e\<in>set [Beat 2, Returned (Some ()) 3 :: ((unit, unit) redis_store, unit) wevent]. ends_run e" by simp
  from worker_settles_job [OF ex_redis_inv(1) _ _ _ _ _ _ _ _ this, of "''t1''" ex_worker ex_wind "\<lambda>s. s" 1 None 1 3]
  show ?thesis by (auto simp: ex_worker_def ex_wind_def)
qed

text \<open>A heartbeat that fails decides how the run ends: with its exception, whatever it is. When it is no
  loss of the lease, the job has just been failed in the store, but nobody gets to see it.\<close>

theorem heartbeat_error_ends_run:
  assumes "op_heartbeat ops jid (w_name w) tok (w_lease w) now s = (Inl e, t)" and "\<not> lease_lost e"
    and "cancel_raises wd = None"
  shows "worker_body ops w wd jid tok (Beat now # es) end_now s =
    Some (Result (Inl e), snd (op_fail ops jid (w_name w) tok (exc_name e) end_now t))"
  using assms by (simp add: worker_except_def raised_or_def worker_finally_def split: prod.split)

text \<open>A claim refused for capacity costs no attempt: when the controller reports saturation while
  the lease is still active, the run returns the job queued again for after the requeue delay,
  with the attempt counter it had before the claim, and the store holds it so.\<close>

theorem saturation_costs_no_attempt:
  assumes inv: "mem_inv s" and delay: "0 \<le> w_requeue_delay w" and lease: "now \<le> rel_now" "rel_now < now + w_lease w"
    and claim: "mem_claim (w_name w) (w_lease w) (if w_unfiltered w then None else Some (w_handlers w)) uuid now s
      = (Inr (Some j), t)"
    and handled: "domain (spec j) \<in> set (w_handlers w)"
  shows "\<exists>i j' u. dict_get (jobs s) (job_id j) = Some i \<and>
    run_once mem_ops w wd uuid now (\<lambda>s. s) (Some (Inl (DomainCapacitySaturatedError m))) rel_now es end_now s =
      Some (Result (Inr (Some j')), u) \<and>
    dict_get (jobs u) (job_id j) = Some j' \<and> status j' = QUEUED \<and> attempt j' = attempt i \<and>
    available_at j' = rel_now + w_requeue_delay w"
proof -
  let ?ds = "if w_unfiltered w then None else Some (w_handlers w)"
  have args: "\<not> blank (w_name w)" "0 < w_lease w"
    using claim by (auto simp: mem_claim_def split: if_splits)
  obtain i where i: "dict_get (jobs s) (job_id j) = Some i" "j = start_lease (w_name w) uuid now (w_lease w) i"
      "dict_get (jobs t) (job_id j) = Some j" "job_ok i"
    using inv args
  proof (cases rule: claim_cases [where ds = ?ds and uuid = uuid and now = now])
    case none
    with claim show ?thesis by simp
  next
    case (some k)
    from some(1) obtain z where z: "dict_get (jobs s) (job_id k) = Some z" "k = snd (expire_deadline z now)"
      by (auto simp: dict_simps)
    with some(2) claimable_expire(2) [of ?ds now z] have kz: "k = z" by simp
    have j: "j = start_lease (w_name w) uuid now (w_lease w) k"
      and t: "t = put_job j (expire_all now s)" using some(4) claim by auto
    have id: "job_id j = job_id k" by (simp add: j)
    have k: "dict_get (jobs s) (job_id j) = Some k" using z(1) by (simp only: id kz)
    show ?thesis
    proof (rule that [OF k j])
      show "dict_get (jobs t) (job_id j) = Some j" unfolding t by (rule get_put_job [OF refl])
      show "job_ok k" using mem_inv_job [OF inv k] by blast
    qed
  qed
  have tok: "lease_token j = Some uuid" and act: "lease_active j (w_name w) uuid rel_now"
    using i(2) lease by (simp_all add: lease_active_iff)
  have "0 \<le> attempt i" using i(4) by (auto simp: job_ok_defs)
  then have att: "max (attempt j - 1) 0 = attempt i" by (simp add: i(2))
  let ?j' = "clear_lease (j\<lparr>status := QUEUED, attempt := max (attempt j - 1) 0,
      available_at := rel_now + w_requeue_delay w, updated_at := rel_now\<rparr>)"
  have "mem_release_unstarted_claim (job_id j) (w_name w) uuid (w_requeue_delay w) rel_now t = (Inr ?j', put_job ?j' t)"
    using delay i(3) act by (simp add: mem_release_unstarted_claim_def run_lease)
  then have "run_once mem_ops w wd uuid now (\<lambda>s. s) (Some (Inl (DomainCapacitySaturatedError m))) rel_now es end_now s =
      Some (Result (Inr (Some ?j')), put_job ?j' t)"
    using claim handled tok by (simp add: run_once_def mem_ops_def)
  moreover have "dict_get (jobs (put_job ?j' t)) (job_id j) = Some ?j'" by (simp add: clear_lease_def)
  moreover have "status ?j' = QUEUED" "attempt ?j' = attempt i" "available_at ?j' = rel_now + w_requeue_delay w"
    using att by (simp_all add: clear_lease_def)
  ultimately show ?thesis using i(1) by blast
qed

theorem saturation_costs_no_attempt_witness:
  "\<exists>j' u. run_once mem_ops ex_worker ex_wind ''t1'' 1 (\<lambda>s. s) (Some (Inl (DomainCapacitySaturatedError ''global''))) 2 [] 2
     ex_queued = Some (Result (Inr (Some j')), u) \<and> attempt j' = 0"
proof -
  have c: "mem_claim (w_name ex_worker) (w_lease ex_worker)
      (if w_unfiltered ex_worker then None else Some (w_handlers ex_worker)) ''t1'' 1 ex_queued = (Inr (Some ex_job), ex_claimed)"
    unfolding ex_claimed_eq
    by (simp add: ex_worker_def ex_queued_eq mem_claim_def blank_def py_isspace_def dict_map_def
      expire_deadline_def deadline_expired_def ex_spec_def claimable_def domain_allowed_def
      least_by_def put_job_def ex_job_def fresh_job_def start_lease_def)
  have "domain (spec ex_job) \<in> set (w_handlers ex_worker)"
    by (simp add: ex_job_def fresh_job_def ex_spec_def ex_worker_def)
  from saturation_costs_no_attempt [OF ex_inv(1) _ _ _ c this, of 2 ex_wind "''global''" "[]" 2] show ?thesis
    by (auto simp: ex_worker_def ex_queued_eq ex_job_def fresh_job_def)
qed

subsection \<open>The pool\<close>

definition pool_policy_error :: "seconds \<Rightarrow> seconds \<Rightarrow> exc option" where
  "pool_policy_error idle recovery =
     (if idle \<le> 0 then Some (ValueError ''idle_poll_seconds must be positive'')
      else if recovery \<le> 0 then Some (ValueError ''recovery_interval_seconds must be positive'')
      else None)"

text \<open>The tasks are their number: one per worker and one for recovery.\<close>

record pool =
  pool_workers :: nat
  pool_stop :: bool
  pool_tasks :: nat

definition new_pool :: "nat \<Rightarrow> bool \<Rightarrow> bool \<Rightarrow> exc + pool" where
  "new_pool n has_gate has_sampler =
     (if n = 0 then Inl (ValueError ''at least one durable worker is required'')
      else if has_sampler \<and> \<not> has_gate then Inl (ValueError ''adaptive_sampler requires adaptive_gate'')
      else Inr \<lparr>pool_workers = n, pool_stop = False, pool_tasks = 0\<rparr>)"

definition pool_running :: "pool \<Rightarrow> bool" where
  "pool_running p \<longleftrightarrow> pool_tasks p \<noteq> 0 \<and> \<not> pool_stop p"

definition pool_start :: "(pool, unit) op" where
  "pool_start p =
     (if pool_tasks p \<noteq> 0 then (Inl (RuntimeError ''durable worker pool is already started''), p)
      else (Inr (), p\<lparr>pool_stop := False, pool_tasks := pool_workers p + 1\<rparr>))"

definition pool_stop_all :: "seconds \<Rightarrow> (pool, unit) op" where
  "pool_stop_all timeout p =
     (if timeout < 0 then (Inl (ValueError ''graceful_timeout_seconds cannot be negative''), p)
      else if pool_tasks p = 0 then (Inr (), p\<lparr>pool_stop := True\<rparr>)
      else (Inr (), p\<lparr>pool_stop := True, pool_tasks := 0\<rparr>))"

definition pool_request_stop :: "pool \<Rightarrow> pool" where
  "pool_request_stop p = p\<lparr>pool_stop := True\<rparr>"

text \<open>\<open>run_until_stopped\<close> starts the tasks and returns when somebody has set the stop event.\<close>

definition pool_run_until_stopped :: "(pool, unit) op" where
  "pool_run_until_stopped p =
     (case pool_start p of (Inl e, q) \<Rightarrow> (Inl e, q) | (Inr _, q) \<Rightarrow> (Inr (), pool_request_stop q))"

text \<open>
  One iteration of a worker under the optional gate: \<open>run\<close> is what \<open>run_once\<close> does, \<open>others\<close>
  what the other workers and observers do to the gate while it runs; the sampler sees completed
  jobs. \<open>None\<close> is a worker still waiting at the gate.
\<close>

definition pool_iteration ::
    "(('p, 'r) execution_job \<Rightarrow> failure_kind) \<Rightarrow> ('p, 'r) execution_job option outcome \<Rightarrow> latency
      \<Rightarrow> (gate \<Rightarrow> gate) \<Rightarrow> gate option \<times> sampler option
      \<Rightarrow> (('p, 'r) execution_job option outcome \<times> gate option \<times> sampler option) option" where
  "pool_iteration classify run l others gs =
     (case gs of
        (None, smp) \<Rightarrow> Some (run, None, smp)
      | (Some g, smp) \<Rightarrow>
     case gate_acquire g of
        None \<Rightarrow> None
      | Some g1 \<Rightarrow>
     case gate_release (others g1) of
        (Inl e, g2) \<Rightarrow> Some (Result (Inl e), Some g2, smp)
      | (Inr _, g2) \<Rightarrow>
     case (run, smp) of
        (Result (Inr (Some j)), Some sm) \<Rightarrow>
          (case sampler_record classify j l sm of
             (None, sm') \<Rightarrow> Some (run, Some g2, Some sm')
           | (Some x, sm') \<Rightarrow> Some (run, Some (snd (gate_observe x g2)), Some sm'))
      | _ \<Rightarrow> Some (run, Some g2, smp))"

text \<open>
  The loop of a worker over the outcomes of its iterations, each with whether the stop event was
  set when the loop looked: the exceptions handed to \<open>on_worker_error\<close>, the number of idle
  sleeps, and how the loop ended, if it did.
\<close>

datatype loop_end = Stopped | Loop_Cancelled

fun worker_loop :: "(bool \<times> 'a option outcome) list \<Rightarrow> exc list \<times> nat \<times> loop_end option" where
  "worker_loop [] = ([], 0, None)"
| "worker_loop ((True, _) # xs) = ([], 0, Some Stopped)"
| "worker_loop ((False, CancelledError) # xs) = ([], 0, Some Loop_Cancelled)"
| "worker_loop ((False, Result (Inl e)) # xs) =
     (case worker_loop xs of (es, n, r) \<Rightarrow> (e # es, n + 1, r))"
| "worker_loop ((False, Result (Inr None)) # xs) =
     (case worker_loop xs of (es, n, r) \<Rightarrow> (es, n + 1, r))"
| "worker_loop ((False, Result (Inr (Some _))) # xs) = worker_loop xs"

text \<open>A worker gives its place at the gate back on every path: whether the iteration completes a
  job, finds none, raises or is cancelled, the number of active iterations is afterwards what
  the other workers left, less nothing and plus nothing, and no error of the gate is raised.\<close>

theorem pool_iteration_balanced:
  assumes "gate_inv g" and "gate_acquire g = Some g1" and "gate_inv (others g1)"
    and "active (others g1) = active g1 + k" and "0 \<le> active g + k"
  shows "\<exists>g' smp'. pool_iteration classify run l others (Some g, smp) = Some (run, Some g', smp') \<and>
    gate_inv g' \<and> active g' = active g + k"
proof -
  have a: "active (others g1) = active g + 1 + k"
    using assms(2,4) by (auto simp: gate_acquire_def split: if_splits)
  then have rel: "gate_release (others g1) = (Inr (), (others g1)\<lparr>active := active g + k\<rparr>)"
    using assms(5) by (simp add: gate_release_def)
  let ?g = "(others g1)\<lparr>active := active g + k\<rparr>"
  have inv: "gate_inv ?g" using assms(3,5) a by (simp add: gate_inv_def)
  have obs: "gate_inv (snd (gate_observe x ?g))" "active (snd (gate_observe x ?g)) = active g + k" for x
    using gate_step_inv [OF inv gate_step.observe] by (simp_all add: gate_observe_def case_prod_unfold)
  show ?thesis
    using assms(2) rel inv obs unfolding pool_iteration_def
    by (auto split: outcome.split sum.split option.split prod.split)
qed

theorem pool_iteration_balanced_witness:
  "let g = \<lparr>controller_of = ex_ctrl, active = 0\<rparr>
   in \<exists>g' smp'. pool_iteration classify_adaptive_failure (CancelledError :: (unit, unit) execution_job option outcome)
        NonFinite (\<lambda>g. g) (Some g, None) = Some (CancelledError, Some g', smp') \<and> active g' = 0"
proof -
  let ?g = "\<lparr>controller_of = ex_ctrl, active = 0\<rparr>"
  have inv: "gate_inv ?g" using gate.inv_start [of ?g] new_controller_inv [OF ex_ctrl_ok] by simp
  have acq: "gate_acquire ?g = Some (?g\<lparr>active := 1\<rparr>)" by (simp add: gate_acquire_def ex_ctrl_def)
  have inv1: "gate_inv (?g\<lparr>active := 1\<rparr>)" using gate_step_inv [OF inv gate_step.acquire [OF acq]] .
  from pool_iteration_balanced [OF inv acq, of "\<lambda>g. g" 0] inv1 show ?thesis by (fastforce simp: Let_def)
qed

subsection \<open>The service\<close>

record health =
  h_running :: bool
  h_state :: string

definition service_start :: "(pool option, unit) op" where
  "service_start p =
     (case p of None \<Rightarrow> (Inl (RuntimeError ''durable execution worker pool is not configured''), None)
      | Some q \<Rightarrow> (case pool_start q of (r, q') \<Rightarrow> (r, Some q')))"

definition service_stop :: "seconds \<Rightarrow> (pool option, unit) op" where
  "service_stop timeout p =
     (case p of None \<Rightarrow> (Inr (), None)
      | Some q \<Rightarrow> (case pool_stop_all timeout q of (r, q') \<Rightarrow> (r, Some q')))"

definition service_health :: "pool option \<Rightarrow> health" where
  "service_health p =
     (case p of None \<Rightarrow> \<lparr>h_running = False, h_state = ''not_configured''\<rparr>
      | Some q \<Rightarrow> if pool_running q then \<lparr>h_running = True, h_state = ''running''\<rparr>
                 else \<lparr>h_running = False, h_state = ''stopped''\<rparr>)"

definition service_result :: "string \<Rightarrow> (('p, 'r) mem_store, 'r option) op" where
  "service_result jid s = (case mem_get jid s of (Inl e, t) \<Rightarrow> (Inl e, t) | (Inr j, t) \<Rightarrow> (Inr (result j), t))"

text \<open>The pool starts once per stop: a configured service reports running exactly between a start
  and the next stop or stop request; starting twice is an error that changes nothing; after a
  stop it can be started again. A stop request alone, and so \<open>run_until_stopped\<close>, keeps the
  finished tasks: the pool reports stopped, but every later start is refused until \<open>stop\<close> is
  called.\<close>

theorem pool_lifecycle:
  assumes "new_pool n has_gate has_sampler = Inr p" and "0 \<le> timeout"
  shows "let q = snd (pool_start p); r = snd (pool_stop_all timeout q) in
    fst (pool_start p) = Inr () \<and> pool_running q \<and> pool_tasks q = n + 1 \<and>
    pool_start q = (Inl (RuntimeError ''durable worker pool is already started''), q) \<and>
    \<not> pool_running r \<and> fst (pool_start r) = Inr () \<and> pool_running (snd (pool_start r)) \<and>
    service_health (Some q) = \<lparr>h_running = True, h_state = ''running''\<rparr> \<and>
    service_health (Some r) = \<lparr>h_running = False, h_state = ''stopped''\<rparr> \<and>
    \<not> pool_running (pool_request_stop q) \<and>
    fst (pool_start (pool_request_stop q)) = Inl (RuntimeError ''durable worker pool is already started'') \<and>
    fst (pool_start (snd (pool_run_until_stopped p))) = Inl (RuntimeError ''durable worker pool is already started'')"
  using assms
  by (auto simp: new_pool_def pool_start_def pool_stop_all_def pool_running_def pool_request_stop_def
      pool_run_until_stopped_def service_health_def split: if_splits)

theorem pool_lifecycle_witness:
  "new_pool 2 True True = Inr \<lparr>pool_workers = 2, pool_stop = False, pool_tasks = 0\<rparr> \<and>
   pool_tasks (snd (pool_start \<lparr>pool_workers = 2, pool_stop = False, pool_tasks = 0\<rparr>)) = 3"
proof -
  have p: "new_pool 2 True True = Inr \<lparr>pool_workers = 2, pool_stop = False, pool_tasks = 0\<rparr>" by (simp add: new_pool_def)
  from pool_lifecycle [OF p, of 5] p show ?thesis by (simp add: Let_def)
qed

end
