(* ===== verification/Durable_Http.thy ===== *)
theory Durable_Http
  imports Worker_Pool
begin

section \<open>The internal HTTP router (execution/http.py)\<close>

text \<open>
  The handlers of the durable execution router over the in-memory store. The field constraints of
  the request model are checked first; the validation itself is the framework's, which answers a
  body that violates them with status 422 and does not call the handler. An exception that no
  clause of a handler catches is the server's status 500. Authorization is a parameter: the
  dependency either lets the request through or answers with a status of its own.
\<close>

record 'p submit_request =
  rq_idempotency_key :: string
  rq_domain :: string
  rq_payload :: 'p
  rq_priority :: execution_priority
  rq_max_attempts :: int
  rq_initial_backoff :: seconds
  rq_max_backoff :: seconds
  rq_deadline_at :: "seconds option"

definition submit_request_valid :: "'p submit_request \<Rightarrow> bool" where
  "submit_request_valid b \<longleftrightarrow>
     1 \<le> length (rq_idempotency_key b) \<and> length (rq_idempotency_key b) \<le> 256 \<and>
     1 \<le> length (rq_domain b) \<and> length (rq_domain b) \<le> 128 \<and>
     1 \<le> rq_max_attempts b \<and> rq_max_attempts b \<le> 20 \<and>
     0 \<le> rq_initial_backoff b \<and> rq_initial_backoff b \<le> 3600 \<and>
     0 \<le> rq_max_backoff b \<and> rq_max_backoff b \<le> 86400"

record 'r job_response =
  rs_job_id :: string
  rs_idempotency_key :: string
  rs_domain :: string
  rs_priority :: execution_priority
  rs_status :: string
  rs_attempt :: int
  rs_created_at :: seconds
  rs_updated_at :: seconds
  rs_available_at :: seconds
  rs_cancel_requested :: bool
  rs_last_error :: "string option"
  rs_result :: "'r option"

definition job_response_of :: "('p, 'r) execution_job \<Rightarrow> 'r job_response" where
  "job_response_of j =
     \<lparr>rs_job_id = job_id j, rs_idempotency_key = idempotency_key (spec j), rs_domain = domain (spec j),
      rs_priority = priority (spec j), rs_status = status_value (status j), rs_attempt = attempt j,
      rs_created_at = created_at j, rs_updated_at = updated_at j, rs_available_at = available_at j,
      rs_cancel_requested = cancel_requested j, rs_last_error = last_error j, rs_result = result j\<rparr>"

text \<open>A response is a status code with a body, or with a detail text.\<close>

datatype 'a http = Ok int 'a | Http_Error int string

definition submit_handler ::
    "'p submit_request \<Rightarrow> string \<Rightarrow> seconds \<Rightarrow> ('p, 'r) mem_store
      \<Rightarrow> (bool \<times> 'r job_response) http \<times> ('p, 'r) mem_store" where
  "submit_handler b uuid now s =
     (case new_RetryPolicy (rq_max_attempts b) (rq_initial_backoff b) (rq_max_backoff b) of
        Inl (ValueError m) \<Rightarrow> (Http_Error 422 m, s)
      | Inl e \<Rightarrow> (Http_Error 500 [], s)
      | Inr rt \<Rightarrow>
     case new_JobSpec (rq_idempotency_key b) (rq_domain b) (rq_payload b) (rq_priority b) rt (rq_deadline_at b) of
        Inl (ValueError m) \<Rightarrow> (Http_Error 422 m, s)
      | Inl e \<Rightarrow> (Http_Error 500 [], s)
      | Inr sp \<Rightarrow>
     case mem_submit sp uuid now s of
        (Inr r, t) \<Rightarrow> (Ok 202 (created r, job_response_of (submitted_job r)), t)
      | (Inl (IdempotencyConflictError _), t) \<Rightarrow>
          (Http_Error 409 ''idempotency key conflicts with an existing durable job'', t)
      | (Inl (ValueError m), t) \<Rightarrow> (Http_Error 422 m, t)
      | (Inl _, t) \<Rightarrow> (Http_Error 500 [], t))"

definition http_submit ::
    "'p submit_request \<Rightarrow> string \<Rightarrow> seconds \<Rightarrow> ('p, 'r) mem_store
      \<Rightarrow> (bool \<times> 'r job_response) http \<times> ('p, 'r) mem_store" where
  "http_submit b uuid now s =
     (if submit_request_valid b then submit_handler b uuid now s else (Http_Error 422 [], s))"

definition job_http :: "(exc + ('p, 'r) execution_job) \<times> 's \<Rightarrow> 'r job_response http \<times> 's" where
  "job_http rt =
     (case rt of
        (Inr j, t) \<Rightarrow> (Ok 200 (job_response_of j), t)
      | (Inl (JobNotFoundError _), t) \<Rightarrow> (Http_Error 404 ''durable job not found'', t)
      | (Inl _, t) \<Rightarrow> (Http_Error 500 [], t))"

definition http_get :: "string \<Rightarrow> ('p, 'r) mem_store \<Rightarrow> 'r job_response http \<times> ('p, 'r) mem_store" where
  "http_get jid s = job_http (mem_get jid s)"

definition http_cancel ::
    "string \<Rightarrow> seconds \<Rightarrow> ('p, 'r) mem_store \<Rightarrow> 'r job_response http \<times> ('p, 'r) mem_store" where
  "http_cancel jid now s = job_http (mem_request_cancel jid now s)"

definition http_health :: "pool option \<Rightarrow> health http" where
  "http_health p = Ok 200 (service_health p)"

text \<open>The router runs the authorization dependency before every handler.\<close>

definition authorized :: "int option \<Rightarrow> ('s \<Rightarrow> 'a http \<times> 's) \<Rightarrow> 's \<Rightarrow> 'a http \<times> 's" where
  "authorized denied handler s = (case denied of Some code \<Rightarrow> (Http_Error code [], s) | None \<Rightarrow> handler s)"

fun http_status :: "'a http \<Rightarrow> int" where
  "http_status (Ok n _) = n"
| "http_status (Http_Error n _) = n"

lemma new_spec_ok:
  assumes "new_RetryPolicy a i m = Inr rt" and "new_JobSpec k d p pr rt dl = Inr sp"
  shows "spec_ok sp \<and> max_attempts (retry sp) = a"
  using assms
  by (auto simp: new_RetryPolicy_def new_JobSpec_def spec_ok_def retry_ok_def split: option.splits)

lemma constructors_value_error:
  "new_RetryPolicy a i m = Inl e \<Longrightarrow> \<exists>t. e = ValueError t"
  "new_JobSpec k d p pr rt dl = Inl e \<Longrightarrow> \<exists>t. e = ValueError t"
  by (auto simp: new_RetryPolicy_def new_JobSpec_def retry_policy_error_def job_spec_error_def
      split: option.splits if_splits)

text \<open>The specification a body asks for, and the bodies that are refused.\<close>

definition request_spec :: "'p submit_request \<Rightarrow> 'p job_spec" where
  "request_spec b = \<lparr>idempotency_key = rq_idempotency_key b, domain = rq_domain b, payload = rq_payload b,
     priority = rq_priority b, retry = \<lparr>max_attempts = rq_max_attempts b,
       initial_backoff_seconds = rq_initial_backoff b, max_backoff_seconds = rq_max_backoff b\<rparr>,
     deadline_at = rq_deadline_at b\<rparr>"

definition request_refused :: "'p submit_request \<Rightarrow> bool" where
  "request_refused b \<longleftrightarrow> \<not> submit_request_valid b \<or> rq_max_backoff b < rq_initial_backoff b \<or>
     blank (rq_idempotency_key b) \<or> blank (rq_domain b)"

lemma submit_refused:
  assumes "request_refused b"
  shows "\<exists>m. http_submit b uuid now s = (Http_Error 422 m, s)"
  using assms
  by (auto simp: request_refused_def http_submit_def submit_handler_def new_RetryPolicy_def new_JobSpec_def
      retry_policy_error_def job_spec_error_def)

lemma submit_accepted:
  assumes "\<not> request_refused b"
  shows "http_submit b uuid now s = (case mem_submit (request_spec b) uuid now s of
        (Inr r, t) \<Rightarrow> (Ok 202 (created r, job_response_of (submitted_job r)), t)
      | (Inl (IdempotencyConflictError _), t) \<Rightarrow>
          (Http_Error 409 ''idempotency key conflicts with an existing durable job'', t)
      | (Inl (ValueError m), t) \<Rightarrow> (Http_Error 422 m, t)
      | (Inl _, t) \<Rightarrow> (Http_Error 500 [], t))"
    and "spec_ok (request_spec b)" and "max_attempts (retry (request_spec b)) \<le> 1024"
  using assms
  by (simp_all add: request_refused_def http_submit_def submit_handler_def new_RetryPolicy_def new_JobSpec_def
      retry_policy_error_def job_spec_error_def request_spec_def submit_request_valid_def spec_ok_def retry_ok_def)

lemma mem_submit_known:
  assumes "mem_inv s" and "dict_get (jobs s) k = Some j" and "idempotency_key (spec j) = idempotency_key sp"
  shows "mem_submit sp uuid now s = (if spec j = sp then Inr \<lparr>submitted_job = j, created = False\<rparr>
    else Inl (IdempotencyConflictError
      (''idempotency key already belongs to another job: '' @ idempotency_key sp)), s)"
proof -
  have "dict_get (idempotency s) (idempotency_key sp) = Some k" using assms by (auto simp: mem_inv_def)
  with assms(2) show ?thesis by (simp add: mem_submit_def same_submission_def)
qed

lemma mem_submit_new:
  assumes "mem_inv s" and "\<And>k j. dict_get (jobs s) k = Some j \<Longrightarrow> idempotency_key (spec j) \<noteq> idempotency_key sp"
  shows "mem_submit sp uuid now s = (Inr \<lparr>submitted_job = fresh_job sp uuid now, created = True\<rparr>,
    s\<lparr>jobs := dict_set uuid (fresh_job sp uuid now) (jobs s),
      idempotency := dict_set (idempotency_key sp) uuid (idempotency s)\<rparr>)"
proof -
  have "dict_get (idempotency s) (idempotency_key sp) = None"
    using assms by (cases "dict_get (idempotency s) (idempotency_key sp)") (auto simp: mem_inv_def)
  then show ?thesis by (simp add: mem_submit_def)
qed

text \<open>C25. What the HTTP surface answers, cause by cause, on a store that satisfies the invariant. A
  refused body is answered 422 and changes nothing. An accepted body whose key is known is answered
  202 with the existing job when it asks for the same specification, and 409 otherwise, and changes
  nothing; with a new key it is answered 202 with the new job, which is the only one written. A
  status query or a cancellation of an unknown job is answered 404 and changes nothing; of a known
  job 200, the cancellation writing exactly this job unless it is finished. The invariant holds
  afterwards, and a request that is not authorized changes nothing.\<close>

theorem http_preserves_store:
  assumes inv: "mem_inv s" and fresh: "dict_get (jobs s) uuid = None"
  shows "(request_refused b \<longrightarrow>
      http_status (fst (http_submit b uuid now s)) = 422 \<and> snd (http_submit b uuid now s) = s) \<and>
    (\<not> request_refused b \<longrightarrow>
      (\<forall>k j. dict_get (jobs s) k = Some j \<longrightarrow> idempotency_key (spec j) = rq_idempotency_key b \<longrightarrow>
        http_submit b uuid now s = (if spec j = request_spec b then Ok 202 (False, job_response_of j)
          else Http_Error 409 ''idempotency key conflicts with an existing durable job'', s)) \<and>
      ((\<forall>k j. dict_get (jobs s) k = Some j \<longrightarrow> idempotency_key (spec j) \<noteq> rq_idempotency_key b) \<longrightarrow>
        fst (http_submit b uuid now s) =
          Ok 202 (True, job_response_of (fresh_job (request_spec b) uuid now)) \<and>
        (\<forall>k. dict_get (jobs (snd (http_submit b uuid now s))) k =
          (if k = uuid then Some (fresh_job (request_spec b) uuid now) else dict_get (jobs s) k)))) \<and>
    mem_inv (snd (http_submit b uuid now s)) \<and>
    (case dict_get (jobs s) jid of
       None \<Rightarrow> http_get jid s = (Http_Error 404 ''durable job not found'', s) \<and>
         http_cancel jid now s = (Http_Error 404 ''durable job not found'', s)
     | Some j \<Rightarrow> http_get jid s = (Ok 200 (job_response_of j), s) \<and>
         http_cancel jid now s = (if terminal_status (status j) then (Ok 200 (job_response_of j), s)
           else let j' = j\<lparr>cancel_requested := True, updated_at := now,
                           status := if waiting_status (status j) then CANCELLED else status j\<rparr>
                in (Ok 200 (job_response_of j'), put_job j' s))) \<and>
    mem_inv (snd (http_cancel jid now s)) \<and>
    snd (authorized (Some code) (http_submit b uuid now) s) = s"
proof -
  have key: "idempotency_key (request_spec b) = rq_idempotency_key b" by (simp add: request_spec_def)
  have refused: "http_status (fst (http_submit b uuid now s)) = 422 \<and> snd (http_submit b uuid now s) = s"
    if "request_refused b" using submit_refused [OF that, of uuid now s] by auto
  have known: "http_submit b uuid now s = (if spec j = request_spec b then Ok 202 (False, job_response_of j)
      else Http_Error 409 ''idempotency key conflicts with an existing durable job'', s)"
    if "\<not> request_refused b" "dict_get (jobs s) k = Some j" "idempotency_key (spec j) = rq_idempotency_key b" for k j
    using mem_submit_known [OF inv that(2), of "request_spec b" uuid now] that(3)
    by (simp add: key submit_accepted(1) [OF that(1)])
  have new: "fst (http_submit b uuid now s) = Ok 202 (True, job_response_of (fresh_job (request_spec b) uuid now)) \<and>
      (\<forall>k. dict_get (jobs (snd (http_submit b uuid now s))) k =
        (if k = uuid then Some (fresh_job (request_spec b) uuid now) else dict_get (jobs s) k))"
    if "\<not> request_refused b"
      "\<forall>k j. dict_get (jobs s) k = Some j \<longrightarrow> idempotency_key (spec j) \<noteq> rq_idempotency_key b"
    using mem_submit_new [OF inv, of "request_spec b" uuid now] that(2)
    by (simp add: key dict_simps submit_accepted(1) [OF that(1)])
  have kept: "mem_inv (snd (http_submit b uuid now s))"
  proof (cases "request_refused b")
    case True
    with refused inv show ?thesis by simp
  next
    case False
    have "mem_inv (snd (mem_submit (request_spec b) uuid now s))"
      using submit_accepted(2,3) [OF False] by (intro submit_inv inv fresh)
    then show ?thesis
      unfolding submit_accepted(1) [OF False]
      by (cases "mem_submit (request_spec b) uuid now s") (auto split: sum.split exc.split)
  qed
  have jobs: "case dict_get (jobs s) jid of
       None \<Rightarrow> http_get jid s = (Http_Error 404 ''durable job not found'', s) \<and>
         http_cancel jid now s = (Http_Error 404 ''durable job not found'', s)
     | Some j \<Rightarrow> http_get jid s = (Ok 200 (job_response_of j), s) \<and>
         http_cancel jid now s = (if terminal_status (status j) then (Ok 200 (job_response_of j), s)
           else let j' = j\<lparr>cancel_requested := True, updated_at := now,
                           status := if waiting_status (status j) then CANCELLED else status j\<rparr>
                in (Ok 200 (job_response_of j'), put_job j' s))"
    by (cases "dict_get (jobs s) jid")
      (auto simp: http_get_def http_cancel_def job_http_def mem_get_def mem_request_cancel_def mem_lookup_def)
  have cancelled: "mem_inv (snd (http_cancel jid now s))"
    using mem_inv_job_update [OF inv request_cancel_update [OF inv, of jid now]]
    by (auto simp: http_cancel_def job_http_def mem_request_cancel_def mem_lookup_def split: option.splits)
  show ?thesis
    using refused known new kept jobs cancelled unfolding authorized_def by (simp only: option.case snd_conv) blast
qed

definition ex_request :: "unit submit_request" where
  "ex_request = \<lparr>rq_idempotency_key = ''key'', rq_domain = ''cgt'', rq_payload = (), rq_priority = NORMAL,
     rq_max_attempts = 3, rq_initial_backoff = 1, rq_max_backoff = 30, rq_deadline_at = None\<rparr>"

theorem http_preserves_store_witness:
  "http_status (fst (http_submit ex_request ''j1'' 0 (mem_empty :: (unit, unit) mem_store))) = 202 \<and>
   mem_inv (snd (http_submit ex_request ''j1'' 0 (mem_empty :: (unit, unit) mem_store)))"
proof -
  have "http_status (fst (http_submit ex_request ''j1'' 0 (mem_empty :: (unit, unit) mem_store))) = 202"
    by code_simp
  moreover have "dict_get (jobs (mem_empty :: (unit, unit) mem_store)) ''j1'' = None" by (simp add: mem_empty_def)
  from http_preserves_store [OF mem_inv_empty this]
  have "mem_inv (snd (http_submit ex_request ''j1'' 0 (mem_empty :: (unit, unit) mem_store)))" by blast
  ultimately show ?thesis by blast
qed

end
