(* ===== verification/Domain_Capacity.thy ===== *)
theory Domain_Capacity
  imports Durable_Job
begin

section \<open>Capacity of execution domains (execution/capacity.py)\<close>

text \<open>
  Leases that bound how many jobs run at once, over all domains and per domain, with a reserve
  for emergencies. The in-memory backend is the record-free dictionary of leases that the code
  keeps; every method holds the lock, so it is one function of the dictionary and the clock. The
  controller polls a backend until it is admitted or its waiting time is over. The interface
  \<open>capacity_backend\<close> is what the controller relies on; both backends interpret it.
\<close>

subsection \<open>Policy, reservations and decisions\<close>

record capacity_policy =
  global_limit :: int
  domain_limits :: "(string, int) dict"
  emergency_reserve :: int

definition capacity_policy_error :: "capacity_policy \<Rightarrow> exc option" where
  "capacity_policy_error p =
     (if global_limit p < 1 then Some (ValueError ''global_limit must be at least 1'')
      else if emergency_reserve p < 0 \<or> global_limit p \<le> emergency_reserve p
      then Some (ValueError ''emergency_reserve must be between 0 and global_limit - 1'')
      else if domain_limits p = [] then Some (ValueError ''at least one domain limit is required'')
      else case find (\<lambda>(d, l). blank d \<or> l < 1) (domain_limits p) of
          None \<Rightarrow> None
        | Some (d, l) \<Rightarrow>
            if blank d then Some (ValueError ''domain names cannot be empty'')
            else Some (ValueError ''domain limits must be at least 1''))"

definition limit_for :: "capacity_policy \<Rightarrow> string \<Rightarrow> exc + int" where
  "limit_for p d =
     (case dict_get (domain_limits p) d of
        None \<Rightarrow> Inl (ValueError (''unconfigured execution domain: '' @ d))
      | Some l \<Rightarrow> Inr l)"

record capacity_reservation =
  lease_id :: string
  res_domain :: string
  res_priority :: execution_priority

record capacity_decision =
  admitted :: bool
  global_used :: int
  domain_used :: int
  reason :: string

subsection \<open>The in-memory backend\<close>

type_synonym lease_entry = "seconds \<times> string \<times> execution_priority"
type_synonym leases = "(string, lease_entry) dict"

definition cap_cleanup :: "seconds \<Rightarrow> leases \<Rightarrow> leases" where
  "cap_cleanup now s = filter (\<lambda>(k, e, d, p). \<not> e \<le> now) s"

definition in_domain :: "string \<Rightarrow> leases \<Rightarrow> leases" where
  "in_domain d s = filter (\<lambda>(k, e, d', p). d' = d) s"

definition cap_reserve ::
    "capacity_reservation \<Rightarrow> int \<Rightarrow> int \<Rightarrow> int \<Rightarrow> seconds \<Rightarrow> seconds \<Rightarrow> leases
      \<Rightarrow> capacity_decision \<times> leases" where
  "cap_reserve r gl dl er ls now s0 =
     (let s = cap_cleanup now s0;
          gu = int (length s);
          du = int (length (in_domain (res_domain r) s));
          refused = (\<lambda>why. \<lparr>admitted = False, global_used = gu, domain_used = du, reason = why\<rparr>)
      in if gl \<le> gu then (refused ''global'', s)
         else if dl \<le> du then (refused ''domain'', s)
         else if res_priority r \<noteq> EMERGENCY \<and> gl - er \<le> gu then (refused ''emergency_reserve'', s)
         else (\<lparr>admitted = True, global_used = gu + 1, domain_used = du + 1, reason = []\<rparr>,
               dict_set (lease_id r) (now + ls, res_domain r, res_priority r) s))"

definition cap_renew ::
    "capacity_reservation \<Rightarrow> seconds \<Rightarrow> seconds \<Rightarrow> leases \<Rightarrow> bool \<times> leases" where
  "cap_renew r ls now s0 =
     (let s = cap_cleanup now s0 in
      case dict_get s (lease_id r) of
        None \<Rightarrow> (False, s)
      | Some (e, d, p) \<Rightarrow>
          if d \<noteq> res_domain r then (False, s)
          else (True, dict_set (lease_id r) (now + ls, d, p) s))"

definition cap_release :: "capacity_reservation \<Rightarrow> leases \<Rightarrow> leases" where
  "cap_release r s = dict_pop (lease_id r) s"

subsection \<open>What a backend promises\<close>

text \<open>
  \<open>held s now r\<close>: the backend counts the reservation \<open>r\<close> as live at time \<open>now\<close>. A
  successful reservation is held at once, a refused one holds nothing new and takes nothing
  from others, a renewal keeps a held reservation or reports its loss, a release ends it.
\<close>

locale capacity_backend =
  fixes inv :: "'s \<Rightarrow> bool"
    and reserve :: "capacity_reservation \<Rightarrow> int \<Rightarrow> int \<Rightarrow> int \<Rightarrow> seconds \<Rightarrow> 't \<Rightarrow> 's \<Rightarrow> capacity_decision \<times> 's"
    and renew :: "capacity_reservation \<Rightarrow> seconds \<Rightarrow> 't \<Rightarrow> 's \<Rightarrow> bool \<times> 's"
    and release :: "capacity_reservation \<Rightarrow> 't \<Rightarrow> 's \<Rightarrow> 's"
    and held :: "'s \<Rightarrow> 't \<Rightarrow> capacity_reservation \<Rightarrow> bool"
  assumes reserve_inv: "inv s \<Longrightarrow> 0 < ls \<Longrightarrow> inv (snd (reserve r gl dl er ls now s))"
    and renew_inv: "inv s \<Longrightarrow> 0 < ls \<Longrightarrow> inv (snd (renew r ls now s))"
    and release_inv: "inv s \<Longrightarrow> inv (release r now s)"
    and reserve_admitted: "inv s \<Longrightarrow> 0 < ls \<Longrightarrow> reserve r gl dl er ls now s = (d, t) \<Longrightarrow> admitted d \<Longrightarrow>
      held t now r \<and> global_used d \<le> gl \<and> domain_used d \<le> dl \<and>
      (res_priority r \<noteq> EMERGENCY \<longrightarrow> global_used d \<le> gl - er)"
    and reserve_refused: "inv s \<Longrightarrow> reserve r gl dl er ls now s = (d, t) \<Longrightarrow> \<not> admitted d \<Longrightarrow>
      held t now q \<longleftrightarrow> held s now q"
    and renew_held: "inv s \<Longrightarrow> 0 < ls \<Longrightarrow> renew r ls now s = (b, t) \<Longrightarrow>
      (b \<longleftrightarrow> held s now r) \<and> (b \<longrightarrow> held t now r)"
    and release_not_held: "inv s \<Longrightarrow> \<not> held (release r now s) now r"

subsection \<open>The in-memory backend keeps the promises\<close>

definition cap_held :: "leases \<Rightarrow> seconds \<Rightarrow> capacity_reservation \<Rightarrow> bool" where
  "cap_held s now r \<longleftrightarrow> (\<exists>e p. dict_get s (lease_id r) = Some (e, res_domain r, p) \<and> now < e)"

lemma cap_cleanup_ok [simp]: "dict_ok s \<Longrightarrow> dict_ok (cap_cleanup now s)"
  by (simp add: cap_cleanup_def)

lemma get_cap_cleanup [dict_simps]:
  "dict_ok s \<Longrightarrow> dict_get (cap_cleanup now s) k =
     (case dict_get s k of None \<Rightarrow> None | Some (e, d, p) \<Rightarrow> if now < e then Some (e, d, p) else None)"
  by (auto simp: cap_cleanup_def dict_get_filter not_le split: option.split)

lemma cap_held_cleanup: "dict_ok s \<Longrightarrow> cap_held (cap_cleanup now s) now r \<longleftrightarrow> cap_held s now r"
  by (auto simp: cap_held_def dict_simps split: option.splits if_splits)

lemma cap_reserve_cases:
  obtains (refused) why where "cap_reserve r gl dl er ls now s =
      (\<lparr>admitted = False, global_used = int (length (cap_cleanup now s)),
        domain_used = int (length (in_domain (res_domain r) (cap_cleanup now s))), reason = why\<rparr>,
       cap_cleanup now s)"
      and "gl \<le> int (length (cap_cleanup now s)) \<or>
           dl \<le> int (length (in_domain (res_domain r) (cap_cleanup now s))) \<or>
           res_priority r \<noteq> EMERGENCY \<and> gl - er \<le> int (length (cap_cleanup now s))"
    | (admitted) "cap_reserve r gl dl er ls now s =
      (\<lparr>admitted = True, global_used = int (length (cap_cleanup now s)) + 1,
        domain_used = int (length (in_domain (res_domain r) (cap_cleanup now s))) + 1, reason = []\<rparr>,
       dict_set (lease_id r) (now + ls, res_domain r, res_priority r) (cap_cleanup now s))"
      and "int (length (cap_cleanup now s)) < gl"
      and "int (length (in_domain (res_domain r) (cap_cleanup now s))) < dl"
      and "res_priority r \<noteq> EMERGENCY \<Longrightarrow> int (length (cap_cleanup now s)) < gl - er"
proof -
  consider "gl \<le> int (length (cap_cleanup now s))"
    | "\<not> gl \<le> int (length (cap_cleanup now s))" "dl \<le> int (length (in_domain (res_domain r) (cap_cleanup now s)))"
    | "\<not> gl \<le> int (length (cap_cleanup now s))" "\<not> dl \<le> int (length (in_domain (res_domain r) (cap_cleanup now s)))"
      "res_priority r \<noteq> EMERGENCY" "gl - er \<le> int (length (cap_cleanup now s))"
    | "\<not> gl \<le> int (length (cap_cleanup now s))" "\<not> dl \<le> int (length (in_domain (res_domain r) (cap_cleanup now s)))"
      "\<not> (res_priority r \<noteq> EMERGENCY \<and> gl - er \<le> int (length (cap_cleanup now s)))"
    by blast
  then show ?thesis
  proof cases
    case 1
    then show ?thesis by (intro refused [of "''global''"]) (simp_all add: cap_reserve_def)
  next
    case 2
    then show ?thesis by (intro refused [of "''domain''"]) (simp_all add: cap_reserve_def)
  next
    case 3
    then show ?thesis by (intro refused [of "''emergency_reserve''"]) (simp_all add: cap_reserve_def)
  next
    case 4
    then show ?thesis by (intro admitted) (auto simp: cap_reserve_def)
  qed
qed

lemma cap_held_set:
  "0 < ls \<Longrightarrow> cap_held (dict_set (lease_id r) (now + ls, res_domain r, p) s) now r"
  by (simp add: cap_held_def dict_simps)

interpretation mem_cap: capacity_backend dict_ok cap_reserve cap_renew "\<lambda>r now. cap_release r" cap_held
proof
  fix s :: leases and ls :: seconds and r q gl dl er now d t b
  assume ok: "dict_ok s"
  show "dict_ok (snd (cap_reserve r gl dl er ls now s))"
    using ok by (cases rule: cap_reserve_cases [of r gl dl er ls now s]) simp_all
  show "dict_ok (snd (cap_renew r ls now s))"
    using ok by (auto simp: cap_renew_def split: option.split)
  show "dict_ok (cap_release r s)" using ok by (simp add: cap_release_def)
  show "cap_held t now r \<and> global_used d \<le> gl \<and> domain_used d \<le> dl \<and>
      (res_priority r \<noteq> EMERGENCY \<longrightarrow> global_used d \<le> gl - er)"
    if "0 < ls" "cap_reserve r gl dl er ls now s = (d, t)" "capacity_decision.admitted d"
    using that by (cases rule: cap_reserve_cases [of r gl dl er ls now s]) (auto simp: cap_held_set)
  show "cap_held t now q \<longleftrightarrow> cap_held s now q"
    if "cap_reserve r gl dl er ls now s = (d, t)" "\<not> capacity_decision.admitted d"
    using that ok by (cases rule: cap_reserve_cases [of r gl dl er ls now s])
      (auto simp: cap_held_cleanup)
  show "(b \<longleftrightarrow> cap_held s now r) \<and> (b \<longrightarrow> cap_held t now r)"
    if "0 < ls" "cap_renew r ls now s = (b, t)"
    using that ok
    by (auto simp: cap_renew_def cap_held_def dict_simps split: option.splits if_splits)
  show "\<not> cap_held (cap_release r s) now r" by (simp add: cap_held_def cap_release_def dict_simps)
qed

subsection \<open>The limits along any run\<close>

text \<open>
  A run of one backend under a policy: any reservations with the policy's limits, renewals and
  releases, at any clock readings.
\<close>

inductive cap_step :: "capacity_policy \<Rightarrow> leases \<Rightarrow> leases \<Rightarrow> bool" for p where
  reserve: "limit_for p (res_domain r) = Inr dl \<Longrightarrow>
    cap_step p s (snd (cap_reserve r (global_limit p) dl (emergency_reserve p) ls now s))"
| renew: "cap_step p s (snd (cap_renew r ls now s))"
| release: "cap_step p s (cap_release r s)"

definition routine :: "leases \<Rightarrow> leases" where
  "routine s = filter (\<lambda>(k, e, d, p). p \<noteq> EMERGENCY) s"

definition domain_within :: "capacity_policy \<Rightarrow> string \<Rightarrow> leases \<Rightarrow> bool" where
  "domain_within p d s \<longleftrightarrow> s = [] \<or> (\<exists>l. limit_for p d = Inr l \<and> int (length s) \<le> l)"

definition cap_within :: "capacity_policy \<Rightarrow> leases \<Rightarrow> bool" where
  "cap_within p s \<longleftrightarrow> dict_ok s \<and> int (length s) \<le> global_limit p \<and>
     int (length (routine s)) \<le> global_limit p - emergency_reserve p \<and>
     (\<forall>d. domain_within p d (in_domain d s))"

lemma domain_within_mono:
  "domain_within p d s \<Longrightarrow> length t \<le> length s \<Longrightarrow> domain_within p d t"
  by (auto simp: domain_within_def)

text \<open>How counts of leases change with the writes of a backend.\<close>

lemma length_filter_filter: "length (filter P (filter Q xs)) \<le> length (filter P xs)"
  by (induction xs) auto

lemma length_filter_pop: "length (filter P (dict_pop k s)) \<le> length (filter P s)"
  by (unfold AList.delete_eq) (rule length_filter_filter)

lemma length_filter_set:
  "length (filter P (dict_set k v s)) \<le> length (filter P s) + (if P (k, v) then 1 else 0)"
  by (induction s) auto

lemma length_filter_set_same:
  "dict_get s k = Some w \<Longrightarrow> P (k, v) = P (k, w) \<Longrightarrow>
     length (filter P (dict_set k v s)) = length (filter P s)"
  by (induction s) (auto split: if_splits)

lemma cap_cleanup_count: "length (filter P (cap_cleanup now s)) \<le> length (filter P s)"
  unfolding cap_cleanup_def by (rule length_filter_filter)

lemma cap_renew_count:
  assumes "\<And>k e e' d p. P (k, e, d, p) = P (k, e', d, p)"
  shows "length (filter P (snd (cap_renew r ls now s))) \<le> length (filter P s)"
proof (cases "dict_get (cap_cleanup now s) (lease_id r)")
  case None
  then show ?thesis by (simp add: cap_renew_def cap_cleanup_count)
next
  case (Some w)
  obtain e d p where w: "w = (e, d, p)" by (cases w)
  then have "P (lease_id r, now + ls, d, p) = P (lease_id r, w)" using assms by blast
  with Some w show ?thesis
    using length_filter_set_same [of "cap_cleanup now s" "lease_id r" w P "(now + ls, d, p)"]
    by (auto simp: cap_renew_def cap_cleanup_count)
qed

lemma cap_shrink:
  assumes "cap_within p s" and "dict_ok t"
    and "\<And>P. (\<And>k e e' d p. P (k, e, d, p) = P (k, e', d, p)) \<Longrightarrow> length (filter P t) \<le> length (filter P s)"
  shows "cap_within p t"
proof -
  have all: "length t \<le> length s" using assms(3) [of "\<lambda>_. True"] by simp
  have rt: "length (routine t) \<le> length (routine s)"
    unfolding routine_def by (rule assms(3)) simp
  have dm: "length (in_domain d t) \<le> length (in_domain d s)" for d
    unfolding in_domain_def by (rule assms(3)) simp
  have "domain_within p d (in_domain d t)" for d
    using assms(1) dm [of d] unfolding cap_within_def by (blast intro: domain_within_mono)
  with assms(1,2) all rt show ?thesis unfolding cap_within_def by force
qed

lemma cap_reserve_within:
  assumes "cap_within p s" and "limit_for p (res_domain r) = Inr dl"
  shows "cap_within p (snd (cap_reserve r (global_limit p) dl (emergency_reserve p) ls now s))"
proof -
  let ?c = "cap_cleanup now s"
  have c: "cap_within p ?c"
    using assms(1) by (rule cap_shrink) (use assms(1) in \<open>auto simp: cap_within_def cap_cleanup_count\<close>)
  then have ok: "dict_ok ?c" by (simp add: cap_within_def)
  show ?thesis
  proof (cases rule: cap_reserve_cases [of r "global_limit p" dl "emergency_reserve p" ls now s])
    case (refused why)
    with c show ?thesis by simp
  next
    case admitted
    let ?v = "(now + ls, res_domain r, res_priority r)" and ?t = "dict_set (lease_id r) (now + ls, res_domain r, res_priority r) ?c"
    have "length ?t \<le> length ?c + 1"
      using length_filter_set [of "\<lambda>_. True" "lease_id r" ?v ?c] by simp
    moreover have "int (length (routine ?t)) \<le> global_limit p - emergency_reserve p"
    proof (cases "res_priority r = EMERGENCY")
      case True
      then have "length (routine ?t) \<le> length (routine ?c)"
        using length_filter_set [of "\<lambda>(k, e, d, p). p \<noteq> EMERGENCY" "lease_id r" ?v ?c]
        by (simp add: routine_def)
      with c show ?thesis by (auto simp: cap_within_def)
    next
      case False
      have "length (routine ?t) \<le> length (routine ?c) + 1"
        using length_filter_set [of "\<lambda>(k, e, d, p). p \<noteq> EMERGENCY" "lease_id r" ?v ?c]
        by (simp add: routine_def split: if_splits)
      moreover have "length (routine ?c) \<le> length ?c" by (simp add: routine_def)
      ultimately show ?thesis using admitted(4) [OF False] by linarith
    qed
    moreover have "domain_within p d (in_domain d ?t)" for d
    proof (cases "d = res_domain r")
      case True
      have "length (in_domain d ?t) \<le> length (in_domain d ?c) + 1"
        using length_filter_set [of "\<lambda>(k, e, d', p). d' = d" "lease_id r" ?v ?c]
        by (simp add: in_domain_def split: if_splits)
      with admitted(3) assms(2) True show ?thesis by (auto simp: domain_within_def)
    next
      case False
      then have le: "length (in_domain d ?t) \<le> length (in_domain d ?c)"
        using length_filter_set [of "\<lambda>(k, e, d', p). d' = d" "lease_id r" ?v ?c]
        by (simp add: in_domain_def)
      then show ?thesis using c unfolding cap_within_def by (blast intro: domain_within_mono)
    qed
    ultimately show ?thesis
      using admitted(1,2) ok unfolding cap_within_def by simp
  qed
qed

lemma cap_step_within:
  assumes "cap_within p s" and "cap_step p s t"
  shows "cap_within p t"
  using assms(2)
proof cases
  case (reserve r dl ls now)
  with assms(1) show ?thesis by (simp add: cap_reserve_within)
next
  case (renew r ls now)
  have "dict_ok t"
    using assms(1) by (auto simp: renew cap_within_def cap_renew_def split: option.split)
  with assms(1) renew cap_renew_count show ?thesis by (auto intro: cap_shrink)
next
  case (release r)
  then have "dict_ok t" using assms(1) by (simp add: cap_release_def cap_within_def)
  then show ?thesis
    by (rule cap_shrink [OF assms(1)]) (simp add: release cap_release_def length_filter_pop)
qed

lemma cap_within_empty:
  "capacity_policy_error p = None \<Longrightarrow> cap_within p []"
  by (simp add: cap_within_def routine_def in_domain_def domain_within_def capacity_policy_error_def
      split: if_splits)

interpretation cap: transition_system "\<lambda>s. s = [] \<and> capacity_policy_error p = None" "cap_step p" "cap_within p"
  for p :: capacity_policy
  by unfold_locales (auto intro: cap_within_empty cap_step_within)

subsection \<open>The controller\<close>

definition controller_error :: "seconds \<Rightarrow> seconds \<Rightarrow> seconds \<Rightarrow> exc option" where
  "controller_error ls wait rs =
     (if ls \<le> 0 then Some (ValueError ''lease_seconds must be positive'')
      else if wait < 0 then Some (ValueError ''wait_seconds cannot be negative'')
      else if rs \<le> 0 then Some (ValueError ''retry_seconds must be positive'')
      else None)"

text \<open>
  One pass of the polling loop of \<open>acquire\<close>: what other clients did to the backend since the
  last pass, the backend's clock at the reservation, and the monotonic clock read after a refusal.
  The loop's fuel is the list of passes; running out of it is \<open>None\<close>.
\<close>

record ('s, 't) poll =
  poll_env :: "'s \<Rightarrow> 's"
  poll_now :: 't
  poll_clock :: seconds

type_synonym ('s, 't) reserve_fun =
  "capacity_reservation \<Rightarrow> int \<Rightarrow> int \<Rightarrow> int \<Rightarrow> seconds \<Rightarrow> 't \<Rightarrow> 's \<Rightarrow> capacity_decision \<times> 's"

fun acquire_loop ::
    "('s, 't) reserve_fun \<Rightarrow> capacity_policy \<Rightarrow> int \<Rightarrow> seconds \<Rightarrow> seconds \<Rightarrow> capacity_reservation
      \<Rightarrow> ('s, 't) poll list \<Rightarrow> 's \<Rightarrow> ((exc + capacity_reservation) \<times> 's) option" where
  "acquire_loop reserve p dl ls deadline r [] s = None"
| "acquire_loop reserve p dl ls deadline r (q # qs) s =
     (let (d, t) = reserve r (global_limit p) dl (emergency_reserve p) ls (poll_now q) (poll_env q s)
      in if admitted d then Some (Inr r, t)
         else if deadline \<le> poll_clock q
         then Some (Inl (DomainCapacitySaturatedError (''durable execution capacity saturated: '' @
                (if reason d = [] then ''capacity'' else reason d))), t)
         else acquire_loop reserve p dl ls deadline r qs t)"

definition cap_acquire ::
    "('s, 't) reserve_fun \<Rightarrow> capacity_policy \<Rightarrow> seconds \<Rightarrow> seconds \<Rightarrow> seconds \<Rightarrow> string \<Rightarrow> string
      \<Rightarrow> execution_priority \<Rightarrow> ('s, 't) poll list \<Rightarrow> 's
      \<Rightarrow> ((exc + capacity_reservation) \<times> 's) option" where
  "cap_acquire reserve p ls wait clock uuid d prio qs s =
     (case limit_for p d of
        Inl e \<Rightarrow> Some (Inl e, s)
      | Inr dl \<Rightarrow> acquire_loop reserve p dl ls (clock + wait)
                  \<lparr>lease_id = uuid, res_domain = d, res_priority = prio\<rparr> qs s)"

definition cap_renew_or_raise :: "bool \<times> 's \<Rightarrow> (exc + unit) \<times> 's" where
  "cap_renew_or_raise r = (case r of (b, t) \<Rightarrow> (if b then Inr () else Inl DomainCapacityLeaseLostError, t))"

text \<open>What the controller gets from any backend.\<close>

context capacity_backend begin

lemma acquire_loop_held:
  assumes "inv s" and "0 < ls" and "\<And>q s. q \<in> set qs \<Longrightarrow> inv s \<Longrightarrow> inv (poll_env q s)"
    and "acquire_loop reserve p dl ls deadline r qs s = Some (Inr r', t)"
  shows "r' = r \<and> inv t \<and> (\<exists>q \<in> set qs. held t (poll_now q) r)"
  using assms
proof (induction qs arbitrary: s)
  case Nil
  then show ?case by simp
next
  case (Cons q qs)
  obtain d u where d: "reserve r (global_limit p) dl (emergency_reserve p) ls (poll_now q) (poll_env q s) = (d, u)"
    by fastforce
  have env: "inv (poll_env q s)" using Cons.prems by simp
  with reserve_inv [OF this assms(2)] d have u: "inv u" by (metis snd_conv)
  show ?case
  proof (cases "admitted d")
    case True
    with Cons.prems d u reserve_admitted [OF env assms(2) d] show ?thesis by auto
  next
    case False
    with d Cons.prems(4) have "acquire_loop reserve p dl ls deadline r qs u = Some (Inr r', t)"
      by (simp split: if_splits)
    with Cons.IH [OF u assms(2)] Cons.prems(3) show ?thesis by auto
  qed
qed

end

text \<open>The polling ends: the clock passes the deadline after finitely many sleeps.\<close>

lemma acquire_loop_ends:
  assumes "qs \<noteq> []" and "deadline \<le> poll_clock (last qs)"
  shows "acquire_loop reserve p dl ls deadline r qs s \<noteq> None"
  using assms
proof (induction qs arbitrary: s)
  case Nil
  then show ?case by simp
next
  case (Cons q qs)
  show ?case
  proof (cases "qs = []")
    case True
    with Cons.prems show ?thesis by (auto split: prod.split)
  next
    case False
    with Cons show ?thesis by (auto split: prod.split)
  qed
qed

subsection \<open>The Redis backend\<close>

text \<open>
  Each script runs as one step. A key holds a sorted set of lease identifiers, scored by expiry
  in milliseconds, and the time at which Redis deletes the key (\<open>EXPIRE\<close>); a sorted set that
  becomes empty is deleted with its expiry.
\<close>

record rkey =
  members :: "(string, int) dict"
  expire_at :: "int option"

type_synonym redis_cap = "(string, rkey) dict"

definition cap_keys :: "string \<Rightarrow> string \<Rightarrow> string \<times> string" where
  "cap_keys prefix d = (prefix @ '':global'', prefix @ '':domain:'' @ d)"

definition expired :: "rkey \<Rightarrow> int \<Rightarrow> bool" where
  "expired v now \<longleftrightarrow> (case expire_at v of None \<Rightarrow> False | Some x \<Rightarrow> x \<le> now)"

definition rload :: "string \<Rightarrow> int \<Rightarrow> redis_cap \<Rightarrow> rkey" where
  "rload k now s =
     (case dict_get s k of
        None \<Rightarrow> \<lparr>members = [], expire_at = None\<rparr>
      | Some v \<Rightarrow>
          if expired v now then \<lparr>members = [], expire_at = None\<rparr> else v)"

definition rsave :: "string \<Rightarrow> rkey \<Rightarrow> redis_cap \<Rightarrow> redis_cap" where
  "rsave k v s = (if members v = [] then dict_pop k s else dict_set k v s)"

definition zremrange :: "string \<Rightarrow> int \<Rightarrow> redis_cap \<Rightarrow> redis_cap" where
  "zremrange k now s =
     (let v = rload k now s in rsave k (v\<lparr>members := filter (\<lambda>(m, sc). \<not> sc \<le> now) (members v)\<rparr>) s)"

definition zcard :: "string \<Rightarrow> int \<Rightarrow> redis_cap \<Rightarrow> int" where
  "zcard k now s = int (length (members (rload k now s)))"

definition zscore :: "string \<Rightarrow> string \<Rightarrow> int \<Rightarrow> redis_cap \<Rightarrow> int option" where
  "zscore k m now s = dict_get (members (rload k now s)) m"

definition zput :: "string \<Rightarrow> int \<Rightarrow> string \<Rightarrow> int \<Rightarrow> redis_cap \<Rightarrow> redis_cap" where
  "zput k sc m now s = (let v = rload k now s in rsave k (v\<lparr>members := dict_set m sc (members v)\<rparr>) s)"

definition zdel :: "string \<Rightarrow> string \<Rightarrow> int \<Rightarrow> redis_cap \<Rightarrow> redis_cap" where
  "zdel k m now s = (let v = rload k now s in rsave k (v\<lparr>members := dict_pop m (members v)\<rparr>) s)"

definition rexpire :: "string \<Rightarrow> int \<Rightarrow> int \<Rightarrow> redis_cap \<Rightarrow> redis_cap" where
  "rexpire k ttl now s =
     (let v = rload k now s in rsave k (v\<lparr>expire_at := Some (now + 1000 * ttl)\<rparr>) s)"

definition lease_ms :: "seconds \<Rightarrow> int" where
  "lease_ms ls = max \<lfloor>ls * 1000\<rfloor> 1"

definition key_ttl :: "int \<Rightarrow> int" where
  "key_ttl ms = max (((ms + 999) div 1000) * 2) 10"

definition rcap_reserve ::
    "string \<Rightarrow> capacity_reservation \<Rightarrow> int \<Rightarrow> int \<Rightarrow> int \<Rightarrow> seconds \<Rightarrow> int \<Rightarrow> redis_cap
      \<Rightarrow> capacity_decision \<times> redis_cap" where
  "rcap_reserve prefix r gl dl er ls now s0 =
     (let (gk, dk) = cap_keys prefix (res_domain r); ms = lease_ms ls; expiry = now + ms;
          s = zremrange dk now (zremrange gk now s0);
          gu = zcard gk now s; du = zcard dk now s;
          refused = (\<lambda>why. (\<lparr>admitted = False, global_used = gu, domain_used = du, reason = why\<rparr>, s))
      in if gl \<le> gu then refused ''global''
         else if dl \<le> du then refused ''domain''
         else if res_priority r \<noteq> EMERGENCY \<and> gl - er \<le> gu then refused ''emergency_reserve''
         else (\<lparr>admitted = True, global_used = gu + 1, domain_used = du + 1, reason = []\<rparr>,
               rexpire dk (key_ttl ms) now (rexpire gk (key_ttl ms) now
                 (zput dk expiry (lease_id r) now (zput gk expiry (lease_id r) now s)))))"

definition rcap_renew ::
    "string \<Rightarrow> capacity_reservation \<Rightarrow> seconds \<Rightarrow> int \<Rightarrow> redis_cap \<Rightarrow> bool \<times> redis_cap" where
  "rcap_renew prefix r ls now s =
     (let (gk, dk) = cap_keys prefix (res_domain r); expiry = now + lease_ms ls;
          live = (\<lambda>x. case x of None \<Rightarrow> False | Some e \<Rightarrow> \<not> e \<le> now)
      in if \<not> live (zscore gk (lease_id r) now s) \<or> \<not> live (zscore dk (lease_id r) now s)
         then (False, zdel dk (lease_id r) now (zdel gk (lease_id r) now s))
         else (True, zput dk expiry (lease_id r) now (zput gk expiry (lease_id r) now s)))"

definition rcap_release :: "string \<Rightarrow> capacity_reservation \<Rightarrow> int \<Rightarrow> redis_cap \<Rightarrow> redis_cap" where
  "rcap_release prefix r now s =
     (let (gk, dk) = cap_keys prefix (res_domain r)
      in zdel dk (lease_id r) now (zdel gk (lease_id r) now s))"

text \<open>Reads after the writes of a script, at the script's own clock.\<close>

named_theorems rkey_simps

abbreviation zmem :: "string \<Rightarrow> int \<Rightarrow> redis_cap \<Rightarrow> (string, int) dict" where
  "zmem k now s \<equiv> members (rload k now s)"

lemma not_expired_rload [simp]: "\<not> expired (rload k now s) now"
  by (auto simp: rload_def expired_def split: option.split)

lemma expired_members [simp]: "expired (v\<lparr>members := xs\<rparr>) now = expired v now"
  by (simp add: expired_def)

lemma zmem_rsave:
  "\<not> expired v now \<Longrightarrow> zmem k' now (rsave k v s) = (if k' = k then members v else zmem k' now s)"
  by (auto simp: rsave_def rload_def dict_simps)

lemma zmem_zremrange [rkey_simps]:
  "zmem k' now (zremrange k now s) =
     (if k' = k then filter (\<lambda>(m, sc). \<not> sc \<le> now) (zmem k now s) else zmem k' now s)"
  by (simp add: zremrange_def zmem_rsave)

lemma zmem_zput [rkey_simps]:
  "zmem k' now (zput k sc m now s) = (if k' = k then dict_set m sc (zmem k now s) else zmem k' now s)"
  by (simp add: zput_def zmem_rsave)

lemma zmem_zdel [rkey_simps]:
  "zmem k' now (zdel k m now s) = (if k' = k then dict_pop m (zmem k now s) else zmem k' now s)"
  by (simp add: zdel_def zmem_rsave)

lemma zmem_rexpire [rkey_simps]: "0 < ttl \<Longrightarrow> zmem k' now (rexpire k ttl now s) = zmem k' now s"
  by (simp add: rexpire_def zmem_rsave expired_def)

lemma key_ttl_pos [simp]: "0 < key_ttl ms"
  by (simp add: key_ttl_def)

lemma lease_ms_pos [simp]: "0 < lease_ms ls"
  by (simp add: lease_ms_def)

lemma cap_keys_distinct [simp]:
  "fst (cap_keys prefix d) \<noteq> snd (cap_keys prefix d')"
  "snd (cap_keys prefix d) = snd (cap_keys prefix d') \<longleftrightarrow> d = d'"
  "fst (cap_keys prefix d) = fst (cap_keys prefix d')"
  by (simp_all add: cap_keys_def)

lemmas rcap_defs = rcap_reserve_def rcap_renew_def rcap_release_def

text \<open>All sorted sets stay sets.\<close>

definition rcap_ok :: "redis_cap \<Rightarrow> bool" where
  "rcap_ok s \<longleftrightarrow> (\<forall>k v. dict_get s k = Some v \<longrightarrow> dict_ok (members v))"

lemma zmem_ok [simp]: "rcap_ok s \<Longrightarrow> dict_ok (zmem k now s)"
  by (auto simp: rcap_ok_def rload_def split: option.split)

lemma rcap_ok_rsave: "rcap_ok s \<Longrightarrow> dict_ok (members v) \<Longrightarrow> rcap_ok (rsave k v s)"
  by (auto simp: rcap_ok_def rsave_def dict_simps)

lemma rcap_ok_writes [simp]:
  "rcap_ok s \<Longrightarrow> rcap_ok (zremrange k now s)"
  "rcap_ok s \<Longrightarrow> rcap_ok (zput k sc m now s)"
  "rcap_ok s \<Longrightarrow> rcap_ok (zdel k m now s)"
  "rcap_ok s \<Longrightarrow> rcap_ok (rexpire k ttl now s)"
  by (simp_all add: zremrange_def zput_def zdel_def rexpire_def rcap_ok_rsave)

definition rcap_held :: "string \<Rightarrow> redis_cap \<Rightarrow> int \<Rightarrow> capacity_reservation \<Rightarrow> bool" where
  "rcap_held prefix s now r \<longleftrightarrow>
     (\<exists>e. zscore (fst (cap_keys prefix (res_domain r))) (lease_id r) now s = Some e \<and> now < e) \<and>
     (\<exists>e. zscore (snd (cap_keys prefix (res_domain r))) (lease_id r) now s = Some e \<and> now < e)"

interpretation redis_cap: capacity_backend rcap_ok "rcap_reserve prefix" "rcap_renew prefix"
    "rcap_release prefix" "rcap_held prefix" for prefix :: string
proof
  fix s :: redis_cap and ls :: seconds and r q :: capacity_reservation and gl dl er now d t b
  assume ok: "rcap_ok s"
  obtain gk dk where k: "cap_keys prefix (res_domain r) = (gk, dk)" by fastforce
  have gd: "gk \<noteq> dk" using cap_keys_distinct(1) [of prefix "res_domain r" "res_domain r"] k by simp
  show "rcap_ok (snd (rcap_reserve prefix r gl dl er ls now s))"
    using ok by (simp add: rcap_reserve_def k)
  show "rcap_ok (snd (rcap_renew prefix r ls now s))"
    using ok by (simp add: rcap_renew_def k)
  show "rcap_ok (rcap_release prefix r now s)" using ok by (simp add: rcap_release_def k)
  show "rcap_held prefix t now r \<and> global_used d \<le> gl \<and> domain_used d \<le> dl \<and>
      (res_priority r \<noteq> EMERGENCY \<longrightarrow> global_used d \<le> gl - er)"
    if "0 < ls" "rcap_reserve prefix r gl dl er ls now s = (d, t)" "admitted d"
    using that gd
    by (auto simp: rcap_reserve_def k rcap_held_def zscore_def rkey_simps dict_simps split: if_splits)
  show "rcap_held prefix t now q \<longleftrightarrow> rcap_held prefix s now q"
    if "rcap_reserve prefix r gl dl er ls now s = (d, t)" "\<not> admitted d"
  proof -
    have t: "t = zremrange dk now (zremrange gk now s)"
      using that by (auto simp: rcap_reserve_def k split: if_splits)
    show ?thesis
      unfolding t rcap_held_def zscore_def
      using ok by (auto simp: rkey_simps dict_get_filter split: option.splits if_splits)
  qed
  show "(b \<longleftrightarrow> rcap_held prefix s now r) \<and> (b \<longrightarrow> rcap_held prefix t now r)"
    if "0 < ls" "rcap_renew prefix r ls now s = (b, t)"
    using that gd
    by (auto simp: rcap_renew_def k rcap_held_def zscore_def rkey_simps dict_simps not_le
        split: if_splits option.splits)
  show "\<not> rcap_held prefix (rcap_release prefix r now s) now r"
    using gd by (auto simp: rcap_release_def k rcap_held_def zscore_def rkey_simps dict_simps)
qed

end
