(* ===== verification/Runtime_Capacity.thy ===== *)
theory Runtime_Capacity
  imports Domain_Capacity
begin

section \<open>Runtime capacity admission (middleware/runtime\_capacity.py)\<close>

text \<open>
  Weighted admission of HTTP requests: every request reserves operational capacity units (OCU)
  under a global limit and a limit of its actor for as long as it runs. The in-memory backend,
  the Redis scripts, the per-process accounting of OCU-seconds (middleware/runtime\_capacity\_metrics.py)
  and the dispatch of one request. Expiry times are milliseconds for Redis and seconds in memory.
  The scripts run as one step; a Redis hash and a sorted set are both a dictionary with a time to
  live, as in the model of the domain capacity keys. The clock of a client and of the server are
  taken to agree.
\<close>

subsection \<open>Policy and weights\<close>

record rc_policy =
  rc_enabled :: bool
  global_limit_ocu :: int
  actor_limit_ocu :: int
  rc_lease_seconds :: int
  wait_ms :: int
  retry_ms :: int
  route_weights :: "(string, int) dict"

text \<open>\<open>int(text)\<close>: surrounding blanks, a sign, decimal digits with single underscores between them.\<close>

definition digit_value :: "char \<Rightarrow> int option" where
  "digit_value c = (let n = (of_char c :: int) in if 48 \<le> n \<and> n \<le> 57 then Some (n - 48) else None)"

fun py_digits :: "int \<Rightarrow> string \<Rightarrow> int option" where
  "py_digits acc [] = Some acc"
| "py_digits acc (c # cs) =
     (case digit_value c of
        Some d \<Rightarrow> py_digits (10 * acc + d) cs
      | None \<Rightarrow>
          (if c = CHR ''_'' then
             (case cs of
                c' # cs' \<Rightarrow> (case digit_value c' of Some d \<Rightarrow> py_digits (10 * acc + d) cs' | None \<Rightarrow> None)
              | [] \<Rightarrow> None)
           else None))"

definition py_int :: "string \<Rightarrow> exc + int" where
  "py_int s =
     (let t = py_strip s;
          (neg, u) = (case t of c # cs \<Rightarrow>
                        if c = CHR ''-'' then (True, cs) else if c = CHR ''+'' then (False, cs) else (False, t)
                      | [] \<Rightarrow> (False, t));
          r = (case u of c # cs \<Rightarrow> (case digit_value c of Some d \<Rightarrow> py_digits d cs | None \<Rightarrow> None) | [] \<Rightarrow> None)
      in case r of
           None \<Rightarrow> Inl (ValueError (''invalid literal for int() with base 10: '' @ s))
         | Some n \<Rightarrow> Inr (if neg then - n else n))"

definition env_int :: "(string \<Rightarrow> string option) \<Rightarrow> string \<Rightarrow> string \<Rightarrow> int \<Rightarrow> exc + int" where
  "env_int env name dflt lo =
     (case py_int (case env name of None \<Rightarrow> dflt | Some v \<Rightarrow> v) of
        Inl e \<Rightarrow> Inl e | Inr n \<Rightarrow> Inr (max n lo))"

text \<open>\<open>weights\<close> is the table that parsing \<open>CAPACITY_ROUTE_WEIGHTS_JSON\<close> gives, before the minimum of
  one is applied; a text that does not parse gives no table.\<close>

definition policy_from_env ::
    "(string \<Rightarrow> string option) \<Rightarrow> (string, int) dict option \<Rightarrow> exc + rc_policy" where
  "policy_from_env env weights =
     (let enabled = (py_lower (case env ''CAPACITY_GUARD_ENABLED'' of None \<Rightarrow> ''true'' | Some v \<Rightarrow> v) = ''true'')
      in case env_int env ''CAPACITY_GLOBAL_LIMIT_OCU'' ''40'' 1 of Inl e \<Rightarrow> Inl e | Inr gl \<Rightarrow>
         case env_int env ''CAPACITY_ACTOR_LIMIT_OCU'' ''12'' 1 of Inl e \<Rightarrow> Inl e | Inr al \<Rightarrow>
         case env_int env ''CAPACITY_LEASE_SECONDS'' ''120'' 5 of Inl e \<Rightarrow> Inl e | Inr ls \<Rightarrow>
         case env_int env ''CAPACITY_WAIT_MS'' ''250'' 0 of Inl e \<Rightarrow> Inl e | Inr wt \<Rightarrow>
         case env_int env ''CAPACITY_RETRY_MS'' ''25'' 5 of Inl e \<Rightarrow> Inl e | Inr rt \<Rightarrow>
           Inr \<lparr>rc_enabled = enabled, global_limit_ocu = gl, actor_limit_ocu = al, rc_lease_seconds = ls,
                wait_ms = wt, retry_ms = rt,
                route_weights = (case weights of None \<Rightarrow> [] | Some ws \<Rightarrow> dict_map (\<lambda>w. max w 1) ws)\<rparr>)"

record http_request =
  rq_path :: string
  rq_method :: string
  rq_content_length :: "string option"

definition starts_with :: "string \<Rightarrow> string \<Rightarrow> bool" where
  "starts_with s p \<longleftrightarrow> take (length p) s = p"

definition request_weight :: "http_request \<Rightarrow> rc_policy \<Rightarrow> int" where
  "request_weight q p =
     (case dict_get (route_weights p) (rq_path q) of
        Some w \<Rightarrow> w
      | None \<Rightarrow>
          if rq_method q \<in> {''GET'', ''HEAD'', ''OPTIONS''} then 1
          else if rq_path q = ''/cgt/govern/batch'' then 4
          else if starts_with (rq_path q) ''/cgt/govern'' then 3
          else if rq_path q = ''/workflows'' then
            (let text = (case rq_content_length q of None \<Rightarrow> ''0'' | Some t \<Rightarrow> if t = [] then ''0'' else t);
                 n = (case py_int text of Inl _ \<Rightarrow> 0 | Inr n \<Rightarrow> n)
             in if 20000 \<le> n then 3 else 2)
          else 2)"

subsection \<open>The in-memory backend\<close>

record wreservation =
  wr_lease_id :: string
  wr_weight :: int
  wr_actor :: "string option"

record wdecision =
  wd_admitted :: bool
  wd_global_used :: int
  wd_actor_used :: int
  wd_reason :: string

type_synonym wentry = "seconds \<times> int \<times> string option"
type_synonym wleases = "(string, wentry) dict"

definition w_cleanup :: "seconds \<Rightarrow> wleases \<Rightarrow> wleases" where
  "w_cleanup now s = filter (\<lambda>(k, e, w, a). \<not> e \<le> now) s"

definition w_total :: "wleases \<Rightarrow> int" where
  "w_total s = sum_list (map (\<lambda>(k, e, w, a). w) s)"

definition of_actor :: "string \<Rightarrow> wleases \<Rightarrow> wleases" where
  "of_actor a s = filter (\<lambda>(k, e, w, a'). a' = Some a) s"

definition w_usage :: "string option \<Rightarrow> wleases \<Rightarrow> int \<times> int" where
  "w_usage a s = (w_total s, case a of None \<Rightarrow> 0 | Some x \<Rightarrow> w_total (of_actor x s))"

definition w_reserve ::
    "wreservation \<Rightarrow> int \<Rightarrow> int \<Rightarrow> seconds \<Rightarrow> seconds \<Rightarrow> wleases \<Rightarrow> wdecision \<times> wleases" where
  "w_reserve r gl al ls now s0 =
     (let s = w_cleanup now s0; (gu, au) = w_usage (wr_actor r) s; w = wr_weight r;
          refused = (\<lambda>why. (\<lparr>wd_admitted = False, wd_global_used = gu, wd_actor_used = au, wd_reason = why\<rparr>, s))
      in if gl < gu + w then refused ''global''
         else if wr_actor r \<noteq> None \<and> al < au + w then refused ''actor''
         else (\<lparr>wd_admitted = True, wd_global_used = gu + w,
                wd_actor_used = (if wr_actor r \<noteq> None then au + w else au), wd_reason = []\<rparr>,
               dict_set (wr_lease_id r) (now + ls, w, wr_actor r) s))"

definition w_renew :: "wreservation \<Rightarrow> seconds \<Rightarrow> seconds \<Rightarrow> wleases \<Rightarrow> bool \<times> wleases" where
  "w_renew r ls now s0 =
     (let s = w_cleanup now s0 in
      case dict_get s (wr_lease_id r) of
        None \<Rightarrow> (False, s)
      | Some (e, w, a) \<Rightarrow>
          if w \<noteq> wr_weight r \<or> a \<noteq> wr_actor r then (False, s)
          else (True, dict_set (wr_lease_id r) (now + ls, w, a) s))"

definition w_release :: "wreservation \<Rightarrow> wleases \<Rightarrow> wleases" where
  "w_release r s = dict_pop (wr_lease_id r) s"

subsection \<open>The Redis scripts\<close>

definition rc_keys :: "string option \<Rightarrow> string \<times> string \<times> string \<times> string" where
  "rc_keys a =
     (let p = ''{maestro-capacity}''; n = (case a of None \<Rightarrow> ''none'' | Some x \<Rightarrow> if x = [] then ''none'' else x)
      in (p @ '':global:expiry'', p @ '':global:weights'',
          p @ '':actor:'' @ n @ '':expiry'', p @ '':actor:'' @ n @ '':weights''))"

definition rc_cleanup :: "string \<Rightarrow> string \<Rightarrow> int \<Rightarrow> redis_cap \<Rightarrow> redis_cap" where
  "rc_cleanup zk hk now s =
     fold (\<lambda>k s. zdel hk k now (zdel zk k now s)) (map fst (filter (\<lambda>(k, sc). sc \<le> now) (zmem zk now s))) s"

definition rc_total :: "string \<Rightarrow> int \<Rightarrow> redis_cap \<Rightarrow> int" where
  "rc_total hk now s = sum_list (map snd (zmem hk now s))"

definition rc_ttl :: "int \<Rightarrow> int" where
  "rc_ttl ms = max (((ms + 999) div 1000) * 2) 10"

definition rc_write :: "string \<Rightarrow> string \<Rightarrow> string \<Rightarrow> int \<Rightarrow> int \<Rightarrow> int \<Rightarrow> redis_cap \<Rightarrow> redis_cap" where
  "rc_write zk hk k expiry w now s =
     rexpire hk (rc_ttl (expiry - now)) now (rexpire zk (rc_ttl (expiry - now)) now
       (zput hk w k now (zput zk expiry k now s)))"

definition rc_reserve ::
    "wreservation \<Rightarrow> int \<Rightarrow> int \<Rightarrow> int \<Rightarrow> int \<Rightarrow> redis_cap \<Rightarrow> wdecision \<times> redis_cap" where
  "rc_reserve r gl al ls now s0 =
     (let (gz, gh, az, ah) = rc_keys (wr_actor r); has_actor = (wr_actor r \<noteq> None);
          expiry = now + ls * 1000; w = wr_weight r; k = wr_lease_id r;
          s1 = rc_cleanup gz gh now s0; gu = rc_total gh now s1
      in if gl < gu + w
         then (\<lparr>wd_admitted = False, wd_global_used = gu, wd_actor_used = 0, wd_reason = ''global''\<rparr>, s1)
         else
           let s2 = (if has_actor then rc_cleanup az ah now s1 else s1);
               au = (if has_actor then rc_total ah now s2 else 0)
           in if has_actor \<and> al < au + w
              then (\<lparr>wd_admitted = False, wd_global_used = gu, wd_actor_used = au, wd_reason = ''actor''\<rparr>, s2)
              else
                let s3 = rc_write gz gh k expiry w now s2;
                    s4 = (if has_actor then rc_write az ah k expiry w now s3 else s3)
                in (\<lparr>wd_admitted = True, wd_global_used = gu + w,
                     wd_actor_used = au + (if has_actor then w else 0), wd_reason = []\<rparr>, s4))"

definition rc_remove :: "string \<times> string \<times> string \<times> string \<Rightarrow> bool \<Rightarrow> string \<Rightarrow> int \<Rightarrow> redis_cap \<Rightarrow> redis_cap" where
  "rc_remove ks has_actor k now s =
     (let (gz, gh, az, ah) = ks; s1 = zdel gh k now (zdel gz k now s)
      in if has_actor then zdel ah k now (zdel az k now s1) else s1)"

definition rc_refresh :: "string \<Rightarrow> string \<Rightarrow> string \<Rightarrow> int \<Rightarrow> int \<Rightarrow> redis_cap \<Rightarrow> redis_cap" where
  "rc_refresh zk hk k expiry now s =
     rexpire hk (rc_ttl (expiry - now)) now (rexpire zk (rc_ttl (expiry - now)) now (zput zk expiry k now s))"

definition rc_renew :: "wreservation \<Rightarrow> int \<Rightarrow> int \<Rightarrow> redis_cap \<Rightarrow> bool \<times> redis_cap" where
  "rc_renew r ls now s =
     (let (gz, gh, az, ah) = rc_keys (wr_actor r); has_actor = (wr_actor r \<noteq> None);
          expiry = now + ls * 1000; k = wr_lease_id r;
          dead = (\<lambda>zk hk. (case zscore zk k now s of None \<Rightarrow> True | Some e \<Rightarrow> e \<le> now) \<or> zscore hk k now s = None);
          lost = (False, rc_remove (gz, gh, az, ah) has_actor k now s)
      in if dead gz gh then lost
         else if has_actor \<and> dead az ah then lost
         else if has_actor \<and> zscore ah k now s \<noteq> zscore gh k now s then lost
         else
           let s1 = rc_refresh gz gh k expiry now s
           in (True, if has_actor then rc_refresh az ah k expiry now s1 else s1))"

definition rc_release :: "wreservation \<Rightarrow> int \<Rightarrow> redis_cap \<Rightarrow> redis_cap" where
  "rc_release r now s = rc_remove (rc_keys (wr_actor r)) (wr_actor r \<noteq> None) (wr_lease_id r) now s"

subsection \<open>Accounting\<close>

record lease_accounting =
  la_weight :: int
  la_admitted_at :: seconds
  la_expires_at :: seconds

text \<open>The exported counters are kept beside the leases.\<close>

record accounting =
  acc_leases :: "(string, lease_accounting) dict"
  active_ocu :: int
  total_units :: seconds
  expirations :: nat

definition operational_statistical_units :: "int \<Rightarrow> seconds \<Rightarrow> seconds \<Rightarrow> seconds \<Rightarrow> seconds" where
  "operational_statistical_units w from_t finished_t expires_t =
     (let occupied_until = min (max finished_t from_t) expires_t;
          duration = max (occupied_until - from_t) 0
      in of_int w * duration)"

definition acc_admitted :: "string \<Rightarrow> int \<Rightarrow> seconds \<Rightarrow> int \<Rightarrow> accounting \<Rightarrow> bool \<times> accounting" where
  "acc_admitted k w now ls a =
     (if dict_get (acc_leases a) k \<noteq> None then (False, a)
      else (True, a\<lparr>acc_leases := dict_set k \<lparr>la_weight = w, la_admitted_at = now, la_expires_at = now + of_int ls\<rparr> (acc_leases a),
                    active_ocu := active_ocu a + w\<rparr>))"

definition acc_renewed :: "string \<Rightarrow> seconds \<Rightarrow> int \<Rightarrow> accounting \<Rightarrow> bool \<times> accounting" where
  "acc_renewed k now ls a =
     (case dict_get (acc_leases a) k of
        None \<Rightarrow> (False, a)
      | Some l \<Rightarrow> (True, a\<lparr>acc_leases := dict_set k (l\<lparr>la_expires_at := max (la_expires_at l) (now + of_int ls)\<rparr>) (acc_leases a)\<rparr>))"

definition acc_lease_expires_at :: "string \<Rightarrow> accounting \<Rightarrow> seconds option" where
  "acc_lease_expires_at k a = map_option la_expires_at (dict_get (acc_leases a) k)"

definition acc_released :: "string \<Rightarrow> seconds \<Rightarrow> accounting \<Rightarrow> seconds \<times> accounting" where
  "acc_released k fin a =
     (case dict_get (acc_leases a) k of
        None \<Rightarrow> (0, a)
      | Some l \<Rightarrow>
          let units = operational_statistical_units (la_weight l) (la_admitted_at l) fin (la_expires_at l)
          in (units, a\<lparr>acc_leases := dict_pop k (acc_leases a), active_ocu := active_ocu a - la_weight l,
                       total_units := total_units a + units,
                       expirations := expirations a + (if la_expires_at l \<le> fin then 1 else 0)\<rparr>))"

subsection \<open>Dispatch of one request\<close>

text \<open>
  What the middleware calls on a backend for one reservation. Admission polls as the controller
  of domain capacity does, and ends early when the reservation raises or the dispatch is cancelled
  (\<open>ARaises\<close>: whatever the call has done to the backend by then). While the request runs, other
  requests change the backend, heartbeats renew the lease (a renewal that raises counts as lost),
  and the request ends with a response, an exception, or the cancellation of the dispatch. The two
  tasks that are then cancelled and awaited may raise something other than \<open>CancelledError\<close>:
  \<open>task_ends\<close> says which of them does. Raised inside the \<open>finally\<close> clause such an exception skips
  the release and the accounting (\<open>Abandoned\<close>); raised in the body it does not.
\<close>

record ('s, 't) wbackend =
  wb_reserve :: "'t \<Rightarrow> 's \<Rightarrow> wdecision \<times> 's"
  wb_renew :: "'t \<Rightarrow> 's \<Rightarrow> bool \<times> 's"
  wb_release :: "'t \<Rightarrow> 's \<Rightarrow> 's"

datatype ('s, 't) admission_event = APoll "('s, 't) poll" | ARaises "'s \<Rightarrow> 's"

fun admit_loop ::
    "('s, 't) wbackend \<Rightarrow> seconds \<Rightarrow> ('s, 't) admission_event list \<Rightarrow> 's \<Rightarrow> (wdecision option \<times> 's) option" where
  "admit_loop b deadline [] s = None"
| "admit_loop b deadline (ARaises f # qs) s = Some (None, f s)"
| "admit_loop b deadline (APoll q # qs) s =
     (let (d, t) = wb_reserve b (poll_now q) (poll_env q s)
      in if wd_admitted d then Some (Some d, t)
         else if deadline \<le> poll_clock q then Some (Some d, t)
         else admit_loop b deadline qs t)"

datatype ('s, 't) revent =
    ROthers "'s \<Rightarrow> 's"
  | RBeat 't seconds bool
  | RDone int
  | RRaised
  | RCancelled

record task_ends =
  request_raises :: bool
  heartbeat_raises :: bool

datatype served = Lease_Lost | Responded int | Propagates | Abandoned

fun serve ::
    "('s, 't) wbackend \<Rightarrow> string \<Rightarrow> int \<Rightarrow> task_ends \<Rightarrow> ('s, 't) revent list \<Rightarrow> 's \<Rightarrow> accounting
      \<Rightarrow> (served \<times> 's \<times> accounting) option" where
  "serve b k ls te [] s a = None"
| "serve b k ls te (ROthers f # es) s a = serve b k ls te es (f s) a"
| "serve b k ls te (RBeat now clock raises # es) s a =
     (let (renewed, t) = (if raises then (False, s) else wb_renew b now s)
      in if renewed then serve b k ls te es t (snd (acc_renewed k clock ls a))
         else Some (if request_raises te then Propagates else Lease_Lost, t, a))"
| "serve b k ls te (RDone code # es) s a =
     Some (if heartbeat_raises te then Propagates else Responded code, s, a)"
| "serve b k ls te (RRaised # es) s a = Some (if heartbeat_raises te then Abandoned else Propagates, s, a)"
| "serve b k ls te (RCancelled # es) s a =
     Some (if heartbeat_raises te \<or> request_raises te then Abandoned else Propagates, s, a)"

record dispatched =
  d_code :: "int option"
  d_reason :: string
  d_units :: "seconds option"
  d_lease_expires :: bool

definition propagated :: dispatched where
  "propagated = \<lparr>d_code = None, d_reason = [], d_units = None, d_lease_expires = False\<rparr>"

text \<open>The \<open>finally\<close> clause: release, and settle the account. A release that raises an \<open>Exception\<close>
  or is cancelled may have reached the backend or not; only the \<open>Exception\<close> is caught.\<close>

datatype release_end = Release_Returns | Release_Fails bool | Release_Cancelled bool

fun released_on :: "('s, 't) wbackend \<Rightarrow> 't \<Rightarrow> release_end \<Rightarrow> 's \<Rightarrow> 's" where
  "released_on b now Release_Returns s = wb_release b now s"
| "released_on b now (Release_Fails applied) s = (if applied then wb_release b now s else s)"
| "released_on b now (Release_Cancelled applied) s = (if applied then wb_release b now s else s)"

definition settle_account ::
    "string \<Rightarrow> served \<Rightarrow> seconds \<Rightarrow> bool \<Rightarrow> accounting \<Rightarrow> dispatched \<times> accounting" where
  "settle_account k r fin release_failed a =
     (let fin' = (if release_failed then (case acc_lease_expires_at k a of None \<Rightarrow> fin | Some e \<Rightarrow> e) else fin);
          (units, a') = acc_released k fin' a
      in (case r of
            Lease_Lost \<Rightarrow> \<lparr>d_code = Some 503, d_reason = ''lease_lost'', d_units = Some units, d_lease_expires = release_failed\<rparr>
          | Responded code \<Rightarrow> \<lparr>d_code = Some code, d_reason = [], d_units = Some units, d_lease_expires = release_failed\<rparr>
          | _ \<Rightarrow> propagated, a'))"

definition settle_request ::
    "('s, 't) wbackend \<Rightarrow> string \<Rightarrow> served \<Rightarrow> 't \<Rightarrow> seconds \<Rightarrow> release_end \<Rightarrow> 's \<Rightarrow> accounting
      \<Rightarrow> dispatched \<times> 's \<times> accounting" where
  "settle_request b k r now fin re s a =
     (if r = Abandoned then (propagated, s, a)
      else let t = released_on b now re s
      in case re of
           Release_Cancelled applied \<Rightarrow> (propagated, t, a)
         | Release_Fails applied \<Rightarrow> (let (d, a') = settle_account k r fin True a in (d, t, a'))
         | Release_Returns \<Rightarrow> (let (d, a') = settle_account k r fin False a in (d, t, a')))"

definition exempt_paths :: "string set" where
  "exempt_paths = {''/health/live'', ''/health/ready'', ''/metrics''}"

definition dispatch ::
    "rc_policy \<Rightarrow> http_request \<Rightarrow> bool \<Rightarrow> bool \<Rightarrow> ('s, 't) wbackend \<Rightarrow> string \<Rightarrow> seconds
      \<Rightarrow> ('s, 't) admission_event list \<Rightarrow> seconds \<Rightarrow> task_ends \<Rightarrow> ('s, 't) revent list \<Rightarrow> 't \<Rightarrow> seconds
      \<Rightarrow> release_end \<Rightarrow> int option \<Rightarrow> 's \<Rightarrow> accounting \<Rightarrow> (dispatched \<times> 's \<times> accounting) option" where
  "dispatch p q has_redis production b k clock qs admitted_at te es rel_now fin re plain s a =
     (if \<not> rc_enabled p \<or> rq_path q \<in> exempt_paths
      then Some (\<lparr>d_code = plain, d_reason = [], d_units = None, d_lease_expires = False\<rparr>, s, a)
      else if \<not> has_redis \<and> production
      then Some (\<lparr>d_code = Some 503, d_reason = ''backend_unavailable'', d_units = None, d_lease_expires = False\<rparr>, s, a)
      else case admit_loop b (clock + of_int (wait_ms p) / 1000) qs s of
          None \<Rightarrow> None
        | Some (None, t) \<Rightarrow> Some (propagated, t, a)
        | Some (Some d, t) \<Rightarrow>
            if \<not> wd_admitted d
            then Some (\<lparr>d_code = Some 429, d_reason = (if wd_reason d = [] then ''saturated'' else wd_reason d),
                        d_units = None, d_lease_expires = False\<rparr>, t, a)
            else
              let a1 = snd (acc_admitted k (request_weight q p) admitted_at (rc_lease_seconds p) a)
              in case serve b k (rc_lease_seconds p) te es t a1 of
                   None \<Rightarrow> None
                 | Some (r, u, a2) \<Rightarrow> Some (settle_request b k r rel_now fin re u a2))"

definition mem_wbackend :: "rc_policy \<Rightarrow> wreservation \<Rightarrow> (wleases, seconds) wbackend" where
  "mem_wbackend p r =
     \<lparr>wb_reserve = w_reserve r (global_limit_ocu p) (actor_limit_ocu p) (of_int (rc_lease_seconds p)),
      wb_renew = w_renew r (of_int (rc_lease_seconds p)),
      wb_release = (\<lambda>now. w_release r)\<rparr>"

definition redis_wbackend :: "rc_policy \<Rightarrow> wreservation \<Rightarrow> (redis_cap, int) wbackend" where
  "redis_wbackend p r =
     \<lparr>wb_reserve = rc_reserve r (global_limit_ocu p) (actor_limit_ocu p) (rc_lease_seconds p),
      wb_renew = rc_renew r (rc_lease_seconds p),
      wb_release = rc_release r\<rparr>"

subsection \<open>Limits along any run\<close>

definition wsum :: "(string \<times> wentry \<Rightarrow> bool) \<Rightarrow> wleases \<Rightarrow> int" where
  "wsum P s = sum_list (map (\<lambda>(k, e, w, a). w) (filter P s))"

definition weights_ok :: "wleases \<Rightarrow> bool" where
  "weights_ok s \<longleftrightarrow> (\<forall>(k, e, w, a) \<in> set s. 0 \<le> w)"

lemma w_total_wsum: "w_total s = wsum (\<lambda>_. True) s" "w_total (of_actor x s) = wsum (\<lambda>(k, e, w, a). a = Some x) s"
  by (simp_all add: w_total_def wsum_def of_actor_def)

lemma weights_ok_simps [simp]:
  "weights_ok []" "weights_ok ((k, e, w, a) # s) \<longleftrightarrow> 0 \<le> w \<and> weights_ok s"
  by (auto simp: weights_ok_def)

lemma wsum_simps [simp]:
  "wsum P [] = 0" "wsum P ((k, e, w, a) # s) = (if P (k, e, w, a) then w else 0) + wsum P s"
  by (simp_all add: wsum_def)

lemma weights_ok_filter: "weights_ok s \<Longrightarrow> weights_ok (filter Q s)"
  by (auto simp: weights_ok_def)

lemma weights_ok_set: "weights_ok s \<Longrightarrow> 0 \<le> w \<Longrightarrow> weights_ok (dict_set k (e, w, a) s)"
  by (induction s) (auto simp: weights_ok_def)

lemma wsum_filter: "weights_ok s \<Longrightarrow> wsum P (filter Q s) \<le> wsum P s"
  by (induction s) auto

lemma wsum_set:
  "weights_ok s \<Longrightarrow> 0 \<le> w \<Longrightarrow> wsum P (dict_set k (e, w, a) s) \<le> wsum P s + (if P (k, e, w, a) then w else 0)"
  by (induction s) auto

lemma wsum_set_same:
  "dict_get s k = Some (e, w, a) \<Longrightarrow> P (k, e', w, a) = P (k, e, w, a) \<Longrightarrow>
     wsum P (dict_set k (e', w, a) s) = wsum P s"
  by (induction s) (auto split: if_splits)

lemma w_cleanup_facts:
  assumes "weights_ok s" and "dict_ok s"
  shows "weights_ok (w_cleanup now s)" and "dict_ok (w_cleanup now s)" and "wsum P (w_cleanup now s) \<le> wsum P s"
  using assms by (simp_all add: w_cleanup_def weights_ok_filter wsum_filter)

definition w_within :: "int \<Rightarrow> int \<Rightarrow> wleases \<Rightarrow> bool" where
  "w_within gl al s \<longleftrightarrow> dict_ok s \<and> weights_ok s \<and> w_total s \<le> gl \<and> (\<forall>x. w_total (of_actor x s) \<le> al)"

text \<open>Any reservations with non-negative weights under fixed limits, renewals and releases.\<close>

inductive w_step :: "int \<Rightarrow> int \<Rightarrow> wleases \<Rightarrow> wleases \<Rightarrow> bool" for gl al where
  reserve: "0 \<le> wr_weight r \<Longrightarrow> w_step gl al s (snd (w_reserve r gl al ls now s))"
| renew: "w_step gl al s (snd (w_renew r ls now s))"
| release: "w_step gl al s (w_release r s)"

lemma w_reserve_cases:
  obtains (refused) "\<not> wd_admitted (fst (w_reserve r gl al ls now s))"
      and "snd (w_reserve r gl al ls now s) = w_cleanup now s"
    | (admitted) "wd_admitted (fst (w_reserve r gl al ls now s))"
      and "snd (w_reserve r gl al ls now s) =
        dict_set (wr_lease_id r) (now + ls, wr_weight r, wr_actor r) (w_cleanup now s)"
      and "w_total (w_cleanup now s) + wr_weight r \<le> gl"
      and "\<And>x. wr_actor r = Some x \<Longrightarrow> w_total (of_actor x (w_cleanup now s)) + wr_weight r \<le> al"
proof (cases "wd_admitted (fst (w_reserve r gl al ls now s))")
  case False
  then have "snd (w_reserve r gl al ls now s) = w_cleanup now s"
    by (auto simp: w_reserve_def w_usage_def split: if_splits)
  with False show ?thesis by (rule refused)
next
  case True
  then show ?thesis
    by (intro admitted) (auto simp: w_reserve_def w_usage_def split: if_splits)
qed

lemma w_shrink:
  assumes "w_within gl al s" and "dict_ok t" and "weights_ok t"
    and "\<And>P. (\<And>k e e' w a. P (k, e, w, a) = P (k, e', w, a)) \<Longrightarrow> wsum P t \<le> wsum P s"
  shows "w_within gl al t"
proof -
  have "w_total t \<le> w_total s" unfolding w_total_wsum(1) by (rule assms(4)) simp
  moreover have "w_total (of_actor x t) \<le> w_total (of_actor x s)" for x
    unfolding w_total_wsum(2) by (rule assms(4)) simp
  ultimately show ?thesis using assms(1-3) unfolding w_within_def by (meson order_trans)
qed

lemma w_step_within:
  assumes w: "w_within gl al s" and "w_step gl al s t"
  shows "w_within gl al t"
  using assms(2)
proof cases
  case (reserve r ls now)
  let ?c = "w_cleanup now s"
  have ok: "dict_ok s" "weights_ok s" using w by (auto simp: w_within_def)
  note c = w_cleanup_facts [OF ok(2,1), where now = now]
  have within: "w_within gl al ?c" using w c by (intro w_shrink [OF w]) auto
  show ?thesis
  proof (cases rule: w_reserve_cases [of r gl al ls now s])
    case refused
    with within reserve show ?thesis by simp
  next
    case admitted
    let ?t = "dict_set (wr_lease_id r) (now + ls, wr_weight r, wr_actor r) ?c"
    have "w_total ?t \<le> gl"
      using wsum_set [OF c(1) reserve(2), of "\<lambda>_. True" "wr_lease_id r" "now + ls" "wr_actor r"] admitted(3)
      unfolding w_total_wsum(1) by simp
    moreover have "w_total (of_actor x ?t) \<le> al" for x
      using wsum_set [OF c(1) reserve(2), of "\<lambda>(k, e, w, a). a = Some x" "wr_lease_id r" "now + ls" "wr_actor r"]
        admitted(4) [of x] within
      unfolding w_within_def w_total_wsum(2) by (cases "wr_actor r = Some x") (auto intro: order_trans)
    ultimately show ?thesis
      using c reserve admitted(2) by (simp add: w_within_def weights_ok_set)
  qed
next
  case (renew r ls now)
  have ok: "dict_ok s" "weights_ok s" using w by (auto simp: w_within_def)
  note c = w_cleanup_facts [OF ok(2,1), where now = now]
  show ?thesis
  proof (cases "t = w_cleanup now s")
    case True
    with c show ?thesis by (intro w_shrink [OF w]) auto
  next
    case False
    then obtain e where e: "dict_get (w_cleanup now s) (wr_lease_id r) = Some (e, wr_weight r, wr_actor r)"
      "t = dict_set (wr_lease_id r) (now + ls, wr_weight r, wr_actor r) (w_cleanup now s)"
      using renew by (auto simp: w_renew_def split: option.splits if_splits)
    have "0 \<le> wr_weight r" using e(1) c(1) by (auto simp: weights_ok_def dest: map_of_SomeD)
    moreover have "wsum P t = wsum P (w_cleanup now s)" if "\<And>k e e' w a. P (k, e, w, a) = P (k, e', w, a)" for P
      unfolding e(2) by (rule wsum_set_same [OF e(1)]) (rule that)
    ultimately show ?thesis
      using c e(2) by (intro w_shrink [OF w]) (auto simp: weights_ok_set)
  qed
next
  case (release r)
  have ok: "dict_ok s" "weights_ok s" using w by (auto simp: w_within_def)
  with release show ?thesis
    by (intro w_shrink [OF w]) (auto simp: w_release_def AList.delete_eq wsum_filter weights_ok_filter)
qed

end
