(* ===== verification/Capacity_Limits.thy ===== *)
theory Capacity_Limits
  imports Domain_Capacity
begin

section \<open>Properties of domain capacity\<close>

text \<open>
  The limits along any run of the in-memory backend, what the controller guarantees on the Redis
  backend, the simulation of the in-memory backend by the Redis scripts as long as Redis expires
  none of their keys, and the loss of live leases when it does.
\<close>

subsection \<open>Limits\<close>

definition emergencies :: "leases \<Rightarrow> leases" where
  "emergencies s = filter (\<lambda>(k, e, d, p). p = EMERGENCY) s"

lemma routine_emergencies: "length s = length (routine s) + length (emergencies s)"
  by (induction s) (auto simp: routine_def emergencies_def)

text \<open>C7. The capacity limits hold along any run of a backend under a valid policy: never more
  leases than the global limit, never more in a domain than its limit, never a lease in a domain
  that is not configured, and leases of ordinary priority never touch the emergency reserve. An
  emergency reservation in a domain with room is therefore refused only when at least as many
  emergency leases as the reserve are live.\<close>

theorem capacity_limits_hold:
  assumes "capacity_policy_error p = None" and "(cap_step p)\<^sup>*\<^sup>* [] s"
  shows "int (length s) \<le> global_limit p \<and>
    int (length (routine s)) \<le> global_limit p - emergency_reserve p \<and>
    (\<forall>d. in_domain d s = [] \<or> (\<exists>l. limit_for p d = Inr l \<and> int (length (in_domain d s)) \<le> l)) \<and>
    (\<forall>r dl ls now d t. res_priority r = EMERGENCY \<longrightarrow> limit_for p (res_domain r) = Inr dl \<longrightarrow>
       cap_reserve r (global_limit p) dl (emergency_reserve p) ls now s = (d, t) \<longrightarrow>
       \<not> admitted d \<longrightarrow> dl \<le> domain_used d \<or> emergency_reserve p \<le> int (length (emergencies t)))"
proof -
  have w: "cap_within p s" using cap.steps_inv [OF assms(2)] cap_within_empty [OF assms(1)] by blast
  have "dl \<le> domain_used d \<or> emergency_reserve p \<le> int (length (emergencies t))"
    if r: "res_priority r = EMERGENCY" and dl: "limit_for p (res_domain r) = Inr dl"
      and run: "cap_reserve r (global_limit p) dl (emergency_reserve p) ls now s = (d, t)"
      and no: "\<not> admitted d" for r dl ls now d t
  proof -
    have "cap_within p t" using cap_reserve_within [OF w dl, of ls now] run by simp
    moreover have "t = cap_cleanup now s \<and> (global_limit p \<le> int (length t) \<or> dl \<le> domain_used d)"
      using run no r by (cases rule: cap_reserve_cases [of r "global_limit p" dl "emergency_reserve p" ls now s]) auto
    ultimately show ?thesis using routine_emergencies [of t] unfolding cap_within_def by linarith
  qed
  with w show ?thesis unfolding cap_within_def domain_within_def by blast
qed

definition ex_policy :: capacity_policy where
  "ex_policy = \<lparr>global_limit = 3, domain_limits = [(''cgt'', 2), (''audit'', 1)], emergency_reserve = 1\<rparr>"

definition ex_res :: "string \<Rightarrow> execution_priority \<Rightarrow> capacity_reservation" where
  "ex_res k prio = \<lparr>lease_id = k, res_domain = ''cgt'', res_priority = prio\<rparr>"

definition ex_leases :: leases where
  "ex_leases = snd (cap_reserve (ex_res ''a'' NORMAL) 3 2 1 30 0 [])"

theorem capacity_limits_hold_witness:
  "capacity_policy_error ex_policy = None \<and> (cap_step ex_policy)\<^sup>*\<^sup>* [] ex_leases \<and>
   length ex_leases = 1 \<and> int (length ex_leases) \<le> global_limit ex_policy"
proof -
  have ok: "capacity_policy_error ex_policy = None" by code_simp
  have "cap_step ex_policy [] ex_leases"
    using cap_step.reserve [of ex_policy "ex_res ''a'' NORMAL" 2 "[]" 30 0]
    by (simp add: ex_leases_def ex_policy_def limit_for_def ex_res_def)
  then have run: "(cap_step ex_policy)\<^sup>*\<^sup>* [] ex_leases" by (rule r_into_rtranclp)
  have "length ex_leases = 1" by code_simp
  with ok run capacity_limits_hold [OF ok run] show ?thesis by blast
qed

subsection \<open>The controller on the Redis backend\<close>

text \<open>Acquiring capacity from Redis ends and is sound: whatever other clients do to the keys,
  if the last of the polls reads a clock at or after the deadline the call has returned; when it
  returns a reservation, that reservation is the caller's and is held at the clock of one poll.\<close>

theorem redis_acquire_sound:
  assumes "rcap_ok s" and "0 < ls" and "\<And>q s. q \<in> set qs \<Longrightarrow> rcap_ok s \<Longrightarrow> rcap_ok (poll_env q s)"
    and "qs \<noteq> []" and "clock + wait \<le> poll_clock (last qs)"
  shows "\<exists>res t. cap_acquire (rcap_reserve prefix) p ls wait clock uuid d prio qs s = Some (res, t) \<and>
    (\<forall>r. res = Inr r \<longrightarrow> r = \<lparr>lease_id = uuid, res_domain = d, res_priority = prio\<rparr> \<and>
       (\<exists>q \<in> set qs. rcap_held prefix t (poll_now q) r))"
proof (cases "limit_for p d")
  case (Inl e)
  then show ?thesis by (simp add: cap_acquire_def)
next
  case (Inr dl)
  let ?r = "\<lparr>lease_id = uuid, res_domain = d, res_priority = prio\<rparr>"
  obtain res t where run: "acquire_loop (rcap_reserve prefix) p dl ls (clock + wait) ?r qs s = Some (res, t)"
    using acquire_loop_ends [OF assms(4,5), of "rcap_reserve prefix" p dl ls ?r s] by auto
  have "r = ?r \<and> (\<exists>q \<in> set qs. rcap_held prefix t (poll_now q) r)" if "res = Inr r" for r
    using redis_cap.acquire_loop_held [OF assms(1,2,3)] run that by blast
  with run Inr show ?thesis by (auto simp: cap_acquire_def)
qed

lemma zmem_empty: "zmem k now [] = []"
  by (simp add: rload_def)

theorem redis_acquire_sound_witness:
  "\<exists>res t. cap_acquire (rcap_reserve ''{c}'') ex_policy 30 1 0 ''a'' ''cgt'' NORMAL
      [\<lparr>poll_env = (\<lambda>s. s), poll_now = 0, poll_clock = 1\<rparr>] [] = Some (res, t) \<and>
    (\<forall>r. res = Inr r \<longrightarrow> rcap_held ''{c}'' t 0 r) \<and> (\<exists>r. res = Inr r)"
proof -
  let ?q = "\<lparr>poll_env = (\<lambda>s. s), poll_now = 0, poll_clock = 1\<rparr> :: (redis_cap, int) poll"
  obtain res t where a: "cap_acquire (rcap_reserve ''{c}'') ex_policy 30 1 0 ''a'' ''cgt'' NORMAL [?q] [] = Some (res, t)"
    "\<forall>r. res = Inr r \<longrightarrow> rcap_held ''{c}'' t 0 r"
    using redis_acquire_sound [of "[]" 30 "[?q]" 0 1 "''{c}''" ex_policy "''a''" "''cgt''" NORMAL]
    by (auto simp: rcap_ok_def)
  moreover have "map_option (\<lambda>(res, t). \<exists>r. res = Inr r) (cap_acquire (rcap_reserve ''{c}'') ex_policy 30 1 0 ''a'' ''cgt'' NORMAL [?q] []) = Some True"
    by (simp add: cap_acquire_def limit_for_def ex_policy_def rcap_reserve_def zcard_def rkey_simps
        cap_keys_def zmem_empty)
  ultimately show ?thesis by auto
qed

subsection \<open>The Redis scripts simulate the in-memory backend\<close>

text \<open>
  The in-memory backend run with the clock and the durations of Redis, in milliseconds. The two
  agree on the live leases: the global set lists all of them with their expiry, the set of a
  domain those of the domain.
\<close>

definition live_score :: "int \<Rightarrow> int option \<Rightarrow> int option" where
  "live_score now x = (case x of None \<Rightarrow> None | Some e \<Rightarrow> if now < e then Some e else None)"

definition live_lease :: "int \<Rightarrow> lease_entry option \<Rightarrow> lease_entry option" where
  "live_lease now x =
     (case x of None \<Rightarrow> None | Some (e, d, p) \<Rightarrow> if of_int now < e then Some (e, d, p) else None)"

definition rcap_sim :: "string \<Rightarrow> int \<Rightarrow> redis_cap \<Rightarrow> leases \<Rightarrow> bool" where
  "rcap_sim prefix now s m \<longleftrightarrow> rcap_ok s \<and> dict_ok m \<and>
     (\<forall>k. map_option of_int (live_score now (zscore (prefix @ '':global'') k now s)) =
          map_option fst (live_lease now (dict_get m k))) \<and>
     (\<forall>d k. map_option of_int (live_score now (zscore (prefix @ '':domain:'' @ d) k now s)) =
          (case live_lease now (dict_get m k) of None \<Rightarrow> None
           | Some (e, d', p) \<Rightarrow> if d' = d then Some e else None))"

lemma rcap_sim_global:
  "rcap_sim prefix now s m \<Longrightarrow> map_option of_int (live_score now (zscore (prefix @ '':global'') k now s)) =
     map_option fst (live_lease now (dict_get m k))"
  by (simp add: rcap_sim_def)

lemma rcap_sim_domain:
  "rcap_sim prefix now s m \<Longrightarrow>
     map_option of_int (live_score now (zscore (prefix @ '':domain:'' @ d) k now s)) =
     (case live_lease now (dict_get m k) of None \<Rightarrow> None
      | Some (e, d', p) \<Rightarrow> if d' = d then Some e else None)"
  by (simp add: rcap_sim_def)

lemma length_dict_dom:
  assumes "dict_ok d" and "dict_ok e" and "\<And>k. dict_get d k = None \<longleftrightarrow> dict_get e k = None"
  shows "length d = length e"
proof -
  have "set (map fst d) = set (map fst e)"
    using assms(3) by (auto simp: map_of_eq_None_iff)
  then show ?thesis using assms(1,2) by (metis distinct_card length_map)
qed

lemma live_counts:
  assumes sim: "rcap_sim prefix now s m"
  shows "length (filter (\<lambda>(k, sc). \<not> sc \<le> now) (zmem (prefix @ '':global'') now s)) =
      length (cap_cleanup (of_int now) m)"
    and "length (filter (\<lambda>(k, sc). \<not> sc \<le> now) (zmem (prefix @ '':domain:'' @ d) now s)) =
      length (in_domain d (cap_cleanup (of_int now) m))"
proof -
  have ok: "rcap_ok s" "dict_ok m" using sim by (auto simp: rcap_sim_def)
  have g: "dict_get (filter (\<lambda>(k, sc). \<not> sc \<le> now) (zmem key now s)) k = live_score now (zscore key k now s)"
    for key k using ok by (auto simp: dict_get_filter live_score_def zscore_def not_le split: option.split)
  have l: "dict_get (cap_cleanup (of_int now) m) k = live_lease now (dict_get m k)" for k
    using ok by (auto simp: dict_simps live_lease_def split: option.split)
  have nn: "map_option f x = None \<longleftrightarrow> x = None" for f :: "'a \<Rightarrow> 'b" and x by (cases x) auto
  show "length (filter (\<lambda>(k, sc). \<not> sc \<le> now) (zmem (prefix @ '':global'') now s)) =
      length (cap_cleanup (of_int now) m)"
  proof (rule length_dict_dom)
    fix k
    show "dict_get (filter (\<lambda>(k, sc). \<not> sc \<le> now) (zmem (prefix @ '':global'') now s)) k = None \<longleftrightarrow>
        dict_get (cap_cleanup (of_int now) m) k = None"
      unfolding g l using arg_cong [OF rcap_sim_global [OF sim, of k], of "\<lambda>x. x = None"]
      by (simp del: not_None_eq)
  qed (use ok in auto)
  show "length (filter (\<lambda>(k, sc). \<not> sc \<le> now) (zmem (prefix @ '':domain:'' @ d) now s)) =
      length (in_domain d (cap_cleanup (of_int now) m))"
  proof (rule length_dict_dom)
    fix k
    have i: "dict_get (in_domain d (cap_cleanup (of_int now) m)) k =
        (case live_lease now (dict_get m k) of None \<Rightarrow> None
         | Some (e, d', p) \<Rightarrow> if d' = d then Some (e, d', p) else None)"
      using ok by (auto simp: in_domain_def dict_get_filter l split: option.split)
    show "dict_get (filter (\<lambda>(k, sc). \<not> sc \<le> now) (zmem (prefix @ '':domain:'' @ d) now s)) k = None \<longleftrightarrow>
        dict_get (in_domain d (cap_cleanup (of_int now) m)) k = None"
      unfolding g i using arg_cong [OF rcap_sim_domain [OF sim, of d k], of "\<lambda>x. x = None"]
      by (simp del: not_None_eq split: option.splits prod.splits if_splits)
  qed (use ok in \<open>auto simp: in_domain_def\<close>)
qed

definition owns :: "leases \<Rightarrow> capacity_reservation \<Rightarrow> bool" where
  "owns m r \<longleftrightarrow> (\<forall>e d p. dict_get m (lease_id r) = Some (e, d, p) \<longrightarrow> d = res_domain r)"

lemma live_filter:
  "dict_ok z \<Longrightarrow> live_score now (dict_get (filter (\<lambda>(m, sc). \<not> sc \<le> now) z) k) = live_score now (dict_get z k)"
  by (auto simp: live_score_def dict_get_filter split: option.split)

lemma live_cleanup:
  "dict_ok m \<Longrightarrow> live_lease now (dict_get (cap_cleanup (of_int now) m) k) = live_lease now (dict_get m k)"
  by (auto simp: live_lease_def dict_simps split: option.split)

lemma sim_cleanup:
  assumes sim: "rcap_sim prefix now s m"
  shows "rcap_sim prefix now (zremrange (prefix @ '':domain:'' @ d) now (zremrange (prefix @ '':global'') now s))
    (cap_cleanup (of_int now) m)"
proof -
  have ok: "rcap_ok s" "dict_ok m" using sim by (auto simp: rcap_sim_def)
  then show ?thesis
    using sim by (simp add: rcap_sim_def zscore_def rkey_simps live_filter live_cleanup)
qed

lemma sim_same_m:
  assumes "rcap_sim prefix now s (cap_cleanup (of_int now) m)" and "dict_ok m"
  shows "rcap_sim prefix now s m"
  using assms by (simp add: rcap_sim_def live_cleanup)

lemma owns_other:
  "owns m r \<Longrightarrow> d \<noteq> res_domain r \<Longrightarrow> (case live_lease now (dict_get m (lease_id r)) of None \<Rightarrow> None
     | Some (e, d', p) \<Rightarrow> if d' = d then Some e else None) = None"
  by (auto simp: owns_def live_lease_def split: option.splits)

lemma sim_put:
  assumes sim: "rcap_sim prefix now s m" and own: "owns m r" and e: "now < e"
    and d: "res_domain r = d"
  shows "rcap_sim prefix now
    (zput (prefix @ '':domain:'' @ d) e (lease_id r) now (zput (prefix @ '':global'') e (lease_id r) now s))
    (dict_set (lease_id r) (of_int e, d, p) m)"
proof -
  have "rcap_ok s" "dict_ok m" using sim by (auto simp: rcap_sim_def)
  moreover note owns_other [OF own, of _ now, unfolded d]
  moreover have "live_score now (Some e) = Some e" "live_lease now (Some (of_int e, d, p)) = Some (of_int e, d, p)"
    using e by (simp_all add: live_score_def live_lease_def)
  ultimately show ?thesis
    using rcap_sim_global [OF sim] rcap_sim_domain [OF sim]
    by (auto simp: rcap_sim_def zscore_def rkey_simps dict_simps)
qed

lemma sim_del:
  assumes sim: "rcap_sim prefix now s m" and own: "owns m r" and d: "res_domain r = d"
  shows "rcap_sim prefix now
    (zdel (prefix @ '':domain:'' @ d) (lease_id r) now (zdel (prefix @ '':global'') (lease_id r) now s))
    (dict_pop (lease_id r) m)"
proof -
  have "rcap_ok s" "dict_ok m" using sim by (auto simp: rcap_sim_def)
  moreover note owns_other [OF own, of _ now, unfolded d]
  moreover have "live_score now None = None" "live_lease now None = None"
    by (simp_all add: live_score_def live_lease_def)
  ultimately show ?thesis
    using rcap_sim_global [OF sim] rcap_sim_domain [OF sim]
    by (auto simp: rcap_sim_def zscore_def rkey_simps dict_simps)
qed

lemma sim_rexpire:
  "rcap_sim prefix now s m \<Longrightarrow> 0 < ttl \<Longrightarrow> rcap_sim prefix now (rexpire k ttl now s) m"
  by (simp add: rcap_sim_def zscore_def rkey_simps)

lemma sim_later:
  assumes sim: "rcap_sim prefix now s m" and "now \<le> later"
    and alive: "\<And>k v. dict_get s k = Some v \<Longrightarrow> \<not> expired v later"
  shows "rcap_sim prefix later s m"
proof -
  have load: "rload k later s = rload k now s" for k
    using alive [of k] \<open>now \<le> later\<close>
    by (auto simp: rload_def expired_def split: option.splits)
  have up: "of_int now \<le> (of_int later :: rat)" using \<open>now \<le> later\<close> by simp
  have g: "map_option of_int (live_score later x) = map_option fst (live_lease later y)"
    if "map_option of_int (live_score now x) = map_option fst (live_lease now y)" for x y
    using that up \<open>now \<le> later\<close>
    by (auto simp: live_score_def live_lease_def split: option.splits if_splits prod.splits)
  have d: "map_option of_int (live_score later x) =
      (case live_lease later y of None \<Rightarrow> None | Some (e, d', p) \<Rightarrow> if d' = d then Some e else None)"
    if "map_option of_int (live_score now x) =
      (case live_lease now y of None \<Rightarrow> None | Some (e, d', p) \<Rightarrow> if d' = d then Some e else None)" for x y d
    using that up \<open>now \<le> later\<close>
    by (auto simp: live_score_def live_lease_def split: option.splits if_splits prod.splits)
  show ?thesis
    using sim unfolding rcap_sim_def zscore_def load by (auto intro: g d)
qed

lemma owns_cleanup: "dict_ok m \<Longrightarrow> owns m r \<Longrightarrow> owns (cap_cleanup now m) r"
  by (auto simp: owns_def dict_simps split: option.splits if_splits)

lemma sim_reserve:
  assumes sim: "rcap_sim prefix now s m" and own: "owns m r"
    and run: "rcap_reserve prefix r gl dl er ls now s = (d, t)"
    and mem: "cap_reserve r gl dl er (of_int (lease_ms ls)) (of_int now) m = (d', n)"
  shows "d = d' \<and> rcap_sim prefix now t n"
proof -
  define gk dk where gk: "gk = prefix @ '':global''" and dk: "dk = prefix @ '':domain:'' @ res_domain r"
  have k: "cap_keys prefix (res_domain r) = (gk, dk)" by (simp add: cap_keys_def gk dk)
  have gd: "gk \<noteq> dk" by (simp add: gk dk)
  let ?s = "zremrange dk now (zremrange gk now s)" and ?m = "cap_cleanup (of_int now) m"
  let ?e = "now + lease_ms ls" and ?ttl = "key_ttl (lease_ms ls)"
  have ok: "dict_ok m" using sim by (simp add: rcap_sim_def)
  have c: "rcap_sim prefix now ?s ?m" unfolding gk dk using sim by (rule sim_cleanup)
  have counts: "zcard gk now ?s = int (length ?m)" "zcard dk now ?s = int (length (in_domain (res_domain r) ?m))"
    using live_counts(1) [OF sim, folded gk] live_counts(2) [OF sim, of "res_domain r", folded dk] gd
    by (simp_all add: zcard_def rkey_simps)
  have "rcap_sim prefix now (zput dk ?e (lease_id r) now (zput gk ?e (lease_id r) now ?s))
      (dict_set (lease_id r) (of_int ?e, res_domain r, res_priority r) ?m)"
    unfolding gk dk using c [unfolded gk dk] owns_cleanup [OF ok own] by (rule sim_put) simp_all
  then have put: "rcap_sim prefix now (rexpire dk ?ttl now (rexpire gk ?ttl now
      (zput dk ?e (lease_id r) now (zput gk ?e (lease_id r) now ?s))))
      (dict_set (lease_id r) (of_int now + of_int (lease_ms ls), res_domain r, res_priority r) ?m)"
    by (simp add: sim_rexpire)
  show ?thesis
    using run mem c put unfolding rcap_reserve_def cap_reserve_def k Let_def prod.case counts
    by (cases "gl \<le> int (length ?m)"; cases "dl \<le> int (length (in_domain (res_domain r) ?m))";
        cases "res_priority r \<noteq> EMERGENCY \<and> gl - er \<le> int (length ?m)") auto
qed

lemma sim_renew:
  assumes sim: "rcap_sim prefix now s m" and own: "owns m r"
    and run: "rcap_renew prefix r ls now s = (b, t)"
    and mem: "cap_renew r (of_int (lease_ms ls)) (of_int now) m = (b', n)"
  shows "b = b' \<and> rcap_sim prefix now t n"
proof -
  let ?gk = "prefix @ '':global''" and ?dk = "prefix @ '':domain:'' @ res_domain r"
  let ?m = "cap_cleanup (of_int now) m" and ?l = "live_lease now (dict_get m (lease_id r))"
  have ok: "dict_ok m" using sim by (simp add: rcap_sim_def)
  have c: "rcap_sim prefix now s ?m" using sim ok by (simp add: rcap_sim_def live_cleanup)
  have own': "owns ?m r" using owns_cleanup [OF ok own] .
  have get: "dict_get ?m (lease_id r) = ?l"
    using ok by (auto simp: dict_simps live_lease_def split: option.split)
  have live: "(case zscore k (lease_id r) now s of None \<Rightarrow> False | Some e \<Rightarrow> \<not> e \<le> now) \<longleftrightarrow> ?l \<noteq> None"
    if "k = ?gk \<or> k = ?dk" for k
  proof -
    have "live_score now (zscore k (lease_id r) now s) \<noteq> None \<longleftrightarrow> ?l \<noteq> None"
      using that arg_cong [OF rcap_sim_global [OF sim, of "lease_id r"], of "\<lambda>x. x = None"]
        arg_cong [OF rcap_sim_domain [OF sim, of "res_domain r" "lease_id r"], of "\<lambda>x. x = None"] own
      by (auto simp: owns_def live_lease_def simp del: not_None_eq split: option.splits if_splits)
    then show ?thesis by (auto simp: live_score_def split: option.splits)
  qed
  show ?thesis
  proof (cases ?l)
    case None
    then have "rcap_renew prefix r ls now s = (False, zdel ?dk (lease_id r) now (zdel ?gk (lease_id r) now s))"
      using live [of ?gk] by (simp add: rcap_renew_def cap_keys_def)
    moreover have "dict_pop (lease_id r) ?m = ?m"
      using None get by (simp add: delete_idem map_of_eq_None_iff)
    then have "rcap_sim prefix now (zdel ?dk (lease_id r) now (zdel ?gk (lease_id r) now s)) ?m"
      using sim_del [OF c own' refl] by simp
    ultimately show ?thesis using run mem None get by (auto simp: cap_renew_def)
  next
    case (Some w)
    then obtain e p where w: "?l = Some (e, res_domain r, p)"
      using own by (auto simp: owns_def live_lease_def split: option.splits if_splits)
    then have "rcap_renew prefix r ls now s = (True, zput ?dk (now + lease_ms ls) (lease_id r) now
        (zput ?gk (now + lease_ms ls) (lease_id r) now s))"
      using live [of ?gk] live [of ?dk] by (simp add: rcap_renew_def cap_keys_def)
    moreover have "rcap_sim prefix now (zput ?dk (now + lease_ms ls) (lease_id r) now
        (zput ?gk (now + lease_ms ls) (lease_id r) now s))
        (dict_set (lease_id r) (of_int (now + lease_ms ls), res_domain r, p) ?m)"
      using c own' by (rule sim_put) simp_all
    ultimately show ?thesis using run mem w get by (auto simp: cap_renew_def)
  qed
qed

text \<open>C23. The Redis scripts implement the in-memory backend call by call: on stores that agree at a
  time about the live leases, a reservation at that time gets the same decision with the same counts,
  a renewal and a release do the same, and the stores agree afterwards. They go on to agree while time
  passes only as long as Redis has expired none of the keys; renewals do not put that off, and
  \<open>renewals_cannot_outlive_key\<close> shows the backends diverge when it happens.\<close>

theorem redis_capacity_refines:
  assumes sim: "rcap_sim prefix now s m" and own: "owns m r"
  shows "(\<forall>gl dl er ls d t d' n. rcap_reserve prefix r gl dl er ls now s = (d, t) \<longrightarrow>
        cap_reserve r gl dl er (of_int (lease_ms ls)) (of_int now) m = (d', n) \<longrightarrow>
        d = d' \<and> rcap_sim prefix now t n) \<and>
     (\<forall>ls b t b' n. rcap_renew prefix r ls now s = (b, t) \<longrightarrow>
        cap_renew r (of_int (lease_ms ls)) (of_int now) m = (b', n) \<longrightarrow>
        b = b' \<and> rcap_sim prefix now t n) \<and>
     rcap_sim prefix now (rcap_release prefix r now s) (cap_release r m) \<and>
     (\<forall>later \<ge> now. (\<forall>k v. dict_get s k = Some v \<longrightarrow> \<not> expired v later) \<longrightarrow> rcap_sim prefix later s m)"
proof -
  have "rcap_sim prefix now (rcap_release prefix r now s) (cap_release r m)"
    using sim_del [OF sim own refl] by (simp add: rcap_release_def cap_release_def cap_keys_def)
  with sim_reserve [OF sim own] sim_renew [OF sim own] sim_later [OF sim] show ?thesis by blast
qed

lemma sim_empty: "rcap_sim prefix now [] []"
  by (simp add: rcap_sim_def rcap_ok_def zscore_def rload_def live_score_def live_lease_def)

theorem redis_capacity_refines_witness:
  "rcap_sim ''{c}'' 0 (snd (rcap_reserve ''{c}'' (ex_res ''a'' NORMAL) 3 2 1 30 0 []))
     (snd (cap_reserve (ex_res ''a'' NORMAL) 3 2 1 (of_int (lease_ms 30)) (of_int 0) []))"
proof -
  have "owns [] (ex_res ''a'' NORMAL)" by (simp add: owns_def)
  from redis_capacity_refines [OF sim_empty this] show ?thesis by (metis prod.collapse)
qed

subsection \<open>Renewals do not keep the keys alive\<close>

fun renew_all ::
    "string \<Rightarrow> capacity_reservation \<Rightarrow> seconds \<Rightarrow> int list \<Rightarrow> redis_cap \<Rightarrow> redis_cap" where
  "renew_all prefix r ls [] s = s"
| "renew_all prefix r ls (now # ts) s = renew_all prefix r ls ts (snd (rcap_renew prefix r ls now s))"

definition expires_at :: "string \<Rightarrow> int \<Rightarrow> redis_cap \<Rightarrow> bool" where
  "expires_at k x s \<longleftrightarrow> (\<forall>v. dict_get s k = Some v \<longrightarrow> expire_at v = Some x)"

lemma expires_at_renew:
  assumes "expires_at (prefix @ '':global'') x s"
  shows "expires_at (prefix @ '':global'') x (snd (rcap_renew prefix r ls now s))"
proof -
  have put: "expires_at k x (zput k sc m now s)" if "expires_at k x s" "zscore k m' now s \<noteq> None"
    for k sc m m' s
    using that by (auto simp: expires_at_def zput_def rsave_def zscore_def rload_def dict_simps
        split: option.splits if_splits)
  have del: "expires_at k x (zdel k m now s)" if "expires_at k x s" for k m s
    using that by (auto simp: expires_at_def zdel_def rsave_def rload_def dict_simps
        split: option.splits if_splits)
  have other: "expires_at k x (zput k' sc m now s) = expires_at k x s"
      "expires_at k x (zdel k' m now s) = expires_at k x s" if "k \<noteq> k'" for k k' sc m s
    using that by (auto simp: expires_at_def zput_def zdel_def rsave_def dict_simps)
  show ?thesis
    using put [OF assms] del [OF assms]
    by (auto simp: rcap_renew_def cap_keys_def other split: option.splits)
qed

text \<open>Renewing does not extend the life of a capacity lease beyond the key: the renewal script
  never sets \<open>EXPIRE\<close>, so however often a reservation is renewed, once the keys' time to live
  (twice the lease) has passed since the last admission, its renewal fails.\<close>

theorem renewals_cannot_outlive_key:
  assumes "rcap_reserve prefix r gl dl er ls now s = (d, t)" and "admitted d"
    and "now + 1000 * key_ttl (lease_ms ls) \<le> later"
  shows "\<not> fst (rcap_renew prefix r ls later (renew_all prefix r ls ts t))"
proof -
  let ?k = "prefix @ '':global''" and ?x = "now + 1000 * key_ttl (lease_ms ls)"
  have exp: "expires_at k x (rexpire k ttl now s)" if "x = now + 1000 * ttl" for k x ttl s
    using that by (auto simp: expires_at_def rexpire_def rsave_def dict_simps)
  have other: "expires_at k x (rexpire k' ttl now s) = expires_at k x s" if "k \<noteq> k'" for x k k' ttl s
    using that by (auto simp: expires_at_def rexpire_def rsave_def dict_simps)
  have "expires_at ?k ?x t"
    using assms(1,2) by (auto simp: rcap_reserve_def cap_keys_def exp other split: if_splits)
  then have "expires_at ?k ?x (renew_all prefix r ls ts t)"
    by (induction ts arbitrary: t) (auto intro: expires_at_renew)
  then have "zscore ?k (lease_id r) later (renew_all prefix r ls ts t) = None"
    using assms(3) by (auto simp: zscore_def rload_def expired_def expires_at_def split: option.split)
  then show ?thesis by (simp add: rcap_renew_def cap_keys_def)
qed

text \<open>A lease of thirty seconds renewed in time at 20, 40 and 59 seconds is lost at 60 seconds.\<close>

theorem renewals_cannot_outlive_key_witness:
  "let r = ex_res ''a'' NORMAL; (d, t) = rcap_reserve ''{c}'' r 3 2 1 30 0 []
   in admitted d \<and> fst (rcap_renew ''{c}'' r 30 59000 (renew_all ''{c}'' r 30 [20000, 40000] t)) \<and>
      \<not> fst (rcap_renew ''{c}'' r 30 60000 (renew_all ''{c}'' r 30 [20000, 40000, 59000] t))"
proof -
  let ?r = "ex_res ''a'' NORMAL"
  have a: "admitted (fst (rcap_reserve ''{c}'' ?r 3 2 1 30 0 []))" by code_simp
  have b: "fst (rcap_renew ''{c}'' ?r 30 59000 (renew_all ''{c}'' ?r 30 [20000, 40000]
      (snd (rcap_reserve ''{c}'' ?r 3 2 1 30 0 []))))" by code_simp
  have "0 + 1000 * key_ttl (lease_ms 30) \<le> 60000" by code_simp
  from renewals_cannot_outlive_key [OF _ a this] have
    "\<not> fst (rcap_renew ''{c}'' ?r 30 60000 (renew_all ''{c}'' ?r 30 [20000, 40000, 59000]
      (snd (rcap_reserve ''{c}'' ?r 3 2 1 30 0 []))))" by (metis prod.collapse)
  with a b show ?thesis by (simp add: Let_def case_prod_unfold)
qed

end
