(* ===== verification/Capacity_Admission.thy ===== *)
theory Capacity_Admission
  imports Runtime_Capacity Capacity_Limits
begin

section \<open>Properties of runtime capacity admission\<close>

text \<open>
  The weighted limits along any run, the balance of one dispatched request over any backend
  (the interface \<open>weighted_backend\<close>, interpreted on both backends), the accounting of
  OCU-seconds, and the termination and return of capacity of a dispatched request.
\<close>

lemma w_within_empty: "0 \<le> gl \<Longrightarrow> 0 \<le> al \<Longrightarrow> w_within gl al []"
  by (simp add: w_within_def w_total_def of_actor_def)

interpretation wcap: transition_system "\<lambda>s. s = [] \<and> 0 \<le> gl \<and> 0 \<le> al" "w_step gl al" "w_within gl al"
  for gl al :: int
  by unfold_locales (auto intro: w_within_empty w_step_within)

text \<open>C9. The weighted limits hold along any run of the in-memory backend: the weights of all leases
  never sum to more than the global limit, those of one actor never to more than the limit of an
  actor, whatever requests arrive, renew and release at whatever times.\<close>

theorem weighted_limits_hold:
  assumes "(w_step gl al)\<^sup>*\<^sup>* [] s" and "0 \<le> gl" and "0 \<le> al"
  shows "w_total s \<le> gl \<and> (\<forall>x. w_total (of_actor x s) \<le> al)"
  using wcap.steps_inv [OF assms(1) w_within_empty [OF assms(2,3)]] by (simp add: w_within_def)

definition ex_wres :: wreservation where
  "ex_wres = \<lparr>wr_lease_id = ''l1'', wr_weight = 3, wr_actor = Some ''a''\<rparr>"

theorem weighted_limits_hold_witness:
  "let s = snd (w_reserve ex_wres 40 12 120 0 []) in (w_step 40 12)\<^sup>*\<^sup>* [] s \<and> w_total s = 3 \<and> w_total s \<le> 40"
proof -
  let ?s = "snd (w_reserve ex_wres 40 12 120 0 [])"
  have run: "(w_step 40 12)\<^sup>*\<^sup>* [] ?s" by (intro r_into_rtranclp w_step.reserve) (simp add: ex_wres_def)
  have "w_total ?s = 3" by code_simp
  with run weighted_limits_hold [OF run] show ?thesis by simp
qed

subsection \<open>Accounting\<close>

lemma units_bounds:
  assumes "0 \<le> w"
  shows "0 \<le> operational_statistical_units w a f e" and
    "a \<le> e \<Longrightarrow> operational_statistical_units w a f e \<le> of_int w * (e - a)"
  using assms by (auto simp: operational_statistical_units_def intro!: mult_left_mono)

definition lease_ok :: "lease_accounting \<Rightarrow> bool" where
  "lease_ok l \<longleftrightarrow> 0 \<le> la_weight l \<and> la_admitted_at l \<le> la_expires_at l"

definition acc_inv :: "accounting \<Rightarrow> bool" where
  "acc_inv a \<longleftrightarrow> dict_ok (acc_leases a) \<and> snd ` set (acc_leases a) \<subseteq> Collect lease_ok \<and>
     active_ocu a = sum_list (map (\<lambda>(k, l). la_weight l) (acc_leases a)) \<and> 0 \<le> total_units a"

inductive acc_step :: "accounting \<Rightarrow> accounting \<Rightarrow> bool" where
  admitted: "0 \<le> w \<Longrightarrow> 0 \<le> ls \<Longrightarrow> acc_step a (snd (acc_admitted k w now ls a))"
| renewed: "acc_step a (snd (acc_renewed k now ls a))"
| released: "acc_step a (snd (acc_released k fin a))"

lemma sum_list_dict_set_absent:
  "dict_get d k = None \<Longrightarrow> sum_list (map (\<lambda>(k, l). f l) (dict_set k v d)) = sum_list (map (\<lambda>(k, l). f l) d) + (f v :: int)"
  by (simp add: dict_set_absent)

lemma sum_list_dict_set_same:
  "dict_get d k = Some v \<Longrightarrow> f v' = (f v :: int) \<Longrightarrow>
     sum_list (map (\<lambda>(k, l). f l) (dict_set k v' d)) = sum_list (map (\<lambda>(k, l). f l) d)"
  by (induction d) (auto split: if_splits)

lemma sum_list_dict_pop:
  "dict_ok d \<Longrightarrow> dict_get d k = Some v \<Longrightarrow>
     sum_list (map (\<lambda>(k, l). f l) (dict_pop k d)) = sum_list (map (\<lambda>(k, l). f l) d) - (f v :: int)"
proof (induction d)
  case Nil
  then show ?case by simp
next
  case (Cons kv d)
  obtain k0 v0 where [simp]: "kv = (k0, v0)" by (cases kv)
  show ?case
  proof (cases "k0 = k")
    case True
    with Cons.prems have "dict_pop k d = d" by (auto intro!: delete_idem)
    with True Cons.prems show ?thesis by simp
  next
    case False
    with Cons show ?thesis by simp
  qed
qed

lemma values_dict_set: "snd ` set (dict_set k v d) \<subseteq> insert v (snd ` set d)"
  by (induction d) auto

lemma values_dict_pop: "snd ` set (dict_pop k d) \<subseteq> snd ` set d"
  by (auto simp: AList.delete_eq)

lemma acc_step_inv:
  assumes inv: "acc_inv a" and "acc_step a b"
  shows "acc_inv b"
  using assms(2)
proof cases
  case (admitted w ls k now)
  show ?thesis
  proof (cases "dict_get (acc_leases a) k")
    case (Some l)
    with inv admitted show ?thesis by (simp add: acc_admitted_def)
  next
    case None
    let ?l = "\<lparr>la_weight = w, la_admitted_at = now, la_expires_at = now + of_int ls\<rparr>"
    have "lease_ok ?l" using admitted(2,3) by (simp add: lease_ok_def)
    then have "insert ?l (snd ` set (acc_leases a)) \<subseteq> Collect lease_ok" using inv by (simp add: acc_inv_def)
    then have "snd ` set (dict_set k ?l (acc_leases a)) \<subseteq> Collect lease_ok"
      by (rule order_trans [OF values_dict_set])
    with None inv admitted show ?thesis
      by (simp add: acc_admitted_def acc_inv_def sum_list_dict_set_absent)
  qed
next
  case (renewed k now ls)
  show ?thesis
  proof (cases "dict_get (acc_leases a) k")
    case None
    with inv renewed show ?thesis by (simp add: acc_renewed_def)
  next
    case (Some l)
    let ?l = "l\<lparr>la_expires_at := max (la_expires_at l) (now + of_int ls)\<rparr>"
    have "l \<in> snd ` set (acc_leases a)" using Some by (force dest: map_of_SomeD)
    then have "lease_ok l" using inv by (auto simp: acc_inv_def)
    then have "lease_ok ?l" by (auto simp: lease_ok_def)
    then have "insert ?l (snd ` set (acc_leases a)) \<subseteq> Collect lease_ok" using inv by (simp add: acc_inv_def)
    then have "snd ` set (dict_set k ?l (acc_leases a)) \<subseteq> Collect lease_ok"
      by (rule order_trans [OF values_dict_set])
    with Some inv renewed show ?thesis
      by (simp add: acc_renewed_def acc_inv_def sum_list_dict_set_same)
  qed
next
  case (released k fin)
  show ?thesis
  proof (cases "dict_get (acc_leases a) k")
    case None
    with inv released show ?thesis by (simp add: acc_released_def)
  next
    case (Some l)
    then have "l \<in> snd ` set (acc_leases a)" by (force dest: map_of_SomeD)
    then have "0 \<le> la_weight l" using inv by (auto simp: acc_inv_def lease_ok_def)
    moreover have "snd ` set (dict_pop k (acc_leases a)) \<subseteq> Collect lease_ok"
      using inv by (intro order_trans [OF values_dict_pop]) (simp add: acc_inv_def)
    ultimately show ?thesis
      using Some inv units_bounds(1) [of "la_weight l"] released
      by (simp add: acc_released_def acc_inv_def sum_list_dict_pop)
  qed
qed

definition acc_empty :: accounting where
  "acc_empty = \<lparr>acc_leases = [], active_ocu = 0, total_units = 0, expirations = 0\<rparr>"

lemma acc_inv_empty: "acc_inv acc_empty"
  by (simp add: acc_empty_def acc_inv_def)

interpretation acc: transition_system "\<lambda>a. a = acc_empty" acc_step acc_inv
  by unfold_locales (auto intro: acc_inv_empty acc_step_inv)

text \<open>The accounting is exact and idempotent: after any sequence of admissions, renewals and
  releases the gauge of active units is the sum of the weights of the open leases and the
  accumulated OCU-seconds are not negative; releasing a lease charges at most its weight times
  the time from its admission to its latest expiry, and releasing it again charges nothing and
  changes nothing.\<close>

theorem accounting_exact:
  assumes "acc_step\<^sup>*\<^sup>* acc_empty a"
  shows "active_ocu a = sum_list (map (\<lambda>(k, l). la_weight l) (acc_leases a)) \<and> 0 \<le> active_ocu a \<and>
    0 \<le> total_units a \<and>
    (\<forall>k fin u b. acc_released k fin a = (u, b) \<longrightarrow> 0 \<le> u \<and> acc_released k fin' b = (0, b) \<and>
       (\<forall>l. dict_get (acc_leases a) k = Some l \<longrightarrow>
          u \<le> of_int (la_weight l) * (la_expires_at l - la_admitted_at l)))"
proof -
  have inv: "acc_inv a" using acc.steps_inv [OF assms] acc.inv_start by blast
  have "0 \<le> sum_list (map (\<lambda>(k, l). la_weight l) (acc_leases a))"
    using inv by (intro sum_list_nonneg) (force simp: acc_inv_def lease_ok_def)
  moreover have "0 \<le> u \<and> acc_released k fin' b = (0, b) \<and>
      (\<forall>l. dict_get (acc_leases a) k = Some l \<longrightarrow> u \<le> of_int (la_weight l) * (la_expires_at l - la_admitted_at l))"
    if run: "acc_released k fin a = (u, b)" for k fin u b
  proof (cases "dict_get (acc_leases a) k")
    case None
    with run show ?thesis by (auto simp: acc_released_def)
  next
    case (Some l)
    then have "l \<in> snd ` set (acc_leases a)" by (force dest: map_of_SomeD)
    then have l: "0 \<le> la_weight l" "la_admitted_at l \<le> la_expires_at l" using inv by (auto simp: acc_inv_def lease_ok_def)
    from Some run have "u = operational_statistical_units (la_weight l) (la_admitted_at l) fin (la_expires_at l)"
      and "acc_leases b = dict_pop k (acc_leases a)" by (auto simp: acc_released_def)
    with Some units_bounds [OF l(1)] l(2) show ?thesis by (simp add: acc_released_def dict_simps)
  qed
  ultimately show ?thesis using inv unfolding acc_inv_def by auto
qed

theorem accounting_exact_witness:
  "let a = snd (acc_admitted ''l1'' 3 10 120 acc_empty)
   in acc_step\<^sup>*\<^sup>* acc_empty a \<and> active_ocu a = 3 \<and> fst (acc_released ''l1'' 14 a) = 12"
proof -
  let ?a = "snd (acc_admitted ''l1'' 3 10 120 acc_empty)"
  have run: "acc_step\<^sup>*\<^sup>* acc_empty ?a" by (intro r_into_rtranclp acc_step.admitted) simp_all
  have "acc_leases ?a = [(''l1'', \<lparr>la_weight = 3, la_admitted_at = 10, la_expires_at = 130\<rparr>)]"
    by (simp add: acc_admitted_def acc_empty_def)
  with accounting_exact [OF run] run show ?thesis
    by (simp add: Let_def acc_released_def operational_statistical_units_def)
qed

subsection \<open>One request over any backend\<close>

locale weighted_backend =
  fixes b :: "('s, 't) wbackend" and held :: "'t \<Rightarrow> 's \<Rightarrow> bool"
  assumes reserve_held: "wb_reserve b now s = (d, t) \<Longrightarrow> wd_admitted d \<Longrightarrow> held now t"
    and release_not_held: "\<not> held now (wb_release b now s)"
begin

lemma admit_loop_held:
  "admit_loop b deadline qs s = Some (Some d, t) \<Longrightarrow> wd_admitted d \<Longrightarrow>
     \<exists>q. APoll q \<in> set qs \<and> held (poll_now q) t"
proof (induction qs arbitrary: s)
  case Nil
  then show ?case by simp
next
  case (Cons x qs)
  show ?case
  proof (cases x)
    case (ARaises f)
    with Cons.prems show ?thesis by simp
  next
    case (APoll q)
    obtain d' u where d: "wb_reserve b (poll_now q) (poll_env q s) = (d', u)" by fastforce
    show ?thesis
    proof (cases "wd_admitted d'")
      case True
      with d Cons.prems APoll reserve_held [OF d] show ?thesis by auto
    next
      case False
      with d Cons.prems APoll Cons.IH [of u] show ?thesis by (auto split: if_splits)
    qed
  qed
qed

end

text \<open>Admission ends with its deadline or with an exception.\<close>

definition admission_ends :: "seconds \<Rightarrow> ('s, 't) admission_event list \<Rightarrow> bool" where
  "admission_ends deadline qs \<longleftrightarrow>
     (\<exists>q \<in> set qs. case q of ARaises f \<Rightarrow> True | APoll p \<Rightarrow> deadline \<le> poll_clock p)"

lemma admission_ends_simps [simp]:
  "\<not> admission_ends deadline []" "admission_ends deadline (ARaises f # qs)"
  "admission_ends deadline (APoll p # qs) \<longleftrightarrow> deadline \<le> poll_clock p \<or> admission_ends deadline qs"
  by (simp_all add: admission_ends_def)

lemma admit_loop_ends: "admission_ends deadline qs \<Longrightarrow> admit_loop b deadline qs s \<noteq> None"
  by (induction b deadline qs s rule: admit_loop.induct) (auto split: prod.split)

fun ends_request :: "('s, 't) revent \<Rightarrow> bool" where
  "ends_request (RDone _) = True"
| "ends_request RRaised = True"
| "ends_request RCancelled = True"
| "ends_request _ = False"

lemma serve_ends: "\<exists>e \<in> set es. ends_request e \<Longrightarrow> serve b k ls te es s a \<noteq> None"
proof (induction es arbitrary: s a)
  case Nil
  then show ?case by simp
next
  case (Cons e es)
  then show ?case by (cases e) (auto split: prod.split)
qed

lemma dict_pop_set_absent: "dict_get d k = None \<Longrightarrow> dict_pop k (dict_set k v d) = d"
proof -
  assume "dict_get d k = None"
  then have "dict_pop k d = d" by (simp add: delete_idem map_of_eq_None_iff)
  with \<open>dict_get d k = None\<close> show ?thesis by (simp add: dict_set_absent AList.delete_eq)
qed

text \<open>The account of a request while it is served: one open lease more than before it.\<close>

definition open_account :: "string \<Rightarrow> int \<Rightarrow> accounting \<Rightarrow> accounting \<Rightarrow> bool" where
  "open_account k w a a1 \<longleftrightarrow> (\<exists>l. la_weight l = w \<and> acc_leases a1 = dict_set k l (acc_leases a)) \<and>
     active_ocu a1 = active_ocu a + w \<and> total_units a1 = total_units a"

lemma open_account_admitted:
  "dict_get (acc_leases a) k = None \<Longrightarrow> open_account k w a (snd (acc_admitted k w now ls a))"
  by (auto simp: acc_admitted_def open_account_def
      intro!: exI [of _ "\<lparr>la_weight = w, la_admitted_at = now, la_expires_at = now + of_int ls\<rparr>"])

lemma open_account_renewed:
  assumes "open_account k w a a1"
  shows "open_account k w a (snd (acc_renewed k now ls a1))"
proof -
  obtain l where l: "la_weight l = w" "acc_leases a1 = dict_set k l (acc_leases a)"
    using assms by (auto simp: open_account_def)
  let ?l = "l\<lparr>la_expires_at := max (la_expires_at l) (now + of_int ls)\<rparr>"
  have "acc_leases (snd (acc_renewed k now ls a1)) = dict_set k ?l (acc_leases a)"
    using l by (simp add: acc_renewed_def dict_simps dict_set_set)
  moreover have "la_weight ?l = w" using l by simp
  moreover have "active_ocu (snd (acc_renewed k now ls a1)) = active_ocu a1"
    "total_units (snd (acc_renewed k now ls a1)) = total_units a1"
    by (simp_all add: acc_renewed_def split: option.split)
  ultimately show ?thesis using assms unfolding open_account_def by metis
qed

lemma open_account_serve:
  "open_account k w a a1 \<Longrightarrow> serve b k ls te es s a1 = Some (r, t, a2) \<Longrightarrow> open_account k w a a2"
proof (induction es arbitrary: s a1)
  case Nil
  then show ?case by simp
next
  case (Cons e es)
  then show ?case by (cases e) (auto split: prod.splits if_splits intro: open_account_renewed)
qed

lemma open_account_released:
  assumes "open_account k w a a2" and "dict_get (acc_leases a) k = None" and "0 \<le> w"
    and "acc_released k fin a2 = (u, a3)"
  shows "acc_leases a3 = acc_leases a \<and> active_ocu a3 = active_ocu a \<and>
    total_units a3 = total_units a + u \<and> 0 \<le> u"
proof -
  obtain l where l: "la_weight l = w" "acc_leases a2 = dict_set k l (acc_leases a)"
    using assms(1) by (auto simp: open_account_def)
  then have g: "dict_get (acc_leases a2) k = Some l" by (simp add: dict_simps)
  have "acc_leases a3 = dict_pop k (dict_set k l (acc_leases a))" "active_ocu a3 = active_ocu a2 - w"
    "u = operational_statistical_units w (la_admitted_at l) fin (la_expires_at l)"
    "total_units a3 = total_units a2 + u"
    using g assms(4) l by (auto simp: acc_released_def)
  with assms(1,2) units_bounds(1) [OF assms(3)] show ?thesis
    by (simp add: open_account_def dict_pop_set_absent)
qed

text \<open>A request whose cancelled tasks raise, or whose release is cancelled, skips the accounting.\<close>

definition settles :: "task_ends \<Rightarrow> release_end \<Rightarrow> bool" where
  "settles te re \<longleftrightarrow> \<not> request_raises te \<and> \<not> heartbeat_raises te \<and> (\<forall>d. re \<noteq> Release_Cancelled d)"

lemma serve_not_abandoned:
  "serve b k ls te es s a = Some (r, t, a') \<Longrightarrow> \<not> request_raises te \<Longrightarrow> \<not> heartbeat_raises te \<Longrightarrow> r \<noteq> Abandoned"
  by (induction b k ls te es s a rule: serve.induct) (auto split: prod.splits if_splits)

context weighted_backend begin

lemma dispatch_balanced:
  assumes on: "rc_enabled p" "rq_path q \<notin> exempt_paths" "has_redis \<or> \<not> production"
    and polls: "admission_ends (clock + of_int (wait_ms p) / 1000) qs"
    and ends: "\<exists>e \<in> set es. ends_request e" and settles: "settles te re"
    and fresh: "dict_get (acc_leases a) k = None" and w: "0 \<le> request_weight q p"
  shows "\<exists>r t a'. dispatch p q has_redis production b k clock qs adm te es rel_now fin re plain s a = Some (r, t, a') \<and>
    acc_leases a' = acc_leases a \<and> active_ocu a' = active_ocu a \<and> total_units a \<le> total_units a' \<and>
    (d_code r \<in> {None, Some 429} \<and> a' = a \<or> re \<noteq> Release_Returns \<or> \<not> held rel_now t)"
proof -
  let ?dl = "clock + of_int (wait_ms p) / 1000"
  obtain d0 t where adm: "admit_loop b ?dl qs s = Some (d0, t)" using admit_loop_ends [OF polls, of b s] by auto
  show ?thesis
  proof (cases "\<exists>d. d0 = Some d \<and> wd_admitted d")
    case False
    with on adm show ?thesis by (cases d0) (auto simp: dispatch_def propagated_def)
  next
    case True
    then obtain d where d: "d0 = Some d" "wd_admitted d" by blast
    let ?a1 = "snd (acc_admitted k (request_weight q p) adm (rc_lease_seconds p) a)"
    obtain r u a2 where srv: "serve b k (rc_lease_seconds p) te es t ?a1 = Some (r, u, a2)"
      using serve_ends [OF ends, of b k "rc_lease_seconds p" te t ?a1] by (auto simp: not_None_eq)
    have op: "open_account k (request_weight q p) a a2"
      using open_account_serve [OF open_account_admitted [OF fresh] srv] .
    have na: "r \<noteq> Abandoned" using serve_not_abandoned [OF srv] settles by (simp add: settles_def)
    obtain r' t' a' where st: "settle_request b k r rel_now fin re u a2 = (r', t', a')" by (metis prod_cases3)
    obtain fin' units where rel: "acc_released k fin' a2 = (units, a')" and t': "t' = released_on b rel_now re u"
      using st na settles
      by (cases re) (auto simp: settle_request_def settle_account_def settles_def split: prod.splits)
    have "re \<noteq> Release_Returns \<or> \<not> held rel_now t'" using t' release_not_held by (cases re) auto
    with open_account_released [OF op fresh w rel] on adm d srv st show ?thesis
      by (auto simp: dispatch_def)
  qed
qed

text \<open>A dispatch that is cancelled while its request raises another exception keeps both the lease
  and the account: the exception leaves the \<open>finally\<close> clause before they are given back.\<close>

lemma dispatch_abandoned:
  assumes on: "rc_enabled p" "rq_path q \<notin> exempt_paths" "has_redis \<or> \<not> production"
    and adm: "wb_reserve b (poll_now q1) (poll_env q1 s) = (d, t)" "wd_admitted d"
    and fresh: "dict_get (acc_leases a) k = None" and raises: "request_raises te"
  shows "\<exists>a'. dispatch p q has_redis production b k clock [APoll q1] adm_at te [RCancelled] rel_now fin re plain s a =
      Some (propagated, t, a') \<and> held (poll_now q1) t \<and>
    active_ocu a' = active_ocu a + request_weight q p \<and> dict_get (acc_leases a') k \<noteq> None"
  using assms reserve_held [OF adm]
  by (auto simp: dispatch_def settle_request_def acc_admitted_def dict_simps)

end

text \<open>A reservation occupies a backend while any entry of it is left.\<close>

definition w_occupies :: "wreservation \<Rightarrow> wleases \<Rightarrow> bool" where
  "w_occupies r s \<longleftrightarrow> dict_get s (wr_lease_id r) \<noteq> None"

definition rc_occupies :: "wreservation \<Rightarrow> int \<Rightarrow> redis_cap \<Rightarrow> bool" where
  "rc_occupies r now s \<longleftrightarrow>
     (let (gz, gh, az, ah) = rc_keys (wr_actor r); k = wr_lease_id r
      in zscore gz k now s \<noteq> None \<or> zscore gh k now s \<noteq> None \<or>
         wr_actor r \<noteq> None \<and> (zscore az k now s \<noteq> None \<or> zscore ah k now s \<noteq> None))"

interpretation mem_wb: weighted_backend "mem_wbackend p r" "\<lambda>now. w_occupies r"
  for p :: rc_policy and r :: wreservation
proof
  fix now s d t
  assume "wb_reserve (mem_wbackend p r) now s = (d, t)" and "wd_admitted d"
  then show "w_occupies r t"
    by (cases rule: w_reserve_cases [of r "global_limit_ocu p" "actor_limit_ocu p" "of_int (rc_lease_seconds p)" now s])
      (auto simp: mem_wbackend_def w_occupies_def dict_simps)
next
  fix now s
  show "\<not> w_occupies r (wb_release (mem_wbackend p r) now s)"
    by (simp add: mem_wbackend_def w_release_def w_occupies_def dict_simps)
qed

lemma rc_ttl_pos [simp]: "0 < rc_ttl ms"
  by (simp add: rc_ttl_def)

lemma rc_keys_distinct:
  "rc_keys a = (gz, gh, az, ah) \<Longrightarrow> distinct [gz, gh, az, ah]"
  by (auto simp: rc_keys_def Let_def)

lemma zmem_rc_write [rkey_simps]:
  "zk \<noteq> hk \<Longrightarrow> zmem k' now (rc_write zk hk k e w now s) =
     (if k' = zk then dict_set k e (zmem zk now s) else if k' = hk then dict_set k w (zmem hk now s) else zmem k' now s)"
  by (simp add: rc_write_def rkey_simps)

lemma zscore_rc_write: "zk \<noteq> hk \<Longrightarrow> zscore hk k now (rc_write zk hk k e w now s) = Some w"
  by (simp add: zscore_def zmem_rc_write dict_simps)

lemma zscore_rc_write_other:
  "zk \<noteq> hk \<Longrightarrow> k' \<noteq> zk \<Longrightarrow> k' \<noteq> hk \<Longrightarrow> zscore k' m now (rc_write zk hk k e w now s) = zscore k' m now s"
  by (simp add: zscore_def zmem_rc_write)

lemma zscore_zdel: "zscore k' m now (zdel k m now s) = (if k' = k then None else zscore k' m now s)"
  by (simp add: zscore_def zmem_zdel dict_simps)

lemma rc_reserve_admitted:
  assumes "rc_keys (wr_actor r) = (gz, gh, az, ah)" and "wd_admitted (fst (rc_reserve r gl al ls now s))"
  obtains u where "snd (rc_reserve r gl al ls now s) =
    (let v = rc_write gz gh (wr_lease_id r) (now + ls * 1000) (wr_weight r) now u
     in if wr_actor r \<noteq> None then rc_write az ah (wr_lease_id r) (now + ls * 1000) (wr_weight r) now v else v)"
proof (cases "gl < rc_total gh now (rc_cleanup gz gh now s) + wr_weight r")
  case True
  with assms show ?thesis by (simp add: rc_reserve_def Let_def)
next
  case False
  with assms that show ?thesis by (auto simp: rc_reserve_def Let_def split: if_splits)
qed

interpretation redis_wb: weighted_backend "redis_wbackend p r" "rc_occupies r"
  for p :: rc_policy and r :: wreservation
proof
  fix now s d t
  assume run: "wb_reserve (redis_wbackend p r) now s = (d, t)" and "wd_admitted d"
  obtain gz gh az ah where k: "rc_keys (wr_actor r) = (gz, gh, az, ah)" by (metis prod_cases4)
  have distinct: "distinct [gz, gh, az, ah]" by (rule rc_keys_distinct [OF k])
  have "wd_admitted (fst (rc_reserve r (global_limit_ocu p) (actor_limit_ocu p) (rc_lease_seconds p) now s))"
    using run \<open>wd_admitted d\<close> by (simp add: redis_wbackend_def)
  then obtain u where "t = (let v = rc_write gz gh (wr_lease_id r) (now + rc_lease_seconds p * 1000) (wr_weight r) now u
     in if wr_actor r \<noteq> None then rc_write az ah (wr_lease_id r) (now + rc_lease_seconds p * 1000) (wr_weight r) now v else v)"
    using run rc_reserve_admitted [OF k, of "global_limit_ocu p" "actor_limit_ocu p" "rc_lease_seconds p" now s]
    by (auto simp: redis_wbackend_def)
  with distinct show "rc_occupies r now t"
    by (simp add: rc_occupies_def k Let_def zscore_rc_write zscore_rc_write_other)
next
  fix now s
  obtain gz gh az ah where k: "rc_keys (wr_actor r) = (gz, gh, az, ah)" by (metis prod_cases4)
  have "distinct [gz, gh, az, ah]" by (rule rc_keys_distinct [OF k])
  then have distinct: "gz \<noteq> gh" "gz \<noteq> az" "gz \<noteq> ah" "gh \<noteq> az" "gh \<noteq> ah" "az \<noteq> ah" by auto
  show "\<not> rc_occupies r now (wb_release (redis_wbackend p r) now s)"
    by (simp only: redis_wbackend_def wbackend.select_convs rc_release_def rc_remove_def rc_occupies_def k Let_def prod.case)
      (simp add: zscore_zdel distinct distinct [symmetric])
qed

text \<open>A request gives its capacity back, on the Redis backend and whatever other requests do: when
  admission has ended with its deadline or an exception, and the request with a response, an
  exception, a cancellation or a lost lease, the leases of the account are the ones before it, its
  OCU-seconds are added, and unless the release itself failed, or the request was not admitted, the
  scripts have left no entry of its lease. The exceptions are the requests of the next lemma: a
  cancelled task that raises another exception, and a release that is itself cancelled.\<close>

theorem dispatch_returns_capacity:
  assumes on: "rc_enabled p" "rq_path q \<notin> exempt_paths" "has_redis \<or> \<not> production"
    and polls: "admission_ends (clock + of_int (wait_ms p) / 1000) qs"
    and ends: "\<exists>e \<in> set es. ends_request e" and settles: "settles te re"
    and fresh: "dict_get (acc_leases a) k = None" and w: "0 \<le> request_weight q p"
  shows "\<exists>r' t a'. dispatch p q has_redis production (redis_wbackend p r) k clock qs adm te es rel_now fin
        re plain s a = Some (r', t, a') \<and>
    acc_leases a' = acc_leases a \<and> active_ocu a' = active_ocu a \<and> total_units a \<le> total_units a' \<and>
    (d_code r' \<in> {None, Some 429} \<and> a' = a \<or> re \<noteq> Release_Returns \<or> \<not> rc_occupies r rel_now t)"
  by (rule redis_wb.dispatch_balanced [OF assms])

text \<open>The finding: a cancelled dispatch whose request raises keeps its lease until the lease expires and
  its account for ever.\<close>

theorem cancelled_dispatch_leaks:
  assumes "rc_enabled p" "rq_path q \<notin> exempt_paths" "has_redis \<or> \<not> production"
    and "wb_reserve (redis_wbackend p r) (poll_now q1) (poll_env q1 s) = (d, t)" "wd_admitted d"
    and "dict_get (acc_leases a) k = None" and "request_raises te"
  shows "\<exists>a'. dispatch p q has_redis production (redis_wbackend p r) k clock [APoll q1] adm_at te [RCancelled]
        rel_now fin re plain s a = Some (propagated, t, a') \<and> rc_occupies r (poll_now q1) t \<and>
    active_ocu a' = active_ocu a + request_weight q p \<and> dict_get (acc_leases a') k \<noteq> None"
  by (rule redis_wb.dispatch_abandoned [OF assms])

definition ex_rc_policy :: rc_policy where
  "ex_rc_policy = \<lparr>rc_enabled = True, global_limit_ocu = 40, actor_limit_ocu = 12, rc_lease_seconds = 120,
     wait_ms = 0, retry_ms = 1000, route_weights = []\<rparr>"

definition ex_capacity_request :: http_request where
  "ex_capacity_request = \<lparr>rq_path = ''/cgt/govern'', rq_method = ''POST'', rq_content_length = None\<rparr>"

definition ex_poll :: "(redis_cap, int) poll" where
  "ex_poll = \<lparr>poll_env = id, poll_now = 1000, poll_clock = 1\<rparr>"

definition ex_task_ends :: task_ends where
  "ex_task_ends = \<lparr>request_raises = False, heartbeat_raises = False\<rparr>"

abbreviation ex_dispatch :: "(dispatched \<times> redis_cap \<times> accounting) option" where
  "ex_dispatch \<equiv> dispatch ex_rc_policy ex_capacity_request True True (redis_wbackend ex_rc_policy ex_wres) ''l1'' 0
     [APoll ex_poll] 1 ex_task_ends [RBeat 2000 2 False, RDone 200] 3000 3 Release_Returns None [] acc_empty"

theorem dispatch_returns_capacity_witness:
  "\<exists>r t a'. ex_dispatch = Some (r, t, a') \<and> acc_leases a' = [] \<and> active_ocu a' = 0 \<and>
     (d_code r \<in> {None, Some 429} \<or> \<not> rc_occupies ex_wres 3000 t)"
proof -
  have "0 \<le> request_weight ex_capacity_request ex_rc_policy" "rq_path ex_capacity_request \<notin> exempt_paths"
    "admission_ends (clock + of_int (wait_ms ex_rc_policy) / 1000) [APoll ex_poll]" if "clock = 0" for clock
    using that
    by (simp_all add: ex_capacity_request_def ex_rc_policy_def request_weight_def starts_with_def exempt_paths_def
        ex_poll_def admission_ends_def)
  moreover have "rc_enabled ex_rc_policy" "dict_get (acc_leases acc_empty) ''l1'' = None"
    "settles ex_task_ends Release_Returns"
    by (simp_all add: ex_rc_policy_def acc_empty_def settles_def ex_task_ends_def)
  ultimately show ?thesis
    using dispatch_returns_capacity [of ex_rc_policy ex_capacity_request True True 0 "[APoll ex_poll]"
        "[RBeat 2000 2 False, RDone 200]" ex_task_ends Release_Returns acc_empty "''l1''" ex_wres 1 3000 3 None "[]"]
    by (auto simp: acc_empty_def)
qed

end
