(* ===== verification/Kernel_Types.thy ===== *)
theory Kernel_Types
  imports Maestro_Prelude
begin

section \<open>Kernel data: contracts, telemetry, records and decisions\<close>

text \<open>
  The data of the orchestration kernel: the enumerations and records of
  \<open>processual_kernel/contracts\<close>, the telemetry, records, policy and decisions of
  \<open>processual_kernel/types.py\<close>, and the report types of \<open>cgtlib/types.py\<close>. Python floats are
  exact reals (rounding and non-finite values are not modelled); values of type \<open>Any\<close> are
  \<open>pyval\<close>; identifiers drawn at random and time stamps are left out of the records, nothing in
  the kernel reads them.
\<close>

datatype pyval = PyNone | PyStr string | PyFloat real | PyDict "(string \<times> pyval) list" | PyOther nat

subsection \<open>Contracts\<close>

datatype agent_state = ACTIVE | TRANSITIONAL | ARCHIVED | QUARANTINED

datatype agent_criticality = LOW | MEDIUM | HIGH | CRITICAL

datatype workflow_state =
  DRAFT | WF_RUNNING | PAUSED | DEGRADED | WF_COMPLETED | WF_FAILED | ESCALATED

datatype step_state = PENDING | STEP_RUNNING | STEP_COMPLETED | STEP_FAILED | SKIPPED

datatype maestro_action =
    DELEGATE | HANDOFF | PARALLELIZE | RETRY | REROUTE | MERGE | PAUSE | QUARANTINE | ARCHIVE
  | REACTIVATE | ESCALATE | FINALIZE | OBSERVE

record task_envelope =
  task_id :: string
  required_capability :: string
  payload :: "(string, pyval) dict"
  task_priority :: real

record task_result =
  tr_ok :: bool
  tr_output :: pyval
  tr_error :: "string option"
  tr_latency_ms :: real
  tr_cost :: real

record agent_spec =
  agent_id :: string
  role :: string
  version :: string
  capabilities :: "string list"
  criticality :: agent_criticality
  agent_metadata :: "(string, pyval) dict"

record workflow_step =
  step_id :: string
  capability :: string
  instruction :: string
  depends_on :: "string list"
  preferred_agent_id :: "string option"
  parallel_group :: "string option"
  max_retries :: int
  step_metadata :: "(string, pyval) dict"

record workflow_plan =
  workflow_id :: string
  goal :: string
  plan_steps :: "workflow_step list"
  priority :: real
  plan_metadata :: "(string, pyval) dict"

record maestro_event =
  ev_workflow_id :: "string option"
  ev_action :: maestro_action
  ev_subject :: string
  ev_reason :: string
  ev_payload :: "(string, pyval) dict"

subsection \<open>Telemetry\<close>

record agent_telemetry =
  success_rate :: real
  cooperation_success :: real
  useful_handoff_rate :: real
  at_demand_rate :: real
  business_priority :: real
  resource_cost :: real
  overlap_score :: real
  at_policy_risk :: real
  failure_count :: int
  age_seconds :: real
  latency_p95_ms :: real
  queue_depth :: real
  at_custom :: "(string, real) dict"

definition AgentTelemetry :: agent_telemetry where
  "AgentTelemetry = \<lparr>success_rate = 1, cooperation_success = 1/2, useful_handoff_rate = 1/2, at_demand_rate = 0,
     business_priority = 1/2, resource_cost = 0, overlap_score = 0, at_policy_risk = 0, failure_count = 0,
     age_seconds = 0, latency_p95_ms = 0, queue_depth = 0, at_custom = []\<rparr>"

record handoff_telemetry =
  artifact_quality :: real
  context_preservation :: real
  acceptance_rate :: real
  ht_rework_rate :: real
  ht_latency_ms :: real
  ambiguity :: real
  ht_policy_risk :: real
  ht_demand_rate :: real
  ht_custom :: "(string, real) dict"

definition HandoffTelemetry :: handoff_telemetry where
  "HandoffTelemetry = \<lparr>artifact_quality = 1/2, context_preservation = 1/2, acceptance_rate = 1/2, ht_rework_rate = 0,
     ht_latency_ms = 0, ambiguity = 0, ht_policy_risk = 0, ht_demand_rate = 1/2, ht_custom = []\<rparr>"

record workflow_telemetry =
  goal_alignment :: real
  progress_rate :: real
  completion_confidence :: real
  coordination_quality :: real
  blocking_rate :: real
  wt_rework_rate :: real
  cost_pressure :: real
  latency_pressure :: real
  risk_pressure :: real
  wt_demand_rate :: real
  wt_custom :: "(string, real) dict"

definition WorkflowTelemetry :: workflow_telemetry where
  "WorkflowTelemetry = \<lparr>goal_alignment = 1/2, progress_rate = 0, completion_confidence = 0, coordination_quality = 1/2,
     blocking_rate = 0, wt_rework_rate = 0, cost_pressure = 0, latency_pressure = 0, risk_pressure = 0,
     wt_demand_rate = 1/2, wt_custom = []\<rparr>"

subsection \<open>Records and policy\<close>

record coefficients =
  cT :: real
  cN :: real
  cC :: real
  cM :: real

record agent_record =
  ar_spec :: agent_spec
  ar_state :: agent_state
  ar_psi :: real
  ar_previous_psi :: real
  ar_last_coefficients :: "coefficients option"
  failure_streak :: int
  ar_observations :: nat

definition AgentRecord :: "agent_spec \<Rightarrow> agent_record" where
  "AgentRecord sp = \<lparr>ar_spec = sp, ar_state = ACTIVE, ar_psi = 0, ar_previous_psi = 0,
     ar_last_coefficients = None, failure_streak = 0, ar_observations = 0\<rparr>"

record handoff_record =
  source_agent_id :: string
  target_agent_id :: string
  hr_state :: agent_state
  hr_psi :: real
  hr_previous_psi :: real
  hr_last_coefficients :: "coefficients option"
  hr_observations :: nat

definition HandoffRecord :: "string \<Rightarrow> string \<Rightarrow> handoff_record" where
  "HandoffRecord src tgt = \<lparr>source_agent_id = src, target_agent_id = tgt, hr_state = ACTIVE, hr_psi = 0,
     hr_previous_psi = 0, hr_last_coefficients = None, hr_observations = 0\<rparr>"

definition edge_id_of :: "string \<Rightarrow> string \<Rightarrow> string" where
  "edge_id_of src tgt = src @ ''->'' @ tgt"

definition edge_id :: "handoff_record \<Rightarrow> string" where
  "edge_id h = edge_id_of (source_agent_id h) (target_agent_id h)"

record step_record =
  sr_step :: workflow_step
  sr_state :: step_state
  assigned_agent_id :: "string option"
  attempts :: int
  sr_output :: pyval
  sr_error :: "string option"

definition StepRecord :: "workflow_step \<Rightarrow> step_record" where
  "StepRecord s = \<lparr>sr_step = s, sr_state = PENDING, assigned_agent_id = None, attempts = 0,
     sr_output = PyNone, sr_error = None\<rparr>"

record workflow_record =
  wr_plan :: workflow_plan
  wr_state :: workflow_state
  wr_psi :: real
  wr_previous_psi :: real
  wr_last_coefficients :: "coefficients option"
  wr_steps :: "(string, step_record) dict"

definition WorkflowRecord :: "workflow_plan \<Rightarrow> (string, step_record) dict \<Rightarrow> workflow_record" where
  "WorkflowRecord pl ss = \<lparr>wr_plan = pl, wr_state = DRAFT, wr_psi = 0, wr_previous_psi = 0,
     wr_last_coefficients = None, wr_steps = ss\<rparr>"

record kernel_policy =
  policy_version :: string
  dt :: real
  alpha :: real
  active_min_psi :: real
  archive_max_psi :: real
  reactivation_need :: real
  min_retention :: real
  max_transition_channel :: real
  min_aftermath_balance :: real
  quarantine_policy_risk :: real
  critical_requires_review :: bool
  max_failure_streak :: int
  min_edge_psi :: real
  min_workflow_psi :: real
  max_step_attempts :: int
  prefer_high_psi_agents :: bool

definition KernelPolicy :: kernel_policy where
  "KernelPolicy = \<lparr>policy_version = ''core-0.3.0'', dt = 1, alpha = 5/100, active_min_psi = 20/100,
     archive_max_psi = - 10/100, reactivation_need = 72/100, min_retention = 12/100,
     max_transition_channel = 78/100, min_aftermath_balance = - 5/100, quarantine_policy_risk = 85/100,
     critical_requires_review = True, max_failure_streak = 3, min_edge_psi = - 4/100,
     min_workflow_psi = - 2/100, max_step_attempts = 2, prefer_high_psi_agents = True\<rparr>"

subsection \<open>Structural transition reports of cgtlib\<close>

datatype existence_rank = FLOURISHING | STABLE | HYBRID | DISTORTED | TRANSIENT | EXTINCT

record fate_vector =
  fv_stability :: real
  fv_hybridity :: real
  fv_distortion :: real
  fv_extinction :: real
  fv_collapse :: real
  fv_flourishing :: real
  fv_balance :: real

record aftermath_state =
  collapse_score :: real
  flourishing_score :: real
  balance :: real

record lock_state =
  locked :: bool
  ls_self_potential :: real
  transition_gate :: real
  lock_threshold :: real
  lock_gate_max :: real

text \<open>The optional states of existence, possibility and lift are copied into decisions only, they
  are kept as \<open>pyval\<close>.\<close>

record transition_report =
  transmissibility :: real
  retention :: real
  rp_self_potential :: real
  rp_lock_state :: lock_state
  delay_gate :: real
  compatibility :: real
  transition_channel :: real
  aftermath :: aftermath_state
  existence :: "pyval option"
  possibility :: "pyval option"
  rp_fate_vector :: "fate_vector option"
  rp_existence_rank :: "existence_rank option"
  dynamic_lift :: "pyval option"

subsection \<open>Decisions\<close>

record governance_decision =
  gd_agent_id :: string
  gd_previous_state :: agent_state
  gd_new_state :: agent_state
  gd_psi :: real
  gd_dpsi :: real
  gd_coefficients :: coefficients
  gd_reason :: string
  gd_cgt :: transition_report
  gd_requires_human_review :: bool
  gd_confidence :: real
  gd_policy_version :: string

record edge_decision =
  ed_edge_id :: string
  ed_source_agent_id :: string
  ed_target_agent_id :: string
  ed_previous_state :: agent_state
  ed_new_state :: agent_state
  ed_psi :: real
  ed_dpsi :: real
  ed_coefficients :: coefficients
  ed_reason :: string
  ed_cgt :: transition_report
  ed_action :: maestro_action
  ed_confidence :: real
  ed_policy_version :: string

record workflow_decision =
  wd_workflow_id :: string
  wd_previous_state :: workflow_state
  wd_new_state :: workflow_state
  wd_psi :: real
  wd_dpsi :: real
  wd_coefficients :: coefficients
  wd_why :: string
  wd_action :: maestro_action
  wd_cgt :: transition_report
  wd_requires_human_review :: bool
  wd_confidence :: real
  wd_policy_version :: string

end
