(* ===== verification/Continuity.thy ===== *)
theory Continuity
  imports Kernel_Types
begin

section \<open>Coefficients, continuity and the bridge to cgtlib\<close>

text \<open>
  \<open>processual_kernel/continuity.py\<close> and \<open>cgt_bridge.py\<close>: telemetry is mapped to the four
  coefficients, \<open>\<Psi>\<close> is integrated from them, and a structural transition is evaluated by the
  engine behind \<open>cgtlib.evaluate_structural_transition\<close>. That engine (\<open>cgtlib.private\<close>) is not
  part of the repository: it is the argument \<open>evaluate\<close>; in a public build it raises.
\<close>

subsection \<open>Mapping telemetry\<close>

definition clamp_to :: "real \<Rightarrow> real \<Rightarrow> real \<Rightarrow> real" where
  "clamp_to lo hi v = max lo (min hi v)"

abbreviation clamp :: "real \<Rightarrow> real" where
  "clamp v \<equiv> clamp_to 0 1 v"

definition get_or :: "(string, real) dict \<Rightarrow> string \<Rightarrow> real \<Rightarrow> real" where
  "get_or d k v = (case dict_get d k of None \<Rightarrow> v | Some x \<Rightarrow> x)"

definition from_agent_telemetry :: "agent_telemetry \<Rightarrow> coefficients" where
  "from_agent_telemetry m =
     \<lparr>cT = clamp (45/100 * cooperation_success m + 35/100 * useful_handoff_rate m + 20/100 * success_rate m),
      cN = clamp (45/100 * at_demand_rate m + 25/100 * business_priority m + 20/100 * queue_depth m
             + 10/100 * get_or (at_custom m) ''need_boost'' 0),
      cC = clamp (35/100 * resource_cost m + 25/100 * overlap_score m
             + 20/100 * clamp (latency_p95_ms m / 10000) + 20/100 * at_policy_risk m),
      cM = clamp (40/100 * clamp (of_int (failure_count m) / 10) + 25/100 * clamp (age_seconds m / 86400)
             + 25/100 * at_policy_risk m + 10/100 * clamp (latency_p95_ms m / 20000))\<rparr>"

definition from_handoff_telemetry :: "handoff_telemetry \<Rightarrow> coefficients" where
  "from_handoff_telemetry h =
     \<lparr>cT = clamp (35/100 * artifact_quality h + 30/100 * context_preservation h + 25/100 * acceptance_rate h
             + 10/100 * (1 - ambiguity h)),
      cN = clamp (70/100 * ht_demand_rate h + 30/100 * get_or (ht_custom h) ''handoff_priority'' (1/2)),
      cC = clamp (35/100 * ht_rework_rate h + 25/100 * ambiguity h + 20/100 * clamp (ht_latency_ms h / 10000)
             + 20/100 * ht_policy_risk h),
      cM = clamp (45/100 * ht_rework_rate h + 25/100 * ambiguity h + 20/100 * ht_policy_risk h
             + 10/100 * clamp (ht_latency_ms h / 20000))\<rparr>"

definition from_workflow_telemetry :: "workflow_telemetry \<Rightarrow> coefficients" where
  "from_workflow_telemetry w =
     \<lparr>cT = clamp (35/100 * coordination_quality w + 35/100 * goal_alignment w + 30/100 * completion_confidence w),
      cN = clamp (55/100 * wt_demand_rate w + 25/100 * get_or (wt_custom w) ''business_priority'' (1/2)
             + 20/100 * progress_rate w),
      cC = clamp (30/100 * cost_pressure w + 25/100 * latency_pressure w + 25/100 * wt_rework_rate w
             + 20/100 * blocking_rate w),
      cM = clamp (35/100 * risk_pressure w + 25/100 * blocking_rate w + 25/100 * wt_rework_rate w
             + 15/100 * (1 - goal_alignment w))\<rparr>"

subsection \<open>Continuity\<close>

definition delta :: "real \<Rightarrow> coefficients \<Rightarrow> real" where
  "delta h c = (clamp (cT c) * clamp (cN c) - clamp (cC c)) * exp (- clamp (cM c)) * h"

definition continuity_step :: "real \<Rightarrow> real \<Rightarrow> coefficients \<Rightarrow> real \<times> real" where
  "continuity_step h psi c = (psi + delta h c, delta h c)"

text \<open>\<open>math.exp\<close> raises when the result exceeds the largest float.\<close>

definition py_exp :: "real \<Rightarrow> exc + real" where
  "py_exp x = (if 2 ^ 1024 \<le> exp x then Inl OverflowError else Inr (exp x))"

definition normalize_psi :: "real \<Rightarrow> exc + real" where
  "normalize_psi psi =
     (case py_exp (- psi / max 2 (1 / 10 ^ 9)) of
        Inl e \<Rightarrow> Inl e
      | Inr x \<Rightarrow> Inr (clamp (1 / (1 + x))))"

subsection \<open>The bridge\<close>

record phase_state =
  phase_id :: string
  mass :: real
  mean_retention :: real
  harmony :: real
  fatigue :: real
  self_potential :: real

definition coefficients_to_phase :: "string \<Rightarrow> coefficients \<Rightarrow> real \<Rightarrow> exc + phase_state" where
  "coefficients_to_phase pid c psi =
     (case normalize_psi psi of
        Inl e \<Rightarrow> Inl e
      | Inr sp \<Rightarrow> Inr
          \<lparr>phase_id = pid, mass = clamp (cN c), mean_retention = clamp ((cT c * cN c) * (1 - 1/2 * cM c)),
           harmony = clamp (cT c * (1 - cC c)), fatigue = clamp (1/2 * cC c + 1/2 * cM c), self_potential = sp\<rparr>)"

definition feature_vector :: "coefficients \<Rightarrow> real \<Rightarrow> real \<Rightarrow> exc + (string, real) dict" where
  "feature_vector c psi dpsi =
     (case normalize_psi psi of
        Inl e \<Rightarrow> Inl e
      | Inr np \<Rightarrow> Inr
          [(''synergy'', clamp (cT c)), (''need'', clamp (cN c)), (''cost_inverse'', clamp (1 - cC c)),
           (''mortality_inverse'', clamp (1 - cM c)), (''psi'', np), (''dpsi_positive'', clamp (max 0 dpsi)),
           (''transition_gate'', clamp (max 0 (- dpsi) + 35/100 * cM c + 25/100 * cC c))])"

text \<open>The keyword arguments of \<open>evaluate_structural_transition\<close> (its parameters are the default
  \<open>CGTParameters\<close>, a constant).\<close>

record transition_input =
  source_phase :: phase_state
  target_phase :: phase_state
  gate_openness :: real
  carrying_capacity :: real
  node_fatigue :: real
  local_safety :: real
  continuation_channel :: real
  tau :: real
  tau_star :: real
  trigger :: real
  source_features :: "(string, real) dict"
  target_features :: "(string, real) dict"

type_synonym engine = "transition_input \<Rightarrow> exc + transition_report"

definition evaluate_transition ::
    "engine \<Rightarrow> string \<Rightarrow> coefficients \<Rightarrow> coefficients \<Rightarrow> real \<Rightarrow> real \<Rightarrow> real \<Rightarrow> int \<Rightarrow> exc + transition_report" where
  "evaluate_transition evaluate eid prev cur prev_psi cur_psi dpsi fatigue_counter =
     (case coefficients_to_phase (eid @ ''@previous'') prev prev_psi of Inl e \<Rightarrow> Inl e | Inr source \<Rightarrow>
     (case coefficients_to_phase (eid @ ''@current'') cur cur_psi of Inl e \<Rightarrow> Inl e | Inr target \<Rightarrow>
     (case feature_vector prev prev_psi 0 of Inl e \<Rightarrow> Inl e | Inr source_f \<Rightarrow>
     (case feature_vector cur cur_psi dpsi of Inl e \<Rightarrow> Inl e | Inr target_f \<Rightarrow>
        evaluate
          \<lparr>source_phase = source, target_phase = target, gate_openness = clamp (cT cur),
           carrying_capacity = clamp (cN cur), node_fatigue = clamp_to 0 2 (cC cur + cM cur),
           local_safety = clamp (1 - max (cC cur) (cM cur)),
           continuation_channel = clamp (cT prev * cN prev), tau = of_int (max 0 fatigue_counter), tau_star = 3,
           trigger = clamp (max 0 (- dpsi) + cM cur + cC cur),
           source_features = source_f, target_features = target_f\<rparr>))))"

subsection \<open>Bounds\<close>

definition coeff_ok :: "coefficients \<Rightarrow> bool" where
  "coeff_ok c \<longleftrightarrow> 0 \<le> cT c \<and> cT c \<le> 1 \<and> 0 \<le> cN c \<and> cN c \<le> 1 \<and> 0 \<le> cC c \<and> cC c \<le> 1 \<and> 0 \<le> cM c \<and> cM c \<le> 1"

lemma clamp_bounds [simp]: "0 \<le> clamp v" "clamp v \<le> 1"
  by (simp_all add: clamp_to_def)

lemma clamp_id: "0 \<le> v \<Longrightarrow> v \<le> 1 \<Longrightarrow> clamp v = v"
  by (simp add: clamp_to_def)

lemma mapper_ok [simp]:
  "coeff_ok (from_agent_telemetry m)" "coeff_ok (from_handoff_telemetry h)" "coeff_ok (from_workflow_telemetry w)"
  by (simp_all add: coeff_ok_def from_agent_telemetry_def from_handoff_telemetry_def from_workflow_telemetry_def)

lemma delta_bounds:
  assumes "0 < h"
  shows "\<bar>delta h c\<bar> \<le> h" and "delta h c < 0 \<longleftrightarrow> clamp (cT c) * clamp (cN c) < clamp (cC c)"
proof -
  let ?g = "clamp (cT c) * clamp (cN c) - clamp (cC c)" and ?e = "exp (- clamp (cM c))"
  have tn: "0 \<le> clamp (cT c) * clamp (cN c)" "clamp (cT c) * clamp (cN c) \<le> 1" by (simp_all add: mult_le_one)
  have "\<bar>?g\<bar> \<le> 1" using tn clamp_bounds [of "cC c"] by linarith
  moreover have "?e \<le> 1" by simp
  ultimately have "\<bar>?g\<bar> * ?e \<le> 1" by (simp add: mult_le_one)
  then have "\<bar>?g\<bar> * ?e * h \<le> h" using assms by simp
  then show "\<bar>delta h c\<bar> \<le> h" using assms by (simp add: delta_def abs_mult)
  have "delta h c < 0 \<longleftrightarrow> ?g < 0" using assms by (simp add: delta_def mult_less_0_iff zero_less_mult_iff)
  then show "delta h c < 0 \<longleftrightarrow> clamp (cT c) * clamp (cN c) < clamp (cC c)" by simp
qed

lemma exp_overflows:
  assumes "1024 \<le> x"
  shows "(2::real) ^ 1024 \<le> exp x"
proof -
  have "(2::real) \<le> exp 1" using exp_ge_add_one_self [of 1] by simp
  then have "(2::real) ^ 1024 \<le> exp 1 ^ 1024" by (rule power_mono) simp
  also have "\<dots> = exp (of_nat 1024 * 1)" by (rule exp_of_nat_mult [symmetric])
  also have "\<dots> \<le> exp x" using assms by simp
  finally show ?thesis .
qed

lemma exp_fits: "x \<le> 512 \<Longrightarrow> exp x < (2::real) ^ 1024"
proof -
  assume "x \<le> 512"
  have "exp 1 < (4::real)" using exp_le by simp
  then have "exp 1 ^ 512 < (4::real) ^ 512" by (rule power_strict_mono) simp_all
  also have "(4::real) ^ 512 = 2 ^ 1024" using power_mult [of "2::real" 2 512] by simp
  finally have "exp (of_nat 512 * 1) < (2::real) ^ 1024" by (simp only: exp_of_nat_mult)
  moreover have "exp x \<le> exp (of_nat 512 * 1)" using \<open>x \<le> 512\<close> by simp
  ultimately show ?thesis by (rule le_less_trans [rotated])
qed

lemma normalize_psi_cases:
  "psi \<le> - 2048 \<Longrightarrow> normalize_psi psi = Inl OverflowError"
  "- 1024 \<le> psi \<Longrightarrow> \<exists>v. normalize_psi psi = Inr v \<and> 0 \<le> v \<and> v \<le> 1"
proof -
  have m: "max (2::real) (1 / 10 ^ 9) = 2" by simp
  show "normalize_psi psi = Inl OverflowError" if "psi \<le> - 2048"
    using exp_overflows [of "- psi / 2"] that unfolding normalize_psi_def m py_exp_def by simp
  show "\<exists>v. normalize_psi psi = Inr v \<and> 0 \<le> v \<and> v \<le> 1" if "- 1024 \<le> psi"
    using exp_fits [of "- psi / 2"] that unfolding normalize_psi_def m py_exp_def by simp
qed

lemma evaluate_transition_overflow:
  "cur_psi \<le> - 2048 \<Longrightarrow> evaluate_transition ev eid prev cur prev_psi cur_psi dpsi n = Inl OverflowError"
  using normalize_psi_cases(1)
  by (auto simp: evaluate_transition_def coefficients_to_phase_def feature_vector_def normalize_psi_def py_exp_def
      split: sum.split if_splits)

lemma evaluate_transition_defined:
  assumes "- 1024 \<le> prev_psi" and "- 1024 \<le> cur_psi"
  shows "\<exists>i. evaluate_transition ev eid prev cur prev_psi cur_psi dpsi n = ev i"
proof -
  obtain a b where "normalize_psi prev_psi = Inr a" "normalize_psi cur_psi = Inr b"
    using normalize_psi_cases(2) assms by blast
  then show ?thesis by (auto simp: evaluate_transition_def coefficients_to_phase_def feature_vector_def)
qed

end
