(* ===== verification/Governor.thy ===== *)
theory Governor
  imports Continuity
begin

section \<open>The lifecycle governor\<close>

text \<open>
  \<open>processual_kernel/governor.py\<close>: the decisions on agents, handoff edges and workflows from
  \<open>\<Psi>\<close>, the coefficients and a report, each as the chain of conditions of the code. The letter
  \<open>\<Psi>\<close> of the reason texts is written out.
\<close>

definition round_half_even :: "real \<Rightarrow> int" where
  "round_half_even x =
     (let f = \<lfloor>x\<rfloor>; r = x - of_int f
      in if r < 1/2 then f else if 1/2 < r then f + 1 else if even f then f else f + 1)"

definition round4 :: "real \<Rightarrow> real" where
  "round4 x = of_int (round_half_even (x * 10000)) / 10000"

definition confidence :: "coefficients \<Rightarrow> transition_report \<Rightarrow> real" where
  "confidence c rp =
     (let structural_strength = (retention rp + compatibility rp + (1 - transition_channel rp)) / 3;
          risk_penalty = max (cC c) (cM c) * (25/100);
          fate_adjustment = (case rp_fate_vector rp of None \<Rightarrow> 0 | Some fv \<Rightarrow>
            12/100 * fv_stability fv + 10/100 * fv_flourishing fv - 10/100 * fv_distortion fv - 14/100 * fv_extinction fv)
      in round4 (clamp (structural_strength + fate_adjustment - risk_penalty)))"

definition high_risk :: "kernel_policy \<Rightarrow> coefficients \<Rightarrow> bool" where
  "high_risk p c \<longleftrightarrow> quarantine_policy_risk p \<le> cM c \<or> quarantine_policy_risk p \<le> cC c"

definition decide_agent_state ::
    "kernel_policy \<Rightarrow> agent_record \<Rightarrow> coefficients \<Rightarrow> real \<Rightarrow> transition_report \<Rightarrow> agent_state \<times> string \<times> bool" where
  "decide_agent_state p r c dpsi rp =
     (let previous = ar_state r; critical = (criticality (ar_spec r) = CRITICAL);
          important = (criticality (ar_spec r) \<in> {HIGH, CRITICAL}); rank = rp_existence_rank rp
      in if high_risk p c then (QUARANTINED, ''high policy/mortality risk'', True)
         else if previous = ARCHIVED then
           (if reactivation_need p \<le> cN c \<and> 55/100 \<le> compatibility rp
               \<and> min_aftermath_balance p \<le> balance (aftermath rp)
            then (TRANSITIONAL, ''reactivation candidate: demand recovered'', critical)
            else (ARCHIVED, ''archived: demand or compatibility insufficient'', False))
         else if critical \<and> critical_requires_review p
             \<and> (dpsi < - alpha p \<or> max_transition_channel p \<le> transition_channel rp
                 \<or> balance (aftermath rp) < min_aftermath_balance p)
           then (TRANSITIONAL, ''critical agent degraded: human review required'', True)
         else if \<not> critical \<and> rank = Some EXTINCT
           then (ARCHIVED, ''CGT existence rank extinct: no viable carrier/effect'', False)
         else if rank = Some DISTORTED \<and> dpsi < 0
           then (TRANSITIONAL, ''CGT distorted rank: repair or simplify before reuse'', important)
         else if max_failure_streak p \<le> failure_streak r
           then (TRANSITIONAL, ''failure streak exceeded'', important)
         else if critical \<and> ar_psi r \<le> archive_max_psi p
           then (TRANSITIONAL, ''critical agent low Psi: human review required before archive'', True)
         else if \<not> critical \<and> ar_psi r \<le> archive_max_psi p \<and> retention rp < min_retention p
             \<and> balance (aftermath rp) < min_aftermath_balance p
           then (ARCHIVED, ''low Psi with weak retention and negative aftermath'', False)
         else if dpsi < - alpha p \<or> max_transition_channel p \<le> transition_channel rp
           then (TRANSITIONAL, ''autophagic trigger: Psi is decaying or transition channel is high'', False)
         else if active_min_psi p \<le> ar_psi r \<and> min_retention p \<le> retention rp
           then (ACTIVE, ''healthy Psi and acceptable retention'', False)
         else (previous, ''hysteresis: no safe state change'', False))"

definition decide ::
    "kernel_policy \<Rightarrow> agent_record \<Rightarrow> coefficients \<Rightarrow> real \<Rightarrow> transition_report \<Rightarrow> governance_decision" where
  "decide p r c dpsi rp =
     (let (new_state, reason, review) = decide_agent_state p r c dpsi rp
      in \<lparr>gd_agent_id = agent_id (ar_spec r), gd_previous_state = ar_state r, gd_new_state = new_state,
          gd_psi = ar_psi r, gd_dpsi = dpsi, gd_coefficients = c, gd_reason = reason, gd_cgt = rp,
          gd_requires_human_review = review, gd_confidence = confidence c rp,
          gd_policy_version = policy_version p\<rparr>)"

definition decide_edge_state ::
    "kernel_policy \<Rightarrow> handoff_record \<Rightarrow> coefficients \<Rightarrow> real \<Rightarrow> transition_report \<Rightarrow> agent_state \<times> string \<times> maestro_action" where
  "decide_edge_state p r c dpsi rp =
     (if high_risk p c
        then (QUARANTINED, ''handoff quarantined: high ambiguity/risk/rework'', QUARANTINE)
      else if rp_existence_rank rp = Some EXTINCT
        then (ARCHIVED, ''handoff extinct: no viable carrier/effect'', REROUTE)
      else if rp_existence_rank rp = Some DISTORTED \<and> dpsi < 0
        then (TRANSITIONAL, ''handoff distorted: add mediator or simplify schema'', REROUTE)
      else if hr_psi r \<le> archive_max_psi p \<and> balance (aftermath rp) < min_aftermath_balance p
        then (ARCHIVED, ''handoff archived: structurally harmful edge'', REROUTE)
      else if dpsi < - alpha p \<or> max_transition_channel p \<le> transition_channel rp \<or> hr_psi r < min_edge_psi p
        then (TRANSITIONAL, ''handoff degraded: add mediator or reroute'', REROUTE)
      else if min_retention p \<le> retention rp \<and> 55/100 \<le> compatibility rp
        then (ACTIVE, ''handoff healthy'', HANDOFF)
      else (hr_state r, ''handoff hysteresis: keep observing'', OBSERVE))"

definition decide_edge ::
    "kernel_policy \<Rightarrow> handoff_record \<Rightarrow> coefficients \<Rightarrow> real \<Rightarrow> transition_report \<Rightarrow> edge_decision" where
  "decide_edge p r c dpsi rp =
     (let (new_state, reason, action) = decide_edge_state p r c dpsi rp
      in \<lparr>ed_edge_id = edge_id r, ed_source_agent_id = source_agent_id r, ed_target_agent_id = target_agent_id r,
          ed_previous_state = hr_state r, ed_new_state = new_state, ed_psi = hr_psi r, ed_dpsi = dpsi,
          ed_coefficients = c, ed_reason = reason, ed_cgt = rp, ed_action = action,
          ed_confidence = confidence c rp, ed_policy_version = policy_version p\<rparr>)"

definition steps_in :: "step_state \<Rightarrow> workflow_record \<Rightarrow> step_record list" where
  "steps_in st w = filter (\<lambda>s. sr_state s = st) (map snd (wr_steps w))"

definition step_budget :: "kernel_policy \<Rightarrow> step_record \<Rightarrow> int" where
  "step_budget p s = min (max_retries (sr_step s)) (max_step_attempts p)"

definition decide_workflow_state ::
    "kernel_policy \<Rightarrow> workflow_record \<Rightarrow> coefficients \<Rightarrow> real \<Rightarrow> transition_report
      \<Rightarrow> workflow_state \<times> string \<times> maestro_action \<times> bool" where
  "decide_workflow_state p w c dpsi rp =
     (if high_risk p c
        then (ESCALATED, ''workflow risk too high: human review required'', ESCALATE, True)
      else if length (steps_in STEP_COMPLETED w) = length (wr_steps w) \<and> wr_steps w \<noteq> []
        then (WF_COMPLETED, ''all workflow steps completed'', FINALIZE, False)
      else if rp_existence_rank rp = Some EXTINCT \<and> wr_steps w \<noteq> []
        then (DEGRADED, ''workflow extinct: no viable carrier/effect'', REROUTE, False)
      else if rp_existence_rank rp = Some DISTORTED \<and> dpsi < 0
        then (DEGRADED, ''workflow distorted: reduce complexity before continuation'', REROUTE, False)
      else if steps_in STEP_FAILED w \<noteq> [] \<and> list_all (\<lambda>s. step_budget p s \<le> attempts s) (steps_in STEP_FAILED w)
        then (DEGRADED, ''workflow degraded: failed steps exhausted retries'', REROUTE, False)
      else if dpsi < - alpha p \<or> wr_psi w < min_workflow_psi p \<or> max_transition_channel p \<le> transition_channel rp
        then (DEGRADED, ''workflow vitality decaying: reroute or parallelize'', REROUTE, False)
      else if steps_in PENDING w \<noteq> [] \<or> steps_in STEP_RUNNING w \<noteq> []
        then (WF_RUNNING, ''workflow in progress'', DELEGATE, False)
      else (PAUSED, ''no executable work found'', PAUSE, False))"

definition decide_workflow ::
    "kernel_policy \<Rightarrow> workflow_record \<Rightarrow> coefficients \<Rightarrow> real \<Rightarrow> transition_report \<Rightarrow> workflow_decision" where
  "decide_workflow p w c dpsi rp =
     (let (new_state, reason, action, review) = decide_workflow_state p w c dpsi rp
      in \<lparr>wd_workflow_id = workflow_id (wr_plan w), wd_previous_state = wr_state w, wd_new_state = new_state,
          wd_psi = wr_psi w, wd_dpsi = dpsi, wd_coefficients = c, wd_why = reason, wd_action = action, wd_cgt = rp,
          wd_requires_human_review = review, wd_confidence = confidence c rp,
          wd_policy_version = policy_version p\<rparr>)"

subsection \<open>What the governor never does\<close>

lemma round4_bounds: "0 \<le> x \<Longrightarrow> x \<le> 1 \<Longrightarrow> 0 \<le> round4 x \<and> round4 x \<le> 1"
proof -
  assume x: "0 \<le> x" "x \<le> 1"
  let ?y = "x * 10000"
  have f: "0 \<le> \<lfloor>?y\<rfloor>" "\<lfloor>?y\<rfloor> \<le> 10000" using x floor_mono [of ?y 10000] by simp_all
  have "\<lfloor>?y\<rfloor> = 10000 \<Longrightarrow> ?y - of_int \<lfloor>?y\<rfloor> = 0" using x floor_correct [of ?y] by simp
  moreover define n where "n = \<lfloor>?y\<rfloor>"
  moreover have "n < 10000 \<or> n = 10000" using f n_def by linarith
  ultimately have "0 \<le> round_half_even ?y \<and> round_half_even ?y \<le> 10000"
    using f unfolding round_half_even_def Let_def n_def [symmetric] by (elim disjE) simp_all
  then show ?thesis by (simp add: round4_def)
qed

lemma confidence_bounds: "0 \<le> confidence c rp" "confidence c rp \<le> 1"
  using round4_bounds [OF clamp_bounds] by (simp_all add: confidence_def)

text \<open>C5. The governor's promises on agents, for every policy, report and history: high risk, and
  nothing else, quarantines, always with human review; an archived agent never becomes active in one
  decision; a critical agent is never moved into the archive, and whenever a critical agent is
  moved to quarantine or out of service by its own decline a human review is asked for;
  the reported confidence is between 0 and 1.\<close>

theorem governor_safe:
  "(gd_new_state (decide p r c dpsi rp) = QUARANTINED \<longrightarrow>
      high_risk p c \<and> gd_requires_human_review (decide p r c dpsi rp) \<or>
      ar_state r = QUARANTINED \<and> gd_reason (decide p r c dpsi rp) = ''hysteresis: no safe state change'') \<and>
   (high_risk p c \<longrightarrow> gd_new_state (decide p r c dpsi rp) = QUARANTINED \<and> gd_requires_human_review (decide p r c dpsi rp)) \<and>
   (ar_state r = ARCHIVED \<longrightarrow> gd_new_state (decide p r c dpsi rp) \<noteq> ACTIVE) \<and>
   (criticality (ar_spec r) = CRITICAL \<and> gd_new_state (decide p r c dpsi rp) = ARCHIVED \<longrightarrow> ar_state r = ARCHIVED) \<and>
   (criticality (ar_spec r) = CRITICAL \<and> critical_requires_review p \<and> ar_state r = ACTIVE \<and>
      gd_new_state (decide p r c dpsi rp) \<noteq> ACTIVE \<longrightarrow> gd_requires_human_review (decide p r c dpsi rp)) \<and>
   0 \<le> gd_confidence (decide p r c dpsi rp) \<and> gd_confidence (decide p r c dpsi rp) \<le> 1"
proof -
  obtain st why review where d: "decide_agent_state p r c dpsi rp = (st, why, review)" by (metis prod_cases3)
  then have e: "gd_new_state (decide p r c dpsi rp) = st" "gd_reason (decide p r c dpsi rp) = why"
    "gd_requires_human_review (decide p r c dpsi rp) = review" "gd_confidence (decide p r c dpsi rp) = confidence c rp"
    by (simp_all add: decide_def)
  note u = d [unfolded decide_agent_state_def Let_def]
  have 1: "st = QUARANTINED \<longrightarrow> high_risk p c \<and> review \<or> ar_state r = QUARANTINED \<and> why = ''hysteresis: no safe state change''"
    using u by (simp split: if_splits)
  have 2: "high_risk p c \<longrightarrow> st = QUARANTINED \<and> review" using u by (simp split: if_splits)
  have 3: "ar_state r = ARCHIVED \<longrightarrow> st \<noteq> ACTIVE" using u by (auto split: if_splits)
  have 4: "criticality (ar_spec r) = CRITICAL \<and> st = ARCHIVED \<longrightarrow> ar_state r = ARCHIVED" using u by (simp split: if_splits)
  have 5: "criticality (ar_spec r) = CRITICAL \<and> critical_requires_review p \<and> ar_state r = ACTIVE \<and> st \<noteq> ACTIVE \<longrightarrow> review"
    using u by (auto split: if_splits)
  show ?thesis unfolding e using 1 2 3 4 5 confidence_bounds by blast
qed

end
