(* ===== verification/Maestro_Kernel.thy ===== *)
theory Maestro_Kernel
  imports Governor
begin

section \<open>The orchestration kernel\<close>

text \<open>
  \<open>processual_kernel/kernel.py\<close>: the agent registry, observations, handoffs, workflows and their
  execution. The kernel object is the record \<open>kernel\<close>; mutable records that the code shares by
  reference are updated in the dictionaries that hold them. The agent runtime is the argument
  \<open>run\<close>: a function of the agent, the task and a state \<open>world\<close> of its own, with a result and the
  measured milliseconds, or an exception. The structural engine is the argument \<open>ev\<close>. The audit
  sink is a log that is present when a sink is configured. A method that raises leaves the kernel
  as it is at that moment.
\<close>

datatype audit_item =
    Audit_Governance governance_decision
  | Audit_Edge edge_decision
  | Audit_Workflow workflow_decision
  | Audit_Event maestro_event

record 'w kernel =
  k_policy :: kernel_policy
  registry :: "(string, agent_record) dict"
  handoffs :: "(string, handoff_record) dict"
  workflows :: "(string, workflow_record) dict"
  events :: "maestro_event list"
  audit_log :: "audit_item list option"
  world :: 'w

type_synonym 'w runtime = "agent_spec \<Rightarrow> task_envelope \<Rightarrow> 'w \<Rightarrow> (exc + task_result \<times> real) \<times> 'w"

definition new_kernel :: "kernel_policy \<Rightarrow> bool \<Rightarrow> 'w \<Rightarrow> exc + 'w kernel" where
  "new_kernel p has_sink w =
     (if dt p \<le> 0 then Inl (ValueError ''dt must be positive'')
      else Inr \<lparr>k_policy = p, registry = [], handoffs = [], workflows = [], events = [],
                audit_log = (if has_sink then Some [] else None), world = w\<rparr>)"

definition write_audit :: "audit_item \<Rightarrow> 'w kernel \<Rightarrow> 'w kernel" where
  "write_audit it k = (case audit_log k of None \<Rightarrow> k | Some l \<Rightarrow> k\<lparr>audit_log := Some (l @ [it])\<rparr>)"

subsection \<open>Agents\<close>

definition register_agent :: "agent_spec \<Rightarrow> agent_telemetry option \<Rightarrow> ('w kernel, agent_record) op" where
  "register_agent sp tel k =
     (if dict_get (registry k) (agent_id sp) \<noteq> None
      then (Inl (ValueError (''agent already registered: '' @ agent_id sp)), k)
      else let r = (AgentRecord sp)\<lparr>ar_last_coefficients := map_option from_agent_telemetry tel\<rparr>
           in (Inr r, k\<lparr>registry := dict_set (agent_id sp) r (registry k)\<rparr>))"

definition get_agent :: "string \<Rightarrow> 'w kernel \<Rightarrow> exc + agent_record" where
  "get_agent aid k =
     (case dict_get (registry k) aid of None \<Rightarrow> Inl (KeyError (''unknown agent: '' @ aid)) | Some r \<Rightarrow> Inr r)"

definition put_agent :: "string \<Rightarrow> agent_record \<Rightarrow> 'w kernel \<Rightarrow> 'w kernel" where
  "put_agent aid r k = k\<lparr>registry := dict_set aid r (registry k)\<rparr>"

definition coefficients_or :: "coefficients option \<Rightarrow> coefficients \<Rightarrow> coefficients" where
  "coefficients_or c d = (case c of None \<Rightarrow> d | Some x \<Rightarrow> x)"

definition observe :: "engine \<Rightarrow> string \<Rightarrow> agent_telemetry \<Rightarrow> ('w kernel, governance_decision) op" where
  "observe ev aid tel k =
     (case get_agent aid k of
        Inl e \<Rightarrow> (Inl e, k)
      | Inr r \<Rightarrow>
          let prev = coefficients_or (ar_last_coefficients r) (from_agent_telemetry AgentTelemetry);
              c = from_agent_telemetry tel;
              (psi, dpsi) = continuity_step (dt (k_policy k)) (ar_psi r) c;
              r1 = r\<lparr>ar_previous_psi := ar_psi r, ar_psi := psi, failure_streak := failure_count tel,
                     ar_last_coefficients := Some c, ar_observations := ar_observations r + 1\<rparr>;
              k1 = put_agent aid r1 k
          in case evaluate_transition ev aid prev c (ar_previous_psi r1) (ar_psi r1) dpsi (failure_streak r1) of
               Inl e \<Rightarrow> (Inl e, k1)
             | Inr rp \<Rightarrow>
                 let d = decide (k_policy k) r1 c dpsi rp
                 in (Inr d, write_audit (Audit_Governance d) (put_agent aid (r1\<lparr>ar_state := gd_new_state d\<rparr>) k1)))"

text \<open>\<open>sorted(key=(psi, -streak), reverse=True)\<close> keeps equal agents in registration order.\<close>

definition route_candidates :: "string \<Rightarrow> 'w kernel \<Rightarrow> agent_record list" where
  "route_candidates cap k =
     (let cs = filter (\<lambda>r. ar_state r = ACTIVE \<and> cap \<in> set (capabilities (ar_spec r))) (map snd (registry k))
      in if prefer_high_psi_agents (k_policy k) then sort_key (\<lambda>r. (- ar_psi r, failure_streak r)) cs else cs)"

definition call_runtime :: "'w runtime \<Rightarrow> agent_spec \<Rightarrow> task_envelope \<Rightarrow> ('w kernel, task_result \<times> real) op" where
  "call_runtime run sp t k =
     (case run sp t (world k) of
        (Inl e, w) \<Rightarrow> (Inl e, k\<lparr>world := w\<rparr>)
      | (Inr (res, measured), w) \<Rightarrow>
          (Inr (res, if tr_latency_ms res \<noteq> 0 then tr_latency_ms res else measured), k\<lparr>world := w\<rparr>))"

definition result_telemetry :: "task_result \<Rightarrow> real \<Rightarrow> real \<Rightarrow> real \<Rightarrow> real \<Rightarrow> int \<Rightarrow> agent_telemetry" where
  "result_telemetry res latency prio coop useful streak =
     AgentTelemetry\<lparr>success_rate := (if tr_ok res then 1 else 0), cooperation_success := coop, useful_handoff_rate := useful,
       at_demand_rate := min 1 prio, business_priority := prio, resource_cost := min 1 (tr_cost res),
       failure_count := (if tr_ok res then 0 else streak + 1), latency_p95_ms := latency\<rparr>"

definition run_task :: "engine \<Rightarrow> 'w runtime option \<Rightarrow> task_envelope \<Rightarrow> ('w kernel, task_result) op" where
  "run_task ev rt t k =
     (case rt of None \<Rightarrow> (Inl (RuntimeError ''No AgentRuntime configured''), k) | Some run \<Rightarrow>
     (case route_candidates (required_capability t) k of
        [] \<Rightarrow> (Inl (RuntimeError (''No active agent can handle capability: '' @ required_capability t)), k)
      | chosen # _ \<Rightarrow>
          (case call_runtime run (ar_spec chosen) t k of
             (Inl e, k1) \<Rightarrow> (Inl e, k1)
           | (Inr (res, latency), k1) \<Rightarrow>
               (case get_agent (agent_id (ar_spec chosen)) k1 of
                  Inl e \<Rightarrow> (Inl e, k1)
                | Inr r \<Rightarrow>
                    (case observe ev (agent_id (ar_spec chosen))
                        (result_telemetry res latency (task_priority t) (6/10) (6/10) (failure_streak r)) k1 of
                       (Inl e, k2) \<Rightarrow> (Inl e, k2)
                     | (Inr _, k2) \<Rightarrow> (Inr res, k2))))))"

definition active_ratio :: "'w kernel \<Rightarrow> real" where
  "active_ratio k =
     (if registry k = [] then 0
      else of_nat (length (filter (\<lambda>r. ar_state r = ACTIVE) (map snd (registry k)))) / of_nat (length (registry k)))"

subsection \<open>Workflows\<close>

definition emit ::
    "string option \<Rightarrow> maestro_action \<Rightarrow> string \<Rightarrow> string \<Rightarrow> (string, pyval) dict \<Rightarrow> 'w kernel \<Rightarrow> maestro_event \<times> 'w kernel" where
  "emit wid action subject reason pl k =
     (let e = \<lparr>ev_workflow_id = wid, ev_action = action, ev_subject = subject, ev_reason = reason, ev_payload = pl\<rparr>
      in (e, write_audit (Audit_Event e) (k\<lparr>events := events k @ [e]\<rparr>)))"

definition put_workflow :: "string \<Rightarrow> workflow_record \<Rightarrow> 'w kernel \<Rightarrow> 'w kernel" where
  "put_workflow wid w k = k\<lparr>workflows := dict_set wid w (workflows k)\<rparr>"

definition create_workflow :: "workflow_plan \<Rightarrow> ('w kernel, workflow_record) op" where
  "create_workflow pl k =
     (if dict_get (workflows k) (workflow_id pl) \<noteq> None
      then (Inl (ValueError (''workflow already exists: '' @ workflow_id pl)), k)
      else let ss = fold (\<lambda>s. dict_set (step_id s) (StepRecord s)) (plan_steps pl) [];
               w = WorkflowRecord pl ss
           in (Inr w, snd (emit None OBSERVE (workflow_id pl) ''workflow created'' [(''goal'', PyStr (goal pl))]
                 (put_workflow (workflow_id pl) w k))))"

definition get_workflow :: "string \<Rightarrow> 'w kernel \<Rightarrow> exc + workflow_record" where
  "get_workflow wid k =
     (case dict_get (workflows k) wid of None \<Rightarrow> Inl (KeyError (''unknown workflow: '' @ wid)) | Some w \<Rightarrow> Inr w)"

definition observe_handoff :: "engine \<Rightarrow> string \<Rightarrow> string \<Rightarrow> handoff_telemetry \<Rightarrow> ('w kernel, edge_decision) op" where
  "observe_handoff ev src tgt tel k =
     (let eid = edge_id_of src tgt;
          r = (case dict_get (handoffs k) eid of None \<Rightarrow> HandoffRecord src tgt | Some r \<Rightarrow> r);
          prev = coefficients_or (hr_last_coefficients r) (from_handoff_telemetry HandoffTelemetry);
          c = from_handoff_telemetry tel;
          (psi, dpsi) = continuity_step (dt (k_policy k)) (hr_psi r) c;
          r1 = r\<lparr>hr_previous_psi := hr_psi r, hr_psi := psi, hr_last_coefficients := Some c,
                 hr_observations := hr_observations r + 1\<rparr>;
          k1 = k\<lparr>handoffs := dict_set eid r1 (handoffs k)\<rparr>
      in case evaluate_transition ev eid prev c (hr_previous_psi r1) (hr_psi r1) dpsi
             \<lfloor>max 0 (ht_rework_rate tel) * 10\<rfloor> of
           Inl e \<Rightarrow> (Inl e, k1)
         | Inr rp \<Rightarrow>
             let d = decide_edge (k_policy k) r1 c dpsi rp;
                 k2 = write_audit (Audit_Edge d)
                   (k1\<lparr>handoffs := dict_set eid (r1\<lparr>hr_state := ed_new_state d\<rparr>) (handoffs k1)\<rparr>)
             in (Inr d, if ed_action d \<in> {REROUTE, QUARANTINE}
                        then snd (emit None (ed_action d) eid (ed_reason d) [(''edge_psi'', PyFloat (ed_psi d))] k2)
                        else k2))"

definition observe_workflow :: "engine \<Rightarrow> string \<Rightarrow> workflow_telemetry \<Rightarrow> ('w kernel, workflow_decision) op" where
  "observe_workflow ev wid tel k =
     (case get_workflow wid k of
        Inl e \<Rightarrow> (Inl e, k)
      | Inr w \<Rightarrow>
          let prev = coefficients_or (wr_last_coefficients w) (from_workflow_telemetry WorkflowTelemetry);
              c = from_workflow_telemetry tel;
              (psi, dpsi) = continuity_step (dt (k_policy k)) (wr_psi w) c;
              w1 = w\<lparr>wr_previous_psi := wr_psi w, wr_psi := psi, wr_last_coefficients := Some c\<rparr>;
              k1 = put_workflow wid w1 k
          in case evaluate_transition ev wid prev c (wr_previous_psi w1) (wr_psi w1) dpsi
                 (int (length (steps_in STEP_FAILED w1))) of
               Inl e \<Rightarrow> (Inl e, k1)
             | Inr rp \<Rightarrow>
                 let d = decide_workflow (k_policy k) w1 c dpsi rp;
                     k2 = write_audit (Audit_Workflow d) (put_workflow wid (w1\<lparr>wr_state := wd_new_state d\<rparr>) k1)
                 in (Inr d, snd (emit (Some wid) (wd_action d) wid (wd_why d) [(''workflow_psi'', PyFloat (wd_psi d))] k2)))"

text \<open>\<open>all(...)\<close> stops at the first dependency that is not completed; a missing one raises.\<close>

fun deps_completed :: "(string, step_record) dict \<Rightarrow> string list \<Rightarrow> exc + bool" where
  "deps_completed ss [] = Inr True"
| "deps_completed ss (d # ds) =
     (case dict_get ss d of
        None \<Rightarrow> Inl (KeyError d)
      | Some s \<Rightarrow> if sr_state s = STEP_COMPLETED then deps_completed ss ds else Inr False)"

fun collect_ready :: "(string, step_record) dict \<Rightarrow> (string \<times> step_record) list \<Rightarrow> exc + string list" where
  "collect_ready ss [] = Inr []"
| "collect_ready ss ((sid, s) # rest) =
     (if sr_state s \<noteq> PENDING then collect_ready ss rest
      else case deps_completed ss (depends_on (sr_step s)) of
          Inl e \<Rightarrow> Inl e
        | Inr b \<Rightarrow>
            (case collect_ready ss rest of Inl e \<Rightarrow> Inl e | Inr sids \<Rightarrow> Inr (if b then sid # sids else sids)))"

definition ready_steps :: "string \<Rightarrow> 'w kernel \<Rightarrow> exc + string list" where
  "ready_steps wid k =
     (case get_workflow wid k of Inl e \<Rightarrow> Inl e | Inr w \<Rightarrow> collect_ready (wr_steps w) (wr_steps w))"

definition assign_agent :: "step_record \<Rightarrow> 'w kernel \<Rightarrow> exc + agent_record" where
  "assign_agent s k =
     (let cap = capability (sr_step s);
          route = (case route_candidates cap k of
              [] \<Rightarrow> Inl (RuntimeError (''no active agent can execute step '' @ step_id (sr_step s) @ '' capability='' @ cap))
            | r # _ \<Rightarrow> Inr r)
      in case preferred_agent_id (sr_step s) of
           None \<Rightarrow> route
         | Some a \<Rightarrow>
             if a = [] then route
             else case get_agent a k of
                 Inl e \<Rightarrow> Inl e
               | Inr r \<Rightarrow> if ar_state r = ACTIVE \<and> cap \<in> set (capabilities (ar_spec r)) then Inr r else route)"

fun nat_str :: "nat \<Rightarrow> string" where
  "nat_str n = (if n < 10 then [char_of (48 + n)] else nat_str (n div 10) @ [char_of (48 + n mod 10)])"

declare nat_str.simps [simp del]

fun dependency_outputs :: "(string, step_record) dict \<Rightarrow> string list \<Rightarrow> (string, pyval) dict \<Rightarrow> exc + (string, pyval) dict" where
  "dependency_outputs ss [] acc = Inr acc"
| "dependency_outputs ss (d # ds) acc =
     (case dict_get ss d of
        None \<Rightarrow> Inl (KeyError d)
      | Some s \<Rightarrow> dependency_outputs ss ds (dict_set d (sr_output s) acc))"

definition put_step :: "string \<Rightarrow> string \<Rightarrow> step_record \<Rightarrow> 'w kernel \<Rightarrow> 'w kernel" where
  "put_step wid sid s k =
     (case dict_get (workflows k) wid of
        None \<Rightarrow> k
      | Some w \<Rightarrow> put_workflow wid (w\<lparr>wr_steps := dict_set sid s (wr_steps w)\<rparr>) k)"

text \<open>The end of \<open>_run_step\<close>: a failed step is scheduled again while its attempts are below both
  \<open>max_retries\<close> and the policy's bound.\<close>

definition schedule_retry :: "string \<Rightarrow> string \<Rightarrow> step_record \<Rightarrow> bool \<Rightarrow> 'w kernel \<Rightarrow> 'w kernel" where
  "schedule_retry wid sid s ok k =
     (if ok then k
      else if attempts s < step_budget (k_policy k) s
      then snd (emit (Some wid) RETRY (step_id (sr_step s)) ''step failed; retry scheduled'' []
             (put_step wid sid (s\<lparr>sr_state := PENDING\<rparr>) k))
      else snd (emit (Some wid) REROUTE (step_id (sr_step s)) ''step failed; retries exhausted'' [] k))"

definition step_task :: "workflow_plan \<Rightarrow> step_record \<Rightarrow> (string, pyval) dict \<Rightarrow> task_envelope" where
  "step_task pl s outs =
     \<lparr>task_id = workflow_id pl @ '':'' @ step_id (sr_step s) @ '':'' @ nat_str (nat (attempts s)),
      required_capability = capability (sr_step s),
      payload = [(''workflow_id'', PyStr (workflow_id pl)), (''goal'', PyStr (goal pl)),
        (''instruction'', PyStr (instruction (sr_step s))), (''dependencies'', PyDict outs),
        (''metadata'', PyDict (step_metadata (sr_step s)))],
      task_priority = priority pl\<rparr>"

text \<open>\<open>_run_step\<close> in three parts: the assignment, the task, and the result.\<close>

definition begin_step :: "string \<Rightarrow> string \<Rightarrow> step_record \<Rightarrow> string \<Rightarrow> 'w kernel \<Rightarrow> step_record \<times> 'w kernel" where
  "begin_step wid sid s aid k =
     (let s1 = s\<lparr>assigned_agent_id := Some aid, sr_state := STEP_RUNNING, attempts := attempts s + 1\<rparr>
      in (s1, snd (emit (Some wid) DELEGATE (step_id (sr_step s)) (''assigned to '' @ aid) [] (put_step wid sid s1 k))))"

definition finish_step ::
    "engine \<Rightarrow> string \<Rightarrow> workflow_plan \<Rightarrow> string \<Rightarrow> step_record \<Rightarrow> string \<Rightarrow> task_result \<Rightarrow> real \<Rightarrow> ('w kernel, unit) op" where
  "finish_step ev wid pl sid s1 aid res latency k2 =
     (let ok = tr_ok res;
          s2 = s1\<lparr>sr_output := tr_output res, sr_error := tr_error res,
                  sr_state := (if ok then STEP_COMPLETED else STEP_FAILED)\<rparr>;
          k3 = put_step wid sid s2 k2
      in case get_agent aid k3 of
           Inl e \<Rightarrow> (Inl e, k3)
         | Inr r \<Rightarrow>
             (case observe ev aid (result_telemetry res latency (priority pl)
                 (if ok then 65/100 else 25/100) (if ok then 65/100 else 20/100) (failure_streak r)) k3 of
                (Inl e, k4) \<Rightarrow> (Inl e, k4)
              | (Inr _, k4) \<Rightarrow> (Inr (), schedule_retry wid sid s2 ok k4)))"

definition run_step :: "engine \<Rightarrow> 'w runtime \<Rightarrow> string \<Rightarrow> workflow_record \<Rightarrow> string \<Rightarrow> step_record \<Rightarrow> ('w kernel, unit) op" where
  "run_step ev run wid w sid s k =
     (case assign_agent s k of
        Inl e \<Rightarrow> (Inl e, k)
      | Inr agent \<Rightarrow>
          let aid = agent_id (ar_spec agent); (s1, k1) = begin_step wid sid s aid k
          in case dependency_outputs (dict_set sid s1 (wr_steps w)) (depends_on (sr_step s)) [] of
               Inl e \<Rightarrow> (Inl e, k1)
             | Inr outs \<Rightarrow>
                 (case call_runtime run (ar_spec agent) (step_task (wr_plan w) s1 outs) k1 of
                    (Inl e, k2) \<Rightarrow> (Inl e, k2)
                  | (Inr (res, latency), k2) \<Rightarrow> finish_step ev wid (wr_plan w) sid s1 aid res latency k2))"

definition handoff_of :: "bool \<Rightarrow> real \<Rightarrow> handoff_telemetry" where
  "handoff_of ok prio =
     HandoffTelemetry\<lparr>artifact_quality := (if ok then 85/100 else 25/100),
       context_preservation := (if ok then 80/100 else 30/100), acceptance_rate := (if ok then 90/100 else 20/100),
       ht_rework_rate := (if ok then 5/100 else 75/100), ambiguity := (if ok then 10/100 else 70/100),
       ht_demand_rate := prio\<rparr>"

fun observe_handoffs :: "engine \<Rightarrow> workflow_record \<Rightarrow> string \<Rightarrow> bool \<Rightarrow> string list \<Rightarrow> ('w kernel, unit) op" where
  "observe_handoffs ev w tgt ok [] k = (Inr (), k)"
| "observe_handoffs ev w tgt ok (d # ds) k =
     (case dict_get (wr_steps w) d of
        None \<Rightarrow> (Inl (KeyError d), k)
      | Some s \<Rightarrow>
          if assigned_agent_id s = None \<or> assigned_agent_id s = Some [] then observe_handoffs ev w tgt ok ds k
          else case observe_handoff ev (the (assigned_agent_id s)) tgt (handoff_of ok (priority (wr_plan w))) k of
              (Inl e, k1) \<Rightarrow> (Inl e, k1)
            | (Inr _, k1) \<Rightarrow> observe_handoffs ev w tgt ok ds k1)"

definition observe_step_handoffs :: "engine \<Rightarrow> workflow_record \<Rightarrow> step_record \<Rightarrow> ('w kernel, unit) op" where
  "observe_step_handoffs ev w s k =
     (case assigned_agent_id s of
        None \<Rightarrow> (Inr (), k)
      | Some a \<Rightarrow>
          if a = [] then (Inr (), k)
          else observe_handoffs ev w a (sr_state s = STEP_COMPLETED) (depends_on (sr_step s)) k)"

definition steps_telemetry :: "workflow_record \<Rightarrow> workflow_telemetry" where
  "steps_telemetry w =
     (let total = real (max 1 (length (wr_steps w)));
          completed = real (length (steps_in STEP_COMPLETED w));
          failed = real (length (steps_in STEP_FAILED w));
          running = real (length (steps_in STEP_RUNNING w));
          progress = completed / total; blocking = failed / total
      in \<lparr>goal_alignment = (if failed = 0 then 9/10 else 55/100), progress_rate = progress,
          completion_confidence = progress * (1 - blocking),
          coordination_quality = (if failed = 0 then 85/100 else 45/100), blocking_rate = blocking,
          wt_rework_rate = blocking, cost_pressure = 10/100 + 20/100 * failed,
          latency_pressure = 5/100 + 10/100 * running, risk_pressure = 10/100 * failed,
          wt_demand_rate = priority (wr_plan w), wt_custom = [(''business_priority'', priority (wr_plan w))]\<rparr>)"

definition observe_workflow_from_steps :: "engine \<Rightarrow> string \<Rightarrow> ('w kernel, workflow_decision) op" where
  "observe_workflow_from_steps ev wid k =
     (case get_workflow wid k of
        Inl e \<Rightarrow> (Inl e, k)
      | Inr w \<Rightarrow> observe_workflow ev wid (steps_telemetry w) k)"

text \<open>The inner loop over the steps that were ready; \<open>True\<close> when the run returns early. A step is
  looked up when its turn comes, as the shared record of the code is.\<close>

definition run_one :: "engine \<Rightarrow> 'w runtime \<Rightarrow> string \<Rightarrow> string \<Rightarrow> ('w kernel, bool) op" where
  "run_one ev run wid sid k =
     (case get_workflow wid k of Inl e \<Rightarrow> (Inl e, k) | Inr w \<Rightarrow>
     (case dict_get (wr_steps w) sid of None \<Rightarrow> (Inl (KeyError sid), k) | Some s \<Rightarrow>
     (case run_step ev run wid w sid s k of (Inl e, k1) \<Rightarrow> (Inl e, k1) | (Inr _, k1) \<Rightarrow>
     (case get_workflow wid k1 of Inl e \<Rightarrow> (Inl e, k1) | Inr w1 \<Rightarrow>
     (case dict_get (wr_steps w1) sid of None \<Rightarrow> (Inl (KeyError sid), k1) | Some s1 \<Rightarrow>
     (case observe_step_handoffs ev w1 s1 k1 of (Inl e, k2) \<Rightarrow> (Inl e, k2) | (Inr _, k2) \<Rightarrow>
     (case observe_workflow_from_steps ev wid k2 of
        (Inl e, k3) \<Rightarrow> (Inl e, k3)
      | (Inr d, k3) \<Rightarrow> (Inr (wd_new_state d \<in> {ESCALATED, WF_FAILED}), k3))))))))"

fun run_ready :: "engine \<Rightarrow> 'w runtime \<Rightarrow> string \<Rightarrow> string list \<Rightarrow> ('w kernel, bool) op" where
  "run_ready ev run wid [] k = (Inr False, k)"
| "run_ready ev run wid (sid # sids) k =
     (case run_one ev run wid sid k of
        (Inl e, k1) \<Rightarrow> (Inl e, k1)
      | (Inr stop, k1) \<Rightarrow> if stop then (Inr True, k1) else run_ready ev run wid sids k1)"

fun run_loop :: "nat \<Rightarrow> engine \<Rightarrow> 'w runtime \<Rightarrow> string \<Rightarrow> 'w kernel \<Rightarrow> ((exc + unit) \<times> 'w kernel) option" where
  "run_loop 0 ev run wid k = None"
| "run_loop (Suc n) ev run wid k =
     (case ready_steps wid k of
        Inl e \<Rightarrow> Some (Inl e, k)
      | Inr [] \<Rightarrow>
          Some (case observe_workflow_from_steps ev wid k of (Inl e, k1) \<Rightarrow> (Inl e, k1) | (Inr _, k1) \<Rightarrow> (Inr (), k1))
      | Inr (sid # sids) \<Rightarrow>
          (case run_ready ev run wid (sid # sids) k of
             (Inl e, k1) \<Rightarrow> Some (Inl e, k1)
           | (Inr stop, k1) \<Rightarrow> if stop then Some (Inr (), k1) else run_loop n ev run wid k1))"

definition run_workflow ::
    "nat \<Rightarrow> engine \<Rightarrow> 'w runtime option \<Rightarrow> string \<Rightarrow> 'w kernel \<Rightarrow> ((exc + unit) \<times> 'w kernel) option" where
  "run_workflow n ev rt wid k =
     (case rt of None \<Rightarrow> Some (Inl (RuntimeError ''No AgentRuntime configured''), k) | Some run \<Rightarrow>
     (case get_workflow wid k of
        Inl e \<Rightarrow> Some (Inl e, k)
      | Inr w \<Rightarrow>
          run_loop n ev run wid
            (snd (emit (Some wid) DELEGATE wid ''workflow started'' [] (put_workflow wid (w\<lparr>wr_state := WF_RUNNING\<rparr>) k)))))"

definition intervene ::
    "string \<Rightarrow> maestro_action \<Rightarrow> string \<Rightarrow> string \<Rightarrow> (string, pyval) dict \<Rightarrow> ('w kernel, maestro_event) op" where
  "intervene wid action subject reason pl k =
     (case get_workflow wid k of
        Inl e \<Rightarrow> (Inl e, k)
      | Inr w \<Rightarrow>
          let st = (case action of PAUSE \<Rightarrow> PAUSED | ESCALATE \<Rightarrow> ESCALATED | FINALIZE \<Rightarrow> WF_COMPLETED
                    | REROUTE \<Rightarrow> DEGRADED | _ \<Rightarrow> wr_state w);
              (e, k1) = emit (Some wid) action subject reason pl (put_workflow wid (w\<lparr>wr_state := st\<rparr>) k)
          in (Inr e, k1))"

end
