(* ===== verification/Workflow_Steps.thy ===== *)
theory Workflow_Steps
  imports Maestro_Kernel
begin

section \<open>Steps of a workflow\<close>

text \<open>
  What each method of the kernel leaves alone, what running one step changes, the invariant of the
  steps (a step runs only after its dependencies and at most as often as its budget allows), and
  the loops of \<open>run_workflow\<close>: every pass uses up budget, so they end.
\<close>

subsection \<open>What each method leaves alone\<close>

named_theorems frame_simps \<open>fields that a method does not change\<close>

lemma frame_basic [frame_simps]:
  "workflows (write_audit i k) = workflows k" "k_policy (write_audit i k) = k_policy k"
  "registry (write_audit i k) = registry k" "handoffs (write_audit i k) = handoffs k"
  "workflows (snd (emit owid act sb why pl k)) = workflows k" "k_policy (snd (emit owid act sb why pl k)) = k_policy k"
  "registry (snd (emit owid act sb why pl k)) = registry k" "handoffs (snd (emit owid act sb why pl k)) = handoffs k"
  "workflows (put_agent aid r k) = workflows k" "k_policy (put_agent aid r k) = k_policy k"
  "registry (put_workflow wid w k) = registry k" "k_policy (put_workflow wid w k) = k_policy k"
  "registry (put_step wid sid s k) = registry k" "k_policy (put_step wid sid s k) = k_policy k"
  by (simp_all add: write_audit_def emit_def put_agent_def put_workflow_def put_step_def split: option.split)

lemma frame_observe [frame_simps]:
  "workflows (snd (observe ev aid tel k)) = workflows k" "k_policy (snd (observe ev aid tel k)) = k_policy k"
  by (simp_all add: observe_def continuity_step_def frame_simps split: sum.split)

lemma frame_call_runtime [frame_simps]:
  "workflows (snd (call_runtime run sp t k)) = workflows k" "k_policy (snd (call_runtime run sp t k)) = k_policy k"
  "registry (snd (call_runtime run sp t k)) = registry k"
  by (auto simp: call_runtime_def split: prod.split sum.split)

lemma frame_observe_handoff [frame_simps]:
  "workflows (snd (observe_handoff ev src tgt tel k)) = workflows k"
  "k_policy (snd (observe_handoff ev src tgt tel k)) = k_policy k"
  "registry (snd (observe_handoff ev src tgt tel k)) = registry k"
  by (simp_all add: observe_handoff_def continuity_step_def frame_simps split: sum.split)

lemma observe_handoffs_frame:
  "snd (observe_handoffs ev w tgt ok ds k) = k' \<Longrightarrow>
     workflows k' = workflows k \<and> k_policy k' = k_policy k \<and> registry k' = registry k"
proof (induction ds arbitrary: k)
  case Nil
  then show ?case by simp
next
  case (Cons d ds)
  show ?case
  proof (cases "\<exists>s a. dict_get (wr_steps w) d = Some s \<and> assigned_agent_id s = Some a \<and> a \<noteq> []")
    case False
    then consider "dict_get (wr_steps w) d = None"
      | s where "dict_get (wr_steps w) d = Some s" "assigned_agent_id s = None \<or> assigned_agent_id s = Some []"
      by (metis not_None_eq)
    then show ?thesis
    proof cases
      case 1
      with Cons.prems show ?thesis by simp
    next
      case (2 s)
      with Cons.prems have "snd (observe_handoffs ev w tgt ok ds k) = k'" by simp
      then show ?thesis by (rule Cons.IH)
    qed
  next
    case True
    then obtain s a where s: "dict_get (wr_steps w) d = Some s" "assigned_agent_id s = Some a" "a \<noteq> []" by blast
    obtain r k1 where h: "observe_handoff ev a tgt (handoff_of ok (priority (wr_plan w))) k = (r, k1)" by fastforce
    have f: "workflows k1 = workflows k" "k_policy k1 = k_policy k" "registry k1 = registry k"
      using frame_observe_handoff [of ev a tgt "handoff_of ok (priority (wr_plan w))" k] h by simp_all
    show ?thesis
    proof (cases r)
      case (Inl e)
      with Cons.prems s h f show ?thesis by simp
    next
      case (Inr x)
      with Cons.prems s h have "snd (observe_handoffs ev w tgt ok ds k1) = k'" by simp
      from Cons.IH [OF this] f show ?thesis by simp
    qed
  qed
qed

lemmas frame_observe_handoffs [frame_simps] =
  observe_handoffs_frame [OF refl, THEN conjunct1]
  observe_handoffs_frame [OF refl, THEN conjunct2, THEN conjunct1]
  observe_handoffs_frame [OF refl, THEN conjunct2, THEN conjunct2]

lemma frame_observe_step_handoffs [frame_simps]:
  "workflows (snd (observe_step_handoffs ev w s k)) = workflows k"
  "k_policy (snd (observe_step_handoffs ev w s k)) = k_policy k"
  "registry (snd (observe_step_handoffs ev w s k)) = registry k"
  by (simp_all add: observe_step_handoffs_def frame_simps split: option.split)

text \<open>Observing a workflow changes no step.\<close>

definition steps_of :: "string \<Rightarrow> 'w kernel \<Rightarrow> (string, step_record) dict option" where
  "steps_of wid k = map_option wr_steps (dict_get (workflows k) wid)"

lemma steps_of_simps [frame_simps]:
  "steps_of v (put_workflow wid w k) = (if v = wid then Some (wr_steps w) else steps_of v k)"
  "steps_of v (put_step wid sid s k) = (if v = wid then map_option (dict_set sid s) (steps_of v k) else steps_of v k)"
  by (auto simp: steps_of_def put_workflow_def put_step_def dict_simps split: option.split)

lemma steps_of_cong: "workflows k = workflows k' \<Longrightarrow> steps_of v k = steps_of v k'"
  by (simp add: steps_of_def)

lemma steps_of_emit [frame_simps]: "steps_of v (snd (emit owid act sb why pl k)) = steps_of v k"
  by (rule steps_of_cong) (simp add: frame_simps)

lemma get_workflow_Inr: "get_workflow wid k = Inr w \<longleftrightarrow> dict_get (workflows k) wid = Some w"
  by (simp add: get_workflow_def split: option.split)

lemma frame_observe_workflow [frame_simps]:
  "steps_of v (snd (observe_workflow ev wid tel k)) = steps_of v k"
  "k_policy (snd (observe_workflow ev wid tel k)) = k_policy k"
  "registry (snd (observe_workflow ev wid tel k)) = registry k"
proof -
  show "steps_of v (snd (observe_workflow ev wid tel k)) = steps_of v k"
    by (auto simp: observe_workflow_def continuity_step_def steps_of_def frame_simps put_workflow_def
        get_workflow_def dict_simps split: sum.split option.split)
qed (simp_all add: observe_workflow_def continuity_step_def frame_simps split: sum.split)

lemma frame_observe_workflow_from_steps [frame_simps]:
  "steps_of v (snd (observe_workflow_from_steps ev wid k)) = steps_of v k"
  "k_policy (snd (observe_workflow_from_steps ev wid k)) = k_policy k"
  "registry (snd (observe_workflow_from_steps ev wid k)) = registry k"
  by (simp_all add: observe_workflow_from_steps_def frame_simps split: sum.split)

subsection \<open>Steps\<close>

text \<open>What one call of \<open>_run_step\<close> makes of a step.\<close>

definition step_ran :: "kernel_policy \<Rightarrow> step_record \<Rightarrow> step_record \<Rightarrow> bool" where
  "step_ran p s s' \<longleftrightarrow> sr_step s' = sr_step s \<and> attempts s' = attempts s + 1 \<and>
     (sr_state s' = PENDING \<longrightarrow> attempts s' < step_budget p s) \<and> sr_state s' \<noteq> SKIPPED"

lemma call_runtime_frame:
  "call_runtime run sp t k = (r, k') \<Longrightarrow> workflows k' = workflows k \<and> k_policy k' = k_policy k"
  using frame_call_runtime [of run sp t k] by simp

lemma observe_frame: "observe ev aid tel k = (r, k') \<Longrightarrow> workflows k' = workflows k \<and> k_policy k' = k_policy k"
  using frame_observe [of ev aid tel k] by simp

lemma schedule_retry_steps:
  assumes "steps_of wid k = Some ss" and "dict_get ss sid = Some s"
  shows "\<exists>s'. steps_of wid (schedule_retry wid sid s ok k) = Some (dict_set sid s' ss) \<and>
      (s' = s \<or> s' = s\<lparr>sr_state := PENDING\<rparr> \<and> attempts s < step_budget (k_policy k) s)"
    and "v \<noteq> wid \<Longrightarrow> steps_of v (schedule_retry wid sid s ok k) = steps_of v k"
    and "k_policy (schedule_retry wid sid s ok k) = k_policy k"
proof -
  have same: "dict_set sid s ss = ss" using assms(2) by (induction ss) (auto split: if_splits)
  have e: "steps_of v (snd (emit owid act sb why pl k)) = steps_of v k" for owid act sb why pl v and k :: "'a kernel"
    by (rule steps_of_cong) (simp add: frame_simps)
  show "\<exists>s'. steps_of wid (schedule_retry wid sid s ok k) = Some (dict_set sid s' ss) \<and>
      (s' = s \<or> s' = s\<lparr>sr_state := PENDING\<rparr> \<and> attempts s < step_budget (k_policy k) s)"
  proof (cases "\<not> ok \<and> attempts s < step_budget (k_policy k) s")
    case True
    with assms(1) show ?thesis
      by (intro exI [of _ "s\<lparr>sr_state := PENDING\<rparr>"]) (simp add: schedule_retry_def e frame_simps)
  next
    case False
    with assms(1) same show ?thesis by (intro exI [of _ s]) (auto simp: schedule_retry_def e)
  qed
  show "v \<noteq> wid \<Longrightarrow> steps_of v (schedule_retry wid sid s ok k) = steps_of v k"
    by (simp add: schedule_retry_def e frame_simps)
  show "k_policy (schedule_retry wid sid s ok k) = k_policy k"
    by (simp add: schedule_retry_def frame_simps)
qed

text \<open>A run of a step changes at most that step, and only as \<open>step_ran\<close> says; when it returns, it has
  run the step.\<close>

definition step_effect ::
    "string \<Rightarrow> string \<Rightarrow> step_record \<Rightarrow> (string, step_record) dict \<Rightarrow> 'w kernel \<Rightarrow> (exc + unit) \<times> 'w kernel \<Rightarrow> bool" where
  "step_effect wid sid s ss k out \<longleftrightarrow>
     (case out of (r, k') \<Rightarrow> k_policy k' = k_policy k \<and> (\<forall>v. v \<noteq> wid \<longrightarrow> steps_of v k' = steps_of v k) \<and>
       ((\<exists>e. r = Inl e) \<and> steps_of wid k' = Some ss \<or>
        (\<exists>s'. steps_of wid k' = Some (dict_set sid s' ss) \<and> step_ran (k_policy k) s s' \<and>
           (sr_state s' = STEP_RUNNING \<longrightarrow> (\<exists>e. r = Inl e)))))"

lemma step_effect_ranI:
  assumes "k_policy k' = k_policy k" and "\<And>v. v \<noteq> wid \<Longrightarrow> steps_of v k' = steps_of v k"
    and "steps_of wid k' = Some (dict_set sid s' ss)" and "step_ran (k_policy k) s s'"
    and "sr_state s' = STEP_RUNNING \<Longrightarrow> \<exists>e. r = Inl e"
  shows "step_effect wid sid s ss k (r, k')"
  using assms unfolding step_effect_def by blast

lemma begin_step_effect:
  assumes w: "dict_get (workflows k) wid = Some w" and b: "begin_step wid sid s aid k = (s1, k1)"
  shows "k_policy k1 = k_policy k \<and> step_ran (k_policy k) s s1 \<and>
    (\<forall>v. steps_of v k1 = (if v = wid then Some (dict_set sid s1 (wr_steps w)) else steps_of v k))"
proof -
  have s1: "s1 = s\<lparr>assigned_agent_id := Some aid, sr_state := STEP_RUNNING, attempts := attempts s + 1\<rparr>"
    and k1: "k1 = snd (emit (Some wid) DELEGATE (step_id (sr_step s)) (''assigned to '' @ aid) [] (put_step wid sid s1 k))"
    using b by (auto simp: begin_step_def)
  have "steps_of v k1 = steps_of v (put_step wid sid s1 k)" for v
    unfolding k1 by (rule steps_of_cong) (simp only: frame_simps)
  moreover have "steps_of wid k = Some (wr_steps w)" using w by (simp add: steps_of_def)
  moreover have "k_policy k1 = k_policy k" unfolding k1 by (simp only: frame_simps)
  ultimately show ?thesis by (simp add: frame_simps) (simp add: step_ran_def s1)
qed

lemma finish_step_effect:
  assumes steps: "\<And>v. steps_of v k2 = (if v = wid then Some (dict_set sid s1 ss) else steps_of v k)"
    and p: "k_policy k2 = k_policy k" and ran: "step_ran (k_policy k) s s1"
  shows "step_effect wid sid s ss k (finish_step ev wid pl sid s1 aid res latency k2)"
proof -
  define s2 where "s2 = s1\<lparr>sr_output := tr_output res, sr_error := tr_error res,
      sr_state := (if tr_ok res then STEP_COMPLETED else STEP_FAILED)\<rparr>"
  define k3 where "k3 = put_step wid sid s2 k2"
  have ran2: "step_ran (k_policy k) s s2" "sr_state s2 \<noteq> STEP_RUNNING" "step_budget q s2 = step_budget q s" for q
    using ran by (simp_all add: step_ran_def s2_def step_budget_def)
  have p3: "k_policy k3 = k_policy k" using p by (simp add: k3_def frame_simps)
  have steps3: "steps_of v k3 = (if v = wid then Some (dict_set sid s2 ss) else steps_of v k)" for v
    using steps [of v] by (cases "v = wid") (simp_all add: k3_def frame_simps dict_set_set)
  have eff3: "step_effect wid sid s ss k (rr, k')"
    if "workflows k' = workflows k3" "k_policy k' = k_policy k3" for rr k'
    using that steps3 p3 ran2 steps_of_cong [OF that(1)] by (intro step_effect_ranI [where s' = s2]) auto
  note fold = s2_def [symmetric] k3_def [symmetric]
  show ?thesis
  proof (cases "get_agent aid k3")
    case (Inl e)
    with eff3 [of k3 "Inl e"] show ?thesis by (simp add: finish_step_def fold)
  next
    case ag: (Inr ag)
    obtain d k4 where d: "observe ev aid (result_telemetry res latency (priority pl)
        (if tr_ok res then 65/100 else 25/100) (if tr_ok res then 65/100 else 20/100) (failure_streak ag)) k3 = (d, k4)"
      by fastforce
    note f4 = observe_frame [OF d]
    show ?thesis
    proof (cases d)
      case (Inl e)
      with ag d eff3 [of k4 "Inl e"] f4 show ?thesis by (simp add: finish_step_def fold)
    next
      case (Inr x)
      have s4: "steps_of v k4 = (if v = wid then Some (dict_set sid s2 ss) else steps_of v k)" for v
        using steps3 [of v] steps_of_cong [of k4 k3 v] f4 by simp
      have at: "steps_of wid k4 = Some (dict_set sid s2 ss)" "dict_get (dict_set sid s2 ss) sid = Some s2"
        using s4 by (simp_all add: dict_simps)
      note retry = schedule_retry_steps [OF at, where ok = "tr_ok res"]
      from retry(1) obtain s' where
        s': "steps_of wid (schedule_retry wid sid s2 (tr_ok res) k4) = Some (dict_set sid s' (dict_set sid s2 ss))"
          "s' = s2 \<or> s' = s2\<lparr>sr_state := PENDING\<rparr> \<and> attempts s2 < step_budget (k_policy k4) s2"
        by blast
      have "step_ran (k_policy k) s s'" "sr_state s' \<noteq> STEP_RUNNING"
        using s'(2) ran2 p3 f4 by (auto simp: step_ran_def)
      with s'(1) retry(2,3) s4 p3 f4
      have "step_effect wid sid s ss k (Inr (), schedule_retry wid sid s2 (tr_ok res) k4)"
        by (intro step_effect_ranI [where s' = s']) (simp_all add: dict_set_set)
      with ag d Inr show ?thesis by (simp add: finish_step_def fold)
    qed
  qed
qed

lemma run_step_effect:
  assumes w: "dict_get (workflows k) wid = Some w"
  shows "step_effect wid sid s (wr_steps w) k (run_step ev run wid w sid s k)"
proof (cases "assign_agent s k")
  case (Inl e)
  with w show ?thesis by (simp add: run_step_def step_effect_def steps_of_def)
next
  case (Inr agent)
  define aid where "aid = agent_id (ar_spec agent)"
  obtain s1 k1 where b: "begin_step wid sid s aid k = (s1, k1)" by fastforce
  note one = begin_step_effect [OF w b]
  have lost: "step_effect wid sid s (wr_steps w) k (Inl e, k')" if "workflows k' = workflows k1" "k_policy k' = k_policy k1" for e k'
    using that one steps_of_cong [OF that(1)] by (intro step_effect_ranI [where s' = s1]) auto
  show ?thesis
  proof (cases "dependency_outputs (dict_set sid s1 (wr_steps w)) (depends_on (sr_step s)) []")
    case (Inl e)
    with Inr b lost [of k1 e] show ?thesis by (simp add: run_step_def aid_def [symmetric])
  next
    case outs: (Inr outs)
    obtain r k2 where r: "call_runtime run (ar_spec agent) (step_task (wr_plan w) s1 outs) k1 = (r, k2)" by fastforce
    note f2 = call_runtime_frame [OF r]
    show ?thesis
    proof (cases r)
      case (Inl e)
      with Inr b outs r lost [of k2 e] f2 show ?thesis by (simp add: run_step_def aid_def [symmetric])
    next
      case res: (Inr x)
      obtain res latency where x: "x = (res, latency)" by fastforce
      have "steps_of v k2 = (if v = wid then Some (dict_set sid s1 (wr_steps w)) else steps_of v k)" for v
        using one steps_of_cong [of k2 k1 v] f2 by simp
      moreover have "k_policy k2 = k_policy k" "step_ran (k_policy k) s s1" using one f2 by simp_all
      ultimately show ?thesis using Inr b outs r res x
        by (simp add: run_step_def aid_def [symmetric] finish_step_effect)
    qed
  qed
qed

subsection \<open>The invariant of the steps and the budget of attempts\<close>

definition dep_done :: "(string, step_record) dict \<Rightarrow> string \<Rightarrow> bool" where
  "dep_done ss d \<longleftrightarrow> (\<exists>t. dict_get ss d = Some t \<and> sr_state t = STEP_COMPLETED)"

definition deps_done :: "(string, step_record) dict \<Rightarrow> step_record \<Rightarrow> bool" where
  "deps_done ss s \<longleftrightarrow> (\<forall>d \<in> set (depends_on (sr_step s)). dep_done ss d)"

definition step_inv :: "kernel_policy \<Rightarrow> (string, step_record) dict \<Rightarrow> string \<Rightarrow> step_record \<Rightarrow> bool" where
  "step_inv p ss sid s \<longleftrightarrow> step_id (sr_step s) = sid \<and> 0 \<le> attempts s \<and> attempts s \<le> max 1 (step_budget p s) \<and>
     (sr_state s = PENDING \<longrightarrow> attempts s = 0 \<or> attempts s < step_budget p s) \<and>
     (sr_state s \<noteq> PENDING \<longrightarrow> 0 < attempts s) \<and> sr_state s \<noteq> SKIPPED \<and>
     (0 < attempts s \<longrightarrow> deps_done ss s)"

definition steps_inv :: "kernel_policy \<Rightarrow> (string, step_record) dict \<Rightarrow> bool" where
  "steps_inv p ss \<longleftrightarrow> dict_ok ss \<and> (\<forall>sid s. dict_get ss sid = Some s \<longrightarrow> step_inv p ss sid s)"

definition left :: "kernel_policy \<Rightarrow> string \<times> step_record \<Rightarrow> nat" where
  "left p e = (case e of (sid, s) \<Rightarrow> if sr_state s = PENDING then nat (max 1 (step_budget p s) - attempts s) else 0)"

definition budget_left :: "kernel_policy \<Rightarrow> (string, step_record) dict \<Rightarrow> nat" where
  "budget_left p ss = sum_list (map (left p) ss)"

definition step_ready :: "(string, step_record) dict \<Rightarrow> string \<Rightarrow> bool" where
  "step_ready ss sid \<longleftrightarrow> (\<exists>s. dict_get ss sid = Some s \<and> sr_state s = PENDING \<and> deps_done ss s)"

lemma deps_completed_Inr: "deps_completed ss ds = Inr b \<Longrightarrow> b \<longleftrightarrow> (\<forall>d \<in> set ds. dep_done ss d)"
  by (induction ds) (auto simp: dep_done_def split: option.splits if_splits)

lemma collect_ready_Inr:
  assumes "collect_ready ss l = Inr sids" and "dict_ok l"
  shows "distinct sids \<and> set sids = {sid. \<exists>s. dict_get l sid = Some s \<and> sr_state s = PENDING \<and> deps_done ss s}"
  using assms
proof (induction l arbitrary: sids)
  case Nil
  then show ?case by simp
next
  case (Cons e l)
  obtain sid s where e: "e = (sid, s)" by fastforce
  have new: "dict_get l sid = None" using Cons.prems(2) e by (simp add: map_of_eq_None_iff)
  show ?case
  proof (cases "sr_state s = PENDING")
    case False
    with Cons e new show ?thesis by (auto split: if_splits)
  next
    case True
    with Cons.prems(1) e obtain b rest where b: "deps_completed ss (depends_on (sr_step s)) = Inr b"
      and rest: "collect_ready ss l = Inr rest" "sids = (if b then sid # rest else rest)"
      by (auto split: sum.splits)
    have "b \<longleftrightarrow> deps_done ss s" using deps_completed_Inr [OF b] by (simp add: deps_done_def)
    with Cons.IH [OF rest(1)] Cons.prems(2) rest(2) True e new show ?thesis by (auto split: if_splits)
  qed
qed

lemma ready_steps_Inr:
  assumes "steps_of wid k = Some ss" and "dict_ok ss" and "ready_steps wid k = Inr sids"
  shows "distinct sids" and "set sids = {sid. step_ready ss sid}"
proof -
  obtain w where "dict_get (workflows k) wid = Some w" "wr_steps w = ss" using assms(1) by (auto simp: steps_of_def)
  with assms(3) have "collect_ready ss ss = Inr sids" by (simp add: ready_steps_def get_workflow_def)
  from collect_ready_Inr [OF this assms(2)] show "distinct sids" and "set sids = {sid. step_ready ss sid}"
    by (simp_all add: step_ready_def)
qed

lemma sum_list_replace:
  fixes f :: "'k \<times> 'v \<Rightarrow> nat"
  assumes "dict_get d k = Some w"
  shows "sum_list (map f (dict_set k v d)) + f (k, w) = sum_list (map f d) + f (k, v)"
  using assms by (induction d) (auto split: if_splits)

lemma dep_done_set:
  assumes "dict_get ss sid = Some s" and "sr_state s = PENDING"
  shows "dep_done ss d \<Longrightarrow> dep_done (dict_set sid s' ss) d"
  using assms by (auto simp: dep_done_def dict_simps)

lemma step_ran_inv:
  assumes inv: "steps_inv p ss" and s: "dict_get ss sid = Some s" and ready: "step_ready ss sid" and ran: "step_ran p s s'"
  shows "steps_inv p (dict_set sid s' ss)" and "budget_left p (dict_set sid s' ss) < budget_left p ss"
    and "sid' \<noteq> sid \<Longrightarrow> step_ready ss sid' \<Longrightarrow> step_ready (dict_set sid s' ss) sid'"
proof -
  have pend: "sr_state s = PENDING" and deps: "deps_done ss s" using s ready by (auto simp: step_ready_def)
  have si: "step_inv p ss sid s" using inv s by (simp add: steps_inv_def)
  have mono: "deps_done ss t \<Longrightarrow> deps_done (dict_set sid s' ss) t" for t
    using dep_done_set [OF s pend] by (auto simp: deps_done_def)
  have r: "sr_step s' = sr_step s" "attempts s' = attempts s + 1" "sr_state s' \<noteq> SKIPPED"
    "sr_state s' = PENDING \<Longrightarrow> attempts s' < step_budget p s"
    using ran by (auto simp: step_ran_def)
  have b: "step_budget p s' = step_budget p s" by (simp add: step_budget_def r)
  have bound: "attempts s = 0 \<or> attempts s < step_budget p s" "0 \<le> attempts s" using si pend by (simp_all add: step_inv_def)
  have d': "deps_done (dict_set sid s' ss) s'" using mono [OF deps] r(1) by (simp add: deps_done_def)
  have new: "step_inv p (dict_set sid s' ss) sid s'"
    using si r bound d' by (auto simp: step_inv_def b)
  have old: "step_inv p (dict_set sid s' ss) v t" if "dict_get ss v = Some t" for v t
    using inv that mono [of t] by (auto simp: steps_inv_def step_inv_def)
  show "steps_inv p (dict_set sid s' ss)"
    using inv new old by (auto simp: steps_inv_def dict_simps)
  have "left p (sid, s') < left p (sid, s)"
    using pend r bound by (auto simp: left_def b)
  with sum_list_replace [OF s, of "left p" s'] show "budget_left p (dict_set sid s' ss) < budget_left p ss"
    by (simp add: budget_left_def)
  show "sid' \<noteq> sid \<Longrightarrow> step_ready ss sid' \<Longrightarrow> step_ready (dict_set sid s' ss) sid'"
    using mono by (auto simp: step_ready_def dict_simps)
qed

subsection \<open>Termination\<close>

definition all_completed :: "(string, step_record) dict \<Rightarrow> bool" where
  "all_completed ss \<longleftrightarrow> ss \<noteq> [] \<and> (\<forall>(sid, s) \<in> set ss. sr_state s = STEP_COMPLETED)"

lemma length_filter_all: "length (filter P xs) = length xs \<longleftrightarrow> (\<forall>x \<in> set xs. P x)"
  by (metis filter_True length_filter_less less_irrefl)

lemma all_completed_iff:
  "length (steps_in STEP_COMPLETED w) = length (wr_steps w) \<and> wr_steps w \<noteq> [] \<longleftrightarrow> all_completed (wr_steps w)"
proof -
  have "length (steps_in STEP_COMPLETED w) = length (wr_steps w) \<longleftrightarrow>
      length (filter (\<lambda>s. sr_state s = STEP_COMPLETED) (map snd (wr_steps w))) = length (map snd (wr_steps w))"
    by (simp add: steps_in_def)
  then show ?thesis unfolding length_filter_all by (auto simp: all_completed_def)
qed

definition workflow_in :: "string \<Rightarrow> workflow_state \<Rightarrow> 'w kernel \<Rightarrow> bool" where
  "workflow_in wid st k \<longleftrightarrow> (\<exists>w. dict_get (workflows k) wid = Some w \<and> wr_state w = st)"

lemma workflow_in_emit: "workflow_in wid st (snd (emit owid act sb why pl k)) = workflow_in wid st k"
  by (simp add: workflow_in_def frame_simps)

lemma observe_workflow_Inr:
  assumes "observe_workflow ev wid tel k = (Inr d, k')" and "steps_of wid k = Some ss"
  shows "workflow_in wid (wd_new_state d) k'" and "wd_new_state d = WF_COMPLETED \<Longrightarrow> all_completed ss"
    and "all_completed ss \<Longrightarrow> wd_new_state d \<in> {ESCALATED, WF_COMPLETED}" and "wd_new_state d \<notin> {DRAFT, WF_FAILED}"
proof -
  obtain w where w: "dict_get (workflows k) wid = Some w" "wr_steps w = ss" using assms(2) by (auto simp: steps_of_def)
  let ?c = "from_workflow_telemetry tel" and ?dp = "delta (dt (k_policy k)) (from_workflow_telemetry tel)"
  define w1 where "w1 = w\<lparr>wr_previous_psi := wr_psi w, wr_psi := wr_psi w + ?dp, wr_last_coefficients := Some ?c\<rparr>"
  from assms(1) w(1) obtain rp where d: "d = decide_workflow (k_policy k) w1 ?c ?dp rp"
    and k': "k' = snd (emit (Some wid) (wd_action d) wid (wd_why d) [(''workflow_psi'', PyFloat (wd_psi d))]
      (write_audit (Audit_Workflow d) (put_workflow wid (w1\<lparr>wr_state := wd_new_state d\<rparr>) (put_workflow wid w1 k))))"
    unfolding observe_workflow_def get_workflow_def continuity_step_def
    by (simp add: w1_def split: sum.splits) blast
  show "workflow_in wid (wd_new_state d) k'"
    unfolding k' by (simp add: workflow_in_emit) (simp add: workflow_in_def frame_simps put_workflow_def dict_simps)
  have st: "wd_new_state d = fst (decide_workflow_state (k_policy k) w1 ?c ?dp rp)"
    by (simp add: d decide_workflow_def split: prod.split)
  have ss: "wr_steps w1 = ss" by (simp add: w1_def w(2))
  note all = all_completed_iff [of w1, unfolded ss]
  show "wd_new_state d = WF_COMPLETED \<Longrightarrow> all_completed ss"
    unfolding st decide_workflow_state_def ss all by (simp split: if_splits)
  show "all_completed ss \<Longrightarrow> wd_new_state d \<in> {ESCALATED, WF_COMPLETED}"
    unfolding st decide_workflow_state_def ss all by simp
  show "wd_new_state d \<notin> {DRAFT, WF_FAILED}"
    unfolding st decide_workflow_state_def ss all by simp
qed

lemma observe_from_steps_Inr:
  assumes "observe_workflow_from_steps ev wid k = (Inr d, k')" and "steps_of wid k = Some ss"
  shows "workflow_in wid (wd_new_state d) k'" and "wd_new_state d = WF_COMPLETED \<Longrightarrow> all_completed ss"
    and "all_completed ss \<Longrightarrow> wd_new_state d \<in> {ESCALATED, WF_COMPLETED}" and "wd_new_state d \<notin> {DRAFT, WF_FAILED}"
proof -
  obtain w where "dict_get (workflows k) wid = Some w" using assms(2) by (auto simp: steps_of_def)
  with assms(1) have "observe_workflow ev wid (steps_telemetry w) k = (Inr d, k')"
    by (simp add: observe_workflow_from_steps_def get_workflow_def)
  note * = observe_workflow_Inr [OF this assms(2)]
  show "workflow_in wid (wd_new_state d) k'" and "wd_new_state d = WF_COMPLETED \<Longrightarrow> all_completed ss"
    and "all_completed ss \<Longrightarrow> wd_new_state d \<in> {ESCALATED, WF_COMPLETED}" and "wd_new_state d \<notin> {DRAFT, WF_FAILED}"
    using * by blast+
qed

text \<open>The part of the kernel that a run of workflow \<open>wid\<close> keeps, and the steps it leaves.\<close>

definition steps_kept :: "(string, step_record) dict \<Rightarrow> (string, step_record) dict \<Rightarrow> bool" where
  "steps_kept ss ss' \<longleftrightarrow> map fst ss' = map fst ss \<and>
     (\<forall>sid s. dict_get ss sid = Some s \<longrightarrow>
        (\<exists>s'. dict_get ss' sid = Some s' \<and> sr_step s' = sr_step s \<and> attempts s \<le> attempts s' \<and>
           (sr_state s \<noteq> PENDING \<longrightarrow> s' = s)))"

lemma steps_kept_refl [simp]: "steps_kept ss ss"
  by (simp add: steps_kept_def)

lemma steps_kept_trans:
  assumes "steps_kept a b" and "steps_kept b c"
  shows "steps_kept a c"
  unfolding steps_kept_def
proof (intro conjI allI impI)
  show "map fst c = map fst a" using assms by (simp add: steps_kept_def)
  fix sid s
  assume s: "dict_get a sid = Some s"
  with assms(1) obtain t where t: "dict_get b sid = Some t" "sr_step t = sr_step s" "attempts s \<le> attempts t"
    "sr_state s \<noteq> PENDING \<longrightarrow> t = s"
    unfolding steps_kept_def by blast
  with assms(2) obtain u where "dict_get c sid = Some u" "sr_step u = sr_step t" "attempts t \<le> attempts u"
    "sr_state t \<noteq> PENDING \<longrightarrow> u = t"
    unfolding steps_kept_def by blast
  with t show "\<exists>s'. dict_get c sid = Some s' \<and> sr_step s' = sr_step s \<and> attempts s \<le> attempts s' \<and>
      (sr_state s \<noteq> PENDING \<longrightarrow> s' = s)"
    by auto
qed

lemma steps_kept_set:
  assumes "dict_get ss sid = Some s" and "sr_state s = PENDING" and "step_ran p s s'"
  shows "steps_kept ss (dict_set sid s' ss)"
  using assms keys_dict_set_present [OF assms(1)] by (auto simp: steps_kept_def step_ran_def dict_simps)

definition flow_effect :: "string \<Rightarrow> 'w kernel \<Rightarrow> 'w kernel \<Rightarrow> (string, step_record) dict \<Rightarrow> bool" where
  "flow_effect wid k k' ss \<longleftrightarrow> k_policy k' = k_policy k \<and> (\<forall>v. v \<noteq> wid \<longrightarrow> steps_of v k' = steps_of v k) \<and>
     steps_of wid k' = Some ss \<and> steps_inv (k_policy k) ss \<and> (\<forall>ss0. steps_of wid k = Some ss0 \<longrightarrow> steps_kept ss0 ss)"

lemma flow_effect_trans:
  assumes "flow_effect wid k k1 ss1" and "flow_effect wid k1 k2 ss2"
  shows "flow_effect wid k k2 ss2"
proof -
  have "steps_kept ss1 ss2" using assms by (simp add: flow_effect_def)
  then have "\<forall>ss0. steps_of wid k = Some ss0 \<longrightarrow> steps_kept ss0 ss2"
    using assms(1) steps_kept_trans unfolding flow_effect_def by blast
  with assms show ?thesis by (simp add: flow_effect_def)
qed

lemma flow_effect_frame:
  assumes "flow_effect wid k k1 ss" and "k_policy k2 = k_policy k1" and "\<And>v. steps_of v k2 = steps_of v k1"
  shows "flow_effect wid k k2 ss"
  using assms by (simp add: flow_effect_def)

lemma run_step_flow:
  assumes ss: "steps_of wid k = Some ss" and inv: "steps_inv (k_policy k) ss" and ready: "step_ready ss sid"
    and w: "dict_get (workflows k) wid = Some w" and s: "dict_get ss sid = Some s"
    and run: "run_step ev run wid w sid s k = (r, k1)"
  obtains ss1 where "flow_effect wid k k1 ss1" and "budget_left (k_policy k) ss1 \<le> budget_left (k_policy k) ss"
    and "r = Inr () \<Longrightarrow> budget_left (k_policy k) ss1 < budget_left (k_policy k) ss"
    and "\<And>sid'. sid' \<noteq> sid \<Longrightarrow> step_ready ss sid' \<Longrightarrow> step_ready ss1 sid'"
proof -
  have w': "wr_steps w = ss" using ss w by (simp add: steps_of_def)
  have eff: "step_effect wid sid s ss k (r, k1)" using run_step_effect [OF w, of sid s ev run] run w' by simp
  then consider e where "r = Inl e" "steps_of wid k1 = Some ss"
    | s' where "steps_of wid k1 = Some (dict_set sid s' ss)" "step_ran (k_policy k) s s'"
    by (auto simp: step_effect_def)
  then show ?thesis
  proof cases
    case (1 e)
    with eff inv ss show ?thesis by (intro that [of ss]) (auto simp: flow_effect_def step_effect_def)
  next
    case (2 s')
    note ran = step_ran_inv [OF inv s ready 2(2)]
    show ?thesis
    proof (rule that)
      show "flow_effect wid k k1 (dict_set sid s' ss)"
        using eff ran(1) 2(1) ss steps_kept_set [OF s _ 2(2)] ready s
        by (auto simp: flow_effect_def step_effect_def step_ready_def)
    qed (use ran(2,3) in auto)
  qed
qed

lemma observe_from_steps_frame:
  "observe_workflow_from_steps ev wid k = (r, k') \<Longrightarrow> k_policy k' = k_policy k \<and> (\<forall>v. steps_of v k' = steps_of v k)"
  using frame_observe_workflow_from_steps(1) [of _ ev wid k] frame_observe_workflow_from_steps(2) [of ev wid k] by simp

lemma observe_step_handoffs_frame:
  "observe_step_handoffs ev w s k = (r, k') \<Longrightarrow> k_policy k' = k_policy k \<and> workflows k' = workflows k"
  using frame_observe_step_handoffs [of ev w s k] by simp

lemma run_one_flow:
  assumes ss: "steps_of wid k = Some ss" and inv: "steps_inv (k_policy k) ss" and ready: "step_ready ss sid"
    and run: "run_one ev run wid sid k = (r, k')"
  obtains ss' where "flow_effect wid k k' ss'" and "budget_left (k_policy k) ss' \<le> budget_left (k_policy k) ss"
    and "\<And>b. r = Inr b \<Longrightarrow> budget_left (k_policy k) ss' < budget_left (k_policy k) ss"
    and "\<And>sid'. sid' \<noteq> sid \<Longrightarrow> step_ready ss sid' \<Longrightarrow> step_ready ss' sid'"
    and "r = Inr True \<Longrightarrow> workflow_in wid ESCALATED k'"
proof -
  obtain w where w: "dict_get (workflows k) wid = Some w" "wr_steps w = ss" using ss by (auto simp: steps_of_def)
  obtain s where s: "dict_get ss sid = Some s" using ready by (auto simp: step_ready_def)
  obtain r1 k1 where r1: "run_step ev run wid w sid s k = (r1, k1)" by fastforce
  obtain ss1 where f1: "flow_effect wid k k1 ss1" and b1: "budget_left (k_policy k) ss1 \<le> budget_left (k_policy k) ss"
    "r1 = Inr () \<Longrightarrow> budget_left (k_policy k) ss1 < budget_left (k_policy k) ss"
    and more: "\<And>sid'. sid' \<noteq> sid \<Longrightarrow> step_ready ss sid' \<Longrightarrow> step_ready ss1 sid'"
    using run_step_flow [OF ss inv ready w(1) s r1] by blast
  obtain w1 where w1: "dict_get (workflows k1) wid = Some w1" using f1 by (auto simp: flow_effect_def steps_of_def)
  have start: "get_workflow wid k = Inr w" "get_workflow wid k1 = Inr w1" using w w1 by (simp_all add: get_workflow_def)
  consider e where "r1 = Inl e" "r = Inl e" "k' = k1" | "r1 = Inr ()" "dict_get (wr_steps w1) sid = None" "r = Inl (KeyError sid)" "k' = k1"
    | s1 where "r1 = Inr ()" "dict_get (wr_steps w1) sid = Some s1"
    using run r1 start w(2) s by (cases r1; cases "dict_get (wr_steps w1) sid") (auto simp: run_one_def)
  then show ?thesis
  proof cases
    case 1
    with f1 b1 more show ?thesis by (intro that [of ss1]) auto
  next
    case 2
    with f1 b1 more show ?thesis by (intro that [of ss1]) auto
  next
    case (3 s1)
    obtain r2 k2 where r2: "observe_step_handoffs ev w1 s1 k1 = (r2, k2)" by fastforce
    have f2: "flow_effect wid k k2 ss1"
      using observe_step_handoffs_frame [OF r2] steps_of_cong [of k2 k1] by (intro flow_effect_frame [OF f1]) auto
    show ?thesis
    proof (cases r2)
      case (Inl e)
      with run r1 start w(2) s 3 r2 have "r = Inl e" "k' = k2" by (auto simp: run_one_def)
      with f2 b1 more show ?thesis by (intro that [of ss1]) auto
    next
      case (Inr u)
      obtain r3 k3 where r3: "observe_workflow_from_steps ev wid k2 = (r3, k3)" by fastforce
      have f3: "flow_effect wid k k3 ss1" using observe_from_steps_frame [OF r3] by (intro flow_effect_frame [OF f2]) auto
      have out: "k' = k3" "r = (case r3 of Inl e \<Rightarrow> Inl e | Inr d \<Rightarrow> Inr (wd_new_state d \<in> {ESCALATED, WF_FAILED}))"
        using run r1 start w(2) s 3 r2 Inr r3 by (auto simp: run_one_def split: sum.splits)
      have at: "steps_of wid k2 = Some ss1" using f2 by (simp add: flow_effect_def)
      have "workflow_in wid ESCALATED k'" if stop: "r = Inr True"
      proof -
        obtain d where d: "r3 = Inr d" "wd_new_state d \<in> {ESCALATED, WF_FAILED}"
          using stop out by (auto split: sum.splits)
        note fact = observe_from_steps_Inr [OF r3 [unfolded d(1)] at]
        have "wd_new_state d = ESCALATED" using fact(4) d(2) by simp
        with fact(1) out(1) show ?thesis by simp
      qed
      with out(1) f3 b1 more 3(1) show ?thesis by (intro that [of ss1]) auto
    qed
  qed
qed

lemma run_ready_flow:
  assumes "steps_of wid k = Some ss" and "steps_inv (k_policy k) ss" and "distinct sids"
    and "\<And>sid. sid \<in> set sids \<Longrightarrow> step_ready ss sid" and "run_ready ev run wid sids k = (r, k')"
  shows "\<exists>ss'. flow_effect wid k k' ss' \<and> budget_left (k_policy k) ss' \<le> budget_left (k_policy k) ss \<and>
    (sids \<noteq> [] \<and> (\<exists>b. r = Inr b) \<longrightarrow> budget_left (k_policy k) ss' < budget_left (k_policy k) ss) \<and>
    (r = Inr True \<longrightarrow> workflow_in wid ESCALATED k')"
  using assms
proof (induction sids arbitrary: k ss)
  case Nil
  then show ?case by (auto simp: flow_effect_def)
next
  case (Cons sid sids)
  obtain r1 k1 where one: "run_one ev run wid sid k = (r1, k1)" by fastforce
  have ready: "step_ready ss sid" using Cons.prems(4) by simp
  obtain ss1 where f1: "flow_effect wid k k1 ss1" and b1: "budget_left (k_policy k) ss1 \<le> budget_left (k_policy k) ss"
      "\<And>b. r1 = Inr b \<Longrightarrow> budget_left (k_policy k) ss1 < budget_left (k_policy k) ss"
    and more: "\<And>sid'. sid' \<noteq> sid \<Longrightarrow> step_ready ss sid' \<Longrightarrow> step_ready ss1 sid'"
    and stop: "r1 = Inr True \<Longrightarrow> workflow_in wid ESCALATED k1"
    using run_one_flow [OF Cons.prems(1,2) ready one] by blast
  have p1: "k_policy k1 = k_policy k" "steps_of wid k1 = Some ss1" "steps_inv (k_policy k1) ss1"
    using f1 by (simp_all add: flow_effect_def)
  show ?case
  proof (cases "r1 = Inr False")
    case False
    then have "r = r1" "k' = k1" using Cons.prems(5) one by (auto split: sum.splits)
    then show ?thesis using f1 b1 stop by blast
  next
    case True
    then have rest: "run_ready ev run wid sids k1 = (r, k')" using Cons.prems(5) one by simp
    have "step_ready ss1 sid'" if "sid' \<in> set sids" for sid'
      using Cons.prems(3,4) that more [of sid'] by auto
    from Cons.IH [OF p1(2,3) _ this rest] Cons.prems(3) obtain ss2 where
      ss2: "flow_effect wid k1 k' ss2" "budget_left (k_policy k1) ss2 \<le> budget_left (k_policy k1) ss1"
        "r = Inr True \<longrightarrow> workflow_in wid ESCALATED k'"
      by auto
    have "budget_left (k_policy k) ss2 < budget_left (k_policy k) ss" using ss2(2) p1(1) b1(2) [OF True] by simp
    moreover have "flow_effect wid k k' ss2" using flow_effect_trans [OF f1 ss2(1)] .
    ultimately show ?thesis using ss2(3) by auto
  qed
qed

text \<open>What a finished run of a workflow means.\<close>

definition run_outcome :: "string \<Rightarrow> 'w kernel \<Rightarrow> (string, step_record) dict \<Rightarrow> bool" where
  "run_outcome wid k ss \<longleftrightarrow> workflow_in wid ESCALATED k \<or>
     (workflow_in wid WF_COMPLETED k \<longleftrightarrow> all_completed ss) \<and> (\<forall>sid. \<not> step_ready ss sid)"

lemma run_loop_flow:
  assumes "steps_of wid k = Some ss" and "steps_inv (k_policy k) ss" and "budget_left (k_policy k) ss < n"
  shows "\<exists>r k' ss'. run_loop n ev run wid k = Some (r, k') \<and> flow_effect wid k k' ss' \<and> (r = Inr () \<longrightarrow> run_outcome wid k' ss')"
  using assms
proof (induction n arbitrary: k ss)
  case 0
  then show ?case by simp
next
  case (Suc n)
  have ok: "dict_ok ss" using Suc.prems(2) by (simp add: steps_inv_def)
  have refl: "flow_effect wid k k ss" using Suc.prems by (simp add: flow_effect_def)
  show ?case
  proof (cases "ready_steps wid k")
    case (Inl e)
    with refl show ?thesis by auto
  next
    case (Inr sids)
    note rs = ready_steps_Inr [OF Suc.prems(1) ok Inr]
    show ?thesis
    proof (cases sids)
      case Nil
      obtain r1 k1 where r1: "observe_workflow_from_steps ev wid k = (r1, k1)" by fastforce
      have f1: "flow_effect wid k k1 ss" using observe_from_steps_frame [OF r1] by (intro flow_effect_frame [OF refl]) auto
      have none: "\<not> step_ready ss sid" for sid using rs(2) Nil by auto
      show ?thesis
      proof (cases r1)
        case (Inl e)
        with Inr Nil r1 f1 show ?thesis by auto
      next
        case (Inr d)
        note o = observe_from_steps_Inr [OF r1 [unfolded Inr] Suc.prems(1)]
        have "run_outcome wid k1 ss"
          using o none by (fastforce simp: run_outcome_def workflow_in_def)
        with \<open>ready_steps wid k = Inr sids\<close> Nil r1 Inr f1 show ?thesis by auto
      qed
    next
      case (Cons sid rest)
      obtain r1 k1 where r1: "run_ready ev run wid sids k = (r1, k1)" by fastforce
      from run_ready_flow [OF Suc.prems(1,2) rs(1) _ r1] rs(2) Cons obtain ss1 where
        f1: "flow_effect wid k k1 ss1" and b1: "(\<exists>b. r1 = Inr b) \<longrightarrow> budget_left (k_policy k) ss1 < budget_left (k_policy k) ss"
          and stop: "r1 = Inr True \<longrightarrow> workflow_in wid ESCALATED k1"
        by blast
      have p1: "k_policy k1 = k_policy k" "steps_of wid k1 = Some ss1" "steps_inv (k_policy k1) ss1"
        using f1 by (simp_all add: flow_effect_def)
      consider e where "r1 = Inl e" | "r1 = Inr True" | "r1 = Inr False" by (cases r1) auto
      then show ?thesis
      proof cases
        case 1
        with Inr Cons r1 f1 show ?thesis by auto
      next
        case 2
        with Inr Cons r1 f1 stop show ?thesis by (auto simp: run_outcome_def)
      next
        case 3
        have "budget_left (k_policy k1) ss1 < n" using 3 b1 p1(1) Suc.prems(3) by auto
        from Suc.IH [OF p1(2,3) this] obtain r k' ss' where
          "run_loop n ev run wid k1 = Some (r, k')" "flow_effect wid k1 k' ss'" "r = Inr () \<longrightarrow> run_outcome wid k' ss'"
          by blast
        with Inr Cons r1 3 flow_effect_trans [OF f1] show ?thesis by auto
      qed
    qed
  qed
qed

end
