(* ===== verification/Workflow_Runs.thy ===== *)
theory Workflow_Runs
  imports Workflow_Steps
begin

section \<open>Runs of the kernel\<close>

text \<open>
  The invariant of the kernel along any sequence of calls (agents under their ids with bounded
  \<open>\<Psi>\<close>, workflows with the invariant of their steps), termination of \<open>run_workflow\<close>, what a
  finished run means, routing, and the exception that a decaying agent ends in.
\<close>

subsection \<open>The invariant of the kernel\<close>

definition agents_inv :: "'w kernel \<Rightarrow> bool" where
  "agents_inv k \<longleftrightarrow> 0 < dt (k_policy k) \<and> dict_ok (registry k) \<and>
     (\<forall>aid r. dict_get (registry k) aid = Some r \<longrightarrow> agent_id (ar_spec r) = aid \<and>
        \<bar>ar_psi r\<bar> \<le> of_nat (ar_observations r) * dt (k_policy k))"

definition flows_inv :: "'w kernel \<Rightarrow> bool" where
  "flows_inv k \<longleftrightarrow> (\<forall>wid ss. steps_of wid k = Some ss \<longrightarrow> steps_inv (k_policy k) ss)"

definition kernel_inv :: "'w kernel \<Rightarrow> bool" where
  "kernel_inv k \<longleftrightarrow> agents_inv k \<and> flows_inv k"

lemma agents_inv_cong:
  "registry k' = registry k \<Longrightarrow> k_policy k' = k_policy k \<Longrightarrow> agents_inv k' = agents_inv k"
  by (simp add: agents_inv_def)

lemma flows_inv_cong:
  "(\<And>v. steps_of v k' = steps_of v k) \<Longrightarrow> k_policy k' = k_policy k \<Longrightarrow> flows_inv k' = flows_inv k"
  by (simp add: flows_inv_def)

lemma flows_inv_effect: "flows_inv k \<Longrightarrow> flow_effect wid k k' ss \<Longrightarrow> flows_inv k'"
  unfolding flows_inv_def flow_effect_def by (metis option.inject)

lemma put_agent_inv:
  assumes "agents_inv k" and "agent_id (ar_spec r) = aid" and "\<bar>ar_psi r\<bar> \<le> of_nat (ar_observations r) * dt (k_policy k)"
  shows "agents_inv (put_agent aid r k)"
  using assms by (auto simp: agents_inv_def put_agent_def dict_simps)

lemma observe_agents_inv:
  assumes inv: "agents_inv k"
  shows "agents_inv (snd (observe ev aid tel k))"
proof (cases "get_agent aid k")
  case (Inl e)
  with inv show ?thesis by (simp add: observe_def)
next
  case (Inr r)
  let ?c = "from_agent_telemetry tel" and ?h = "dt (k_policy k)"
  define r1 where "r1 = r\<lparr>ar_previous_psi := ar_psi r, ar_psi := ar_psi r + delta ?h ?c, failure_streak := failure_count tel,
      ar_last_coefficients := Some ?c, ar_observations := ar_observations r + 1\<rparr>"
  have r: "agent_id (ar_spec r) = aid" "\<bar>ar_psi r\<bar> \<le> of_nat (ar_observations r) * ?h" "0 < ?h"
    using Inr inv by (auto simp: get_agent_def agents_inv_def split: option.splits)
  have "\<bar>ar_psi r + delta ?h ?c\<bar> \<le> of_nat (ar_observations r) * ?h + ?h"
    using r(2) delta_bounds(1) [OF r(3), of ?c] by linarith
  then have r1: "agent_id (ar_spec r1) = aid" "\<bar>ar_psi r1\<bar> \<le> of_nat (ar_observations r1) * ?h"
    using r(1) by (simp_all add: r1_def algebra_simps)
  have one: "agents_inv (put_agent aid r1 k)" using inv r1 by (rule put_agent_inv)
  have two: "agents_inv (put_agent aid (r1\<lparr>ar_state := st\<rparr>) (put_agent aid r1 k))" for st
    using r1 by (intro put_agent_inv [OF one]) (simp_all add: frame_simps)
  have three: "agents_inv (write_audit i k') = agents_inv k'" for i and k' :: "'a kernel"
    by (rule agents_inv_cong) (simp_all add: frame_simps)
  show ?thesis
    using Inr one two unfolding r1_def by (simp add: observe_def continuity_step_def three split: sum.split)
qed

lemma schedule_retry_frame: "registry (schedule_retry wid sid s ok k) = registry k" "k_policy (schedule_retry wid sid s ok k) = k_policy k"
  by (simp_all add: schedule_retry_def frame_simps)

lemma finish_step_agents_inv:
  assumes "agents_inv k"
  shows "agents_inv (snd (finish_step ev wid pl sid s1 aid res latency k))"
proof -
  define k3 where "k3 = put_step wid sid (s1\<lparr>sr_output := tr_output res, sr_error := tr_error res,
      sr_state := (if tr_ok res then STEP_COMPLETED else STEP_FAILED)\<rparr>) k"
  have k3: "agents_inv k3" using assms agents_inv_cong [of k3 k] by (simp add: k3_def frame_simps)
  have ob: "agents_inv k4" if "observe ev aid tel k3 = (r, k4)" for tel r k4
    using observe_agents_inv [OF k3, of ev aid tel] that by simp
  have re: "agents_inv (schedule_retry wid sid s ok k4) = agents_inv k4" for s ok and k4 :: "'a kernel"
    by (rule agents_inv_cong) (simp_all add: schedule_retry_frame)
  show ?thesis
  proof (cases "get_agent aid k3")
    case (Inl e)
    with k3 show ?thesis by (simp add: finish_step_def k3_def [symmetric])
  next
    case (Inr r)
    obtain d k4 where d: "observe ev aid (result_telemetry res latency (priority pl)
        (if tr_ok res then 65/100 else 25/100) (if tr_ok res then 65/100 else 20/100) (failure_streak r)) k3 = (d, k4)"
      by fastforce
    with Inr ob [OF d] show ?thesis by (cases d) (simp_all add: finish_step_def k3_def [symmetric] re)
  qed
qed

lemma run_step_agents_inv:
  assumes inv: "agents_inv k" and run: "run_step ev run wid w sid s k = (r, k')"
  shows "agents_inv k'"
proof (cases "assign_agent s k")
  case (Inl e)
  with inv run show ?thesis by (simp add: run_step_def)
next
  case (Inr agent)
  obtain s1 k1 where b: "begin_step wid sid s (agent_id (ar_spec agent)) k = (s1, k1)" by fastforce
  then have "registry k1 = registry k" "k_policy k1 = k_policy k" by (auto simp: begin_step_def frame_simps)
  then have k1: "agents_inv k1" using inv agents_inv_cong [of k1 k] by simp
  have k2: "agents_inv k2" if "call_runtime run sp t k1 = (x, k2)" for sp t x k2
    using k1 agents_inv_cong [of k2 k1] frame_call_runtime [of run sp t k1] that by simp
  have k3: "agents_inv k3" if "finish_step ev wid pl sid s1 aid res latency k2 = (x, k3)" "agents_inv k2" for pl aid res latency k2 x k3
    using finish_step_agents_inv [OF that(2), of ev wid pl sid s1 aid res latency] that(1) by simp
  show ?thesis
  proof (cases "dependency_outputs (dict_set sid s1 (wr_steps w)) (depends_on (sr_step s)) []")
    case (Inl e)
    with Inr b run k1 show ?thesis by (simp add: run_step_def)
  next
    case outs: (Inr outs)
    obtain x k2 where x: "call_runtime run (ar_spec agent) (step_task (wr_plan w) s1 outs) k1 = (x, k2)" by fastforce
    show ?thesis
    proof (cases x)
      case (Inl e)
      with Inr b outs x run k2 [OF x] show ?thesis by (simp add: run_step_def)
    next
      case res: (Inr y)
      obtain res latency where "y = (res, latency)" by fastforce
      with Inr b outs x res run have "finish_step ev wid (wr_plan w) sid s1 (agent_id (ar_spec agent)) res latency k2 = (r, k')"
        by (simp add: run_step_def)
      from k3 [OF this k2 [OF x]] show ?thesis .
    qed
  qed
qed

lemma observe_from_steps_agents_inv:
  "observe_workflow_from_steps ev wid k = (r, k') \<Longrightarrow> agents_inv k' = agents_inv k"
  using frame_observe_workflow_from_steps(2,3) [of ev wid k] by (intro agents_inv_cong) simp_all

lemma observe_step_handoffs_agents_inv:
  "observe_step_handoffs ev w s k = (r, k') \<Longrightarrow> agents_inv k' = agents_inv k"
  using frame_observe_step_handoffs [of ev w s k] by (intro agents_inv_cong) simp_all

lemma run_one_agents_inv:
  assumes inv: "agents_inv k" and run: "run_one ev run wid sid k = (r, k')"
  shows "agents_inv k'"
  using run inv
  by (auto simp: run_one_def split: sum.splits option.splits prod.splits
      dest: run_step_agents_inv observe_step_handoffs_agents_inv observe_from_steps_agents_inv)

lemma run_ready_agents_inv: "agents_inv k \<Longrightarrow> run_ready ev run wid sids k = (r, k') \<Longrightarrow> agents_inv k'"
proof (induction sids arbitrary: k)
  case Nil
  then show ?case by simp
next
  case (Cons sid sids)
  obtain r1 k1 where one: "run_one ev run wid sid k = (r1, k1)" by fastforce
  note inv1 = run_one_agents_inv [OF Cons.prems(1) one]
  show ?case
  proof (cases "r1 = Inr False")
    case True
    with Cons.prems(2) one have "run_ready ev run wid sids k1 = (r, k')" by simp
    with Cons.IH [OF inv1] show ?thesis by simp
  next
    case False
    with Cons.prems(2) one have "k' = k1" by (auto split: sum.splits)
    with inv1 show ?thesis by simp
  qed
qed

lemma run_loop_agents_inv: "agents_inv k \<Longrightarrow> run_loop n ev run wid k = Some (r, k') \<Longrightarrow> agents_inv k'"
proof (induction n arbitrary: k)
  case 0
  then show ?case by simp
next
  case (Suc n)
  obtain r1 k1 where one: "observe_workflow_from_steps ev wid k = (r1, k1)" by fastforce
  have end_inv: "agents_inv k1" using observe_from_steps_agents_inv [OF one] Suc.prems(1) by simp
  consider e where "ready_steps wid k = Inl e" | "ready_steps wid k = Inr []"
    | sid sids where "ready_steps wid k = Inr (sid # sids)"
    by (metis neq_Nil_conv sum.exhaust)
  then show ?case
  proof cases
    case 1
    with Suc.prems show ?thesis by simp
  next
    case 2
    with Suc.prems(2) one have "k' = k1" by (auto split: sum.splits)
    with end_inv show ?thesis by simp
  next
    case (3 sid sids)
    obtain r2 k2 where two: "run_ready ev run wid (sid # sids) k = (r2, k2)" by fastforce
    note inv2 = run_ready_agents_inv [OF Suc.prems(1) two]
    show ?thesis
    proof (cases "r2 = Inr False")
      case True
      with Suc.prems(2) 3 two have "run_loop n ev run wid k2 = Some (r, k')" by simp
      with Suc.IH [OF inv2] show ?thesis by simp
    next
      case False
      with Suc.prems(2) 3 two have "k' = k2" by (cases r2) auto
      with inv2 show ?thesis by simp
    qed
  qed
qed

lemma run_loop_mono: "run_loop n ev run wid k = Some x \<Longrightarrow> n \<le> m \<Longrightarrow> run_loop m ev run wid k = Some x"
proof (induction n arbitrary: k m)
  case 0
  then show ?case by simp
next
  case (Suc n)
  then obtain m' where m: "m = Suc m'" "n \<le> m'" by (cases m) auto
  consider e where "ready_steps wid k = Inl e" | "ready_steps wid k = Inr []"
    | sid sids where "ready_steps wid k = Inr (sid # sids)"
    by (metis neq_Nil_conv sum.exhaust)
  then show ?case
  proof cases
    case (3 sid sids)
    obtain r1 k1 where "run_ready ev run wid (sid # sids) k = (r1, k1)" by fastforce
    with 3 Suc.prems(1) Suc.IH [of k1 m'] m show ?thesis by (cases r1) (auto split: if_splits)
  qed (use Suc.prems m in simp_all)
qed

text \<open>Any call of a method of the kernel.\<close>

inductive kernel_step :: "engine \<Rightarrow> 'w runtime option \<Rightarrow> 'w kernel \<Rightarrow> 'w kernel \<Rightarrow> bool" for ev rt where
  register: "kernel_step ev rt k (snd (register_agent sp tel k))"
| observe: "kernel_step ev rt k (snd (observe ev aid atel k))"
| run_task: "kernel_step ev rt k (snd (run_task ev rt t k))"
| create: "kernel_step ev rt k (snd (create_workflow pl k))"
| handoff: "kernel_step ev rt k (snd (observe_handoff ev src tgt htel k))"
| flow: "kernel_step ev rt k (snd (observe_workflow ev wid wtel k))"
| run: "run_workflow n ev rt wid k = Some (r, k') \<Longrightarrow> kernel_step ev rt k k'"
| intervene: "kernel_step ev rt k (snd (intervene wid action subject why pay k))"

lemma register_inv: "kernel_inv k \<Longrightarrow> kernel_inv (snd (register_agent sp tel k))"
  by (auto simp: kernel_inv_def register_agent_def agents_inv_def flows_inv_def steps_of_def AgentRecord_def dict_simps)

lemma kernel_observe_inv: "kernel_inv k \<Longrightarrow> kernel_inv (snd (observe ev aid tel k))"
  using observe_agents_inv [of k ev aid tel] flows_inv_cong [of "snd (observe ev aid tel k)" k]
  by (simp add: kernel_inv_def frame_simps steps_of_def)

lemma run_task_inv:
  assumes inv: "kernel_inv k"
  shows "kernel_inv (snd (run_task ev rt t k))"
proof -
  have rt: "kernel_inv k1" if "call_runtime run sp t k = (x, k1)" for run sp x k1
    using inv that frame_call_runtime [of run sp t k] agents_inv_cong [of k1 k] flows_inv_cong [of k1 k]
    by (simp add: kernel_inv_def steps_of_def)
  have ob: "kernel_inv k2" if "observe ev aid tel k1 = (x, k2)" "kernel_inv k1" for aid tel k1 x k2
    using kernel_observe_inv [OF that(2), of ev aid tel] that(1) by simp
  show ?thesis
    using inv by (auto simp: run_task_def split: option.split list.split prod.split sum.split dest: rt ob)
qed

lemma steps_inv_fresh:
  assumes "\<And>sid s. dict_get ss sid = Some s \<Longrightarrow> \<exists>x. s = StepRecord x \<and> step_id x = sid" and "dict_ok ss"
  shows "steps_inv p ss"
  using assms by (force simp: steps_inv_def step_inv_def StepRecord_def)

lemma plan_steps_fresh:
  fixes xs :: "workflow_step list"
  defines "ins \<equiv> fold (\<lambda>s. dict_set (step_id s) (StepRecord s)) xs"
  assumes "dict_ok ss" and "\<And>sid s. dict_get ss sid = Some s \<Longrightarrow> \<exists>x. s = StepRecord x \<and> step_id x = sid"
  shows "dict_ok (ins ss) \<and> (\<forall>sid s. dict_get (ins ss) sid = Some s \<longrightarrow> (\<exists>x. s = StepRecord x \<and> step_id x = sid))"
  using assms(2,3) unfolding ins_def
proof (induction xs arbitrary: ss)
  case Nil
  then show ?case by simp
next
  case (Cons y xs)
  have ok: "dict_ok (dict_set (step_id y) (StepRecord y) ss)" using Cons.prems(1) by simp
  have "\<exists>x. s = StepRecord x \<and> step_id x = sid" if "dict_get (dict_set (step_id y) (StepRecord y) ss) sid = Some s" for sid s
    using Cons.prems(2) that by (auto simp: dict_simps split: if_splits)
  from Cons.IH [OF ok this] show ?case by simp
qed

lemma create_inv:
  assumes "kernel_inv k"
  shows "kernel_inv (snd (create_workflow pl k))"
proof (cases "dict_get (workflows k) (workflow_id pl)")
  case (Some w)
  with assms show ?thesis by (simp add: create_workflow_def)
next
  case None
  define ss where "ss = fold (\<lambda>s. dict_set (step_id s) (StepRecord s)) (plan_steps pl) []"
  let ?k1 = "put_workflow (workflow_id pl) (WorkflowRecord pl ss) k"
  have ss: "steps_inv p ss" for p
    using plan_steps_fresh [of "[]" "plan_steps pl"] by (intro steps_inv_fresh) (auto simp: ss_def)
  have "flows_inv ?k1" using assms ss by (auto simp: kernel_inv_def flows_inv_def frame_simps WorkflowRecord_def split: if_splits)
  moreover have "agents_inv ?k1" using assms agents_inv_cong [of ?k1 k] by (simp add: kernel_inv_def frame_simps)
  moreover have "flows_inv (snd (emit owid act sb why pay k')) = flows_inv k'" "agents_inv (snd (emit owid act sb why pay k')) = agents_inv k'"
    for owid act sb why pay and k' :: "'a kernel"
    by (auto intro!: flows_inv_cong agents_inv_cong steps_of_cong simp: frame_simps)
  ultimately show ?thesis using None by (simp add: create_workflow_def kernel_inv_def ss_def [symmetric])
qed

lemma handoff_inv: "kernel_inv k \<Longrightarrow> kernel_inv (snd (observe_handoff ev src tgt tel k))"
  using agents_inv_cong [of "snd (observe_handoff ev src tgt tel k)" k] flows_inv_cong [of "snd (observe_handoff ev src tgt tel k)" k]
  by (simp add: kernel_inv_def frame_simps steps_of_def)

lemma flow_inv: "kernel_inv k \<Longrightarrow> kernel_inv (snd (observe_workflow ev wid tel k))"
  using agents_inv_cong [of "snd (observe_workflow ev wid tel k)" k] flows_inv_cong [of "snd (observe_workflow ev wid tel k)" k]
  by (simp add: kernel_inv_def frame_simps)

lemma same_steps_inv:
  assumes "kernel_inv k" and "dict_get (workflows k) wid = Some w" and "wr_steps w' = wr_steps w"
  shows "kernel_inv (snd (emit owid act sb why pay (put_workflow wid w' k)))"
proof -
  let ?k' = "snd (emit owid act sb why pay (put_workflow wid w' k))"
  have "steps_of v ?k' = steps_of v (put_workflow wid w' k)" for v by (rule steps_of_cong) (simp add: frame_simps)
  moreover have "steps_of wid k = Some (wr_steps w')" using assms(2,3) by (simp add: steps_of_def)
  ultimately have "steps_of v ?k' = steps_of v k" for v by (simp add: frame_simps)
  with assms(1) agents_inv_cong [of ?k' k] flows_inv_cong [of ?k' k] show ?thesis
    by (simp add: kernel_inv_def frame_simps)
qed

lemma intervene_inv: "kernel_inv k \<Longrightarrow> kernel_inv (snd (intervene wid action subject why pay k))"
  by (auto simp: intervene_def get_workflow_def case_prod_beta split: option.split intro: same_steps_inv)

text \<open>The start of a run: the workflow is marked as running.\<close>

lemma run_workflow_start:
  assumes "kernel_inv k" and w: "dict_get (workflows k) wid = Some w"
  obtains k1 where "\<And>n. run_workflow n ev (Some run) wid k = run_loop n ev run wid k1" and "kernel_inv k1"
    and "\<And>v. steps_of v k1 = steps_of v k" and "k_policy k1 = k_policy k"
proof -
  let ?k1 = "snd (emit (Some wid) DELEGATE wid ''workflow started'' [] (put_workflow wid (w\<lparr>wr_state := WF_RUNNING\<rparr>) k))"
  show ?thesis
  proof (rule that)
    show "run_workflow n ev (Some run) wid k = run_loop n ev run wid ?k1" for n
      using w by (simp add: run_workflow_def get_workflow_def)
    show "kernel_inv ?k1" using assms by (intro same_steps_inv) simp_all
    show "k_policy ?k1 = k_policy k" by (simp add: frame_simps)
    have "steps_of v ?k1 = steps_of v (put_workflow wid (w\<lparr>wr_state := WF_RUNNING\<rparr>) k)" for v
      by (rule steps_of_cong) (simp add: frame_simps)
    moreover have "steps_of wid k = Some (wr_steps w)" using w by (simp add: steps_of_def)
    ultimately show "steps_of v ?k1 = steps_of v k" for v by (simp add: frame_simps)
  qed
qed

lemma run_workflow_flow:
  assumes inv: "kernel_inv k" and ss: "steps_of wid k = Some ss" and n: "budget_left (k_policy k) ss < n"
  shows "\<exists>r k' ss'. run_workflow n ev (Some run) wid k = Some (r, k') \<and> kernel_inv k' \<and> flow_effect wid k k' ss' \<and>
    (r = Inr () \<longrightarrow> run_outcome wid k' ss')"
proof -
  obtain w where w: "dict_get (workflows k) wid = Some w" using ss by (auto simp: steps_of_def)
  obtain k1 where k1: "\<And>n. run_workflow n ev (Some run) wid k = run_loop n ev run wid k1" "kernel_inv k1"
    "\<And>v. steps_of v k1 = steps_of v k" "k_policy k1 = k_policy k"
    using run_workflow_start [OF inv w] by blast
  have s1: "steps_of wid k1 = Some ss" "steps_inv (k_policy k1) ss"
    using k1(3) ss k1(2) by (auto simp: kernel_inv_def flows_inv_def)
  from run_loop_flow [OF s1, of n ev run] n k1(4) obtain r k' ss' where
    out: "run_loop n ev run wid k1 = Some (r, k')" "flow_effect wid k1 k' ss'" "r = Inr () \<longrightarrow> run_outcome wid k' ss'"
    by auto
  have "kernel_inv k'"
    using run_loop_agents_inv [OF _ out(1)] flows_inv_effect [OF _ out(2)] k1(2) by (auto simp: kernel_inv_def)
  moreover have "flow_effect wid k k' ss'" using out(2) k1(3,4) by (simp add: flow_effect_def)
  ultimately show ?thesis using out k1(1) by auto
qed

lemma run_workflow_effect:
  assumes inv: "kernel_inv k" and run: "run_workflow n ev rt wid k = Some (r, k')"
  shows "kernel_inv k' \<and> (k' = k \<or> (\<exists>ss. flow_effect wid k k' ss))"
proof (cases "\<exists>f w. rt = Some f \<and> dict_get (workflows k) wid = Some w")
  case False
  with run have "k' = k" by (auto simp: run_workflow_def get_workflow_def split: option.splits)
  with inv show ?thesis by simp
next
  case True
  then obtain f w where f: "rt = Some f" "dict_get (workflows k) wid = Some w" by blast
  let ?m = "max n (Suc (budget_left (k_policy k) (wr_steps w)))"
  have m: "run_workflow ?m ev (Some f) wid k = Some (r, k')"
    using run f by (auto simp: run_workflow_def get_workflow_def intro: run_loop_mono)
  have lt: "budget_left (k_policy k) (wr_steps w) < ?m" by simp
  have "steps_of wid k = Some (wr_steps w)" using f(2) by (simp add: steps_of_def)
  from run_workflow_flow [OF inv this lt, of ev f] m show ?thesis by auto
qed

lemma kernel_step_inv:
  assumes "kernel_inv k" and "kernel_step ev rt k k'"
  shows "kernel_inv k'"
  using assms(2)
  by cases (use assms(1) register_inv kernel_observe_inv run_task_inv create_inv handoff_inv flow_inv intervene_inv run_workflow_effect [THEN conjunct1] in auto)

lemma new_kernel_inv: "new_kernel p has_sink w = Inr k \<Longrightarrow> kernel_inv k"
  by (auto simp: new_kernel_def kernel_inv_def agents_inv_def flows_inv_def steps_of_def split: if_splits)

interpretation maestro: transition_system "\<lambda>k. \<exists>p sink w. new_kernel p sink w = Inr k" "kernel_step ev rt" kernel_inv
  for ev :: engine and rt :: "'w runtime option"
  by unfold_locales (auto intro: new_kernel_inv kernel_step_inv)

subsection \<open>Properties\<close>

text \<open>C4. After any sequence of calls on a new kernel, whatever the structural engine and the agent
  runtime answer or raise: every agent is stored under its id and its \<open>\<Psi>\<close> is at most the number
  of its observations times \<open>dt\<close> in absolute value; every step of every workflow is stored under
  its id, has been run at most as often as the smaller of \<open>max_retries\<close> and the policy's bound allows (once at least),
  and a step that has ever been run has all its dependencies completed.\<close>

theorem kernel_reachable_inv:
  assumes "new_kernel p has_sink w = Inr k0" and "(kernel_step ev rt)\<^sup>*\<^sup>* k0 k"
  shows "(\<forall>aid r. dict_get (registry k) aid = Some r \<longrightarrow> agent_id (ar_spec r) = aid \<and>
      \<bar>ar_psi r\<bar> \<le> of_nat (ar_observations r) * dt (k_policy k)) \<and>
    (\<forall>wid fl sid s. dict_get (workflows k) wid = Some fl \<and> dict_get (wr_steps fl) sid = Some s \<longrightarrow>
      step_id (sr_step s) = sid \<and> 0 \<le> attempts s \<and> attempts s \<le> max 1 (step_budget (k_policy k) s) \<and>
      (0 < attempts s \<longrightarrow> (\<forall>d \<in> set (depends_on (sr_step s)).
         \<exists>t. dict_get (wr_steps fl) d = Some t \<and> sr_state t = STEP_COMPLETED)))"
proof -
  have inv: "kernel_inv k" using maestro.steps_inv [OF assms(2) new_kernel_inv [OF assms(1)]] .
  have "steps_inv (k_policy k) (wr_steps fl)" if "dict_get (workflows k) wid = Some fl" for wid fl
    using inv that by (auto simp: kernel_inv_def flows_inv_def steps_of_def)
  then have "step_inv (k_policy k) (wr_steps fl) sid s"
    if "dict_get (workflows k) wid = Some fl" "dict_get (wr_steps fl) sid = Some s" for wid fl sid s
    using that by (auto simp: steps_inv_def)
  with inv show ?thesis
    unfolding kernel_inv_def agents_inv_def step_inv_def deps_done_def dep_done_def by blast
qed

text \<open>C3. Every run of a workflow ends, whatever the runtime and the engine do: with more passes than
  attempts are left in the budget of the pending steps, \<open>run_workflow\<close> returns or raises, and more passes
  give the same result. When it returns and the
  workflow is not escalated, it is marked completed exactly when it has steps and all of them are
  completed, and no step is left that could be run.\<close>

theorem run_workflow_terminates:
  assumes inv: "kernel_inv k" and ss: "steps_of wid k = Some ss" and n: "budget_left (k_policy k) ss < n"
  shows "\<exists>r k' ss'. (\<forall>m \<ge> n. run_workflow m ev (Some run) wid k = Some (r, k')) \<and>
    kernel_inv k' \<and> steps_of wid k' = Some ss' \<and> map fst ss' = map fst ss \<and>
    (r = Inr () \<and> \<not> workflow_in wid ESCALATED k' \<longrightarrow>
       (workflow_in wid WF_COMPLETED k' \<longleftrightarrow> all_completed ss') \<and> (\<forall>sid. \<not> step_ready ss' sid))"
proof -
  obtain w where w: "dict_get (workflows k) wid = Some w" using ss by (auto simp: steps_of_def)
  obtain r k' ss' where out: "run_workflow n ev (Some run) wid k = Some (r, k')" "kernel_inv k'" "flow_effect wid k k' ss'"
    "r = Inr () \<longrightarrow> run_outcome wid k' ss'"
    using run_workflow_flow [OF assms, of ev run] by blast
  have steps: "steps_of wid k' = Some ss'" "map fst ss' = map fst ss"
    using out(3) ss by (simp_all add: flow_effect_def steps_kept_def)
  have "run_workflow m ev (Some run) wid k = Some (r, k')" if "n \<le> m" for m
    using out(1) w that by (auto simp: run_workflow_def get_workflow_def intro: run_loop_mono)
  with out(2,4) steps show ?thesis unfolding run_outcome_def by blast
qed

text \<open>Every call keeps the steps of the workflows that exist.\<close>

lemma kernel_step_keeps:
  assumes inv: "kernel_inv k" and step: "kernel_step ev rt k k'" and ss: "steps_of wid k = Some ss"
  shows "\<exists>ss'. steps_of wid k' = Some ss' \<and> steps_kept ss ss'"
proof -
  have same: ?thesis if "steps_of wid k' = steps_of wid k" using that ss by auto
  have flows: ?thesis if "workflows k' = workflows k" using same steps_of_cong [OF that] by blast
  from step show ?thesis
  proof cases
    case register
    then show ?thesis by (intro flows) (simp add: register_agent_def)
  next
    case observe
    then show ?thesis by (intro flows) (simp add: frame_simps)
  next
    case (run_task t)
    then show ?thesis
    proof (intro flows)
      have ob: "workflows k2 = workflows k1" if "observe ev aid tel k1 = (x, k2)" for aid tel x and k1 k2 :: "'a kernel"
        using observe_frame [OF that] by simp
      have rt: "workflows k1 = workflows k" if "call_runtime run sp t k = (x, k1)" for run sp x k1
        using call_runtime_frame [OF that] by simp
      show "workflows k' = workflows k"
        using run_task by (auto simp: run_task_def split: option.split list.split prod.split sum.split dest!: rt ob)
    qed
  next
    case (create pl)
    have "wid \<noteq> workflow_id pl \<or> dict_get (workflows k) (workflow_id pl) \<noteq> None" using ss by (auto simp: steps_of_def)
    with create show ?thesis by (intro same) (auto simp: create_workflow_def frame_simps)
  next
    case handoff
    then show ?thesis by (intro flows) (simp add: frame_simps)
  next
    case flow
    then show ?thesis by (intro same) (simp add: frame_simps)
  next
    case (run n v r)
    from run_workflow_effect [OF inv run] show ?thesis using ss
      by (cases "v = wid") (auto simp: flow_effect_def intro: same)
  next
    case (intervene v action subject why pay)
    then have "steps_of u k' = steps_of u k" for u
    proof (cases "dict_get (workflows k) v")
      case (Some w)
      then have "steps_of v k = Some (wr_steps w)" by (simp add: steps_of_def)
      with Some intervene show ?thesis by (simp add: intervene_def get_workflow_def case_prod_beta frame_simps)
    qed (simp add: intervene_def get_workflow_def)
    then show ?thesis by (rule same)
  qed
qed

text \<open>C26. A step that is not pending never changes again, along any sequence of calls: completed and
  failed steps are final, and so is a step whose runtime raised, which stays running for ever and is
  never run again. Workflows and their steps are never dropped, and attempts never go down.\<close>

theorem settled_steps_final:
  assumes inv: "kernel_inv k" and run: "(kernel_step ev rt)\<^sup>*\<^sup>* k k'" and ss: "steps_of wid k = Some ss"
  shows "\<exists>ss'. steps_of wid k' = Some ss' \<and> map fst ss' = map fst ss \<and>
    (\<forall>sid s. dict_get ss sid = Some s \<longrightarrow> (\<exists>s'. dict_get ss' sid = Some s' \<and> sr_step s' = sr_step s \<and>
       attempts s \<le> attempts s' \<and> (sr_state s \<noteq> PENDING \<longrightarrow> s' = s)))"
proof -
  have "\<exists>ss'. steps_of wid k' = Some ss' \<and> steps_kept ss ss'"
  proof (rule maestro.steps_stable [OF run inv])
    show "\<exists>ss'. steps_of wid k = Some ss' \<and> steps_kept ss ss'" using ss by simp
    show "\<exists>ss'. steps_of wid v = Some ss' \<and> steps_kept ss ss'"
      if u: "kernel_inv u" and kept: "\<exists>ss'. steps_of wid u = Some ss' \<and> steps_kept ss ss'"
        and uv: "kernel_step ev rt u v" for u v
    proof -
      obtain s1 where s1: "steps_of wid u = Some s1" "steps_kept ss s1" using kept by blast
      obtain s2 where "steps_of wid v = Some s2" "steps_kept s1 s2" using kernel_step_keeps [OF u uv s1(1)] by blast
      with steps_kept_trans [OF s1(2)] show ?thesis by blast
    qed
  qed
  then show ?thesis unfolding steps_kept_def by blast
qed

text \<open>Routing: the first candidate for a capability is an active registered agent that has it, and
  no other active agent with it has a greater \<open>\<Psi>\<close>, or the same \<open>\<Psi>\<close> and a shorter failure
  streak; there is no candidate exactly when no active agent has the capability.\<close>

theorem route_best_agent:
  assumes "prefer_high_psi_agents (k_policy k)"
  shows "(route_candidates cap k = [] \<longleftrightarrow>
      (\<forall>r \<in> snd ` set (registry k). \<not> (ar_state r = ACTIVE \<and> cap \<in> set (capabilities (ar_spec r))))) \<and>
    (\<forall>r rs. route_candidates cap k = r # rs \<longrightarrow>
      r \<in> snd ` set (registry k) \<and> ar_state r = ACTIVE \<and> cap \<in> set (capabilities (ar_spec r)) \<and>
      (\<forall>q \<in> snd ` set (registry k). ar_state q = ACTIVE \<and> cap \<in> set (capabilities (ar_spec q)) \<longrightarrow>
         ar_psi q < ar_psi r \<or> ar_psi q = ar_psi r \<and> failure_streak r \<le> failure_streak q))"
proof -
  let ?key = "\<lambda>r. (- ar_psi r, failure_streak r)"
  define cs where "cs = filter (\<lambda>r. ar_state r = ACTIVE \<and> cap \<in> set (capabilities (ar_spec r))) (map snd (registry k))"
  have rc: "route_candidates cap k = sort_key ?key cs" using assms by (simp add: route_candidates_def cs_def)
  have cs: "q \<in> set cs \<longleftrightarrow> q \<in> snd ` set (registry k) \<and> ar_state q = ACTIVE \<and> cap \<in> set (capabilities (ar_spec q))" for q
    by (auto simp: cs_def)
  have mem: "set (route_candidates cap k) = set cs" by (simp add: rc)
  have best: "ar_psi q < ar_psi r \<or> ar_psi q = ar_psi r \<and> failure_streak r \<le> failure_streak q"
    if "route_candidates cap k = r # rs" "q \<in> set cs" for r rs q
  proof -
    have sorted: "sorted (map ?key (r # rs))" using sorted_sort_key [of ?key cs] that(1) [unfolded rc] by (simp only:)
    have "q \<in> set (r # rs)" using mem that by simp
    then have "?key r \<le> ?key q" using sorted unfolding list.map sorted_simps(2) by auto
    then show ?thesis by auto
  qed
  have none: "route_candidates cap k = [] \<longleftrightarrow> (\<forall>q. q \<notin> set cs)" using mem by (metis all_not_in_conv set_empty)
  have hd: "r \<in> set cs" if "route_candidates cap k = r # rs" for r rs using mem that by (metis list.set_intros(1))
  show ?thesis
  proof (intro conjI allI impI)
    show "route_candidates cap k = [] \<longleftrightarrow>
        (\<forall>r \<in> snd ` set (registry k). \<not> (ar_state r = ACTIVE \<and> cap \<in> set (capabilities (ar_spec r))))"
      unfolding none cs by blast
  next
    fix r rs
    assume r: "route_candidates cap k = r # rs"
    note in_cs = hd [OF r, unfolded cs]
    show "r \<in> snd ` set (registry k)" and "ar_state r = ACTIVE" and "cap \<in> set (capabilities (ar_spec r))"
      using in_cs by simp_all
    show "\<forall>q \<in> snd ` set (registry k). ar_state q = ACTIVE \<and> cap \<in> set (capabilities (ar_spec q)) \<longrightarrow>
         ar_psi q < ar_psi r \<or> ar_psi q = ar_psi r \<and> failure_streak r \<le> failure_streak q"
      using best [OF r, unfolded cs] by simp
  qed
qed

text \<open>The effect of an observation on \<open>\<Psi>\<close>, also of one that raises.\<close>

lemma observe_psi:
  assumes "dict_get (registry k) aid = Some r"
  shows "\<exists>r'. dict_get (registry (snd (observe ev aid tel k))) aid = Some r' \<and>
    ar_psi r' = ar_psi r + delta (dt (k_policy k)) (from_agent_telemetry tel)"
  using assms by (simp add: observe_def get_agent_def continuity_step_def frame_simps put_agent_def dict_simps split: sum.split)

lemma observe_overflow:
  assumes "dict_get (registry k) aid = Some r"
    and "ar_psi r + delta (dt (k_policy k)) (from_agent_telemetry tel) \<le> - 2048"
  shows "fst (observe ev aid tel k) = Inl OverflowError"
  using assms evaluate_transition_overflow [OF assms(2)]
  by (simp add: observe_def get_agent_def continuity_step_def)

lemma observe_iterate:
  assumes "dict_get (registry k) aid = Some r"
  shows "\<exists>r'. dict_get (registry (((\<lambda>k. snd (observe ev aid tel k)) ^^ n) k)) aid = Some r' \<and>
      ar_psi r' = ar_psi r + of_nat n * delta (dt (k_policy k)) (from_agent_telemetry tel) \<and>
      k_policy (((\<lambda>k. snd (observe ev aid tel k)) ^^ n) k) = k_policy k"
proof (induction n)
  case 0
  then show ?case using assms by simp
next
  case (Suc n)
  then obtain r1 where r1: "dict_get (registry (((\<lambda>k. snd (observe ev aid tel k)) ^^ n) k)) aid = Some r1"
    "ar_psi r1 = ar_psi r + of_nat n * delta (dt (k_policy k)) (from_agent_telemetry tel)"
    "k_policy (((\<lambda>k. snd (observe ev aid tel k)) ^^ n) k) = k_policy k"
    by blast
  from observe_psi [OF r1(1), of ev tel] r1 show ?case by (auto simp: frame_simps algebra_simps)
qed

text \<open>\<open>\<Psi>\<close> is integrated without bound, and \<open>normalize_psi\<close> takes \<open>math.exp\<close> of its negation: an
  agent that is observed with the same telemetry again and again, when that lowers \<open>\<Psi>\<close> (in exact
  reals), gets \<open>OverflowError\<close> instead of a decision from some observation on.\<close>

theorem decaying_agent_raises:
  assumes agent: "dict_get (registry k) aid = Some r"
    and decay: "delta (dt (k_policy k)) (from_agent_telemetry tel) < 0"
  shows "\<exists>N. \<forall>n \<ge> N. fst (observe ev aid tel (((\<lambda>k. snd (observe ev aid tel k)) ^^ n) k)) = Inl OverflowError"
proof -
  let ?d = "delta (dt (k_policy k)) (from_agent_telemetry tel)"
  obtain N :: nat where N: "(ar_psi r + 2048) / (- ?d) \<le> of_nat N" using real_arch_simple by blast
  have "fst (observe ev aid tel (((\<lambda>k. snd (observe ev aid tel k)) ^^ n) k)) = Inl OverflowError" if "N \<le> n" for n
  proof -
    have "(ar_psi r + 2048) / (- ?d) \<le> of_nat n" using N that by (meson of_nat_le_iff order_trans)
    moreover have "0 < - ?d" using decay by simp
    ultimately have "ar_psi r + 2048 \<le> of_nat n * (- ?d)" by (simp only: pos_divide_le_eq)
    then have low: "ar_psi r + of_nat n * ?d + ?d \<le> - 2048" using decay by simp
    obtain r1 where r1: "dict_get (registry (((\<lambda>k. snd (observe ev aid tel k)) ^^ n) k)) aid = Some r1"
      "ar_psi r1 = ar_psi r + of_nat n * ?d" "k_policy (((\<lambda>k. snd (observe ev aid tel k)) ^^ n) k) = k_policy k"
      using observe_iterate [OF agent, of n ev tel] by blast
    show ?thesis by (rule observe_overflow [OF r1(1)]) (use r1 low in simp)
  qed
  then show ?thesis by blast
qed

subsection \<open>Witnesses\<close>

definition ex_spec :: agent_spec where
  "ex_spec = \<lparr>agent_id = ''a1'', role = ''writer'', version = ''0.2.0'', capabilities = [''write''],
     criticality = CRITICAL, agent_metadata = []\<rparr>"

definition ex_step :: "string \<Rightarrow> string list \<Rightarrow> workflow_step" where
  "ex_step sid ds = \<lparr>step_id = sid, capability = ''write'', instruction = ''go'', depends_on = ds,
     preferred_agent_id = None, parallel_group = None, max_retries = 2, step_metadata = []\<rparr>"

definition ex_plan :: workflow_plan where
  "ex_plan = \<lparr>workflow_id = ''w1'', goal = ''done'', plan_steps = [ex_step ''s1'' [], ex_step ''s2'' [''s1'']],
     priority = 1/2, plan_metadata = []\<rparr>"

definition ex_kernel0 :: "unit kernel" where
  "ex_kernel0 = \<lparr>k_policy = KernelPolicy, registry = [], handoffs = [], workflows = [], events = [],
     audit_log = None, world = ()\<rparr>"

definition ex_kernel1 :: "unit kernel" where
  "ex_kernel1 = snd (register_agent ex_spec None ex_kernel0)"

definition ex_kernel :: "unit kernel" where
  "ex_kernel = snd (create_workflow ex_plan ex_kernel1)"

definition ex_report :: transition_report where
  "ex_report = \<lparr>transmissibility = 1/2, retention = 1/2, rp_self_potential = 1/2,
     rp_lock_state = \<lparr>locked = False, ls_self_potential = 1/2, transition_gate = 0, lock_threshold = 7/10, lock_gate_max = 2/10\<rparr>,
     delay_gate = 0, compatibility = 8/10, transition_channel = 1/10,
     aftermath = \<lparr>collapse_score = 0, flourishing_score = 1/2, balance = 1/2\<rparr>, existence = None, possibility = None,
     rp_fate_vector = None, rp_existence_rank = Some STABLE, dynamic_lift = None\<rparr>"

definition ex_engine :: engine where
  "ex_engine i = Inr ex_report"

definition ex_runtime :: "unit runtime" where
  "ex_runtime sp t w = (Inr (\<lparr>tr_ok = True, tr_output = PyStr ''text'', tr_error = None, tr_latency_ms = 0, tr_cost = 0\<rparr>, 12), w)"

lemma ex_kernel0_new: "new_kernel KernelPolicy False () = Inr ex_kernel0"
  by (simp add: new_kernel_def ex_kernel0_def KernelPolicy_def)

lemma ex_kernel1_eq: "registry ex_kernel1 = [(''a1'', AgentRecord ex_spec)]" "workflows ex_kernel1 = []" "k_policy ex_kernel1 = KernelPolicy"
  by (simp_all add: ex_kernel1_def register_agent_def ex_kernel0_def ex_spec_def AgentRecord_def)

lemma ex_kernel_eq:
  "registry ex_kernel = [(''a1'', AgentRecord ex_spec)]" "k_policy ex_kernel = KernelPolicy"
  "steps_of ''w1'' ex_kernel = Some [(''s1'', StepRecord (ex_step ''s1'' [])), (''s2'', StepRecord (ex_step ''s2'' [''s1'']))]"
  unfolding ex_kernel_def steps_of_def
  by (simp_all add: create_workflow_def ex_plan_def ex_kernel1_eq frame_simps put_workflow_def WorkflowRecord_def
      ex_step_def)

lemma ex_kernel_steps: "(kernel_step ev rt)\<^sup>*\<^sup>* ex_kernel0 ex_kernel"
  unfolding ex_kernel_def ex_kernel1_def
  by (rule rtranclp_trans [of _ _ "snd (register_agent ex_spec None ex_kernel0)"])
    (intro r_into_rtranclp kernel_step.register, intro r_into_rtranclp kernel_step.create)

lemma ex_kernel_inv: "kernel_inv ex_kernel"
  using maestro.steps_inv [OF ex_kernel_steps [of ex_engine None] new_kernel_inv [OF ex_kernel0_new]] .

theorem kernel_reachable_inv_witness:
  "(kernel_step ex_engine (Some ex_runtime))\<^sup>*\<^sup>* ex_kernel0 ex_kernel \<and>
   (\<exists>r. dict_get (registry ex_kernel) ''a1'' = Some r \<and> agent_id (ar_spec r) = ''a1'')"
proof -
  have "dict_get (registry ex_kernel) ''a1'' = Some (AgentRecord ex_spec)" by (simp add: ex_kernel_eq)
  with kernel_reachable_inv [OF ex_kernel0_new ex_kernel_steps [of ex_engine "Some ex_runtime"]] show ?thesis
    using ex_kernel_steps by blast
qed

theorem run_workflow_terminates_witness:
  "\<exists>r k' ss'. run_workflow 5 ex_engine (Some ex_runtime) ''w1'' ex_kernel = Some (r, k') \<and>
     steps_of ''w1'' k' = Some ss' \<and> kernel_inv k'"
proof -
  have "budget_left (k_policy ex_kernel) [(''s1'', StepRecord (ex_step ''s1'' [])), (''s2'', StepRecord (ex_step ''s2'' [''s1'']))] < 5"
    by (simp add: budget_left_def left_def StepRecord_def ex_step_def step_budget_def ex_kernel_eq KernelPolicy_def)
  from run_workflow_terminates [OF ex_kernel_inv ex_kernel_eq(3) this, of ex_engine ex_runtime] show ?thesis by blast
qed

text \<open>A runtime that raises, and the kernel it leaves: the first step stays running.\<close>

definition ex_crash :: "unit runtime" where
  "ex_crash sp t w = (Inl (OtherException ''TimeoutError''), w)"

definition ex_crashed :: "unit kernel" where
  "ex_crashed = snd (the (run_workflow 5 ex_engine (Some ex_crash) ''w1'' ex_kernel))"

lemma ex_crashed_run: "kernel_step ex_engine (Some ex_crash) ex_kernel ex_crashed"
proof -
  have "budget_left (k_policy ex_kernel) [(''s1'', StepRecord (ex_step ''s1'' [])), (''s2'', StepRecord (ex_step ''s2'' [''s1'']))] < 5"
    by (simp add: budget_left_def left_def StepRecord_def ex_step_def step_budget_def ex_kernel_eq KernelPolicy_def)
  from run_workflow_flow [OF ex_kernel_inv ex_kernel_eq(3) this, of ex_engine ex_crash] obtain r k' where
    "run_workflow 5 ex_engine (Some ex_crash) ''w1'' ex_kernel = Some (r, k')" by blast
  then show ?thesis by (auto simp: ex_crashed_def intro: kernel_step.run)
qed

definition ex_running :: step_record where
  "ex_running = (StepRecord (ex_step ''s1'' []))\<lparr>assigned_agent_id := Some ''a1'', sr_state := STEP_RUNNING, attempts := 1\<rparr>"

lemma ex_flow:
  "dict_get (workflows ex_kernel) ''w1'' = Some (WorkflowRecord ex_plan
     [(''s1'', StepRecord (ex_step ''s1'' [])), (''s2'', StepRecord (ex_step ''s2'' [''s1'']))])"
  unfolding ex_kernel_def
  by (simp add: create_workflow_def ex_plan_def ex_kernel1_eq frame_simps put_workflow_def WorkflowRecord_def ex_step_def)

lemma ex_crashed_steps:
  "steps_of ''w1'' ex_crashed = Some [(''s1'', ex_running), (''s2'', StepRecord (ex_step ''s2'' [''s1'']))]"
  unfolding ex_crashed_def
  by (simp add: run_workflow_def get_workflow_def ex_flow eval_nat_numeral ready_steps_def frame_simps put_workflow_def
      WorkflowRecord_def dict_simps StepRecord_def ex_step_def run_one_def run_step_def assign_agent_def route_candidates_def
      ex_kernel_eq AgentRecord_def ex_spec_def KernelPolicy_def begin_step_def call_runtime_def ex_crash_def put_step_def
      steps_of_def ex_running_def)

theorem settled_steps_final_witness:
  "sr_state ex_running = STEP_RUNNING \<and>
   (\<exists>ss. steps_of ''w1'' (snd (intervene ''w1'' PAUSE ''w1'' ''operator'' [] ex_crashed)) = Some ss \<and> dict_get ss ''s1'' = Some ex_running)"
proof -
  have inv: "kernel_inv ex_crashed" using kernel_step_inv [OF ex_kernel_inv ex_crashed_run] .
  have run: "(kernel_step ex_engine (Some ex_crash))\<^sup>*\<^sup>* ex_crashed (snd (intervene ''w1'' PAUSE ''w1'' ''operator'' [] ex_crashed))"
    by (intro r_into_rtranclp kernel_step.intervene)
  have st: "sr_state ex_running = STEP_RUNNING" by (simp add: ex_running_def)
  have s1: "dict_get [(''s1'', ex_running), (''s2'', StepRecord (ex_step ''s2'' [''s1'']))] ''s1'' = Some ex_running" by simp
  obtain ss where ss: "steps_of ''w1'' (snd (intervene ''w1'' PAUSE ''w1'' ''operator'' [] ex_crashed)) = Some ss"
    and final: "\<forall>sid s. dict_get [(''s1'', ex_running), (''s2'', StepRecord (ex_step ''s2'' [''s1'']))] sid = Some s \<longrightarrow>
      (\<exists>s'. dict_get ss sid = Some s' \<and> sr_step s' = sr_step s \<and> attempts s \<le> attempts s' \<and> (sr_state s \<noteq> PENDING \<longrightarrow> s' = s))"
    using settled_steps_final [OF inv run ex_crashed_steps] by blast
  from final [rule_format, OF s1] st have "dict_get ss ''s1'' = Some ex_running" by auto
  with ss st show ?thesis by blast
qed

theorem route_best_agent_witness:
  "route_candidates ''write'' ex_kernel \<noteq> []"
proof -
  have "prefer_high_psi_agents (k_policy ex_kernel)" by (simp add: ex_kernel_eq KernelPolicy_def)
  from route_best_agent [OF this, of "''write''"] show ?thesis
    by (simp add: ex_kernel_eq AgentRecord_def ex_spec_def)
qed

definition ex_bad_telemetry :: agent_telemetry where
  "ex_bad_telemetry = AgentTelemetry\<lparr>success_rate := 0, resource_cost := 1, overlap_score := 1\<rparr>"

theorem decaying_agent_raises_witness:
  "\<exists>N. \<forall>n \<ge> N. fst (observe ex_engine ''a1'' ex_bad_telemetry
     (((\<lambda>k. snd (observe ex_engine ''a1'' ex_bad_telemetry k)) ^^ n) ex_kernel)) = Inl OverflowError"
proof -
  have dt: "0 < dt (k_policy ex_kernel)" by (simp add: ex_kernel_eq KernelPolicy_def)
  have "delta (dt (k_policy ex_kernel)) (from_agent_telemetry ex_bad_telemetry) < 0"
    unfolding delta_bounds(2) [OF dt]
    by (simp add: from_agent_telemetry_def ex_bad_telemetry_def AgentTelemetry_def clamp_to_def get_or_def)
  moreover have "dict_get (registry ex_kernel) ''a1'' = Some (AgentRecord ex_spec)" by (simp add: ex_kernel_eq)
  ultimately show ?thesis by (intro decaying_agent_raises)
qed

theorem governor_safe_witness:
  "high_risk KernelPolicy \<lparr>cT = 1, cN = 1, cC = 0, cM = 1\<rparr> \<and>
   gd_new_state (decide KernelPolicy (AgentRecord ex_spec) \<lparr>cT = 1, cN = 1, cC = 0, cM = 1\<rparr> 0 ex_report) = QUARANTINED"
proof -
  have "high_risk KernelPolicy \<lparr>cT = 1, cN = 1, cC = 0, cM = 1\<rparr>" by (simp add: high_risk_def KernelPolicy_def)
  with governor_safe [of KernelPolicy "AgentRecord ex_spec" "\<lparr>cT = 1, cN = 1, cC = 0, cM = 1\<rparr>" 0 ex_report]
  show ?thesis by blast
qed

end
