(* ===== verification/Auth_Store.thy ===== *)
theory Auth_Store
  imports Maestro_Prelude
begin

section \<open>The identity tables and the session repository\<close>

text \<open>
  \<open>auth/models.py\<close> (the columns the services use), \<open>auth/session_repository.py\<close> and
  \<open>auth/mfa_repository.py\<close>. A table is a dictionary of its rows by primary key. The services run
  each method in one transaction and lock the rows they read, so a method is one step on the
  tables; a method that raises before its commit leaves them as they were. Clock readings and
  random identifiers are arguments. The unit of work always has its repository once it is entered,
  so the checks for a missing repository have no branch here.
\<close>

datatype auth_error =
    InvalidSessionCredentials
  | RefreshTokenReuse
  | InvalidMfaCredential
  | MfaConflict string
  | MfaStepUpRequired
  | MfaAuthorityUnavailable
  | AuthValueError string
  | AuthRuntimeError string
  | IntegrityError

record identity_user =
  u_id :: string
  email_normalized :: string
  password_hash :: string
  u_status :: string
  failed_login_count :: int
  locked_until :: "seconds option"
  password_changed_at :: "seconds option"

record auth_session =
  as_id :: string
  as_user :: string
  as_organization :: "string option"
  refresh_family_id :: string
  authenticated_at :: seconds
  mfa_satisfied_at :: "seconds option"
  last_seen_at :: "seconds option"
  as_expires_at :: seconds
  as_revoked_at :: "seconds option"
  revoke_reason :: "string option"

record refresh_token =
  rt_id :: string
  rt_session :: string
  parent_token_id :: "string option"
  token_hash :: string
  issued_at :: seconds
  rt_expires_at :: seconds
  consumed_at :: "seconds option"
  rt_revoked_at :: "seconds option"
  reuse_detected_at :: "seconds option"

record mfa_factor =
  f_id :: string
  f_user :: string
  f_label :: string
  f_status :: string
  f_ciphertext :: string
  f_key_version :: string
  verified_at :: "seconds option"
  last_used_step :: "int option"
  disabled_at :: "seconds option"
  f_created_at :: seconds

record recovery_code =
  c_factor :: string
  code_hash :: string
  used_at :: "seconds option"

record membership =
  m_user :: string
  m_organization :: string
  m_role :: string
  m_status :: string
  m_created_at :: seconds

record platform_authority =
  p_user :: string
  p_authority :: string
  p_status :: string
  p_created_at :: seconds

record auth_db =
  users :: "(string, identity_user) dict"
  sessions :: "(string, auth_session) dict"
  tokens :: "(string, refresh_token) dict"
  factors :: "(string, mfa_factor) dict"
  codes :: "recovery_code list"
  memberships :: "membership list"
  authorities :: "platform_authority list"

type_synonym 'a auth_op = "auth_db \<Rightarrow> (auth_error + 'a) \<times> auth_db"

subsection \<open>The session repository\<close>

definition user_for_login :: "string \<Rightarrow> auth_db \<Rightarrow> identity_user option" where
  "user_for_login email db = List.find (\<lambda>u. email_normalized u = email) (map snd (users db))"

definition active_organization_id :: "string \<Rightarrow> auth_db \<Rightarrow> string option" where
  "active_organization_id uid db = map_option m_organization
     (least_by m_created_at (filter (\<lambda>m. m_user m = uid \<and> m_status m = ''active'') (memberships db)))"

definition active_platform_authorities :: "string \<Rightarrow> auth_db \<Rightarrow> string list" where
  "active_platform_authorities uid db = map p_authority
     (sort_key (\<lambda>p. (p_authority p, p_created_at p))
        (filter (\<lambda>p. p_user p = uid \<and> p_status p = ''active'') (authorities db)))"

definition privileged_member :: "string \<Rightarrow> auth_db \<Rightarrow> bool" where
  "privileged_member uid db = list_ex (\<lambda>m. m_user m = uid \<and> m_status m = ''active'' \<and>
     (m_role m = ''organization_owner'' \<or> m_role m = ''organization_admin'')) (memberships db)"

definition requires_mfa :: "string \<Rightarrow> auth_db \<Rightarrow> bool" where
  "requires_mfa uid db \<longleftrightarrow>
     list_ex (\<lambda>f. f_user f = uid \<and> f_status f = ''active'') (map snd (factors db)) \<or>
     privileged_member uid db \<or>
     list_ex (\<lambda>p. p_user p = uid \<and> p_authority p = ''platform_admin'' \<and> p_status p = ''active'') (authorities db)"

definition put_user :: "identity_user \<Rightarrow> auth_db \<Rightarrow> auth_db" where
  "put_user u db = db\<lparr>users := dict_set (u_id u) u (users db)\<rparr>"

definition put_session :: "auth_session \<Rightarrow> auth_db \<Rightarrow> auth_db" where
  "put_session s db = db\<lparr>sessions := dict_set (as_id s) s (sessions db)\<rparr>"

definition put_token :: "refresh_token \<Rightarrow> auth_db \<Rightarrow> auth_db" where
  "put_token t db = db\<lparr>tokens := dict_set (rt_id t) t (tokens db)\<rparr>"

definition new_token :: "string \<Rightarrow> string \<Rightarrow> string option \<Rightarrow> string \<Rightarrow> seconds \<Rightarrow> seconds \<Rightarrow> refresh_token" where
  "new_token tid sid parent h issued expires =
     \<lparr>rt_id = tid, rt_session = sid, parent_token_id = parent, token_hash = h, issued_at = issued,
      rt_expires_at = expires, consumed_at = None, rt_revoked_at = None, reuse_detected_at = None\<rparr>"

definition add_session ::
    "string \<Rightarrow> string \<Rightarrow> string option \<Rightarrow> string \<Rightarrow> string \<Rightarrow> string \<Rightarrow> seconds \<Rightarrow> seconds \<Rightarrow> seconds option
      \<Rightarrow> auth_db \<Rightarrow> auth_db" where
  "add_session sid uid org fam tid h now expires mfa db =
     put_token (new_token tid sid None h now expires)
       (put_session \<lparr>as_id = sid, as_user = uid, as_organization = org, refresh_family_id = fam,
          authenticated_at = now, mfa_satisfied_at = mfa, last_seen_at = Some now, as_expires_at = expires,
          as_revoked_at = None, revoke_reason = None\<rparr> db)"

text \<open>The join of a token with its session and the user of the session.\<close>

definition refresh_principals ::
    "string \<Rightarrow> auth_db \<Rightarrow> (refresh_token \<times> auth_session \<times> identity_user) option" where
  "refresh_principals h db =
     (case List.find (\<lambda>t. token_hash t = h) (map snd (tokens db)) of
        None \<Rightarrow> None
      | Some t \<Rightarrow>
     case dict_get (sessions db) (rt_session t) of
        None \<Rightarrow> None
      | Some s \<Rightarrow>
     case dict_get (users db) (as_user s) of None \<Rightarrow> None | Some u \<Rightarrow> Some (t, s, u))"

definition rotate_refresh_token ::
    "refresh_token \<Rightarrow> string \<Rightarrow> string \<Rightarrow> seconds \<Rightarrow> seconds \<Rightarrow> auth_db \<Rightarrow> auth_db" where
  "rotate_refresh_token prev tid h now expires db =
     put_token (new_token tid (rt_session prev) (Some (rt_id prev)) h now expires)
       (put_token (prev\<lparr>consumed_at := Some now\<rparr>) db)"

definition revoke_tokens :: "(refresh_token \<Rightarrow> bool) \<Rightarrow> seconds \<Rightarrow> auth_db \<Rightarrow> auth_db" where
  "revoke_tokens P now db =
     db\<lparr>tokens := dict_map (\<lambda>t. if P t \<and> rt_revoked_at t = None then t\<lparr>rt_revoked_at := Some now\<rparr> else t) (tokens db)\<rparr>"

definition revoke_family ::
    "auth_session \<Rightarrow> seconds \<Rightarrow> string \<Rightarrow> refresh_token option \<Rightarrow> auth_db \<Rightarrow> auth_db" where
  "revoke_family s now reason reuse db =
     revoke_tokens (\<lambda>t. rt_session t = as_id s) now
       (let db1 = put_session (s\<lparr>as_revoked_at := Some now, revoke_reason := Some reason\<rparr>) db
        in case reuse of None \<Rightarrow> db1 | Some t \<Rightarrow> put_token (t\<lparr>reuse_detected_at := Some now\<rparr>) db1)"

definition revoke_sessions :: "(auth_session \<Rightarrow> bool) \<Rightarrow> seconds \<Rightarrow> string \<Rightarrow> auth_db \<Rightarrow> auth_db" where
  "revoke_sessions P now reason db =
     db\<lparr>sessions := dict_map (\<lambda>s. if P s \<and> as_revoked_at s = None
          then s\<lparr>as_revoked_at := Some now, revoke_reason := Some reason\<rparr> else s) (sessions db)\<rparr>"

definition revoke_all_for_user :: "string \<Rightarrow> seconds \<Rightarrow> string \<Rightarrow> auth_db \<Rightarrow> auth_db" where
  "revoke_all_for_user uid now reason db =
     revoke_sessions (\<lambda>s. as_user s = uid) now reason
       (revoke_tokens (\<lambda>t. \<exists>s \<in> set (map snd (sessions db)). as_id s = rt_session t \<and> as_user s = uid) now db)"

record session_view =
  v_id :: string
  v_authenticated_at :: seconds
  v_last_seen_at :: "seconds option"
  v_expires_at :: seconds

definition sessions_for_user :: "string \<Rightarrow> auth_db \<Rightarrow> session_view list" where
  "sessions_for_user uid db = map (\<lambda>s. \<lparr>v_id = as_id s, v_authenticated_at = authenticated_at s,
       v_last_seen_at = last_seen_at s, v_expires_at = as_expires_at s\<rparr>)
     (sort_key (\<lambda>s. - authenticated_at s)
        (filter (\<lambda>s. as_user s = uid \<and> as_revoked_at s = None) (map snd (sessions db))))"

definition owned_session :: "string \<Rightarrow> string \<Rightarrow> auth_db \<Rightarrow> auth_session option" where
  "owned_session sid uid db =
     (case dict_get (sessions db) sid of None \<Rightarrow> None | Some s \<Rightarrow> if as_user s = uid then Some s else None)"

end
