(* ===== verification/Session_Service.thy ===== *)
theory Session_Service
  imports Auth_Store
begin

section \<open>The session service (auth/session\_service.py)\<close>

text \<open>
  Login with password and lockout, rotation of refresh tokens with detection of reuse, logout and
  revocation. Not in the repository, and therefore parameters: the argon2 library (what it answers
  for a hash and a password, and the hash it makes) and the digest of a token under the secret
  pepper. The normalization of an email address (Unicode and IDNA) is a parameter as well. An
  access token is the list of claims it is created with; signing is not modelled, nor is the CSRF token,
  a random text that goes to the client only.
\<close>

record session_config =
  access_token_seconds :: int
  refresh_token_ttl :: seconds
  failed_login_limit :: int
  lockout_duration :: seconds

definition default_session_config :: session_config where
  "default_session_config = \<lparr>access_token_seconds = 15 * 60, refresh_token_ttl = 30 * 86400,
     failed_login_limit = 5, lockout_duration = 15 * 60\<rparr>"

definition session_config_error :: "session_config \<Rightarrow> auth_error option" where
  "session_config_error c =
     (if access_token_seconds c < 60 \<or> 60 * 60 < access_token_seconds c
      then Some (AuthValueError ''Access-token lifetime is outside its safe range.'')
      else if refresh_token_ttl c < 3600 \<or> 90 * 86400 < refresh_token_ttl c
      then Some (AuthValueError ''Refresh-token lifetime is outside its safe range.'')
      else if failed_login_limit c < 2 \<or> 20 < failed_login_limit c
      then Some (AuthValueError ''Failed-login limit is outside its safe range.'')
      else if lockout_duration c < 60 \<or> 86400 < lockout_duration c
      then Some (AuthValueError ''Login lockout duration is outside its safe range.'')
      else None)"

text \<open>The services the login relies on.\<close>

record auth_services =
  argon_verify :: "string \<Rightarrow> string \<Rightarrow> bool"
  argon_needs_rehash :: "string \<Rightarrow> bool"
  argon_hash :: "string \<Rightarrow> string"
  hmac_digest :: "string \<Rightarrow> string \<Rightarrow> string"
  normalize_email :: "string \<Rightarrow> string option"

record password_verification =
  pv_valid :: bool
  pv_needs_rehash :: bool

definition verify_password :: "auth_services \<Rightarrow> string \<Rightarrow> string \<Rightarrow> password_verification" where
  "verify_password sv h pw =
     (if argon_verify sv h pw then \<lparr>pv_valid = True, pv_needs_rehash = argon_needs_rehash sv h\<rparr>
      else \<lparr>pv_valid = False, pv_needs_rehash = False\<rparr>)"

definition hash_password :: "auth_services \<Rightarrow> string \<Rightarrow> auth_error + string" where
  "hash_password sv pw =
     (if pw = [] then Inl (AuthValueError ''password must be a non-empty string.'')
      else if take 10 (argon_hash sv pw) \<noteq> ''$argon2id$''
      then Inl (AuthRuntimeError ''Password backend did not produce Argon2id.'')
      else Inr (argon_hash sv pw))"

text \<open>\<open>TokenDigester.digest\<close> and the generation of a token from random text.\<close>

definition digest :: "auth_services \<Rightarrow> string \<Rightarrow> string \<Rightarrow> auth_error + string" where
  "digest sv raw purpose =
     (if raw = [] then Inl (AuthValueError ''raw_value must be a non-empty string.'')
      else if blank purpose then Inl (AuthValueError ''purpose must be a non-empty string.'')
      else Inr (hmac_digest sv purpose raw))"

definition refresh_purpose :: string where
  "refresh_purpose = ''refresh_token''"

subsection \<open>Access tokens\<close>

record access_token =
  at_subject :: string
  at_lifetime :: int
  at_client :: string
  at_scopes :: "string list"
  at_session :: string
  at_organization :: "string option"
  at_authorities :: "string list"

definition py_trunc :: "seconds \<Rightarrow> int" where
  "py_trunc x = (if 0 \<le> x then \<lfloor>x\<rfloor> else \<lceil>x\<rceil>)"

definition issue_access_token ::
    "session_config \<Rightarrow> string \<Rightarrow> string \<Rightarrow> string option \<Rightarrow> seconds \<Rightarrow> bool \<Rightarrow> string list \<Rightarrow> seconds
      \<Rightarrow> auth_error + access_token \<times> int" where
  "issue_access_token c uid sid org expires_at mfa auths now =
     (let remaining = py_trunc (expires_at - now);
          expires_in = min (access_token_seconds c) remaining
      in if expires_in < 1 then Inl InvalidSessionCredentials
         else Inr (\<lparr>at_subject = uid, at_lifetime = expires_in,
             at_client = (case org of None \<Rightarrow> uid | Some g \<Rightarrow> g),
             at_scopes = (if mfa then [''auth:mfa''] else [''evaluation'']), at_session = sid,
             at_organization = org, at_authorities = auths\<rparr>, expires_in))"

record issued_session =
  access_token :: access_token
  access_expires_in :: int
  refresh_token_raw :: string
  refresh_expires_in :: int
  issued_session_id :: string
  mfa_required :: bool

subsection \<open>Login\<close>

text \<open>What a call draws: clock readings one after the other, identifiers and the random token.\<close>

record auth_env =
  clock :: "nat \<Rightarrow> seconds"
  new_session :: string
  new_family :: string
  new_token_id :: string
  new_raw :: string

definition is_locked :: "identity_user \<Rightarrow> seconds \<Rightarrow> bool" where
  "is_locked u now = (case locked_until u of None \<Rightarrow> False | Some t \<Rightarrow> now < t)"

definition count_failed_login :: "session_config \<Rightarrow> seconds \<Rightarrow> identity_user \<Rightarrow> identity_user" where
  "count_failed_login c now u =
     (let u1 = u\<lparr>failed_login_count := failed_login_count u + 1\<rparr>
      in if failed_login_limit c \<le> failed_login_count u1
         then u1\<lparr>locked_until := Some (now + lockout_duration c)\<rparr> else u1)"

definition login ::
    "auth_services \<Rightarrow> session_config \<Rightarrow> string \<Rightarrow> string \<Rightarrow> auth_env \<Rightarrow> issued_session auth_op" where
  "login sv c email password env db =
     (case normalize_email sv email of
        None \<Rightarrow> (Inl InvalidSessionCredentials, db)
      | Some em \<Rightarrow>
     let now = clock env 0 in
     case user_for_login em db of
        None \<Rightarrow> (Inl InvalidSessionCredentials, db)
      | Some u \<Rightarrow>
     let v = verify_password sv (password_hash u) password;
         locked = is_locked u now;
         eligible = (u_status u = ''active'' \<and> \<not> locked)
     in if \<not> pv_valid v \<or> \<not> eligible
        then (Inl InvalidSessionCredentials,
          if \<not> pv_valid v \<and> \<not> locked then put_user (count_failed_login c now u) db else db)
        else
     case (if pv_needs_rehash v then hash_password sv password else Inr (password_hash u)) of
        Inl e \<Rightarrow> (Inl e, db)
      | Inr h \<Rightarrow>
     let u1 = (if pv_needs_rehash v then u\<lparr>password_hash := h, password_changed_at := Some now\<rparr> else u);
         u2 = u1\<lparr>failed_login_count := 0, locked_until := None\<rparr>;
         org = active_organization_id (u_id u) db;
         auths = active_platform_authorities (u_id u) db;
         mfa = requires_mfa (u_id u) db
     in case digest sv (new_raw env) refresh_purpose of
          Inl e \<Rightarrow> (Inl e, db)
        | Inr th \<Rightarrow>
     let expires = now + refresh_token_ttl c;
         db' = add_session (new_session env) (u_id u) org (new_family env) (new_token_id env) th now expires None (put_user u2 db)
     in (case issue_access_token c (u_id u) (new_session env) org expires mfa auths (clock env 1) of
           Inl e \<Rightarrow> Inl e
         | Inr (tok, ein) \<Rightarrow> Inr \<lparr>access_token = tok, access_expires_in = ein, refresh_token_raw = new_raw env,
             refresh_expires_in = py_trunc (refresh_token_ttl c), issued_session_id = new_session env,
             mfa_required = mfa\<rparr>, db'))"

subsection \<open>Refresh\<close>

definition refresh ::
    "auth_services \<Rightarrow> session_config \<Rightarrow> string \<Rightarrow> auth_env \<Rightarrow> issued_session auth_op" where
  "refresh sv c raw env db =
     (case digest sv raw refresh_purpose of
        Inl e \<Rightarrow> (Inl e, db)
      | Inr h \<Rightarrow>
     let now = clock env 0 in
     case refresh_principals h db of
        None \<Rightarrow> (Inl InvalidSessionCredentials, db)
      | Some (prev, s, u) \<Rightarrow>
          if consumed_at prev \<noteq> None
          then (Inl RefreshTokenReuse, revoke_family s now ''refresh_token_reuse'' (Some prev) db)
          else if rt_revoked_at prev \<noteq> None \<or> rt_expires_at prev \<le> now \<or> as_revoked_at s \<noteq> None \<or>
               as_expires_at s \<le> now \<or> u_status u \<noteq> ''active''
          then (Inl InvalidSessionCredentials,
                if as_revoked_at s = None then revoke_family s now ''refresh_credentials_invalid'' None db else db)
          else
     case digest sv (new_raw env) refresh_purpose of
        Inl e \<Rightarrow> (Inl e, db)
      | Inr th \<Rightarrow>
     let db' = put_session (s\<lparr>last_seen_at := Some now\<rparr>)
                 (rotate_refresh_token prev (new_token_id env) th now (as_expires_at s) db);
         auths = active_platform_authorities (u_id u) db;
         mfa = (requires_mfa (u_id u) db \<and> mfa_satisfied_at s = None)
     in (case issue_access_token c (u_id u) (as_id s) (as_organization s) (as_expires_at s) mfa auths (clock env 1) of
           Inl e \<Rightarrow> Inl e
         | Inr (tok, ein) \<Rightarrow> Inr \<lparr>access_token = tok, access_expires_in = ein, refresh_token_raw = new_raw env,
             refresh_expires_in = max 1 (py_trunc (as_expires_at s - clock env 2)),
             issued_session_id = as_id s, mfa_required = mfa\<rparr>, db'))"

subsection \<open>Logout and revocation\<close>

definition logout :: "auth_services \<Rightarrow> string \<Rightarrow> seconds \<Rightarrow> unit auth_op" where
  "logout sv raw now db =
     (case digest sv raw refresh_purpose of
        Inl e \<Rightarrow> (Inl e, db)
      | Inr h \<Rightarrow>
     case refresh_principals h db of
        None \<Rightarrow> (Inr (), db)
      | Some (_, s, _) \<Rightarrow> (Inr (), revoke_family s now ''user_logout'' None db))"

definition logout_all :: "auth_services \<Rightarrow> string \<Rightarrow> seconds \<Rightarrow> unit auth_op" where
  "logout_all sv raw now db =
     (case digest sv raw refresh_purpose of
        Inl e \<Rightarrow> (Inl e, db)
      | Inr h \<Rightarrow>
     case refresh_principals h db of
        None \<Rightarrow> (Inr (), db)
      | Some (_, _, u) \<Rightarrow> (Inr (), revoke_all_for_user (u_id u) now ''user_logout_all'' db))"

definition list_sessions :: "string \<Rightarrow> seconds \<Rightarrow> auth_db \<Rightarrow> session_view list" where
  "list_sessions uid now db = filter (\<lambda>v. now < v_expires_at v) (sessions_for_user uid db)"

definition revoke_session :: "string \<Rightarrow> string \<Rightarrow> seconds \<Rightarrow> unit auth_op" where
  "revoke_session uid sid now db =
     (case owned_session sid uid db of
        None \<Rightarrow> (Inr (), db)
      | Some s \<Rightarrow>
          (Inr (), if as_revoked_at s = None then revoke_family s now ''user_session_revoked'' None db else db))"

end
