(* ===== verification/Mfa_Crypto.thy ===== *)
theory Mfa_Crypto
  imports Session_Service "HOL-Library.Word"
begin

section \<open>Multi-factor authentication: one-time passwords, recovery codes and the secret cipher\<close>

text \<open>
  \<open>auth/totp.py\<close>, \<open>auth/mfa_crypto.py\<close> and the recovery codes of \<open>auth/token_material.py\<close>. Byte
  strings are strings (a character is a byte). HMAC-SHA1 and AES-GCM come from cryptographic
  libraries and are parameters; the truncation of the MAC to six digits is modelled at the width of
  the code.
\<close>

unbundle bit_operations_syntax

subsection \<open>Time-based one-time passwords\<close>

fun dec_text :: "nat \<Rightarrow> string" where
  "dec_text n = (if n < 10 then [char_of (48 + n)] else dec_text (n div 10) @ [char_of (48 + n mod 10)])"

declare dec_text.simps [simp del]

definition zfill :: "nat \<Rightarrow> string \<Rightarrow> string" where
  "zfill n s = replicate (n - length s) (CHR ''0'') @ s"

text \<open>\<open>struct.pack(">Q", step)\<close> and \<open>struct.unpack(">I", four bytes)\<close>.\<close>

definition pack_u64 :: "int \<Rightarrow> auth_error + string" where
  "pack_u64 n = (if n < 0 \<or> 2 ^ 64 \<le> n then Inl (AuthValueError ''struct.error'')
     else Inr (map (\<lambda>i. char_of (nat n div 256 ^ (7 - i) mod 256)) [0..<8]))"

definition unpack_u32 :: "string \<Rightarrow> auth_error + 32 word" where
  "unpack_u32 bs = (if length bs \<noteq> 4 then Inl (AuthValueError ''struct.error'')
     else Inr (foldl (\<lambda>w b. push_bit 8 w OR of_nat (of_char b)) 0 bs))"

definition totp_secret_bytes :: nat where "totp_secret_bytes = 20"
definition totp_digits :: nat where "totp_digits = 6"
definition totp_period_seconds :: seconds where "totp_period_seconds = 30"

definition totp_code_for_step :: "(string \<Rightarrow> string \<Rightarrow> string) \<Rightarrow> string \<Rightarrow> int \<Rightarrow> auth_error + string" where
  "totp_code_for_step hmac_sha1 secret step =
     (if step < 0 then Inl (AuthValueError ''TOTP step cannot be negative.'')
      else if length secret < totp_secret_bytes
      then Inl (AuthValueError ''TOTP secret must contain at least 20 bytes.'')
      else
      case pack_u64 step of
        Inl e \<Rightarrow> Inl e
      | Inr msg \<Rightarrow>
      let mac = hmac_sha1 secret msg;
          offset = unat ((of_nat (of_char (last mac)) :: 8 word) AND 0x0F)
      in if mac = [] then Inl (AuthRuntimeError ''IndexError'')
         else case unpack_u32 (take 4 (drop offset mac)) of
           Inl e \<Rightarrow> Inl e
         | Inr w \<Rightarrow>
             let binary = w AND 0x7FFFFFFF
             in Inr (zfill totp_digits (dec_text (unat binary mod 10 ^ totp_digits))))"

record totp_verification =
  accepted :: bool
  matched_step :: "int option"
  totp_reason :: string

fun match_steps ::
    "(string \<Rightarrow> string \<Rightarrow> string) \<Rightarrow> string \<Rightarrow> string \<Rightarrow> int option \<Rightarrow> int list \<Rightarrow> auth_error + totp_verification" where
  "match_steps mac secret code last_used [] = Inr \<lparr>accepted = False, matched_step = None, totp_reason = ''invalid_code''\<rparr>"
| "match_steps mac secret code last_used (step # steps) =
     (if step < 0 then match_steps mac secret code last_used steps
      else case totp_code_for_step mac secret step of
          Inl e \<Rightarrow> Inl e
        | Inr candidate \<Rightarrow>
            if candidate = code
            then (if (case last_used of None \<Rightarrow> False | Some l \<Rightarrow> step \<le> l)
                  then Inr \<lparr>accepted = False, matched_step = Some step, totp_reason = ''replayed_step''\<rparr>
                  else Inr \<lparr>accepted = True, matched_step = Some step, totp_reason = ''accepted''\<rparr>)
            else match_steps mac secret code last_used steps)"

definition py_isdigit :: "char \<Rightarrow> bool" where
  "py_isdigit ch = (48 \<le> (of_char ch :: nat) \<and> (of_char ch :: nat) \<le> 57)"

definition verify_totp ::
    "(string \<Rightarrow> string \<Rightarrow> string) \<Rightarrow> string \<Rightarrow> string \<Rightarrow> seconds \<Rightarrow> int \<Rightarrow> int option \<Rightarrow> auth_error + totp_verification" where
  "verify_totp mac secret code at_time window last_used =
     (if window < 0 \<or> 2 < window then Inl (AuthValueError ''allowed_window must be between 0 and 2.'')
      else if length code \<noteq> totp_digits \<or> \<not> list_all py_isdigit code
      then Inr \<lparr>accepted = False, matched_step = None, totp_reason = ''invalid_format''\<rparr>
      else if at_time < 0 then Inl (AuthValueError ''at_time cannot be negative.'')
      else let current = \<lfloor>at_time / totp_period_seconds\<rfloor>
           in match_steps mac secret code last_used (map (\<lambda>i. current + i) [- window..window]))"

subsection \<open>The cipher of the secrets\<close>

record secret_cipher =
  current_key_version :: string
  cipher_keys :: "(string, string) dict"

record aes_gcm =
  gcm_encrypt :: "string \<Rightarrow> string \<Rightarrow> string \<Rightarrow> string \<Rightarrow> string"
  gcm_decrypt :: "string \<Rightarrow> string \<Rightarrow> string \<Rightarrow> string \<Rightarrow> string option"

definition nonce_bytes :: nat where "nonce_bytes = 12"

definition new_cipher :: "string \<Rightarrow> (string, string) dict \<Rightarrow> auth_error + secret_cipher" where
  "new_cipher v keys =
     (if blank v then Inl (AuthValueError ''current_key_version must not be empty.'')
      else if dict_get keys v = None then Inl (AuthValueError ''The current MFA key version is unavailable.'')
      else if list_ex (\<lambda>(n, k). blank n \<or> length k \<noteq> 32) keys
      then Inl (AuthValueError ''Every MFA encryption key must be a named 32-byte key.'')
      else Inr \<lparr>current_key_version = v, cipher_keys = keys\<rparr>)"

definition cipher_aad :: "string \<Rightarrow> string \<Rightarrow> auth_error + string" where
  "cipher_aad uid fid =
     (if blank uid \<or> blank fid
      then Inl (AuthValueError ''user_id and factor_id are required for MFA encryption.'')
      else Inr (''pmk-mfa-v1:'' @ uid @ '':'' @ fid))"

definition encrypt_secret ::
    "aes_gcm \<Rightarrow> secret_cipher \<Rightarrow> string \<Rightarrow> string \<Rightarrow> string \<Rightarrow> string \<Rightarrow> auth_error + string \<times> string" where
  "encrypt_secret g c nonce secret uid fid =
     (if length secret < 20
      then Inl (AuthValueError ''TOTP secret material must contain at least 20 bytes.'')
      else case cipher_aad uid fid of
          Inl e \<Rightarrow> Inl e
        | Inr aad \<Rightarrow>
        case dict_get (cipher_keys c) (current_key_version c) of
          None \<Rightarrow> Inl (AuthRuntimeError ''KeyError'')
        | Some k \<Rightarrow> Inr (nonce @ gcm_encrypt g k nonce secret aad, current_key_version c))"

definition decrypt_secret ::
    "aes_gcm \<Rightarrow> secret_cipher \<Rightarrow> string \<times> string \<Rightarrow> string \<Rightarrow> string \<Rightarrow> auth_error + string" where
  "decrypt_secret g c enc uid fid =
     (case dict_get (cipher_keys c) (snd enc) of
        None \<Rightarrow> Inl (AuthValueError ''MFA encryption key version is unavailable.'')
      | Some k \<Rightarrow>
          if length (fst enc) \<le> nonce_bytes then Inl (AuthValueError ''MFA ciphertext is truncated.'')
          else case cipher_aad uid fid of
              Inl e \<Rightarrow> Inl e
            | Inr aad \<Rightarrow>
            case gcm_decrypt g k (take nonce_bytes (fst enc)) (drop nonce_bytes (fst enc)) aad of
              None \<Rightarrow> Inl (AuthValueError ''MFA ciphertext authentication failed.'')
            | Some secret \<Rightarrow> Inr secret)"

definition rotate_secret ::
    "aes_gcm \<Rightarrow> secret_cipher \<Rightarrow> string \<Rightarrow> string \<times> string \<Rightarrow> string \<Rightarrow> string \<Rightarrow> auth_error + string \<times> string" where
  "rotate_secret g c nonce enc uid fid =
     (case decrypt_secret g c enc uid fid of Inl e \<Rightarrow> Inl e | Inr secret \<Rightarrow> encrypt_secret g c nonce secret uid fid)"

subsection \<open>Base 32, recovery codes and the provisioning address\<close>

text \<open>\<open>base64.b32encode(bs).decode().rstrip("=")\<close>: the bits of the bytes in groups of five, the last
  group filled up with zeros.\<close>

definition byte_bits :: "char \<Rightarrow> bool list" where
  "byte_bits ch = map (\<lambda>i. bit (of_char ch :: nat) (7 - i)) [0..<8]"

definition bits_value :: "bool list \<Rightarrow> nat" where
  "bits_value = foldl (\<lambda>n b. 2 * n + of_bool b) 0"

definition b32_alphabet :: string where
  "b32_alphabet = ''ABCDEFGHIJKLMNOPQRSTUVWXYZ234567''"

fun b32_groups :: "bool list \<Rightarrow> string" where
  "b32_groups [] = []"
| "b32_groups (b # bs) =
     b32_alphabet ! bits_value (take 5 ((b # bs) @ replicate 4 False)) # b32_groups (drop 4 bs)"

definition b32_text :: "string \<Rightarrow> string" where
  "b32_text bs = b32_groups (concat (map byte_bits bs))"

definition encode_totp_secret :: "string \<Rightarrow> auth_error + string" where
  "encode_totp_secret secret =
     (if length secret < totp_secret_bytes then Inl (AuthValueError ''TOTP secret must contain at least 20 bytes.'')
      else Inr (b32_text secret))"

text \<open>\<open>urllib.parse.quote(s, safe="")\<close> of text with code points below 256.\<close>

definition hex_digit :: "nat \<Rightarrow> char" where
  "hex_digit n = ''0123456789ABCDEF'' ! n"

definition percent :: "nat \<Rightarrow> string" where
  "percent n = [CHR ''%'', hex_digit (n div 16), hex_digit (n mod 16)]"

definition quote_char :: "char \<Rightarrow> string" where
  "quote_char ch = (let n = (of_char ch :: nat) in
     if (48 \<le> n \<and> n \<le> 57) \<or> (65 \<le> n \<and> n \<le> 90) \<or> (97 \<le> n \<and> n \<le> 122) \<or> ch \<in> set ''_.-~'' then [ch]
     else if n < 128 then percent n
     else percent (192 + n div 64) @ percent (128 + n mod 64))"

definition url_quote :: "string \<Rightarrow> string" where
  "url_quote s = concat (map quote_char s)"

definition build_totp_provisioning_uri :: "string \<Rightarrow> string \<Rightarrow> string \<Rightarrow> auth_error + string" where
  "build_totp_provisioning_uri secret account issuer =
     (if blank account \<or> blank issuer then Inl (AuthValueError ''account_name and issuer are required.'')
      else case encode_totp_secret secret of
          Inl e \<Rightarrow> Inl e
        | Inr text \<Rightarrow> Inr (''otpauth://totp/'' @ url_quote (issuer @ '':'' @ account) @ ''?secret='' @ text @
            ''&issuer='' @ url_quote issuer @ ''&algorithm=SHA1&digits=6&period=30''))"

definition recovery_code_text :: "string \<Rightarrow> string" where
  "recovery_code_text bs = (let c = b32_text bs in
     take 4 c @ ''-'' @ take 4 (drop 4 c) @ ''-'' @ take 4 (drop 8 c) @ ''-'' @ drop 12 c)"

definition recovery_purpose :: string where
  "recovery_purpose = ''mfa_recovery_code''"

text \<open>\<open>raw_code.strip().upper()\<close>; the two code points below 256 whose capital is above 255 stay as they are.\<close>

definition upper_char :: "char \<Rightarrow> string" where
  "upper_char ch = (let n = (of_char ch :: nat) in
     if (97 \<le> n \<and> n \<le> 122) \<or> (224 \<le> n \<and> n \<le> 254 \<and> n \<noteq> 247) then [char_of (n - 32)]
     else if n = 223 then ''SS'' else [ch])"

definition normalize_recovery_code :: "string \<Rightarrow> string" where
  "normalize_recovery_code raw = concat (map upper_char (py_strip raw))"

end
