(* ===== verification/Mfa_Service.thy ===== *)
theory Mfa_Service
  imports Mfa_Crypto
begin

section \<open>The MFA service (auth/mfa\_service.py, auth/mfa\_repository.py)\<close>

text \<open>
  Enrollment of a TOTP factor, its confirmation, verification of one-time passwords and recovery
  codes, the step-up gate, regeneration of the recovery codes and the removal of the factor. Each
  method is one transaction: where it raises, the tables are as before. The unique constraint on
  user, type and label of a factor and the one on the hash of a recovery code answer with an
  \<open>IntegrityError\<close>.
\<close>

record mfa_config =
  mfa_issuer :: string
  recovery_code_count :: nat
  step_up_ttl :: seconds

definition mfa_config_error :: "mfa_config \<Rightarrow> auth_error option" where
  "mfa_config_error c =
     (if blank (mfa_issuer c) \<or> recovery_code_count c < 6 \<or> 20 < recovery_code_count c
      then Some (AuthValueError ''Invalid MFA enrollment policy.'')
      else if step_up_ttl c < 60 \<or> 30 * 60 < step_up_ttl c
      then Some (AuthValueError ''Invalid MFA step-up lifetime.'')
      else None)"

text \<open>The authorities the service is built with: the MAC, the cipher with its keys, and the digester.\<close>

record mfa_authority =
  hmac_sha1 :: "string \<Rightarrow> string \<Rightarrow> string"
  aead :: aes_gcm
  mfa_cipher :: secret_cipher
  mfa_services :: auth_services

subsection \<open>The repository\<close>

definition factors_of :: "string \<Rightarrow> string \<Rightarrow> auth_db \<Rightarrow> mfa_factor list" where
  "factors_of uid st db = filter (\<lambda>f. f_user f = uid \<and> f_status f = st) (map snd (factors db))"

definition active_factor :: "string \<Rightarrow> auth_db \<Rightarrow> mfa_factor option" where
  "active_factor uid db = least_by (\<lambda>f. - f_created_at f) (factors_of uid ''active'' db)"

definition pending_factor :: "string \<Rightarrow> auth_db \<Rightarrow> mfa_factor option" where
  "pending_factor uid db = least_by (\<lambda>f. - f_created_at f) (factors_of uid ''pending'' db)"

definition is_required_by_role :: "string \<Rightarrow> auth_db \<Rightarrow> bool" where
  "is_required_by_role uid db = privileged_member uid db"

definition put_factor :: "mfa_factor \<Rightarrow> auth_db \<Rightarrow> auth_db" where
  "put_factor f db = db\<lparr>factors := dict_set (f_id f) f (factors db)\<rparr>"

definition disable_pending_factors :: "string \<Rightarrow> seconds \<Rightarrow> auth_db \<Rightarrow> auth_db" where
  "disable_pending_factors uid now db =
     db\<lparr>factors := dict_map (\<lambda>f. if f_user f = uid \<and> f_status f = ''pending''
          then f\<lparr>f_status := ''disabled'', disabled_at := Some now\<rparr> else f) (factors db)\<rparr>"

definition add_pending_factor ::
    "string \<Rightarrow> string \<Rightarrow> string \<Rightarrow> string \<times> string \<Rightarrow> seconds \<Rightarrow> auth_db \<Rightarrow> auth_error + auth_db" where
  "add_pending_factor fid uid label enc created db =
     (if list_ex (\<lambda>f. f_user f = uid \<and> f_label f = label) (map snd (factors db)) then Inl IntegrityError
      else Inr (put_factor \<lparr>f_id = fid, f_user = uid, f_label = label, f_status = ''pending'',
             f_ciphertext = fst enc, f_key_version = snd enc, verified_at = None, last_used_step = None,
             disabled_at = None, f_created_at = created\<rparr> db))"

definition replace_recovery_codes :: "string \<Rightarrow> string list \<Rightarrow> auth_db \<Rightarrow> auth_error + auth_db" where
  "replace_recovery_codes fid hashes db =
     (let kept = filter (\<lambda>c. c_factor c \<noteq> fid) (codes db)
      in if distinct hashes \<and> list_all (\<lambda>c. code_hash c \<notin> set hashes) kept
         then Inr (db\<lparr>codes := kept @ map (\<lambda>h. \<lparr>c_factor = fid, code_hash = h, used_at = None\<rparr>) hashes\<rparr>)
         else Inl IntegrityError)"

text \<open>Account recovery removes every factor of a user with its codes (\<open>auth/account_recovery_repository.py\<close>).\<close>

definition disable_mfa_factors :: "string \<Rightarrow> seconds \<Rightarrow> auth_db \<Rightarrow> auth_db" where
  "disable_mfa_factors uid now db =
     db\<lparr>factors := dict_map (\<lambda>f. if f_user f = uid \<and> (f_status f = ''pending'' \<or> f_status f = ''active'')
          then f\<lparr>f_status := ''disabled'', disabled_at := Some now\<rparr> else f) (factors db)\<rparr>"

definition delete_mfa_recovery_codes :: "string \<Rightarrow> auth_db \<Rightarrow> auth_db" where
  "delete_mfa_recovery_codes uid db =
     db\<lparr>codes := filter (\<lambda>c. \<not> list_ex (\<lambda>f. f_id f = c_factor c \<and> f_user f = uid) (map snd (factors db))) (codes db)\<rparr>"

definition unused_recovery_code :: "string \<Rightarrow> string \<Rightarrow> recovery_code \<Rightarrow> bool" where
  "unused_recovery_code fid h c \<longleftrightarrow> c_factor c = fid \<and> code_hash c = h \<and> used_at c = None"

definition recovery_codes_remaining :: "string \<Rightarrow> auth_db \<Rightarrow> nat" where
  "recovery_codes_remaining fid db = length (filter (\<lambda>c. c_factor c = fid \<and> used_at c = None) (codes db))"

definition revoke_other_sessions :: "string \<Rightarrow> string \<Rightarrow> seconds \<Rightarrow> string \<Rightarrow> auth_db \<Rightarrow> auth_db" where
  "revoke_other_sessions uid current now reason db =
     revoke_sessions (\<lambda>s. as_user s = uid \<and> as_id s \<noteq> current) now reason db"

subsection \<open>Enrollment\<close>

record mfa_enrollment =
  enrollment_secret :: string
  provisioning_uri :: string

text \<open>
  \<open>enroll\<close> first looks for an active factor. The query locks the rows it finds, but there is no row to
  lock when there is none, so the rest is a definition of its own: another transaction may commit in
  between (\<open>enroll_race\<close> in \<open>Mfa_Runs\<close>).
\<close>

definition enroll_unchecked ::
    "mfa_authority \<Rightarrow> mfa_config \<Rightarrow> string \<Rightarrow> string \<Rightarrow> string \<Rightarrow> string \<Rightarrow> string \<Rightarrow> seconds \<Rightarrow> seconds
      \<Rightarrow> mfa_enrollment auth_op" where
  "enroll_unchecked a c uid label fid secret nonce now created db =
     (case map_option email_normalized (dict_get (users db) uid) of
        None \<Rightarrow> (Inl MfaAuthorityUnavailable, db)
      | Some account \<Rightarrow>
     if account = [] then (Inl MfaAuthorityUnavailable, db)
     else case encrypt_secret (aead a) (mfa_cipher a) nonce secret uid fid of
        Inl e \<Rightarrow> (Inl e, db)
      | Inr enc \<Rightarrow>
     case add_pending_factor fid uid label enc created (disable_pending_factors uid now db) of
        Inl e \<Rightarrow> (Inl e, db)
      | Inr db' \<Rightarrow>
     (case encode_totp_secret secret of
        Inl e \<Rightarrow> Inl e
      | Inr text \<Rightarrow>
          (case build_totp_provisioning_uri secret account (mfa_issuer c) of
             Inl e \<Rightarrow> Inl e
           | Inr uri \<Rightarrow> Inr \<lparr>enrollment_secret = text, provisioning_uri = uri\<rparr>), db'))"

definition enroll ::
    "mfa_authority \<Rightarrow> mfa_config \<Rightarrow> string \<Rightarrow> string \<Rightarrow> string \<Rightarrow> string \<Rightarrow> string \<Rightarrow> seconds \<Rightarrow> seconds
      \<Rightarrow> mfa_enrollment auth_op" where
  "enroll a c uid label fid secret nonce now created db =
     (if active_factor uid db \<noteq> None then (Inl (MfaConflict ''An active MFA factor already exists.''), db)
      else enroll_unchecked a c uid label fid secret nonce now created db)"

definition decrypt_factor :: "mfa_authority \<Rightarrow> mfa_factor \<Rightarrow> auth_error + string" where
  "decrypt_factor a f =
     (case decrypt_secret (aead a) (mfa_cipher a) (f_ciphertext f, f_key_version f) (f_user f) (f_id f) of
        Inl _ \<Rightarrow> Inl MfaAuthorityUnavailable
      | Inr secret \<Rightarrow> Inr secret)"

definition verify_totp_factor :: "mfa_authority \<Rightarrow> mfa_factor \<Rightarrow> string \<Rightarrow> seconds \<Rightarrow> auth_error + mfa_factor" where
  "verify_totp_factor a f code now =
     (case decrypt_factor a f of
        Inl e \<Rightarrow> Inl e
      | Inr secret \<Rightarrow>
     case verify_totp (hmac_sha1 a) secret code now 1 (last_used_step f) of
        Inl e \<Rightarrow> Inl e
      | Inr v \<Rightarrow>
          if \<not> accepted v \<or> matched_step v = None then Inl InvalidMfaCredential
          else Inr (f\<lparr>last_used_step := matched_step v\<rparr>))"

definition mark_session_satisfied :: "string \<Rightarrow> string \<Rightarrow> seconds \<Rightarrow> auth_db \<Rightarrow> auth_error + auth_db" where
  "mark_session_satisfied uid sid now db =
     (case owned_session sid uid db of
        None \<Rightarrow> Inl InvalidMfaCredential
      | Some s \<Rightarrow>
          if as_revoked_at s \<noteq> None \<or> as_expires_at s \<le> now then Inl InvalidMfaCredential
          else Inr (put_session (s\<lparr>mfa_satisfied_at := Some now\<rparr>) db))"

definition recent_step_up :: "mfa_config \<Rightarrow> auth_session option \<Rightarrow> seconds \<Rightarrow> bool" where
  "recent_step_up c s now =
     (case s of None \<Rightarrow> False
      | Some s \<Rightarrow> as_revoked_at s = None \<and> now < as_expires_at s \<and>
          (case mfa_satisfied_at s of None \<Rightarrow> False | Some t \<Rightarrow> now - step_up_ttl c \<le> t))"

text \<open>The recovery codes are drawn from random bytes, \<open>recovery_code_count\<close> times ten of them.\<close>

fun digest_all :: "auth_services \<Rightarrow> string list \<Rightarrow> auth_error + string list" where
  "digest_all sv [] = Inr []"
| "digest_all sv (r # rs) =
     (case digest sv r recovery_purpose of
        Inl e \<Rightarrow> Inl e
      | Inr h \<Rightarrow> (case digest_all sv rs of Inl e \<Rightarrow> Inl e | Inr hs \<Rightarrow> Inr (h # hs)))"

definition generate_recovery_codes ::
    "mfa_authority \<Rightarrow> mfa_config \<Rightarrow> (nat \<Rightarrow> string) \<Rightarrow> auth_error + string list \<times> string list" where
  "generate_recovery_codes a c draw =
     (let raws = map (\<lambda>i. recovery_code_text (draw i)) [0..<recovery_code_count c]
      in case digest_all (mfa_services a) raws of Inl e \<Rightarrow> Inl e | Inr hs \<Rightarrow> Inr (raws, hs))"

definition confirm_enrollment ::
    "mfa_authority \<Rightarrow> mfa_config \<Rightarrow> string \<Rightarrow> string \<Rightarrow> string \<Rightarrow> seconds \<Rightarrow> (nat \<Rightarrow> string) \<Rightarrow> string list auth_op" where
  "confirm_enrollment a c uid sid code now draw db =
     (case generate_recovery_codes a c draw of
        Inl e \<Rightarrow> (Inl e, db)
      | Inr (raws, hashes) \<Rightarrow>
     case pending_factor uid db of
        None \<Rightarrow> (Inl (MfaConflict ''No pending MFA enrollment exists.''), db)
      | Some f \<Rightarrow>
     case verify_totp_factor a f code now of
        Inl e \<Rightarrow> (Inl e, db)
      | Inr f1 \<Rightarrow>
     case replace_recovery_codes (f_id f) hashes
            (put_factor (f1\<lparr>f_status := ''active'', verified_at := Some now\<rparr>) db) of
        Inl e \<Rightarrow> (Inl e, db)
      | Inr db1 \<Rightarrow>
     case mark_session_satisfied uid sid now db1 of
        Inl e \<Rightarrow> (Inl e, db)
      | Inr db2 \<Rightarrow> (Inr raws, db2))"

subsection \<open>Verification, the step-up gate and removal\<close>

text \<open>The one-time password is checked when there is one, the recovery code otherwise.\<close>

definition check_credential ::
    "mfa_authority \<Rightarrow> mfa_factor \<Rightarrow> string option \<Rightarrow> string option \<Rightarrow> seconds \<Rightarrow> auth_db \<Rightarrow> auth_error + auth_db" where
  "check_credential a f code recovery now db =
     (case code of
        Some k \<Rightarrow> (case verify_totp_factor a f k now of Inl e \<Rightarrow> Inl e | Inr f1 \<Rightarrow> Inr (put_factor f1 db))
      | None \<Rightarrow>
     case recovery of
        None \<Rightarrow> Inl InvalidMfaCredential
      | Some r \<Rightarrow>
     case digest (mfa_services a) (normalize_recovery_code r) recovery_purpose of
        Inl e \<Rightarrow> Inl e
      | Inr h \<Rightarrow>
          if list_ex (unused_recovery_code (f_id f) h) (codes db)
          then Inr (db\<lparr>codes := map (\<lambda>x. if unused_recovery_code (f_id f) h x
                 then x\<lparr>used_at := Some now\<rparr> else x) (codes db)\<rparr>)
          else Inl InvalidMfaCredential)"

definition verify_mfa ::
    "mfa_authority \<Rightarrow> string \<Rightarrow> string \<Rightarrow> string option \<Rightarrow> string option \<Rightarrow> seconds \<Rightarrow> unit auth_op" where
  "verify_mfa a uid sid code recovery now db =
     (case active_factor uid db of
        None \<Rightarrow> (Inl InvalidMfaCredential, db)
      | Some f \<Rightarrow>
     case check_credential a f code recovery now db of
        Inl e \<Rightarrow> (Inl e, db)
      | Inr db1 \<Rightarrow>
     case mark_session_satisfied uid sid now db1 of
        Inl e \<Rightarrow> (Inl e, db)
      | Inr db2 \<Rightarrow> (Inr (), db2))"

definition require_recent_step_up :: "mfa_config \<Rightarrow> string \<Rightarrow> string \<Rightarrow> seconds \<Rightarrow> unit auth_op" where
  "require_recent_step_up c uid sid now db =
     (if recent_step_up c (owned_session sid uid db) now then (Inr (), db) else (Inl MfaStepUpRequired, db))"

definition regenerate_recovery_codes ::
    "mfa_authority \<Rightarrow> mfa_config \<Rightarrow> string \<Rightarrow> string \<Rightarrow> seconds \<Rightarrow> (nat \<Rightarrow> string) \<Rightarrow> string list auth_op" where
  "regenerate_recovery_codes a c uid sid now draw db =
     (case generate_recovery_codes a c draw of
        Inl e \<Rightarrow> (Inl e, db)
      | Inr (raws, hashes) \<Rightarrow>
     if \<not> recent_step_up c (owned_session sid uid db) now then (Inl MfaStepUpRequired, db)
     else case active_factor uid db of
        None \<Rightarrow> (Inl (MfaConflict ''No active MFA factor exists.''), db)
      | Some f \<Rightarrow>
     case replace_recovery_codes (f_id f) hashes db of
        Inl e \<Rightarrow> (Inl e, db)
      | Inr db' \<Rightarrow> (Inr raws, db'))"

definition disable_mfa :: "mfa_config \<Rightarrow> string \<Rightarrow> string \<Rightarrow> seconds \<Rightarrow> unit auth_op" where
  "disable_mfa c uid sid now db =
     (if \<not> recent_step_up c (owned_session sid uid db) now then (Inl MfaStepUpRequired, db)
      else if is_required_by_role uid db then (Inl (MfaConflict ''MFA is required for this identity role.''), db)
      else case active_factor uid db of
        None \<Rightarrow> (Inl (MfaConflict ''No active MFA factor exists.''), db)
      | Some f \<Rightarrow>
     case replace_recovery_codes (f_id f) []
            (put_factor (f\<lparr>f_status := ''disabled'', disabled_at := Some now\<rparr>) db) of
        Inl e \<Rightarrow> (Inl e, db)
      | Inr db1 \<Rightarrow> (Inr (), revoke_other_sessions uid sid now ''mfa_disabled'' db1))"

record mfa_status =
  mfa_enabled :: bool
  pending_enrollment :: bool
  codes_remaining :: nat
  step_up_satisfied :: bool

definition mfa_status_of :: "mfa_config \<Rightarrow> string \<Rightarrow> string \<Rightarrow> seconds \<Rightarrow> auth_db \<Rightarrow> mfa_status" where
  "mfa_status_of c uid sid now db =
     \<lparr>mfa_enabled = (factors_of uid ''active'' db \<noteq> []),
      pending_enrollment = (factors_of uid ''pending'' db \<noteq> []),
      codes_remaining = (case active_factor uid db of None \<Rightarrow> 0 | Some f \<Rightarrow> recovery_codes_remaining (f_id f) db),
      step_up_satisfied = (case owned_session sid uid db of None \<Rightarrow> False
        | Some s \<Rightarrow> (case mfa_satisfied_at s of None \<Rightarrow> False | Some t \<Rightarrow> now - step_up_ttl c \<le> t))\<rparr>"

end
