(* ===== verification/Auth_Invariant.thy ===== *)
theory Auth_Invariant
  imports Mfa_Service
begin

section \<open>The invariant of the identity tables\<close>

text \<open>
  What every method of the session service and of the MFA service keeps. The invariant links tokens
  to sessions and sessions to users, gives a session one unconsumed token and a user one factor that
  is not disabled; growth says what no method takes back: a consumed token stays consumed, a revoked
  session stays revoked, the last used TOTP step never falls.
\<close>

named_theorems auth_defs \<open>unfolding of the writes to the identity tables\<close>

lemmas auth_put [auth_defs] =
  put_user_def put_session_def put_token_def put_factor_def revoke_tokens_def revoke_sessions_def
  revoke_other_sessions_def disable_pending_factors_def

subsection \<open>The invariant\<close>

definition users_ok :: "(string, identity_user) dict \<Rightarrow> bool" where
  "users_ok us \<longleftrightarrow> dict_ok us \<and> (\<forall>k u. dict_get us k = Some u \<longrightarrow> u_id u = k) \<and>
     (\<forall>k k' u u'. dict_get us k = Some u \<longrightarrow> dict_get us k' = Some u' \<longrightarrow>
        email_normalized u = email_normalized u' \<longrightarrow> k = k')"

definition sessions_ok :: "(string, identity_user) dict \<Rightarrow> (string, auth_session) dict \<Rightarrow> bool" where
  "sessions_ok us ss \<longleftrightarrow> dict_ok ss \<and>
     (\<forall>k s. dict_get ss k = Some s \<longrightarrow> as_id s = k \<and> dict_get us (as_user s) \<noteq> None)"

definition tokens_ok :: "(string, auth_session) dict \<Rightarrow> (string, refresh_token) dict \<Rightarrow> bool" where
  "tokens_ok ss ts \<longleftrightarrow> dict_ok ts \<and>
     (\<forall>k t. dict_get ts k = Some t \<longrightarrow> rt_id t = k \<and>
        (\<exists>s. dict_get ss (rt_session t) = Some s \<and> as_expires_at s = rt_expires_at t))"

definition tokens_unique :: "(string, refresh_token) dict \<Rightarrow> bool" where
  "tokens_unique ts \<longleftrightarrow> (\<forall>k k' t t'. dict_get ts k = Some t \<longrightarrow> dict_get ts k' = Some t' \<longrightarrow>
     (token_hash t = token_hash t' \<or>
      rt_session t = rt_session t' \<and> consumed_at t = None \<and> consumed_at t' = None) \<longrightarrow> k = k')"

definition factors_ok :: "(string, mfa_factor) dict \<Rightarrow> bool" where
  "factors_ok fs \<longleftrightarrow> dict_ok fs \<and>
     (\<forall>k f. dict_get fs k = Some f \<longrightarrow> f_id f = k \<and> f_status f \<in> {''pending'', ''active'', ''disabled''}) \<and>
     (\<forall>k k' f f'. dict_get fs k = Some f \<longrightarrow> dict_get fs k' = Some f' \<longrightarrow>
        f_user f = f_user f' \<longrightarrow> f_status f \<noteq> ''disabled'' \<longrightarrow> f_status f' \<noteq> ''disabled'' \<longrightarrow> k = k')"

definition auth_inv :: "auth_db \<Rightarrow> bool" where
  "auth_inv db \<longleftrightarrow> users_ok (users db) \<and> sessions_ok (users db) (sessions db) \<and>
     tokens_ok (sessions db) (tokens db) \<and> tokens_unique (tokens db) \<and> factors_ok (factors db) \<and>
     distinct (map code_hash (codes db))"

subsection \<open>Growth\<close>

definition same_session :: "auth_session \<Rightarrow> auth_session \<Rightarrow> bool" where
  "same_session s s' \<longleftrightarrow> as_id s' = as_id s \<and> as_user s' = as_user s \<and> as_expires_at s' = as_expires_at s \<and>
     (as_revoked_at s \<noteq> None \<longrightarrow> as_revoked_at s' \<noteq> None)"

definition same_token :: "refresh_token \<Rightarrow> refresh_token \<Rightarrow> bool" where
  "same_token t t' \<longleftrightarrow> rt_id t' = rt_id t \<and> rt_session t' = rt_session t \<and> token_hash t' = token_hash t \<and>
     rt_expires_at t' = rt_expires_at t \<and> (consumed_at t \<noteq> None \<longrightarrow> consumed_at t' \<noteq> None) \<and>
     (rt_revoked_at t \<noteq> None \<longrightarrow> rt_revoked_at t' \<noteq> None)"

definition same_factor :: "mfa_factor \<Rightarrow> mfa_factor \<Rightarrow> bool" where
  "same_factor f f' \<longleftrightarrow> f_id f' = f_id f \<and> f_user f' = f_user f \<and> f_ciphertext f' = f_ciphertext f \<and>
     f_key_version f' = f_key_version f \<and> (f_status f = ''disabled'' \<longrightarrow> f_status f' = ''disabled'') \<and>
     (\<forall>l. last_used_step f = Some l \<longrightarrow> (\<exists>l' \<ge> l. last_used_step f' = Some l'))"

lemmas same_defs = same_session_def same_token_def same_factor_def

definition rows_grow :: "('v \<Rightarrow> 'v \<Rightarrow> bool) \<Rightarrow> (string, 'v) dict \<Rightarrow> (string, 'v) dict \<Rightarrow> bool" where
  "rows_grow R d d' \<longleftrightarrow> (\<forall>k v. dict_get d k = Some v \<longrightarrow> (\<exists>v'. dict_get d' k = Some v' \<and> R v v'))"

definition auth_grows :: "auth_db \<Rightarrow> auth_db \<Rightarrow> bool" where
  "auth_grows db db' \<longleftrightarrow> rows_grow same_session (sessions db) (sessions db') \<and>
     rows_grow same_token (tokens db) (tokens db') \<and> rows_grow same_factor (factors db) (factors db')"

lemma same_refl [simp]: "same_session s s" "same_token t t" "same_factor f f"
  by (auto simp: same_defs)

lemma same_trans:
  "same_session s1 s2 \<Longrightarrow> same_session s2 s3 \<Longrightarrow> same_session s1 s3"
  "same_token t1 t2 \<Longrightarrow> same_token t2 t3 \<Longrightarrow> same_token t1 t3"
  "same_factor f1 f2 \<Longrightarrow> same_factor f2 f3 \<Longrightarrow> same_factor f1 f3"
  by (simp_all add: same_defs) (meson order_trans)+

lemma rows_grow_refl [simp]: "(\<And>v. R v v) \<Longrightarrow> rows_grow R d d"
  by (simp add: rows_grow_def)

lemma rows_growD: "rows_grow R d d' \<Longrightarrow> dict_get d k = Some v \<Longrightarrow> \<exists>v'. dict_get d' k = Some v' \<and> R v v'"
  by (simp add: rows_grow_def)

lemma rows_grow_trans:
  assumes "rows_grow R d1 d2" and "rows_grow R d2 d3" and "\<And>u v w. R u v \<Longrightarrow> R v w \<Longrightarrow> R u w"
  shows "rows_grow R d1 d3"
  using assms unfolding rows_grow_def by metis

lemma rows_grow_set:
  "(\<And>w. dict_get d k = Some w \<Longrightarrow> R w v) \<Longrightarrow> (\<And>w. R w w) \<Longrightarrow> rows_grow R d (dict_set k v d)"
  by (auto simp: rows_grow_def dict_simps)

lemma rows_grow_map: "(\<And>v. R v (f v)) \<Longrightarrow> rows_grow R d (dict_map f d)"
  by (auto simp: rows_grow_def dict_simps)

lemma auth_grows_refl [simp]: "auth_grows db db"
  by (simp add: auth_grows_def)

lemma auth_grows_trans: "auth_grows d1 d2 \<Longrightarrow> auth_grows d2 d3 \<Longrightarrow> auth_grows d1 d3"
  unfolding auth_grows_def by (blast intro: rows_grow_trans same_trans)

subsection \<open>Writes that keep the invariant\<close>

text \<open>A table replaced row by row, without a new row.\<close>

definition rows_updated :: "('v \<Rightarrow> 'v \<Rightarrow> bool) \<Rightarrow> (string, 'v) dict \<Rightarrow> (string, 'v) dict \<Rightarrow> bool" where
  "rows_updated R d d' \<longleftrightarrow> dict_ok d' \<and> (\<forall>k. rel_option R (dict_get d k) (dict_get d' k))"

lemma rows_updated_grow: "rows_updated R d d' \<Longrightarrow> rows_grow R d d'"
  unfolding rows_updated_def rows_grow_def by (metis option_rel_Some1)

lemma rows_updated_back:
  "rows_updated R d d' \<Longrightarrow> dict_get d' k = Some v' \<Longrightarrow> \<exists>v. dict_get d k = Some v \<and> R v v'"
  unfolding rows_updated_def by (metis option_rel_Some2)

lemma rows_updated_set:
  assumes "dict_ok d" and "dict_get d k = Some w" and "R w v" and "\<And>x. R x x"
  shows "rows_updated R d (dict_set k v d)"
  using assms by (auto simp: rows_updated_def dict_simps option.rel_refl)

lemma rows_updated_map:
  assumes "dict_ok d" and "\<And>v. R v (f v)"
  shows "rows_updated R d (dict_map f d)"
  using assms by (auto simp: rows_updated_def dict_simps option.rel_map intro!: option.rel_refl)

lemma sessions_ok_users:
  assumes "sessions_ok us ss" and "\<And>k. dict_get us k \<noteq> None \<Longrightarrow> dict_get us' k \<noteq> None"
  shows "sessions_ok us' ss"
  using assms unfolding sessions_ok_def by blast

lemma sessions_ok_updated:
  assumes "sessions_ok us ss" and upd: "rows_updated same_session ss ss'"
  shows "sessions_ok us ss'"
  using assms(1) rows_updated_back [OF upd] upd
  unfolding sessions_ok_def same_session_def rows_updated_def by metis

lemma tokens_ok_sessions:
  assumes "tokens_ok ss ts" and "rows_grow same_session ss ss'"
  shows "tokens_ok ss' ts"
  using assms unfolding tokens_ok_def rows_grow_def same_session_def by metis

lemma tokens_ok_updated:
  assumes "tokens_ok ss ts" and upd: "rows_updated same_token ts ts'"
  shows "tokens_ok ss ts'"
  using assms(1) rows_updated_back [OF upd] upd
  unfolding tokens_ok_def same_token_def rows_updated_def by metis

lemma tokens_unique_updated:
  assumes uniq: "tokens_unique ts" and upd: "rows_updated same_token ts ts'"
  shows "tokens_unique ts'"
  unfolding tokens_unique_def
proof (intro allI impI)
  fix k k' t t'
  assume "dict_get ts' k = Some t" and "dict_get ts' k' = Some t'"
    and eq: "token_hash t = token_hash t' \<or> rt_session t = rt_session t' \<and> consumed_at t = None \<and> consumed_at t' = None"
  then obtain u u' where u: "dict_get ts k = Some u" "same_token u t" "dict_get ts k' = Some u'" "same_token u' t'"
    using rows_updated_back [OF upd] by blast
  have "token_hash u = token_hash u' \<or> rt_session u = rt_session u' \<and> consumed_at u = None \<and> consumed_at u' = None"
    using eq u(2,4) unfolding same_token_def by metis
  then show "k = k'" using uniq u(1,3) unfolding tokens_unique_def by blast
qed

lemma inv_users:
  assumes "auth_inv db" and "users_ok us" and "\<And>k. dict_get (users db) k \<noteq> None \<Longrightarrow> dict_get us k \<noteq> None"
  shows "auth_inv (db\<lparr>users := us\<rparr>)"
  using assms sessions_ok_users [of "users db" "sessions db" us] by (simp add: auth_inv_def)

lemma inv_sessions:
  assumes "auth_inv db" and upd: "rows_updated same_session (sessions db) ss"
  shows "auth_inv (db\<lparr>sessions := ss\<rparr>)"
  using assms(1) sessions_ok_updated [OF _ upd] tokens_ok_sessions [OF _ rows_updated_grow [OF upd]]
  by (simp add: auth_inv_def)

lemma inv_tokens:
  assumes "auth_inv db" and upd: "rows_updated same_token (tokens db) ts"
  shows "auth_inv (db\<lparr>tokens := ts\<rparr>)"
  using assms(1) tokens_ok_updated [OF _ upd] tokens_unique_updated [OF _ upd] by (simp add: auth_inv_def)

lemma inv_factors: "auth_inv db \<Longrightarrow> factors_ok fs \<Longrightarrow> auth_inv (db\<lparr>factors := fs\<rparr>)"
  by (simp add: auth_inv_def)

lemma inv_codes: "auth_inv db \<Longrightarrow> distinct (map code_hash cs) \<Longrightarrow> auth_inv (db\<lparr>codes := cs\<rparr>)"
  by (simp add: auth_inv_def)

lemma inv_token_new:
  assumes inv: "auth_inv db" and "dict_get (tokens db) (rt_id t) = None"
    and s: "dict_get (sessions db) (rt_session t) = Some s" "as_expires_at s = rt_expires_at t"
    and new: "\<And>k t'. dict_get (tokens db) k = Some t' \<Longrightarrow>
      token_hash t' \<noteq> token_hash t \<and> (rt_session t' = rt_session t \<longrightarrow> consumed_at t' \<noteq> None)"
  shows "auth_inv (put_token t db)"
proof -
  have "tokens_ok (sessions db) (dict_set (rt_id t) t (tokens db))"
    using inv s by (simp add: auth_inv_def tokens_ok_def dict_simps)
  moreover have "tokens_unique (dict_set (rt_id t) t (tokens db))"
    unfolding tokens_unique_def
  proof (intro allI impI)
    fix k k' a b
    assume *: "dict_get (dict_set (rt_id t) t (tokens db)) k = Some a"
        "dict_get (dict_set (rt_id t) t (tokens db)) k' = Some b"
        "token_hash a = token_hash b \<or> rt_session a = rt_session b \<and> consumed_at a = None \<and> consumed_at b = None"
    have uniq: "tokens_unique (tokens db)" using inv by (simp add: auth_inv_def)
    show "k = k'"
    proof (cases "k = rt_id t"; cases "k' = rt_id t")
      assume k: "k = rt_id t" and k': "k' \<noteq> rt_id t"
      then have "a = t" and "dict_get (tokens db) k' = Some b" using *(1,2) by (auto simp: dict_get_set)
      then show ?thesis using new [of k' b] *(3) by metis
    next
      assume k: "k \<noteq> rt_id t" and k': "k' = rt_id t"
      then have "b = t" and "dict_get (tokens db) k = Some a" using *(1,2) by (auto simp: dict_get_set)
      then show ?thesis using new [of k a] *(3) by metis
    next
      assume "k \<noteq> rt_id t" and "k' \<noteq> rt_id t"
      then have "dict_get (tokens db) k = Some a" "dict_get (tokens db) k' = Some b"
        using *(1,2) by (auto simp: dict_get_set)
      then show ?thesis using uniq *(3) unfolding tokens_unique_def by blast
    qed simp
  qed
  ultimately show ?thesis using inv by (simp add: auth_inv_def put_token_def)
qed

lemma inv_session_new:
  assumes "auth_inv db" and "dict_get (sessions db) (as_id s) = None" and "dict_get (users db) (as_user s) \<noteq> None"
  shows "auth_inv (put_session s db)"
proof -
  have "rows_grow same_session (sessions db) (dict_set (as_id s) s (sessions db))"
    using assms(2) by (intro rows_grow_set) simp_all
  then show ?thesis
    using assms tokens_ok_sessions [of "sessions db" "tokens db"]
    by (simp add: auth_inv_def put_session_def sessions_ok_def dict_simps)
qed

subsection \<open>What the session methods keep\<close>

definition keeps :: "auth_db \<Rightarrow> auth_db \<Rightarrow> bool" where
  "keeps db db' \<longleftrightarrow> auth_inv db' \<and> auth_grows db db'"

lemma keeps_refl: "auth_inv db \<Longrightarrow> keeps db db"
  by (simp add: keeps_def)

lemma keeps_trans: "keeps d1 d2 \<Longrightarrow> keeps d2 d3 \<Longrightarrow> keeps d1 d3"
  unfolding keeps_def by (blast intro: auth_grows_trans)

lemma keepsD: "keeps db db' \<Longrightarrow> auth_inv db'"
  by (simp add: keeps_def)

lemma auth_invD:
  assumes "auth_inv db"
  shows "dict_get (users db) uk = Some u \<Longrightarrow> u_id u = uk"
    and "dict_get (sessions db) sk = Some s \<Longrightarrow> as_id s = sk"
    and "dict_get (tokens db) tk = Some t \<Longrightarrow> rt_id t = tk"
    and "dict_get (factors db) fk = Some f \<Longrightarrow> f_id f = fk"
    and "dict_ok (users db)" "dict_ok (sessions db)" "dict_ok (tokens db)" "dict_ok (factors db)"
  using assms by (simp_all add: auth_inv_def users_ok_def sessions_ok_def tokens_ok_def factors_ok_def)

lemma users_ok_updated:
  assumes ok: "users_ok us"
    and upd: "rows_updated (\<lambda>u u'. u_id u' = u_id u \<and> email_normalized u' = email_normalized u) us us'"
  shows "users_ok us'"
  unfolding users_ok_def
proof (intro conjI allI impI)
  show "dict_ok us'" using upd by (simp add: rows_updated_def)
  show "u_id u = k" if "dict_get us' k = Some u" for k u
    using rows_updated_back [OF upd that] ok unfolding users_ok_def by blast
  show "k = k'" if *: "dict_get us' k = Some u" "dict_get us' k' = Some u'" "email_normalized u = email_normalized u'"
    for k k' u u'
  proof -
    obtain v v' where "dict_get us k = Some v" "dict_get us k' = Some v'" "email_normalized v = email_normalized v'"
      using rows_updated_back [OF upd *(1)] rows_updated_back [OF upd *(2)] *(3) by auto
    with ok show ?thesis unfolding users_ok_def by blast
  qed
qed

lemma keeps_user:
  assumes inv: "auth_inv db" and u: "dict_get (users db) (u_id u) = Some u"
    and same: "u_id u' = u_id u" "email_normalized u' = email_normalized u"
  shows "keeps db (put_user u' db)"
proof -
  let ?R = "\<lambda>u u'. u_id u' = u_id u \<and> email_normalized u' = email_normalized u"
  have "rows_updated ?R (users db) (dict_set (u_id u) u' (users db))"
    using same u auth_invD(5) [OF inv] by (intro rows_updated_set [where w = u]) simp_all
  then have "users_ok (dict_set (u_id u) u' (users db))"
    using inv users_ok_updated [of "users db"] unfolding auth_inv_def by blast
  then show ?thesis
    using inv_users [OF inv, of "dict_set (u_id u) u' (users db)"] same(1)
    by (simp add: keeps_def put_user_def auth_grows_def dict_simps)
qed

lemma keeps_session:
  assumes inv: "auth_inv db" and s: "dict_get (sessions db) (as_id s) = Some s" and "same_session s s'"
  shows "keeps db (put_session s' db)"
proof -
  have "rows_updated same_session (sessions db) (dict_set (as_id s') s' (sessions db))"
    using assms auth_invD(6) [OF inv] by (intro rows_updated_set [where w = s]) (simp_all add: same_session_def)
  then show ?thesis
    using inv_sessions [OF inv] rows_updated_grow by (auto simp: keeps_def put_session_def auth_grows_def)
qed

lemma keeps_token:
  assumes inv: "auth_inv db" and t: "dict_get (tokens db) (rt_id t) = Some t" and "same_token t t'"
  shows "keeps db (put_token t' db)"
proof -
  have "rows_updated same_token (tokens db) (dict_set (rt_id t') t' (tokens db))"
    using assms auth_invD(7) [OF inv] by (intro rows_updated_set [where w = t]) (simp_all add: same_token_def)
  then show ?thesis
    using inv_tokens [OF inv] rows_updated_grow by (auto simp: keeps_def put_token_def auth_grows_def)
qed

lemma keeps_revoke_tokens: "auth_inv db \<Longrightarrow> keeps db (revoke_tokens P now db)"
  unfolding revoke_tokens_def keeps_def auth_grows_def
  by (auto intro!: inv_tokens rows_updated_map rows_grow_map simp: auth_invD same_token_def)

lemma keeps_revoke_sessions: "auth_inv db \<Longrightarrow> keeps db (revoke_sessions P now reason db)"
  unfolding revoke_sessions_def keeps_def auth_grows_def
  by (auto intro!: inv_sessions rows_updated_map rows_grow_map simp: auth_invD same_session_def)

lemma keeps_revoke_all: "auth_inv db \<Longrightarrow> keeps db (revoke_all_for_user uid now reason db)"
  unfolding revoke_all_for_user_def
  by (meson keeps_trans keeps_revoke_tokens keeps_revoke_sessions keepsD)

lemma keeps_revoke_family:
  assumes inv: "auth_inv db" and s: "dict_get (sessions db) (as_id s) = Some s"
    and t: "\<And>t. reuse = Some t \<Longrightarrow> dict_get (tokens db) (rt_id t) = Some t"
  shows "keeps db (revoke_family s now reason reuse db)"
proof -
  let ?db1 = "put_session (s\<lparr>as_revoked_at := Some now, revoke_reason := Some reason\<rparr>) db"
  have 1: "keeps db ?db1" by (rule keeps_session [OF inv s]) (simp add: same_session_def)
  have 2: "keeps ?db1 (case reuse of None \<Rightarrow> ?db1 | Some t \<Rightarrow> put_token (t\<lparr>reuse_detected_at := Some now\<rparr>) ?db1)"
  proof (cases reuse)
    case None
    then show ?thesis using keeps_refl [OF keepsD [OF 1]] by simp
  next
    case (Some t)
    have "keeps ?db1 (put_token (t\<lparr>reuse_detected_at := Some now\<rparr>) ?db1)"
      by (rule keeps_token [OF keepsD [OF 1], of t]) (simp_all add: put_session_def assms(3) [OF Some] same_token_def)
    with Some show ?thesis by simp
  qed
  show ?thesis
    unfolding revoke_family_def Let_def
    using keeps_trans [OF keeps_trans [OF 1 2] keeps_revoke_tokens [OF keepsD [OF 2]]] by simp
qed

lemma revoke_family_revokes:
  "\<exists>s'. dict_get (sessions (revoke_family s now reason reuse db)) (as_id s) = Some s' \<and> as_revoked_at s' \<noteq> None"
  by (simp add: revoke_family_def revoke_tokens_def put_token_def put_session_def dict_simps split: option.split)

lemma find_row:
  assumes "List.find P (map snd d) = Some v" and "dict_ok d"
  shows "P v \<and> (\<exists>k. dict_get d k = Some v)"
proof -
  from assms(1) have "P v" and "v \<in> set (map snd d)" by (auto simp: find_Some_iff)
  with dict_values_iff [OF assms(2)] show ?thesis by blast
qed

lemma user_for_loginD:
  assumes "auth_inv db" and "user_for_login em db = Some u"
  shows "dict_get (users db) (u_id u) = Some u" and "email_normalized u = em"
  using find_row [OF assms(2) [unfolded user_for_login_def] auth_invD(5) [OF assms(1)]] auth_invD(1) [OF assms(1)]
  by auto

lemma refresh_principalsD:
  assumes inv: "auth_inv db" and "refresh_principals h db = Some (t, s, u)"
  shows "dict_get (tokens db) (rt_id t) = Some t" and "token_hash t = h" and "rt_session t = as_id s"
    and "dict_get (sessions db) (as_id s) = Some s" and "dict_get (users db) (u_id u) = Some u"
    and "as_user s = u_id u"
proof -
  from assms(2) have f: "List.find (\<lambda>t. token_hash t = h) (map snd (tokens db)) = Some t"
    and s: "dict_get (sessions db) (rt_session t) = Some s" and u: "dict_get (users db) (as_user s) = Some u"
    by (auto simp: refresh_principals_def split: option.splits)
  from find_row [OF f auth_invD(7) [OF inv]] obtain k where k: "dict_get (tokens db) k = Some t" and "token_hash t = h"
    by blast
  with s u show "dict_get (tokens db) (rt_id t) = Some t" "token_hash t = h" "rt_session t = as_id s"
    "dict_get (sessions db) (as_id s) = Some s" "dict_get (users db) (u_id u) = Some u" "as_user s = u_id u"
    using auth_invD(1-3) [OF inv] by metis+
qed

lemma refresh_principals_find:
  assumes inv: "auth_inv db" and t: "dict_get (tokens db) k = Some t"
  obtains s u where "refresh_principals (token_hash t) db = Some (t, s, u)"
    and "dict_get (sessions db) (rt_session t) = Some s"
proof -
  have "t \<in> set (map snd (tokens db))" using t dict_values_iff [OF auth_invD(7) [OF inv]] by blast
  then obtain t' where f: "List.find (\<lambda>x. token_hash x = token_hash t) (map snd (tokens db)) = Some t'"
    by (cases "List.find (\<lambda>x. token_hash x = token_hash t) (map snd (tokens db))") (auto simp: find_None_iff)
  from find_row [OF f auth_invD(7) [OF inv]] obtain k' where "dict_get (tokens db) k' = Some t'" "token_hash t' = token_hash t"
    by blast
  then have "t' = t" using inv t unfolding auth_inv_def tokens_unique_def by (metis option.inject)
  moreover obtain s where s: "dict_get (sessions db) (rt_session t) = Some s"
    using inv t unfolding auth_inv_def tokens_ok_def by blast
  moreover obtain u where "dict_get (users db) (as_user s) = Some u"
    using inv s unfolding auth_inv_def sessions_ok_def by blast
  ultimately show ?thesis using f that by (simp add: refresh_principals_def)
qed

text \<open>The outcomes of a login.\<close>

lemma login_cases:
  obtains (failed) e where "login sv c email pw env db = (Inl e, db)"
  | (counted) em u where "normalize_email sv email = Some em" and "user_for_login em db = Some u"
      and "\<not> argon_verify sv (password_hash u) pw" and "\<not> is_locked u (clock env 0)"
      and "login sv c email pw env db = (Inl InvalidSessionCredentials, put_user (count_failed_login c (clock env 0) u) db)"
  | (granted) em u u' th where "normalize_email sv email = Some em" and "user_for_login em db = Some u"
      and "argon_verify sv (password_hash u) pw" and "u_status u = ''active''" and "\<not> is_locked u (clock env 0)"
      and "u_id u' = u_id u" and "email_normalized u' = email_normalized u"
      and "failed_login_count u' = 0" and "locked_until u' = None"
      and "digest sv (new_raw env) refresh_purpose = Inr th"
      and "login sv c email pw env db =
        (case issue_access_token c (u_id u) (new_session env) (active_organization_id (u_id u) db)
             (clock env 0 + refresh_token_ttl c) (requires_mfa (u_id u) db)
             (active_platform_authorities (u_id u) db) (clock env 1) of
           Inl e \<Rightarrow> Inl e
         | Inr (tok, ein) \<Rightarrow> Inr \<lparr>access_token = tok, access_expires_in = ein, refresh_token_raw = new_raw env,
             refresh_expires_in = py_trunc (refresh_token_ttl c), issued_session_id = new_session env,
             mfa_required = requires_mfa (u_id u) db\<rparr>,
         add_session (new_session env) (u_id u) (active_organization_id (u_id u) db) (new_family env) (new_token_id env)
           th (clock env 0) (clock env 0 + refresh_token_ttl c) None (put_user u' db))"
proof (cases "normalize_email sv email")
  case None
  then show ?thesis using failed by (simp add: login_def)
next
  case (Some em)
  note em = this
  show ?thesis
  proof (cases "user_for_login em db")
    case None
    with em show ?thesis using failed by (simp add: login_def)
  next
    case (Some u)
    note u = this
    consider "\<not> argon_verify sv (password_hash u) pw" "\<not> is_locked u (clock env 0)"
      | "argon_verify sv (password_hash u) pw" "u_status u = ''active''" "\<not> is_locked u (clock env 0)"
      | "\<not> argon_verify sv (password_hash u) pw" "is_locked u (clock env 0)"
      | "u_status u \<noteq> ''active'' \<or> is_locked u (clock env 0)" "argon_verify sv (password_hash u) pw" by blast
    then show ?thesis
    proof cases
      case 1
      then show ?thesis by (intro counted [OF em u]) (simp_all add: login_def em u verify_password_def)
    next
      case 2
      note ok = this
      let ?h = "if argon_needs_rehash sv (password_hash u) then hash_password sv pw else Inr (password_hash u)"
      show ?thesis
      proof (cases ?h)
        case (Inl e)
        with ok em u show ?thesis using failed by (simp add: login_def verify_password_def)
      next
        case (Inr h)
        let ?u1 = "if argon_needs_rehash sv (password_hash u)
          then u\<lparr>password_hash := h, password_changed_at := Some (clock env 0)\<rparr> else u"
        show ?thesis
        proof (cases "digest sv (new_raw env) refresh_purpose")
          case (Inl e)
          with \<open>?h = Inr h\<close> ok em u show ?thesis using failed by (simp add: login_def verify_password_def)
        next
          case (Inr th)
          show ?thesis
            by (rule granted [OF em u ok, where u' = "?u1\<lparr>failed_login_count := 0, locked_until := None\<rparr>", OF _ _ _ _ Inr])
              (use Inr \<open>?h = Inr h\<close> ok em u in \<open>simp_all add: login_def verify_password_def Let_def\<close>)
        qed
      qed
    next
      case 3
      then show ?thesis using failed by (simp add: login_def em u verify_password_def)
    next
      case 4
      then show ?thesis using failed by (auto simp: login_def em u verify_password_def)
    qed
  qed
qed

text \<open>The outcomes of a refresh.\<close>

lemma refresh_cases:
  obtains (failed) e where "refresh sv c raw env db = (Inl e, db)"
  | (reuse) h t s u where "digest sv raw refresh_purpose = Inr h" and "refresh_principals h db = Some (t, s, u)"
      and "consumed_at t \<noteq> None"
      and "refresh sv c raw env db =
        (Inl RefreshTokenReuse, revoke_family s (clock env 0) ''refresh_token_reuse'' (Some t) db)"
  | (expired) h t s u where "digest sv raw refresh_purpose = Inr h" and "refresh_principals h db = Some (t, s, u)"
      and "refresh sv c raw env db =
        (Inl InvalidSessionCredentials, revoke_family s (clock env 0) ''refresh_credentials_invalid'' None db)"
  | (rotated) h t s u th where "digest sv raw refresh_purpose = Inr h" and "refresh_principals h db = Some (t, s, u)"
      and "consumed_at t = None" and "rt_revoked_at t = None" and "as_revoked_at s = None"
      and "clock env 0 < as_expires_at s" and "u_status u = ''active''"
      and "digest sv (new_raw env) refresh_purpose = Inr th"
      and "refresh sv c raw env db =
        (case issue_access_token c (u_id u) (as_id s) (as_organization s) (as_expires_at s)
             (requires_mfa (u_id u) db \<and> mfa_satisfied_at s = None)
             (active_platform_authorities (u_id u) db) (clock env 1) of
           Inl e \<Rightarrow> Inl e
         | Inr (tok, ein) \<Rightarrow> Inr \<lparr>access_token = tok, access_expires_in = ein, refresh_token_raw = new_raw env,
             refresh_expires_in = max 1 (py_trunc (as_expires_at s - clock env 2)), issued_session_id = as_id s,
             mfa_required = (requires_mfa (u_id u) db \<and> mfa_satisfied_at s = None)\<rparr>,
         put_session (s\<lparr>last_seen_at := Some (clock env 0)\<rparr>)
           (rotate_refresh_token t (new_token_id env) th (clock env 0) (as_expires_at s) db))"
proof (cases "digest sv raw refresh_purpose")
  case (Inl e)
  then show ?thesis using failed by (simp add: refresh_def)
next
  case (Inr h)
  note h = this
  show ?thesis
  proof (cases "refresh_principals h db")
    case None
    with h show ?thesis using failed by (simp add: refresh_def)
  next
    case (Some p)
    then obtain t s u where p: "refresh_principals h db = Some (t, s, u)" by (cases p) auto
    let ?bad = "rt_revoked_at t \<noteq> None \<or> rt_expires_at t \<le> clock env 0 \<or> as_revoked_at s \<noteq> None \<or>
       as_expires_at s \<le> clock env 0 \<or> u_status u \<noteq> ''active''"
    consider "consumed_at t \<noteq> None" | "consumed_at t = None" ?bad "as_revoked_at s = None"
      | "consumed_at t = None" ?bad "as_revoked_at s \<noteq> None" | "consumed_at t = None" "\<not> ?bad" by blast
    then show ?thesis
    proof cases
      case 1
      then show ?thesis by (intro reuse [OF h p]) (simp_all add: refresh_def h p)
    next
      case 2
      then show ?thesis by (intro expired [OF h p]) (simp add: refresh_def h p)
    next
      case 3
      then show ?thesis by (intro failed [of InvalidSessionCredentials]) (auto simp: refresh_def h p)
    next
      case 4
      show ?thesis
      proof (cases "digest sv (new_raw env) refresh_purpose")
        case (Inl e)
        with 4 show ?thesis by (intro failed [of e]) (simp add: refresh_def h p)
      next
        case (Inr th)
        with 4 show ?thesis by (intro rotated [OF h p]) (simp_all add: refresh_def h p)
      qed
    qed
  qed
qed

text \<open>What a call that opens a session or a token draws is new.\<close>

definition fresh_draw :: "auth_services \<Rightarrow> auth_env \<Rightarrow> auth_db \<Rightarrow> bool" where
  "fresh_draw sv env db \<longleftrightarrow> dict_get (sessions db) (new_session env) = None \<and>
     dict_get (tokens db) (new_token_id env) = None \<and>
     (\<forall>t \<in> set (map snd (tokens db)). token_hash t \<noteq> hmac_digest sv refresh_purpose (new_raw env))"

lemma fresh_hash:
  assumes "fresh_draw sv env db" and "auth_inv db" and "digest sv (new_raw env) refresh_purpose = Inr th"
    and "dict_get (tokens db) k = Some t"
  shows "token_hash t \<noteq> th"
proof -
  have "th = hmac_digest sv refresh_purpose (new_raw env)"
    using assms(3) by (auto simp: digest_def split: if_splits)
  moreover have "t \<in> set (map snd (tokens db))"
    using assms(2,4) dict_values_iff auth_invD(7) by metis
  ultimately show ?thesis using assms(1) unfolding fresh_draw_def by blast
qed

lemma keeps_token_new:
  assumes "auth_inv (put_token t db)" and "dict_get (tokens db) (rt_id t) = None"
  shows "keeps db (put_token t db)"
  using assms by (auto simp: keeps_def auth_grows_def put_token_def intro!: rows_grow_set)

lemma keeps_add_session:
  assumes inv: "auth_inv db" and s: "dict_get (sessions db) sid = None" and t: "dict_get (tokens db) tid = None"
    and "dict_get (users db) uid \<noteq> None" and h: "\<And>k t. dict_get (tokens db) k = Some t \<Longrightarrow> token_hash t \<noteq> th"
  shows "keeps db (add_session sid uid org fam tid th now expires mfa db)"
proof -
  let ?s = "\<lparr>as_id = sid, as_user = uid, as_organization = org, refresh_family_id = fam, authenticated_at = now,
     mfa_satisfied_at = mfa, last_seen_at = Some now, as_expires_at = expires, as_revoked_at = None, revoke_reason = None\<rparr>"
  let ?t = "new_token tid sid None th now expires"
  have s1: "auth_inv (put_session ?s db)" by (rule inv_session_new) (use assms in simp_all)
  then have 1: "keeps db (put_session ?s db)"
    using s by (auto simp: keeps_def auth_grows_def put_session_def intro!: rows_grow_set)
  have no: "rt_session t \<noteq> sid" if "dict_get (tokens db) k = Some t" for k t
    using inv that s unfolding auth_inv_def tokens_ok_def by (metis option.distinct(1))
  have "auth_inv (put_token ?t (put_session ?s db))"
    by (rule inv_token_new [OF s1, where s = ?s])
      (use t h no in \<open>auto simp: new_token_def put_session_def dict_simps\<close>)
  then have "keeps (put_session ?s db) (put_token ?t (put_session ?s db))"
    by (rule keeps_token_new) (use t in \<open>simp add: new_token_def put_session_def\<close>)
  with 1 show ?thesis unfolding add_session_def by (rule keeps_trans)
qed

lemma keeps_rotate:
  assumes inv: "auth_inv db" and t: "dict_get (tokens db) (rt_id t) = Some t" and "consumed_at t = None"
    and s: "dict_get (sessions db) (rt_session t) = Some s" and "dict_get (tokens db) tid = None"
    and h: "\<And>k t. dict_get (tokens db) k = Some t \<Longrightarrow> token_hash t \<noteq> th"
  shows "keeps db (rotate_refresh_token t tid th now (as_expires_at s) db)"
proof -
  let ?t = "t\<lparr>consumed_at := Some now\<rparr>"
  let ?n = "new_token tid (rt_session t) (Some (rt_id t)) th now (as_expires_at s)"
  have 1: "keeps db (put_token ?t db)" by (rule keeps_token [OF inv t]) (simp add: same_token_def)
  have live: "consumed_at t' \<noteq> None" if "dict_get (tokens db) k = Some t'" "rt_session t' = rt_session t" "k \<noteq> rt_id t" for k t'
    using inv that t assms(3) unfolding auth_inv_def tokens_unique_def by metis
  have neq: "token_hash t \<noteq> th" "th \<noteq> token_hash t" using h [OF t] by auto
  have "auth_inv (put_token ?n (put_token ?t db))"
    by (rule inv_token_new [OF keepsD [OF 1], where s = s])
      (use assms(4,5) t live h in \<open>auto simp: neq new_token_def put_token_def dict_simps split: if_splits\<close>)
  then have "keeps (put_token ?t db) (put_token ?n (put_token ?t db))"
    by (rule keeps_token_new) (use assms in \<open>auto simp: new_token_def put_token_def dict_simps\<close>)
  with 1 show ?thesis unfolding rotate_refresh_token_def by (rule keeps_trans)
qed

lemma count_failed_login_same [simp]:
  "u_id (count_failed_login c now u) = u_id u" "email_normalized (count_failed_login c now u) = email_normalized u"
  by (simp_all add: count_failed_login_def)

lemma keeps_login:
  assumes inv: "auth_inv db" and fresh: "fresh_draw sv env db"
  shows "keeps db (snd (login sv c email pw env db))"
proof (cases rule: login_cases [of sv c email pw env db])
  case (failed e)
  then show ?thesis using keeps_refl [OF inv] by simp
next
  case (counted em u)
  then show ?thesis using keeps_user [OF inv user_for_loginD(1) [OF inv counted(2)]] by simp
next
  case (granted em u u' th)
  have u: "dict_get (users db) (u_id u) = Some u" by (rule user_for_loginD(1) [OF inv granted(2)])
  have 1: "keeps db (put_user u' db)" by (rule keeps_user [OF inv u]) (use granted in simp_all)
  have "keeps (put_user u' db) (snd (login sv c email pw env db))"
    unfolding granted(11) snd_conv
    by (rule keeps_add_session [OF keepsD [OF 1]])
      (use fresh u granted(6) fresh_hash [OF fresh inv granted(10)] in \<open>auto simp: fresh_draw_def put_user_def dict_simps\<close>)
  with 1 show ?thesis by (rule keeps_trans)
qed

lemma keeps_refresh:
  assumes inv: "auth_inv db" and fresh: "fresh_draw sv env db"
  shows "keeps db (snd (refresh sv c raw env db))"
proof (cases rule: refresh_cases [of sv c raw env db])
  case (failed e)
  then show ?thesis using keeps_refl [OF inv] by simp
next
  case (reuse h t s u)
  note p = refresh_principalsD [OF inv reuse(2)]
  show ?thesis unfolding reuse(4) using keeps_revoke_family [OF inv p(4), of "Some t"] p(1) by simp
next
  case (expired h t s u)
  then show ?thesis
    using keeps_revoke_family [OF inv refresh_principalsD(4) [OF inv expired(2)], of None] by simp
next
  case (rotated h t s u th)
  note p = refresh_principalsD [OF inv rotated(2)]
  let ?db1 = "rotate_refresh_token t (new_token_id env) th (clock env 0) (as_expires_at s) db"
  have 1: "keeps db ?db1"
    by (rule keeps_rotate [OF inv p(1) rotated(3)])
      (use p fresh fresh_hash [OF fresh inv rotated(8)] in \<open>auto simp: fresh_draw_def\<close>)
  have "keeps ?db1 (put_session (s\<lparr>last_seen_at := Some (clock env 0)\<rparr>) ?db1)"
    by (rule keeps_session [OF keepsD [OF 1], of s])
      (use p in \<open>simp_all add: rotate_refresh_token_def put_token_def same_session_def\<close>)
  with 1 show ?thesis unfolding rotated(9) snd_conv by (rule keeps_trans)
qed

lemma keeps_logout: "auth_inv db \<Longrightarrow> keeps db (snd (logout sv raw now db))"
  by (auto simp: logout_def keeps_refl split: sum.splits option.splits
      intro!: keeps_revoke_family dest: refresh_principalsD)

lemma keeps_logout_all: "auth_inv db \<Longrightarrow> keeps db (snd (logout_all sv raw now db))"
  by (auto simp: logout_all_def keeps_refl keeps_revoke_all split: sum.splits option.splits)

lemma owned_sessionD:
  assumes "auth_inv db" and "owned_session sid uid db = Some s"
  shows "dict_get (sessions db) sid = Some s" and "as_id s = sid" and "as_user s = uid"
  using assms auth_invD(2) [OF assms(1), of sid s] by (auto simp: owned_session_def split: option.splits if_splits)

lemma keeps_revoke_session: "auth_inv db \<Longrightarrow> keeps db (snd (revoke_session uid sid now db))"
  by (auto simp: revoke_session_def keeps_refl split: option.splits dest: owned_sessionD intro!: keeps_revoke_family)

subsection \<open>What the MFA methods keep\<close>

lemma match_steps_accepted:
  assumes "match_steps mac secret code last_used steps = Inr v" and "accepted v"
  obtains st where "matched_step v = Some st" and "st \<in> set steps" and "0 \<le> st"
    and "totp_code_for_step mac secret st = Inr code" and "\<And>l. last_used = Some l \<Longrightarrow> l < st"
proof -
  have "\<exists>st. matched_step v = Some st \<and> st \<in> set steps \<and> 0 \<le> st \<and> totp_code_for_step mac secret st = Inr code \<and>
      (\<forall>l. last_used = Some l \<longrightarrow> l < st)"
    using assms
  proof (induction steps)
    case (Cons x xs)
    then show ?case
      by (cases "totp_code_for_step mac secret x") (auto split: if_splits option.splits)
  qed auto
  then show ?thesis using that by blast
qed

lemma verify_totp_factorD:
  assumes "verify_totp_factor a f code now = Inr f'"
  obtains secret st where "decrypt_factor a f = Inr secret" and "f' = f\<lparr>last_used_step := Some st\<rparr>"
    and "\<forall>l. last_used_step f = Some l \<longrightarrow> l < st" and "totp_code_for_step (hmac_sha1 a) secret st = Inr code"
    and "\<bar>st - \<lfloor>now / totp_period_seconds\<rfloor>\<bar> \<le> 1"
proof -
  from assms obtain secret v where sec: "decrypt_factor a f = Inr secret"
    and v: "verify_totp (hmac_sha1 a) secret code now 1 (last_used_step f) = Inr v"
    and acc: "accepted v" and f': "f' = f\<lparr>last_used_step := matched_step v\<rparr>"
    by (auto simp: verify_totp_factor_def split: sum.splits if_splits)
  from v acc have "match_steps (hmac_sha1 a) secret code (last_used_step f)
      (map (\<lambda>i. \<lfloor>now / totp_period_seconds\<rfloor> + i) [- 1..1]) = Inr v"
    by (auto simp: verify_totp_def split: if_splits)
  from match_steps_accepted [OF this acc] obtain st where st: "matched_step v = Some st"
    "st \<in> set (map (\<lambda>i. \<lfloor>now / totp_period_seconds\<rfloor> + i) [- 1..1])"
    "totp_code_for_step (hmac_sha1 a) secret st = Inr code" "\<forall>l. last_used_step f = Some l \<longrightarrow> l < st"
    by metis
  show ?thesis
    by (rule that [OF sec _ st(4,3)]) (use st(1,2) f' in auto)
qed

definition factor_updated :: "mfa_factor \<Rightarrow> mfa_factor \<Rightarrow> bool" where
  "factor_updated f f' \<longleftrightarrow> same_factor f f' \<and>
     (f_status f \<in> {''pending'', ''active'', ''disabled''} \<longrightarrow> f_status f' \<in> {''pending'', ''active'', ''disabled''})"

lemma factors_ok_updated:
  assumes ok: "factors_ok fs" and upd: "rows_updated factor_updated fs fs'"
  shows "factors_ok fs'"
  unfolding factors_ok_def
proof (intro conjI allI impI)
  note prev = rows_updated_back [OF upd]
  show "dict_ok fs'" using upd by (simp add: rows_updated_def)
  show "f_id f = k" if "dict_get fs' k = Some f" for k f
    using prev [OF that] ok unfolding factors_ok_def factor_updated_def same_factor_def by metis
  show "f_status f \<in> {''pending'', ''active'', ''disabled''}" if k: "dict_get fs' k = Some f" for k f
  proof -
    obtain g where g: "dict_get fs k = Some g" "factor_updated g f" using prev [OF k] by blast
    have "f_status g \<in> {''pending'', ''active'', ''disabled''}" using ok g(1) unfolding factors_ok_def by blast
    then show ?thesis using g(2) unfolding factor_updated_def by blast
  qed
  show "k = k'" if *: "dict_get fs' k = Some f" "dict_get fs' k' = Some f'" "f_user f = f_user f'"
      "f_status f \<noteq> ''disabled''" "f_status f' \<noteq> ''disabled''" for k k' f f'
  proof -
    obtain g g' where "dict_get fs k = Some g" "dict_get fs k' = Some g'" "f_user g = f_user g'"
        "f_status g \<noteq> ''disabled''" "f_status g' \<noteq> ''disabled''"
      using prev [OF *(1)] prev [OF *(2)] *(3-5) unfolding factor_updated_def same_factor_def by metis
    then show ?thesis using ok unfolding factors_ok_def by blast
  qed
qed

lemma keeps_factors:
  assumes inv: "auth_inv db" and upd: "rows_updated factor_updated (factors db) fs"
  shows "keeps db (db\<lparr>factors := fs\<rparr>)"
proof -
  have "rows_grow same_factor (factors db) fs"
    using rows_updated_grow [OF upd] unfolding rows_grow_def factor_updated_def by blast
  moreover have "factors_ok fs"
    using inv upd unfolding auth_inv_def by (blast intro: factors_ok_updated)
  ultimately show ?thesis using inv_factors [OF inv] by (simp add: keeps_def auth_grows_def)
qed

lemma keeps_factor:
  assumes "auth_inv db" and "dict_get (factors db) (f_id f) = Some f" and "factor_updated f f'"
  shows "keeps db (put_factor f' db)"
proof -
  have "f_id f' = f_id f" using assms(3) by (simp add: factor_updated_def same_factor_def)
  then have "rows_updated factor_updated (factors db) (dict_set (f_id f') f' (factors db))"
    using assms auth_invD(8) [OF assms(1)] by (intro rows_updated_set [where w = f]) (simp_all add: factor_updated_def)
  then show ?thesis unfolding put_factor_def by (rule keeps_factors [OF assms(1)])
qed

lemma keeps_codes: "auth_inv db \<Longrightarrow> distinct (map code_hash cs) \<Longrightarrow> keeps db (db\<lparr>codes := cs\<rparr>)"
  by (simp add: keeps_def inv_codes auth_grows_def)

lemma keeps_replace_codes: "auth_inv db \<Longrightarrow> replace_recovery_codes fid hs db = Inr db' \<Longrightarrow> keeps db db'"
proof -
  assume inv: "auth_inv db" and r: "replace_recovery_codes fid hs db = Inr db'"
  let ?kept = "filter (\<lambda>c. c_factor c \<noteq> fid) (codes db)"
  from r have hs: "distinct hs" "\<forall>c \<in> set ?kept. code_hash c \<notin> set hs"
    and db': "db' = db\<lparr>codes := ?kept @ map (\<lambda>h. \<lparr>c_factor = fid, code_hash = h, used_at = None\<rparr>) hs\<rparr>"
    by (auto simp: replace_recovery_codes_def list_all_iff split: if_splits)
  have "distinct (map code_hash ?kept)"
    using inv by (simp add: auth_inv_def distinct_map_filter)
  with hs have "distinct (map code_hash (?kept @ map (\<lambda>h. \<lparr>c_factor = fid, code_hash = h, used_at = None\<rparr>) hs))"
    by (auto simp: comp_def)
  then show ?thesis unfolding db' by (rule keeps_codes [OF inv])
qed

lemma keeps_mark: "auth_inv db \<Longrightarrow> mark_session_satisfied uid sid now db = Inr db' \<Longrightarrow> keeps db db'"
proof -
  assume inv: "auth_inv db" and "mark_session_satisfied uid sid now db = Inr db'"
  then obtain s where s: "owned_session sid uid db = Some s" and db': "db' = put_session (s\<lparr>mfa_satisfied_at := Some now\<rparr>) db"
    by (auto simp: mark_session_satisfied_def split: option.splits if_splits)
  show ?thesis
    unfolding db' by (rule keeps_session [OF inv, of s]) (use owned_sessionD [OF inv s] in \<open>simp_all add: same_session_def\<close>)
qed

lemma factors_ofD:
  assumes "auth_inv db" and "f \<in> set (factors_of uid st db)"
  shows "dict_get (factors db) (f_id f) = Some f" and "f_user f = uid" and "f_status f = st"
  using assms auth_invD(4) [OF assms(1)] dict_values_iff [OF auth_invD(8) [OF assms(1)], of f]
  by (auto simp: factors_of_def)

lemma active_factorD:
  assumes "auth_inv db" and "active_factor uid db = Some f"
  shows "dict_get (factors db) (f_id f) = Some f" and "f_user f = uid" and "f_status f = ''active''"
  using factors_ofD [OF assms(1) least_by_SomeD(1) [OF assms(2) [unfolded active_factor_def]]] by auto

lemma pending_factorD:
  assumes "auth_inv db" and "pending_factor uid db = Some f"
  shows "dict_get (factors db) (f_id f) = Some f" and "f_user f = uid" and "f_status f = ''pending''"
  using factors_ofD [OF assms(1) least_by_SomeD(1) [OF assms(2) [unfolded pending_factor_def]]] by auto

lemma verified_factor_updated:
  assumes "verify_totp_factor a f code now = Inr f'" and "f_status f \<noteq> ''disabled''"
  shows "factor_updated f f'" and "factor_updated f (f'\<lparr>f_status := ''active'', verified_at := w\<rparr>)"
proof -
  from verify_totp_factorD [OF assms(1)] obtain st where f': "f' = f\<lparr>last_used_step := Some st\<rparr>"
    and l: "\<forall>l. last_used_step f = Some l \<longrightarrow> l < st" by metis
  then have "\<exists>l' \<ge> l. last_used_step f' = Some l'" if "last_used_step f = Some l" for l
    using that by auto
  with f' assms(2) show "factor_updated f f'" and "factor_updated f (f'\<lparr>f_status := ''active'', verified_at := w\<rparr>)"
    by (simp_all add: factor_updated_def same_factor_def)
qed

lemma keeps_enroll:
  assumes inv: "auth_inv db" and fresh: "dict_get (factors db) fid = None"
  shows "keeps db (snd (enroll a c uid label fid secret nonce now created db))"
proof (cases "snd (enroll a c uid label fid secret nonce now created db) = db")
  case True
  then show ?thesis using keeps_refl [OF inv] by simp
next
  case False
  let ?db1 = "disable_pending_factors uid now db"
  let ?f = "\<lambda>enc. \<lparr>f_id = fid, f_user = uid, f_label = label, f_status = ''pending'', f_ciphertext = fst enc,
    f_key_version = snd enc, verified_at = None, last_used_step = None, disabled_at = None, f_created_at = created\<rparr>"
  from False obtain enc where none: "active_factor uid db = None"
    and db': "snd (enroll a c uid label fid secret nonce now created db) = put_factor (?f enc) ?db1"
    by (auto simp: enroll_def enroll_unchecked_def add_pending_factor_def split: if_splits option.splits sum.splits)
  have 1: "keeps db ?db1"
    unfolding disable_pending_factors_def
    by (rule keeps_factors [OF inv])
      (auto intro!: rows_updated_map simp: auth_invD [OF inv] factor_updated_def same_factor_def)
  have free: "f_status f = ''disabled''" if "dict_get (factors ?db1) k = Some f" "f_user f = uid" for k f
  proof -
    from that obtain g where g: "dict_get (factors db) k = Some g"
      and f: "f = (if f_user g = uid \<and> f_status g = ''pending'' then g\<lparr>f_status := ''disabled'', disabled_at := Some now\<rparr> else g)"
      by (auto simp: disable_pending_factors_def dict_simps)
    have "f_user g = uid" using that(2) f by (auto split: if_splits)
    have "g \<notin> set (factors_of uid ''active'' db)" using none by (auto simp: active_factor_def)
    then have "f_status g \<noteq> ''active''"
      using g \<open>f_user g = uid\<close> dict_values_iff [OF auth_invD(8) [OF inv], of g] by (auto simp: factors_of_def)
    moreover have "f_status g \<in> {''pending'', ''active'', ''disabled''}"
      using inv g unfolding auth_inv_def factors_ok_def by blast
    ultimately show ?thesis using f \<open>f_user g = uid\<close> by auto
  qed
  have new: "dict_get (factors ?db1) fid = None" using fresh by (simp add: disable_pending_factors_def dict_simps)
  have "factors_ok (dict_set fid (?f enc) (factors ?db1))"
    using keepsD [OF 1] free unfolding auth_inv_def factors_ok_def by (auto simp: dict_simps split: if_splits)
  then have "keeps ?db1 (put_factor (?f enc) ?db1)"
    using new inv_factors [OF keepsD [OF 1]]
    by (auto simp: keeps_def put_factor_def auth_grows_def intro!: rows_grow_set)
  with 1 show ?thesis unfolding db' by (rule keeps_trans)
qed

lemma keeps_confirm:
  assumes inv: "auth_inv db"
  shows "keeps db (snd (confirm_enrollment a c uid sid code now draw db))"
proof (cases "snd (confirm_enrollment a c uid sid code now draw db) = db")
  case True
  then show ?thesis using keeps_refl [OF inv] by simp
next
  case False
  then obtain f f1 hs db1 where f: "pending_factor uid db = Some f" and v: "verify_totp_factor a f code now = Inr f1"
    and r: "replace_recovery_codes (f_id f) hs (put_factor (f1\<lparr>f_status := ''active'', verified_at := Some now\<rparr>) db) = Inr db1"
    and m: "mark_session_satisfied uid sid now db1 = Inr (snd (confirm_enrollment a c uid sid code now draw db))"
    by (auto simp: confirm_enrollment_def split: sum.splits option.splits)
  note fD = pending_factorD [OF inv f]
  have 1: "keeps db (put_factor (f1\<lparr>f_status := ''active'', verified_at := Some now\<rparr>) db)"
    by (rule keeps_factor [OF inv fD(1)]) (rule verified_factor_updated(2) [OF v], simp add: fD(3))
  have 2: "keeps db db1" by (rule keeps_trans [OF 1 keeps_replace_codes [OF keepsD [OF 1] r]])
  show ?thesis by (rule keeps_trans [OF 2 keeps_mark [OF keepsD [OF 2] m]])
qed

lemma check_codes_hashes:
  "map code_hash (map (\<lambda>x. if P x then x\<lparr>used_at := w\<rparr> else x) cs) = map code_hash cs"
  by simp

lemma keeps_check:
  assumes inv: "auth_inv db" and f: "active_factor uid db = Some f"
    and ck: "check_credential a f code recovery now db = Inr db1"
  shows "keeps db db1"
proof (cases code)
  case (Some k)
  with ck obtain f1 where v: "verify_totp_factor a f k now = Inr f1" and db1: "db1 = put_factor f1 db"
    by (auto simp: check_credential_def split: sum.splits)
  note fD = active_factorD [OF inv f]
  show ?thesis unfolding db1
    by (rule keeps_factor [OF inv fD(1)]) (rule verified_factor_updated(1) [OF v], simp add: fD(3))
next
  case None
  with ck obtain P where db1: "db1 = db\<lparr>codes := map (\<lambda>x. if P x then x\<lparr>used_at := Some now\<rparr> else x) (codes db)\<rparr>"
    by (auto simp: check_credential_def split: option.splits sum.splits if_splits)
  show ?thesis unfolding db1
    by (rule keeps_codes [OF inv]) (use inv in \<open>simp only: check_codes_hashes auth_inv_def\<close>)
qed

lemma verify_mfa_granted:
  "verify_mfa a uid sid code recovery now db = (Inr (), db') \<longleftrightarrow>
    (\<exists>f db1. active_factor uid db = Some f \<and> check_credential a f code recovery now db = Inr db1 \<and>
       mark_session_satisfied uid sid now db1 = Inr db')"
  by (simp add: verify_mfa_def split: option.splits sum.splits)

lemma verify_mfa_cases: "snd (verify_mfa a uid sid code recovery now db) = db \<or>
    fst (verify_mfa a uid sid code recovery now db) = Inr ()"
  by (simp add: verify_mfa_def split: option.splits sum.splits)

lemma keeps_verify:
  assumes inv: "auth_inv db"
  shows "keeps db (snd (verify_mfa a uid sid code recovery now db))"
proof (cases "snd (verify_mfa a uid sid code recovery now db) = db")
  case True
  then show ?thesis using keeps_refl [OF inv] by simp
next
  case False
  then have "verify_mfa a uid sid code recovery now db = (Inr (), snd (verify_mfa a uid sid code recovery now db))"
    using verify_mfa_cases [of a uid sid code recovery now db] by (simp add: prod_eq_iff)
  then obtain f db1 where 1: "active_factor uid db = Some f" "check_credential a f code recovery now db = Inr db1"
    "mark_session_satisfied uid sid now db1 = Inr (snd (verify_mfa a uid sid code recovery now db))"
    by (auto simp only: verify_mfa_granted)
  note k = keeps_check [OF inv 1(1,2)]
  show ?thesis by (rule keeps_trans [OF k keeps_mark [OF keepsD [OF k] 1(3)]])
qed

lemma keeps_regenerate: "auth_inv db \<Longrightarrow> keeps db (snd (regenerate_recovery_codes a c uid sid now draw db))"
  by (auto simp: regenerate_recovery_codes_def keeps_refl keeps_replace_codes split: sum.splits option.splits)

lemma keeps_disable:
  assumes inv: "auth_inv db"
  shows "keeps db (snd (disable_mfa c uid sid now db))"
proof (cases "snd (disable_mfa c uid sid now db) = db")
  case True
  then show ?thesis using keeps_refl [OF inv] by simp
next
  case False
  then obtain f db1 where f: "active_factor uid db = Some f"
    and r: "replace_recovery_codes (f_id f) [] (put_factor (f\<lparr>f_status := ''disabled'', disabled_at := Some now\<rparr>) db) = Inr db1"
    and d: "snd (disable_mfa c uid sid now db) = revoke_other_sessions uid sid now ''mfa_disabled'' db1"
    by (auto simp: disable_mfa_def split: sum.splits option.splits if_splits)
  have 1: "keeps db (put_factor (f\<lparr>f_status := ''disabled'', disabled_at := Some now\<rparr>) db)"
    by (rule keeps_factor [OF inv active_factorD(1) [OF inv f]]) (simp add: factor_updated_def same_factor_def)
  have 2: "keeps db db1" by (rule keeps_trans [OF 1 keeps_replace_codes [OF keepsD [OF 1] r]])
  show ?thesis
    unfolding d revoke_other_sessions_def by (rule keeps_trans [OF 2 keeps_revoke_sessions [OF keepsD [OF 2]]])
qed

lemma keeps_recovery:
  assumes inv: "auth_inv db"
  shows "keeps db (delete_mfa_recovery_codes uid (disable_mfa_factors uid now db))"
proof -
  have "rows_updated factor_updated (factors db) (dict_map (\<lambda>f. if f_user f = uid \<and>
      (f_status f = ''pending'' \<or> f_status f = ''active'')
      then f\<lparr>f_status := ''disabled'', disabled_at := Some now\<rparr> else f) (factors db))"
    using auth_invD(8) [OF inv] by (rule rows_updated_map) (simp add: factor_updated_def same_factor_def)
  from keeps_factors [OF inv this] have 1: "keeps db (disable_mfa_factors uid now db)"
    by (simp add: disable_mfa_factors_def)
  have "keeps (disable_mfa_factors uid now db) (delete_mfa_recovery_codes uid (disable_mfa_factors uid now db))"
    unfolding delete_mfa_recovery_codes_def
    by (rule keeps_codes [OF keepsD [OF 1]])
      (use keepsD [OF 1] in \<open>simp add: auth_inv_def distinct_map_filter\<close>)
  with 1 show ?thesis by (rule keeps_trans)
qed

subsection \<open>Spent recovery codes\<close>

text \<open>No unused row has the hash.\<close>

definition code_spent :: "string \<Rightarrow> auth_db \<Rightarrow> bool" where
  "code_spent h db \<longleftrightarrow> (\<forall>c \<in> set (codes db). code_hash c = h \<longrightarrow> used_at c \<noteq> None)"

lemma code_spent_same: "codes db' = codes db \<Longrightarrow> code_spent h db \<Longrightarrow> code_spent h db'"
  by (simp add: code_spent_def)

lemma codes_kept [simp]:
  "codes (put_user u db) = codes db" "codes (put_session s db) = codes db" "codes (put_token t db) = codes db"
  "codes (put_factor f db) = codes db" "codes (revoke_tokens P now db) = codes db"
  "codes (revoke_sessions Q now reason db) = codes db" "codes (revoke_all_for_user uid now reason db) = codes db"
  "codes (revoke_family s now reason reuse db) = codes db"
  "codes (add_session sid uid org fam tid h now expires mfa db) = codes db"
  "codes (rotate_refresh_token t tid h now expires db) = codes db"
  "codes (disable_pending_factors uid now db) = codes db" "codes (disable_mfa_factors uid now db) = codes db"
  by (simp_all add: put_user_def put_session_def put_token_def put_factor_def revoke_tokens_def revoke_sessions_def
      revoke_all_for_user_def revoke_family_def add_session_def rotate_refresh_token_def disable_pending_factors_def
      disable_mfa_factors_def split: option.split)

lemma codes_login [simp]: "codes (snd (login sv c email pw env db)) = codes db"
  by (cases rule: login_cases [of sv c email pw env db]) simp_all

lemma codes_refresh [simp]: "codes (snd (refresh sv c raw env db)) = codes db"
  by (cases rule: refresh_cases [of sv c raw env db]) simp_all

lemma codes_sessions [simp]:
  "codes (snd (logout sv raw now db)) = codes db" "codes (snd (logout_all sv raw now db)) = codes db"
  "codes (snd (revoke_session uid sid now db)) = codes db"
  by (simp_all add: logout_def logout_all_def revoke_session_def split: sum.split option.split)

lemma codes_enroll [simp]: "codes (snd (enroll a c uid label fid secret nonce now created db)) = codes db"
  by (auto simp: enroll_def enroll_unchecked_def add_pending_factor_def split: option.split sum.split)

lemma codes_mark: "mark_session_satisfied uid sid now db = Inr db' \<Longrightarrow> codes db' = codes db"
  by (auto simp: mark_session_satisfied_def split: option.splits if_splits)

lemma spent_replace:
  assumes "replace_recovery_codes fid hs db = Inr db'" and "h \<notin> set hs" and "code_spent h db"
  shows "code_spent h db'"
  using assms by (auto simp: replace_recovery_codes_def code_spent_def Let_def split: if_splits)

lemma spent_check:
  assumes "check_credential a f code recovery now db = Inr db'" and "code_spent h db"
  shows "code_spent h db'"
  using assms
  by (auto simp: check_credential_def code_spent_def split: option.splits sum.splits if_splits)

lemma spent_verify:
  assumes "code_spent h db"
  shows "code_spent h (snd (verify_mfa a uid sid code recovery now db))"
proof (cases "snd (verify_mfa a uid sid code recovery now db) = db")
  case False
  then have "verify_mfa a uid sid code recovery now db = (Inr (), snd (verify_mfa a uid sid code recovery now db))"
    using verify_mfa_cases [of a uid sid code recovery now db] by (simp add: prod_eq_iff)
  then obtain f db1 where "check_credential a f code recovery now db = Inr db1"
    "mark_session_satisfied uid sid now db1 = Inr (snd (verify_mfa a uid sid code recovery now db))"
    by (auto simp only: verify_mfa_granted)
  with assms show ?thesis by (metis code_spent_same codes_mark spent_check)
qed (use assms in simp)

text \<open>The hashes of drawn codes are digests of their texts.\<close>

lemma digest_all_source: "digest_all sv rs = Inr hs \<Longrightarrow> h \<in> set hs \<Longrightarrow> \<exists>r \<in> set rs. digest sv r recovery_purpose = Inr h"
  by (induction rs arbitrary: hs) (auto split: sum.splits)

lemma drawn_hash:
  assumes "generate_recovery_codes a c draw = Inr (raws, hs)"
    and "\<forall>i < recovery_code_count c. digest (mfa_services a) (recovery_code_text (draw i)) recovery_purpose \<noteq> Inr h"
  shows "h \<notin> set hs"
proof
  assume "h \<in> set hs"
  moreover have "digest_all (mfa_services a) (map (\<lambda>i. recovery_code_text (draw i)) [0..<recovery_code_count c]) = Inr hs"
    using assms(1) by (auto simp: generate_recovery_codes_def split: sum.splits)
  ultimately obtain r where "r \<in> set (map (\<lambda>i. recovery_code_text (draw i)) [0..<recovery_code_count c])"
    "digest (mfa_services a) r recovery_purpose = Inr h" using digest_all_source by blast
  with assms(2) show False by auto
qed

lemma spent_draws:
  assumes "code_spent h db"
    and new: "\<forall>i < recovery_code_count c. digest (mfa_services a) (recovery_code_text (draw i)) recovery_purpose \<noteq> Inr h"
  shows "code_spent h (snd (confirm_enrollment a c uid sid code now draw db))"
    and "code_spent h (snd (regenerate_recovery_codes a c uid sid now draw db))"
proof -
  show "code_spent h (snd (confirm_enrollment a c uid sid code now draw db))"
  proof (cases "snd (confirm_enrollment a c uid sid code now draw db) = db")
    case False
    then obtain raws hs f f1 db1 where gen: "generate_recovery_codes a c draw = Inr (raws, hs)"
      and "pending_factor uid db = Some f" and "verify_totp_factor a f code now = Inr f1"
      and r: "replace_recovery_codes (f_id f) hs (put_factor (f1\<lparr>f_status := ''active'', verified_at := Some now\<rparr>) db) = Inr db1"
      and m: "mark_session_satisfied uid sid now db1 = Inr (snd (confirm_enrollment a c uid sid code now draw db))"
      by (auto simp: confirm_enrollment_def split: sum.splits option.splits)
    have "code_spent h (put_factor (f1\<lparr>f_status := ''active'', verified_at := Some now\<rparr>) db)"
      using assms(1) by (simp add: code_spent_def)
    with spent_replace [OF r drawn_hash [OF gen new]] codes_mark [OF m] show ?thesis
      by (simp add: code_spent_def)
  qed (use assms in simp)
  show "code_spent h (snd (regenerate_recovery_codes a c uid sid now draw db))"
    using assms(1) drawn_hash [OF _ new] spent_replace [of _ _ db _ h]
    by (auto simp: regenerate_recovery_codes_def split: sum.splits option.splits)
qed

lemma spent_disable:
  assumes "code_spent h db"
  shows "code_spent h (snd (disable_mfa c uid sid now db))"
proof (cases "snd (disable_mfa c uid sid now db) = db")
  case False
  then obtain f db1 where
    "replace_recovery_codes (f_id f) [] (put_factor (f\<lparr>f_status := ''disabled'', disabled_at := Some now\<rparr>) db) = Inr db1"
    and "snd (disable_mfa c uid sid now db) = revoke_other_sessions uid sid now ''mfa_disabled'' db1"
    by (auto simp: disable_mfa_def split: sum.splits option.splits if_splits)
  moreover have "code_spent h (put_factor (f\<lparr>f_status := ''disabled'', disabled_at := Some now\<rparr>) db)"
    using assms by (simp add: code_spent_def)
  ultimately show ?thesis using spent_replace [of "f_id f" "[]" _ db1 h]
    by (simp add: revoke_other_sessions_def code_spent_def)
qed (use assms in simp)

lemma spent_recovery:
  "code_spent h db \<Longrightarrow> code_spent h (delete_mfa_recovery_codes uid (disable_mfa_factors uid now db))"
  by (auto simp: code_spent_def delete_mfa_recovery_codes_def)

end
