(* ===== verification/Auth_Runs.thy ===== *)
theory Auth_Runs
  imports Auth_Invariant
begin

section \<open>Runs of the authentication services\<close>

text \<open>
  The session service and the MFA service as one state machine over the identity tables. The other
  services of the package (registration, account recovery, administration) change users, memberships
  and authorities, revoke all sessions of a user and, in an account recovery, remove every factor of a
  user; they are the steps \<open>step_identity\<close>, \<open>step_revoke_user\<close> and \<open>step_recovery\<close>. A step is one
  transaction, and transactions run one after another. Random identifiers and tokens are drawn fresh;
  \<open>sys_spent\<close> is any set of hashes that the recovery codes drawn from now on do not have.
\<close>

record auth_system =
  sys_services :: auth_services
  sys_config :: session_config
  sys_authority :: mfa_authority
  sys_mfa :: mfa_config
  sys_spent :: "string set"

text \<open>No drawn recovery code has one of the spent hashes.\<close>

definition draw_unspent :: "auth_system \<Rightarrow> (nat \<Rightarrow> string) \<Rightarrow> bool" where
  "draw_unspent sys draw \<longleftrightarrow> (\<forall>i < recovery_code_count (sys_mfa sys). \<forall>h \<in> sys_spent sys.
     digest (mfa_services (sys_authority sys)) (recovery_code_text (draw i)) recovery_purpose \<noteq> Inr h)"

inductive auth_step :: "auth_system \<Rightarrow> auth_db \<Rightarrow> auth_db \<Rightarrow> bool" for sys where
  step_login: "fresh_draw (sys_services sys) env db \<Longrightarrow>
    auth_step sys db (snd (login (sys_services sys) (sys_config sys) email pw env db))"
| step_refresh: "fresh_draw (sys_services sys) env db \<Longrightarrow>
    auth_step sys db (snd (refresh (sys_services sys) (sys_config sys) raw env db))"
| step_logout: "auth_step sys db (snd (logout (sys_services sys) raw now db))"
| step_logout_all: "auth_step sys db (snd (logout_all (sys_services sys) raw now db))"
| step_revoke: "auth_step sys db (snd (revoke_session uid sid now db))"
| step_enroll: "dict_get (factors db) fid = None \<Longrightarrow>
    auth_step sys db (snd (enroll (sys_authority sys) (sys_mfa sys) uid label fid secret nonce now created db))"
| step_confirm: "draw_unspent sys draw \<Longrightarrow>
    auth_step sys db (snd (confirm_enrollment (sys_authority sys) (sys_mfa sys) uid sid code now draw db))"
| step_verify: "auth_step sys db (snd (verify_mfa (sys_authority sys) uid sid code_opt recovery now db))"
| step_regenerate: "draw_unspent sys draw \<Longrightarrow>
    auth_step sys db (snd (regenerate_recovery_codes (sys_authority sys) (sys_mfa sys) uid sid now draw db))"
| step_disable: "auth_step sys db (snd (disable_mfa (sys_mfa sys) uid sid now db))"
| step_identity: "users_ok us \<Longrightarrow> (\<And>k. dict_get (users db) k \<noteq> None \<Longrightarrow> dict_get us k \<noteq> None) \<Longrightarrow>
    auth_step sys db (db\<lparr>users := us, memberships := ms, authorities := as\<rparr>)"
| step_revoke_user: "auth_step sys db (revoke_all_for_user uid now reason db)"
| step_recovery: "auth_step sys db (delete_mfa_recovery_codes uid (disable_mfa_factors uid now db))"

inductive_cases auth_stepE: "auth_step sys db db'"

definition auth_start :: "auth_db \<Rightarrow> bool" where
  "auth_start db \<longleftrightarrow> users_ok (users db) \<and> sessions db = [] \<and> tokens db = [] \<and> factors db = [] \<and> codes db = []"

lemma keeps_identity:
  assumes "auth_inv db" and "users_ok us" and "\<And>k. dict_get (users db) k \<noteq> None \<Longrightarrow> dict_get us k \<noteq> None"
  shows "keeps db (db\<lparr>users := us, memberships := ms, authorities := as\<rparr>)"
  using inv_users [OF assms] by (simp add: keeps_def auth_inv_def auth_grows_def)

lemma auth_step_keeps:
  assumes "auth_step sys db db'" and "auth_inv db"
  shows "keeps db db'"
  using assms
proof (induction rule: auth_step.induct)
  case (step_identity us db ms as)
  then show ?case by (intro keeps_identity) simp_all
qed (simp_all add: keeps_login keeps_refresh keeps_logout keeps_logout_all keeps_revoke_session keeps_enroll
    keeps_confirm keeps_verify keeps_regenerate keeps_disable keeps_revoke_all keeps_recovery)

interpretation auth: transition_system auth_start "auth_step sys" auth_inv for sys
proof unfold_locales
  show "auth_inv db" if "auth_start db" for db
    using that by (simp add: auth_start_def auth_inv_def sessions_ok_def tokens_ok_def tokens_unique_def factors_ok_def)
  show "auth_inv db'" if "auth_inv db" "auth_step sys db db'" for db db'
    using auth_step_keeps [OF that(2,1)] by (rule keepsD)
qed

lemma auth_steps_keep: "(auth_step sys)\<^sup>*\<^sup>* db db' \<Longrightarrow> auth_inv db \<Longrightarrow> keeps db db'"
proof (induction rule: rtranclp_induct)
  case base
  then show ?case by (rule keeps_refl)
next
  case (step u v)
  then show ?case using auth_step_keeps keepsD keeps_trans by blast
qed

subsection \<open>The tables stay consistent\<close>

lemma auth_step_spent:
  assumes "auth_step sys db db'" and "h \<in> sys_spent sys" and "code_spent h db"
  shows "code_spent h db'"
  using assms
proof (induction rule: auth_step.induct)
  case (step_confirm draw uid sid code now db)
  then show ?case by (intro spent_draws(1)) (auto simp: draw_unspent_def)
next
  case (step_regenerate draw uid sid now db)
  then show ?case by (intro spent_draws(2)) (auto simp: draw_unspent_def)
next
  case (step_identity us db ms as)
  then show ?case by (simp add: code_spent_def)
qed (simp_all add: spent_verify spent_disable spent_recovery, simp_all add: code_spent_def)

lemma auth_steps_spent:
  "(auth_step sys)\<^sup>*\<^sup>* db db' \<Longrightarrow> h \<in> sys_spent sys \<Longrightarrow> code_spent h db \<Longrightarrow> code_spent h db'"
  by (induction rule: rtranclp_induct) (auto intro: auth_step_spent)

text \<open>C13. In every state that transactions of the services, run one after another, reach from tables
  with users only, rows are stored under their ids, emails and token hashes are unique, every refresh
  token belongs to a session with the same expiry and every session to a user, a session has at most
  one unconsumed token and a user at most one factor that is not disabled, and no two recovery codes
  share a hash. Along every further run no consumed token is ever unconsumed, no revoked session valid
  again, no disabled factor enabled, no TOTP counter falls, and no recovery code that was used, or
  replaced, or deleted is usable again, as long as its text is not drawn anew.\<close>

theorem auth_reachable_inv:
  assumes "auth_start db0" and "(auth_step sys)\<^sup>*\<^sup>* db0 db"
  shows "auth_inv db \<and> (\<forall>db'. (auth_step sys)\<^sup>*\<^sup>* db db' \<longrightarrow> auth_grows db db' \<and>
    (\<forall>h \<in> sys_spent sys. (\<forall>c \<in> set (codes db). code_hash c = h \<longrightarrow> used_at c \<noteq> None) \<longrightarrow>
       (\<forall>c \<in> set (codes db'). code_hash c = h \<longrightarrow> used_at c \<noteq> None)))"
proof -
  have "auth_inv db" by (rule auth.steps_inv [OF assms(2) auth.inv_start [OF assms(1)]])
  with auth_steps_keep auth_steps_spent show ?thesis unfolding keeps_def code_spent_def by blast
qed

subsection \<open>Refresh tokens are used once\<close>

lemma refresh_granted:
  assumes inv: "auth_inv db" and "refresh sv c raw env db = (Inr r, db')" and fresh: "fresh_draw sv env db"
  obtains h t s u tok ein where "digest sv raw refresh_purpose = Inr h"
    and "refresh_principals h db = Some (t, s, u)" and "as_revoked_at s = None" and "clock env 0 < as_expires_at s"
    and "u_status u = ''active''" and "issued_session_id r = as_id s"
    and "issue_access_token c (u_id u) (as_id s) (as_organization s) (as_expires_at s)
       (requires_mfa (u_id u) db \<and> mfa_satisfied_at s = None) (active_platform_authorities (u_id u) db) (clock env 1) =
       Inr (tok, ein)" and "access_token r = tok" and "access_expires_in r = ein" and "refresh_token_raw r = new_raw env"
    and "mfa_required r = (requires_mfa (u_id u) db \<and> mfa_satisfied_at s = None)"
    and "\<exists>t'. dict_get (tokens db') (rt_id t) = Some t' \<and> consumed_at t' \<noteq> None \<and> token_hash t' = h \<and> rt_session t' = as_id s"
proof (cases rule: refresh_cases [of sv c raw env db])
  case (failed e)
  with assms(2) show ?thesis by simp
next
  case (reuse h t s u)
  with assms(2) show ?thesis by simp
next
  case (expired h t s u)
  with assms(2) show ?thesis by simp
next
  case (rotated h t s u th)
  note p = refresh_principalsD [OF inv rotated(2)]
  show ?thesis
  proof (cases "issue_access_token c (u_id u) (as_id s) (as_organization s) (as_expires_at s)
       (requires_mfa (u_id u) db \<and> mfa_satisfied_at s = None) (active_platform_authorities (u_id u) db) (clock env 1)")
    case (Inl e)
    with assms(2) rotated(9) show ?thesis by simp
  next
    case (Inr te)
    obtain tok ein where te: "te = (tok, ein)" by (cases te)
    from assms(2) rotated(9) Inr te have r: "r = \<lparr>access_token = tok, access_expires_in = ein, refresh_token_raw = new_raw env,
             refresh_expires_in = max 1 (py_trunc (as_expires_at s - clock env 2)), issued_session_id = as_id s,
             mfa_required = (requires_mfa (u_id u) db \<and> mfa_satisfied_at s = None)\<rparr>"
      and db': "db' = put_session (s\<lparr>last_seen_at := Some (clock env 0)\<rparr>)
           (rotate_refresh_token t (new_token_id env) th (clock env 0) (as_expires_at s) db)"
      by simp_all
    show ?thesis
    proof (rule that [OF rotated(1,2,5,6,7) _ Inr [unfolded te]])
    qed (use r db' p fresh in \<open>auto simp: rotate_refresh_token_def put_session_def put_token_def dict_simps new_token_def fresh_draw_def\<close>)
  qed
qed

lemma keeps_revoked:
  assumes "keeps db db'" and "dict_get (sessions db) sid = Some s" and "as_revoked_at s \<noteq> None"
  shows "\<exists>s'. dict_get (sessions db') sid = Some s' \<and> as_revoked_at s' \<noteq> None"
  using assms unfolding keeps_def auth_grows_def rows_grow_def same_session_def by blast

lemma refresh_consumes:
  assumes "auth_inv db" and "refresh sv c raw env db = (Inr r, db')" and "fresh_draw sv env db"
  shows "\<exists>h k t. digest sv raw refresh_purpose = Inr h \<and> dict_get (tokens db') k = Some t \<and> consumed_at t \<noteq> None \<and>
    token_hash t = h \<and> rt_session t = issued_session_id r"
proof (rule refresh_granted [OF assms])
  fix h t s
  assume "digest sv raw refresh_purpose = Inr h" and "issued_session_id r = as_id s"
    and "\<exists>t'. dict_get (tokens db') (rt_id t) = Some t' \<and> consumed_at t' \<noteq> None \<and> token_hash t' = h \<and> rt_session t' = as_id s"
  then show ?thesis by auto
qed

lemma refresh_reuse:
  assumes inv: "auth_inv db" and t: "dict_get (tokens db) k = Some t" and "consumed_at t \<noteq> None"
    and h: "digest sv raw refresh_purpose = Inr (token_hash t)"
  obtains s where "refresh sv c raw env db =
      (Inl RefreshTokenReuse, revoke_family s (clock env 0) ''refresh_token_reuse'' (Some t) db)"
    and "as_id s = rt_session t"
    and "keeps db (revoke_family s (clock env 0) ''refresh_token_reuse'' (Some t) db)"
proof -
  obtain s u where p: "refresh_principals (token_hash t) db = Some (t, s, u)"
    by (rule refresh_principals_find [OF inv t])
  note pD = refresh_principalsD [OF inv p]
  show ?thesis
  proof (rule that)
    show "refresh sv c raw env db =
        (Inl RefreshTokenReuse, revoke_family s (clock env 0) ''refresh_token_reuse'' (Some t) db)"
      using assms(3) by (simp add: refresh_def h p)
    show "keeps db (revoke_family s (clock env 0) ''refresh_token_reuse'' (Some t) db)"
      using keeps_revoke_family [OF inv pD(4), of "Some t"] pD(1) by simp
  qed (use pD in simp)
qed

lemma refresh_of_revoked:
  assumes inv: "auth_inv db" and t: "dict_get (tokens db) k = Some t"
    and s: "dict_get (sessions db) (rt_session t) = Some s" "as_revoked_at s \<noteq> None"
    and h: "digest sv raw refresh_purpose = Inr (token_hash t)"
  shows "\<exists>e. fst (refresh sv c raw env db) = Inl e"
proof -
  obtain s' u where "refresh_principals (token_hash t) db = Some (t, s', u)" "dict_get (sessions db) (rt_session t) = Some s'"
    by (rule refresh_principals_find [OF inv t])
  with s have p: "refresh_principals (token_hash t) db = Some (t, s, u)" by simp
  show ?thesis
  proof (cases "consumed_at t")
    case None
    with s(2) show ?thesis by (auto simp: refresh_def h p)
  next
    case (Some x)
    then show ?thesis by (simp add: refresh_def h p)
  qed
qed

text \<open>C12. A refresh token works once. After it has been exchanged, whatever calls follow, presenting
  it again is answered with \<open>RefreshTokenReuseError\<close>; from then on the session it belongs to is
  revoked for ever, and no token of that session, also not the ones issued by later rotations, is
  accepted by a refresh again.\<close>

theorem refresh_single_use:
  assumes inv: "auth_inv db" and fresh: "fresh_draw (sys_services sys) env db"
    and first: "refresh (sys_services sys) (sys_config sys) raw env db = (Inr r, db1)"
    and steps: "(auth_step sys)\<^sup>*\<^sup>* db1 db2"
    and second: "refresh (sys_services sys) (sys_config sys) raw env2 db2 = (res, db3)"
    and later: "(auth_step sys)\<^sup>*\<^sup>* db3 db4"
  shows "res = Inl RefreshTokenReuse \<and>
    (\<exists>s. dict_get (sessions db4) (issued_session_id r) = Some s \<and> as_revoked_at s \<noteq> None) \<and>
    (\<forall>k t raw' env'. dict_get (tokens db4) k = Some t \<longrightarrow> rt_session t = issued_session_id r \<longrightarrow>
      digest (sys_services sys) raw' refresh_purpose = Inr (token_hash t) \<longrightarrow>
      (\<exists>e. fst (refresh (sys_services sys) (sys_config sys) raw' env' db4) = Inl e))"
proof -
  obtain h k t1 where h: "digest (sys_services sys) raw refresh_purpose = Inr h"
    and t1: "dict_get (tokens db1) k = Some t1" "consumed_at t1 \<noteq> None" "token_hash t1 = h"
      "rt_session t1 = issued_session_id r"
    using refresh_consumes [OF inv first fresh] by blast
  have "keeps db db1" using keeps_refresh [OF inv fresh, of "sys_config sys" raw] first by simp
  then have k2: "keeps db1 db2" by (rule auth_steps_keep [OF steps keepsD])
  then obtain t2 where t2: "dict_get (tokens db2) k = Some t2" "same_token t1 t2"
    using t1(1) unfolding keeps_def auth_grows_def rows_grow_def by blast
  have c2: "consumed_at t2 \<noteq> None" and h2: "digest (sys_services sys) raw refresh_purpose = Inr (token_hash t2)"
    and s2: "rt_session t2 = issued_session_id r"
    using t1 t2(2) h by (auto simp: same_token_def)
  obtain s where r: "refresh (sys_services sys) (sys_config sys) raw env2 db2 =
      (Inl RefreshTokenReuse, revoke_family s (clock env2 0) ''refresh_token_reuse'' (Some t2) db2)"
    and s: "as_id s = rt_session t2"
    and k3: "keeps db2 (revoke_family s (clock env2 0) ''refresh_token_reuse'' (Some t2) db2)"
    by (rule refresh_reuse [OF keepsD [OF k2] t2(1) c2 h2, of "sys_config sys" env2])
  with second have res: "res = Inl RefreshTokenReuse"
    and db3: "db3 = revoke_family s (clock env2 0) ''refresh_token_reuse'' (Some t2) db2" by simp_all
  have inv3: "auth_inv db3" using k3 db3 by (simp add: keeps_def)
  have k4: "keeps db3 db4" by (rule auth_steps_keep [OF later inv3])
  obtain s3 where s3: "dict_get (sessions db3) (issued_session_id r) = Some s3" "as_revoked_at s3 \<noteq> None"
    using revoke_family_revokes [where s = s] unfolding db3 s s2 by blast
  then obtain s4 where s4: "dict_get (sessions db4) (issued_session_id r) = Some s4" "as_revoked_at s4 \<noteq> None"
    using keeps_revoked [OF k4] by blast
  moreover have "\<forall>k t raw' env'. dict_get (tokens db4) k = Some t \<longrightarrow> rt_session t = issued_session_id r \<longrightarrow>
      digest (sys_services sys) raw' refresh_purpose = Inr (token_hash t) \<longrightarrow>
      (\<exists>e. fst (refresh (sys_services sys) (sys_config sys) raw' env' db4) = Inl e)"
    using refresh_of_revoked [OF keepsD [OF k4]] s4 by metis
  ultimately show ?thesis using res by blast
qed

subsection \<open>Lockout\<close>

definition login_run ::
    "auth_services \<Rightarrow> session_config \<Rightarrow> (string \<times> string \<times> auth_env) list \<Rightarrow> auth_db \<Rightarrow> auth_db" where
  "login_run sv c attempts db = foldl (\<lambda>db (email, pw, env). snd (login sv c email pw env db)) db attempts"

lemma emails_unique:
  assumes "auth_inv db" and "dict_get (users db) k = Some u" and "dict_get (users db) k' = Some u'"
    and "email_normalized u = email_normalized u'"
  shows "k = k'"
  using assms unfolding auth_inv_def users_ok_def by blast

lemma user_for_login_iff:
  assumes inv: "auth_inv db"
  shows "user_for_login em db = Some u \<longleftrightarrow> dict_get (users db) (u_id u) = Some u \<and> email_normalized u = em"
proof
  assume "user_for_login em db = Some u"
  with user_for_loginD [OF inv] show "dict_get (users db) (u_id u) = Some u \<and> email_normalized u = em" by blast
next
  assume u: "dict_get (users db) (u_id u) = Some u \<and> email_normalized u = em"
  then have "u \<in> set (map snd (users db))" using dict_values_iff [OF auth_invD(5) [OF inv]] by blast
  with u have "user_for_login em db \<noteq> None" by (auto simp: user_for_login_def find_None_iff)
  then obtain v where v: "user_for_login em db = Some v" by blast
  have "u_id v = u_id u"
    using emails_unique [OF inv user_for_loginD(1) [OF inv v] conjunct1 [OF u]] user_for_loginD(2) [OF inv v]
      conjunct2 [OF u] by simp
  then have "Some v = Some u" using user_for_loginD(1) [OF inv v] conjunct1 [OF u] by (simp only:)
  with v show "user_for_login em db = Some u" by (simp only:)
qed

lemma login_locked:
  assumes "normalize_email sv email = Some em" and "user_for_login em db = Some u" and "is_locked u (clock env 0)"
  shows "login sv c email pw env db = (Inl InvalidSessionCredentials, db)"
  using assms by (simp add: login_def)

lemma login_wrong_password:
  assumes "normalize_email sv email = Some em" and "user_for_login em db = Some u"
    and "\<not> argon_verify sv (password_hash u) pw"
  shows "login sv c email pw env db = (Inl InvalidSessionCredentials,
    if is_locked u (clock env 0) then db else put_user (count_failed_login c (clock env 0) u) db)"
  using assms by (simp add: login_def verify_password_def)

text \<open>The account after \<open>n\<close> wrong passwords in the window of one lockout duration from \<open>t0\<close>.\<close>

definition throttled :: "session_config \<Rightarrow> seconds \<Rightarrow> identity_user \<Rightarrow> nat \<Rightarrow> identity_user \<Rightarrow> bool" where
  "throttled c t0 u n u' \<longleftrightarrow> u_id u' = u_id u \<and> email_normalized u' = email_normalized u \<and>
     password_hash u' = password_hash u \<and>
     failed_login_count u' = (if n = 0 then failed_login_count u
        else min (failed_login_count u + int n) (max (failed_login_count u + 1) (failed_login_limit c))) \<and>
     (if 0 < n \<and> failed_login_limit c \<le> failed_login_count u'
      then \<exists>t. locked_until u' = Some t \<and> t0 + lockout_duration c \<le> t else locked_until u' = locked_until u)"

lemma throttled_step:
  assumes thr: "throttled c t0 u n u'" and free: "\<not> is_locked u t0"
    and now: "t0 \<le> now" "now < t0 + lockout_duration c"
  shows "throttled c t0 u (Suc n) (if is_locked u' now then u' else count_failed_login c now u')"
proof (cases "is_locked u' now")
  case True
  have "locked_until u' \<noteq> locked_until u"
    using True free now(1) by (auto simp: is_locked_def split: option.splits)
  then show ?thesis using thr True by (auto simp: throttled_def split: if_splits)
next
  case False
  have "\<not> (0 < n \<and> failed_login_limit c \<le> failed_login_count u')"
  proof
    assume "0 < n \<and> failed_login_limit c \<le> failed_login_count u'"
    with thr obtain t where "locked_until u' = Some t" "t0 + lockout_duration c \<le> t" by (auto simp: throttled_def)
    with False now show False by (simp add: is_locked_def)
  qed
  with thr False now show ?thesis
    by (auto simp: throttled_def count_failed_login_def split: if_splits)
qed

text \<open>An attempt on the account with a wrong password, within one lockout duration from \<open>t0\<close>.\<close>

definition guess :: "auth_services \<Rightarrow> session_config \<Rightarrow> string \<Rightarrow> identity_user \<Rightarrow> seconds
    \<Rightarrow> string \<times> string \<times> auth_env \<Rightarrow> bool" where
  "guess sv c em u t0 = (\<lambda>(email, pw, env). normalize_email sv email = Some em \<and>
     \<not> argon_verify sv (password_hash u) pw \<and> t0 \<le> clock env 0 \<and> clock env 0 < t0 + lockout_duration c)"

lemma guesses_throttled:
  assumes inv: "auth_inv db" and u: "user_for_login em db = Some u" and free: "\<not> is_locked u t0"
    and "\<forall>x \<in> set attempts. guess sv c em u t0 x"
  shows "\<exists>u'. auth_inv (login_run sv c attempts db) \<and> user_for_login em (login_run sv c attempts db) = Some u' \<and>
    throttled c t0 u (length attempts) u'"
  using assms(4)
proof (induction attempts rule: rev_induct)
  case Nil
  with inv u show ?case by (simp add: login_run_def throttled_def)
next
  case (snoc x xs)
  obtain email pw env where x: "x = (email, pw, env)" by (cases x)
  let ?db = "login_run sv c xs db"
  from snoc obtain v where v: "auth_inv ?db" "user_for_login em ?db = Some v" "throttled c t0 u (length xs) v" by auto
  from snoc.prems x have g: "normalize_email sv email = Some em" "\<not> argon_verify sv (password_hash u) pw"
    "t0 \<le> clock env 0" "clock env 0 < t0 + lockout_duration c" by (auto simp: guess_def)
  have hash: "password_hash v = password_hash u" using v(3) by (simp add: throttled_def)
  let ?v = "if is_locked v (clock env 0) then v else count_failed_login c (clock env 0) v"
  note vD = user_for_loginD [OF v(1,2)]
  have run: "login_run sv c (xs @ [x]) db = (if is_locked v (clock env 0) then ?db else put_user ?v ?db)"
    using login_wrong_password [OF g(1) v(2), of pw c env] g(2) hash by (simp add: login_run_def x)
  have keep: "keeps ?db (put_user (count_failed_login c (clock env 0) v) ?db)"
    by (rule keeps_user [OF v(1) vD(1)]) simp_all
  have "auth_inv (login_run sv c (xs @ [x]) db) \<and> user_for_login em (login_run sv c (xs @ [x]) db) = Some ?v"
  proof (cases "is_locked v (clock env 0)")
    case True
    with v run show ?thesis by simp
  next
    case False
    have "user_for_login em (put_user (count_failed_login c (clock env 0) v) ?db) = Some (count_failed_login c (clock env 0) v)"
      unfolding user_for_login_iff [OF keepsD [OF keep]] using vD(2) by (simp add: put_user_def dict_simps)
    with False run keepsD [OF keep] show ?thesis by simp
  qed
  moreover have "throttled c t0 u (length (xs @ [x])) ?v"
    using throttled_step [OF v(3) free g(3,4)] by simp
  ultimately show ?case by blast
qed

text \<open>C14. Guessing passwords is throttled. In a run of wrong passwords tried on an account that is
  not locked, with no successful login in between (one clears the counter), at most \<open>failed_login_limit\<close> of
  those within one lockout duration are counted (one, when earlier failures already reached the
  limit), and as soon as the limit is reached every login of
  that account, also one with the right password, is refused until the duration is over and changes
  nothing.\<close>

theorem lockout_throttles:
  assumes inv: "auth_inv db" and u: "user_for_login em db = Some u" and free: "\<not> is_locked u t0"
    and att: "\<forall>x \<in> set attempts. guess sv c em u t0 x" and ne: "attempts \<noteq> []"
  shows "\<exists>u'. user_for_login em (login_run sv c attempts db) = Some u' \<and>
    failed_login_count u' =
      min (failed_login_count u + int (length attempts)) (max (failed_login_count u + 1) (failed_login_limit c)) \<and>
    (failed_login_limit c \<le> failed_login_count u' \<longrightarrow>
      (\<forall>email pw env. normalize_email sv email = Some em \<longrightarrow> clock env 0 < t0 + lockout_duration c \<longrightarrow>
        login sv c email pw env (login_run sv c attempts db) =
          (Inl InvalidSessionCredentials, login_run sv c attempts db)))"
proof -
  from guesses_throttled [OF inv u free att] obtain v
    where v: "user_for_login em (login_run sv c attempts db) = Some v" "throttled c t0 u (length attempts) v" by blast
  have "is_locked v t" if "failed_login_limit c \<le> failed_login_count v" "t < t0 + lockout_duration c" for t
    using v(2) that ne by (auto simp: throttled_def is_locked_def split: if_splits)
  then have "\<forall>email pw env. normalize_email sv email = Some em \<longrightarrow> clock env 0 < t0 + lockout_duration c \<longrightarrow>
      login sv c email pw env (login_run sv c attempts db) = (Inl InvalidSessionCredentials, login_run sv c attempts db)"
    if "failed_login_limit c \<le> failed_login_count v"
    using that login_locked [OF _ v(1)] by blast
  with v ne show ?thesis by (auto simp: throttled_def)
qed

subsection \<open>Access tokens\<close>

lemma issued_bounds:
  assumes "issue_access_token c uid sid org expires mfa auths now = Inr (tok, ein)"
  shows "ein = at_lifetime tok" and "1 \<le> ein" and "ein \<le> access_token_seconds c" and "now + of_int ein \<le> expires"
    and "at_scopes tok = (if mfa then [''auth:mfa''] else [''evaluation''])" and "at_session tok = sid"
    and "at_subject tok = uid"
proof -
  define n where "n = min (access_token_seconds c) (py_trunc (expires - now))"
  from assms have n: "1 \<le> n" and ein: "ein = n"
    and tok: "at_lifetime tok = n" "at_scopes tok = (if mfa then [''auth:mfa''] else [''evaluation''])"
      "at_session tok = sid" "at_subject tok = uid"
    by (auto simp: issue_access_token_def n_def [symmetric] Let_def split: if_splits)
  have "0 \<le> expires - now"
  proof (rule ccontr)
    assume neg: "\<not> 0 \<le> expires - now"
    then have "\<lceil>expires - now\<rceil> \<le> 0" by (simp add: ceiling_le_zero)
    with neg n show False by (simp add: n_def py_trunc_def)
  qed
  then have "n \<le> \<lfloor>expires - now\<rfloor>" by (simp add: n_def py_trunc_def)
  then have "of_int n \<le> expires - now" by (simp add: le_floor_iff)
  with n ein tok show "ein = at_lifetime tok" "1 \<le> ein" "ein \<le> access_token_seconds c" "now + of_int ein \<le> expires"
    "at_scopes tok = (if mfa then [''auth:mfa''] else [''evaluation''])" "at_session tok = sid" "at_subject tok = uid"
    by (auto simp: n_def)
qed

text \<open>C30. What a refresh hands out never outlives the session and respects the second factor: the
  session is unrevoked and unexpired and its user active, the access token lives at least one second
  and at most the configured time and not past the expiry of the session, it names the user and the
  session, and as long as the user needs a second factor that the session has not seen its only scope
  is \<open>auth:mfa\<close>.\<close>

theorem refresh_respects_session:
  assumes inv: "auth_inv db" and fresh: "fresh_draw sv env db" and res: "refresh sv c raw env db = (Inr r, db')"
  shows "\<exists>s u. dict_get (sessions db) (issued_session_id r) = Some s \<and> dict_get (users db) (as_user s) = Some u \<and>
    as_revoked_at s = None \<and> clock env 0 < as_expires_at s \<and> u_status u = ''active'' \<and>
    at_session (access_token r) = issued_session_id r \<and> at_subject (access_token r) = as_user s \<and>
    1 \<le> access_expires_in r \<and> access_expires_in r \<le> access_token_seconds c \<and>
    clock env 1 + of_int (at_lifetime (access_token r)) \<le> as_expires_at s \<and>
    (requires_mfa (as_user s) db \<longrightarrow> mfa_satisfied_at s = None \<longrightarrow> at_scopes (access_token r) = [''auth:mfa''])"
proof (rule refresh_granted [OF inv res fresh])
  fix h t s u tok ein
  assume p: "refresh_principals h db = Some (t, s, u)" and "as_revoked_at s = None" and "clock env 0 < as_expires_at s"
    and "u_status u = ''active''" and "issued_session_id r = as_id s"
    and tok: "issue_access_token c (u_id u) (as_id s) (as_organization s) (as_expires_at s)
       (requires_mfa (u_id u) db \<and> mfa_satisfied_at s = None) (active_platform_authorities (u_id u) db) (clock env 1) =
       Inr (tok, ein)"
    and "access_token r = tok" and "access_expires_in r = ein"
  moreover note refresh_principalsD [OF inv p] issued_bounds [OF tok]
  ultimately show ?thesis by (intro exI [of _ s] exI [of _ u]) simp
qed

end
