(* ===== verification/Mfa_Runs.thy ===== *)
theory Mfa_Runs
  imports Auth_Runs
begin

section \<open>Second factors along runs\<close>

text \<open>
  The shape of one-time passwords, the round trips of cipher and recovery codes, and the second
  factor along runs: a time step is accepted once, a recovery code is used once, enrollment leads to
  a factor whose codes are accepted, and the step-up gate guards the removal of a factor.
\<close>

subsection \<open>Codes have six digits\<close>

lemma dec_text_digits: "list_all py_isdigit (dec_text n)"
proof (induction n rule: dec_text.induct)
  case (1 n)
  have "py_isdigit (char_of (48 + n mod 10))" if "\<not> n < 10" by (simp add: py_isdigit_def)
  moreover have "py_isdigit (char_of (48 + n))" if "n < 10" using that by (simp add: py_isdigit_def)
  ultimately show ?case using 1 by (subst dec_text.simps) simp
qed

lemma dec_text_length: "n < 10 ^ Suc k \<Longrightarrow> length (dec_text n) \<le> Suc k"
proof (induction k arbitrary: n)
  case 0
  then show ?case by (subst dec_text.simps) simp
next
  case (Suc k)
  then have "length (dec_text (n div 10)) \<le> Suc k" by (simp add: div_less_iff_less_mult)
  then show ?case by (subst dec_text.simps) simp
qed

lemma unpack_u32_total: "length bs = 4 \<Longrightarrow> \<exists>w. unpack_u32 bs = Inr w"
  by (simp add: unpack_u32_def)

lemma offset_bound: "unat ((w :: 8 word) AND 0x0F) \<le> 15"
proof -
  have "w AND 0x0F \<le> 0x0F" by (rule word_and_le1)
  then show ?thesis by (simp add: word_le_nat_alt)
qed

lemma code_shape:
  assumes "totp_code_for_step mac secret st = Inr code"
  shows "length code = totp_digits \<and> list_all py_isdigit code"
proof -
  from assms obtain n where code: "code = zfill totp_digits (dec_text (n mod 10 ^ totp_digits))"
    by (auto simp: totp_code_for_step_def split: if_splits sum.splits)
  have "length (dec_text (n mod 10 ^ Suc 5)) \<le> Suc 5" by (rule dec_text_length) simp
  with code dec_text_digits show ?thesis by (auto simp: zfill_def totp_digits_def list_all_iff py_isdigit_def)
qed

lemma totp_total:
  assumes "\<And>k m. length (mac k m) = 20" and "20 \<le> length secret" and "0 \<le> st" and "st < 2 ^ 64"
  shows "\<exists>code. totp_code_for_step mac secret st = Inr code"
proof -
  from assms(3,4) obtain msg where msg: "pack_u64 st = Inr msg" by (simp add: pack_u64_def)
  let ?m = "mac secret msg"
  let ?o = "unat ((of_nat (of_char (last ?m)) :: 8 word) AND 0x0F)"
  have m: "length ?m = 20" by (rule assms(1))
  have "length (take 4 (drop ?o ?m)) = 4" using m offset_bound [of "of_nat (of_char (last ?m))"] by simp
  from unpack_u32_total [OF this] obtain w where w: "unpack_u32 (take 4 (drop ?o ?m)) = Inr w" by blast
  have "?m \<noteq> []" using m by auto
  with w msg assms(2,3) have "\<exists>code. totp_code_for_step mac secret st = Inr code"
    by (simp add: totp_code_for_step_def totp_secret_bytes_def)
  then show ?thesis .
qed

text \<open>C33. With a MAC of twenty bytes, as SHA-1 gives, every secret of at least twenty bytes has a code
  for every time step that fits eight bytes, the dynamic truncation never reads outside the MAC, and a
  code always consists of exactly six decimal digits.\<close>

theorem totp_code_total:
  assumes "\<And>k m. length (mac k m) = 20" and "20 \<le> length secret" and "0 \<le> st" and "st < 2 ^ 64"
  shows "\<exists>code. totp_code_for_step mac secret st = Inr code \<and> length code = 6 \<and> list_all py_isdigit code"
  using totp_total [OF assms] code_shape by (fastforce simp: totp_digits_def)

subsection \<open>A time step is accepted once\<close>

lemma verify_code_granted:
  assumes inv: "auth_inv db" and "verify_mfa a uid sid (Some code) recovery now db = (Inr (), db')"
  obtains f secret st where "active_factor uid db = Some f" and "decrypt_factor a f = Inr secret"
    and "totp_code_for_step (hmac_sha1 a) secret st = Inr code" and "\<forall>l. last_used_step f = Some l \<longrightarrow> l < st"
    and "\<bar>st - \<lfloor>now / totp_period_seconds\<rfloor>\<bar> \<le> 1"
    and "dict_get (factors db') (f_id f) = Some (f\<lparr>last_used_step := Some st\<rparr>)"
proof -
  from assms(2) obtain f db1 where f: "active_factor uid db = Some f"
    and c: "check_credential a f (Some code) recovery now db = Inr db1" and m: "mark_session_satisfied uid sid now db1 = Inr db'"
    by (auto simp only: verify_mfa_granted)
  from c obtain f1 where v: "verify_totp_factor a f code now = Inr f1" and db1: "db1 = put_factor f1 db"
    by (auto simp: check_credential_def split: sum.splits)
  obtain secret st where st: "decrypt_factor a f = Inr secret" "f1 = f\<lparr>last_used_step := Some st\<rparr>"
    "\<forall>l. last_used_step f = Some l \<longrightarrow> l < st" "totp_code_for_step (hmac_sha1 a) secret st = Inr code"
    "\<bar>st - \<lfloor>now / totp_period_seconds\<rfloor>\<bar> \<le> 1"
    by (rule verify_totp_factorD [OF v])
  have "factors db' = factors (put_factor f1 db)"
    using m db1 by (auto simp: mark_session_satisfied_def put_session_def split: option.splits if_splits)
  with st show ?thesis
    by (intro that [OF f st(1,4,3)]) (auto simp: put_factor_def dict_simps)
qed

lemma keeps_factor_row:
  assumes "keeps db db'" and "dict_get (factors db) k = Some f"
  shows "\<exists>f'. dict_get (factors db') k = Some f' \<and> same_factor f f'"
  using assms unfolding keeps_def auth_grows_def rows_grow_def by blast

text \<open>C15. A one-time password is accepted at most once. When a code has been verified for a user, then
  whatever calls follow, a later code verified against the same factor belongs to a strictly later time
  step; both lie at most one step from the clock.\<close>

theorem totp_no_replay:
  assumes inv: "auth_inv db"
    and first: "verify_mfa (sys_authority sys) uid sid (Some code) rec now db = (Inr (), db1)"
    and steps: "(auth_step sys)\<^sup>*\<^sup>* db1 db2"
    and second: "verify_mfa (sys_authority sys) uid sid' (Some code') rec' now' db2 = (Inr (), db3)"
    and same: "map_option f_id (active_factor uid db2) = map_option f_id (active_factor uid db)"
  shows "\<exists>f secret st st'. active_factor uid db = Some f \<and> decrypt_factor (sys_authority sys) f = Inr secret \<and>
    totp_code_for_step (hmac_sha1 (sys_authority sys)) secret st = Inr code \<and>
    totp_code_for_step (hmac_sha1 (sys_authority sys)) secret st' = Inr code' \<and> st < st' \<and>
    \<bar>st - \<lfloor>now / totp_period_seconds\<rfloor>\<bar> \<le> 1 \<and> \<bar>st' - \<lfloor>now' / totp_period_seconds\<rfloor>\<bar> \<le> 1"
proof -
  let ?a = "sys_authority sys"
  obtain f secret st where f: "active_factor uid db = Some f" "decrypt_factor ?a f = Inr secret"
    "totp_code_for_step (hmac_sha1 ?a) secret st = Inr code" "\<bar>st - \<lfloor>now / totp_period_seconds\<rfloor>\<bar> \<le> 1"
    "dict_get (factors db1) (f_id f) = Some (f\<lparr>last_used_step := Some st\<rparr>)"
    by (rule verify_code_granted [OF inv first])
  have 1: "keeps db db1" using keeps_verify [OF inv, of ?a uid sid "Some code" rec now] first by simp
  have 2: "keeps db1 db2" by (rule auth_steps_keep [OF steps keepsD [OF 1]])
  obtain g secret' st' where g: "active_factor uid db2 = Some g" "decrypt_factor ?a g = Inr secret'"
    "totp_code_for_step (hmac_sha1 ?a) secret' st' = Inr code'" "\<forall>l. last_used_step g = Some l \<longrightarrow> l < st'"
    "\<bar>st' - \<lfloor>now' / totp_period_seconds\<rfloor>\<bar> \<le> 1"
    by (rule verify_code_granted [OF keepsD [OF 2] second])
  have id: "f_id g = f_id f" using same f(1) g(1) by simp
  from keeps_factor_row [OF 2 f(5)] obtain g' where g': "dict_get (factors db2) (f_id f) = Some g'"
    "same_factor (f\<lparr>last_used_step := Some st\<rparr>) g'" by blast
  have "Some g = Some g'" using active_factorD(1) [OF keepsD [OF 2] g(1)] g'(1) id by (simp only:)
  then have sf: "same_factor (f\<lparr>last_used_step := Some st\<rparr>) g" using g'(2) by (simp only: option.inject)
  then obtain l where "last_used_step g = Some l" "st \<le> l" unfolding same_factor_def by auto
  with g(4) have "st < st'" by force
  moreover have "secret' = secret"
    using sf f(2) g(2) by (simp add: decrypt_factor_def same_factor_def split: sum.splits)
  ultimately show ?thesis using f(1-4) g(3,5) by blast
qed

subsection \<open>Recovery codes\<close>

lemma digestD: "digest sv r p = Inr h \<Longrightarrow> h = hmac_digest sv p r"
  by (auto simp: digest_def split: if_splits)

lemma recovery_granted:
  assumes "verify_mfa a uid sid None (Some r) now db = (Inr (), db')"
  obtains f h where "active_factor uid db = Some f"
    and "digest (mfa_services a) (normalize_recovery_code r) recovery_purpose = Inr h"
    and "list_ex (unused_recovery_code (f_id f) h) (codes db)"
    and "codes db' = map (\<lambda>x. if unused_recovery_code (f_id f) h x then x\<lparr>used_at := Some now\<rparr> else x) (codes db)"
    and "factors db' = factors db"
proof -
  from assms obtain f db1 where f: "active_factor uid db = Some f"
    and c: "check_credential a f None (Some r) now db = Inr db1" and m: "mark_session_satisfied uid sid now db1 = Inr db'"
    by (auto simp only: verify_mfa_granted)
  from m have eq: "codes db' = codes db1" "factors db' = factors db1"
    by (auto simp: mark_session_satisfied_def put_session_def split: option.splits if_splits)
  from c obtain h where "digest (mfa_services a) (normalize_recovery_code r) recovery_purpose = Inr h"
    "list_ex (unused_recovery_code (f_id f) h) (codes db)"
    "db1 = db\<lparr>codes := map (\<lambda>x. if unused_recovery_code (f_id f) h x then x\<lparr>used_at := Some now\<rparr> else x) (codes db)\<rparr>"
    by (auto simp: check_credential_def split: sum.splits if_splits)
  with f eq show ?thesis by (intro that) auto
qed

lemma mark_used_none:
  "\<not> list_ex (unused_recovery_code fid h)
      (map (\<lambda>x. if unused_recovery_code fid h x then x\<lparr>used_at := Some now\<rparr> else x) cs)"
  by (induction cs) (simp_all add: unused_recovery_code_def)

text \<open>Marking the one row with a hash takes one from the number of unused rows.\<close>

lemma mark_used_count:
  assumes "distinct (map code_hash cs)" and "list_ex (unused_recovery_code fid h) cs"
  shows "Suc (length (filter (\<lambda>c. c_factor c = fid \<and> used_at c = None)
      (map (\<lambda>x. if unused_recovery_code fid h x then x\<lparr>used_at := Some now\<rparr> else x) cs))) =
    length (filter (\<lambda>c. c_factor c = fid \<and> used_at c = None) cs)"
  using assms
proof (induction cs)
  case (Cons x xs)
  show ?case
  proof (cases "unused_recovery_code fid h x")
    case True
    then have "h = code_hash x" by (simp add: unused_recovery_code_def)
    with Cons.prems(1) have "h \<notin> code_hash ` set xs" by simp
    then have "\<forall>y \<in> set xs. \<not> unused_recovery_code fid h y"
      unfolding unused_recovery_code_def by blast
    then have "map (\<lambda>x. if unused_recovery_code fid h x then x\<lparr>used_at := Some now\<rparr> else x) xs = xs"
      by (simp add: map_idI)
    with True show ?thesis by (simp add: unused_recovery_code_def)
  next
    case False
    with Cons.prems have "distinct (map code_hash xs)" "list_ex (unused_recovery_code fid h) xs" by simp_all
    from Cons.IH [OF this] False show ?thesis by simp
  qed
qed simp

lemma verify_spent:
  assumes "digest (mfa_services a) (normalize_recovery_code r) recovery_purpose = Inr h" and "code_spent h db"
  shows "verify_mfa a uid sid None (Some r) now db = (Inl InvalidMfaCredential, db)"
proof (cases "active_factor uid db")
  case None
  then show ?thesis by (simp add: verify_mfa_def)
next
  case (Some f)
  have "\<not> list_ex (unused_recovery_code (f_id f) h) (codes db)"
    using assms(2) by (auto simp: code_spent_def unused_recovery_code_def list_ex_iff)
  with Some assms(1) show ?thesis by (simp add: verify_mfa_def check_credential_def)
qed

lemma mark_used_spent:
  assumes "distinct (map code_hash cs)" and "list_ex (unused_recovery_code fid h) cs"
    and "x \<in> set (map (\<lambda>x. if unused_recovery_code fid h x then x\<lparr>used_at := Some now\<rparr> else x) cs)" and "code_hash x = h"
  shows "used_at x \<noteq> None"
proof -
  from assms(3) obtain y where y: "y \<in> set cs"
    "x = (if unused_recovery_code fid h y then y\<lparr>used_at := Some now\<rparr> else y)" by auto
  from assms(2) obtain z where z: "z \<in> set cs" "unused_recovery_code fid h z" by (auto simp: list_ex_iff)
  have "code_hash y = code_hash z"
    using y(2) z(2) assms(4) by (auto simp: unused_recovery_code_def split: if_splits)
  moreover have "inj_on code_hash (set cs)" using assms(1) by (simp add: distinct_map)
  ultimately have "y = z" using y(1) z(1) by (meson inj_onD)
  with y(2) z(2) show ?thesis by simp
qed

text \<open>C31. A recovery code works once, for ever: using it takes exactly one from the codes that remain,
  and after any further transactions whatever spelling of it (spaces around it, lower case) is
  presented, for any user and by any session at any time, is refused and changes nothing, as long as
  the random source does not draw the same code again.\<close>

theorem recovery_code_single_use:
  assumes inv: "auth_inv db"
    and first: "verify_mfa (sys_authority sys) uid sid None (Some r) now db = (Inr (), db1)"
    and steps: "(auth_step sys)\<^sup>*\<^sup>* db1 db2"
    and spent: "\<And>h. digest (mfa_services (sys_authority sys)) (normalize_recovery_code r) recovery_purpose = Inr h \<Longrightarrow>
      h \<in> sys_spent sys"
    and same: "normalize_recovery_code r' = normalize_recovery_code r"
  shows "(\<exists>f. active_factor uid db1 = Some f \<and> active_factor uid db = Some f \<and>
      Suc (recovery_codes_remaining (f_id f) db1) = recovery_codes_remaining (f_id f) db) \<and>
    verify_mfa (sys_authority sys) uid' sid' None (Some r') now' db2 = (Inl InvalidMfaCredential, db2)"
proof -
  let ?a = "sys_authority sys"
  obtain f h where f: "active_factor uid db = Some f"
    and h: "digest (mfa_services ?a) (normalize_recovery_code r) recovery_purpose = Inr h"
    and u: "list_ex (unused_recovery_code (f_id f) h) (codes db)"
    and cs: "codes db1 = map (\<lambda>x. if unused_recovery_code (f_id f) h x then x\<lparr>used_at := Some now\<rparr> else x) (codes db)"
    and fs: "factors db1 = factors db"
    by (rule recovery_granted [OF first])
  have dist: "distinct (map code_hash (codes db))" using inv by (simp add: auth_inv_def)
  have f1: "active_factor uid db1 = Some f" using f fs by (simp add: active_factor_def factors_of_def)
  have "Suc (recovery_codes_remaining (f_id f) db1) = recovery_codes_remaining (f_id f) db"
    unfolding recovery_codes_remaining_def cs using dist u by (rule mark_used_count)
  moreover have "code_spent h db1"
    unfolding code_spent_def cs using mark_used_spent [OF dist u] by blast
  from auth_steps_spent [OF steps spent [OF h] this] have "code_spent h db2" .
  with verify_spent [of ?a r' h db2] h same
  have "verify_mfa ?a uid' sid' None (Some r') now' db2 = (Inl InvalidMfaCredential, db2)" by simp
  ultimately show ?thesis using f f1 by blast
qed

subsection \<open>Generated codes survive normalization\<close>

lemma bits_value_bound: "bits_value bs < 2 ^ length bs"
proof -
  have "foldl (\<lambda>n b. 2 * n + of_bool b) a bs < (a + 1) * 2 ^ length bs" for a :: nat
  proof (induction bs arbitrary: a)
    case (Cons b bs)
    have "foldl (\<lambda>n b. 2 * n + of_bool b) (2 * a + of_bool b) bs < (2 * a + of_bool b + 1) * 2 ^ length bs"
      by (rule Cons.IH)
    also have "\<dots> \<le> (a + 1) * 2 ^ length (b # bs)" by (cases b) (simp_all add: algebra_simps)
    finally show ?case by simp
  qed simp
  from this [of 0] show ?thesis by (simp add: bits_value_def)
qed

lemma b32_groups_alphabet: "set (b32_groups bs) \<subseteq> set b32_alphabet"
proof (induction bs rule: b32_groups.induct)
  case (2 b bs)
  have "bits_value (take 5 ((b # bs) @ replicate 4 False)) < 2 ^ length (take 5 ((b # bs) @ replicate 4 False))"
    by (rule bits_value_bound)
  also have "length (take 5 ((b # bs) @ replicate 4 False)) = 5" by simp
  finally have "bits_value (take 5 ((b # bs) @ replicate 4 False)) < length b32_alphabet"
    by (simp add: b32_alphabet_def)
  then have "b32_alphabet ! bits_value (take 5 ((b # bs) @ replicate 4 False)) \<in> set b32_alphabet" by (rule nth_mem)
  with 2 show ?case by simp
qed simp

lemma code_chars_plain: "list_all (\<lambda>c. upper_char c = [c] \<and> \<not> py_isspace c) (CHR ''-'' # b32_alphabet)"
  by (simp add: b32_alphabet_def upper_char_def py_isspace_def)

lemma recovery_code_plain:
  assumes "c \<in> set (recovery_code_text bs)"
  shows "upper_char c = [c] \<and> \<not> py_isspace c"
proof -
  have "set (recovery_code_text bs) \<subseteq> {CHR ''-''} \<union> set (b32_text bs)"
    by (auto simp: recovery_code_text_def dest: in_set_takeD in_set_dropD)
  then have "c \<in> set (CHR ''-'' # b32_alphabet)"
    using assms b32_groups_alphabet unfolding b32_text_def by auto
  with code_chars_plain show ?thesis unfolding list_all_iff by blast
qed

lemma strip_plain:
  assumes "\<And>c. c \<in> set s \<Longrightarrow> \<not> py_isspace c"
  shows "py_strip s = s"
proof -
  have "hd (rev s) \<in> set s" if "s \<noteq> []" using that hd_in_set [of "rev s"] by simp
  with assms have "dropWhile py_isspace s = s" and "dropWhile py_isspace (rev s) = rev s"
    by (auto simp: dropWhile_eq_self_iff)
  then show ?thesis by (simp add: py_strip_def)
qed

lemma normalize_generated: "normalize_recovery_code (recovery_code_text bs) = recovery_code_text bs"
proof -
  have "py_strip (recovery_code_text bs) = recovery_code_text bs"
    using recovery_code_plain by (intro strip_plain) blast
  moreover have "concat (map upper_char s) = s" if "\<forall>c \<in> set s. upper_char c = [c]" for s
    using that by (induction s) simp_all
  ultimately show ?thesis using recovery_code_plain by (simp add: normalize_recovery_code_def)
qed

subsection \<open>Enrollment leads to a working factor\<close>

lemma factors_unique:
  assumes "auth_inv db" and "dict_get (factors db) k = Some f" and "dict_get (factors db) k' = Some f'"
    and "f_user f = f_user f'" and "f_status f \<noteq> ''disabled''" and "f_status f' \<noteq> ''disabled''"
  shows "k = k'"
  using assms unfolding auth_inv_def factors_ok_def by blast

lemma only_factor:
  assumes inv: "auth_inv db" and g: "dict_get (factors db) k = Some g" "f_user g = uid" "f_status g = st"
    and "st \<noteq> ''disabled''"
  shows "factors_of uid st db = [g]"
proof -
  have mem: "g \<in> set (factors_of uid st db)"
    using g dict_values_iff [OF auth_invD(8) [OF inv], of g] by (auto simp: factors_of_def)
  have all: "h = g" if "h \<in> set (factors_of uid st db)" for h
  proof -
    note hD = factors_ofD [OF inv that]
    have "f_id h = k"
      by (rule factors_unique [OF inv hD(1) g(1)]) (simp_all add: hD(2,3) g(2,3) assms(5))
    then have "Some h = Some g" using hD(1) g(1) by (simp only:)
    then show ?thesis by simp
  qed
  have "f_id v = k" if "(k, v) \<in> set (factors db)" for k v
    using auth_invD(4) [OF inv] that dict_get_in [OF auth_invD(8) [OF inv]] by blast
  then have "map f_id (map snd (factors db)) = map fst (factors db)" by auto
  then have "distinct (map snd (factors db))" using auth_invD(8) [OF inv] by (metis distinct_map)
  then have "distinct (factors_of uid st db)" unfolding factors_of_def by (rule distinct_filter)
  moreover have "set (factors_of uid st db) = {g}" using mem all by blast
  ultimately have "length (factors_of uid st db) = 1" by (metis distinct_card card.empty card_insert_disjoint empty_iff finite.emptyI One_nat_def)
  then obtain x where "factors_of uid st db = [x]" by (auto simp: length_Suc_conv)
  with \<open>set (factors_of uid st db) = {g}\<close> show ?thesis by simp
qed

lemma active_factor_only:
  assumes "auth_inv db" and "dict_get (factors db) k = Some g" and "f_user g = uid" and "f_status g = ''active''"
  shows "active_factor uid db = Some g"
  using only_factor [OF assms(1-4)] by (simp add: active_factor_def least_by_def)

lemma pending_factor_only:
  assumes "auth_inv db" and "dict_get (factors db) k = Some g" and "f_user g = uid" and "f_status g = ''pending''"
  shows "pending_factor uid db = Some g"
  using only_factor [OF assms(1-4)] by (simp add: pending_factor_def least_by_def)

text \<open>What AES-GCM promises: decryption undoes encryption, and the tag makes the text sixteen bytes longer.\<close>

definition aead_laws :: "aes_gcm \<Rightarrow> bool" where
  "aead_laws g \<longleftrightarrow> (\<forall>k n p ad. gcm_decrypt g k n (gcm_encrypt g k n p ad) ad = Some p \<and>
     length (gcm_encrypt g k n p ad) = length p + 16)"

lemma decrypt_encrypt:
  assumes "aead_laws g" and "encrypt_secret g c nonce secret uid fid = Inr enc" and "length nonce = nonce_bytes"
  shows "decrypt_secret g c enc uid fid = Inr secret"
  using assms
  by (auto simp: encrypt_secret_def decrypt_secret_def aead_laws_def split: if_splits sum.splits option.splits)

lemma match_steps_first:
  assumes "\<And>st. st \<in> set steps \<Longrightarrow> 0 \<le> st \<Longrightarrow> \<exists>k. totp_code_for_step mac secret st = Inr k"
    and "st \<in> set steps" and "0 \<le> st" and "totp_code_for_step mac secret st = Inr code"
  shows "\<exists>st'. match_steps mac secret code None steps = Inr \<lparr>accepted = True, matched_step = Some st', totp_reason = ''accepted''\<rparr>"
  using assms
proof (induction steps)
  case (Cons x xs)
  show ?case
  proof (cases "0 \<le> x")
    case True
    with Cons.prems(1) [of x] obtain k where k: "totp_code_for_step mac secret x = Inr k" by auto
    show ?thesis
    proof (cases "k = code")
      case False
      with k Cons.prems(2,4) have "st \<in> set xs" by auto
      with Cons False True k show ?thesis by simp
    qed (use True k in simp)
  next
    case False
    with Cons.prems(2,3) have "st \<in> set xs" by auto
    with Cons False show ?thesis by simp
  qed
qed simp

lemma current_code_accepted:
  assumes len: "\<And>k m. length (hmac_sha1 a k m) = 20" and dec: "decrypt_factor a f = Inr secret"
    and "last_used_step f = None" and now: "0 \<le> now" "now < 2 ^ 64"
    and code: "totp_code_for_step (hmac_sha1 a) secret \<lfloor>now / totp_period_seconds\<rfloor> = Inr code"
  shows "\<exists>st. verify_totp_factor a f code now = Inr (f\<lparr>last_used_step := Some st\<rparr>)"
proof -
  let ?c = "\<lfloor>now / totp_period_seconds\<rfloor>"
  let ?steps = "map (\<lambda>i. ?c + i) [- 1..1]"
  have c0: "0 \<le> ?c" using now by (simp add: totp_period_seconds_def)
  have c1: "?c + 1 < 2 ^ 64"
  proof -
    have "now / 30 < 2 ^ 60" using now by simp
    then have "\<lfloor>now / 30\<rfloor> < 2 ^ 60" by (simp add: floor_less_iff)
    moreover have "n + 1 < 2 ^ 64" if "n < 2 ^ 60" for n :: int using that by simp
    ultimately show ?thesis unfolding totp_period_seconds_def by blast
  qed
  have secret: "20 \<le> length secret"
    using code by (auto simp: totp_code_for_step_def totp_secret_bytes_def split: if_splits)
  have "\<exists>k. totp_code_for_step (hmac_sha1 a) secret st = Inr k" if "st \<in> set ?steps" "0 \<le> st" for st
  proof -
    have "st \<le> ?c + 1" using that(1) by auto
    then have "st < 2 ^ 64" using c1 by (rule le_less_trans)
    then show ?thesis using totp_total [where mac = "hmac_sha1 a", OF len secret that(2)] by blast
  qed
  moreover have "?c \<in> set ?steps" by simp
  ultimately obtain st where
    "match_steps (hmac_sha1 a) secret code None ?steps = Inr \<lparr>accepted = True, matched_step = Some st, totp_reason = ''accepted''\<rparr>"
    using match_steps_first [of ?steps "hmac_sha1 a" secret ?c code] c0 code by blast
  with code_shape [OF code] now assms(3) dec show ?thesis
    by (intro exI [of _ st]) (simp add: verify_totp_factor_def verify_totp_def)
qed

lemma enroll_granted:
  assumes inv: "auth_inv db" and fresh: "dict_get (factors db) fid = None"
    and res: "enroll a c uid label fid secret nonce now created db = (Inr e, db')"
  obtains enc f where "encrypt_secret (aead a) (mfa_cipher a) nonce secret uid fid = Inr enc"
    and "dict_get (factors db') fid = Some f" and "f_id f = fid" and "f_user f = uid" and "f_status f = ''pending''"
    and "(f_ciphertext f, f_key_version f) = enc" and "last_used_step f = None"
    and "codes db' = codes db" and "sessions db' = sessions db" and "keeps db db'"
proof -
  have keep: "keeps db db'" using keeps_enroll [OF inv fresh, of a c uid label secret nonce now created] res by simp
  let ?f = "\<lambda>enc. \<lparr>f_id = fid, f_user = uid, f_label = label, f_status = ''pending'', f_ciphertext = fst enc,
    f_key_version = snd enc, verified_at = None, last_used_step = None, disabled_at = None, f_created_at = created\<rparr>"
  from res obtain enc where enc: "encrypt_secret (aead a) (mfa_cipher a) nonce secret uid fid = Inr enc"
    and db': "db' = put_factor (?f enc) (disable_pending_factors uid now db)"
    by (auto simp: enroll_def enroll_unchecked_def add_pending_factor_def split: if_splits option.splits sum.splits)
  show ?thesis
    by (rule that [OF enc, of "?f enc"])
      (use keep in \<open>simp_all add: db' put_factor_def disable_pending_factors_def dict_simps\<close>)
qed

lemma digest_all_digests: "digest_all sv rs = Inr hs \<Longrightarrow> r \<in> set rs \<Longrightarrow> \<exists>h \<in> set hs. digest sv r recovery_purpose = Inr h"
  by (induction rs arbitrary: hs) (auto split: sum.splits)

lemma generated_code:
  assumes "generate_recovery_codes a c draw = Inr (raws, hs)" and "r \<in> set raws"
  obtains h where "h \<in> set hs" and "digest (mfa_services a) (normalize_recovery_code r) recovery_purpose = Inr h"
proof -
  from assms have d: "digest_all (mfa_services a) raws = Inr hs" and "\<exists>bs. r = recovery_code_text bs"
    by (auto simp: generate_recovery_codes_def split: sum.splits)
  then have "normalize_recovery_code r = r" using normalize_generated by blast
  with digest_all_digests [OF d assms(2)] show ?thesis using that by auto
qed

text \<open>A stored unused code opens the session.\<close>

lemma recovery_accepted:
  assumes "active_factor uid db = Some f" and "\<lparr>c_factor = f_id f, code_hash = h, used_at = None\<rparr> \<in> set (codes db)"
    and "digest (mfa_services a) (normalize_recovery_code r) recovery_purpose = Inr h"
    and "owned_session sid uid db = Some s" and "as_revoked_at s = None" and "now < as_expires_at s"
  shows "\<exists>db'. verify_mfa a uid sid None (Some r) now db = (Inr (), db')"
proof -
  have "list_ex (unused_recovery_code (f_id f) h) (codes db)"
    using assms(2) by (force simp: list_ex_iff unused_recovery_code_def)
  with assms show ?thesis
    by (simp add: verify_mfa_def check_credential_def mark_session_satisfied_def owned_session_def)
qed

lemma confirm_accepted:
  assumes "generate_recovery_codes a c draw = Inr (raws, hs)" and "pending_factor uid db = Some f"
    and "verify_totp_factor a f code now = Inr (f\<lparr>last_used_step := w\<rparr>)"
    and "distinct hs" and "\<forall>x \<in> set (codes db). code_hash x \<notin> set hs"
    and "owned_session sid uid db = Some s" and "as_revoked_at s = None" and "now < as_expires_at s"
  shows "confirm_enrollment a c uid sid code now draw db = (Inr raws,
    put_session (s\<lparr>mfa_satisfied_at := Some now\<rparr>)
      (db\<lparr>factors := dict_set (f_id f) (f\<lparr>last_used_step := w, f_status := ''active'', verified_at := Some now\<rparr>) (factors db),
         codes := filter (\<lambda>x. c_factor x \<noteq> f_id f) (codes db) @
           map (\<lambda>h. \<lparr>c_factor = f_id f, code_hash = h, used_at = None\<rparr>) hs\<rparr>))"
  using assms
  by (auto simp: confirm_enrollment_def replace_recovery_codes_def mark_session_satisfied_def owned_session_def
      put_factor_def put_session_def list_all_iff split: option.splits)

subsection \<open>The secret in base 32\<close>

text \<open>What an authenticator reads: groups of five bits put together to bytes, a rest of less than eight
  bits dropped.\<close>

definition b32_index :: "char \<Rightarrow> nat" where
  "b32_index ch = length (takeWhile (\<lambda>x. x \<noteq> ch) b32_alphabet)"

definition five_bits :: "nat \<Rightarrow> bool list" where
  "five_bits n = map (\<lambda>i. bit n (4 - i)) [0..<5]"

fun bytes_of_bits :: "bool list \<Rightarrow> string" where
  "bytes_of_bits (a # b # c # d # e # f # g # h # bs) = char_of (bits_value [a, b, c, d, e, f, g, h]) # bytes_of_bits bs"
| "bytes_of_bits bs = []"

definition b32_decode :: "string \<Rightarrow> string" where
  "b32_decode s = bytes_of_bits (concat (map (\<lambda>ch. five_bits (b32_index ch)) s))"

lemma five_bits_all: "list_all (\<lambda>bs. five_bits (b32_index (b32_alphabet ! bits_value bs)) = bs) (List.n_lists 5 [False, True])"
  by code_simp

lemma five_bits_group: "length bs = 5 \<Longrightarrow> five_bits (b32_index (b32_alphabet ! bits_value bs)) = bs"
proof -
  assume "length bs = 5"
  then have "bs \<in> set (List.n_lists 5 [False, True])" by (auto simp: set_n_lists)
  with five_bits_all show ?thesis unfolding list_all_iff by blast
qed

lemma b32_groups_bits:
  "\<exists>k < 5. concat (map (\<lambda>ch. five_bits (b32_index ch)) (b32_groups bs)) = bs @ replicate k False"
proof (induction bs rule: b32_groups.induct)
  case 1
  show ?case by (intro exI [of _ 0]) simp
next
  case (2 b bs)
  let ?g = "take 5 ((b # bs) @ replicate 4 False)"
  have g: "five_bits (b32_index (b32_alphabet ! bits_value ?g)) = ?g" by (rule five_bits_group) simp
  show ?case
  proof (cases "length bs < 4")
    case True
    then have "?g = (b # bs) @ replicate (4 - length bs) False" by simp
    with True g show ?thesis by (intro exI [of _ "4 - length bs"]) simp
  next
    case False
    then have "?g = b # take 4 bs" by simp
    moreover obtain k where "k < 5"
      "concat (map (\<lambda>ch. five_bits (b32_index ch)) (b32_groups (drop 4 bs))) = drop 4 bs @ replicate k False"
      using 2 by blast
    ultimately show ?thesis using g by (intro exI [of _ k]) (simp add: append_assoc [symmetric] del: append_assoc)
  qed
qed

lemma bits_value_horner: "bits_value bs = horner_sum of_bool 2 (rev bs)"
  by (induction bs rule: rev_induct) (simp_all add: bits_value_def)

lemma byte_of_bits: "char_of (bits_value (byte_bits ch)) = ch"
proof -
  have "rev (byte_bits ch) = map (bit (of_char ch :: nat)) [0..<8]"
    by (simp add: byte_bits_def upt_rec) (simp add: eval_nat_numeral)
  then have "bits_value (byte_bits ch) = take_bit 8 (of_char ch :: nat)"
    by (simp add: bits_value_horner horner_sum_bit_eq_take_bit)
  also have "\<dots> = of_char ch" by (simp add: take_bit_eq_mod)
  finally show ?thesis by simp
qed

lemma bytes_of_byte_bits: "bytes_of_bits (byte_bits ch @ bs) = ch # bytes_of_bits bs"
proof -
  obtain a b c d e f g h where "byte_bits ch = [a, b, c, d, e, f, g, h]"
    by (simp add: byte_bits_def upt_rec)
  with byte_of_bits [of ch] show ?thesis by simp
qed

lemma decode_b32_text: "b32_decode (b32_text bs) = bs"
proof -
  have rest: "bytes_of_bits (replicate k False) = []" if "k < 5" for k
  proof -
    from that have "k = 0 \<or> k = 1 \<or> k = 2 \<or> k = 3 \<or> k = 4" by linarith
    then show ?thesis by (auto simp: numeral_eq_Suc)
  qed
  have "bytes_of_bits (concat (map byte_bits bs) @ replicate k False) = bs" if "k < 5" for k
    using rest [OF that] by (induction bs) (simp_all add: bytes_of_byte_bits)
  then show ?thesis
    using b32_groups_bits [of "concat (map byte_bits bs)"] by (auto simp: b32_decode_def b32_text_def)
qed

text \<open>C16. Enrollment leads to a working second factor. When a user enrolls, an authenticator that
  decodes the returned secret has a code for the present time step, and confirming with this code
  succeeds, from then on the user needs the second factor, and every recovery code that was handed out
  opens the session, as long as that is valid. The MAC has twenty bytes and the AEAD cipher is correct;
  the drawn recovery codes are distinct and new.\<close>

theorem enrollment_works:
  assumes inv: "auth_inv db" and laws: "aead_laws (aead a)" and len: "\<And>k m. length (hmac_sha1 a k m) = 20"
    and fresh: "dict_get (factors db) fid = None" and nonce: "length nonce = nonce_bytes"
    and enr: "enroll a c uid label fid secret nonce now created db = (Inr e, db1)"
    and now': "0 \<le> now'" "now' < 2 ^ 64"
    and gen: "generate_recovery_codes a c draw = Inr (raws, hs)" and hs: "distinct hs" "\<forall>x \<in> set (codes db). code_hash x \<notin> set hs"
    and sess: "owned_session sid uid db = Some s" "as_revoked_at s = None" "now' < as_expires_at s"
  shows "\<exists>code db2. totp_code_for_step (hmac_sha1 a) (b32_decode (enrollment_secret e))
        \<lfloor>now' / totp_period_seconds\<rfloor> = Inr code \<and>
    confirm_enrollment a c uid sid code now' draw db1 = (Inr raws, db2) \<and> requires_mfa uid db2 \<and>
    (\<forall>r \<in> set raws. \<forall>t < as_expires_at s. \<exists>db3. verify_mfa a uid sid None (Some r) t db2 = (Inr (), db3))"
proof -
  obtain enc f where enc: "encrypt_secret (aead a) (mfa_cipher a) nonce secret uid fid = Inr enc"
    and f: "dict_get (factors db1) fid = Some f" "f_id f = fid" "f_user f = uid" "f_status f = ''pending''"
      "(f_ciphertext f, f_key_version f) = enc" "last_used_step f = None"
    and same: "codes db1 = codes db" "sessions db1 = sessions db" and keep: "keeps db db1"
    by (rule enroll_granted [OF inv fresh enr])
  have dec: "decrypt_factor a f = Inr secret"
    using decrypt_encrypt [OF laws enc nonce] f by (simp add: decrypt_factor_def)
  have shown: "b32_decode (enrollment_secret e) = secret"
    using enr by (auto simp: enroll_def enroll_unchecked_def encode_totp_secret_def decode_b32_text
        split: if_splits option.splits sum.splits)
  obtain code where code: "totp_code_for_step (hmac_sha1 a) secret \<lfloor>now' / totp_period_seconds\<rfloor> = Inr code"
  proof -
    have "20 \<le> length secret" using enc by (simp add: encrypt_secret_def split: if_splits)
    moreover have "0 \<le> \<lfloor>now' / totp_period_seconds\<rfloor>" using now'(1) by (simp add: totp_period_seconds_def)
    moreover have "\<lfloor>now' / totp_period_seconds\<rfloor> < 2 ^ 64"
    proof -
      have "now' / 30 < 2 ^ 64" using now' by simp
      then show ?thesis unfolding totp_period_seconds_def by (simp add: floor_less_iff)
    qed
    ultimately show thesis using totp_total [where mac = "hmac_sha1 a", OF len] that by blast
  qed
  obtain st where v: "verify_totp_factor a f code now' = Inr (f\<lparr>last_used_step := Some st\<rparr>)"
    using current_code_accepted [OF len dec f(6) now' code] by blast
  have p: "pending_factor uid db1 = Some f" by (rule pending_factor_only [OF keepsD [OF keep] f(1,3,4)])
  have s1: "owned_session sid uid db1 = Some s" using sess(1) same(2) by (simp add: owned_session_def)
  define g where "g = f\<lparr>last_used_step := Some st, f_status := ''active'', verified_at := Some now'\<rparr>"
  define db2 where "db2 = put_session (s\<lparr>mfa_satisfied_at := Some now'\<rparr>)
      (db1\<lparr>factors := dict_set (f_id f) g (factors db1),
         codes := filter (\<lambda>x. c_factor x \<noteq> f_id f) (codes db1) @
           map (\<lambda>h. \<lparr>c_factor = f_id f, code_hash = h, used_at = None\<rparr>) hs\<rparr>)"
  have conf: "confirm_enrollment a c uid sid code now' draw db1 = (Inr raws, db2)"
    unfolding db2_def g_def by (rule confirm_accepted [OF gen p v hs(1) _ s1 sess(2,3)]) (simp add: same(1) hs(2))
  have inv2: "auth_inv db2" using keepsD [OF keeps_confirm [OF keepsD [OF keep], of a c uid sid code now' draw]] conf by simp
  have g: "dict_get (factors db2) fid = Some g" "f_user g = uid" "f_status g = ''active''" "f_id g = fid"
    using f by (simp_all add: db2_def put_session_def dict_simps g_def)
  have act: "active_factor uid db2 = Some g" by (rule active_factor_only [OF inv2 g(1-3)])
  have req: "requires_mfa uid db2"
    using act least_by_SomeD(1) by (force simp: active_factor_def factors_of_def requires_mfa_def list_ex_iff)
  have ids: "as_id s = sid" "as_user s = uid" using owned_sessionD [OF keepsD [OF keep] s1] by simp_all
  have s2: "owned_session sid uid db2 = Some (s\<lparr>mfa_satisfied_at := Some now'\<rparr>)"
    using ids by (simp add: db2_def owned_session_def put_session_def dict_simps)
  have "\<exists>db3. verify_mfa a uid sid None (Some r) t db2 = (Inr (), db3)" if r: "r \<in> set raws" and t: "t < as_expires_at s" for r t
  proof -
    obtain h where h: "h \<in> set hs" "digest (mfa_services a) (normalize_recovery_code r) recovery_purpose = Inr h"
      by (rule generated_code [OF gen r])
    have "\<lparr>c_factor = f_id g, code_hash = h, used_at = None\<rparr> \<in> set (codes db2)"
      using h(1) by (simp add: db2_def put_session_def g_def)
    from recovery_accepted [OF act this h(2) s2] sess(2) t show ?thesis by simp
  qed
  with conf req code show ?thesis unfolding shown by blast
qed

subsection \<open>The step-up gate and re-enrollment\<close>

lemma recent_step_upD:
  assumes "recent_step_up c so now"
  obtains s t where "so = Some s" and "as_revoked_at s = None" and "now < as_expires_at s"
    and "mfa_satisfied_at s = Some t" and "now - step_up_ttl c \<le> t"
  using assms by (auto simp: recent_step_up_def split: option.splits)

lemma disable_removes:
  assumes inv: "auth_inv db" and res: "disable_mfa c uid sid now db = (Inr (), db')"
  shows "active_factor uid db' = None \<and>
    (\<forall>k s. dict_get (sessions db') k = Some s \<longrightarrow> as_user s = uid \<longrightarrow> k \<noteq> sid \<longrightarrow> as_revoked_at s \<noteq> None) \<and>
    requires_mfa uid db' = list_ex (\<lambda>p. p_user p = uid \<and> p_authority p = ''platform_admin'' \<and> p_status p = ''active'') (authorities db)"
proof -
  from res have step: "recent_step_up c (owned_session sid uid db) now" and role: "\<not> privileged_member uid db"
    by (auto simp: disable_mfa_def is_required_by_role_def split: if_splits)
  from res step role obtain f db1 where f: "active_factor uid db = Some f"
    and r: "replace_recovery_codes (f_id f) [] (put_factor (f\<lparr>f_status := ''disabled'', disabled_at := Some now\<rparr>) db) = Inr db1"
    and db': "db' = revoke_other_sessions uid sid now ''mfa_disabled'' db1"
    by (auto simp: disable_mfa_def is_required_by_role_def split: option.splits sum.splits)
  note fD = active_factorD [OF inv f]
  from r have rows: "factors db1 = dict_set (f_id f) (f\<lparr>f_status := ''disabled'', disabled_at := Some now\<rparr>) (factors db)"
    "sessions db1 = sessions db" "memberships db1 = memberships db" "authorities db1 = authorities db"
    by (auto simp: replace_recovery_codes_def put_factor_def split: if_splits)
  have inv': "auth_inv db'" using keepsD [OF keeps_disable [OF inv, of c uid sid now]] res by simp
  have same: "factors db' = factors db1" "authorities db' = authorities db1" "memberships db' = memberships db1"
    by (simp_all add: db' revoke_other_sessions_def revoke_sessions_def)
  have none: "factors_of uid ''active'' db' = []"
  proof (rule ccontr)
    assume "factors_of uid ''active'' db' \<noteq> []"
    then obtain g where "g \<in> set (factors_of uid ''active'' db')" using hd_in_set by blast
    note gD = factors_ofD [OF inv' this]
    have "dict_get (dict_set (f_id f) (f\<lparr>f_status := ''disabled'', disabled_at := Some now\<rparr>) (factors db)) (f_id g) = Some g"
      using gD(1) by (simp only: same rows)
    then have "f_id g \<noteq> f_id f" and g: "dict_get (factors db) (f_id g) = Some g"
      using gD(3) by (auto simp: dict_simps split: if_splits)
    moreover have "f_id g = f_id f"
      by (rule factors_unique [OF inv g fD(1)]) (simp_all add: gD fD)
    ultimately show False by simp
  qed
  have revoked: "as_revoked_at s \<noteq> None"
    if s: "dict_get (sessions db') k = Some s" "as_user s = uid" "k \<noteq> sid" for k s
  proof -
    from s(1) obtain z where z: "dict_get (sessions db) k = Some z"
      and sz: "s = (if (as_user z = uid \<and> as_id z \<noteq> sid) \<and> as_revoked_at z = None
        then z\<lparr>as_revoked_at := Some now, revoke_reason := Some ''mfa_disabled''\<rparr> else z)"
      by (auto simp: db' revoke_other_sessions_def revoke_sessions_def rows dict_simps)
    have "as_id z \<noteq> sid" using auth_invD(2) [OF inv z] s(3) by simp
    then show ?thesis using sz s(2) by (auto split: if_splits)
  qed
  have "active_factor uid db' = None" using none by (simp add: active_factor_def)
  moreover have "requires_mfa uid db' =
      list_ex (\<lambda>p. p_user p = uid \<and> p_authority p = ''platform_admin'' \<and> p_status p = ''active'') (authorities db)"
    using none role by (auto simp: requires_mfa_def factors_of_def filter_empty_conv list_ex_iff same rows privileged_member_def)
  ultimately show ?thesis using revoked by blast
qed

lemma disable_outcome:
  "disable_mfa c uid sid now db = (Inr (), snd (disable_mfa c uid sid now db)) \<or>
    (\<exists>e. disable_mfa c uid sid now db = (Inl e, db))"
  by (simp add: disable_mfa_def split: option.split sum.split)

lemma disable_granted_iff:
  assumes inv: "auth_inv db"
  shows "fst (disable_mfa c uid sid now db) = Inr () \<longleftrightarrow> recent_step_up c (owned_session sid uid db) now \<and>
    \<not> privileged_member uid db \<and> active_factor uid db \<noteq> None"
  by (auto simp: disable_mfa_def is_required_by_role_def replace_recovery_codes_def list_all_iff split: option.split)

text \<open>C32. The MFA service removes the second factor exactly when the session is valid and has shown the
  factor within the step-up time, the user is no owner or administrator of an organization, and there is
  an active factor; a refused call changes nothing. Afterwards the user has no active factor and every
  other session of the user is revoked. A platform administrator passes this gate: the factor is gone
  although the login goes on to require one.\<close>

theorem disable_guarded:
  assumes inv: "auth_inv db"
  shows "if (\<exists>s t. owned_session sid uid db = Some s \<and> as_revoked_at s = None \<and> now < as_expires_at s \<and>
          mfa_satisfied_at s = Some t \<and> now - step_up_ttl c \<le> t) \<and>
        \<not> (\<exists>m \<in> set (memberships db). m_user m = uid \<and> m_status m = ''active'' \<and>
          (m_role m = ''organization_owner'' \<or> m_role m = ''organization_admin'')) \<and>
        active_factor uid db \<noteq> None
      then \<exists>db'. disable_mfa c uid sid now db = (Inr (), db') \<and> active_factor uid db' = None \<and>
        (\<forall>k s. dict_get (sessions db') k = Some s \<longrightarrow> as_user s = uid \<longrightarrow> k \<noteq> sid \<longrightarrow> as_revoked_at s \<noteq> None) \<and>
        requires_mfa uid db' =
          (\<exists>p \<in> set (authorities db). p_user p = uid \<and> p_authority p = ''platform_admin'' \<and> p_status p = ''active'')
      else \<exists>e. disable_mfa c uid sid now db = (Inl e, db)"
proof -
  have guard: "fst (disable_mfa c uid sid now db) = Inr () \<longleftrightarrow>
      (\<exists>s t. owned_session sid uid db = Some s \<and> as_revoked_at s = None \<and> now < as_expires_at s \<and>
          mfa_satisfied_at s = Some t \<and> now - step_up_ttl c \<le> t) \<and>
        \<not> (\<exists>m \<in> set (memberships db). m_user m = uid \<and> m_status m = ''active'' \<and>
          (m_role m = ''organization_owner'' \<or> m_role m = ''organization_admin'')) \<and>
        active_factor uid db \<noteq> None"
    unfolding disable_granted_iff [OF inv]
    by (auto simp: recent_step_up_def privileged_member_def list_ex_iff split: option.split)
  show ?thesis
  proof (cases "fst (disable_mfa c uid sid now db) = Inr ()")
    case True
    then have run: "disable_mfa c uid sid now db = (Inr (), snd (disable_mfa c uid sid now db))" by (simp add: prod_eq_iff)
    from True run disable_removes [OF inv run] show ?thesis unfolding guard list_ex_iff by auto
  next
    case False
    then have "\<exists>e. disable_mfa c uid sid now db = (Inl e, db)"
      using disable_outcome [of c uid sid now db] by (metis fst_conv)
    with False show ?thesis unfolding guard by (simp only: if_False)
  qed
qed

text \<open>Enrolling while a confirmation commits: the check for an active factor was made before, the rest
  runs after, and the user has an active and a pending factor.\<close>

theorem enroll_race:
  assumes inv: "auth_inv db" and f: "pending_factor uid db = Some f"
    and conf: "confirm_enrollment a c uid sid code t draw db = (Inr raws, db1)"
    and u: "dict_get (users db1) uid = Some u" "email_normalized u \<noteq> []"
    and new: "dict_get (factors db1) fid = None" "list_all (\<lambda>f. f_user f \<noteq> uid \<or> f_label f \<noteq> label) (map snd (factors db1))"
    and enc: "encrypt_secret (aead a) (mfa_cipher a) nonce secret uid fid = Inr enc"
  shows "\<exists>g p. dict_get (factors (snd (enroll_unchecked a c uid label fid secret nonce now created db1))) (f_id f) = Some g \<and>
    dict_get (factors (snd (enroll_unchecked a c uid label fid secret nonce now created db1))) fid = Some p \<and>
    f_user g = uid \<and> f_status g = ''active'' \<and> f_user p = uid \<and> f_status p = ''pending''"
proof -
  obtain f1 db' hs where v: "verify_totp_factor a f code t = Inr f1"
    and r: "replace_recovery_codes (f_id f) hs (put_factor (f1\<lparr>f_status := ''active'', verified_at := Some t\<rparr>) db) = Inr db'"
    and m: "mark_session_satisfied uid sid t db' = Inr db1"
    using conf f by (auto simp: confirm_enrollment_def split: sum.splits)
  have keep: "f_id f1 = f_id f" "f_user f1 = f_user f"
    by (rule verify_totp_factorD [OF v], simp)+
  have "factors db1 = dict_set (f_id f) (f1\<lparr>f_status := ''active'', verified_at := Some t\<rparr>) (factors db)"
    using r m keep by (auto simp: replace_recovery_codes_def mark_session_satisfied_def put_factor_def put_session_def Let_def
        split: if_splits option.splits)
  then have g: "dict_get (factors db1) (f_id f) = Some (f1\<lparr>f_status := ''active'', verified_at := Some t\<rparr>)"
    by (simp add: dict_simps)
  then have "fid \<noteq> f_id f" using new(1) by auto
  moreover have "f_user f = uid" using pending_factorD [OF inv f] by simp
  moreover have "\<not> list_ex (\<lambda>f. f_user f = uid \<and> f_label f = label) (map snd (factors (disable_pending_factors uid now db1)))"
    using new(2) by (auto simp: disable_pending_factors_def dict_map_def list_ex_iff list_all_iff split: if_splits)
  ultimately show ?thesis
    using g u enc keep
    by (simp add: enroll_unchecked_def add_pending_factor_def put_factor_def dict_simps)
      (auto simp: disable_pending_factors_def dict_simps)
qed

text \<open>Rows of abandoned and disabled enrollments keep their label, so a second enrollment under the
  same label violates the unique constraint and leaves the pending one as it was.\<close>

theorem same_label_refused:
  assumes inv: "auth_inv db" and f: "dict_get (factors db) k = Some f" "f_user f = uid" "f_label f = label"
    and none: "active_factor uid db = None" and u: "dict_get (users db) uid = Some u" "email_normalized u \<noteq> []"
    and enc: "encrypt_secret (aead a) (mfa_cipher a) nonce secret uid fid = Inr enc"
  shows "enroll a c uid label fid secret nonce now created db = (Inl IntegrityError, db)"
proof -
  have "\<exists>g. dict_get (factors (disable_pending_factors uid now db)) k = Some g \<and> f_user g = uid \<and> f_label g = label"
    using f by (auto simp: disable_pending_factors_def dict_simps)
  then obtain g where g: "dict_get (factors (disable_pending_factors uid now db)) k = Some g" "f_user g = uid" "f_label g = label"
    by blast
  have "dict_ok (factors (disable_pending_factors uid now db))"
    using auth_invD(8) [OF inv] by (simp add: disable_pending_factors_def)
  from dict_values_iff [OF this] g(1) have "g \<in> set (map snd (factors (disable_pending_factors uid now db)))" by blast
  with g have "list_ex (\<lambda>f. f_user f = uid \<and> f_label f = label) (map snd (factors (disable_pending_factors uid now db)))"
    unfolding list_ex_iff by blast
  with none u enc show ?thesis by (simp add: enroll_def enroll_unchecked_def add_pending_factor_def)
qed

end
