(* ===== verification/Auth_Examples.thy ===== *)
theory Auth_Examples
  imports Mfa_Runs
begin

section \<open>The authentication properties on a concrete system\<close>

text \<open>
  One user, a password backend that compares texts, a digest that prefixes the purpose, a MAC of
  twenty zero bytes and a cipher that appends a tag: every hypothesis of the properties holds here.
\<close>

definition ex_services :: auth_services where
  "ex_services = \<lparr>argon_verify = (\<lambda>h p. h = p), argon_needs_rehash = (\<lambda>_. False), argon_hash = (\<lambda>p. p),
     hmac_digest = (\<lambda>p r. p @ '':'' @ r), normalize_email = Some\<rparr>"

definition ex_authority :: mfa_authority where
  "ex_authority = \<lparr>hmac_sha1 = (\<lambda>_ _. replicate 20 (CHR 0x00)),
     aead = \<lparr>gcm_encrypt = (\<lambda>_ _ p _. p @ replicate 16 (CHR ''t'')), gcm_decrypt = (\<lambda>_ _ ct _. Some (take (length ct - 16) ct))\<rparr>,
     mfa_cipher = \<lparr>current_key_version = ''v1'', cipher_keys = [(''v1'', replicate 32 (CHR ''k''))]\<rparr>,
     mfa_services = ex_services\<rparr>"

definition ex_mfa_config :: mfa_config where
  "ex_mfa_config = \<lparr>mfa_issuer = ''PM'', recovery_code_count = 6, step_up_ttl = 300\<rparr>"

definition ex_sys :: auth_system where
  "ex_sys = \<lparr>sys_services = ex_services, sys_config = default_session_config, sys_authority = ex_authority,
     sys_mfa = ex_mfa_config, sys_spent = {''mfa_recovery_code:A-B''}\<rparr>"

definition ex_user :: identity_user where
  "ex_user = \<lparr>u_id = ''U'', email_normalized = ''e'', password_hash = ''pw'', u_status = ''active'',
     failed_login_count = 0, locked_until = None, password_changed_at = None\<rparr>"

definition ex_db0 :: auth_db where
  "ex_db0 = \<lparr>users = [(''U'', ex_user)], sessions = [], tokens = [], factors = [], codes = [], memberships = [],
     authorities = [\<lparr>p_user = ''U'', p_authority = ''platform_admin'', p_status = ''active'', p_created_at = 0\<rparr>]\<rparr>"

definition ex_env :: "string \<Rightarrow> seconds \<Rightarrow> auth_env" where
  "ex_env x t = \<lparr>clock = (\<lambda>_. t), new_session = ''S'' @ x, new_family = ''F'' @ x, new_token_id = ''T'' @ x, new_raw = ''r'' @ x\<rparr>"

lemmas ex_defs = ex_services_def ex_authority_def ex_mfa_config_def ex_sys_def ex_user_def ex_db0_def ex_env_def
  default_session_config_def

definition ex_db1 :: auth_db where
  "ex_db1 = snd (login ex_services default_session_config ''e'' ''pw'' (ex_env ''1'' 1000) ex_db0)"

lemmas auth_eval = ex_defs login_def user_for_login_def verify_password_def is_locked_def digest_def refresh_purpose_def
  blank_def py_isspace_def active_organization_id_def active_platform_authorities_def requires_mfa_def
  privileged_member_def add_session_def put_session_def put_token_def put_user_def new_token_def issue_access_token_def
  py_trunc_def least_by_def

lemma ex_login: "ex_db1 = \<lparr>users = [(''U'', ex_user)],
   sessions = [(''S1'', \<lparr>as_id = ''S1'', as_user = ''U'', as_organization = None, refresh_family_id = ''F1'',
      authenticated_at = 1000, mfa_satisfied_at = None, last_seen_at = Some 1000, as_expires_at = 2593000,
      as_revoked_at = None, revoke_reason = None\<rparr>)],
   tokens = [(''T1'', new_token ''T1'' ''S1'' None ''refresh_token:r1'' 1000 2593000)], factors = [], codes = [], memberships = [],
   authorities = authorities ex_db0\<rparr>"
  unfolding ex_db1_def by (simp add: auth_eval)

lemma ex_start: "auth_start ex_db0"
  by (simp add: auth_start_def users_ok_def ex_db0_def ex_user_def)

lemma ex_step1: "auth_step ex_sys ex_db0 ex_db1"
proof -
  have "fresh_draw (sys_services ex_sys) (ex_env ''1'' 1000) ex_db0" by (simp add: fresh_draw_def ex_db0_def)
  from step_login [OF this] show ?thesis unfolding ex_db1_def by (simp add: ex_sys_def)
qed

lemma ex_inv1: "auth_inv ex_db1"
  using auth.inv_step [OF auth.inv_start [OF ex_start] ex_step1] .

theorem auth_reachable_inv_witness: "auth_inv ex_db1"
  using auth_reachable_inv [OF ex_start r_into_rtranclp [where r = "auth_step ex_sys", OF ex_step1]] by blast

subsection \<open>Refresh\<close>

lemmas refresh_eval = auth_eval refresh_def refresh_principals_def rotate_refresh_token_def

definition ex_db2 :: auth_db where
  "ex_db2 = snd (refresh ex_services default_session_config ''r1'' (ex_env ''2'' 2000) ex_db1)"

definition ex_issued :: issued_session where
  "ex_issued = \<lparr>access_token = \<lparr>at_subject = ''U'', at_lifetime = 900, at_client = ''U'', at_scopes = [''auth:mfa''],
       at_session = ''S1'', at_organization = None, at_authorities = [''platform_admin'']\<rparr>,
     access_expires_in = 900, refresh_token_raw = ''r2'', refresh_expires_in = 2591000, issued_session_id = ''S1'',
     mfa_required = True\<rparr>"

lemma ex_fresh2: "fresh_draw ex_services (ex_env ''2'' 2000) ex_db1"
  by (simp add: fresh_draw_def ex_login new_token_def ex_env_def ex_services_def refresh_purpose_def)

lemma ex_refresh: "refresh ex_services default_session_config ''r1'' (ex_env ''2'' 2000) ex_db1 = (Inr ex_issued, ex_db2)"
proof -
  have "fst (refresh ex_services default_session_config ''r1'' (ex_env ''2'' 2000) ex_db1) = Inr ex_issued"
    by (simp add: refresh_eval ex_login ex_issued_def)
  then show ?thesis by (simp add: ex_db2_def prod_eq_iff)
qed

theorem refresh_respects_session_witness:
  "\<exists>s u. dict_get (sessions ex_db1) ''S1'' = Some s \<and> dict_get (users ex_db1) (as_user s) = Some u \<and>
    2000 + of_int (at_lifetime (access_token ex_issued)) \<le> as_expires_at s"
  using refresh_respects_session [OF ex_inv1 ex_fresh2 ex_refresh] by (auto simp: ex_issued_def ex_env_def)

theorem refresh_single_use_witness:
  "fst (refresh ex_services default_session_config ''r1'' (ex_env ''3'' 3000) ex_db2) = Inl RefreshTokenReuse \<and>
   (\<exists>s. dict_get (sessions (snd (refresh ex_services default_session_config ''r1'' (ex_env ''3'' 3000) ex_db2))) ''S1'' = Some s \<and>
     as_revoked_at s \<noteq> None)"
proof -
  let ?x = "refresh ex_services default_session_config ''r1'' (ex_env ''3'' 3000) ex_db2"
  have sys: "sys_services ex_sys = ex_services" "sys_config ex_sys = default_session_config" by (simp_all add: ex_sys_def)
  have "?x = (fst ?x, snd ?x)" by simp
  from refresh_single_use [where sys = ex_sys, unfolded sys, OF ex_inv1 ex_fresh2 ex_refresh rtranclp.rtrancl_refl this rtranclp.rtrancl_refl]
  show ?thesis by (simp add: ex_issued_def)
qed

subsection \<open>Lockout\<close>

definition ex_guesses :: "(string \<times> string \<times> auth_env) list" where
  "ex_guesses = map (\<lambda>t. (''e'', ''no'', ex_env [] t)) [1000, 1001, 1002, 1003, 1004, 1005]"

theorem lockout_throttles_witness:
  "\<exists>u'. user_for_login ''e'' (login_run ex_services default_session_config ex_guesses ex_db0) = Some u' \<and>
     failed_login_count u' = 5"
proof -
  have inv: "auth_inv ex_db0" by (rule auth.inv_start [OF ex_start])
  have u: "user_for_login ''e'' ex_db0 = Some ex_user" by (simp add: user_for_login_def ex_db0_def ex_user_def)
  have free: "\<not> is_locked ex_user 1000" by (simp add: is_locked_def ex_user_def)
  have "\<forall>x \<in> set ex_guesses. guess ex_services default_session_config ''e'' ex_user 1000 x"
    by (simp add: ex_guesses_def guess_def ex_defs)
  from lockout_throttles [OF inv u free this] show ?thesis
    by (auto simp: ex_guesses_def ex_user_def default_session_config_def)
qed

subsection \<open>The second factor\<close>

definition ex_secret :: string where
  "ex_secret = replicate 20 (CHR ''s'')"

definition ex_draw :: "nat \<Rightarrow> string" where
  "ex_draw i = replicate 9 (CHR 0x00) @ [''abcdef'' ! i]"

lemma ex_mac_length: "length (hmac_sha1 ex_authority k m) = 20"
  by (simp add: ex_authority_def)

lemma ex_aead: "aead_laws (aead ex_authority)"
  by (simp add: aead_laws_def ex_authority_def)

lemma ex_secret_length: "length ex_secret = 20"
  by (simp add: ex_secret_def)

theorem totp_code_total_witness:
  "\<exists>code. totp_code_for_step (hmac_sha1 ex_authority) ex_secret 50 = Inr code \<and> length code = 6 \<and> list_all py_isdigit code"
proof (rule totp_code_total [where mac = "hmac_sha1 ex_authority", OF ex_mac_length])
  show "20 \<le> length ex_secret" by (simp only: ex_secret_length)
qed simp_all

lemma ex_code:
  assumes "0 \<le> st" and "st < 2 ^ 64" and "20 \<le> length secret"
  shows "totp_code_for_step (hmac_sha1 ex_authority) secret st = Inr ''000000''"
proof -
  have m: "hmac_sha1 ex_authority secret msg = replicate 20 (CHR 0x00)" for msg by (simp add: ex_authority_def)
  have "unpack_u32 (take 4 (replicate 20 (CHR 0x00))) = Inr 0" by (simp add: unpack_u32_def eval_nat_numeral)
  moreover have "zfill 6 (dec_text 0) = ''000000''" by code_simp
  ultimately show ?thesis
    using assms by (simp add: totp_code_for_step_def m totp_secret_bytes_def pack_u64_def totp_digits_def del: take_replicate)
qed

definition ex_factor :: mfa_factor where
  "ex_factor = \<lparr>f_id = ''K'', f_user = ''U'', f_label = ''phone'', f_status = ''active'',
     f_ciphertext = replicate 12 (CHR ''n'') @ ex_secret @ replicate 16 (CHR ''t''), f_key_version = ''v1'',
     verified_at = Some 1500, last_used_step = Some 49, disabled_at = None, f_created_at = 1500\<rparr>"

definition ex_dbm :: auth_db where
  "ex_dbm = ex_db1\<lparr>factors := [(''K'', ex_factor)],
     codes := [\<lparr>c_factor = ''K'', code_hash = ''mfa_recovery_code:A-B'', used_at = None\<rparr>]\<rparr>"

lemma ex_invm: "auth_inv ex_dbm"
  unfolding ex_dbm_def
  by (intro inv_codes inv_factors ex_inv1) (simp_all add: factors_ok_def ex_factor_def)

lemma ex_active:
  assumes "factors db = [(''K'', f)]" and "f_user f = ''U''" and "f_status f = ''active''"
  shows "active_factor ''U'' db = Some f"
  using assms by (simp add: active_factor_def factors_of_def least_by_def)

lemma ex_decrypt: "f_id f = ''K'' \<Longrightarrow> f_user f = ''U'' \<Longrightarrow> f_ciphertext f = f_ciphertext ex_factor \<Longrightarrow>
    f_key_version f = ''v1'' \<Longrightarrow> decrypt_factor ex_authority f = Inr ex_secret"
  by (simp add: decrypt_factor_def decrypt_secret_def ex_authority_def ex_factor_def nonce_bytes_def cipher_aad_def
      blank_def py_isspace_def ex_secret_length)

lemma ex_verify_factor:
  assumes "decrypt_factor ex_authority f = Inr ex_secret" and "last_used_step f = Some l"
    and "\<lfloor>now / 30\<rfloor> = k" and "l + 1 < k" and "0 < k" and "k < 1000" and "0 \<le> now"
  shows "verify_totp_factor ex_authority f ''000000'' now = Inr (f\<lparr>last_used_step := Some (k - 1)\<rparr>)"
proof -
  have steps: "[- 1..1] = [- 1, 0, 1 :: int]" by code_simp
  have "totp_code_for_step (hmac_sha1 ex_authority) ex_secret (k - 1) = Inr ''000000''"
    by (rule ex_code) (use assms in \<open>simp_all add: ex_secret_length\<close>)
  with assms show ?thesis
    by (simp add: verify_totp_factor_def verify_totp_def totp_period_seconds_def totp_digits_def py_isdigit_def steps)
qed

lemma ex_mark:
  assumes "dict_get (sessions db) ''S1'' = Some s" and "as_user s = ''U''" and "as_revoked_at s = None" and "now < as_expires_at s"
  shows "mark_session_satisfied ''U'' ''S1'' now db = Inr (put_session (s\<lparr>mfa_satisfied_at := Some now\<rparr>) db)"
  using assms by (simp add: mark_session_satisfied_def owned_session_def)

definition ex_session :: "seconds option \<Rightarrow> auth_session" where
  "ex_session m = \<lparr>as_id = ''S1'', as_user = ''U'', as_organization = None, refresh_family_id = ''F1'',
      authenticated_at = 1000, mfa_satisfied_at = m, last_seen_at = Some 1000, as_expires_at = 2593000,
      as_revoked_at = None, revoke_reason = None\<rparr>"

lemma ex_session: "sessions ex_db1 = [(''S1'', ex_session None)]"
  by (simp add: ex_login ex_session_def)

definition ex_verified :: "seconds \<Rightarrow> int \<Rightarrow> auth_db" where
  "ex_verified now st = ex_dbm\<lparr>factors := [(''K'', ex_factor\<lparr>last_used_step := Some st\<rparr>)], sessions := [(''S1'', ex_session (Some now))]\<rparr>"

lemma ex_verify:
  assumes "factors db = [(''K'', ex_factor\<lparr>last_used_step := Some l\<rparr>)]" and "sessions db = [(''S1'', ex_session m)]"
    and "\<lfloor>now / 30\<rfloor> = k" and "l + 1 < k" and "0 < k" and "k < 1000" and "0 \<le> now" and "now < 30000"
  shows "verify_mfa ex_authority ''U'' ''S1'' (Some ''000000'') None now db = (Inr (),
    db\<lparr>factors := [(''K'', ex_factor\<lparr>last_used_step := Some (k - 1)\<rparr>)], sessions := [(''S1'', ex_session (Some now))]\<rparr>)"
proof -
  let ?f = "ex_factor\<lparr>last_used_step := Some l\<rparr>"
  have "decrypt_factor ex_authority ?f = Inr ex_secret" by (rule ex_decrypt) (simp_all add: ex_factor_def)
  from ex_verify_factor [OF this _ assms(3-7)] have
    "verify_totp_factor ex_authority ?f ''000000'' now = Inr (ex_factor\<lparr>last_used_step := Some (k - 1)\<rparr>)" by simp
  moreover have "active_factor ''U'' db = Some ?f" by (rule ex_active [OF assms(1)]) (simp_all add: ex_factor_def)
  moreover have "mark_session_satisfied ''U'' ''S1'' now d = Inr (put_session (ex_session (Some now)) d)"
    if "sessions d = [(''S1'', ex_session m)]" for d
    using ex_mark [of d "ex_session m" now] that assms(8) by (simp add: ex_session_def)
  ultimately show ?thesis
    using assms(1,2) by (simp add: verify_mfa_def check_credential_def put_factor_def put_session_def ex_factor_def ex_session_def)
qed

theorem totp_no_replay_witness:
  "\<exists>f secret st st'. active_factor ''U'' ex_dbm = Some f \<and> decrypt_factor ex_authority f = Inr secret \<and>
    totp_code_for_step (hmac_sha1 ex_authority) secret st' = Inr ''000000'' \<and> st < st'"
proof -
  have sys: "sys_authority ex_sys = ex_authority" by (simp add: ex_sys_def)
  have eq: "ex_factor\<lparr>last_used_step := Some 49\<rparr> = ex_factor" by (simp add: ex_factor_def)
  have m: "factors ex_dbm = [(''K'', ex_factor\<lparr>last_used_step := Some 49\<rparr>)]" "sessions ex_dbm = [(''S1'', ex_session None)]"
    by (simp_all add: eq) (simp_all add: ex_dbm_def ex_session)
  have fl: "\<lfloor>1590 / 30 :: seconds\<rfloor> = 53" "\<lfloor>1650 / 30 :: seconds\<rfloor> = 55" by simp_all
  have 1: "verify_mfa ex_authority ''U'' ''S1'' (Some ''000000'') None 1590 ex_dbm = (Inr (), ex_verified 1590 52)"
    using ex_verify [OF m fl(1)] by (simp add: ex_verified_def)
  have v: "factors (ex_verified 1590 52) = [(''K'', ex_factor\<lparr>last_used_step := Some 52\<rparr>)]"
    "sessions (ex_verified 1590 52) = [(''S1'', ex_session (Some 1590))]" by (simp_all add: ex_verified_def)
  have 2: "verify_mfa ex_authority ''U'' ''S1'' (Some ''000000'') None 1650 (ex_verified 1590 52) = (Inr (), ex_verified 1650 54)"
    using ex_verify [OF v fl(2)] by (simp add: ex_verified_def)
  have "active_factor ''U'' ex_dbm = Some ex_factor" by (rule ex_active [OF m(1) [unfolded eq]]) (simp_all add: ex_factor_def)
  moreover have "active_factor ''U'' (ex_verified 1590 52) = Some (ex_factor\<lparr>last_used_step := Some 52\<rparr>)"
    by (rule ex_active [OF v(1)]) (simp_all add: ex_factor_def)
  ultimately have "map_option f_id (active_factor ''U'' (ex_verified 1590 52)) = map_option f_id (active_factor ''U'' ex_dbm)"
    by simp
  from totp_no_replay [where sys = ex_sys, unfolded sys, OF ex_invm 1 rtranclp.rtrancl_refl 2 this]
  show ?thesis by blast
qed

lemma ex_normalize: "normalize_recovery_code '' a-b '' = ''A-B''"
  by code_simp

lemma ex_normalize_upper: "normalize_recovery_code ''A-B'' = ''A-B''"
  by code_simp

theorem recovery_code_single_use_witness:
  "\<exists>db1. verify_mfa ex_authority ''U'' ''S1'' None (Some '' a-b '') 1600 ex_dbm = (Inr (), db1) \<and>
    verify_mfa ex_authority ''U'' ''S1'' None (Some ''A-B'') 1700 db1 = (Inl InvalidMfaCredential, db1)"
proof -
  have f: "active_factor ''U'' ex_dbm = Some ex_factor" by (rule ex_active) (simp_all add: ex_dbm_def ex_factor_def)
  have s: "owned_session ''S1'' ''U'' ex_dbm = Some (ex_session None)"
    by (simp add: owned_session_def ex_dbm_def ex_session ex_session_def)
  have d: "digest (mfa_services ex_authority) (normalize_recovery_code '' a-b '') recovery_purpose = Inr ''mfa_recovery_code:A-B''"
    by (simp add: ex_normalize digest_def ex_authority_def ex_services_def recovery_purpose_def blank_def py_isspace_def)
  have "\<lparr>c_factor = f_id ex_factor, code_hash = ''mfa_recovery_code:A-B'', used_at = None\<rparr> \<in> set (codes ex_dbm)"
    by (simp add: ex_dbm_def ex_factor_def)
  then obtain db1 where 1: "verify_mfa ex_authority ''U'' ''S1'' None (Some '' a-b '') 1600 ex_dbm = (Inr (), db1)"
    using recovery_accepted [OF f _ d s, where now = 1600] by (auto simp: ex_session_def)
  have "normalize_recovery_code ''A-B'' = normalize_recovery_code '' a-b ''" by (simp only: ex_normalize ex_normalize_upper)
  moreover have sys: "sys_authority ex_sys = ex_authority" "sys_spent ex_sys = {''mfa_recovery_code:A-B''}"
    by (simp_all add: ex_sys_def)
  ultimately show ?thesis
    using recovery_code_single_use [where sys = ex_sys and db = ex_dbm and uid = "''U''" and sid = "''S1''"
        and r = "'' a-b ''", unfolded sys, OF ex_invm 1 rtranclp.rtrancl_refl] d 1
    by auto
qed

theorem disable_guarded_witness:
  "\<exists>db'. disable_mfa ex_mfa_config ''U'' ''S1'' 1700 (ex_verified 1590 52) = (Inr (), db') \<and>
    active_factor ''U'' db' = None \<and> requires_mfa ''U'' db'"
proof -
  let ?d = "ex_verified 1590 52"
  have inv: "auth_inv ?d"
  proof -
    let ?e = "ex_dbm\<lparr>factors := [(''K'', ex_factor\<lparr>last_used_step := Some 52\<rparr>)]\<rparr>"
    have e: "auth_inv ?e" by (rule inv_factors [OF ex_invm]) (simp add: factors_ok_def ex_factor_def)
    have "rows_updated same_session (sessions ?e) [(''S1'', ex_session (Some 1590))]"
      by (auto simp: rows_updated_def ex_dbm_def ex_session ex_session_def same_session_def)
    then have "auth_inv (?e\<lparr>sessions := [(''S1'', ex_session (Some 1590))]\<rparr>)" by (rule inv_sessions [OF e])
    then show ?thesis by (simp add: ex_verified_def)
  qed
  have "active_factor ''U'' ?d = Some (ex_factor\<lparr>last_used_step := Some 52\<rparr>)"
    by (rule ex_active) (simp_all add: ex_verified_def ex_factor_def)
  moreover have "recent_step_up ex_mfa_config (owned_session ''S1'' ''U'' ?d) 1700"
    by (simp add: recent_step_up_def owned_session_def ex_verified_def ex_session_def ex_mfa_config_def)
  moreover have au: "authorities ?d = authorities ex_db0" "memberships ?d = []"
    by (simp_all add: ex_verified_def ex_dbm_def ex_login)
  ultimately have "\<exists>db'. disable_mfa ex_mfa_config ''U'' ''S1'' 1700 ?d = (Inr (), db')"
    by (simp add: disable_mfa_def is_required_by_role_def privileged_member_def replace_recovery_codes_def list_all_iff)
  then obtain db' where db': "disable_mfa ex_mfa_config ''U'' ''S1'' 1700 ?d = (Inr (), db')" by blast
  have "list_ex (\<lambda>p. p_user p = ''U'' \<and> p_authority p = ''platform_admin'' \<and> p_status p = ''active'') (authorities ?d)"
    by (simp add: au ex_db0_def)
  with disable_guarded [OF inv, of "''S1''" "''U''" 1700 ex_mfa_config] db' show ?thesis
    by (auto simp: list_ex_iff split: if_split_asm)
qed

subsection \<open>Enrollment\<close>

definition ex_raws :: "string list" where
  "ex_raws = map (\<lambda>x. ''AAAA-AAAA-AAAA-AAD'' @ [x]) ''BCDEFG''"

lemma ex_draws:
  "recovery_code_text (replicate 9 (CHR 0x00) @ ''a'') = ''AAAA-AAAA-AAAA-AADB''"
  "recovery_code_text (replicate 9 (CHR 0x00) @ ''b'') = ''AAAA-AAAA-AAAA-AADC''"
  "recovery_code_text (replicate 9 (CHR 0x00) @ ''c'') = ''AAAA-AAAA-AAAA-AADD''"
  "recovery_code_text (replicate 9 (CHR 0x00) @ ''d'') = ''AAAA-AAAA-AAAA-AADE''"
  "recovery_code_text (replicate 9 (CHR 0x00) @ ''e'') = ''AAAA-AAAA-AAAA-AADF''"
  "recovery_code_text (replicate 9 (CHR 0x00) @ ''f'') = ''AAAA-AAAA-AAAA-AADG''"
  by code_simp+

lemma ex_generated: "generate_recovery_codes ex_authority ex_mfa_config ex_draw =
    Inr (ex_raws, map (\<lambda>r. ''mfa_recovery_code:'' @ r) ex_raws)"
proof -
  have "map (\<lambda>i. recovery_code_text (ex_draw i)) [0..<6] = ex_raws"
    by (simp add: ex_draw_def ex_draws ex_raws_def upt_rec)
  moreover have "digest_all ex_services ex_raws = Inr (map (\<lambda>r. ''mfa_recovery_code:'' @ r) ex_raws)"
    by (simp add: ex_raws_def digest_def ex_services_def recovery_purpose_def blank_def py_isspace_def)
  ultimately show ?thesis by (simp add: generate_recovery_codes_def ex_mfa_config_def ex_authority_def)
qed

lemma ex_enrolled:
  obtains e db where "enroll ex_authority ex_mfa_config ''U'' ''phone'' ''K'' ex_secret (replicate 12 (CHR ''n'')) 1500 1500 ex_db1 = (Inr e, db)"
proof -
  have enc: "\<exists>enc. encrypt_secret (aead ex_authority) (mfa_cipher ex_authority) (replicate 12 (CHR ''n'')) ex_secret ''U'' ''K'' = Inr enc"
    by (simp add: encrypt_secret_def ex_secret_length cipher_aad_def blank_def py_isspace_def ex_authority_def)
  have "\<exists>uri. build_totp_provisioning_uri ex_secret ''e'' (mfa_issuer ex_mfa_config) = Inr uri"
    by (simp add: build_totp_provisioning_uri_def encode_totp_secret_def ex_secret_length totp_secret_bytes_def blank_def
        py_isspace_def ex_mfa_config_def)
  moreover have "active_factor ''U'' ex_db1 = None" "factors ex_db1 = []" "dict_get (users ex_db1) ''U'' = Some ex_user"
    by (simp_all add: ex_login active_factor_def factors_of_def)
  ultimately show ?thesis
    using enc that by (auto simp: enroll_def enroll_unchecked_def ex_user_def add_pending_factor_def disable_pending_factors_def dict_map_def
        encode_totp_secret_def ex_secret_length totp_secret_bytes_def)
qed

theorem enrollment_works_witness:
  "\<exists>e db1 code db2. enroll ex_authority ex_mfa_config ''U'' ''phone'' ''K'' ex_secret (replicate 12 (CHR ''n'')) 1500 1500 ex_db1 = (Inr e, db1) \<and>
    totp_code_for_step (hmac_sha1 ex_authority) (b32_decode (enrollment_secret e)) \<lfloor>1510 / totp_period_seconds\<rfloor> = Inr code \<and>
    confirm_enrollment ex_authority ex_mfa_config ''U'' ''S1'' code 1510 ex_draw db1 = (Inr ex_raws, db2) \<and>
    requires_mfa ''U'' db2"
proof -
  obtain e db1 where e: "enroll ex_authority ex_mfa_config ''U'' ''phone'' ''K'' ex_secret (replicate 12 (CHR ''n'')) 1500 1500 ex_db1 = (Inr e, db1)"
    by (rule ex_enrolled)
  have new: "dict_get (factors ex_db1) ''K'' = None" and cs: "codes ex_db1 = []" by (simp_all add: ex_login)
  have s: "owned_session ''S1'' ''U'' ex_db1 = Some (ex_session None)"
    by (simp add: owned_session_def ex_session ex_session_def)
  have "distinct (map (\<lambda>r. ''mfa_recovery_code:'' @ r) ex_raws)" by (simp add: ex_raws_def)
  from enrollment_works [OF ex_inv1 ex_aead ex_mac_length new _ e _ _ ex_generated this _ s, of 1510]
  show ?thesis using e by (auto simp: cs nonce_bytes_def ex_session_def)
qed

end
