(* ===== verification/Rate_Limits.thy ===== *)
theory Rate_Limits
  imports Runtime_Capacity
begin

section \<open>Rate limits (auth/rate\_limit.py and middleware/rate\_limit.py)\<close>

text \<open>
  The limiter of the identity endpoints, whose Lua script counts one request against several windows
  at once, the resolution of the client address behind trusted proxies, and the general rate limit
  of the HTTP middleware. Redis counters are a dictionary of values with an expiry in milliseconds;
  a script runs at one instant. The keyed digest of a subject is a parameter, and so are IP addresses:
  how a text is read as an address and written back, and which addresses the trusted networks contain.
\<close>

subsection \<open>Redis counters\<close>

record counter =
  c_value :: int
  c_expire :: "int option"

type_synonym counters = "(string, counter) dict"

definition live_counter :: "string \<Rightarrow> int \<Rightarrow> counters \<Rightarrow> counter option" where
  "live_counter k now d =
     (case dict_get d k of
        None \<Rightarrow> None
      | Some c \<Rightarrow> (case c_expire c of None \<Rightarrow> Some c | Some e \<Rightarrow> if e \<le> now then None else Some c))"

definition redis_incr :: "string \<Rightarrow> int \<Rightarrow> counters \<Rightarrow> int \<times> counters" where
  "redis_incr k now d =
     (case live_counter k now d of
        None \<Rightarrow> (1, dict_set k \<lparr>c_value = 1, c_expire = None\<rparr> d)
      | Some c \<Rightarrow> (c_value c + 1, dict_set k (c\<lparr>c_value := c_value c + 1\<rparr>) d))"

definition redis_pexpire :: "string \<Rightarrow> int \<Rightarrow> int \<Rightarrow> counters \<Rightarrow> counters" where
  "redis_pexpire k ms now d =
     (case live_counter k now d of None \<Rightarrow> d | Some c \<Rightarrow> dict_set k (c\<lparr>c_expire := Some (now + ms)\<rparr>) d)"

definition redis_pttl :: "string \<Rightarrow> int \<Rightarrow> counters \<Rightarrow> int" where
  "redis_pttl k now d =
     (case live_counter k now d of None \<Rightarrow> - 2 | Some c \<Rightarrow> (case c_expire c of None \<Rightarrow> - 1 | Some e \<Rightarrow> e - now))"

subsection \<open>The limiter of the identity endpoints\<close>

datatype limit_error = LimitValueError string | AuthRateLimitUnavailable

record limit_rule =
  rule_name :: string
  dimension :: string
  rule_limit :: int
  window_seconds :: int

definition rule_error :: "limit_rule \<Rightarrow> limit_error option" where
  "rule_error r =
     (if blank (rule_name r) \<or> blank (dimension r)
      then Some (LimitValueError ''Rate-limit rule name and dimension are required.'')
      else if rule_limit r < 1 \<or> window_seconds r < 1
      then Some (LimitValueError ''Rate-limit rule limits and windows must be positive.'')
      else None)"

definition rule :: "string \<Rightarrow> string \<Rightarrow> int \<Rightarrow> int \<Rightarrow> limit_rule" where
  "rule n d l w = \<lparr>rule_name = n, dimension = d, rule_limit = l, window_seconds = w\<rparr>"

definition REGISTRATION_RULES :: "limit_rule list" where
  "REGISTRATION_RULES = [rule ''ip_burst'' ''ip'' 5 (10 * 60), rule ''ip_daily'' ''ip'' 20 (24 * 60 * 60),
     rule ''email_daily'' ''email'' 3 (24 * 60 * 60)]"

definition ORGANIZATION_REGISTRATION_RULES :: "limit_rule list" where
  "ORGANIZATION_REGISTRATION_RULES = [rule ''ip_hourly'' ''ip'' 3 (60 * 60), rule ''ip_daily'' ''ip'' 10 (24 * 60 * 60),
     rule ''email_daily'' ''email'' 3 (24 * 60 * 60)]"

definition EMAIL_VERIFICATION_RESEND_RULES :: "limit_rule list" where
  "EMAIL_VERIFICATION_RESEND_RULES = [rule ''ip_hourly'' ''ip'' 10 (60 * 60), rule ''email_hourly'' ''email'' 3 (60 * 60),
     rule ''email_daily'' ''email'' 5 (24 * 60 * 60)]"

definition RECOVERY_EMAIL_ISSUE_RULES :: "limit_rule list" where
  "RECOVERY_EMAIL_ISSUE_RULES = [rule ''recovery_email_issue_ip'' ''ip'' 10 3600, rule ''recovery_email_issue_user'' ''user'' 5 3600]"

definition RECOVERY_EMAIL_VERIFY_RULES :: "limit_rule list" where
  "RECOVERY_EMAIL_VERIFY_RULES = [rule ''recovery_email_verify_ip'' ''ip'' 30 3600, rule ''recovery_email_verify_token'' ''token'' 10 3600]"

definition ACCOUNT_RECOVERY_START_RULES :: "limit_rule list" where
  "ACCOUNT_RECOVERY_START_RULES = [rule ''account_recovery_start_ip'' ''ip'' 10 3600, rule ''account_recovery_start_login'' ''login'' 5 3600]"

definition ACCOUNT_RECOVERY_VERIFY_RULES :: "limit_rule list" where
  "ACCOUNT_RECOVERY_VERIFY_RULES = [rule ''account_recovery_verify_ip'' ''ip'' 30 3600, rule ''account_recovery_verify_token'' ''token'' 10 3600]"

definition EMAIL_VERIFICATION_RULES :: "limit_rule list" where
  "EMAIL_VERIFICATION_RULES = [rule ''ip_window'' ''ip'' 30 (15 * 60), rule ''token_window'' ''token'' 5 (15 * 60)]"

definition LOGIN_RULES :: "limit_rule list" where
  "LOGIN_RULES = [rule ''ip_window'' ''ip'' 10 (15 * 60), rule ''email_window'' ''email'' 5 (15 * 60)]"

definition SESSION_REFRESH_RULES :: "limit_rule list" where
  "SESSION_REFRESH_RULES = [rule ''ip_window'' ''ip'' 60 (15 * 60), rule ''token_window'' ''token'' 10 (15 * 60)]"

definition MFA_VERIFICATION_RULES :: "limit_rule list" where
  "MFA_VERIFICATION_RULES = [rule ''ip_window'' ''ip'' 20 (15 * 60), rule ''user_window'' ''user'' 8 (15 * 60)]"

text \<open>The script: one pass over keys with their limits and windows. The running values are the flag
  \<open>rejected\<close>, the longest retry and the least remaining number.\<close>

type_synonym window = "string \<times> int \<times> int"
type_synonym verdict = "int \<times> int \<times> int option"

definition count_window :: "int \<Rightarrow> window \<Rightarrow> verdict \<times> counters \<Rightarrow> verdict \<times> counters" where
  "count_window now w st =
     (case (w, st) of ((key, limit, window_ms), ((rejected, max_retry, min_remaining), d)) \<Rightarrow>
        let (current, d1) = redis_incr key now d;
            d2 = (if current = 1 then redis_pexpire key window_ms now d1 else d1);
            ttl = redis_pttl key now d2;
            (ttl_ms, d3) = (if ttl < 0 then (window_ms, redis_pexpire key window_ms now d2) else (ttl, d2));
            remaining = (if limit - current < 0 then 0 else limit - current);
            least = (case min_remaining of None \<Rightarrow> remaining | Some m \<Rightarrow> if remaining < m then remaining else m)
        in if limit < current
           then ((1, if max_retry < ttl_ms then ttl_ms else max_retry, Some least), d3)
           else ((rejected, max_retry, Some least), d3))"

definition multi_window :: "window list \<Rightarrow> int \<Rightarrow> counters \<Rightarrow> (int \<times> int \<times> int) \<times> counters" where
  "multi_window ws now d =
     (case foldl (\<lambda>st w. count_window now w st) ((0, 0, None), d) ws of
        ((rejected, max_retry, m), d') \<Rightarrow> ((rejected, max_retry, case m of None \<Rightarrow> 0 | Some r \<Rightarrow> r), d'))"

record limit_decision =
  allowed :: bool
  retry_after_seconds :: int
  remaining_requests :: int

definition rstrip_colon :: "string \<Rightarrow> string" where
  "rstrip_colon s = rev (dropWhile (\<lambda>c. c = CHR '':'') (rev s))"

definition limiter_key :: "(string \<Rightarrow> string) \<Rightarrow> string \<Rightarrow> string \<Rightarrow> limit_rule \<Rightarrow> string \<Rightarrow> string" where
  "limiter_key hmac prefix action r v =
     rstrip_colon prefix @ '':'' @ action @ '':'' @ rule_name r @ '':'' @
       hmac (''pmk-auth-rate-limit-v1:'' @ action @ '':'' @ dimension r @ '':'' @ v)"

fun limiter_windows ::
    "(string \<Rightarrow> string) \<Rightarrow> string \<Rightarrow> string \<Rightarrow> (string, string) dict \<Rightarrow> limit_rule list \<Rightarrow> limit_error + window list" where
  "limiter_windows hmac prefix action subjects [] = Inr []"
| "limiter_windows hmac prefix action subjects (r # rs) =
     (let v = py_strip (case dict_get subjects (dimension r) of None \<Rightarrow> [] | Some x \<Rightarrow> x)
      in if v = [] then Inl (LimitValueError (''Missing rate-limit subject: '' @ dimension r @ ''.''))
         else case limiter_windows hmac prefix action subjects rs of
             Inl e \<Rightarrow> Inl e
           | Inr ws \<Rightarrow> Inr ((limiter_key hmac prefix action r v, rule_limit r, window_seconds r * 1000) # ws))"

definition consume ::
    "(string \<Rightarrow> string) \<Rightarrow> string \<Rightarrow> bool \<Rightarrow> string \<Rightarrow> (string, string) dict \<Rightarrow> limit_rule list \<Rightarrow> int \<Rightarrow> counters
      \<Rightarrow> (limit_error + limit_decision) \<times> counters" where
  "consume hmac prefix redis_up action subjects rules now d =
     (if blank action \<or> rules = [] then (Inl (LimitValueError ''Rate-limit action and rules are required.''), d)
      else case limiter_windows hmac prefix action subjects rules of
          Inl e \<Rightarrow> (Inl e, d)
        | Inr ws \<Rightarrow>
            if \<not> redis_up then (Inl AuthRateLimitUnavailable, d)
            else case multi_window ws now d of ((rejected, max_ms, remaining), d') \<Rightarrow>
              (Inr \<lparr>allowed = (rejected = 0), retry_after_seconds = max 0 (- ((- max_ms) div 1000)),
                 remaining_requests = max 0 remaining\<rparr>, d'))"

subsection \<open>The address of the client\<close>

record 'ip addresses =
  ip_address :: "string \<Rightarrow> 'ip option"
  compressed :: "'ip \<Rightarrow> string"

record 'ip proxy_policy =
  networks :: "('ip \<Rightarrow> bool) list"
  max_forwarded_hops :: nat

definition is_trusted :: "'ip proxy_policy \<Rightarrow> 'ip \<Rightarrow> bool" where
  "is_trusted p ip = list_ex (\<lambda>n. n ip) (networks p)"

fun split_on :: "char \<Rightarrow> string \<Rightarrow> string list" where
  "split_on x [] = [[]]"
| "split_on x (c # s) = (if c = x then [] # split_on x s
     else case split_on x s of [] \<Rightarrow> [[c]] | p # ps \<Rightarrow> (c # p) # ps)"

fun parse_all :: "('a \<Rightarrow> 'b option) \<Rightarrow> 'a list \<Rightarrow> 'b list option" where
  "parse_all f [] = Some []"
| "parse_all f (x # xs) =
     (case f x of None \<Rightarrow> None | Some y \<Rightarrow> (case parse_all f xs of None \<Rightarrow> None | Some ys \<Rightarrow> Some (y # ys)))"

definition resolve_client_ip ::
    "'ip addresses \<Rightarrow> 'ip proxy_policy \<Rightarrow> string \<Rightarrow> string option \<Rightarrow> limit_error + string" where
  "resolve_client_ip a p peer_ip forwarded_for =
     (case ip_address a (py_strip peer_ip) of
        None \<Rightarrow> Inl (LimitValueError ''not an IP address'')
      | Some peer \<Rightarrow>
     case forwarded_for of
        None \<Rightarrow> Inr (compressed a peer)
      | Some header \<Rightarrow>
          if \<not> is_trusted p peer \<or> header = [] then Inr (compressed a peer)
          else let raw_hops = map py_strip (split_on (CHR '','') header)
               in if raw_hops = [] \<or> max_forwarded_hops p < length raw_hops \<or> list_ex (\<lambda>h. h = []) raw_hops
                  then Inr (compressed a peer)
                  else case parse_all (ip_address a) raw_hops of
                      None \<Rightarrow> Inr (compressed a peer)
                    | Some hops \<Rightarrow>
                        (case List.find (\<lambda>ip. \<not> is_trusted p ip) (rev (hops @ [peer])) of
                           Some ip \<Rightarrow> Inr (compressed a ip)
                         | None \<Rightarrow> Inr (compressed a (hd hops))))"

subsection \<open>The rate limit of the HTTP middleware\<close>

record limit_settings =
  limits_enabled :: bool
  limit_default :: string
  limit_authenticated :: string
  limit_prefix :: string

record limited_request =
  lr_path :: string
  lr_forwarded :: "string option"
  lr_host :: "string option"
  lr_authorization :: string

text \<open>\<open>RedisFails n\<close>: the connection fails at \<open>INCR\<close> (0), \<open>EXPIRE\<close> (1) or \<open>TTL\<close> (2), when the request gets there.\<close>

datatype redis_link = RedisNone | RedisFails nat | RedisUp

datatype limit_outcome =
    Passed
  | PassedWith int int
  | TooManyRequests int
  | Crashed exc

definition authoritative_paths :: "string list" where
  "authoritative_paths = [''/auth/register'', ''/auth/register/organization'', ''/auth/verify-email'',
     ''/auth/verification/resend'', ''/auth/login'', ''/auth/session/refresh'', ''/auth/session/logout'',
     ''/auth/session/logout-all'', ''/auth/sessions'']"

definition parse_rate_limit :: "string \<Rightarrow> exc + int \<times> int" where
  "parse_rate_limit text =
     (let parts = split_on (CHR ''/'') (py_strip text)
      in case py_int (hd parts) of
           Inl e \<Rightarrow> Inl e
         | Inr count \<Rightarrow>
             let unit = (if 1 < length parts then parts ! 1 else ''minute'')
             in Inr (count, case dict_get [(''second'', 1), (''minute'', 60), (''hour'', 3600), (''day'', 86400)] unit of
                  None \<Rightarrow> 60 | Some w \<Rightarrow> w))"

definition client_identifier :: "limited_request \<Rightarrow> string" where
  "client_identifier q =
     (case lr_forwarded q of
        Some h \<Rightarrow> if h \<noteq> [] then py_strip (hd (split_on (CHR '','') h))
                 else (case lr_host q of None \<Rightarrow> ''unknown'' | Some x \<Rightarrow> x)
      | None \<Rightarrow> (case lr_host q of None \<Rightarrow> ''unknown'' | Some x \<Rightarrow> x))"

definition rate_limit_key :: "limit_settings \<Rightarrow> string \<Rightarrow> string \<Rightarrow> string" where
  "rate_limit_key c identifier route = limit_prefix c @ identifier @ '':'' @ route"

definition redis_ttl :: "string \<Rightarrow> int \<Rightarrow> counters \<Rightarrow> int" where
  "redis_ttl k now d = (let p = redis_pttl k now d in if p < 0 then p else (p + 500) div 1000)"

definition rate_limit_dispatch ::
    "limit_settings \<Rightarrow> redis_link \<Rightarrow> limited_request \<Rightarrow> int \<Rightarrow> counters \<Rightarrow> limit_outcome \<times> counters" where
  "rate_limit_dispatch c link q now d =
     (if lr_path q \<in> set authoritative_paths \<or> starts_with (lr_path q) ''/auth/sessions/'' then (Passed, d)
      else if \<not> limits_enabled c then (Passed, d)
      else if link = RedisNone then (Passed, d)
      else case parse_rate_limit (if starts_with (lr_authorization q) ''Bearer '' then limit_authenticated c else limit_default c) of
          Inl e \<Rightarrow> (Crashed e, d)
        | Inr (max_requests, window) \<Rightarrow>
            let key = rate_limit_key c (client_identifier q) (lr_path q)
            in if link = RedisFails 0 then (Passed, d)
               else let (current, d1) = redis_incr key now d
               in if current = 1 \<and> link = RedisFails 1 then (Passed, d1)
               else let d2 = (if current = 1 then redis_pexpire key (window * 1000) now d1 else d1)
               in if max_requests < current
                  then (if link = RedisFails 2 then (Passed, d2) else (TooManyRequests (max (redis_ttl key now d2) 0), d2))
                  else (PassedWith max_requests (max 0 (max_requests - current)), d2))"

end
