(* ===== verification/Rate_Limit_Runs.thy ===== *)
theory Rate_Limit_Runs
  imports Rate_Limits
begin

section \<open>Properties of the rate limits\<close>

text \<open>
  How many requests the limiter of the identity endpoints lets through in an interval, whatever else
  it counts; which address it counts them for; and how the middleware, which takes the first address
  of the header, is passed by.
\<close>

subsection \<open>One pass of the script\<close>

lemma dict_get_incr: "dict_get (snd (redis_incr k now d)) k' =
    (if k' = k then (case live_counter k now d of None \<Rightarrow> Some \<lparr>c_value = 1, c_expire = None\<rparr>
       | Some c \<Rightarrow> Some (c\<lparr>c_value := c_value c + 1\<rparr>)) else dict_get d k')"
  by (simp add: redis_incr_def dict_simps split: option.split)

lemma dict_get_pexpire: "k' \<noteq> k \<Longrightarrow> dict_get (redis_pexpire k ms now d) k' = dict_get d k'"
  by (simp add: redis_pexpire_def dict_simps split: option.split)

lemma live_counterD:
  assumes "live_counter k now d = Some c"
  shows "dict_get d k = Some c" and "c_expire c = Some e \<Longrightarrow> now < e"
  using assms by (auto simp: live_counter_def split: option.splits if_splits)

text \<open>The counter of a key after the script has counted it: the value and the expiry it has then.\<close>

definition counted :: "string \<Rightarrow> int \<Rightarrow> int \<Rightarrow> counters \<Rightarrow> counter" where
  "counted k ms now d =
     (case live_counter k now d of
        None \<Rightarrow> \<lparr>c_value = 1, c_expire = Some (now + ms)\<rparr>
      | Some c \<Rightarrow> \<lparr>c_value = c_value c + 1,
          c_expire = Some (case c_expire c of None \<Rightarrow> now + ms | Some e \<Rightarrow> if c_value c = 0 then now + ms else e)\<rparr>)"

lemma count_window_counts:
  assumes "0 < ms"
  shows "\<exists>least. count_window now (k, l, ms) ((r, m, mn), d) =
    ((if l < c_value (counted k ms now d) then 1 else r,
      if l < c_value (counted k ms now d) then max m (the (c_expire (counted k ms now d)) - now) else m, Some least),
     dict_set k (counted k ms now d) d)"
proof (cases "live_counter k now d")
  case None
  with assms show ?thesis
    by (auto simp: count_window_def redis_incr_def redis_pexpire_def redis_pttl_def live_counter_def counted_def
        dict_simps dict_set_set max_def split: option.split)
next
  case (Some c)
  note cD = live_counterD [OF Some]
  obtain v x where c: "c = \<lparr>c_value = v, c_expire = x\<rparr>" by (cases c)
  show ?thesis
    using Some cD assms unfolding c
    by (cases x) (auto simp: count_window_def redis_incr_def redis_pexpire_def redis_pttl_def live_counter_def counted_def
        dict_simps dict_set_set max_def split: option.split)
qed

subsection \<open>The script as a whole\<close>

text \<open>What the script means for one window: how many requests it has then seen, whether they are too
  many, how long the window goes on and how many are left.\<close>

abbreviation window_key :: "window \<Rightarrow> string" where "window_key w \<equiv> fst w"

definition seen :: "int \<Rightarrow> counters \<Rightarrow> window \<Rightarrow> int" where
  "seen now d = (\<lambda>(k, l, ms). c_value (counted k ms now d))"

definition exceeded :: "int \<Rightarrow> counters \<Rightarrow> window \<Rightarrow> bool" where
  "exceeded now d = (\<lambda>(k, l, ms). l < c_value (counted k ms now d))"

definition left_open :: "int \<Rightarrow> counters \<Rightarrow> window \<Rightarrow> int" where
  "left_open now d = (\<lambda>(k, l, ms). the (c_expire (counted k ms now d)) - now)"

definition left_over :: "int \<Rightarrow> counters \<Rightarrow> window \<Rightarrow> int" where
  "left_over now d = (\<lambda>(k, l, ms). max 0 (l - c_value (counted k ms now d)))"

definition windows_ok :: "window list \<Rightarrow> bool" where
  "windows_ok ws \<longleftrightarrow> distinct (map fst ws) \<and> list_all (\<lambda>(k, l, ms). 0 < ms) ws"

lemma count_window_least:
  assumes "0 < ms"
  shows "count_window now (k, l, ms) ((r, m, mn), d) =
    ((if exceeded now d (k, l, ms) then 1 else r,
      if exceeded now d (k, l, ms) then max m (left_open now d (k, l, ms)) else m,
      Some (case mn of None \<Rightarrow> left_over now d (k, l, ms) | Some x \<Rightarrow> min x (left_over now d (k, l, ms)))),
     dict_set k (counted k ms now d) d)"
proof -
  have cur: "fst (redis_incr k now d) = c_value (counted k ms now d)"
    by (simp add: redis_incr_def counted_def split: option.split)
  have "\<exists>r m d. count_window now (k, l, ms) ((r0, m0, mn), d0) =
      ((r, m, Some (case mn of None \<Rightarrow> max 0 (l - fst (redis_incr k now d0))
         | Some x \<Rightarrow> min x (max 0 (l - fst (redis_incr k now d0))))), d)" for r0 m0 d0
    by (auto simp: count_window_def max_def min_def split: option.split prod.split)
  then obtain r' m' d' where "count_window now (k, l, ms) ((r, m, mn), d) = ((r', m',
      Some (case mn of None \<Rightarrow> max 0 (l - c_value (counted k ms now d))
         | Some x \<Rightarrow> min x (max 0 (l - c_value (counted k ms now d))))), d')"
    unfolding cur [symmetric] by metis
  with count_window_counts [OF assms, of now k l r m mn d] show ?thesis
    by (auto simp: exceeded_def left_open_def left_over_def cong: option.case_cong)
qed

lemma counted_cong: "dict_get d k = dict_get d' k \<Longrightarrow> counted k ms now d = counted k ms now d'"
  by (simp add: counted_def live_counter_def)

lemma window_cong:
  assumes "dict_get d (fst w) = dict_get d' (fst w)"
  shows "exceeded now d w = exceeded now d' w" and "left_open now d w = left_open now d' w"
    and "left_over now d w = left_over now d' w"
proof -
  obtain k l ms where w: "w = (k, l, ms)" by (cases w)
  have "counted k ms now d = counted k ms now d'" by (rule counted_cong) (use assms w in simp)
  then show "exceeded now d w = exceeded now d' w" "left_open now d w = left_open now d' w"
    "left_over now d w = left_over now d' w"
    by (simp_all add: exceeded_def left_open_def left_over_def w)
qed

text \<open>The running values after the windows of the list.\<close>

definition verdict_of :: "int \<Rightarrow> counters \<Rightarrow> window list \<Rightarrow> verdict \<Rightarrow> verdict" where
  "verdict_of now d ws = (\<lambda>(r, m, mn).
     (if list_ex (exceeded now d) ws then 1 else r,
      foldl max m (map (left_open now d) (filter (exceeded now d) ws)),
      foldl (\<lambda>mn x. Some (case mn of None \<Rightarrow> x | Some y \<Rightarrow> min y x)) mn (map (left_over now d) ws)))"

lemma verdict_of_cong:
  assumes "\<And>w. w \<in> set ws \<Longrightarrow> dict_get d (fst w) = dict_get d' (fst w)"
  shows "verdict_of now d ws v = verdict_of now d' ws v"
proof -
  have "list_ex (exceeded now d) ws = list_ex (exceeded now d') ws"
    unfolding list_ex_iff using window_cong(1) [OF assms] by blast
  moreover have "filter (exceeded now d) ws = filter (exceeded now d') ws"
    by (rule filter_cong [OF refl]) (rule window_cong(1) [OF assms])
  moreover have "map (left_open now d) (filter P ws) = map (left_open now d') (filter P ws)" for P
    by (rule map_cong [OF refl]) (auto intro: window_cong(2) assms)
  moreover have "map (left_over now d) ws = map (left_over now d') ws"
    by (rule map_cong [OF refl]) (rule window_cong(3) [OF assms])
  ultimately show ?thesis unfolding verdict_of_def by (simp only:)
qed

lemma count_windows:
  assumes "windows_ok ws"
  shows "\<exists>d'. foldl (\<lambda>st w. count_window now w st) (v, d) ws = (verdict_of now d ws v, d') \<and>
    (\<forall>k. dict_get d' k = (case dict_get ws k of None \<Rightarrow> dict_get d k | Some (l, ms) \<Rightarrow> Some (counted k ms now d)))"
  using assms
proof (induction ws arbitrary: v d)
  case Nil
  then show ?case by (simp add: verdict_of_def split: prod.split)
next
  case (Cons w ws)
  obtain k l ms where w: "w = (k, l, ms)" by (cases w)
  obtain r m mn where v: "v = (r, m, mn)" by (cases v)
  from Cons.prems w have ms: "0 < ms" and ok: "windows_ok ws" and k: "k \<notin> fst ` set ws"
    by (auto simp: windows_ok_def)
  let ?d1 = "dict_set k (counted k ms now d) d"
  let ?v1 = "fst (count_window now w (v, d))"
  from Cons.IH [OF ok, of ?v1 ?d1] obtain d' where
    d': "foldl (\<lambda>st w. count_window now w st) (?v1, ?d1) ws = (verdict_of now ?d1 ws ?v1, d')"
      "\<forall>k'. dict_get d' k' = (case dict_get ws k' of None \<Rightarrow> dict_get ?d1 k' | Some (l, ms) \<Rightarrow> Some (counted k' ms now ?d1))"
    by blast
  have step: "count_window now w (v, d) = (?v1, ?d1)"
    using count_window_least [OF ms, of now k l r m mn d] by (simp add: w v)
  have "verdict_of now ?d1 ws ?v1 = verdict_of now d ws ?v1"
    by (rule verdict_of_cong) (use k in \<open>auto simp: dict_simps\<close>)
  also have "\<dots> = verdict_of now d (w # ws) v"
    using count_window_least [OF ms, of now k l r m mn d] by (simp add: verdict_of_def w v split: option.split)
  finally have "foldl (\<lambda>st w. count_window now w st) (v, d) (w # ws) = (verdict_of now d (w # ws) v, d')"
    using d'(1) step by simp
  moreover have "dict_get d' k' = (case dict_get (w # ws) k' of None \<Rightarrow> dict_get d k' | Some (l, ms) \<Rightarrow> Some (counted k' ms now d))" for k'
  proof (cases "k' = k")
    case True
    have "dict_get ws k = None" using k by (simp add: map_of_eq_None_iff)
    with d'(2) True w show ?thesis by (simp add: dict_simps)
  next
    case False
    then have "counted k' ms' now ?d1 = counted k' ms' now d" for ms' by (intro counted_cong) (simp add: dict_simps)
    with d'(2) False w show ?thesis by (simp add: dict_simps split: option.split prod.split)
  qed
  ultimately show ?case by blast
qed

lemma multi_window_result:
  assumes "windows_ok ws"
  shows "\<exists>d'. multi_window ws now d = ((if list_ex (exceeded now d) ws then 1 else 0,
      foldl max 0 (map (left_open now d) (filter (exceeded now d) ws)),
      (case snd (snd (verdict_of now d ws (0, 0, None))) of None \<Rightarrow> 0 | Some x \<Rightarrow> x)), d') \<and>
    (\<forall>k. dict_get d' k = (case dict_get ws k of None \<Rightarrow> dict_get d k | Some (l, ms) \<Rightarrow> Some (counted k ms now d)))"
  using count_windows [OF assms, of now "(0, 0, None)" d]
  by (auto simp: multi_window_def verdict_of_def)

subsection \<open>What a key lets through\<close>

text \<open>The number of script runs that count the key and are not rejected.\<close>

fun passed :: "string \<Rightarrow> (int \<times> window list) list \<Rightarrow> counters \<Rightarrow> int" where
  "passed k [] d = 0"
| "passed k ((now, ws) # calls) d =
     (if dict_get ws k \<noteq> None \<and> fst (fst (multi_window ws now d)) = 0 then 1 else 0) +
     passed k calls (snd (multi_window ws now d))"

definition call_ok :: "string \<Rightarrow> int \<Rightarrow> int \<Rightarrow> int \<times> window list \<Rightarrow> bool" where
  "call_ok k l ms = (\<lambda>(now, ws). windows_ok ws \<and> (dict_get ws k = None \<or> dict_get ws k = Some (l, ms)))"

lemma passed_step:
  assumes ok: "call_ok k l ms (now, ws)"
  shows "dict_get ws k = None \<Longrightarrow> dict_get (snd (multi_window ws now d)) k = dict_get d k"
    and "dict_get ws k \<noteq> None \<Longrightarrow> dict_get (snd (multi_window ws now d)) k = Some (counted k ms now d)"
    and "dict_get ws k \<noteq> None \<Longrightarrow> fst (fst (multi_window ws now d)) = 0 \<Longrightarrow> c_value (counted k ms now d) \<le> l"
proof -
  from ok have ws: "windows_ok ws" "dict_get ws k = None \<or> dict_get ws k = Some (l, ms)" by (auto simp: call_ok_def)
  from multi_window_result [OF ws(1), of now d] obtain d' m x
    where r: "multi_window ws now d = ((if list_ex (exceeded now d) ws then 1 else 0, m, x), d')"
      and d': "\<forall>k. dict_get d' k = (case dict_get ws k of None \<Rightarrow> dict_get d k | Some (l, ms) \<Rightarrow> Some (counted k ms now d))"
    by blast
  show "dict_get ws k = None \<Longrightarrow> dict_get (snd (multi_window ws now d)) k = dict_get d k" using r d' by simp
  show "dict_get ws k \<noteq> None \<Longrightarrow> dict_get (snd (multi_window ws now d)) k = Some (counted k ms now d)"
    using r d' ws(2) by auto
  show "c_value (counted k ms now d) \<le> l" if "dict_get ws k \<noteq> None" "fst (fst (multi_window ws now d)) = 0"
  proof -
    have "(k, l, ms) \<in> set ws" using ws(2) that(1) by (auto dest: map_of_SomeD)
    moreover have "\<not> list_ex (exceeded now d) ws" using that(2) r by (auto split: if_splits)
    ultimately have "\<not> exceeded now d (k, l, ms)" unfolding list_ex_iff by blast
    then show ?thesis by (simp add: exceeded_def)
  qed
qed

lemma passed_in_window:
  assumes "\<forall>x \<in> set calls. call_ok k l ms x \<and> fst x < e" and "dict_get d k = Some \<lparr>c_value = v, c_expire = Some e\<rparr>" and "0 < v"
  shows "passed k calls d \<le> max 0 (l - v)"
  using assms
proof (induction calls arbitrary: d v)
  case (Cons x calls)
  obtain now ws where x: "x = (now, ws)" by (cases x)
  from Cons.prems(1) x have ok: "call_ok k l ms (now, ws)" and now: "now < e" by auto
  note st = passed_step [OF ok, of d]
  have live: "live_counter k now d = Some \<lparr>c_value = v, c_expire = Some e\<rparr>"
    using Cons.prems(2) now by (simp add: live_counter_def)
  then have c: "counted k ms now d = \<lparr>c_value = v + 1, c_expire = Some e\<rparr>" using Cons.prems(3) by (simp add: counted_def)
  show ?case
  proof (cases "dict_get ws k = None")
    case True
    then have "passed k calls (snd (multi_window ws now d)) \<le> max 0 (l - v)"
      using Cons.IH [of "snd (multi_window ws now d)" v] Cons.prems st(1) by simp
    with True show ?thesis by (simp add: x)
  next
    case False
    then have "passed k calls (snd (multi_window ws now d)) \<le> max 0 (l - (v + 1))"
      using Cons.IH [of "snd (multi_window ws now d)" "v + 1"] Cons.prems st(2) c by simp
    moreover have "v + 1 \<le> l" if "fst (fst (multi_window ws now d)) = 0" using st(3) [OF False that] c by simp
    ultimately show ?thesis by (auto simp: x)
  qed
qed simp

lemma passed_in_interval:
  assumes "\<forall>x \<in> set calls. call_ok k l ms x \<and> t \<le> fst x \<and> fst x < t + ms" and "0 < ms"
    and "\<And>c. dict_get d k = Some c \<Longrightarrow> 0 < c_value c" and "0 \<le> l"
  shows "passed k calls d \<le> l + (case dict_get d k of None \<Rightarrow> 0 | Some c \<Rightarrow> max 0 (l - c_value c))"
  using assms(1,3)
proof (induction calls arbitrary: d)
  case Nil
  show ?case using assms(4) by (simp split: option.split)
next
  case (Cons x calls)
  obtain now ws where x: "x = (now, ws)" by (cases x)
  let ?d = "snd (multi_window ws now d)"
  from Cons.prems(1) x have ok: "call_ok k l ms (now, ws)" and now: "t \<le> now" "now < t + ms" by auto
  from Cons.prems(1) have rest: "\<forall>x \<in> set calls. call_ok k l ms x \<and> t \<le> fst x \<and> fst x < t + ms" by simp
  note st = passed_step [OF ok, of d]
  show ?case
  proof (cases "dict_get ws k = None")
    case True
    then have same: "dict_get ?d k = dict_get d k" by (rule st(1))
    with Cons.IH [OF rest, of ?d] Cons.prems(2) True show ?thesis by (simp add: x)
  next
    case counts: False
    note get = st(2) [OF counts]
    show ?thesis
    proof (cases "live_counter k now d")
      case None
      then have c: "counted k ms now d = \<lparr>c_value = 1, c_expire = Some (now + ms)\<rparr>" by (simp add: counted_def)
      have "\<forall>x \<in> set calls. call_ok k l ms x \<and> fst x < now + ms" using rest now(1) by auto
      from passed_in_window [OF this get [unfolded c]] have "passed k calls ?d \<le> max 0 (l - 1)" by simp
      moreover have "1 \<le> l" if "fst (fst (multi_window ws now d)) = 0" using st(3) [OF counts that] c by simp
      ultimately have "passed k (x # calls) d \<le> l" using assms(4) by (auto simp: x)
      moreover have "0 \<le> (case dict_get d k of None \<Rightarrow> 0 | Some c \<Rightarrow> max 0 (l - c_value c))" by (simp split: option.split)
      ultimately show ?thesis by linarith
    next
      case (Some c)
      then have d: "dict_get d k = Some c" by (rule live_counterD(1))
      have v: "c_value (counted k ms now d) = c_value c + 1" using Some by (simp add: counted_def)
      have "passed k calls ?d \<le> l + max 0 (l - (c_value c + 1))"
        using Cons.IH [OF rest, of ?d] get v Cons.prems(2) [OF d] by simp
      moreover have "c_value c + 1 \<le> l" if "fst (fst (multi_window ws now d)) = 0" using st(3) [OF counts that] v by simp
      ultimately show ?thesis using d by (auto simp: x)
    qed
  qed
qed

subsection \<open>The limit of a rule\<close>

lemma limiter_windows_get:
  assumes "limiter_windows hmac prefix action subjects rules = Inr ws" and "r \<in> set rules"
  shows "py_strip (case dict_get subjects (dimension r) of None \<Rightarrow> [] | Some x \<Rightarrow> x) \<noteq> [] \<and>
    (limiter_key hmac prefix action r (py_strip (case dict_get subjects (dimension r) of None \<Rightarrow> [] | Some x \<Rightarrow> x)),
     rule_limit r, window_seconds r * 1000) \<in> set ws"
  using assms by (induction rules arbitrary: ws) (auto split: if_splits sum.splits)

lemma limiter_windows_rule:
  assumes "limiter_windows hmac prefix action subjects rules = Inr ws" and "(k, l, ms) \<in> set ws"
  shows "\<exists>r \<in> set rules. \<exists>v. k = limiter_key hmac prefix action r v \<and> l = rule_limit r \<and> ms = window_seconds r * 1000"
  using assms by (induction rules arbitrary: ws) (auto split: if_splits sum.splits)

lemma limiter_key_name:
  assumes "\<And>x y. length (hmac x) = length (hmac y)"
    and "limiter_key hmac prefix action r v = limiter_key hmac prefix action r' v'"
  shows "rule_name r = rule_name r'"
proof -
  have "rule_name r @ '':'' @ hmac (''pmk-auth-rate-limit-v1:'' @ action @ '':'' @ dimension r @ '':'' @ v) =
      rule_name r' @ '':'' @ hmac (''pmk-auth-rate-limit-v1:'' @ action @ '':'' @ dimension r' @ '':'' @ v')"
    using assms(2) by (simp add: limiter_key_def)
  moreover have "length ('':'' @ hmac x) = length ('':'' @ hmac y)" for x y using assms(1) by simp
  ultimately show ?thesis by (metis append_eq_append_conv)
qed

definition rules_ok :: "limit_rule list \<Rightarrow> bool" where
  "rules_ok rules \<longleftrightarrow> distinct (map rule_name rules) \<and> list_all (\<lambda>r. rule_error r = None) rules"

lemma rules_positive: "rules_ok rules \<Longrightarrow> r \<in> set rules \<Longrightarrow> 1 \<le> rule_limit r \<and> 1 \<le> window_seconds r"
  by (auto simp: rules_ok_def rule_error_def list_all_iff split: if_splits)

lemma rules_same_name: "rules_ok rules \<Longrightarrow> r \<in> set rules \<Longrightarrow> r' \<in> set rules \<Longrightarrow> rule_name r = rule_name r' \<Longrightarrow> r = r'"
  by (auto simp: rules_ok_def distinct_map inj_on_def)

lemma limiter_windows_ok:
  assumes len: "\<And>x y. length (hmac x) = length (hmac y)" and ok: "rules_ok rules"
    and ws: "limiter_windows hmac prefix action subjects rules = Inr ws"
  shows "windows_ok ws"
  using ok ws
proof (induction rules arbitrary: ws)
  case Nil
  then show ?case by (simp add: windows_ok_def)
next
  case (Cons r rules)
  let ?v = "py_strip (case dict_get subjects (dimension r) of None \<Rightarrow> [] | Some x \<Rightarrow> x)"
  from Cons.prems(2) obtain ws' where ws': "limiter_windows hmac prefix action subjects rules = Inr ws'"
    and ws: "ws = (limiter_key hmac prefix action r ?v, rule_limit r, window_seconds r * 1000) # ws'"
    by (auto split: if_splits sum.splits)
  from Cons.prems(1) have ok: "rules_ok rules" and new: "rule_name r \<notin> rule_name ` set rules" by (auto simp: rules_ok_def)
  have "limiter_key hmac prefix action r ?v \<notin> fst ` set ws'"
  proof
    assume "limiter_key hmac prefix action r ?v \<in> fst ` set ws'"
    then obtain l ms where "(limiter_key hmac prefix action r ?v, l, ms) \<in> set ws'" by auto
    from limiter_windows_rule [OF ws' this] obtain r' v' where r': "r' \<in> set rules"
      "limiter_key hmac prefix action r ?v = limiter_key hmac prefix action r' v'" by blast
    from limiter_key_name [where hmac = hmac, OF len r'(2)] r'(1) new show False by simp
  qed
  moreover have "1 \<le> window_seconds r" using rules_positive [OF Cons.prems(1)] by simp
  ultimately show ?case using Cons.IH [OF ok ws'] by (simp add: windows_ok_def ws)
qed

text \<open>Calls of \<open>consume\<close> for one action: the number of them that were for the given subject in the
  dimension of the rule and were allowed.\<close>

definition subject_of :: "limit_rule \<Rightarrow> (string, string) dict \<Rightarrow> string" where
  "subject_of r subjects = py_strip (case dict_get subjects (dimension r) of None \<Rightarrow> [] | Some x \<Rightarrow> x)"

fun allowed_calls ::
    "(string \<Rightarrow> string) \<Rightarrow> string \<Rightarrow> string \<Rightarrow> limit_rule list \<Rightarrow> limit_rule \<Rightarrow> string
      \<Rightarrow> (bool \<times> int \<times> (string, string) dict) list \<Rightarrow> counters \<Rightarrow> int" where
  "allowed_calls hmac prefix action rules r v [] d = 0"
| "allowed_calls hmac prefix action rules r v ((up, now, subjects) # calls) d =
     (case consume hmac prefix up action subjects rules now d of (res, d') \<Rightarrow>
        (if subject_of r subjects = v \<and> (case res of Inl _ \<Rightarrow> False | Inr x \<Rightarrow> allowed x) then 1 else 0) +
        allowed_calls hmac prefix action rules r v calls d')"

lemma consume_cases:
  obtains (refused) e where "consume hmac prefix up action subjects rules now d = (Inl e, d)"
  | (counted) ws dec where "limiter_windows hmac prefix action subjects rules = Inr ws"
      and "consume hmac prefix up action subjects rules now d = (Inr dec, snd (multi_window ws now d))"
      and "allowed dec \<longleftrightarrow> fst (fst (multi_window ws now d)) = 0"
proof (cases "\<exists>ws. limiter_windows hmac prefix action subjects rules = Inr ws \<and> up \<and> \<not> blank action \<and> rules \<noteq> []")
  case True
  then obtain ws where ws: "limiter_windows hmac prefix action subjects rules = Inr ws" "up" "\<not> blank action" "rules \<noteq> []"
    by blast
  obtain rej m x d' where mw: "multi_window ws now d = ((rej, m, x), d')" by (metis prod.exhaust)
  show ?thesis 
    by (rule counted [OF ws(1), of "\<lparr>allowed = (rej = 0), retry_after_seconds = max 0 (- ((- m) div 1000)),
        remaining_requests = max 0 x\<rparr>"]) (simp_all add: consume_def ws mw)
next
  case False
  then have "\<exists>e. consume hmac prefix up action subjects rules now d = (Inl e, d)"
    by (cases "limiter_windows hmac prefix action subjects rules") (auto simp: consume_def)
  then show ?thesis using refused by blast
qed

lemma allowed_calls_passed:
  assumes len: "\<And>x y. length (hmac x) = length (hmac y)" and ok: "rules_ok rules" and r: "r \<in> set rules"
    and times: "\<forall>x \<in> set calls. t \<le> fst (snd x) \<and> fst (snd x) < e"
  shows "\<exists>calls'. allowed_calls hmac prefix action rules r v calls d \<le> passed (limiter_key hmac prefix action r v) calls' d \<and>
    (\<forall>x \<in> set calls'. call_ok (limiter_key hmac prefix action r v) (rule_limit r) (window_seconds r * 1000) x \<and>
       t \<le> fst x \<and> fst x < e)"
  using times
proof (induction calls arbitrary: d)
  case Nil
  show ?case by (rule exI [of _ "[]"]) simp
next
  case (Cons x calls)
  let ?k = "limiter_key hmac prefix action r v"
  obtain up now subjects where x: "x = (up, now, subjects)" by (cases x)
  from Cons.prems have rest: "\<forall>x \<in> set calls. t \<le> fst (snd x) \<and> fst (snd x) < e" and now: "t \<le> now" "now < e"
    by (auto simp: x)
  show ?case
  proof (cases rule: consume_cases [of hmac prefix up action subjects rules now d])
    case (refused err)
    with Cons.IH [OF rest, of d] show ?thesis by (simp add: x)
  next
    case (counted ws dec)
    let ?d = "snd (multi_window ws now d)"
    from Cons.IH [OF rest, of ?d] obtain calls' where
      IH: "allowed_calls hmac prefix action rules r v calls ?d \<le> passed ?k calls' ?d"
        "\<forall>x \<in> set calls'. call_ok ?k (rule_limit r) (window_seconds r * 1000) x \<and> t \<le> fst x \<and> fst x < e" by blast
    have "dict_get ws ?k = Some (rule_limit r, window_seconds r * 1000)" if some: "dict_get ws ?k \<noteq> None"
    proof -
      from some obtain l ms where lm: "dict_get ws ?k = Some (l, ms)" by auto
      from limiter_windows_rule [OF counted(1) map_of_SomeD [OF lm]] obtain r' v' where r': "r' \<in> set rules"
        "?k = limiter_key hmac prefix action r' v'" "l = rule_limit r'" "ms = window_seconds r' * 1000" by blast
      have "r = r'" by (rule rules_same_name [OF ok r r'(1) limiter_key_name [where hmac = hmac, OF len r'(2)]])
      with lm r' show ?thesis by simp
    qed
    then have "call_ok ?k (rule_limit r) (window_seconds r * 1000) (now, ws)"
      using limiter_windows_ok [where hmac = hmac, OF len ok counted(1)]
      by (cases "dict_get ws ?k") (simp_all add: call_ok_def)
    moreover have "dict_get ws ?k \<noteq> None" if "subject_of r subjects = v"
    proof -
      have "(?k, rule_limit r, window_seconds r * 1000) \<in> set ws"
        using limiter_windows_get [OF counted(1) r] that [unfolded subject_of_def] by (simp only:)
      from weak_map_of_SomeI [OF this] show ?thesis by auto
    qed
    then have "allowed_calls hmac prefix action rules r v (x # calls) d \<le> passed ?k ((now, ws) # calls') d"
      using IH(1) counted(2,3) by (cases "subject_of r subjects = v") (auto simp: x)
    ultimately show ?thesis using IH(2) now by (intro exI [of _ "(now, ws) # calls'"]) simp
  qed
qed

text \<open>C34. In no interval as long as the window of a rule does the limiter allow more than twice the
  limit of the rule to one subject, whatever other subjects, other rules and failures of Redis there
  are; when the subject has no counter at the beginning, it allows at most the limit. The digest has
  a fixed length and counters in Redis are positive.\<close>

theorem rate_limit_bound:
  assumes len: "\<And>x y. length (hmac x) = length (hmac y)" and ok: "rules_ok rules" and r: "r \<in> set rules"
    and times: "\<forall>x \<in> set calls. t \<le> fst (snd x) \<and> fst (snd x) < t + window_seconds r * 1000"
    and pos: "\<And>c. dict_get d (limiter_key hmac prefix action r v) = Some c \<Longrightarrow> 0 < c_value c"
  shows "allowed_calls hmac prefix action rules r v calls d \<le> 2 * rule_limit r \<and>
    (dict_get d (limiter_key hmac prefix action r v) = None \<longrightarrow>
      allowed_calls hmac prefix action rules r v calls d \<le> rule_limit r)"
proof -
  let ?k = "limiter_key hmac prefix action r v"
  obtain calls' where c: "allowed_calls hmac prefix action rules r v calls d \<le> passed ?k calls' d"
    "\<forall>x \<in> set calls'. call_ok ?k (rule_limit r) (window_seconds r * 1000) x \<and> t \<le> fst x \<and>
       fst x < t + window_seconds r * 1000"
    using allowed_calls_passed [where hmac = hmac, OF len ok r times] by blast
  have b: "1 \<le> rule_limit r" "1 \<le> window_seconds r" using rules_positive [OF ok r] by simp_all
  have "passed ?k calls' d \<le> rule_limit r + (case dict_get d ?k of None \<Rightarrow> 0 | Some c \<Rightarrow> max 0 (rule_limit r - c_value c))"
    by (rule passed_in_interval [OF c(2)]) (use b pos in auto)
  with c(1) b pos show ?thesis by (auto split: option.splits)
qed

text \<open>The rules of the code are named apart and valid.\<close>

lemma code_rules_ok:
  "rules_ok REGISTRATION_RULES" "rules_ok ORGANIZATION_REGISTRATION_RULES" "rules_ok EMAIL_VERIFICATION_RESEND_RULES"
  "rules_ok RECOVERY_EMAIL_ISSUE_RULES" "rules_ok RECOVERY_EMAIL_VERIFY_RULES" "rules_ok ACCOUNT_RECOVERY_START_RULES"
  "rules_ok ACCOUNT_RECOVERY_VERIFY_RULES" "rules_ok EMAIL_VERIFICATION_RULES" "rules_ok LOGIN_RULES"
  "rules_ok SESSION_REFRESH_RULES" "rules_ok MFA_VERIFICATION_RULES"
  by (simp_all add: rules_ok_def rule_error_def rule_def blank_def py_isspace_def REGISTRATION_RULES_def
      ORGANIZATION_REGISTRATION_RULES_def EMAIL_VERIFICATION_RESEND_RULES_def RECOVERY_EMAIL_ISSUE_RULES_def
      RECOVERY_EMAIL_VERIFY_RULES_def ACCOUNT_RECOVERY_START_RULES_def ACCOUNT_RECOVERY_VERIFY_RULES_def
      EMAIL_VERIFICATION_RULES_def LOGIN_RULES_def SESSION_REFRESH_RULES_def MFA_VERIFICATION_RULES_def)

subsection \<open>The address a request is counted for\<close>

lemma split_on_append: "split_on x (a @ x # b) = split_on x a @ split_on x b"
proof (induction a)
  case (Cons c a)
  show ?case
  proof (cases "c = x")
    case False
    have "split_on x a \<noteq> []" by (cases a) (auto split: list.split)
    with Cons False show ?thesis by (auto split: list.split)
  qed (use Cons in simp)
qed simp

lemma parse_all_length: "parse_all f xs = Some ys \<Longrightarrow> length ys = length xs"
  by (induction xs arbitrary: ys) (auto split: option.splits)

lemma parse_all_append:
  "parse_all f (xs @ ys) = Some zs \<Longrightarrow> \<exists>us vs. parse_all f xs = Some us \<and> parse_all f ys = Some vs \<and> zs = us @ vs"
  by (induction xs arbitrary: zs) (auto split: option.splits)

lemma find_append_some: "List.find P xs = Some x \<Longrightarrow> List.find P (xs @ ys) = Some x"
  by (induction xs) auto

lemma find_append_none: "List.find P xs = None \<Longrightarrow> List.find P (xs @ ys) = List.find P ys"
  by (induction xs) auto

text \<open>C35. The address cannot be forged. A peer outside the trusted networks is counted under its own
  address whatever header it sends. Behind trusted proxies that append the address they see, of which
  at least one is untrusted, the request is counted under the last untrusted address they appended,
  or under the peer when the header is too long or malformed; what the client wrote in front of it has
  no other influence.\<close>

theorem client_ip_not_forged:
  assumes peer: "ip_address a (py_strip peer_ip) = Some peer"
    and hops: "parse_all (ip_address a) (map py_strip (split_on (CHR '','') appended)) = Some seen_hops"
    and last: "List.find (\<lambda>ip. \<not> is_trusted p ip) (rev (seen_hops @ [peer])) = Some ip"
  shows "(\<not> is_trusted p peer \<longrightarrow> resolve_client_ip a p peer_ip header = Inr (compressed a peer)) \<and>
    resolve_client_ip a p peer_ip (Some (forged @ '','' @ appended)) \<in> {Inr (compressed a ip), Inr (compressed a peer)}"
proof -
  let ?raw = "map py_strip (split_on (CHR '','') (forged @ '','' @ appended))"
  have raw: "?raw = map py_strip (split_on (CHR '','') forged) @ map py_strip (split_on (CHR '','') appended)"
    using split_on_append [of "CHR '',''" forged appended] by simp
  have "List.find (\<lambda>ip. \<not> is_trusted p ip) (rev (zs @ [peer])) = Some ip"
    if "parse_all (ip_address a) ?raw = Some zs" for zs
  proof -
    from that [unfolded raw] parse_all_append obtain us vs where
      "parse_all (ip_address a) (map py_strip (split_on (CHR '','') appended)) = Some vs" "zs = us @ vs" by blast
    then have "rev (zs @ [peer]) = rev (seen_hops @ [peer]) @ rev us" using hops by simp
    then show ?thesis using find_append_some [OF last] by simp
  qed
  then have "resolve_client_ip a p peer_ip (Some (forged @ '','' @ appended)) \<in> {Inr (compressed a ip), Inr (compressed a peer)}"
    using peer by (auto simp: resolve_client_ip_def simp del: split_on.simps split: option.split)
  moreover have "resolve_client_ip a p peer_ip header = Inr (compressed a peer)" if "\<not> is_trusted p peer"
    using peer that by (simp add: resolve_client_ip_def split: option.split)
  ultimately show ?thesis by blast
qed

subsection \<open>The middleware is passed by\<close>

definition request_key :: "limit_settings \<Rightarrow> limited_request \<times> int \<Rightarrow> string" where
  "request_key c = (\<lambda>(q, now). rate_limit_key c (client_identifier q) (lr_path q))"

definition request_limit :: "limit_settings \<Rightarrow> limited_request \<times> int \<Rightarrow> exc + int \<times> int" where
  "request_limit c = (\<lambda>(q, now). parse_rate_limit
     (if starts_with (lr_authorization q) ''Bearer '' then limit_authenticated c else limit_default c))"

text \<open>One request after the other, each with a header of its own.\<close>

fun dispatch_all ::
    "limit_settings \<Rightarrow> (limited_request \<times> int) list \<Rightarrow> counters \<Rightarrow> limit_outcome list" where
  "dispatch_all c [] d = []"
| "dispatch_all c ((q, now) # qs) d =
     (case rate_limit_dispatch c RedisUp q now d of (r, d') \<Rightarrow> r # dispatch_all c qs d')"

lemma split_on_plain: "x \<notin> set s \<Longrightarrow> split_on x s = [s]"
  by (induction s) auto

lemma dispatch_keys:
  assumes "k \<noteq> rate_limit_key c (client_identifier q) (lr_path q)"
  shows "dict_get (snd (rate_limit_dispatch c RedisUp q now d)) k = dict_get d k"
  using assms dict_get_incr [of "rate_limit_key c (client_identifier q) (lr_path q)" now d k]
  by (auto simp: rate_limit_dispatch_def dict_get_pexpire split: sum.splits prod.splits)

lemma dispatch_fresh:
  assumes "dict_get d (rate_limit_key c (client_identifier q) (lr_path q)) = None"
    and "parse_rate_limit (if starts_with (lr_authorization q) ''Bearer '' then limit_authenticated c else limit_default c) = Inr (n, w)"
    and "1 \<le> n"
  shows "\<exists>r. fst (rate_limit_dispatch c RedisUp q now d) = r \<and> (\<forall>s. r \<noteq> TooManyRequests s) \<and> (\<forall>e. r \<noteq> Crashed e)"
  using assms by (auto simp: rate_limit_dispatch_def redis_incr_def live_counter_def)

text \<open>The general rate limit does not hold against a client that sends the header itself: requests
  with pairwise different first entries in X-Forwarded-For, and no counter yet, are never rejected,
  however many and however fast they are.\<close>

theorem header_evades_limit:
  assumes "distinct (map (request_key c) qs)"
    and "\<forall>x \<in> set qs. dict_get d (request_key c x) = None \<and> (\<exists>n w. request_limit c x = Inr (n, w) \<and> 1 \<le> n)"
  shows "TooManyRequests s \<notin> set (dispatch_all c qs d)"
  using assms
proof (induction qs arbitrary: d)
  case (Cons x qs)
  obtain q now where x: "x = (q, now)" by (cases x)
  let ?d = "snd (rate_limit_dispatch c RedisUp q now d)"
  have "dict_get ?d (request_key c y) = None" if "y \<in> set qs" for y
  proof -
    have "request_key c y \<in> request_key c ` set qs" using that by (rule imageI)
    then have "request_key c y \<noteq> request_key c x" using Cons.prems(1) by auto
    then have "request_key c y \<noteq> rate_limit_key c (client_identifier q) (lr_path q)" by (simp add: x request_key_def)
    from dispatch_keys [OF this] show ?thesis using Cons.prems(2) that by simp
  qed
  then have "TooManyRequests s \<notin> set (dispatch_all c qs ?d)"
    using Cons.prems by (intro Cons.IH) simp_all
  moreover have "\<forall>s. fst (rate_limit_dispatch c RedisUp q now d) \<noteq> TooManyRequests s"
    using Cons.prems(2) dispatch_fresh [of d c q] by (auto simp: x request_key_def request_limit_def)
  ultimately show ?case by (cases "rate_limit_dispatch c RedisUp q now d") (auto simp: x)
qed simp

subsection \<open>Concrete cases\<close>

definition ex_calls :: "(bool \<times> int \<times> (string, string) dict) list" where
  "ex_calls = map (\<lambda>i. (True, int i, [(''ip'', ''10.0.0.1''), (''email'', [char_of (97 + i)])])) [0..<12]"

theorem rate_limit_bound_witness:
  "allowed_calls (\<lambda>_. ''d'') ''rl'' ''login'' LOGIN_RULES (rule ''ip_window'' ''ip'' 10 (15 * 60)) ''10.0.0.1'' ex_calls [] \<le> 10"
proof -
  have r: "rule ''ip_window'' ''ip'' 10 (15 * 60) \<in> set LOGIN_RULES" by (simp add: LOGIN_RULES_def)
  have "\<forall>x \<in> set ex_calls. 0 \<le> fst (snd x) \<and>
      fst (snd x) < 0 + window_seconds (rule ''ip_window'' ''ip'' 10 (15 * 60)) * 1000"
    by (auto simp: ex_calls_def rule_def)
  from rate_limit_bound [where hmac = "\<lambda>_. ''d''" and d = "[]" and prefix = "''rl''" and action = "''login''" and v = "''10.0.0.1''",
      OF _ code_rules_ok(9) r this] show ?thesis
    by (simp add: rule_def)
qed

definition ex_addresses :: "nat addresses" where
  "ex_addresses = \<lparr>ip_address = (\<lambda>s. if s = [] then None else Some (length s)), compressed = (\<lambda>n. replicate n (CHR ''x''))\<rparr>"

definition ex_proxies :: "nat proxy_policy" where
  "ex_proxies = \<lparr>networks = [\<lambda>n. n = 5], max_forwarded_hops = 8\<rparr>"

theorem client_ip_not_forged_witness:
  "resolve_client_ip ex_addresses ex_proxies ''proxy'' (Some (''a'' @ '','' @ ''client,proxy'')) \<in> {Inr ''xxxxxx'', Inr ''xxxxx''}"
proof -
  have peer: "ip_address ex_addresses (py_strip ''proxy'') = Some 5" by code_simp
  have hops: "parse_all (ip_address ex_addresses) (map py_strip (split_on (CHR '','') ''client,proxy'')) = Some [6, 5]"
    by code_simp
  have last: "List.find (\<lambda>ip. \<not> is_trusted ex_proxies ip) (rev ([6, 5] @ [5])) = Some 6" by code_simp
  have "compressed ex_addresses 6 = ''xxxxxx''" "compressed ex_addresses 5 = ''xxxxx''" by code_simp+
  with client_ip_not_forged [OF peer hops last, where forged = "''a''"] show ?thesis by simp
qed

definition ex_request :: "string \<Rightarrow> limited_request" where
  "ex_request h = \<lparr>lr_path = ''/cgt'', lr_forwarded = Some h, lr_host = Some ''10.0.0.1'', lr_authorization = []\<rparr>"

definition ex_limits :: limit_settings where
  "ex_limits = \<lparr>limits_enabled = True, limit_default = ''1/minute'', limit_authenticated = ''2/minute'', limit_prefix = ''rl:''\<rparr>"

theorem header_evades_limit_witness:
  "TooManyRequests 60 \<notin> set (dispatch_all ex_limits [(ex_request ''a'', 0), (ex_request ''b'', 0), (ex_request ''c'', 0)] [])"
proof (rule header_evades_limit)
  have "parse_rate_limit ''1/minute'' = Inr (1, 60)" by code_simp
  then show "\<forall>x \<in> set [(ex_request ''a'', 0), (ex_request ''b'', 0), (ex_request ''c'', 0)].
      dict_get [] (request_key ex_limits x) = None \<and> (\<exists>n w. request_limit ex_limits x = Inr (n, w) \<and> 1 \<le> n)"
    by (simp add: request_limit_def ex_limits_def ex_request_def starts_with_def)
qed (simp add: request_key_def rate_limit_key_def client_identifier_def ex_request_def ex_limits_def py_strip_def py_isspace_def)

end
