(* ===== verification/Billing_Clock.thy ===== *)
theory Billing_Clock
  imports Maestro_Prelude
begin

section \<open>Dates, billing periods and grace windows\<close>

text \<open>
  \<open>admin_marketplace/subscription_billing_period.py\<close> and the calendar functions of
  \<open>subscription_delinquency_policy.py\<close>. A \<open>datetime\<close> of the proleptic Gregorian calendar is its year,
  month and day with the microseconds since midnight; instants are compared in that order. All aware
  values of the services are in one time zone (UTC), so awareness is the constructor of
  \<open>timestamp\<close>. Years past 9999, where \<open>datetime\<close> raises, are not modelled.
\<close>

datatype datetime = DateTime (dt_year: int) (dt_month: int) (dt_day: int) (dt_micros: int)

datatype timestamp = Aware datetime | Naive datetime

definition dt_key :: "datetime \<Rightarrow> int \<times> int \<times> int \<times> int" where
  "dt_key v = (dt_year v, dt_month v, dt_day v, dt_micros v)"

instantiation datetime :: linorder
begin

definition less_eq_datetime :: "datetime \<Rightarrow> datetime \<Rightarrow> bool" where
  "v \<le> w \<longleftrightarrow> dt_key v \<le> dt_key w"

definition less_datetime :: "datetime \<Rightarrow> datetime \<Rightarrow> bool" where
  "v < w \<longleftrightarrow> dt_key v < dt_key w"

instance
proof
  fix v w x :: datetime
  show "v < w \<longleftrightarrow> v \<le> w \<and> \<not> w \<le> v" by (auto simp: less_datetime_def less_eq_datetime_def)
  show "v \<le> v" by (simp add: less_eq_datetime_def)
  show "v \<le> w \<Longrightarrow> w \<le> x \<Longrightarrow> v \<le> x" by (auto simp: less_eq_datetime_def)
  show "v \<le> w \<Longrightarrow> w \<le> v \<Longrightarrow> v = w"
    by (cases v; cases w) (auto simp: less_eq_datetime_def dt_key_def)
  show "v \<le> w \<or> w \<le> v" by (auto simp: less_eq_datetime_def)
qed

end

subsection \<open>The calendar\<close>

definition leap_year :: "int \<Rightarrow> bool" where
  "leap_year y \<longleftrightarrow> y mod 4 = 0 \<and> (y mod 100 \<noteq> 0 \<or> y mod 400 = 0)"

text \<open>\<open>calendar.monthrange(year, month)[1]\<close>\<close>

definition days_in_month :: "int \<Rightarrow> int \<Rightarrow> int" where
  "days_in_month y m = (if m = 2 then if leap_year y then 29 else 28
     else if m = 4 \<or> m = 6 \<or> m = 9 \<or> m = 11 then 30 else 31)"

definition micros_per_day :: int where
  "micros_per_day = 86400000000"

definition valid_datetime :: "datetime \<Rightarrow> bool" where
  "valid_datetime v \<longleftrightarrow> 1 \<le> dt_month v \<and> dt_month v \<le> 12 \<and> 1 \<le> dt_day v \<and>
     dt_day v \<le> days_in_month (dt_year v) (dt_month v) \<and> 0 \<le> dt_micros v \<and> dt_micros v < micros_per_day"

fun next_day :: "datetime \<Rightarrow> datetime" where
  "next_day (DateTime y m d t) =
     (if d < days_in_month y m then DateTime y m (d + 1) t
      else if m < 12 then DateTime y (m + 1) 1 t else DateTime (y + 1) 1 1 t)"

text \<open>\<open>value + timedelta(days=n)\<close>\<close>

definition plus_days :: "datetime \<Rightarrow> nat \<Rightarrow> datetime" where
  "plus_days v n = (next_day ^^ n) v"

subsection \<open>Billing periods\<close>

text \<open>
  The month with number \<open>index\<close>, counted from January of the year of \<open>v\<close>, at the anchor day or the
  last day of a shorter month, at the time of day of \<open>v\<close>.
\<close>

definition month_at :: "datetime \<Rightarrow> int \<Rightarrow> int \<Rightarrow> datetime" where
  "month_at v index anchor =
     (let y = dt_year v + index div 12; m = index mod 12 + 1
      in DateTime y m (min anchor (days_in_month y m)) (dt_micros v))"

definition add_calendar_months :: "timestamp \<Rightarrow> int \<Rightarrow> exc + datetime" where
  "add_calendar_months v months = (case v of
     Naive _ \<Rightarrow> Inl (ValueError ''billing period anchor must be timezone-aware.'')
   | Aware d \<Rightarrow> ensure (1 \<le> months) (ValueError ''months must be a positive integer.'')
       (Inr (month_at d (dt_month d - 1 + months) (dt_day d))))"

definition next_anchored_month_boundary :: "timestamp \<Rightarrow> int \<Rightarrow> exc + datetime" where
  "next_anchored_month_boundary starts_at anchor_day = (case starts_at of
     Naive _ \<Rightarrow> Inl (ValueError ''billing period anchor must be timezone-aware.'')
   | Aware d \<Rightarrow> ensure (1 \<le> anchor_day \<and> anchor_day \<le> 31) (ValueError ''anchor_day must be between 1 and 31.'')
       (Inr (month_at d (dt_month d) anchor_day)))"

definition subscription_period_end :: "timestamp \<Rightarrow> string \<Rightarrow> exc + datetime" where
  "subscription_period_end starts_at billing_period =
     (let normalized = py_lower (py_strip billing_period)
      in if normalized = ''monthly'' then add_calendar_months starts_at 1
         else if normalized = ''annual'' then add_calendar_months starts_at 12
         else Inl (ValueError ''unsupported subscription billing period.''))"

definition quota_period_end :: "datetime \<Rightarrow> int \<Rightarrow> exc + datetime" where
  "quota_period_end starts_at period_days =
     ensure (1 \<le> period_days) (ValueError ''quota period must be a positive integer.'')
       (if period_days = 30 then add_calendar_months (Aware starts_at) 1
        else Inr (plus_days starts_at (nat period_days)))"

subsection \<open>Delinquency deadlines\<close>

text \<open>
  \<open>value.strftime("%Y-%m")\<close> is kept as the pair of the year and the month; the code only compares
  the keys.
\<close>

definition billing_cycle_key :: "datetime \<Rightarrow> int \<times> int" where
  "billing_cycle_key v = (dt_year v, dt_month v)"

definition rollover_payment_deadline :: "datetime \<Rightarrow> datetime" where
  "rollover_payment_deadline v =
     (let month = dt_month v + 2
      in if 12 < month then DateTime (dt_year v + (month - 1) div 12) ((month - 1) mod 12 + 1) 1 0
         else DateTime (dt_year v) month 1 0)"

subsection \<open>The calendar is a calendar\<close>

lemma days_in_month_bounds:
  "28 \<le> days_in_month y m" "1 \<le> days_in_month y m" "days_in_month y m \<le> 31"
  by (simp_all add: days_in_month_def)

lemma less_datetime_iff:
  "DateTime y m d t < DateTime y' m' d' t' \<longleftrightarrow>
     y < y' \<or> y = y' \<and> (m < m' \<or> m = m' \<and> (d < d' \<or> d = d' \<and> t < t'))"
  by (auto simp: less_datetime_def dt_key_def)

lemma valid_next_day: "valid_datetime v \<Longrightarrow> valid_datetime (next_day v)"
  by (cases v) (simp add: valid_datetime_def days_in_month_bounds)

lemma next_day_later: "v < next_day v"
  by (cases v) (simp add: less_datetime_iff)

lemma plus_days_later: "0 < n \<Longrightarrow> v < plus_days v n"
proof (induction n)
  case (Suc n)
  then show ?case
    using next_day_later [of "plus_days v n"] next_day_later [of v]
    by (cases n) (auto simp: plus_days_def)
qed simp

lemma valid_month_at:
  assumes "valid_datetime v" and "1 \<le> anchor"
  shows "valid_datetime (month_at v index anchor)"
  using assms by (simp add: valid_datetime_def month_at_def days_in_month_bounds)

lemma month_at_later:
  assumes "valid_datetime v"
  shows "v < month_at v (dt_month v) anchor"
proof (cases "dt_month v = 12")
  case True
  then show ?thesis by (cases v) (simp add: month_at_def less_datetime_iff)
next
  case False
  then show ?thesis using assms by (cases v) (simp add: month_at_def less_datetime_iff valid_datetime_def)
qed

text \<open>One more month from a month of the same anchored series.\<close>

lemma month_at_month_at:
  "month_at (month_at v i a) (dt_month (month_at v i a)) b = month_at v (i + 1) b"
proof -
  have "(i + 1) div 12 = i div 12 + (i mod 12 + 1) div 12" "(i + 1) mod 12 = (i mod 12 + 1) mod 12"
    using div_add1_eq [of i 1 12] by (simp_all add: mod_add_left_eq)
  then show ?thesis unfolding month_at_def Let_def datetime.sel by (simp only: add.assoc)
qed

lemma rollover_deadline_later:
  assumes "1 \<le> dt_month v" and "dt_month v \<le> 12"
  shows "v < rollover_payment_deadline v"
proof (cases v)
  case (DateTime y m d t)
  with assms consider "m = 11" | "m = 12" | "m \<le> 10" by fastforce
  then show ?thesis
    by cases (simp_all add: DateTime rollover_payment_deadline_def less_datetime_iff)
qed

end
