(* ===== verification/Billing_Catalog.thy ===== *)
theory Billing_Catalog
  imports Billing_Clock
begin

section \<open>Plans, top-up quotes and settlement\<close>

text \<open>
  \<open>billing/plan_fulfillment_catalog.py\<close>, \<open>billing/commercial_quota_top_up_contracts.py\<close>,
  \<open>billing/commercial_currency_settlement_contracts.py\<close>, the price tables of
  \<open>billing/maestro_group1_selected_pricing.py\<close> and the metric names of \<open>billing/maestro_units.py\<close>.
  A finite \<open>Decimal\<close> is an exact rational: the code adds, multiplies, compares and quantizes
  amounts far below the 28 digits of its context. The catalog is built from these constants at
  every call; the checks its constructors make on them always pass and have no branch here.
\<close>

type_synonym decimal = rat

text \<open>\<open>quantize\<close> to \<open>k\<close> digits after the point, half up (away from zero) and half even.\<close>

definition quantize_half_up :: "nat \<Rightarrow> decimal \<Rightarrow> decimal" where
  "quantize_half_up k x =
     (if 0 \<le> x then of_int \<lfloor>x * 10 ^ k + 1 / 2\<rfloor> / 10 ^ k
      else - (of_int \<lfloor>- x * 10 ^ k + 1 / 2\<rfloor> / 10 ^ k))"

definition quantize_half_even :: "nat \<Rightarrow> decimal \<Rightarrow> decimal" where
  "quantize_half_even k x =
     (let n = \<lfloor>x * 10 ^ k\<rfloor>; r = x * 10 ^ k - of_int n
      in of_int (if r < 1 / 2 \<or> r = 1 / 2 \<and> even n then n else n + 1) / 10 ^ k)"

subsection \<open>The authoritative plans\<close>

definition PLAN_FULFILLMENT_CATALOG_VERSION :: string where
  "PLAN_FULFILLMENT_CATALOG_VERSION = ''2026-08-plan-fulfillment-v2''"

definition QUOTA_METRIC_CODE :: string where
  "QUOTA_METRIC_CODE = ''maestro_units''"

record plan_spec =
  ps_plan_code :: string
  monthly_unit_allowance :: int
  ps_entitlement_codes :: "string list"

definition plan_specs :: "(string, plan_spec) dict" where
  "plan_specs =
     (let basic = [''maestro_execution'', ''byok_provider_connection'', ''standard_support''];
          business = [''maestro_execution'', ''byok_provider_connection'', ''business_support''];
          spec = (\<lambda>c n es. (c, \<lparr>ps_plan_code = c, monthly_unit_allowance = n, ps_entitlement_codes = es\<rparr>))
      in [spec ''academic'' 5000 (basic @ [''academic_use'']),
          spec ''starter'' 10000 basic,
          spec ''enterprise_integration_starter'' 50000
            (business @ [''advanced_integration'', ''enterprise_governance'']),
          spec ''business'' 100000 business,
          spec ''enterprise_pilot'' 500000 (business @ [''enterprise_governance'']),
          spec ''enterprise_core'' 1500000 (business @ [''enterprise_governance'']),
          spec ''enterprise_scale'' 3000000
            (business @ [''enterprise_governance'', ''advanced_integration'']),
          spec ''enterprise_strategic'' 5000000
            (business @ [''enterprise_governance'', ''advanced_integration''])])"

definition plan_code_aliases :: "(string, string) dict" where
  "plan_code_aliases =
     [(''pilot_starter'', ''starter''), (''enterprise'', ''enterprise_pilot''),
      (''enterprise_integration'', ''enterprise_pilot'')]"

definition normalize_plan_code :: "string \<Rightarrow> string" where
  "normalize_plan_code value =
     (let normalized = map (\<lambda>c. if c = CHR '' '' then CHR ''_'' else c) (py_lower (py_strip value))
      in case dict_get plan_code_aliases normalized of Some code \<Rightarrow> code | None \<Rightarrow> normalized)"

text \<open>\<open>None\<close> stands for the \<open>KeyError\<close> of an unknown plan.\<close>

definition get_plan_fulfillment_spec :: "string \<Rightarrow> plan_spec option" where
  "get_plan_fulfillment_spec plan_code = dict_get plan_specs (normalize_plan_code plan_code)"

definition normalize_maestro_metric_code :: "string \<Rightarrow> string" where
  "normalize_maestro_metric_code metric_code =
     (let normalized = py_lower (py_strip metric_code)
      in if normalized = QUOTA_METRIC_CODE \<or> normalized = ''credits'' then QUOTA_METRIC_CODE else normalized)"

subsection \<open>Top-up quotes\<close>

text \<open>\<open>SELECTED_MONTHLY_PRICES\<close> and \<open>SELECTED_OVERAGE_PRICES_PER_1000_UNITS\<close>\<close>

definition selected_monthly_prices :: "(string, decimal) dict" where
  "selected_monthly_prices =
     [(''academic'', 29), (''starter'', 49), (''enterprise_integration_starter'', 259),
      (''business'', 519), (''enterprise_pilot'', 2790), (''enterprise_core'', 7890),
      (''enterprise_scale'', 14990), (''enterprise_strategic'', 23900)]"

definition selected_overage_prices_per_1000 :: "(string, decimal) dict" where
  "selected_overage_prices_per_1000 =
     [(''academic'', 650 / 100), (''starter'', 590 / 100), (''enterprise_integration_starter'', 600 / 100),
      (''business'', 600 / 100), (''enterprise_pilot'', 650 / 100), (''enterprise_core'', 620 / 100),
      (''enterprise_scale'', 595 / 100), (''enterprise_strategic'', 575 / 100)]"

datatype top_up_purchase_state =
  Ready_For_Review | Below_Minimum | Invalid_Multiple | Above_Maximum | Upgrade_Recommended | Quote_Disabled

record top_up_policy =
  bundle_units :: int
  minimum_bundle_count :: int
  maximum_bundle_count :: int
  price_per_bundle_usd :: decimal

definition top_up_policy_inputs :: "(string, int \<times> int \<times> int) dict" where
  "top_up_policy_inputs =
     [(''academic'', (5000, 1, 4)), (''starter'', (10000, 1, 8)),
      (''enterprise_integration_starter'', (25000, 1, 8)), (''business'', (25000, 1, 16)),
      (''enterprise_pilot'', (100000, 1, 10)), (''enterprise_core'', (250000, 1, 10)),
      (''enterprise_scale'', (500000, 1, 8)), (''enterprise_strategic'', (500000, 1, 10))]"

definition top_up_policy_of :: "string \<Rightarrow> top_up_policy option" where
  "top_up_policy_of plan_code =
     (case (dict_get top_up_policy_inputs plan_code, dict_get selected_overage_prices_per_1000 plan_code) of
        (Some (units, least, most), Some overage) \<Rightarrow>
          Some \<lparr>bundle_units = units, minimum_bundle_count = least, maximum_bundle_count = most,
                price_per_bundle_usd = quantize_half_even 2 (overage * of_int units / 1000)\<rparr>
      | _ \<Rightarrow> None)"

definition next_plan_code :: "string \<Rightarrow> string option" where
  "next_plan_code plan_code =
     (if plan_code = ''enterprise_integration_starter'' then Some ''business''
      else dict_get
        [(''academic'', ''starter''), (''starter'', ''business''), (''business'', ''enterprise_pilot''),
         (''enterprise_pilot'', ''enterprise_core''), (''enterprise_core'', ''enterprise_scale''),
         (''enterprise_scale'', ''enterprise_strategic'')] plan_code)"

record top_up_quote =
  tq_bundle_units :: int
  tq_bundle_count :: int
  tq_total_units :: int
  tq_total_price_usd :: decimal
  tq_state :: top_up_purchase_state
  upgrade_plan_code :: "string option"
  upgrade_monthly_difference_usd :: "decimal option"

definition monthly_price :: "string \<Rightarrow> decimal" where
  "monthly_price code = (case dict_get selected_monthly_prices code of Some p \<Rightarrow> p | None \<Rightarrow> 0)"

definition quote_top_up_base :: "string \<Rightarrow> int \<Rightarrow> exc + top_up_quote" where
  "quote_top_up_base plan_code requested =
     fetch (top_up_policy_of plan_code) (ValueError (''Unknown top-up plan: '' @ plan_code)) (\<lambda>policy.
     ensure (0 < requested) (ValueError ''requested_units must be positive'')
       (let least = bundle_units policy * minimum_bundle_count policy;
            most = bundle_units policy * maximum_bundle_count policy;
            (state, count, total, price) =
              (if requested < least then (Below_Minimum, 0, 0, 0)
               else if most < requested then (Above_Maximum, 0, 0, 0)
               else if requested mod bundle_units policy \<noteq> 0 then (Invalid_Multiple, 0, 0, 0)
               else let count = requested div bundle_units policy
                    in (Ready_For_Review, count, count * bundle_units policy,
                        quantize_half_even 2 (price_per_bundle_usd policy * of_int count)));
            difference =
              (case next_plan_code plan_code of
                 Some up \<Rightarrow> if state = Ready_For_Review
                   then Some (quantize_half_even 2 (monthly_price up - monthly_price plan_code)) else None
               | None \<Rightarrow> None);
            final = (case difference of
                Some d \<Rightarrow> if 0 < d \<and> d \<le> price then Upgrade_Recommended else state
              | None \<Rightarrow> state)
        in Inr \<lparr>tq_bundle_units = bundle_units policy, tq_bundle_count = count, tq_total_units = total,
                tq_total_price_usd = price, tq_state = final, upgrade_plan_code = next_plan_code plan_code,
                upgrade_monthly_difference_usd = difference\<rparr>))"

definition quote_top_up :: "string \<Rightarrow> int \<Rightarrow> exc + top_up_quote" where
  "quote_top_up plan_code requested = and_then (quote_top_up_base plan_code requested) (\<lambda>quote.
     Inr (if tq_state quote = Ready_For_Review then quote\<lparr>tq_state := Quote_Disabled\<rparr> else quote))"

definition quote_top_up_for_runtime :: "string \<Rightarrow> int \<Rightarrow> exc + top_up_quote" where
  "quote_top_up_for_runtime plan_code requested = quote_top_up_base plan_code requested"

subsection \<open>Settlement\<close>

datatype checkout_channel = Local_Tunisia | Lemon_Squeezy

record exchange_rate_quote =
  base_currency :: string
  xr_settlement_currency :: string
  rate :: decimal
  xr_source :: string
  xr_reference :: string
  observed_at :: datetime
  xr_expires_at :: datetime

text \<open>\<open>str.upper\<close> is only compared with capital ASCII codes: letters above are left as they are.\<close>

definition py_upper :: "string \<Rightarrow> string" where
  "py_upper s = map (\<lambda>c. let n = (of_char c :: nat) in if 97 \<le> n \<and> n \<le> 122 then char_of (n - 32) else c) s"

text \<open>\<open>ExchangeRateQuote(...)\<close>: its checks and its normalisation.\<close>

definition exchange_rate_quote_of :: "exchange_rate_quote \<Rightarrow> exc + exchange_rate_quote" where
  "exchange_rate_quote_of q =
     (let base = py_upper (py_strip (base_currency q));
          settlement = py_upper (py_strip (xr_settlement_currency q))
      in ensure (base = ''USD'') (ValueError ''exchange-rate base currency must be USD'')
        (ensure (settlement = ''TND'') (ValueError ''exchange-rate settlement currency must be TND'')
        (ensure (0 < rate q) (ValueError ''exchange rate must be positive'')
        (ensure (\<not> blank (xr_source q)) (ValueError ''exchange-rate source must not be blank'')
        (ensure (\<not> blank (xr_reference q)) (ValueError ''exchange-rate reference must not be blank'')
        (ensure (observed_at q < xr_expires_at q)
           (ValueError ''exchange-rate expires_at must be after observed_at'')
        (Inr (q\<lparr>base_currency := base, xr_settlement_currency := settlement,
                xr_source := py_strip (xr_source q), xr_reference := py_strip (xr_reference q)\<rparr>))))))))"

definition is_expired_at :: "exchange_rate_quote \<Rightarrow> datetime \<Rightarrow> bool" where
  "is_expired_at q instant \<longleftrightarrow> xr_expires_at q \<le> instant"

definition calculate_tnd_settlement :: "decimal \<Rightarrow> decimal \<Rightarrow> exc + decimal" where
  "calculate_tnd_settlement amount_usd usd_tnd_rate =
     ensure (0 < amount_usd) (ValueError ''amount_usd must be positive'')
       (ensure (0 < usd_tnd_rate) (ValueError ''usd_tnd_rate must be positive'')
         (Inr (quantize_half_up 3 (amount_usd * usd_tnd_rate))))"

definition validate_channel_settlement ::
  "checkout_channel \<Rightarrow> decimal \<Rightarrow> string \<Rightarrow> decimal \<Rightarrow> exchange_rate_quote option \<Rightarrow> exc + unit" where
  "validate_channel_settlement channel total_usd currency amount quote =
     ensure (0 < total_usd) (ValueError ''total_price_usd must be positive'')
     (ensure (0 < amount) (ValueError ''settlement_amount must be positive'')
     (let normalized = py_upper (py_strip currency) in
      case channel of
        Lemon_Squeezy \<Rightarrow>
          ensure (normalized = ''USD'') (ValueError ''Lemon Squeezy settlement currency must be USD'')
          (ensure (quantize_half_up 2 amount = quantize_half_up 2 total_usd)
             (ValueError ''Lemon Squeezy settlement amount must equal USD order price'')
          (ensure (quote = None) (ValueError ''Lemon Squeezy settlement must not include exchange-rate data'')
             (Inr ())))
      | Local_Tunisia \<Rightarrow>
          ensure (normalized = ''TND'') (ValueError ''Tunisia-local settlement currency must be TND'')
          (fetch quote (ValueError ''Tunisia-local settlement requires an exchange-rate quote'') (\<lambda>q.
           and_then (calculate_tnd_settlement total_usd (rate q)) (\<lambda>expected.
           ensure (quantize_half_up 3 amount = expected)
             (ValueError ''Tunisia-local settlement amount does not match fixed quote'')
             (Inr ()))))))"

end
