(* ===== verification/Quota_Tables.thy ===== *)
theory Quota_Tables
  imports Billing_Catalog
begin

section \<open>The tables of subscriptions, quota cycles and top-ups\<close>

text \<open>
  The columns the services of \<open>admin_marketplace\<close> use, and the constraints their tables declare.
  A table is a dictionary of its rows by primary key, in insertion order; runtime access and
  delinquency are keyed by their unique subscription; usage, payments and transitions, whose keys
  nobody reads, are lists of rows. Columns constrained to a few texts are datatypes. The services
  run every operation in one unit of work that locks the rows it reads: what raises before its
  commit is rolled back, and a commit fails with \<open>ConstraintViolation\<close> when the new tables break a
  constraint. Column widths, foreign keys (the rows an operation refers to are looked up first) and
  the timestamps set by the database are not modelled; random identifiers are arguments.
\<close>

type_synonym uuid = string

datatype market_error =
    InvalidCommand string
  | UsageRefused string
  | RolloverRefused string
  | DelinquencyRefused string
  | EligibilityRefused string
  | OrderRefused string
  | CheckoutRefused string
  | GrantRefused string
  | PaymentRefused string
  | ReversalRefused string
  | WebhookRefused string
  | AccessRefused string
  | BillingRaised exc
  | ConstraintViolation

text \<open>An error of the pure billing functions passes through.\<close>

definition raised :: "exc + 'a \<Rightarrow> market_error + 'a" where
  "raised m = (case m of Inl e \<Rightarrow> Inl (BillingRaised e) | Inr x \<Rightarrow> Inr x)"

lemma raised_Inr [simp]: "raised m = Inr x \<longleftrightarrow> m = Inr x"
  by (simp add: raised_def split: sum.splits)

text \<open>Any error is turned into \<open>e\<close>.\<close>

definition raise_as :: "market_error \<Rightarrow> exc + 'a \<Rightarrow> market_error + 'a" where
  "raise_as e m = (case m of Inl _ \<Rightarrow> Inl e | Inr x \<Rightarrow> Inr x)"

lemma raise_as_Inr [simp]: "raise_as e m = Inr x \<longleftrightarrow> m = Inr x"
  by (simp add: raise_as_def split: sum.splits)

subsection \<open>Rows\<close>

datatype subscription_status = Sub_Pending | Sub_Active | Sub_Suspended | Sub_Cancelled | Sub_Expired
datatype access_stage = Stage_Active | Stage_Grace | Stage_Suspended | Stage_Terminated
datatype rollover_status = Rollover_Available | Rollover_Locked | Rollover_Restored | Rollover_Expired
datatype delinquency_state =
  Grace_Degraded | Delinquent_Read_Only | Account_Frozen | Pending_Deletion | Delinquency_Resolved
datatype top_up_order_state =
  TO_Draft | TO_Awaiting_Confirmation | TO_Awaiting_Payment | TO_Payment_Pending | TO_Payment_Verified |
  TO_Payment_Rejected | TO_Grant_Pending | TO_Granted | TO_Failed | TO_Cancelled
datatype checkout_status = Checkout_Not_Started | Checkout_Creating | Checkout_Ready | Checkout_Uncertain
datatype payment_outcome = Payment_Verified | Payment_Rejected | Payment_Pending
datatype reversal_outcome = Reversed | Manual_Review
datatype webhook_status = Hook_Received | Hook_Processing | Hook_Processed | Hook_Rejected

record market_plan =
  pl_plan_code :: string
  pl_quota_profile :: string

record market_subscription =
  sb_customer :: string
  sb_plan :: uuid
  sb_order :: "uuid option"
  sb_offer :: "uuid option"
  sb_status :: subscription_status
  sb_starts_at :: "datetime option"
  sb_ends_at :: "datetime option"

record subscription_runtime =
  rn_customer :: string
  rn_stage :: access_stage
  rn_version :: int
  rn_effective_at :: datetime
  rn_grace_until :: "datetime option"
  rn_suspended_at :: "datetime option"
  rn_terminated_at :: "datetime option"

record subscription_delinquency =
  dl_customer :: string
  dl_state :: delinquency_state
  missed_billing_cycles :: int
  last_failed_cycle_key :: "(int \<times> int) option"
  first_failed_at :: "datetime option"
  last_failed_at :: "datetime option"
  grace_started_at :: "datetime option"
  dl_grace_until :: "datetime option"
  grace_usage_percent :: int
  frozen_at :: "datetime option"
  deletion_eligible_at :: "datetime option"
  resolved_at :: "datetime option"

record quota_cycle =
  cy_subscription :: uuid
  cy_source :: "uuid option"
  cy_customer :: string
  cy_plan_code :: string
  cy_catalog_version :: string
  cy_entitlements :: "string list"
  cy_quota_profile :: string
  cy_metric :: string
  period_start :: datetime
  period_end :: datetime
  base_limit_units :: int
  rollover_units :: int
  top_up_units :: int
  cy_rollover_status :: rollover_status
  rollover_expires_at :: "datetime option"
  rollover_locked_at :: "datetime option"
  rollover_restored_at :: "datetime option"
  rollover_expired_at :: "datetime option"
  used_units :: int
  cy_version :: int

record cycle_usage =
  cu_cycle :: uuid
  cu_subscription :: uuid
  cu_customer :: string
  cu_metric :: string
  cu_units :: int
  idempotency_key_hash :: string
  dimensions_digest :: string
  occurred_at :: datetime

record top_up_order =
  to_customer :: string
  to_subscription :: uuid
  to_cycle :: uuid
  to_plan_code :: string
  to_catalog_version :: string
  requested_units :: int
  bundle_count :: int
  total_price_usd :: decimal
  settlement_currency :: string
  settlement_amount :: decimal
  to_exchange_rate :: "exchange_rate_quote option"
  to_channel :: checkout_channel
  provider_variant_id :: "string option"
  provider_checkout_id :: "string option"
  checkout_creation_status :: checkout_status
  to_idempotency_key :: string
  to_state :: top_up_order_state
  to_created_at :: datetime

record payment_evidence =
  pe_order :: uuid
  pe_provider_reference :: string
  pe_outcome :: payment_outcome
  verified_amount :: "decimal option"
  verified_currency :: "string option"
  immutable_evidence_reference :: "string option"
  pe_created_at :: datetime

record top_up_grant =
  gr_order :: uuid
  gr_subscription :: uuid
  gr_cycle :: uuid
  gr_customer :: string
  gr_plan_code :: string
  gr_catalog_version :: string
  gr_units :: int
  grant_idempotency_key :: string
  gr_provider_reference :: string
  granted_at :: datetime
  gr_expires_at :: datetime

record top_up_reversal =
  rv_order :: uuid
  rv_grant :: uuid
  rv_subscription :: uuid
  rv_cycle :: uuid
  rv_customer :: string
  provider_event_ref :: string
  rv_units :: int
  rv_outcome :: reversal_outcome
  reason_code :: string
  reversed_at :: datetime

record webhook_entry =
  payload_digest :: string
  event_name :: string
  resource_type :: string
  external_resource_id :: string
  wh_customer :: string
  order_ref :: string
  offer_ref :: string
  processing_status :: webhook_status
  attempt_count :: int
  provider_order_id :: "string option"
  provider_subscription_id :: "string option"
  variant_id :: "string option"
  wh_currency :: "string option"
  subtotal_amount :: "string option"
  total_amount :: "string option"
  refunded_amount :: "string option"
  provider_status :: "string option"
  provider_effective_at :: "timestamp option"
  claimed_at :: "datetime option"
  processed_at :: "datetime option"
  rejected_at :: "datetime option"
  last_error_code :: "string option"

record runtime_transition =
  tr_subscription :: uuid
  reconciliation_decision_id :: uuid
  tr_customer :: string
  tr_event :: string
  from_stage :: access_stage
  to_stage :: access_stage
  tr_effective_at :: datetime

record market_db =
  plans :: "(uuid, market_plan) dict"
  subscriptions :: "(uuid, market_subscription) dict"
  runtimes :: "(uuid, subscription_runtime) dict"
  delinquencies :: "(uuid, subscription_delinquency) dict"
  cycles :: "(uuid, quota_cycle) dict"
  usages :: "cycle_usage list"
  orders :: "(uuid, top_up_order) dict"
  payments :: "payment_evidence list"
  grants :: "(uuid, top_up_grant) dict"
  reversals :: "(uuid, top_up_reversal) dict"
  inbox :: "(uuid, webhook_entry) dict"
  transitions :: "runtime_transition list"

subsection \<open>Derived columns of a cycle\<close>

definition spendable_rollover_units :: "quota_cycle \<Rightarrow> int" where
  "spendable_rollover_units c =
     (if cy_rollover_status c = Rollover_Available \<or> cy_rollover_status c = Rollover_Restored
      then rollover_units c else 0)"

definition rollover_eligible_units :: "quota_cycle \<Rightarrow> int" where
  "rollover_eligible_units c = max (base_limit_units c + spendable_rollover_units c - used_units c) 0"

definition available_units :: "quota_cycle \<Rightarrow> int" where
  "available_units c =
     max (base_limit_units c + spendable_rollover_units c + top_up_units c - used_units c) 0"

subsection \<open>Constraints\<close>

definition cycle_ok :: "quota_cycle \<Rightarrow> bool" where
  "cycle_ok c \<longleftrightarrow> period_start c < period_end c \<and> 0 \<le> base_limit_units c \<and> 0 \<le> rollover_units c \<and>
     0 \<le> top_up_units c \<and> 0 \<le> used_units c \<and>
     used_units c \<le> base_limit_units c + rollover_units c + top_up_units c \<and> 0 \<le> cy_version c"

definition subscription_ok :: "market_subscription \<Rightarrow> bool" where
  "subscription_ok s \<longleftrightarrow> (case (sb_starts_at s, sb_ends_at s) of
     (Some a, Some b) \<Rightarrow> a < b | _ \<Rightarrow> True)"

definition runtime_ok :: "subscription_runtime \<Rightarrow> bool" where
  "runtime_ok r \<longleftrightarrow> 0 \<le> rn_version r \<and> (rn_stage r \<noteq> Stage_Grace \<or> rn_grace_until r \<noteq> None) \<and>
     (rn_stage r \<noteq> Stage_Suspended \<or> rn_suspended_at r \<noteq> None) \<and>
     (rn_stage r \<noteq> Stage_Terminated \<or> rn_terminated_at r \<noteq> None)"

definition delinquency_ok :: "subscription_delinquency \<Rightarrow> bool" where
  "delinquency_ok d \<longleftrightarrow> 0 \<le> missed_billing_cycles d \<and> 0 \<le> grace_usage_percent d \<and> grace_usage_percent d \<le> 100"

definition order_ok :: "top_up_order \<Rightarrow> bool" where
  "order_ok v \<longleftrightarrow> 0 < requested_units v \<and> 0 < bundle_count v \<and> 0 < total_price_usd v \<and>
     0 < settlement_amount v \<and>
     (case to_channel v of
        Lemon_Squeezy \<Rightarrow> settlement_currency v = ''USD'' \<and> settlement_amount v = total_price_usd v \<and>
          to_exchange_rate v = None
      | Local_Tunisia \<Rightarrow> settlement_currency v = ''TND'' \<and>
          (case to_exchange_rate v of None \<Rightarrow> False
           | Some q \<Rightarrow> 0 < rate q \<and> \<not> blank (xr_source q) \<and> \<not> blank (xr_reference q) \<and>
               observed_at q < xr_expires_at q)) \<and>
     (checkout_creation_status v \<noteq> Checkout_Ready \<or> provider_checkout_id v \<noteq> None)"

definition payment_ok :: "payment_evidence \<Rightarrow> bool" where
  "payment_ok p \<longleftrightarrow> (case verified_amount p of None \<Rightarrow> True | Some x \<Rightarrow> 0 < x) \<and>
     (case verified_currency p of None \<Rightarrow> True | Some c \<Rightarrow> length c = 3)"

definition webhook_ok :: "webhook_entry \<Rightarrow> bool" where
  "webhook_ok e \<longleftrightarrow> 0 \<le> attempt_count e \<and>
     (processed_at e \<noteq> None) = (processing_status e = Hook_Processed) \<and>
     (rejected_at e \<noteq> None) = (processing_status e = Hook_Rejected)"

abbreviation rows :: "('k, 'v) dict \<Rightarrow> 'v list" where
  "rows t \<equiv> map snd t"

definition constraints :: "market_db \<Rightarrow> bool" where
  "constraints db \<longleftrightarrow>
     (dict_ok (subscriptions db) \<and> list_all subscription_ok (rows (subscriptions db)) \<and>
      distinct (map sb_customer (filter (\<lambda>s. sb_status s = Sub_Active) (rows (subscriptions db))))) \<and>
     (dict_ok (runtimes db) \<and> list_all runtime_ok (rows (runtimes db))) \<and>
     (dict_ok (delinquencies db) \<and> list_all delinquency_ok (rows (delinquencies db))) \<and>
     (dict_ok (cycles db) \<and> list_all cycle_ok (rows (cycles db)) \<and>
      distinct (map (\<lambda>c. (cy_subscription c, cy_metric c, period_start c)) (rows (cycles db))) \<and>
      distinct (List.map_filter cy_source (rows (cycles db)))) \<and>
     distinct (map idempotency_key_hash (usages db)) \<and>
     (dict_ok (orders db) \<and> list_all order_ok (rows (orders db)) \<and>
      distinct (map to_idempotency_key (rows (orders db))) \<and>
      distinct (List.map_filter provider_checkout_id (rows (orders db)))) \<and>
     (list_all payment_ok (payments db) \<and> distinct (map pe_provider_reference (payments db))) \<and>
     (dict_ok (grants db) \<and> distinct (map gr_order (rows (grants db))) \<and>
      distinct (map grant_idempotency_key (rows (grants db)))) \<and>
     (dict_ok (reversals db) \<and> list_all (\<lambda>r. 0 < rv_units r) (rows (reversals db)) \<and>
      distinct (map provider_event_ref (rows (reversals db))) \<and>
      distinct (map rv_grant (rows (reversals db)))) \<and>
     (dict_ok (inbox db) \<and> list_all webhook_ok (rows (inbox db))) \<and>
     distinct (map reconciliation_decision_id (transitions db))"

text \<open>A new row is appended: a primary key in use breaks the constraints.\<close>

definition add_row :: "'k \<Rightarrow> 'v \<Rightarrow> ('k, 'v) dict \<Rightarrow> ('k, 'v) dict" where
  "add_row k v t = t @ [(k, v)]"

text \<open>The end of a unit of work, and a row of a table by a column.\<close>

type_synonym 'a market_op = "market_db \<Rightarrow> (market_error + 'a) \<times> market_db"

definition commit :: "market_db \<Rightarrow> market_error + market_db \<times> 'a \<Rightarrow> (market_error + 'a) \<times> market_db" where
  "commit db m = (case m of
     Inl e \<Rightarrow> (Inl e, db)
   | Inr (db', r) \<Rightarrow> if db' = db \<or> constraints db' then (Inr r, db') else (Inl ConstraintViolation, db))"

definition find_row :: "('v \<Rightarrow> bool) \<Rightarrow> ('k, 'v) dict \<Rightarrow> ('k \<times> 'v) option" where
  "find_row P t = List.find (\<lambda>(k, v). P v) t"

end
