(* ===== verification/Subscription_Quota.thy ===== *)
theory Subscription_Quota
  imports Quota_Tables
begin

section \<open>Quota usage, rollover, delinquency and runtime access\<close>

text \<open>
  \<open>subscription_runtime_access_policy.py\<close>, \<open>subscription_quota_usage.py\<close>,
  \<open>subscription_quota_rollover.py\<close>, \<open>subscription_rollover_delinquency.py\<close>,
  \<open>subscription_delinquency_policy.py\<close>, \<open>lemon_squeezy_subscription_reconciliation.py\<close> and
  \<open>lemon_squeezy_runtime_reconciliation.py\<close>. A function that takes the unit of work returns the
  tables it leaves beside its result; the operations that own the unit of work commit.
\<close>

subsection \<open>Runtime access\<close>

definition runtime_allows_usage :: "subscription_runtime \<Rightarrow> datetime \<Rightarrow> market_error + bool" where
  "runtime_allows_usage r ts = (case rn_stage r of
     Stage_Active \<Rightarrow> Inr True
   | Stage_Grace \<Rightarrow> fetch (rn_grace_until r)
       (AccessRefused ''grace runtime requires a timezone-aware grace deadline.'') (\<lambda>until. Inr (ts < until))
   | _ \<Rightarrow> Inr False)"

definition advance_expired_runtime_stage ::
  "subscription_runtime \<Rightarrow> datetime \<Rightarrow> market_error + subscription_runtime \<times> bool" where
  "advance_expired_runtime_stage r ts =
     (if rn_stage r \<noteq> Stage_Grace then Inr (r, False)
      else fetch (rn_grace_until r)
        (AccessRefused ''grace runtime requires a timezone-aware grace deadline.'') (\<lambda>until.
        if ts < until then Inr (r, False)
        else Inr (r\<lparr>rn_stage := Stage_Suspended, rn_effective_at := until, rn_grace_until := None,
          rn_suspended_at := Some until, rn_terminated_at := None, rn_version := rn_version r + 1\<rparr>, True)))"

subsection \<open>Recording usage\<close>

record usage_command =
  uc_subscription :: uuid
  uc_cycle :: uuid
  uc_customer :: string
  uc_metric :: string
  uc_units :: int
  uc_key_hash :: string
  uc_dimensions :: string
  uc_occurred_at :: timestamp

definition validate_usage :: "usage_command \<Rightarrow> market_error + datetime" where
  "validate_usage c =
     ensure (0 < uc_units c) (InvalidCommand ''quota usage units must be positive.'')
     (case uc_occurred_at c of
        Naive _ \<Rightarrow> Inl (InvalidCommand ''quota usage timestamp must be timezone-aware.'')
      | Aware ts \<Rightarrow>
        ensure (length (uc_key_hash c) = 64)
          (InvalidCommand ''quota usage idempotency hash must contain 64 characters.'')
        (ensure (length (uc_dimensions c) = 64)
          (InvalidCommand ''quota usage dimensions digest must contain 64 characters.'') (Inr ts)))"

definition usage_replay_matches :: "usage_command \<Rightarrow> datetime \<Rightarrow> cycle_usage \<Rightarrow> bool" where
  "usage_replay_matches c ts u \<longleftrightarrow> cu_cycle u = uc_cycle c \<and> cu_subscription u = uc_subscription c \<and>
     cu_customer u = uc_customer c \<and> cu_metric u = uc_metric c \<and> cu_units u = uc_units c \<and>
     dimensions_digest u = uc_dimensions c \<and> occurred_at u = ts"

definition usage_by_key :: "string \<Rightarrow> market_db \<Rightarrow> cycle_usage option" where
  "usage_by_key h db = List.find (\<lambda>u. idempotency_key_hash u = h) (usages db)"

definition sum_units_since :: "uuid \<Rightarrow> datetime \<Rightarrow> market_db \<Rightarrow> int" where
  "sum_units_since cycle since db =
     sum_list (map cu_units (filter (\<lambda>u. cu_cycle u = cycle \<and> since \<le> occurred_at u) (usages db)))"

definition enforce_degraded_grace_cap ::
  "usage_command \<Rightarrow> datetime \<Rightarrow> quota_cycle \<Rightarrow> subscription_runtime \<Rightarrow> market_db \<Rightarrow> market_error + unit" where
  "enforce_degraded_grace_cap c ts cycle runtime db =
     fetch (dict_get (delinquencies db) (uc_subscription c))
       (UsageRefused ''grace usage requires authoritative delinquency state.'') (\<lambda>d.
     ensure (dl_state d = Grace_Degraded)
       (UsageRefused ''grace usage requires authoritative delinquency state.'')
     (ensure (dl_customer d = uc_customer c)
       (UsageRefused ''grace usage customer conflicts with delinquency state.'')
     (fetch (grace_started_at d)
       (UsageRefused ''grace usage requires consistent timezone-aware deadlines.'') (\<lambda>started.
      fetch (dl_grace_until d)
       (UsageRefused ''grace usage requires consistent timezone-aware deadlines.'') (\<lambda>until.
      ensure (rn_grace_until runtime = Some until)
       (UsageRefused ''grace usage requires consistent timezone-aware deadlines.'')
      (ensure (started \<le> ts \<and> ts < until)
       (UsageRefused ''quota usage falls outside the degraded grace window.'')
      (ensure (sum_units_since (uc_cycle c) started db + uc_units c
                \<le> base_limit_units cycle * grace_usage_percent d div 100)
       (UsageRefused ''degraded grace usage cap is exhausted.'')
      (Inr ()))))))))"

text \<open>The subscription and its runtime: the runtime advanced past its grace, whether it was, and whether usage is allowed.\<close>

definition usage_access ::
  "usage_command \<Rightarrow> datetime \<Rightarrow> market_db \<Rightarrow> market_error + subscription_runtime \<times> bool \<times> bool" where
  "usage_access c ts db =
     fetch (dict_get (subscriptions db) (uc_subscription c))
       (UsageRefused ''quota usage requires an active subscription.'') (\<lambda>s.
     ensure (sb_status s = Sub_Active) (UsageRefused ''quota usage requires an active subscription.'')
     (ensure (sb_customer s = uc_customer c)
       (UsageRefused ''quota usage customer conflicts with subscription.'')
     (fetch (dict_get (runtimes db) (uc_subscription c))
       (UsageRefused ''quota usage requires authoritative runtime access.'') (\<lambda>r.
      ensure (rn_customer r = uc_customer c)
       (UsageRefused ''quota usage customer conflicts with runtime.'')
      (case advance_expired_runtime_stage r ts of
         Inl _ \<Rightarrow> Inl (UsageRefused ''grace runtime requires a timezone-aware grace deadline.'')
       | Inr (r', expired) \<Rightarrow> (case runtime_allows_usage r' ts of
           Inl _ \<Rightarrow> Inl (UsageRefused ''grace runtime requires a timezone-aware grace deadline.'')
         | Inr allowed \<Rightarrow> Inr (r', expired, allowed)))))))"

definition usage_row :: "usage_command \<Rightarrow> datetime \<Rightarrow> quota_cycle \<Rightarrow> cycle_usage" where
  "usage_row c ts cycle = \<lparr>cu_cycle = uc_cycle c, cu_subscription = cy_subscription cycle,
     cu_customer = cy_customer cycle, cu_metric = cy_metric cycle, cu_units = uc_units c,
     idempotency_key_hash = uc_key_hash c, dimensions_digest = uc_dimensions c, occurred_at = ts\<rparr>"

definition charge_usage ::
  "usage_command \<Rightarrow> datetime \<Rightarrow> subscription_runtime \<Rightarrow> market_db \<Rightarrow> market_error + market_db \<times> cycle_usage" where
  "charge_usage c ts runtime db =
     fetch (dict_get (cycles db) (uc_cycle c)) (UsageRefused ''quota cycle was not found.'') (\<lambda>cycle.
     ensure (cy_subscription cycle = uc_subscription c \<and> cy_customer cycle = uc_customer c \<and>
             cy_metric cycle = uc_metric c)
       (UsageRefused ''quota cycle conflicts with usage command.'')
     (ensure (period_start cycle \<le> ts \<and> ts < period_end cycle)
       (UsageRefused ''quota usage falls outside the selected cycle.'')
     (and_then (if rn_stage runtime = Stage_Grace then enforce_degraded_grace_cap c ts cycle runtime db else Inr ())
       (\<lambda>_.
      ensure (uc_units c \<le> available_units cycle) (UsageRefused ''quota balance is insufficient.'')
      (Inr (db\<lparr>cycles := dict_set (uc_cycle c)
              (cycle\<lparr>used_units := used_units cycle + uc_units c, cy_version := cy_version cycle + 1\<rparr>)
              (cycles db),
             usages := usages db @ [usage_row c ts cycle]\<rparr>,
            usage_row c ts cycle))))))"

definition record_usage :: "usage_command \<Rightarrow> cycle_usage market_op" where
  "record_usage c db = (case validate_usage c of
     Inl e \<Rightarrow> (Inl e, db)
   | Inr ts \<Rightarrow> (case usage_by_key (uc_key_hash c) db of
       Some u \<Rightarrow> (if usage_replay_matches c ts u then Inr u
                  else Inl (UsageRefused ''quota usage replay conflicts with the existing ledger entry.''), db)
     | None \<Rightarrow> (case usage_access c ts db of
         Inl e \<Rightarrow> (Inl e, db)
       | Inr (runtime, expired, allowed) \<Rightarrow>
           (let db1 = db\<lparr>runtimes := dict_set (uc_subscription c) runtime (runtimes db)\<rparr>
            in if allowed then commit db (charge_usage c ts runtime db1)
               else if expired then
                 (case commit db (Inr (db1, ())) of
                    (Inl e, db2) \<Rightarrow> (Inl e, db2)
                  | (Inr _, db2) \<Rightarrow> (Inl (UsageRefused ''quota usage is blocked by runtime access stage.''), db2))
               else (Inl (UsageRefused ''quota usage is blocked by runtime access stage.''), db)))))"

subsection \<open>Rollover into the next cycle\<close>

record rollover_command =
  rc_subscription :: uuid
  rc_source :: uuid
  rc_metric :: string
  rc_period_start :: timestamp
  rc_period_end :: timestamp
  rc_base_limit :: int

definition validate_rollover :: "rollover_command \<Rightarrow> market_error + datetime \<times> datetime" where
  "validate_rollover c =
     ensure (\<not> blank (rc_metric c)) (InvalidCommand ''quota metric code is required.'')
     (case (rc_period_start c, rc_period_end c) of
        (Aware a, Aware b) \<Rightarrow>
          ensure (a < b) (InvalidCommand ''quota rollover period is invalid.'')
          (ensure (0 \<le> rc_base_limit c) (InvalidCommand ''quota base limit cannot be negative.'') (Inr (a, b)))
      | _ \<Rightarrow> Inl (InvalidCommand ''quota rollover timestamps must be timezone-aware.''))"

definition rollover_replay_matches ::
  "rollover_command \<Rightarrow> datetime \<Rightarrow> datetime \<Rightarrow> string \<Rightarrow> quota_cycle \<Rightarrow> bool" where
  "rollover_replay_matches c start expected_end plan_code x \<longleftrightarrow>
     cy_subscription x = rc_subscription c \<and> cy_source x = Some (rc_source c) \<and>
     normalize_maestro_metric_code (cy_metric x) = QUOTA_METRIC_CODE \<and> cy_plan_code x = plan_code \<and>
     cy_catalog_version x = PLAN_FULFILLMENT_CATALOG_VERSION \<and> period_start x = start \<and>
     period_end x = expected_end \<and> base_limit_units x = rc_base_limit c \<and> top_up_units x = 0"

definition rolled_cycle ::
  "rollover_command \<Rightarrow> datetime \<Rightarrow> datetime \<Rightarrow> string \<Rightarrow> plan_spec \<Rightarrow> market_plan \<Rightarrow> quota_cycle \<Rightarrow> quota_cycle" where
  "rolled_cycle c start end_at customer spec plan source =
     \<lparr>cy_subscription = rc_subscription c, cy_source = Some (rc_source c), cy_customer = customer,
      cy_plan_code = ps_plan_code spec, cy_catalog_version = PLAN_FULFILLMENT_CATALOG_VERSION,
      cy_entitlements = ps_entitlement_codes spec, cy_quota_profile = pl_quota_profile plan,
      cy_metric = QUOTA_METRIC_CODE, period_start = start, period_end = end_at,
      base_limit_units = monthly_unit_allowance spec, rollover_units = rollover_eligible_units source,
      top_up_units = 0, cy_rollover_status = Rollover_Available, rollover_expires_at = None,
      rollover_locked_at = None, rollover_restored_at = None, rollover_expired_at = None,
      used_units = 0, cy_version = 0\<rparr>"

definition rollover_quota :: "uuid \<Rightarrow> rollover_command \<Rightarrow> (uuid \<times> quota_cycle) market_op" where
  "rollover_quota new_id c db = commit db (
     and_then (validate_rollover c) (\<lambda>(start, end_at).
     fetch (dict_get (subscriptions db) (rc_subscription c)) (RolloverRefused ''subscription was not found.'') (\<lambda>s.
     ensure (sb_status s = Sub_Active) (RolloverRefused ''quota rollover requires an active subscription.'')
     (fetch (sb_starts_at s) (RolloverRefused ''active subscription is missing its activation anchor.'') (\<lambda>anchor.
     fetch (dict_get (plans db) (sb_plan s)) (RolloverRefused ''subscription plan was not found.'') (\<lambda>plan.
     fetch (get_plan_fulfillment_spec (pl_plan_code plan))
       (RolloverRefused ''subscription plan is not in the authoritative catalog.'') (\<lambda>spec.
     ensure (normalize_maestro_metric_code (rc_metric c) = QUOTA_METRIC_CODE)
       (RolloverRefused ''quota metric conflicts with the authoritative plan.'')
     (ensure (rc_base_limit c = monthly_unit_allowance spec)
       (RolloverRefused ''quota base limit conflicts with the authoritative plan.'')
     (and_then (raised (next_anchored_month_boundary (Aware start) (dt_day anchor))) (\<lambda>expected.
     ensure (end_at = expected)
       (RolloverRefused ''quota period end conflicts with the activation-anchored monthly boundary.'')
     (case find_row (\<lambda>x. cy_source x = Some (rc_source c)) (cycles db) of
        Some (k, x) \<Rightarrow>
          ensure (rollover_replay_matches c start expected (ps_plan_code spec) x)
            (RolloverRefused ''quota rollover replay conflicts with the existing cycle.'') (Inr (db, (k, x)))
      | None \<Rightarrow>
          fetch (dict_get (cycles db) (rc_source c)) (RolloverRefused ''source quota cycle was not found.'') (\<lambda>source.
          ensure (cy_subscription source = rc_subscription c \<and>
                  normalize_maestro_metric_code (cy_metric source) = QUOTA_METRIC_CODE \<and>
                  cy_customer source = sb_customer s \<and> cy_plan_code source = ps_plan_code spec \<and>
                  cy_catalog_version source = PLAN_FULFILLMENT_CATALOG_VERSION)
            (RolloverRefused ''source quota cycle conflicts with the authoritative subscription plan.'')
          (ensure (period_end source = start) (RolloverRefused ''quota periods are not contiguous.'')
          (let x = rolled_cycle c start expected (sb_customer s) spec plan source
           in Inr (db\<lparr>cycles := add_row new_id x (cycles db)\<rparr>, (new_id, x))))))))))))))))"

subsection \<open>Rollover during a delinquency\<close>

text \<open>\<open>list_rollover_cycles\<close> selects the rows; the body of the loop is \<open>f\<close>.\<close>

definition is_rollover_cycle :: "uuid \<Rightarrow> quota_cycle \<Rightarrow> bool" where
  "is_rollover_cycle sid c \<longleftrightarrow> cy_subscription c = sid \<and> 0 < rollover_units c \<and>
     cy_rollover_status c \<noteq> Rollover_Expired"

fun each_rollover_cycle ::
  "(quota_cycle \<Rightarrow> market_error + quota_cycle) \<Rightarrow> uuid \<Rightarrow> (uuid, quota_cycle) dict \<Rightarrow>
     market_error + (uuid, quota_cycle) dict" where
  "each_rollover_cycle f sid [] = Inr []"
| "each_rollover_cycle f sid ((k, c) # t) =
     and_then (if is_rollover_cycle sid c then f c else Inr c) (\<lambda>c'.
     and_then (each_rollover_cycle f sid t) (\<lambda>t'. Inr ((k, c') # t')))"

definition lock_cycle :: "datetime \<Rightarrow> datetime \<Rightarrow> quota_cycle \<Rightarrow> market_error + quota_cycle" where
  "lock_cycle effective_at expires_at c =
     (if cy_rollover_status c = Rollover_Locked then
        ensure (rollover_expires_at c = Some expires_at)
          (DelinquencyRefused ''locked rollover expiry conflicts with the current delinquency.'') (Inr c)
      else Inr (c\<lparr>cy_rollover_status := Rollover_Locked, rollover_locked_at := Some effective_at,
        rollover_expires_at := Some expires_at, rollover_restored_at := None, rollover_expired_at := None,
        cy_version := cy_version c + 1\<rparr>))"

definition lock_rollover_for_delinquency ::
  "uuid \<Rightarrow> datetime \<Rightarrow> datetime \<Rightarrow> market_db \<Rightarrow> market_error + market_db" where
  "lock_rollover_for_delinquency sid effective_at expires_at db =
     ensure (effective_at < expires_at) (InvalidCommand ''rollover expiry must follow the delinquency timestamp.'')
     (and_then (each_rollover_cycle (lock_cycle effective_at expires_at) sid (cycles db)) (\<lambda>t.
      Inr (db\<lparr>cycles := t\<rparr>)))"

definition settle_cycle :: "datetime \<Rightarrow> quota_cycle \<Rightarrow> market_error + quota_cycle" where
  "settle_cycle ts c =
     (if cy_rollover_status c \<noteq> Rollover_Locked then Inr c
      else fetch (rollover_expires_at c)
        (DelinquencyRefused ''locked rollover requires a valid expiry timestamp.'') (\<lambda>expires.
        Inr (if ts < expires
             then c\<lparr>cy_rollover_status := Rollover_Restored, rollover_restored_at := Some ts,
                    rollover_expired_at := None, cy_version := cy_version c + 1\<rparr>
             else c\<lparr>cy_rollover_status := Rollover_Expired, rollover_expired_at := Some ts,
                    rollover_restored_at := None, cy_version := cy_version c + 1\<rparr>)))"

definition restore_or_expire_rollover_after_payment ::
  "uuid \<Rightarrow> datetime \<Rightarrow> market_db \<Rightarrow> market_error + market_db" where
  "restore_or_expire_rollover_after_payment sid ts db =
     and_then (each_rollover_cycle (settle_cycle ts) sid (cycles db)) (\<lambda>t. Inr (db\<lparr>cycles := t\<rparr>))"

definition expire_cycle :: "datetime \<Rightarrow> quota_cycle \<Rightarrow> market_error + quota_cycle" where
  "expire_cycle ts c =
     (if cy_rollover_status c \<noteq> Rollover_Locked then Inr c
      else fetch (rollover_expires_at c)
        (DelinquencyRefused ''locked rollover requires a valid expiry timestamp.'') (\<lambda>expires.
        Inr (if ts < expires then c
             else c\<lparr>cy_rollover_status := Rollover_Expired, rollover_expired_at := Some ts,
                    rollover_restored_at := None, cy_version := cy_version c + 1\<rparr>)))"

definition expire_overdue_rollover :: "uuid \<Rightarrow> datetime \<Rightarrow> market_db \<Rightarrow> market_error + market_db" where
  "expire_overdue_rollover sid ts db =
     and_then (each_rollover_cycle (expire_cycle ts) sid (cycles db)) (\<lambda>t. Inr (db\<lparr>cycles := t\<rparr>))"

subsection \<open>Delinquency of a subscription\<close>

definition GRACE_DAYS :: nat where "GRACE_DAYS = 15"
definition GRACE_USAGE_PERCENT :: int where "GRACE_USAGE_PERCENT = 25"
definition FREEZE_AFTER_MISSED_CYCLES :: int where "FREEZE_AFTER_MISSED_CYCLES = 3"
definition PENDING_DELETION_AFTER_MISSED_CYCLES :: int where "PENDING_DELETION_AFTER_MISSED_CYCLES = 6"

definition first_delinquency :: "string \<Rightarrow> datetime \<Rightarrow> subscription_delinquency" where
  "first_delinquency customer ts = \<lparr>dl_customer = customer, dl_state = Grace_Degraded,
     missed_billing_cycles = 1, last_failed_cycle_key = Some (billing_cycle_key ts),
     first_failed_at = Some ts, last_failed_at = Some ts, grace_started_at = Some ts,
     dl_grace_until = Some (plus_days ts GRACE_DAYS), grace_usage_percent = GRACE_USAGE_PERCENT,
     frozen_at = None, deletion_eligible_at = None, resolved_at = None\<rparr>"

definition repeated_delinquency :: "datetime \<Rightarrow> subscription_delinquency \<Rightarrow> subscription_delinquency" where
  "repeated_delinquency ts d =
     (let new_cycle = last_failed_cycle_key d \<noteq> Some (billing_cycle_key ts);
          missed = (if new_cycle then missed_billing_cycles d + 1 else missed_billing_cycles d);
          d1 = d\<lparr>missed_billing_cycles := missed, last_failed_cycle_key := Some (billing_cycle_key ts),
                last_failed_at := Some ts, resolved_at := None\<rparr>
      in if PENDING_DELETION_AFTER_MISSED_CYCLES \<le> missed
         then d1\<lparr>dl_state := Pending_Deletion, deletion_eligible_at := Some ts,
                 grace_started_at := None, dl_grace_until := None\<rparr>
         else if FREEZE_AFTER_MISSED_CYCLES \<le> missed
         then d1\<lparr>dl_state := Account_Frozen, frozen_at := Some ts,
                 grace_started_at := None, dl_grace_until := None\<rparr>
         else if new_cycle \<or> grace_started_at d = None
         then d1\<lparr>dl_state := Grace_Degraded, grace_started_at := Some ts,
                 dl_grace_until := Some (plus_days ts GRACE_DAYS)\<rparr>
         else d1\<lparr>dl_state := Grace_Degraded\<rparr>)"

definition apply_payment_failure ::
  "uuid \<Rightarrow> string \<Rightarrow> datetime \<Rightarrow> market_db \<Rightarrow> market_error + market_db \<times> subscription_delinquency" where
  "apply_payment_failure sid customer ts db = (case dict_get (delinquencies db) sid of
     None \<Rightarrow> (let d = first_delinquency customer ts
              in and_then (lock_rollover_for_delinquency sid ts (rollover_payment_deadline ts)
                   (db\<lparr>delinquencies := add_row sid d (delinquencies db)\<rparr>)) (\<lambda>db'. Inr (db', d)))
   | Some d \<Rightarrow>
       ensure (dl_customer d = customer)
         (DelinquencyRefused ''delinquency customer conflicts with subscription.'')
       (let d' = repeated_delinquency ts d
        in Inr (db\<lparr>delinquencies := dict_set sid d' (delinquencies db)\<rparr>, d')))"

definition resolve_payment_delinquency ::
  "uuid \<Rightarrow> string \<Rightarrow> datetime \<Rightarrow> market_db \<Rightarrow> market_error + market_db" where
  "resolve_payment_delinquency sid customer ts db = (case dict_get (delinquencies db) sid of
     None \<Rightarrow> Inr db
   | Some d \<Rightarrow>
       ensure (dl_customer d = customer)
         (DelinquencyRefused ''delinquency customer conflicts with subscription.'')
       (and_then (restore_or_expire_rollover_after_payment sid ts db) (\<lambda>db'.
        Inr (db'\<lparr>delinquencies := dict_set sid
          (d\<lparr>dl_state := Delinquency_Resolved, grace_started_at := None, dl_grace_until := None,
             frozen_at := None, deletion_eligible_at := None, resolved_at := Some ts,
             missed_billing_cycles := 0, last_failed_cycle_key := None\<rparr>) (delinquencies db')\<rparr>))))"

subsection \<open>Provider events on the subscription and its runtime\<close>

record provider_binding =
  bd_subscription :: "uuid option"
  bd_order :: "uuid option"
  bd_offer :: "uuid option"

definition event_status :: "string \<Rightarrow> subscription_status option" where
  "event_status event = dict_get
     [(''subscription_created'', Sub_Active), (''subscription_updated'', Sub_Active),
      (''subscription_resumed'', Sub_Active), (''subscription_unpaused'', Sub_Active),
      (''subscription_payment_success'', Sub_Active), (''subscription_payment_recovered'', Sub_Active),
      (''subscription_payment_failed'', Sub_Active), (''subscription_paused'', Sub_Suspended),
      (''subscription_payment_refunded'', Sub_Suspended), (''subscription_cancelled'', Sub_Cancelled),
      (''subscription_expired'', Sub_Expired)] event"

definition allowed_source :: "subscription_status \<Rightarrow> subscription_status \<Rightarrow> bool" where
  "allowed_source target current \<longleftrightarrow>
     current \<in> {Sub_Pending, Sub_Active, Sub_Suspended} \<or>
     target \<in> {Sub_Cancelled, Sub_Expired} \<and> current = target"

definition effective_time :: "webhook_entry \<Rightarrow> datetime option" where
  "effective_time e = (case provider_effective_at e of Some (Aware ts) \<Rightarrow> Some ts | _ \<Rightarrow> None)"

definition apply_subscription_lifecycle ::
  "provider_binding \<Rightarrow> webhook_entry \<Rightarrow> market_db \<Rightarrow>
     market_error + market_db \<times> (uuid \<times> market_subscription) option" where
  "apply_subscription_lifecycle b e db = (case event_status (event_name e) of
     None \<Rightarrow> Inr (db, None)
   | Some target \<Rightarrow>
       fetch (bd_subscription b) (WebhookRefused ''authoritative binding has no internal subscription.'') (\<lambda>sid.
       fetch (dict_get (subscriptions db) sid) (WebhookRefused ''authoritative subscription was not found.'') (\<lambda>s.
       ensure (sb_customer s = wh_customer e \<and> sb_order s = bd_order b \<and> sb_offer s = bd_offer b)
         (WebhookRefused ''authoritative subscription conflicts with provider binding.'')
       (ensure (allowed_source target (sb_status s))
         (WebhookRefused ''provider lifecycle cannot transition the authoritative subscription.'')
       (fetch (effective_time e) (WebhookRefused ''provider lifecycle timestamp is invalid.'') (\<lambda>ts.
       let s1 = s\<lparr>sb_status := target\<rparr>;
           s2 = (if target = Sub_Active
                 then s1\<lparr>sb_starts_at := (case sb_starts_at s of None \<Rightarrow> Some ts | v \<Rightarrow> v), sb_ends_at := None\<rparr>
                 else if target \<in> {Sub_Cancelled, Sub_Expired} then s1\<lparr>sb_ends_at := Some ts\<rparr> else s1)
       in Inr (db\<lparr>subscriptions := dict_set sid s2 (subscriptions db)\<rparr>, Some (sid, s2))))))))"

definition status_stage :: "subscription_status \<Rightarrow> access_stage option" where
  "status_stage s = (case s of
     Sub_Active \<Rightarrow> Some Stage_Active | Sub_Suspended \<Rightarrow> Some Stage_Suspended
   | Sub_Cancelled \<Rightarrow> Some Stage_Terminated | Sub_Expired \<Rightarrow> Some Stage_Terminated | Sub_Pending \<Rightarrow> None)"

definition settle_delinquency ::
  "string \<Rightarrow> uuid \<Rightarrow> string \<Rightarrow> datetime \<Rightarrow> market_db \<Rightarrow>
     market_error + market_db \<times> subscription_delinquency option" where
  "settle_delinquency event sid customer ts db =
     (if event = ''subscription_payment_failed'' then
        and_then (apply_payment_failure sid customer ts db) (\<lambda>(db', d). Inr (db', Some d))
      else if event = ''subscription_payment_success'' \<or> event = ''subscription_payment_recovered'' then
        and_then (resolve_payment_delinquency sid customer ts db) (\<lambda>db'. Inr (db', None))
      else Inr (db, None))"

definition moved_runtime ::
  "access_stage \<Rightarrow> datetime \<Rightarrow> subscription_delinquency option \<Rightarrow> subscription_runtime \<Rightarrow> subscription_runtime" where
  "moved_runtime target ts d r =
     (if rn_stage r \<noteq> target \<or> target = Stage_Grace
      then r\<lparr>rn_stage := target, rn_effective_at := ts, rn_version := rn_version r + 1,
             rn_grace_until := (if target = Stage_Grace then Option.bind d dl_grace_until else None),
             rn_suspended_at := (if target = Stage_Suspended then Some ts else None),
             rn_terminated_at := (if target = Stage_Terminated then Some ts else None)\<rparr>
      else r)"

definition apply_runtime_access ::
  "provider_binding \<Rightarrow> uuid \<times> market_subscription \<Rightarrow> webhook_entry \<Rightarrow> uuid \<Rightarrow> market_db \<Rightarrow>
     market_error + market_db \<times> unit" where
  "apply_runtime_access b sub e decision_id db = (case sub of (sid, s) \<Rightarrow>
     (case (if event_name e = ''subscription_payment_failed'' then Some Stage_Grace else status_stage (sb_status s)) of
        None \<Rightarrow> Inr (db, ())
      | Some target \<Rightarrow>
          if list_ex (\<lambda>t. reconciliation_decision_id t = decision_id) (transitions db) then Inr (db, ())
          else
          fetch (dict_get (runtimes db) sid)
            (WebhookRefused ''authoritative subscription runtime was not found.'') (\<lambda>r.
          ensure (rn_customer r = sb_customer s \<and> bd_subscription b = Some sid)
            (WebhookRefused ''subscription runtime conflicts with authoritative binding.'')
          (fetch (effective_time e) (WebhookRefused ''runtime transition timestamp is invalid.'') (\<lambda>ts.
          ensure (rn_effective_at r \<le> ts) (WebhookRefused ''runtime transition is older than current state.'')
          (ensure (rn_stage r \<noteq> Stage_Terminated \<or> target = Stage_Terminated)
            (WebhookRefused ''terminated runtime cannot be reactivated.'')
          (and_then (settle_delinquency (event_name e) sid (sb_customer s) ts db) (\<lambda>(db1, d).
          Inr (db1\<lparr>runtimes := dict_set sid (moved_runtime target ts d r) (runtimes db1),
                   transitions := transitions db1 @ [\<lparr>tr_subscription = sid,
                     reconciliation_decision_id = decision_id, tr_customer = sb_customer s,
                     tr_event = (if event_name e = [] then ''unknown'' else event_name e),
                     from_stage = rn_stage r, to_stage = target, tr_effective_at = ts\<rparr>]\<rparr>, ())))))))))"

text \<open>The branch of \<open>process_lemon_squeezy_reconciliation\<close> that reconciles an accepted event.\<close>

definition reconcile_provider_event :: "provider_binding \<Rightarrow> webhook_entry \<Rightarrow> uuid \<Rightarrow> unit market_op" where
  "reconcile_provider_event b e decision_id db = commit db (
     and_then (apply_subscription_lifecycle b e db) (\<lambda>(db1, sub). case sub of
       None \<Rightarrow> Inr (db1, ())
     | Some x \<Rightarrow> apply_runtime_access b x e decision_id db1))"

end
