(* ===== verification/Top_Up_Orders.thy ===== *)
theory Top_Up_Orders
  imports Quota_Tables
begin

section \<open>Top-up eligibility, orders and checkouts\<close>

text \<open>
  \<open>subscription_top_up_eligibility.py\<close>, \<open>subscription_top_up_order.py\<close>,
  \<open>lemon_squeezy_top_up_checkout.py\<close> and \<open>lemon_squeezy_top_up_checkout_recovery.py\<close>. The calls to
  the payment provider are made between two units of work, so a checkout is a sequence of separate
  operations with the answer of the provider as an argument. What is configured or outside is in
  \<open>market_env\<close>: the conversions \<open>uuid.UUID\<close> and \<open>Decimal\<close> of a text (\<open>None\<close> where they raise or give
  no finite number), the eligibility resolver and the exchange-rate provider.
\<close>

record market_env =
  uuid_of :: "string \<Rightarrow> uuid option"
  decimal_of :: "string \<Rightarrow> decimal option"
  local_tunisia_eligible :: "(string \<Rightarrow> uuid \<Rightarrow> datetime \<Rightarrow> bool) option"
  exchange_rate_provider :: "(datetime \<Rightarrow> market_error + exchange_rate_quote) option"

subsection \<open>Guards the top-up services share\<close>

definition TOP_UP_MINIMUM_MONTHLY_CONSUMPTION_PERCENT :: int where
  "TOP_UP_MINIMUM_MONTHLY_CONSUMPTION_PERCENT = 80"

definition ceil_percent :: "int \<Rightarrow> int \<Rightarrow> int" where
  "ceil_percent value percent = (value * percent + 99) div 100"

definition cycle_belongs :: "uuid \<Rightarrow> string \<Rightarrow> quota_cycle \<Rightarrow> bool" where
  "cycle_belongs sid customer c \<longleftrightarrow> cy_subscription c = sid \<and> cy_customer c = customer \<and>
     normalize_maestro_metric_code (cy_metric c) = QUOTA_METRIC_CODE"

definition cycle_is_current :: "datetime \<Rightarrow> quota_cycle \<Rightarrow> bool" where
  "cycle_is_current ts c \<longleftrightarrow> period_start c \<le> ts \<and> ts < period_end c"

definition cycle_snapshot_matches :: "plan_spec \<Rightarrow> quota_cycle \<Rightarrow> bool" where
  "cycle_snapshot_matches spec c \<longleftrightarrow> cy_plan_code c = ps_plan_code spec \<and>
     cy_catalog_version c = PLAN_FULFILLMENT_CATALOG_VERSION \<and>
     base_limit_units c = monthly_unit_allowance spec"

definition consumed_enough :: "quota_cycle \<Rightarrow> bool" where
  "consumed_enough c \<longleftrightarrow>
     ceil_percent (base_limit_units c) TOP_UP_MINIMUM_MONTHLY_CONSUMPTION_PERCENT \<le> used_units c"

subsection \<open>Eligibility\<close>

record eligibility_command =
  ec_customer :: string
  ec_subscription :: uuid
  ec_cycle :: uuid
  ec_requested_units :: int
  ec_billing_period :: string
  ec_evaluated_at :: timestamp

record eligibility_decision =
  ed_customer :: string
  ed_plan_code :: string
  ed_billing_period :: string
  monthly_base_units :: int
  monthly_used_units :: int
  minimum_used_units :: int
  ed_bundle_count :: int
  ed_total_units :: int
  ed_total_price_usd :: decimal
  ed_quote_state :: top_up_purchase_state

definition evaluate_eligibility :: "eligibility_command \<Rightarrow> market_db \<Rightarrow> market_error + eligibility_decision" where
  "evaluate_eligibility c db =
     (let customer = py_strip (ec_customer c); period = py_lower (py_strip (ec_billing_period c)) in
     ensure (customer \<noteq> []) (InvalidCommand ''customer_ref is required.'')
     (ensure (0 < ec_requested_units c) (InvalidCommand ''requested_units must be positive.'')
     (ensure (period = ''monthly'' \<or> period = ''annual'')
       (InvalidCommand ''billing_period must be monthly or annual.'')
     (case ec_evaluated_at c of
        Naive _ \<Rightarrow> Inl (InvalidCommand ''top-up eligibility timestamp must be timezone-aware.'')
      | Aware ts \<Rightarrow>
     fetch (dict_get (subscriptions db) (ec_subscription c)) (EligibilityRefused ''subscription was not found.'') (\<lambda>s.
     ensure (sb_status s = Sub_Active) (EligibilityRefused ''top-up purchase requires an active subscription.'')
     (ensure (sb_customer s = customer)
       (EligibilityRefused ''subscription does not belong to the purchasing customer.'')
     (fetch (dict_get (plans db) (sb_plan s)) (EligibilityRefused ''subscription plan was not found.'') (\<lambda>plan.
     fetch (get_plan_fulfillment_spec (pl_plan_code plan))
       (EligibilityRefused ''subscription plan is not in the authoritative fulfillment catalog.'') (\<lambda>spec.
     fetch (dict_get (cycles db) (ec_cycle c)) (EligibilityRefused ''quota cycle was not found.'') (\<lambda>cycle.
     ensure (cycle_belongs (ec_subscription c) customer cycle)
       (EligibilityRefused ''quota cycle conflicts with the subscription.'')
     (ensure (cycle_is_current ts cycle)
       (EligibilityRefused ''top-up eligibility requires the current monthly quota cycle.'')
     (ensure (cycle_snapshot_matches spec cycle)
       (EligibilityRefused ''quota cycle conflicts with the authoritative plan snapshot.'')
     (ensure (consumed_enough cycle)
       (EligibilityRefused ''top-up purchase requires at least 80% consumption of the monthly base quota.'')
     (and_then (raised (quote_top_up_for_runtime (ps_plan_code spec) (ec_requested_units c))) (\<lambda>quote.
     ensure (tq_state quote = Ready_For_Review \<or> tq_state quote = Upgrade_Recommended)
       (EligibilityRefused ''top-up request is not purchasable.'')
     (ensure (0 < tq_total_units quote \<and> 0 < tq_bundle_count quote)
       (EligibilityRefused ''top-up quote did not produce purchasable units.'')
     (Inr \<lparr>ed_customer = customer, ed_plan_code = ps_plan_code spec, ed_billing_period = period,
           monthly_base_units = base_limit_units cycle, monthly_used_units = used_units cycle,
           minimum_used_units =
             ceil_percent (base_limit_units cycle) TOP_UP_MINIMUM_MONTHLY_CONSUMPTION_PERCENT,
           ed_bundle_count = tq_bundle_count quote, ed_total_units = tq_total_units quote,
           ed_total_price_usd = tq_total_price_usd quote, ed_quote_state = tq_state quote\<rparr>)))))))))))))))))"

subsection \<open>Orders\<close>

record order_command =
  oc_order :: uuid
  oc_customer :: string
  oc_subscription :: uuid
  oc_cycle :: uuid
  oc_requested_units :: int
  oc_channel :: checkout_channel
  oc_idempotency_key :: string
  oc_created_at :: timestamp

definition validate_order_command :: "order_command \<Rightarrow> market_error + datetime" where
  "validate_order_command c =
     ensure (\<not> blank (oc_customer c)) (InvalidCommand ''customer_ref must not be blank.'')
     (ensure (0 < oc_requested_units c) (InvalidCommand ''requested_units must be positive.'')
     (ensure (\<not> blank (oc_idempotency_key c)) (InvalidCommand ''idempotency_key must not be blank.'')
     (case oc_created_at c of
        Naive _ \<Rightarrow> Inl (InvalidCommand ''top-up order timestamp must be timezone-aware.'')
      | Aware ts \<Rightarrow> Inr ts)))"

definition order_replay_matches :: "order_command \<Rightarrow> uuid \<Rightarrow> top_up_order \<Rightarrow> bool" where
  "order_replay_matches c k v \<longleftrightarrow> k = oc_order c \<and> to_customer v = oc_customer c \<and>
     to_subscription v = oc_subscription c \<and> to_cycle v = oc_cycle c \<and>
     requested_units v = oc_requested_units c \<and> to_channel v = oc_channel c \<and>
     to_catalog_version v = PLAN_FULFILLMENT_CATALOG_VERSION"

text \<open>The settlement snapshot: currency, amount and, for Tunisia, the exchange rate.\<close>

definition settlement_snapshot ::
  "market_env \<Rightarrow> order_command \<Rightarrow> datetime \<Rightarrow> decimal \<Rightarrow>
     market_error + string \<times> decimal \<times> exchange_rate_quote option" where
  "settlement_snapshot env c ts price = (case oc_channel c of
     Lemon_Squeezy \<Rightarrow> Inr (''USD'', price, None)
   | Local_Tunisia \<Rightarrow>
       fetch (local_tunisia_eligible env) (OrderRefused ''Tunisia-local top-up ordering is not configured.'') (\<lambda>eligible.
       fetch (exchange_rate_provider env) (OrderRefused ''Tunisia-local top-up ordering is not configured.'') (\<lambda>provider.
       ensure (eligible (oc_customer c) (oc_subscription c) ts)
         (OrderRefused ''customer is not eligible for Tunisia-local settlement.'')
       (and_then (provider ts) (\<lambda>raw.
       and_then (raised (exchange_rate_quote_of raw)) (\<lambda>q.
       ensure (\<not> is_expired_at q ts) (OrderRefused ''Tunisia-local exchange-rate quote is expired.'')
       (and_then (raised (calculate_tnd_settlement price (rate q))) (\<lambda>amount.
        Inr (''TND'', amount, Some q)))))))))"

definition order_row ::
  "order_command \<Rightarrow> datetime \<Rightarrow> market_subscription \<Rightarrow> plan_spec \<Rightarrow> top_up_quote \<Rightarrow>
     string \<times> decimal \<times> exchange_rate_quote option \<Rightarrow> top_up_order" where
  "order_row c ts s spec quote settlement =
     \<lparr>to_customer = sb_customer s, to_subscription = oc_subscription c, to_cycle = oc_cycle c,
      to_plan_code = ps_plan_code spec, to_catalog_version = PLAN_FULFILLMENT_CATALOG_VERSION,
      requested_units = tq_total_units quote, bundle_count = tq_bundle_count quote,
      total_price_usd = tq_total_price_usd quote, settlement_currency = fst settlement,
      settlement_amount = fst (snd settlement), to_exchange_rate = snd (snd settlement),
      to_channel = oc_channel c, provider_variant_id = None, provider_checkout_id = None,
      checkout_creation_status = Checkout_Not_Started, to_idempotency_key = oc_idempotency_key c,
      to_state = TO_Awaiting_Payment, to_created_at = ts\<rparr>"

definition place_order ::
  "market_env \<Rightarrow> order_command \<Rightarrow> datetime \<Rightarrow> market_db \<Rightarrow> market_error + top_up_order" where
  "place_order env c ts db =
     fetch (dict_get (subscriptions db) (oc_subscription c))
       (OrderRefused ''top-up order requires an active subscription.'') (\<lambda>s.
     ensure (sb_status s = Sub_Active) (OrderRefused ''top-up order requires an active subscription.'')
     (ensure (sb_customer s = oc_customer c)
       (OrderRefused ''top-up order customer conflicts with the subscription.'')
     (fetch (dict_get (plans db) (sb_plan s)) (OrderRefused ''subscription plan was not found.'') (\<lambda>plan.
     fetch (get_plan_fulfillment_spec (pl_plan_code plan))
       (OrderRefused ''subscription plan is not authoritative.'') (\<lambda>spec.
     fetch (dict_get (cycles db) (oc_cycle c)) (OrderRefused ''quota cycle was not found.'') (\<lambda>cycle.
     ensure (cycle_belongs (oc_subscription c) (oc_customer c) cycle)
       (OrderRefused ''quota cycle conflicts with the top-up order.'')
     (ensure (cycle_is_current ts cycle)
       (OrderRefused ''top-up order requires the current monthly quota cycle.'')
     (ensure (cycle_snapshot_matches spec cycle)
       (OrderRefused ''quota cycle conflicts with the authoritative plan snapshot.'')
     (ensure (consumed_enough cycle)
       (OrderRefused ''top-up order requires at least 80% consumption of the monthly base quota.'')
     (and_then (raised (quote_top_up (ps_plan_code spec) (oc_requested_units c))) (\<lambda>quote.
     ensure (0 < tq_total_units quote \<and> 0 < tq_bundle_count quote)
       (OrderRefused ''top-up request is not purchasable.'')
     (ensure (tq_total_units quote = oc_requested_units c)
       (OrderRefused ''top-up quote units conflict with the requested units.'')
     (and_then (settlement_snapshot env c ts (tq_total_price_usd quote)) (\<lambda>settlement.
     (and_then (raise_as (OrderRefused ''top-up settlement snapshot is invalid.'')
       (validate_channel_settlement (oc_channel c) (tq_total_price_usd quote) (fst settlement)
         (fst (snd settlement)) (snd (snd settlement)))) (\<lambda>_.
      Inr (order_row c ts s spec quote settlement)))))))))))))))))"

text \<open>The result is the order with its id and whether it is a replay.\<close>

definition create_order :: "market_env \<Rightarrow> order_command \<Rightarrow> (uuid \<times> top_up_order \<times> bool) market_op" where
  "create_order env c db = commit db (
     and_then (validate_order_command c) (\<lambda>ts.
     case find_row (\<lambda>v. to_idempotency_key v = oc_idempotency_key c) (orders db) of
       Some (k, v) \<Rightarrow>
         ensure (order_replay_matches c k v)
           (OrderRefused ''top-up order idempotency replay conflicts with the existing order.'')
           (Inr (db, (k, v, True)))
     | None \<Rightarrow> and_then (place_order env c ts db) (\<lambda>v.
         Inr (db\<lparr>orders := add_row (oc_order c) v (orders db)\<rparr>, (oc_order c, v, False)))))"

subsection \<open>Checkouts\<close>

record checkout_command =
  ck_order :: uuid
  ck_customer :: string
  ck_variant :: string
  ck_store :: string
  ck_success_url :: string

text \<open>A text of decimal digits whose value is positive.\<close>

definition positive_digits :: "string \<Rightarrow> bool" where
  "positive_digits s \<longleftrightarrow> list_all (\<lambda>c. CHR ''0'' \<le> c \<and> c \<le> CHR ''9'') s \<and> list_ex (\<lambda>c. c \<noteq> CHR ''0'') s"

definition validate_checkout :: "checkout_command \<Rightarrow> market_error + unit" where
  "validate_checkout c =
     ensure (\<not> blank (ck_customer c)) (InvalidCommand ''customer_ref must not be blank.'')
     (ensure (positive_digits (ck_variant c))
       (InvalidCommand ''provider_variant_id must be a positive numeric identifier.'')
     (ensure (positive_digits (ck_store c))
       (InvalidCommand ''store_id must be a positive numeric identifier.'')
     (ensure (\<not> blank (ck_success_url c)) (InvalidCommand ''success_url must not be blank.'') (Inr ()))))"

text \<open>The first unit of work; its result is the amount sent to the provider.\<close>

definition begin_checkout :: "checkout_command \<Rightarrow> decimal market_op" where
  "begin_checkout c db = commit db (
     and_then (validate_checkout c) (\<lambda>_.
     fetch (dict_get (orders db) (ck_order c)) (CheckoutRefused ''top-up order was not found.'') (\<lambda>v.
     ensure (to_customer v = ck_customer c)
       (CheckoutRefused ''top-up checkout customer conflicts with the order.'')
     (ensure (to_channel v = Lemon_Squeezy)
       (CheckoutRefused ''top-up order is not assigned to Lemon Squeezy.'')
     (ensure (to_catalog_version v = PLAN_FULFILLMENT_CATALOG_VERSION)
       (CheckoutRefused ''top-up order catalog snapshot is stale.'')
     (ensure (to_state v = TO_Awaiting_Payment)
       (CheckoutRefused ''top-up order is not awaiting payment.'')
     (case checkout_creation_status v of
        Checkout_Ready \<Rightarrow> Inl (CheckoutRefused
          (if provider_variant_id v \<noteq> Some (ck_variant c) then ''checkout replay conflicts with the bound variant.''
           else if provider_checkout_id v \<in> {None, Some []} then ''ready checkout is missing provider checkout id.''
           else ''checkout already exists; retrieve it from the provider instead of creating another.''))
      | Checkout_Creating \<Rightarrow> Inl (CheckoutRefused ''checkout creation state is uncertain; reconciliation is required.'')
      | Checkout_Uncertain \<Rightarrow> Inl (CheckoutRefused ''checkout creation state is uncertain; reconciliation is required.'')
      | Checkout_Not_Started \<Rightarrow>
          Inr (db\<lparr>orders := dict_set (ck_order c)
                 (v\<lparr>provider_variant_id := Some (ck_variant c), checkout_creation_status := Checkout_Creating\<rparr>)
                 (orders db)\<rparr>, total_price_usd v))))))))"

text \<open>The provider did not answer: the outcome is recorded as uncertain and an error is raised.\<close>

definition fail_checkout :: "uuid \<Rightarrow> unit market_op" where
  "fail_checkout oid db =
     (let error = Inl (CheckoutRefused ''payment provider checkout creation outcome is uncertain.'')
      in case dict_get (orders db) oid of
        None \<Rightarrow> (error, db)
      | Some v \<Rightarrow> if checkout_creation_status v = Checkout_Creating then
          (case commit db (Inr (db\<lparr>orders := dict_set oid
              (v\<lparr>checkout_creation_status := Checkout_Uncertain\<rparr>) (orders db)\<rparr>, ())) of
             (Inl e, db') \<Rightarrow> (Inl e, db')
           | (Inr _, db') \<Rightarrow> (error, db'))
        else (error, db))"

definition valid_checkout_answer :: "market_env \<Rightarrow> string \<Rightarrow> string \<Rightarrow> bool" where
  "valid_checkout_answer env checkout_id url \<longleftrightarrow>
     uuid_of env checkout_id \<noteq> None \<and> take 8 url = ''https://''"

definition finish_checkout :: "market_env \<Rightarrow> checkout_command \<Rightarrow> string \<Rightarrow> string \<Rightarrow> unit market_op" where
  "finish_checkout env c checkout_id url db = commit db (
     ensure (valid_checkout_answer env checkout_id url) (CheckoutRefused ''provider checkout answer is invalid.'')
     (fetch (dict_get (orders db) (ck_order c))
       (CheckoutRefused ''top-up order disappeared after checkout.'') (\<lambda>v.
     ensure (to_customer v = ck_customer c \<and> provider_variant_id v = Some (ck_variant c) \<and>
             checkout_creation_status v = Checkout_Creating)
       (CheckoutRefused ''top-up order changed while checkout was being created.'')
     (Inr (db\<lparr>orders := dict_set (ck_order c)
        (v\<lparr>provider_checkout_id := Some checkout_id, checkout_creation_status := Checkout_Ready\<rparr>)
        (orders db)\<rparr>, ())))))"

subsection \<open>Recovery of a checkout\<close>

record checkout_candidate =
  cc_checkout :: string
  cc_url :: string
  cc_store :: string
  cc_variant :: string
  cc_price :: int
  cc_customer :: string
  cc_order :: string
  cc_offer :: string

definition usd_to_cents :: "decimal \<Rightarrow> market_error + int" where
  "usd_to_cents value = (let cents = quantize_half_even 2 value * 100
     in ensure (0 < cents) (CheckoutRefused ''top-up checkout amount is invalid.'') (Inr \<lfloor>cents\<rfloor>))"

definition recoverable_order :: "checkout_command \<Rightarrow> top_up_order \<Rightarrow> market_error + unit" where
  "recoverable_order c v =
     ensure (to_customer v = ck_customer c)
       (CheckoutRefused ''top-up checkout customer conflicts with the order.'')
     (ensure (to_channel v = Lemon_Squeezy \<and> to_state v = TO_Awaiting_Payment)
       (CheckoutRefused ''top-up order is not recoverable through Lemon Squeezy.'')
     (ensure (to_catalog_version v = PLAN_FULFILLMENT_CATALOG_VERSION)
       (CheckoutRefused ''top-up order catalog snapshot is stale.'')
     (ensure (provider_variant_id v = Some (ck_variant c))
       (CheckoutRefused ''top-up checkout variant conflicts with the order.'') (Inr ()))))"

definition validate_recovery :: "checkout_command \<Rightarrow> market_error + unit" where
  "validate_recovery c =
     ensure (\<not> blank (ck_customer c)) (InvalidCommand ''customer_ref must not be blank.'')
     (ensure (positive_digits (ck_store c))
       (InvalidCommand ''store_id must be a positive numeric identifier.'')
     (ensure (positive_digits (ck_variant c))
       (InvalidCommand ''provider_variant_id must be a positive numeric identifier.'') (Inr ())))"

text \<open>The first unit of work, which only reads: the checkout when it is ready, else the amount to look for.\<close>

definition begin_recovery :: "checkout_command \<Rightarrow> market_db \<Rightarrow> market_error + string + int" where
  "begin_recovery c db =
     and_then (validate_recovery c) (\<lambda>_.
     fetch (dict_get (orders db) (ck_order c)) (CheckoutRefused ''top-up order was not found.'') (\<lambda>v.
     and_then (recoverable_order c v) (\<lambda>_.
     case checkout_creation_status v of
       Checkout_Ready \<Rightarrow> (case provider_checkout_id v of
           None \<Rightarrow> Inl (CheckoutRefused ''ready top-up checkout is missing provider checkout id.'')
         | Some k \<Rightarrow> ensure (k \<noteq> [])
             (CheckoutRefused ''ready top-up checkout is missing provider checkout id.'') (Inr (Inl k)))
     | Checkout_Not_Started \<Rightarrow> Inl (CheckoutRefused ''top-up checkout is not eligible for recovery.'')
     | _ \<Rightarrow> and_then (usd_to_cents (total_price_usd v)) (\<lambda>cents. Inr (Inr cents)))))"

definition candidate_matches :: "checkout_command \<Rightarrow> int \<Rightarrow> checkout_candidate \<Rightarrow> bool" where
  "candidate_matches c cents x \<longleftrightarrow> cc_store x = ck_store c \<and> cc_variant x = ck_variant c \<and>
     cc_price x = cents \<and> cc_customer x = ck_customer c \<and> cc_order x = ck_order c \<and>
     cc_offer x = ''quota_top_up''"

definition matching_checkout ::
  "market_env \<Rightarrow> checkout_command \<Rightarrow> int \<Rightarrow> checkout_candidate list \<Rightarrow> market_error + checkout_candidate" where
  "matching_checkout env c cents candidates = (case filter (candidate_matches c cents) candidates of
     [x] \<Rightarrow> ensure (valid_checkout_answer env (cc_checkout x) (cc_url x))
        (CheckoutRefused ''recovered provider checkout is invalid.'') (Inr x)
   | _ \<Rightarrow> Inl (CheckoutRefused ''provider checkout recovery requires exactly one authoritative match.''))"

text \<open>The second unit of work; the result says whether the checkout was bound now.\<close>

definition finish_recovery :: "checkout_command \<Rightarrow> checkout_candidate \<Rightarrow> bool market_op" where
  "finish_recovery c x db = commit db (
     fetch (dict_get (orders db) (ck_order c)) (CheckoutRefused ''top-up order disappeared during recovery.'') (\<lambda>v.
     and_then (recoverable_order c v) (\<lambda>_.
     case checkout_creation_status v of
       Checkout_Ready \<Rightarrow> ensure (provider_checkout_id v = Some (cc_checkout x))
         (CheckoutRefused ''top-up checkout was rebound to a different provider checkout.'') (Inr (db, False))
     | Checkout_Not_Started \<Rightarrow> Inl (CheckoutRefused ''top-up checkout state changed during recovery.'')
     | _ \<Rightarrow> Inr (db\<lparr>orders := dict_set (ck_order c)
         (v\<lparr>provider_checkout_id := Some (cc_checkout x), checkout_creation_status := Checkout_Ready\<rparr>)
         (orders db)\<rparr>, True))))"

end
