(* ===== verification/Top_Up_Grants.thy ===== *)
theory Top_Up_Grants
  imports Top_Up_Orders
begin

section \<open>Top-up payments, grants, reversals and webhooks\<close>

text \<open>
  \<open>subscription_top_up_grant.py\<close>, \<open>subscription_top_up_reversal.py\<close>,
  \<open>local_tunisia_top_up_payment.py\<close>, \<open>lemon_squeezy_inbox_lifecycle.py\<close>,
  \<open>lemon_squeezy_top_up_processor.py\<close>, \<open>lemon_squeezy_top_up_refund_processor.py\<close> and
  \<open>top_up_recovery_scan.py\<close>. \<open>apply_verified_top_up\<close> and \<open>reverse_top_up_in_uow\<close> run inside the unit
  of work of their caller; the others commit.
\<close>

subsection \<open>Grants\<close>

record grant_command =
  gc_order :: uuid
  gc_subscription :: uuid
  gc_cycle :: uuid
  gc_customer :: string
  gc_reference :: string
  gc_granted_at :: timestamp

definition validate_grant :: "grant_command \<Rightarrow> market_error + datetime" where
  "validate_grant c =
     ensure (\<not> blank (gc_customer c)) (InvalidCommand ''customer_ref must not be blank.'')
     (ensure (\<not> blank (gc_reference c)) (InvalidCommand ''provider_reference must not be blank.'')
     (case gc_granted_at c of
        Naive _ \<Rightarrow> Inl (InvalidCommand ''top-up grant timestamp must be timezone-aware.'')
      | Aware ts \<Rightarrow> Inr ts))"

definition grant_replay_matches :: "grant_command \<Rightarrow> top_up_grant \<Rightarrow> bool" where
  "grant_replay_matches c g \<longleftrightarrow> gr_subscription g = gc_subscription c \<and> gr_cycle g = gc_cycle c \<and>
     gr_customer g = gc_customer c \<and> gr_provider_reference g = gc_reference c"

definition grant_key :: "uuid \<Rightarrow> string" where
  "grant_key oid = ''subscription-top-up:'' @ oid"

definition payment_by_reference :: "string \<Rightarrow> market_db \<Rightarrow> payment_evidence option" where
  "payment_by_reference ref db = List.find (\<lambda>p. pe_provider_reference p = ref) (payments db)"

definition payment_settles :: "top_up_order \<Rightarrow> payment_evidence \<Rightarrow> market_error + unit" where
  "payment_settles v p =
     ensure (pe_outcome p = Payment_Verified) (GrantRefused ''top-up payment is not verified.'')
     (ensure (verified_currency p = Some (py_upper (py_strip (settlement_currency v))))
       (GrantRefused ''verified payment currency conflicts with the top-up order.'')
     (fetch (verified_amount p) (BillingRaised (OtherException ''TypeError'')) (\<lambda>amount.
      ensure (amount = settlement_amount v)
       (GrantRefused ''verified payment amount conflicts with the top-up order.'') (Inr ()))))"

definition grant_row ::
  "grant_command \<Rightarrow> datetime \<Rightarrow> market_subscription \<Rightarrow> plan_spec \<Rightarrow> quota_cycle \<Rightarrow> top_up_quote \<Rightarrow> top_up_grant" where
  "grant_row c ts s spec cycle quote =
     \<lparr>gr_order = gc_order c, gr_subscription = gc_subscription c, gr_cycle = gc_cycle c,
      gr_customer = sb_customer s, gr_plan_code = ps_plan_code spec,
      gr_catalog_version = PLAN_FULFILLMENT_CATALOG_VERSION, gr_units = tq_total_units quote,
      grant_idempotency_key = grant_key (gc_order c), gr_provider_reference = gc_reference c,
      granted_at = ts, gr_expires_at = period_end cycle\<rparr>"

definition new_grant ::
  "uuid \<Rightarrow> grant_command \<Rightarrow> datetime \<Rightarrow> market_db \<Rightarrow> market_error + market_db \<times> uuid \<times> top_up_grant \<times> bool" where
  "new_grant new_id c ts db =
     fetch (dict_get (orders db) (gc_order c)) (GrantRefused ''top-up order was not found.'') (\<lambda>v.
     ensure (to_subscription v = gc_subscription c \<and> to_cycle v = gc_cycle c \<and>
             to_customer v = gc_customer c \<and> to_catalog_version v = PLAN_FULFILLMENT_CATALOG_VERSION)
       (GrantRefused ''top-up order ownership snapshot conflicts with the grant command.'')
     (ensure (to_state v = TO_Awaiting_Payment \<or> to_state v = TO_Payment_Verified)
       (GrantRefused ''top-up order is not eligible for a new grant.'')
     (fetch (dict_get (subscriptions db) (gc_subscription c))
       (GrantRefused ''top-up grant requires an active subscription.'') (\<lambda>s.
     ensure (sb_status s = Sub_Active) (GrantRefused ''top-up grant requires an active subscription.'')
     (ensure (sb_customer s = gc_customer c)
       (GrantRefused ''top-up grant customer conflicts with the subscription.'')
     (fetch (dict_get (plans db) (sb_plan s)) (GrantRefused ''subscription plan was not found.'') (\<lambda>plan.
     fetch (get_plan_fulfillment_spec (pl_plan_code plan))
       (GrantRefused ''subscription plan is not authoritative.'') (\<lambda>spec.
     ensure (to_plan_code v = ps_plan_code spec)
       (GrantRefused ''top-up order plan conflicts with the subscription.'')
     (fetch (dict_get (cycles db) (gc_cycle c)) (GrantRefused ''quota cycle was not found.'') (\<lambda>cycle.
     ensure (cycle_belongs (gc_subscription c) (gc_customer c) cycle)
       (GrantRefused ''quota cycle conflicts with the top-up grant.'')
     (ensure (cycle_is_current ts cycle)
       (GrantRefused ''top-up grant requires the current monthly quota cycle.'')
     (ensure (cycle_snapshot_matches spec cycle)
       (GrantRefused ''quota cycle conflicts with the authoritative plan snapshot.'')
     (ensure (consumed_enough cycle)
       (GrantRefused ''top-up grant requires at least 80% consumption of the monthly base quota.'')
     (and_then (raised (quote_top_up (ps_plan_code spec) (requested_units v))) (\<lambda>quote.
     ensure (0 < tq_total_units quote \<and> 0 < tq_bundle_count quote)
       (GrantRefused ''top-up order does not resolve to an authoritative quote.'')
     (ensure (bundle_count v = tq_bundle_count quote \<and> requested_units v = tq_total_units quote \<and>
              total_price_usd v = tq_total_price_usd quote)
       (GrantRefused ''top-up order snapshot conflicts with the authoritative quote.'')
     (fetch (payment_by_reference (gc_reference c) db)
       (GrantRefused ''verified payment does not belong to the top-up order.'') (\<lambda>p.
     ensure (pe_order p = gc_order c)
       (GrantRefused ''verified payment does not belong to the top-up order.'')
     (and_then (payment_settles v p) (\<lambda>_.
     ensure (find_row (\<lambda>g. grant_idempotency_key g = grant_key (gc_order c)) (grants db) = None)
       (GrantRefused ''top-up grant idempotency key already belongs to another grant.'')
     (let g = grant_row c ts s spec cycle quote in
      Inr (db\<lparr>grants := add_row new_id g (grants db),
              cycles := dict_set (gc_cycle c)
                (cycle\<lparr>top_up_units := top_up_units cycle + tq_total_units quote,
                       cy_version := cy_version cycle + 1\<rparr>) (cycles db),
              orders := dict_set (gc_order c) (v\<lparr>to_state := TO_Granted\<rparr>) (orders db)\<rparr>,
           new_id, g, False))))))))))))))))))))))"

text \<open>\<open>apply_verified_subscription_top_up_in_uow\<close>: the grant with its id and whether it is a replay.\<close>

definition apply_verified_top_up ::
  "uuid \<Rightarrow> grant_command \<Rightarrow> market_db \<Rightarrow> market_error + market_db \<times> uuid \<times> top_up_grant \<times> bool" where
  "apply_verified_top_up new_id c db =
     and_then (validate_grant c) (\<lambda>ts.
     case find_row (\<lambda>g. gr_order g = gc_order c) (grants db) of
       Some (k, g) \<Rightarrow> ensure (grant_replay_matches c g)
         (GrantRefused ''top-up grant replay conflicts with the existing ledger entry.'') (Inr (db, k, g, True))
     | None \<Rightarrow> new_grant new_id c ts db)"

definition grant_top_up :: "uuid \<Rightarrow> grant_command \<Rightarrow> (uuid \<times> top_up_grant \<times> bool) market_op" where
  "grant_top_up new_id c db = commit db (apply_verified_top_up new_id c db)"

definition order_grant_command :: "uuid \<Rightarrow> top_up_order \<Rightarrow> string \<Rightarrow> datetime \<Rightarrow> grant_command" where
  "order_grant_command oid v ref ts =
     \<lparr>gc_order = oid, gc_subscription = to_subscription v, gc_cycle = to_cycle v,
      gc_customer = to_customer v, gc_reference = ref, gc_granted_at = Aware ts\<rparr>"

text \<open>What the callers turn the refusal of a grant or of a reversal into.\<close>

definition refused_as :: "market_error \<Rightarrow> market_error + 'a \<Rightarrow> market_error + 'a" where
  "refused_as e m = (case m of
     Inl (GrantRefused _) \<Rightarrow> Inl e | Inl (ReversalRefused _) \<Rightarrow> Inl e | _ \<Rightarrow> m)"

lemma refused_as_Inr [simp]: "refused_as e m = Inr r \<longleftrightarrow> m = Inr r"
  by (cases m) (auto simp: refused_as_def split: market_error.splits)

text \<open>A verified payment marks an order that awaits it.\<close>

definition mark_paid :: "uuid \<Rightarrow> top_up_order \<Rightarrow> market_db \<Rightarrow> market_db" where
  "mark_paid oid v db = (if to_state v = TO_Awaiting_Payment
     then db\<lparr>orders := dict_set oid (v\<lparr>to_state := TO_Payment_Verified\<rparr>) (orders db)\<rparr> else db)"

subsection \<open>Payments in Tunisia\<close>

record tunisia_command =
  tc_order :: uuid
  tc_customer :: string
  tc_reference :: string
  tc_amount_tnd :: decimal
  tc_evidence :: string
  tc_verified_at :: timestamp

definition validate_tunisia :: "tunisia_command \<Rightarrow> market_error + datetime" where
  "validate_tunisia c =
     ensure (\<not> blank (tc_customer c)) (InvalidCommand ''customer_ref must not be blank.'')
     (ensure (\<not> blank (tc_reference c)) (InvalidCommand ''provider_reference must not be blank.'')
     (ensure (\<not> blank (tc_evidence c)) (InvalidCommand ''evidence_reference must not be blank.'')
     (ensure (0 < tc_amount_tnd c) (InvalidCommand ''amount_tnd must be positive and finite.'')
     (case tc_verified_at c of
        Naive _ \<Rightarrow> Inl (InvalidCommand ''verified_at must be timezone-aware.'')
      | Aware ts \<Rightarrow> Inr ts))))"

definition tunisia_evidence ::
  "tunisia_command \<Rightarrow> datetime \<Rightarrow> market_db \<Rightarrow> market_error + market_db" where
  "tunisia_evidence c ts db = (case payment_by_reference (tc_reference c) db of
     None \<Rightarrow> Inr (db\<lparr>payments := payments db @ [\<lparr>pe_order = tc_order c,
         pe_provider_reference = tc_reference c, pe_outcome = Payment_Verified,
         verified_amount = Some (tc_amount_tnd c), verified_currency = Some ''TND'',
         immutable_evidence_reference = Some (tc_evidence c), pe_created_at = ts\<rparr>]\<rparr>)
   | Some p \<Rightarrow>
       ensure (pe_order p = tc_order c \<and> pe_outcome p = Payment_Verified \<and>
               verified_amount p = Some (tc_amount_tnd c) \<and> verified_currency p = Some ''TND'' \<and>
               immutable_evidence_reference p = Some (tc_evidence c))
         (PaymentRefused ''Tunisia-local payment reference conflicts with existing evidence.'') (Inr db))"

text \<open>The result is the grant with its id and whether it is a replay.\<close>

definition verify_tunisia_in_uow ::
  "uuid \<Rightarrow> tunisia_command \<Rightarrow> market_db \<Rightarrow> market_error + market_db \<times> uuid \<times> top_up_grant \<times> bool" where
  "verify_tunisia_in_uow new_id c db =
     and_then (validate_tunisia c) (\<lambda>ts.
     fetch (dict_get (orders db) (tc_order c)) (PaymentRefused ''top-up order was not found.'') (\<lambda>v.
     ensure (to_customer v = tc_customer c)
       (PaymentRefused ''payment customer conflicts with the top-up order.'')
     (ensure (to_channel v = Local_Tunisia \<and> settlement_currency v = ''TND'')
       (PaymentRefused ''top-up order is not a Tunisia-local settlement.'')
     (ensure (to_state v \<in> {TO_Awaiting_Payment, TO_Payment_Verified, TO_Granted})
       (PaymentRefused ''top-up order is not eligible for payment verification.'')
     (ensure (to_exchange_rate v \<noteq> None)
       (PaymentRefused ''top-up order is missing its fixed exchange-rate snapshot.'')
     (ensure (0 < settlement_amount v) (PaymentRefused ''order settlement amount is invalid.'')
     (ensure (tc_amount_tnd c = settlement_amount v)
       (PaymentRefused ''Tunisia-local payment amount conflicts with the order.'')
     (and_then (tunisia_evidence c ts db) (\<lambda>db1.
      refused_as (PaymentRefused ''verified Tunisia-local payment could not be granted safely.'')
        (apply_verified_top_up new_id (order_grant_command (tc_order c) v (tc_reference c) ts)
          (mark_paid (tc_order c) v db1)))))))))))"

text \<open>A replay is returned without a commit.\<close>

definition verify_tunisia_payment :: "uuid \<Rightarrow> tunisia_command \<Rightarrow> (uuid \<times> top_up_grant \<times> bool) market_op" where
  "verify_tunisia_payment new_id c db = (case verify_tunisia_in_uow new_id c db of
     Inl e \<Rightarrow> (Inl e, db)
   | Inr (db', k, g, replay) \<Rightarrow>
       if replay then (Inr (k, g, True), db) else commit db (Inr (db', k, g, False)))"

subsection \<open>The life of a webhook\<close>

definition claim_webhook :: "datetime \<Rightarrow> webhook_entry \<Rightarrow> market_error + webhook_entry" where
  "claim_webhook ts e =
     ensure (processing_status e = Hook_Received)
       (WebhookRefused ''only a received webhook can be claimed for processing.'')
     (ensure (claimed_at e = None \<and> processed_at e = None \<and> rejected_at e = None)
       (WebhookRefused ''webhook lifecycle timestamps are inconsistent.'')
     (ensure (0 \<le> attempt_count e \<and> attempt_count e \<le> 2147483646)
       (WebhookRefused ''attempt_count is outside the supported range.'')
     (Inr (e\<lparr>processing_status := Hook_Processing, attempt_count := attempt_count e + 1,
             claimed_at := Some ts, last_error_code := None\<rparr>))))"

definition mark_webhook_processed :: "datetime \<Rightarrow> webhook_entry \<Rightarrow> market_error + webhook_entry" where
  "mark_webhook_processed ts e =
     (if processing_status e = Hook_Processed then Inr e
      else ensure (processing_status e = Hook_Processing)
        (WebhookRefused ''only a processing webhook can be marked processed.'')
      (ensure (claimed_at e \<noteq> None \<and> rejected_at e = None)
        (WebhookRefused ''webhook lifecycle timestamps are inconsistent.'')
      (ensure (the (claimed_at e) \<le> ts)
        (WebhookRefused ''processed_at cannot precede claimed_at.'')
      (Inr (e\<lparr>processing_status := Hook_Processed, processed_at := Some ts, rejected_at := None,
              last_error_code := None\<rparr>)))))"

definition mark_webhook_rejected :: "string \<Rightarrow> datetime \<Rightarrow> webhook_entry \<Rightarrow> market_error + webhook_entry" where
  "mark_webhook_rejected normalized_code ts e =
     (if processing_status e = Hook_Rejected then
        ensure (last_error_code e = Some normalized_code)
          (WebhookRefused ''rejected webhook cannot be replayed with a different error code.'') (Inr e)
      else ensure (processing_status e = Hook_Processing)
        (WebhookRefused ''only a processing webhook can be rejected.'')
      (ensure (claimed_at e \<noteq> None \<and> processed_at e = None)
        (WebhookRefused ''webhook lifecycle timestamps are inconsistent.'')
      (ensure (the (claimed_at e) \<le> ts)
        (WebhookRefused ''rejected_at cannot precede claimed_at.'')
      (Inr (e\<lparr>processing_status := Hook_Rejected, rejected_at := Some ts, processed_at := None,
              last_error_code := Some normalized_code\<rparr>)))))"

subsection \<open>Paid orders of Lemon Squeezy\<close>

definition TOP_UP_OFFER_REF :: string where
  "TOP_UP_OFFER_REF = ''quota_top_up''"

definition amount_from_cents :: "market_env \<Rightarrow> string \<Rightarrow> market_error + decimal" where
  "amount_from_cents env text =
     fetch (decimal_of env text) (WebhookRefused ''top-up amount evidence is invalid.'') (\<lambda>cents.
     ensure (0 \<le> cents \<and> cents = of_int \<lfloor>cents\<rfloor>) (WebhookRefused ''top-up amount evidence is invalid.'')
       (Inr (cents / 100)))"

definition order_binding :: "webhook_entry \<Rightarrow> top_up_order \<Rightarrow> bool" where
  "order_binding e v \<longleftrightarrow> to_customer v = wh_customer e \<and> to_channel v = Lemon_Squeezy \<and>
     provider_variant_id v \<noteq> None \<and> provider_variant_id v = variant_id e"

definition lemon_reference :: "string \<Rightarrow> string" where
  "lemon_reference provider_order = ''lemon_squeezy:order:'' @ provider_order"

definition lemon_evidence ::
  "uuid \<Rightarrow> webhook_entry \<Rightarrow> uuid \<Rightarrow> string \<Rightarrow> decimal \<Rightarrow> datetime \<Rightarrow> market_db \<Rightarrow> market_error + market_db" where
  "lemon_evidence inbox_id e oid ref amount ts db = (case payment_by_reference ref db of
     None \<Rightarrow> Inr (db\<lparr>payments := payments db @ [\<lparr>pe_order = oid, pe_provider_reference = ref,
         pe_outcome = Payment_Verified, verified_amount = Some amount, verified_currency = Some ''USD'',
         immutable_evidence_reference = Some (''ls-inbox:'' @ inbox_id @ '':'' @ payload_digest e),
         pe_created_at = ts\<rparr>]\<rparr>)
   | Some p \<Rightarrow>
       ensure (pe_order p = oid \<and> pe_outcome p = Payment_Verified \<and> verified_amount p = Some amount \<and>
               verified_currency p = Some ''USD'')
         (WebhookRefused ''provider payment reference conflicts with existing top-up evidence.'') (Inr db))"

record top_up_processing =
  tp_order :: uuid
  tp_grant :: uuid
  tp_units :: int
  replayed_grant :: bool

definition fulfil_paid_order ::
  "market_env \<Rightarrow> uuid \<Rightarrow> uuid \<Rightarrow> webhook_entry \<Rightarrow> datetime \<Rightarrow> market_db \<Rightarrow> market_error + market_db \<times> top_up_processing" where
  "fulfil_paid_order env new_id inbox_id e ts db =
     ensure (offer_ref e = TOP_UP_OFFER_REF) (WebhookRefused ''webhook is not a top-up event.'')
     (ensure (event_name e = ''order_created'' \<and> resource_type e = ''orders'')
       (WebhookRefused ''top-up fulfillment requires a Lemon Squeezy order_created event.'')
     (ensure (provider_status e = Some ''paid'') (WebhookRefused ''top-up provider order is not paid.'')
     (ensure (provider_order_id e = Some (external_resource_id e))
       (WebhookRefused ''top-up provider order binding is invalid.'')
     (ensure (provider_subscription_id e = None)
       (WebhookRefused ''top-up purchase must not be bound to a provider subscription.'')
     (ensure (wh_currency e = Some ''USD'') (WebhookRefused ''top-up payment evidence is incomplete.'')
     (fetch (subtotal_amount e) (WebhookRefused ''top-up payment evidence is incomplete.'') (\<lambda>subtotal.
     fetch (uuid_of env (order_ref e)) (WebhookRefused ''top-up order_ref must be a UUID.'') (\<lambda>oid.
     fetch (dict_get (orders db) oid) (WebhookRefused ''referenced top-up order was not found.'') (\<lambda>v.
     ensure (order_binding e v)
       (WebhookRefused ''top-up webhook conflicts with the authoritative order binding.'')
     (and_then (amount_from_cents env subtotal) (\<lambda>amount.
     ensure (amount = settlement_amount v)
       (WebhookRefused ''top-up webhook subtotal conflicts with the authoritative order.'')
     (let ref = lemon_reference (external_resource_id e) in
     and_then (lemon_evidence inbox_id e oid ref amount ts db) (\<lambda>db1.
     and_then (claim_webhook ts e) (\<lambda>e1.
     and_then (refused_as (WebhookRefused ''verified top-up payment could not be granted safely.'')
         (apply_verified_top_up new_id (order_grant_command oid v ref ts) (mark_paid oid v db1)))
       (\<lambda>(db2, k, g, replay).
     and_then (mark_webhook_processed ts e1) (\<lambda>e2.
     Inr (db2\<lparr>inbox := dict_set inbox_id e2 (inbox db2)\<rparr>,
          \<lparr>tp_order = oid, tp_grant = k, tp_units = gr_units g, replayed_grant = replay\<rparr>)))))))))))))))))"

definition process_paid_webhook ::
  "market_env \<Rightarrow> uuid \<Rightarrow> uuid \<Rightarrow> timestamp \<Rightarrow> top_up_processing market_op" where
  "process_paid_webhook env new_id inbox_id processed db = (case processed of
     Naive _ \<Rightarrow> (Inl (WebhookRefused ''processed_at must be timezone-aware.''), db)
   | Aware ts \<Rightarrow> commit db (
     fetch (dict_get (inbox db) inbox_id) (WebhookRefused ''top-up webhook inbox entry was not found.'') (\<lambda>e.
     if processing_status e = Hook_Processed then
       fetch (uuid_of env (order_ref e))
         (WebhookRefused ''processed top-up webhook has invalid order binding.'') (\<lambda>oid.
       fetch (find_row (\<lambda>g. gr_order g = oid) (grants db))
         (WebhookRefused ''processed top-up webhook is missing its grant ledger entry.'') (\<lambda>(k, g).
       Inr (db, \<lparr>tp_order = oid, tp_grant = k, tp_units = gr_units g, replayed_grant = True\<rparr>)))
     else fulfil_paid_order env new_id inbox_id e ts db)))"

subsection \<open>Reversals\<close>

record reversal_command =
  rvc_order :: uuid
  rvc_event_ref :: string
  rvc_reason :: string
  rvc_reversed_at :: timestamp

definition validate_reversal :: "reversal_command \<Rightarrow> market_error + datetime" where
  "validate_reversal c =
     ensure (\<not> blank (rvc_event_ref c)) (InvalidCommand ''provider_event_ref must not be blank.'')
     (ensure (\<not> blank (rvc_reason c)) (InvalidCommand ''reason_code must not be blank.'')
     (case rvc_reversed_at c of
        Naive _ \<Rightarrow> Inl (InvalidCommand ''top-up reversal timestamp must be timezone-aware.'')
      | Aware ts \<Rightarrow> Inr ts))"

definition reversal_row ::
  "reversal_command \<Rightarrow> datetime \<Rightarrow> uuid \<Rightarrow> top_up_grant \<Rightarrow> bool \<Rightarrow> top_up_reversal" where
  "reversal_row c ts gid g can_reverse =
     \<lparr>rv_order = rvc_order c, rv_grant = gid, rv_subscription = gr_subscription g, rv_cycle = gr_cycle g,
      rv_customer = gr_customer g, provider_event_ref = rvc_event_ref c, rv_units = gr_units g,
      rv_outcome = (if can_reverse then Reversed else Manual_Review),
      reason_code = (if can_reverse then rvc_reason c else ''units_already_consumed''), reversed_at = ts\<rparr>"

definition new_reversal ::
  "uuid \<Rightarrow> reversal_command \<Rightarrow> datetime \<Rightarrow> market_db \<Rightarrow> market_error + market_db \<times> uuid \<times> top_up_reversal \<times> bool" where
  "new_reversal new_id c ts db =
     fetch (find_row (\<lambda>g. gr_order g = rvc_order c) (grants db))
       (ReversalRefused ''top-up grant was not found.'') (\<lambda>(gid, g).
     ensure (find_row (\<lambda>r. rv_grant r = gid) (reversals db) = None)
       (ReversalRefused ''top-up grant already has a reversal decision.'')
     (fetch (dict_get (orders db) (rvc_order c))
       (ReversalRefused ''top-up reversal requires a granted order.'') (\<lambda>v.
     ensure (to_state v = TO_Granted) (ReversalRefused ''top-up reversal requires a granted order.'')
     (ensure (gr_subscription g = to_subscription v \<and> gr_cycle g = to_cycle v \<and>
              gr_customer g = to_customer v)
       (ReversalRefused ''top-up grant conflicts with the authoritative order snapshot.'')
     (fetch (dict_get (cycles db) (gr_cycle g)) (ReversalRefused ''top-up quota cycle was not found.'') (\<lambda>cycle.
     ensure (cy_subscription cycle = gr_subscription g \<and> cy_customer cycle = gr_customer g)
       (ReversalRefused ''top-up reversal conflicts with the quota cycle.'')
     (ensure (gr_units g \<le> top_up_units cycle)
       (ReversalRefused ''quota cycle contains fewer top-up units than the grant ledger.'')
     (let remaining = top_up_units cycle - gr_units g;
          can_reverse = (used_units cycle \<le>
            base_limit_units cycle + spendable_rollover_units cycle + remaining);
          r = reversal_row c ts gid g can_reverse;
          db1 = db\<lparr>reversals := add_row new_id r (reversals db)\<rparr>
      in Inr (if can_reverse then db1\<lparr>cycles := dict_set (gr_cycle g)
                 (cycle\<lparr>top_up_units := remaining, cy_version := cy_version cycle + 1\<rparr>) (cycles db)\<rparr>
              else db1, new_id, r, False)))))))))"

text \<open>\<open>reverse_subscription_top_up_in_uow\<close>: the reversal with its id and whether it is a replay.\<close>

definition reverse_top_up_in_uow ::
  "uuid \<Rightarrow> reversal_command \<Rightarrow> market_db \<Rightarrow> market_error + market_db \<times> uuid \<times> top_up_reversal \<times> bool" where
  "reverse_top_up_in_uow new_id c db =
     and_then (validate_reversal c) (\<lambda>ts.
     case find_row (\<lambda>r. provider_event_ref r = rvc_event_ref c) (reversals db) of
       Some (k, r) \<Rightarrow> ensure (rv_order r = rvc_order c)
         (ReversalRefused ''top-up reversal event already belongs to another order.'') (Inr (db, k, r, True))
     | None \<Rightarrow> new_reversal new_id c ts db)"

definition reverse_top_up :: "uuid \<Rightarrow> reversal_command \<Rightarrow> (uuid \<times> top_up_reversal \<times> bool) market_op" where
  "reverse_top_up new_id c db = commit db (reverse_top_up_in_uow new_id c db)"

subsection \<open>Refunds of Lemon Squeezy\<close>

definition refund_event_ref :: "webhook_entry \<Rightarrow> string" where
  "refund_event_ref e =
     ''lemon_squeezy:order_refunded:'' @ external_resource_id e @ '':'' @ payload_digest e"

record refund_result =
  rf_order :: uuid
  rf_outcome :: reversal_outcome
  rf_reversal :: "uuid option"
  rf_replayed :: bool

text \<open>The decision on a claimed refund: a partial one is left for review, a full one reverses the grant.\<close>

definition finish_refund ::
  "uuid \<Rightarrow> uuid \<Rightarrow> webhook_entry \<Rightarrow> uuid \<Rightarrow> decimal \<Rightarrow> decimal \<Rightarrow> datetime \<Rightarrow> market_db \<Rightarrow>
     market_error + market_db \<times> refund_result" where
  "finish_refund new_id inbox_id e oid refunded charged ts db =
     (if provider_status e = Some ''partial_refund'' \<and> refunded < charged then
        and_then (mark_webhook_processed ts e) (\<lambda>e2.
        Inr (db\<lparr>inbox := dict_set inbox_id e2 (inbox db)\<rparr>,
             \<lparr>rf_order = oid, rf_outcome = Manual_Review, rf_reversal = None, rf_replayed = False\<rparr>))
      else ensure (provider_status e = Some ''refunded'' \<and> refunded = charged)
        (WebhookRefused ''top-up refund status conflicts with refunded amount evidence.'')
      (and_then (refused_as (WebhookRefused ''top-up refund could not be reconciled safely.'')
        (reverse_top_up_in_uow new_id \<lparr>rvc_order = oid, rvc_event_ref = refund_event_ref e,
           rvc_reason = ''provider_full_refund'', rvc_reversed_at = Aware ts\<rparr> db))
       (\<lambda>(db1, k, r, replay).
      and_then (mark_webhook_processed ts e) (\<lambda>e2.
      Inr (db1\<lparr>inbox := dict_set inbox_id e2 (inbox db1)\<rparr>,
           \<lparr>rf_order = oid, rf_outcome = rv_outcome r, rf_reversal = Some k, rf_replayed = replay\<rparr>)))))"

definition settle_refund ::
  "market_env \<Rightarrow> uuid \<Rightarrow> uuid \<Rightarrow> webhook_entry \<Rightarrow> uuid \<Rightarrow> datetime \<Rightarrow> market_db \<Rightarrow> market_error + market_db \<times> refund_result" where
  "settle_refund env new_id inbox_id e oid ts db =
     ensure (offer_ref e = TOP_UP_OFFER_REF) (WebhookRefused ''webhook is not a top-up refund event.'')
     (ensure (event_name e = ''order_refunded'' \<and> resource_type e = ''orders'')
       (WebhookRefused ''top-up refund processing requires a Lemon Squeezy order_refunded event.'')
     (ensure (provider_order_id e = Some (external_resource_id e))
       (WebhookRefused ''top-up refund provider order binding is invalid.'')
     (ensure (provider_subscription_id e = None)
       (WebhookRefused ''top-up refund must not be bound to a subscription.'')
     (ensure (wh_currency e = Some ''USD'') (WebhookRefused ''top-up refund evidence is incomplete.'')
     (fetch (refunded_amount e) (WebhookRefused ''top-up refund evidence is incomplete.'') (\<lambda>refunded_text.
     fetch (total_amount e) (WebhookRefused ''top-up refund evidence is incomplete.'') (\<lambda>total_text.
     fetch (dict_get (orders db) oid) (WebhookRefused ''referenced top-up order was not found.'') (\<lambda>v.
     ensure (order_binding e v)
       (WebhookRefused ''top-up refund conflicts with the authoritative order binding.'')
     (and_then (amount_from_cents env refunded_text) (\<lambda>refunded.
     and_then (amount_from_cents env total_text) (\<lambda>charged.
     ensure (0 < refunded \<and> refunded \<le> charged) (WebhookRefused ''top-up refund amount is invalid.'')
     (and_then (claim_webhook ts e) (\<lambda>e1.
      finish_refund new_id inbox_id e1 oid refunded charged ts db)))))))))))))"

definition process_refund_webhook ::
  "market_env \<Rightarrow> uuid \<Rightarrow> uuid \<Rightarrow> timestamp \<Rightarrow> refund_result market_op" where
  "process_refund_webhook env new_id inbox_id processed db = (case processed of
     Naive _ \<Rightarrow> (Inl (WebhookRefused ''processed_at must be timezone-aware.''), db)
   | Aware ts \<Rightarrow> commit db (
     fetch (dict_get (inbox db) inbox_id)
       (WebhookRefused ''top-up refund webhook inbox entry was not found.'') (\<lambda>e.
     fetch (uuid_of env (order_ref e)) (WebhookRefused ''top-up refund order_ref must be a UUID.'') (\<lambda>oid.
     if processing_status e = Hook_Processed then
       (let found = find_row (\<lambda>r. provider_event_ref r = refund_event_ref e) (reversals db)
        in Inr (db, \<lparr>rf_order = oid, rf_outcome = (if found = None then Manual_Review else Reversed),
                     rf_reversal = map_option fst found, rf_replayed = True\<rparr>))
     else settle_refund env new_id inbox_id e oid ts db))))"

subsection \<open>The scan for stuck top-ups\<close>

datatype recovery_kind = Checkout_Recovery | Grant_Recovery | Reversal_Review

definition clamp_limit :: "int \<Rightarrow> nat" where
  "clamp_limit limit = nat (max 1 (min limit 500))"

definition recovery_orders :: "int \<Rightarrow> market_db \<Rightarrow> (uuid \<times> top_up_order) list" where
  "recovery_orders limit db = take (clamp_limit limit)
     (sort_key (\<lambda>(k, v). (to_created_at v, k))
       (filter (\<lambda>(k, v). checkout_creation_status v = Checkout_Uncertain \<or> to_state v = TO_Payment_Verified)
         (orders db)))"

definition order_candidates :: "uuid \<times> top_up_order \<Rightarrow> (recovery_kind \<times> uuid) list" where
  "order_candidates kv = (case kv of (k, v) \<Rightarrow>
     (if checkout_creation_status v = Checkout_Uncertain then [(Checkout_Recovery, k)] else []) @
     (if to_state v = TO_Payment_Verified then [(Grant_Recovery, k)] else []))"

definition scan_recovery_candidates :: "int \<Rightarrow> market_db \<Rightarrow> (recovery_kind \<times> uuid) list" where
  "scan_recovery_candidates limit db =
     (let bound = clamp_limit limit;
          found = concat (map order_candidates (recovery_orders (int bound) db));
          remaining = bound - length found;
          reviews = (if 0 < remaining then
              take (clamp_limit (int remaining)) (sort_key (\<lambda>(k, r). (reversed_at r, k))
                (filter (\<lambda>(k, r). rv_outcome r = Manual_Review) (reversals db))) else [])
      in take bound (found @ map (\<lambda>(k, r). (Reversal_Review, rv_order r)) reviews))"

end
