(* ===== verification/Quota_Ledger.thy ===== *)
theory Quota_Ledger
  imports Subscription_Quota Top_Up_Grants
begin

section \<open>The ledger of a quota cycle and its preservation\<close>

text \<open>
  What the tables say together: the units of a cycle are the sums of the usage, grant and reversal
  ledgers, every grant belongs to a granted order and to a verified payment of exactly its settlement
  amount, and every reversal belongs to a grant. The lemmas show that each operation, given tables
  with this property, leaves tables with it.
\<close>

named_theorems market_defs \<open>unfolding of the operations on the market tables\<close>

subsection \<open>Rows and columns\<close>

lemma find_row_Some: "find_row P t = Some (k, v) \<Longrightarrow> (k, v) \<in> set t \<and> P v"
  by (induction t) (auto simp: find_row_def split: if_splits)

lemma find_row_None: "find_row P t = None \<longleftrightarrow> (\<forall>(k, v) \<in> set t. \<not> P v)"
  by (induction t) (auto simp: find_row_def)

lemma find_None_iff: "List.find P xs = None \<longleftrightarrow> (\<forall>x \<in> set xs. \<not> P x)"
  by (induction xs) auto

lemma find_SomeD: "List.find P xs = Some x \<Longrightarrow> x \<in> set xs \<and> P x"
  by (induction xs) (auto split: if_splits)

lemma no_row_iff [simp]: "(\<forall>k v. x \<noteq> Some (k, v)) \<longleftrightarrow> x = None"
  by (cases x) auto

lemma set_add_row [simp]: "set (add_row k v t) = insert (k, v) (set t)"
  by (auto simp: add_row_def)

lemma rows_add_row [simp]: "rows (add_row k v t) = rows t @ [v]"
  by (simp add: add_row_def)

lemma dict_get_add_row:
  "dict_get (add_row k v t) k' =
     (case dict_get t k' of Some w \<Rightarrow> Some w | None \<Rightarrow> if k' = k then Some v else None)"
  by (simp add: add_row_def map_add_def split: option.splits)

lemma dict_ok_add_row [simp]: "dict_ok (add_row k v t) \<longleftrightarrow> dict_ok t \<and> dict_get t k = None"
  by (auto simp: add_row_def map_of_eq_None_iff)

lemma column_dict_set:
  "dict_get t k = Some w \<Longrightarrow> f v = f w \<Longrightarrow> map f (rows (dict_set k v t)) = map f (rows t)"
  by (induction t) (auto split: if_splits)

lemma list_all_dict_set:
  "list_all P (rows t) \<Longrightarrow> P v \<Longrightarrow> list_all P (rows (dict_set k v t))"
  by (induction t) auto

lemma list_all_dict_get: "list_all P (rows t) \<Longrightarrow> dict_get t k = Some v \<Longrightarrow> P v"
  by (induction t) (auto split: if_splits)

lemma commit_Inr:
  assumes "commit db m = (Inr r, db')"
  shows "\<exists>d. m = Inr (d, r) \<and> db' = d \<and> (d = db \<or> constraints d)"
  using assms by (auto simp: commit_def split: sum.splits prod.splits if_splits)

lemma commit_snd:
  obtains (kept) "snd (commit db m) = db"
  | (written) r db' where "m = Inr (db', r)" and "snd (commit db m) = db'" and "constraints db'"
proof (cases m)
  case (Inl e)
  then show thesis by (intro kept) (simp add: commit_def)
next
  case (Inr x)
  obtain d r where x: "x = (d, r)" by (cases x)
  show thesis
  proof (cases "d \<noteq> db \<and> constraints d")
    case True
    with Inr x show thesis by (intro written [of d r]) (simp_all add: commit_def)
  next
    case False
    with Inr x show thesis by (intro kept) (auto simp: commit_def)
  qed
qed

lemma commit_changed:
  "snd (commit db m) \<noteq> db \<Longrightarrow> \<exists>r. m = Inr (snd (commit db m), r) \<and> fst (commit db m) = Inr r \<and>
     constraints (snd (commit db m))"
  by (auto simp: commit_def split: sum.splits prod.splits if_splits)

lemma commit_constraints: "constraints db \<Longrightarrow> constraints (snd (commit db m))"
  by (cases rule: commit_snd [of db m]) simp_all

subsection \<open>The ledger\<close>

definition usage_total :: "uuid \<Rightarrow> market_db \<Rightarrow> int" where
  "usage_total k db = sum_list (map cu_units (filter (\<lambda>u. cu_cycle u = k) (usages db)))"

definition granted_total :: "uuid \<Rightarrow> market_db \<Rightarrow> int" where
  "granted_total k db = sum_list (map gr_units (filter (\<lambda>g. gr_cycle g = k) (rows (grants db))))"

definition reversed_total :: "uuid \<Rightarrow> market_db \<Rightarrow> int" where
  "reversed_total k db = sum_list (map rv_units
     (filter (\<lambda>r. rv_cycle r = k \<and> rv_outcome r = Reversed) (rows (reversals db))))"

definition cycle_known :: "market_db \<Rightarrow> uuid \<Rightarrow> bool" where
  "cycle_known db k \<longleftrightarrow> dict_get (cycles db) k \<noteq> None"

definition cycles_balanced :: "market_db \<Rightarrow> bool" where
  "cycles_balanced db \<longleftrightarrow> (\<forall>k c. dict_get (cycles db) k = Some c \<longrightarrow>
     used_units c = usage_total k db \<and> top_up_units c = granted_total k db - reversed_total k db)"

definition usages_known :: "market_db \<Rightarrow> bool" where
  "usages_known db \<longleftrightarrow> (\<forall>u \<in> set (usages db). 0 < cu_units u \<and> cycle_known db (cu_cycle u))"

text \<open>A grant and the order and payment behind it.\<close>

definition grant_paid :: "market_db \<Rightarrow> top_up_grant \<Rightarrow> bool" where
  "grant_paid db g \<longleftrightarrow> 0 < gr_units g \<and> cycle_known db (gr_cycle g) \<and>
     grant_idempotency_key g = grant_key (gr_order g) \<and>
     (\<exists>v. dict_get (orders db) (gr_order g) = Some v \<and> to_state v = TO_Granted \<and>
        to_subscription v = gr_subscription g \<and> to_cycle v = gr_cycle g \<and> to_customer v = gr_customer g \<and>
        requested_units v = gr_units g \<and>
        (\<exists>p \<in> set (payments db). pe_order p = gr_order g \<and> pe_provider_reference p = gr_provider_reference g \<and>
           pe_outcome p = Payment_Verified \<and> verified_amount p = Some (settlement_amount v) \<and>
           verified_currency p = Some (py_upper (py_strip (settlement_currency v)))))"

definition orders_settled :: "market_db \<Rightarrow> bool" where
  "orders_settled db \<longleftrightarrow> (\<forall>k v. dict_get (orders db) k = Some v \<longrightarrow>
     to_state v = TO_Awaiting_Payment \<or>
     to_state v = TO_Granted \<and> (\<exists>i g. (i, g) \<in> set (grants db) \<and> gr_order g = k))"

definition reversal_matches :: "market_db \<Rightarrow> top_up_reversal \<Rightarrow> bool" where
  "reversal_matches db r \<longleftrightarrow> (\<exists>g. (rv_grant r, g) \<in> set (grants db) \<and> rv_units r = gr_units g \<and>
     rv_cycle r = gr_cycle g \<and> rv_order r = gr_order g)"

definition ledger :: "market_db \<Rightarrow> bool" where
  "ledger db \<longleftrightarrow> cycles_balanced db \<and> usages_known db \<and>
     (\<forall>(i, g) \<in> set (grants db). grant_paid db g) \<and> orders_settled db \<and>
     (\<forall>(i, r) \<in> set (reversals db). reversal_matches db r)"

lemmas ledger_parts = cycles_balanced_def usages_known_def orders_settled_def

subsection \<open>Operations that leave the ledger alone\<close>

definition balance_of :: "quota_cycle \<Rightarrow> int \<times> int" where
  "balance_of c = (used_units c, top_up_units c)"

text \<open>Only columns outside the ledger differ.\<close>

definition same_ledger :: "market_db \<Rightarrow> market_db \<Rightarrow> bool" where
  "same_ledger db db' \<longleftrightarrow> usages db' = usages db \<and> orders db' = orders db \<and> payments db' = payments db \<and>
     grants db' = grants db \<and> reversals db' = reversals db \<and>
     (\<forall>k. map_option balance_of (dict_get (cycles db') k) = map_option balance_of (dict_get (cycles db) k))"

lemma same_ledger_refl [simp]: "same_ledger db db"
  by (simp add: same_ledger_def)

lemma same_ledger_trans: "same_ledger a b \<Longrightarrow> same_ledger b c \<Longrightarrow> same_ledger a c"
  by (simp add: same_ledger_def)

lemma ledger_same:
  assumes "ledger db" and "same_ledger db db'"
  shows "ledger db'"
proof -
  have known: "cycle_known db' k \<longleftrightarrow> cycle_known db k" for k
    using assms(2) by (metis cycle_known_def option.map_disc_iff same_ledger_def)
  have totals: "usage_total k db' = usage_total k db" "granted_total k db' = granted_total k db"
    "reversed_total k db' = reversed_total k db" for k
    using assms(2) by (simp_all add: same_ledger_def usage_total_def granted_total_def reversed_total_def)
  have "cycles_balanced db'"
    unfolding cycles_balanced_def
  proof (intro allI impI)
    fix k c' assume c': "dict_get (cycles db') k = Some c'"
    with assms(2) obtain c where "dict_get (cycles db) k = Some c" "balance_of c' = balance_of c"
      by (metis (no_types, lifting) map_option_eq_Some same_ledger_def)
    with assms(1) show "used_units c' = usage_total k db' \<and> top_up_units c' = granted_total k db' - reversed_total k db'"
      by (simp add: ledger_def cycles_balanced_def balance_of_def totals)
  qed
  moreover have "grant_paid db' g \<longleftrightarrow> grant_paid db g" "reversal_matches db' r \<longleftrightarrow> reversal_matches db r" for g r
    using assms(2) known by (simp_all add: grant_paid_def reversal_matches_def same_ledger_def)
  moreover have "usages_known db'" "orders_settled db'"
    using assms known by (simp_all add: ledger_def usages_known_def orders_settled_def same_ledger_def)
  ultimately show ?thesis using assms by (simp add: ledger_def same_ledger_def)
qed

lemma each_rollover_cycle_balance:
  assumes "each_rollover_cycle f sid t = Inr t'"
    and "\<And>c c'. f c = Inr c' \<Longrightarrow> balance_of c' = balance_of c"
  shows "map_option balance_of (dict_get t' k) = map_option balance_of (dict_get t k)"
  using assms
proof (induction t arbitrary: t')
  case Nil
  then show ?case by simp
next
  case (Cons kc t)
  then show ?case by (cases kc) (auto split: if_splits)
qed

lemma cycle_changes_balance:
  "lock_cycle ts ex c = Inr c' \<Longrightarrow> balance_of c' = balance_of c"
  "settle_cycle ts c = Inr c' \<Longrightarrow> balance_of c' = balance_of c"
  "expire_cycle ts c = Inr c' \<Longrightarrow> balance_of c' = balance_of c"
proof -
  show "lock_cycle ts ex c = Inr c' \<Longrightarrow> balance_of c' = balance_of c"
    by (auto simp: lock_cycle_def balance_of_def split: if_split_asm)
  show "settle_cycle ts c = Inr c' \<Longrightarrow> balance_of c' = balance_of c"
    unfolding settle_cycle_def balance_of_def by (cases "rollover_expires_at c") (auto split: if_split_asm)
  show "expire_cycle ts c = Inr c' \<Longrightarrow> balance_of c' = balance_of c"
    unfolding expire_cycle_def balance_of_def by (cases "rollover_expires_at c") (auto split: if_split_asm)
qed

lemma same_ledger_cycles:
  assumes "each_rollover_cycle f sid (cycles db) = Inr t" and "\<And>c c'. f c = Inr c' \<Longrightarrow> balance_of c' = balance_of c"
  shows "same_ledger db (db\<lparr>cycles := t\<rparr>)"
  using each_rollover_cycle_balance [OF assms] by (simp add: same_ledger_def)

lemma rollover_changes_same:
  "lock_rollover_for_delinquency sid ts ex db = Inr db' \<Longrightarrow> same_ledger db db'"
  "restore_or_expire_rollover_after_payment sid ts db = Inr db' \<Longrightarrow> same_ledger db db'"
  "expire_overdue_rollover sid ts db = Inr db' \<Longrightarrow> same_ledger db db'"
  using same_ledger_cycles [OF _ cycle_changes_balance(1)] same_ledger_cycles [OF _ cycle_changes_balance(2)]
    same_ledger_cycles [OF _ cycle_changes_balance(3)]
  by (fastforce simp: lock_rollover_for_delinquency_def restore_or_expire_rollover_after_payment_def
      expire_overdue_rollover_def)+

lemma same_ledger_updates [simp]:
  "same_ledger db (db1\<lparr>delinquencies := x\<rparr>) \<longleftrightarrow> same_ledger db db1"
  "same_ledger db (db1\<lparr>runtimes := y\<rparr>) \<longleftrightarrow> same_ledger db db1"
  "same_ledger db (db1\<lparr>transitions := z\<rparr>) \<longleftrightarrow> same_ledger db db1"
  "same_ledger db (db1\<lparr>subscriptions := w\<rparr>) \<longleftrightarrow> same_ledger db db1"
  "same_ledger db (db1\<lparr>inbox := i\<rparr>) \<longleftrightarrow> same_ledger db db1"
  "same_ledger (db\<lparr>delinquencies := x\<rparr>) db1 \<longleftrightarrow> same_ledger db db1"
  "same_ledger (db\<lparr>runtimes := y\<rparr>) db1 \<longleftrightarrow> same_ledger db db1"
  by (simp_all add: same_ledger_def)

lemma payment_failure_same:
  "apply_payment_failure sid customer ts db = Inr (db', d) \<Longrightarrow> same_ledger db db'"
  by (auto simp: apply_payment_failure_def split: option.splits dest!: rollover_changes_same)

lemma resolve_delinquency_same:
  "resolve_payment_delinquency sid customer ts db = Inr db' \<Longrightarrow> same_ledger db db'"
  by (auto simp: resolve_payment_delinquency_def split: option.splits dest!: rollover_changes_same)

lemma settle_delinquency_same:
  "settle_delinquency event sid customer ts db = Inr (db', d) \<Longrightarrow> same_ledger db db'"
  by (auto simp: settle_delinquency_def split: if_splits prod.splits
      dest: payment_failure_same resolve_delinquency_same)

lemma lifecycle_same:
  "apply_subscription_lifecycle b e db = Inr (db', sub) \<Longrightarrow> same_ledger db db'"
  by (auto simp: apply_subscription_lifecycle_def split: option.splits)

lemma runtime_access_same:
  "apply_runtime_access b sub e did db = Inr (db', u) \<Longrightarrow> same_ledger db db'"
  by (auto simp: apply_runtime_access_def split: option.splits prod.splits if_splits
      dest: settle_delinquency_same)

subsection \<open>Usage\<close>

lemma charge_usageD:
  assumes "charge_usage c ts r db = Inr (db', u)"
  obtains cycle where "dict_get (cycles db) (uc_cycle c) = Some cycle"
    and "cy_subscription cycle = uc_subscription c" and "cy_customer cycle = uc_customer c"
    and "cy_metric cycle = uc_metric c" and "period_start cycle \<le> ts" and "ts < period_end cycle"
    and "rn_stage r = Stage_Grace \<Longrightarrow> enforce_degraded_grace_cap c ts cycle r db = Inr ()"
    and "uc_units c \<le> available_units cycle" and "u = usage_row c ts cycle"
    and "db' = db\<lparr>cycles := dict_set (uc_cycle c)
           (cycle\<lparr>used_units := used_units cycle + uc_units c, cy_version := cy_version cycle + 1\<rparr>) (cycles db),
         usages := usages db @ [u]\<rparr>"
  using assms that by (fastforce simp: charge_usage_def split: if_split_asm)

lemma cycle_known_updates [simp]:
  "cycle_known (db\<lparr>usages := a\<rparr>) j = cycle_known db j" "cycle_known (db\<lparr>orders := b\<rparr>) j = cycle_known db j"
  "cycle_known (db\<lparr>grants := d\<rparr>) j = cycle_known db j" "cycle_known (db\<lparr>reversals := e\<rparr>) j = cycle_known db j"
  "cycle_known (db\<lparr>payments := f\<rparr>) j = cycle_known db j"
  by (simp_all add: cycle_known_def)

lemma cycle_known_set:
  "dict_get (cycles db) k = Some c \<Longrightarrow> cycle_known (db\<lparr>cycles := dict_set k c' (cycles db)\<rparr>) j = cycle_known db j"
  by (simp add: cycle_known_def dict_simps)

lemma charge_usage_ledger:
  assumes "ledger db" and "charge_usage c ts r db = Inr (db', u)" and "0 < uc_units c"
  shows "ledger db'"
proof -
  obtain cycle where cycle: "dict_get (cycles db) (uc_cycle c) = Some cycle" and u: "u = usage_row c ts cycle"
    and db': "db' = db\<lparr>cycles := dict_set (uc_cycle c)
           (cycle\<lparr>used_units := used_units cycle + uc_units c, cy_version := cy_version cycle + 1\<rparr>) (cycles db),
         usages := usages db @ [u]\<rparr>"
    using assms(2) by (rule charge_usageD)
  have known: "cycle_known db' j = cycle_known db j" for j
    using cycle by (simp add: db' cycle_known_def dict_simps)
  have "usage_total j db' = usage_total j db + (if j = uc_cycle c then uc_units c else 0)"
    and "granted_total j db' = granted_total j db" and "reversed_total j db' = reversed_total j db" for j
    by (simp_all add: db' u usage_total_def usage_row_def granted_total_def reversed_total_def)
  then have "cycles_balanced db'"
    using assms(1) cycle by (auto simp: ledger_def cycles_balanced_def db' dict_simps)
  moreover have "usages_known db'"
    using assms cycle by (auto simp: ledger_def usages_known_def known)
      (auto simp: db' u usage_row_def cycle_known_def)
  moreover have "grant_paid db' g = grant_paid db g" "reversal_matches db' x = reversal_matches db x" for g x
    by (simp_all add: grant_paid_def reversal_matches_def known) (simp_all add: db')
  moreover have "orders_settled db'" using assms(1) by (simp add: ledger_def orders_settled_def db')
  ultimately show ?thesis using assms(1) by (simp add: ledger_def) (simp add: db')
qed

lemma record_usage_cases:
  obtains (kept) "same_ledger db (snd (record_usage c db))"
    and "delinquencies (snd (record_usage c db)) = delinquencies db"
  | (charged) ts r exp u where "validate_usage c = Inr ts" and "usage_by_key (uc_key_hash c) db = None"
    and "usage_access c ts db = Inr (r, exp, True)"
    and "charge_usage c ts r (db\<lparr>runtimes := dict_set (uc_subscription c) r (runtimes db)\<rparr>)
           = Inr (snd (record_usage c db), u)"
    and "constraints (snd (record_usage c db))" and "fst (record_usage c db) = Inr u"
proof (cases "validate_usage c")
  case (Inl e)
  then show thesis by (intro kept) (simp_all add: record_usage_def)
next
  case valid: (Inr ts)
  show thesis
  proof (cases "usage_by_key (uc_key_hash c) db")
    case (Some u)
    with valid show thesis by (intro kept) (simp_all add: record_usage_def)
  next
    case new: None
    show thesis
    proof (cases "usage_access c ts db")
      case (Inl e)
      with valid new show thesis by (intro kept) (simp_all add: record_usage_def)
    next
      case (Inr x)
      then obtain r exp allowed where access: "usage_access c ts db = Inr (r, exp, allowed)" by (cases x) auto
      let ?db1 = "db\<lparr>runtimes := dict_set (uc_subscription c) r (runtimes db)\<rparr>"
      show thesis
      proof (cases allowed)
        case False
        have "same_ledger db (snd (commit db (Inr (?db1, ()))))"
          "delinquencies (snd (commit db (Inr (?db1, ())))) = delinquencies db" by (auto simp: commit_def)
        with False valid new access show thesis
          by (intro kept) (auto simp: record_usage_def split: prod.splits sum.splits)
      next
        case True
        with valid new access have eq: "record_usage c db = commit db (charge_usage c ts r ?db1)"
          by (simp add: record_usage_def)
        show thesis
        proof (cases rule: commit_snd [of db "charge_usage c ts r ?db1"])
          case kept
          then show thesis by (intro that(1)) (simp_all add: eq)
        next
          case (written u db')
          then show thesis
            using that(2) [of ts r exp u] valid new access True eq
            by (simp add: commit_def)
        qed
      qed
    qed
  qed
qed

lemma validate_usageD: "validate_usage c = Inr ts \<Longrightarrow> 0 < uc_units c \<and> uc_occurred_at c = Aware ts"
  by (auto simp: validate_usage_def split: timestamp.splits)

lemma record_usage_ledger:
  assumes "ledger db"
  shows "ledger (snd (record_usage c db))"
proof (cases rule: record_usage_cases [of db c])
  case kept
  from assms kept(1) show ?thesis by (rule ledger_same)
next
  case (charged ts r exp u)
  have "ledger (db\<lparr>runtimes := dict_set (uc_subscription c) r (runtimes db)\<rparr>)"
    using assms by (rule ledger_same) simp
  then show ?thesis using charged(4) validate_usageD [OF charged(1)] by (blast intro: charge_usage_ledger)
qed

end
