(* ===== verification/Top_Up_Ledger.thy ===== *)
theory Top_Up_Ledger
  imports Quota_Ledger
begin

section \<open>Rollover, orders, grants and reversals keep the ledger\<close>

text \<open>
  The remaining operations on the tables of \<open>Quota_Ledger\<close>: what a successful operation has checked
  and written, and that it keeps the ledger.
\<close>

subsection \<open>Rollover\<close>

lemma ledger_add_cycle:
  assumes "ledger db" and "used_units x = 0" and "top_up_units x = 0"
  shows "ledger (db\<lparr>cycles := add_row k x (cycles db)\<rparr>)"
proof -
  let ?db = "db\<lparr>cycles := add_row k x (cycles db)\<rparr>"
  have known: "cycle_known db j \<Longrightarrow> cycle_known ?db j" for j
    by (auto simp: cycle_known_def dict_get_add_row)
  have refs: "\<forall>u \<in> set (usages db). cycle_known db (cu_cycle u)"
    "\<forall>g \<in> set (rows (grants db)). cycle_known db (gr_cycle g)"
    "\<forall>r \<in> set (rows (reversals db)). cycle_known db (rv_cycle r)"
    using assms(1) by (fastforce simp: ledger_def usages_known_def grant_paid_def reversal_matches_def)+
  have zero: "usage_total j db = 0 \<and> granted_total j db = 0 \<and> reversed_total j db = 0" if "\<not> cycle_known db j" for j
  proof -
    have "filter (\<lambda>u. cu_cycle u = j) (usages db) = []" "filter (\<lambda>g. gr_cycle g = j) (rows (grants db)) = []"
      "filter (\<lambda>r. rv_cycle r = j \<and> rv_outcome r = Reversed) (rows (reversals db)) = []"
      using refs that by (auto simp: filter_empty_conv)
    then show ?thesis by (simp only: usage_total_def granted_total_def reversed_total_def) simp
  qed
  have "usage_total j ?db = usage_total j db" "granted_total j ?db = granted_total j db"
    "reversed_total j ?db = reversed_total j db" for j
    by (simp_all add: usage_total_def granted_total_def reversed_total_def)
  with assms zero have "cycles_balanced ?db"
    by (auto simp: ledger_def cycles_balanced_def dict_get_add_row cycle_known_def split: option.splits if_splits)
  moreover have "usages_known ?db" using assms(1) known by (simp add: ledger_def usages_known_def)
  moreover have "grant_paid db g \<Longrightarrow> grant_paid ?db g" for g
    using known by (auto simp: grant_paid_def)
  moreover have "reversal_matches ?db r = reversal_matches db r" "orders_settled ?db = orders_settled db" for r
    by (simp_all add: reversal_matches_def orders_settled_def)
  ultimately show ?thesis using assms(1) by (fastforce simp: ledger_def)
qed

lemma rollover_quota_cases:
  obtains (kept) "snd (rollover_quota new_id c db) = db"
  | (rolled) source plan spec end_at where "dict_get (cycles db) (rc_source c) = Some source"
    and "find_row (\<lambda>x. cy_source x = Some (rc_source c)) (cycles db) = None"
    and "cy_subscription source = rc_subscription c"
    and "rollover_quota new_id c db =
      (let x = rolled_cycle c (period_end source) end_at (cy_customer source) spec plan source
       in (Inr (new_id, x), db\<lparr>cycles := add_row new_id x (cycles db)\<rparr>))"
    and "constraints (snd (rollover_quota new_id c db))"
proof (cases "snd (rollover_quota new_id c db) = db")
  case True
  then show thesis by (rule kept)
next
  case False
  then obtain r db' where out: "rollover_quota new_id c db = (Inr r, db')" "db' \<noteq> db"
    by (cases "rollover_quota new_id c db"; cases "fst (rollover_quota new_id c db)")
      (auto simp: rollover_quota_def commit_def split: sum.splits if_splits)
  note body = commit_Inr [OF out(1) [unfolded rollover_quota_def]]
  from body out(2) have "constraints db'" by auto
  moreover from body out(2) obtain source plan spec end_at where
    "dict_get (cycles db) (rc_source c) = Some source" "cy_subscription source = rc_subscription c"
    "find_row (\<lambda>x. cy_source x = Some (rc_source c)) (cycles db) = None"
    "r = (new_id, rolled_cycle c (period_end source) end_at (cy_customer source) spec plan source)"
    "db' = db\<lparr>cycles := add_row new_id (snd r) (cycles db)\<rparr>"
    by (auto split: prod.splits option.splits)
  ultimately show thesis using out(1) by (intro rolled) (simp_all add: Let_def)
qed

lemma rollover_quota_ledger:
  assumes "ledger db"
  shows "ledger (snd (rollover_quota new_id c db))"
proof (cases rule: rollover_quota_cases [of new_id c db])
  case kept
  with assms show ?thesis by simp
next
  case (rolled source plan spec end_at)
  then show ?thesis using assms by (simp add: ledger_add_cycle rolled_cycle_def)
qed

subsection \<open>Orders and checkouts\<close>

lemma ledger_add_order:
  assumes "ledger db" and "to_state v = TO_Awaiting_Payment"
  shows "ledger (db\<lparr>orders := add_row k v (orders db)\<rparr>)"
proof -
  let ?db = "db\<lparr>orders := add_row k v (orders db)\<rparr>"
  have "grant_paid db g \<Longrightarrow> grant_paid ?db g" for g
    by (auto simp: grant_paid_def dict_get_add_row)
  moreover have "orders_settled ?db"
    using assms by (auto simp: ledger_def orders_settled_def dict_get_add_row split: option.splits if_splits)
  moreover have "cycles_balanced ?db" "usages_known ?db" "reversal_matches ?db r = reversal_matches db r" for r
    using assms(1) by (simp_all add: ledger_def cycles_balanced_def usages_known_def reversal_matches_def
        usage_total_def granted_total_def reversed_total_def)
  ultimately show ?thesis using assms(1) by (fastforce simp: ledger_def)
qed

text \<open>The columns a checkout does not write.\<close>

definition order_core :: "top_up_order \<Rightarrow> top_up_order" where
  "order_core v = v\<lparr>provider_variant_id := None, provider_checkout_id := None,
     checkout_creation_status := Checkout_Not_Started\<rparr>"

lemma order_core_updates [simp]:
  "order_core (v\<lparr>provider_variant_id := a\<rparr>) = order_core v"
  "order_core (v\<lparr>provider_checkout_id := b\<rparr>) = order_core v"
  "order_core (v\<lparr>checkout_creation_status := x\<rparr>) = order_core v"
  by (simp_all add: order_core_def)

lemma order_core_eq:
  assumes "order_core w = order_core v"
  shows "to_customer w = to_customer v" "to_subscription w = to_subscription v" "to_cycle w = to_cycle v"
    "to_plan_code w = to_plan_code v" "to_catalog_version w = to_catalog_version v"
    "requested_units w = requested_units v" "bundle_count w = bundle_count v"
    "total_price_usd w = total_price_usd v" "settlement_currency w = settlement_currency v"
    "settlement_amount w = settlement_amount v" "to_exchange_rate w = to_exchange_rate v"
    "to_channel w = to_channel v" "to_idempotency_key w = to_idempotency_key v" "to_state w = to_state v"
    "to_created_at w = to_created_at v"
  using assms by (cases v; cases w; simp add: order_core_def)+

lemma ledger_set_order:
  assumes "ledger db" and old: "dict_get (orders db) k = Some v" and core: "order_core w = order_core v"
  shows "ledger (db\<lparr>orders := dict_set k w (orders db)\<rparr>)"
proof -
  let ?db = "db\<lparr>orders := dict_set k w (orders db)\<rparr>"
  have "grant_paid db g \<Longrightarrow> grant_paid ?db g" for g
    using old by (auto simp: grant_paid_def dict_simps order_core_eq [OF core])
  moreover have "orders_settled ?db"
    using assms(1) old by (auto simp: ledger_def orders_settled_def dict_simps order_core_eq [OF core])
  moreover have "cycles_balanced ?db" "usages_known ?db" "reversal_matches ?db r = reversal_matches db r" for r
    using assms(1) by (simp_all add: ledger_def cycles_balanced_def usages_known_def reversal_matches_def
        usage_total_def granted_total_def reversed_total_def)
  ultimately show ?thesis using assms(1) by (fastforce simp: ledger_def)
qed

lemma create_order_cases:
  obtains (kept) "snd (create_order env c db) = db"
  | (placed) ts v where "validate_order_command c = Inr ts"
    and "find_row (\<lambda>x. to_idempotency_key x = oc_idempotency_key c) (orders db) = None"
    and "place_order env c ts db = Inr v"
    and "create_order env c db = (Inr (oc_order c, v, False), db\<lparr>orders := add_row (oc_order c) v (orders db)\<rparr>)"
    and "constraints (snd (create_order env c db))"
proof (cases "snd (create_order env c db) = db")
  case True
  then show thesis by (rule kept)
next
  case False
  then obtain r db' where out: "create_order env c db = (Inr r, db')" "db' \<noteq> db"
    by (cases "create_order env c db"; cases "fst (create_order env c db)")
      (auto simp: create_order_def commit_def split: sum.splits if_splits)
  note body = commit_Inr [OF out(1) [unfolded create_order_def]]
  from body out(2) have "constraints db'" by auto
  moreover from body out(2) obtain ts v where "validate_order_command c = Inr ts"
    "find_row (\<lambda>x. to_idempotency_key x = oc_idempotency_key c) (orders db) = None"
    "place_order env c ts db = Inr v" "r = (oc_order c, v, False)"
    "db' = db\<lparr>orders := add_row (oc_order c) v (orders db)\<rparr>"
    by (auto split: prod.splits option.splits)
  ultimately show thesis using out(1) by (intro placed) simp_all
qed

lemma place_orderD:
  assumes "place_order env c ts db = Inr v"
  obtains s plan spec cycle quote settlement u where
    "dict_get (subscriptions db) (oc_subscription c) = Some s" "sb_status s = Sub_Active"
    "sb_customer s = oc_customer c" "dict_get (plans db) (sb_plan s) = Some plan"
    "get_plan_fulfillment_spec (pl_plan_code plan) = Some spec"
    "dict_get (cycles db) (oc_cycle c) = Some cycle"
    "cycle_belongs (oc_subscription c) (oc_customer c) cycle" "cycle_is_current ts cycle"
    "cycle_snapshot_matches spec cycle" "consumed_enough cycle"
    "quote_top_up (ps_plan_code spec) (oc_requested_units c) = Inr quote"
    "0 < tq_total_units quote" "0 < tq_bundle_count quote" "tq_total_units quote = oc_requested_units c"
    "settlement_snapshot env c ts (tq_total_price_usd quote) = Inr settlement"
    "validate_channel_settlement (oc_channel c) (tq_total_price_usd quote) (fst settlement)
       (fst (snd settlement)) (snd (snd settlement)) = Inr u"
    "v = order_row c ts s spec quote settlement"
proof -
  note assms [unfolded place_order_def ensure_Inr fetch_Inr and_then_Inr raised_Inr raise_as_Inr sum.inject]
  then show thesis by (elim exE conjE) (rule that, assumption+, erule sym)
qed

lemma create_order_ledger:
  assumes "ledger db"
  shows "ledger (snd (create_order env c db))"
proof (cases rule: create_order_cases [of env c db])
  case kept
  with assms show ?thesis by simp
next
  case (placed ts v)
  from placed(3) have "to_state v = TO_Awaiting_Payment"
    by (elim place_orderD) (simp add: order_row_def)
  with assms placed(4) show ?thesis by (simp add: ledger_add_order)
qed

text \<open>The steps of a checkout change nothing but checkout columns of one order, which never is as not started again.\<close>

definition checkout_written :: "market_db \<Rightarrow> market_db \<Rightarrow> bool" where
  "checkout_written db db' \<longleftrightarrow> (\<exists>k v w. dict_get (orders db) k = Some v \<and>
     order_core w = order_core v \<and> checkout_creation_status w \<noteq> Checkout_Not_Started \<and>
     db' = db\<lparr>orders := dict_set k w (orders db)\<rparr>)"

definition checkout_change :: "market_db \<Rightarrow> market_db \<Rightarrow> bool" where
  "checkout_change db db' \<longleftrightarrow> db' = db \<or> constraints db' \<and> checkout_written db db'"

lemma any_checkout_status: "s \<in> {Checkout_Not_Started, Checkout_Creating, Checkout_Ready, Checkout_Uncertain}"
  by (cases s) simp_all

lemma checkout_written [intro!]:
  "dict_get (orders db) k = Some v \<Longrightarrow> order_core w = order_core v \<Longrightarrow>
     checkout_creation_status w \<noteq> Checkout_Not_Started \<Longrightarrow> checkout_written db (db\<lparr>orders := dict_set k w (orders db)\<rparr>)"
  by (auto simp: checkout_written_def)

lemma checkout_change_ledger: "ledger db \<Longrightarrow> checkout_change db db' \<Longrightarrow> ledger db'"
  by (auto simp: checkout_change_def checkout_written_def ledger_set_order)

lemma checkout_change_commit:
  assumes "\<And>d r. m = Inr (d, r) \<Longrightarrow> d \<noteq> db \<Longrightarrow> checkout_written db d"
  shows "checkout_change db (snd (commit db m))"
proof (cases rule: commit_snd [of db m])
  case kept
  then show ?thesis by (simp add: checkout_change_def)
next
  case (written r d)
  then show ?thesis using assms [OF written(1)] by (auto simp: checkout_change_def)
qed

lemma begin_checkout_change: "checkout_change db (snd (begin_checkout c db))"
  unfolding begin_checkout_def
proof (rule checkout_change_commit, goal_cases)
  case (1 d r)
  then obtain v where v: "dict_get (orders db) (ck_order c) = Some v" by auto
  with 1 any_checkout_status [of "checkout_creation_status v"] show ?case by auto
qed

lemma fail_checkout_change: "checkout_change db (snd (fail_checkout k db))"
proof (cases "dict_get (orders db) k")
  case None
  then show ?thesis by (simp add: fail_checkout_def checkout_change_def)
next
  case (Some v)
  let ?m = "Inr (db\<lparr>orders := dict_set k (v\<lparr>checkout_creation_status := Checkout_Uncertain\<rparr>) (orders db)\<rparr>, ())"
  have "checkout_change db (snd (commit db ?m))"
    by (rule checkout_change_commit) (use Some in auto)
  with Some show ?thesis
    by (auto simp: fail_checkout_def checkout_change_def split: prod.splits sum.splits)
qed

lemma finish_checkout_change: "checkout_change db (snd (finish_checkout env c k url db))"
  unfolding finish_checkout_def
  by (rule checkout_change_commit) auto

lemma finish_recovery_change: "checkout_change db (snd (finish_recovery c x db))"
  unfolding finish_recovery_def
proof (rule checkout_change_commit, goal_cases)
  case (1 d r)
  then obtain v where v: "dict_get (orders db) (ck_order c) = Some v" by auto
  with 1 any_checkout_status [of "checkout_creation_status v"] show ?case by auto
qed

subsection \<open>Grants\<close>

text \<open>What a new grant has checked, and what it writes.\<close>

lemma new_grantD:
  assumes "new_grant new_id c ts db = Inr (db', k, g, replay)"
  obtains v s plan spec cycle quote p u where
    "dict_get (orders db) (gc_order c) = Some v" "to_subscription v = gc_subscription c"
    "to_cycle v = gc_cycle c" "to_customer v = gc_customer c"
    "to_catalog_version v = PLAN_FULFILLMENT_CATALOG_VERSION"
    "to_state v = TO_Awaiting_Payment \<or> to_state v = TO_Payment_Verified"
    "dict_get (subscriptions db) (gc_subscription c) = Some s" "sb_status s = Sub_Active"
    "sb_customer s = gc_customer c" "dict_get (plans db) (sb_plan s) = Some plan"
    "get_plan_fulfillment_spec (pl_plan_code plan) = Some spec" "to_plan_code v = ps_plan_code spec"
    "dict_get (cycles db) (gc_cycle c) = Some cycle"
    "cycle_belongs (gc_subscription c) (gc_customer c) cycle" "cycle_is_current ts cycle"
    "cycle_snapshot_matches spec cycle" "consumed_enough cycle"
    "quote_top_up (ps_plan_code spec) (requested_units v) = Inr quote"
    "0 < tq_total_units quote" "0 < tq_bundle_count quote" "bundle_count v = tq_bundle_count quote"
    "requested_units v = tq_total_units quote" "total_price_usd v = tq_total_price_usd quote"
    "payment_by_reference (gc_reference c) db = Some p" "pe_order p = gc_order c"
    "payment_settles v p = Inr u"
    "find_row (\<lambda>g. grant_idempotency_key g = grant_key (gc_order c)) (grants db) = None"
    "db' = db\<lparr>grants := add_row new_id (grant_row c ts s spec cycle quote) (grants db),
       cycles := dict_set (gc_cycle c) (cycle\<lparr>top_up_units := top_up_units cycle + tq_total_units quote,
           cy_version := cy_version cycle + 1\<rparr>) (cycles db),
       orders := dict_set (gc_order c) (v\<lparr>to_state := TO_Granted\<rparr>) (orders db)\<rparr>"
    "k = new_id" "g = grant_row c ts s spec cycle quote" "\<not> replay"
proof -
  note assms [unfolded new_grant_def ensure_Inr fetch_Inr and_then_Inr raised_Inr Let_def sum.inject prod.inject]
  then show thesis by (elim exE conjE) (rule that, assumption+, (erule sym)+, blast)
qed

lemma new_grantI:
  assumes "dict_get (orders db) (gc_order c) = Some v" "to_subscription v = gc_subscription c"
    "to_cycle v = gc_cycle c" "to_customer v = gc_customer c"
    "to_catalog_version v = PLAN_FULFILLMENT_CATALOG_VERSION"
    "to_state v = TO_Awaiting_Payment \<or> to_state v = TO_Payment_Verified"
    "dict_get (subscriptions db) (gc_subscription c) = Some s" "sb_status s = Sub_Active"
    "sb_customer s = gc_customer c" "dict_get (plans db) (sb_plan s) = Some plan"
    "get_plan_fulfillment_spec (pl_plan_code plan) = Some spec" "to_plan_code v = ps_plan_code spec"
    "dict_get (cycles db) (gc_cycle c) = Some cycle"
    "cycle_belongs (gc_subscription c) (gc_customer c) cycle" "cycle_is_current ts cycle"
    "cycle_snapshot_matches spec cycle" "consumed_enough cycle"
    "quote_top_up (ps_plan_code spec) (requested_units v) = Inr quote"
    "0 < tq_total_units quote" "0 < tq_bundle_count quote" "bundle_count v = tq_bundle_count quote"
    "requested_units v = tq_total_units quote" "total_price_usd v = tq_total_price_usd quote"
    "payment_by_reference (gc_reference c) db = Some p" "pe_order p = gc_order c"
    "payment_settles v p = Inr u"
    "find_row (\<lambda>g. grant_idempotency_key g = grant_key (gc_order c)) (grants db) = None"
  shows "new_grant new_id c ts db = Inr (db\<lparr>grants := add_row new_id (grant_row c ts s spec cycle quote) (grants db),
       cycles := dict_set (gc_cycle c) (cycle\<lparr>top_up_units := top_up_units cycle + tq_total_units quote,
           cy_version := cy_version cycle + 1\<rparr>) (cycles db),
       orders := dict_set (gc_order c) (v\<lparr>to_state := TO_Granted\<rparr>) (orders db)\<rparr>,
     new_id, grant_row c ts s spec cycle quote, False)"
  unfolding new_grant_def using assms by (simp add: raised_def)

lemma payment_settlesD:
  "payment_settles v p = Inr u \<Longrightarrow> pe_outcome p = Payment_Verified \<and>
     verified_amount p = Some (settlement_amount v) \<and>
     verified_currency p = Some (py_upper (py_strip (settlement_currency v)))"
  by (auto simp: payment_settles_def)

lemma new_grant_ledger:
  assumes "ledger db" and grant: "new_grant new_id c ts db = Inr (db', k, g, replay)"
    and "find_row (\<lambda>g. gr_order g = gc_order c) (grants db) = None"
  shows "ledger db'"
proof -
  obtain v s spec cycle quote p u where order: "dict_get (orders db) (gc_order c) = Some v"
    "to_subscription v = gc_subscription c" "to_cycle v = gc_cycle c" "to_customer v = gc_customer c"
    and s: "sb_customer s = gc_customer c" and cycle: "dict_get (cycles db) (gc_cycle c) = Some cycle"
    and quote: "0 < tq_total_units quote" "requested_units v = tq_total_units quote"
    and p: "payment_by_reference (gc_reference c) db = Some p" "pe_order p = gc_order c" "payment_settles v p = Inr u"
    and db': "db' = db\<lparr>grants := add_row new_id (grant_row c ts s spec cycle quote) (grants db),
       cycles := dict_set (gc_cycle c) (cycle\<lparr>top_up_units := top_up_units cycle + tq_total_units quote,
           cy_version := cy_version cycle + 1\<rparr>) (cycles db),
       orders := dict_set (gc_order c) (v\<lparr>to_state := TO_Granted\<rparr>) (orders db)\<rparr>"
    and g: "g = grant_row c ts s spec cycle quote"
    using grant by (rule new_grantD)
  have known: "cycle_known db' j = cycle_known db j" for j
    using cycle by (simp add: db' cycle_known_def dict_simps)
  have "granted_total j db' = granted_total j db + (if j = gc_cycle c then tq_total_units quote else 0)"
    "usage_total j db' = usage_total j db" "reversed_total j db' = reversed_total j db" for j
    by (simp_all add: db' grant_row_def usage_total_def granted_total_def reversed_total_def)
  then have "cycles_balanced db'"
    using assms(1) cycle by (auto simp: ledger_def cycles_balanced_def db' dict_simps)
  moreover have "usages_known db'"
    using assms(1) by (auto simp: ledger_def usages_known_def known) (auto simp: db')
  moreover have "grant_paid db' h" if "(i, h) \<in> set (grants db)" for i h
  proof -
    have "gr_order h \<noteq> gc_order c" using assms(3) that by (auto simp: find_row_None)
    moreover have "grant_paid db h" using assms(1) that by (auto simp: ledger_def)
    ultimately show ?thesis by (auto simp: grant_paid_def known) (auto simp: db' dict_simps)
  qed
  moreover have "grant_paid db' g"
  proof -
    have "p \<in> set (payments db)" "pe_provider_reference p = gc_reference c"
      using p(1) find_SomeD unfolding payment_by_reference_def by fast+
    moreover have "cycle_known db (gc_cycle c)" using cycle by (simp add: cycle_known_def)
    ultimately show ?thesis
      using order s quote p(2) payment_settlesD [OF p(3)]
      by (auto simp: grant_paid_def known g grant_row_def) (auto simp: db' dict_simps)
  qed
  moreover have "orders_settled db'"
    unfolding orders_settled_def
  proof (intro allI impI)
    fix j w assume w: "dict_get (orders db') j = Some w"
    show "to_state w = TO_Awaiting_Payment \<or>
      to_state w = TO_Granted \<and> (\<exists>i h. (i, h) \<in> set (grants db') \<and> gr_order h = j)"
    proof (cases "j = gc_order c")
      case True
      with w have "to_state w = TO_Granted" by (auto simp: db' dict_simps)
      moreover have "(new_id, g) \<in> set (grants db')" "gr_order g = j"
        using True by (simp_all add: db' g grant_row_def)
      ultimately show ?thesis by blast
    next
      case False
      with w have "dict_get (orders db) j = Some w" by (simp add: db' dict_simps)
      with assms(1) have "to_state w = TO_Awaiting_Payment \<or>
          to_state w = TO_Granted \<and> (\<exists>i h. (i, h) \<in> set (grants db) \<and> gr_order h = j)"
        unfolding ledger_def orders_settled_def by blast
      moreover have "set (grants db) \<subseteq> set (grants db')" by (auto simp: db')
      ultimately show ?thesis by blast
    qed
  qed
  moreover have "reversal_matches db r \<Longrightarrow> reversal_matches db' r" for r
    by (auto simp: reversal_matches_def db')
  ultimately show ?thesis using assms(1) by (auto simp: ledger_def g) (auto simp: db')
qed

text \<open>Marking the order as paid first makes no difference to a new grant.\<close>

lemma new_grant_mark_paid:
  assumes v: "dict_get (orders db) (gc_order c) = Some v"
    and grant: "new_grant new_id c ts (mark_paid (gc_order c) v db) = Inr (db', k, g, replay)"
  shows "new_grant new_id c ts db = Inr (db', k, g, replay)"
proof (cases "to_state v = TO_Awaiting_Payment")
  case False
  with grant show ?thesis by (simp add: mark_paid_def)
next
  case True
  then have marked: "mark_paid (gc_order c) v db =
      db\<lparr>orders := dict_set (gc_order c) (v\<lparr>to_state := TO_Payment_Verified\<rparr>) (orders db)\<rparr>"
    by (simp add: mark_paid_def)
  from grant show ?thesis
  proof (rule new_grantD, goal_cases)
    case (1 v' s plan spec cycle quote p u)
    then have "v' = v\<lparr>to_state := TO_Payment_Verified\<rparr>" by (simp add: marked dict_simps)
    with 1 v True new_grantI [of db c v s plan spec cycle ts quote p u new_id] show ?case
      by (simp add: marked payment_by_reference_def payment_settles_def dict_set_set)
  qed
qed

lemma apply_verified_top_up_cases:
  assumes "apply_verified_top_up new_id c db = Inr (db', k, g, replay)"
  obtains (replayed) "replay" and "db' = db" and "(k, g) \<in> set (grants db)" and "gr_order g = gc_order c"
    and "grant_replay_matches c g"
  | (granted) ts where "\<not> replay" and "validate_grant c = Inr ts"
    and "find_row (\<lambda>g. gr_order g = gc_order c) (grants db) = None"
    and "new_grant new_id c ts db = Inr (db', k, g, False)"
proof (cases "find_row (\<lambda>g. gr_order g = gc_order c) (grants db)")
  case None
  with assms obtain ts where "validate_grant c = Inr ts" "new_grant new_id c ts db = Inr (db', k, g, replay)"
    by (auto simp: apply_verified_top_up_def)
  from this(2) have "\<not> replay" by (elim new_grantD)
  with None \<open>validate_grant c = Inr ts\<close> \<open>new_grant new_id c ts db = Inr (db', k, g, replay)\<close> show thesis
    by (intro granted) simp_all
next
  case (Some kg)
  obtain i h where [simp]: "kg = (i, h)" by (cases kg)
  from assms Some have "replay" "db' = db" "k = i" "g = h" "grant_replay_matches c h"
    by (auto simp: apply_verified_top_up_def)
  moreover from find_row_Some [OF Some [simplified]] have "(i, h) \<in> set (grants db)" "gr_order h = gc_order c" by simp_all
  ultimately show thesis by (intro replayed) simp_all
qed

lemma apply_verified_top_up_ledger:
  assumes "ledger db" and "apply_verified_top_up new_id c db = Inr (db', k, g, replay)"
  shows "ledger db'"
  using assms(2)
proof (cases rule: apply_verified_top_up_cases)
  case replayed
  with assms show ?thesis by simp
next
  case (granted ts)
  with assms show ?thesis by (blast intro: new_grant_ledger)
qed

subsection \<open>Verified payments\<close>

lemma ledger_add_payments:
  assumes "ledger db"
  shows "ledger (db\<lparr>payments := payments db @ ps\<rparr>)"
proof -
  let ?db = "db\<lparr>payments := payments db @ ps\<rparr>"
  have "grant_paid db g \<Longrightarrow> grant_paid ?db g" for g
    by (auto simp: grant_paid_def)
  moreover have "cycles_balanced ?db" "usages_known ?db" "orders_settled ?db"
    "reversal_matches ?db r = reversal_matches db r" for r
    using assms(1) by (simp_all add: ledger_def cycles_balanced_def usages_known_def reversal_matches_def
        orders_settled_def usage_total_def granted_total_def reversed_total_def)
  ultimately show ?thesis using assms(1) by (fastforce simp: ledger_def)
qed

text \<open>A payment only appends its evidence.\<close>

definition evidence_added :: "market_db \<Rightarrow> market_db \<Rightarrow> bool" where
  "evidence_added db db' \<longleftrightarrow> (\<exists>ps. db' = db\<lparr>payments := payments db @ ps\<rparr>)"

lemma evidence_addedI: "evidence_added db db" "evidence_added db (db\<lparr>payments := payments db @ ps\<rparr>)"
  by (auto simp: evidence_added_def intro: exI [of _ "[]"])

lemma tunisia_evidence_added: "tunisia_evidence c ts db = Inr db' \<Longrightarrow> evidence_added db db'"
  by (auto simp: tunisia_evidence_def evidence_addedI split: option.split_asm)

lemma lemon_evidence_added: "lemon_evidence i e oid ref amount ts db = Inr db' \<Longrightarrow> evidence_added db db'"
  by (auto simp: lemon_evidence_def evidence_addedI split: option.split_asm)

lemma evidence_added_ledger:
  "ledger db \<Longrightarrow> evidence_added db db' \<Longrightarrow> ledger db' \<and> orders db' = orders db \<and> grants db' = grants db"
  by (auto simp: evidence_added_def ledger_add_payments)

text \<open>The grant of an order just marked as paid is the grant of the order.\<close>

lemma paid_grant_cases:
  assumes "ledger db" and v: "dict_get (orders db) oid = Some v"
    and grant: "apply_verified_top_up new_id (order_grant_command oid v ref ts) (mark_paid oid v db)
       = Inr (db', k, g, replay)"
  obtains (replayed) "replay" and "db' = db" and "(k, g) \<in> set (grants db)" and "gr_order g = oid"
    and "to_state v = TO_Granted"
  | (granted) "\<not> replay" and "find_row (\<lambda>g. gr_order g = oid) (grants db) = None"
    and "new_grant new_id (order_grant_command oid v ref ts) ts db = Inr (db', k, g, False)"
  using grant
proof (cases rule: apply_verified_top_up_cases)
  case replayed
  then have "(k, g) \<in> set (grants db)" "gr_order g = oid"
    by (simp_all add: order_grant_command_def mark_paid_def split: if_splits)
  moreover from this assms(1) v have "to_state v = TO_Granted"
    by (force simp: ledger_def grant_paid_def)
  ultimately show thesis using replayed(1,2) by (intro that(1)) (simp_all add: mark_paid_def)
next
  case (granted ts')
  then have "ts' = ts" by (auto simp: validate_grant_def order_grant_command_def)
  moreover have "find_row (\<lambda>g. gr_order g = oid) (grants db) = None"
    using granted(3) by (simp add: order_grant_command_def mark_paid_def split: if_splits)
  moreover have "new_grant new_id (order_grant_command oid v ref ts) ts db = Inr (db', k, g, False)"
  proof (rule new_grant_mark_paid)
    show "dict_get (orders db) (gc_order (order_grant_command oid v ref ts)) = Some v"
      using v by (simp add: order_grant_command_def)
    show "new_grant new_id (order_grant_command oid v ref ts) ts
        (mark_paid (gc_order (order_grant_command oid v ref ts)) v db) = Inr (db', k, g, False)"
      using granted(4) calculation(1) by (simp only: order_grant_command_def grant_command.select_convs)
  qed
  ultimately show thesis using granted(1) by (intro that(2))
qed

lemma paid_grant_ledger:
  assumes "ledger db" and "dict_get (orders db) oid = Some v"
    and "apply_verified_top_up new_id (order_grant_command oid v ref ts) (mark_paid oid v db)
       = Inr (db', k, g, replay)"
  shows "ledger db'"
  using assms
proof (cases rule: paid_grant_cases)
  case replayed
  with assms show ?thesis by simp
next
  case granted
  then show ?thesis
    using assms(1) by (auto simp: order_grant_command_def intro: new_grant_ledger [of db new_id _ ts db' k g False])
qed

lemma verify_tunisia_cases:
  obtains (kept) "snd (verify_tunisia_payment new_id c db) = db"
  | (granted) ts v db1 k g where "validate_tunisia c = Inr ts" and "dict_get (orders db) (tc_order c) = Some v"
    and "to_customer v = tc_customer c" and "evidence_added db db1"
    and "apply_verified_top_up new_id (order_grant_command (tc_order c) v (tc_reference c) ts)
           (mark_paid (tc_order c) v db1) = Inr (snd (verify_tunisia_payment new_id c db), k, g, False)"
    and "fst (verify_tunisia_payment new_id c db) = Inr (k, g, False)"
    and "constraints (snd (verify_tunisia_payment new_id c db))"
proof (cases "snd (verify_tunisia_payment new_id c db) = db")
  case True
  then show thesis by (rule kept)
next
  case False
  then obtain db' k g where body: "verify_tunisia_in_uow new_id c db = Inr (db', k, g, False)"
    and eq: "verify_tunisia_payment new_id c db = commit db (Inr (db', k, g, False))"
    by (cases "verify_tunisia_in_uow new_id c db")
      (auto simp: verify_tunisia_payment_def split: prod.split_asm if_split_asm)
  from eq False have done': "verify_tunisia_payment new_id c db = (Inr (k, g, False), db')" "constraints db'"
    by (auto simp: commit_def split: if_splits)
  from body obtain ts v db1 where "validate_tunisia c = Inr ts" "dict_get (orders db) (tc_order c) = Some v"
    "to_customer v = tc_customer c" "tunisia_evidence c ts db = Inr db1"
    "apply_verified_top_up new_id (order_grant_command (tc_order c) v (tc_reference c) ts)
       (mark_paid (tc_order c) v db1) = Inr (db', k, g, False)"
    unfolding verify_tunisia_in_uow_def by auto
  with done' show thesis by (intro granted [of ts v db1 k g]) (simp_all add: tunisia_evidence_added)
qed

lemma verify_tunisia_ledger:
  assumes "ledger db"
  shows "ledger (snd (verify_tunisia_payment new_id c db))"
proof (cases rule: verify_tunisia_cases [of new_id c db])
  case kept
  with assms show ?thesis by simp
next
  case (granted ts v db1 k g)
  with evidence_added_ledger [OF assms granted(4)] show ?thesis
    by (auto intro: paid_grant_ledger [where v = v])
qed

end
