(* ===== verification/Quota_Steps.thy ===== *)
theory Quota_Steps
  imports Top_Up_Ledger
begin

section \<open>Webhooks, reversals and the steps of the commercial services\<close>

text \<open>
  The webhook processors and reversals keep the ledger too; then every operation on the market
  tables is a step of one transition system, and the ledger with the constraints of the tables is
  its invariant.
\<close>

subsection \<open>Paid webhooks\<close>

lemma fulfil_paid_orderD:
  assumes "fulfil_paid_order env new_id i e ts db = Inr (db', r)"
  obtains subtotal oid v amount db1 e1 db2 k g replay e2 where
    "offer_ref e = TOP_UP_OFFER_REF" "event_name e = ''order_created''" "provider_status e = Some ''paid''"
    "subtotal_amount e = Some subtotal" "uuid_of env (order_ref e) = Some oid"
    "dict_get (orders db) oid = Some v" "order_binding e v"
    "amount_from_cents env subtotal = Inr amount" "amount = settlement_amount v"
    "lemon_evidence i e oid (lemon_reference (external_resource_id e)) amount ts db = Inr db1"
    "claim_webhook ts e = Inr e1"
    "apply_verified_top_up new_id (order_grant_command oid v (lemon_reference (external_resource_id e)) ts)
       (mark_paid oid v db1) = Inr (db2, k, g, replay)"
    "mark_webhook_processed ts e1 = Inr e2" "db' = db2\<lparr>inbox := dict_set i e2 (inbox db2)\<rparr>"
    "r = \<lparr>tp_order = oid, tp_grant = k, tp_units = gr_units g, replayed_grant = replay\<rparr>"
proof -
  note assms [unfolded fulfil_paid_order_def ensure_Inr fetch_Inr and_then_Inr raised_Inr refused_as_Inr Let_def
      split_paired_Ex prod.case sum.inject prod.inject]
  then show thesis by (elim exE conjE) (rule that, assumption+, (erule sym)+)
qed

lemma fulfil_paid_order_ledger:
  assumes "ledger db" and "fulfil_paid_order env new_id i e ts db = Inr (db', r)"
  shows "ledger db'"
proof -
  obtain oid v amount db1 db2 k g replay e2 where v: "dict_get (orders db) oid = Some v"
    and evidence: "lemon_evidence i e oid (lemon_reference (external_resource_id e)) amount ts db = Inr db1"
    and grant: "apply_verified_top_up new_id (order_grant_command oid v (lemon_reference (external_resource_id e)) ts)
       (mark_paid oid v db1) = Inr (db2, k, g, replay)"
    and db': "db' = db2\<lparr>inbox := dict_set i e2 (inbox db2)\<rparr>"
    using assms(2) by (elim fulfil_paid_orderD) (rule that, assumption+)
  note db1 = evidence_added_ledger [OF assms(1) lemon_evidence_added [OF evidence]]
  have "ledger db2" by (rule paid_grant_ledger [of db1 oid v, OF _ _ grant]) (simp_all add: db1 v)
  then show ?thesis by (rule ledger_same) (simp add: db')
qed

subsection \<open>Reversals and refunds\<close>

lemma new_reversalD:
  assumes "new_reversal new_id c ts db = Inr (db', k, r, replay)"
  obtains gid g v cycle where
    "(gid, g) \<in> set (grants db)" "gr_order g = rvc_order c"
    "find_row (\<lambda>r. rv_grant r = gid) (reversals db) = None"
    "dict_get (orders db) (rvc_order c) = Some v" "to_state v = TO_Granted"
    "dict_get (cycles db) (gr_cycle g) = Some cycle" "gr_units g \<le> top_up_units cycle"
    "r = reversal_row c ts gid g (used_units cycle \<le> base_limit_units cycle +
        spendable_rollover_units cycle + (top_up_units cycle - gr_units g))"
    "db' = (if rv_outcome r = Reversed
       then db\<lparr>reversals := add_row new_id r (reversals db),
              cycles := dict_set (gr_cycle g) (cycle\<lparr>top_up_units := top_up_units cycle - gr_units g,
                cy_version := cy_version cycle + 1\<rparr>) (cycles db)\<rparr>
       else db\<lparr>reversals := add_row new_id r (reversals db)\<rparr>)"
    "k = new_id" "\<not> replay"
proof -
  obtain gid g where g: "find_row (\<lambda>g. gr_order g = rvc_order c) (grants db) = Some (gid, g)"
    using assms by (auto simp: new_reversal_def)
  from assms g obtain v cycle where
    "find_row (\<lambda>r. rv_grant r = gid) (reversals db) = None"
    "dict_get (orders db) (rvc_order c) = Some v" "to_state v = TO_Granted"
    "dict_get (cycles db) (gr_cycle g) = Some cycle" "gr_units g \<le> top_up_units cycle"
    and r: "r = reversal_row c ts gid g (used_units cycle \<le> base_limit_units cycle +
        spendable_rollover_units cycle + (top_up_units cycle - gr_units g))"
    and db': "db' = (let db1 = db\<lparr>reversals := add_row new_id r (reversals db)\<rparr> in
       if used_units cycle \<le> base_limit_units cycle + spendable_rollover_units cycle + (top_up_units cycle - gr_units g)
       then db1\<lparr>cycles := dict_set (gr_cycle g) (cycle\<lparr>top_up_units := top_up_units cycle - gr_units g,
          cy_version := cy_version cycle + 1\<rparr>) (cycles db)\<rparr> else db1)"
    and "k = new_id" "\<not> replay"
    by (simp add: new_reversal_def) metis
  moreover have "rv_outcome r = Reversed \<longleftrightarrow>
      used_units cycle \<le> base_limit_units cycle + spendable_rollover_units cycle + (top_up_units cycle - gr_units g)"
    by (simp add: r reversal_row_def)
  ultimately show thesis
    using that [of gid g v cycle] find_row_Some [OF g] by (simp add: Let_def)
qed

lemma new_reversal_ledger:
  assumes "ledger db" and "new_reversal new_id c ts db = Inr (db', k, r, replay)"
  shows "ledger db'"
proof -
  obtain gid g cycle where g: "(gid, g) \<in> set (grants db)" "gr_order g = rvc_order c"
    and cycle: "dict_get (cycles db) (gr_cycle g) = Some cycle"
    and r: "r = reversal_row c ts gid g (used_units cycle \<le> base_limit_units cycle +
        spendable_rollover_units cycle + (top_up_units cycle - gr_units g))"
    and db': "db' = (if rv_outcome r = Reversed
       then db\<lparr>reversals := add_row new_id r (reversals db),
              cycles := dict_set (gr_cycle g) (cycle\<lparr>top_up_units := top_up_units cycle - gr_units g,
                cy_version := cy_version cycle + 1\<rparr>) (cycles db)\<rparr>
       else db\<lparr>reversals := add_row new_id r (reversals db)\<rparr>)"
    using assms(2) by (rule new_reversalD)
  have row: "rv_units r = gr_units g" "rv_cycle r = gr_cycle g" "rv_order r = gr_order g" "rv_grant r = gid"
    by (simp_all add: r reversal_row_def g)
  have known: "cycle_known db' j = cycle_known db j" for j
    using cycle by (simp add: db' cycle_known_def dict_simps)
  have "reversed_total j db' = reversed_total j db +
        (if j = gr_cycle g \<and> rv_outcome r = Reversed then gr_units g else 0)"
    "usage_total j db' = usage_total j db" "granted_total j db' = granted_total j db" for j
    by (simp_all add: db' row usage_total_def granted_total_def reversed_total_def)
  then have "cycles_balanced db'"
    using assms(1) cycle by (auto simp: ledger_def cycles_balanced_def db' dict_simps)
  moreover have same: "grants db' = grants db" "orders db' = orders db" "payments db' = payments db"
    "usages db' = usages db" "set (reversals db') = insert (new_id, r) (set (reversals db))"
    by (simp_all add: db')
  then have "usages_known db'" "orders_settled db'" "grant_paid db' h = grant_paid db h"
    "reversal_matches db' x = reversal_matches db x" for h x
    using assms(1) by (simp_all add: ledger_def usages_known_def orders_settled_def grant_paid_def
        reversal_matches_def known)
  moreover have "reversal_matches db r" using g(1) row by (auto simp: reversal_matches_def)
  ultimately show ?thesis using assms(1) by (auto simp: ledger_def same)
qed

lemma reverse_top_up_cases:
  assumes "reverse_top_up_in_uow new_id c db = Inr (db', k, r, replay)"
  obtains (replayed) "replay" and "db' = db" and "(k, r) \<in> set (reversals db)"
    and "provider_event_ref r = rvc_event_ref c" and "rv_order r = rvc_order c"
  | (reversed) ts where "\<not> replay" and "validate_reversal c = Inr ts"
    and "find_row (\<lambda>r. provider_event_ref r = rvc_event_ref c) (reversals db) = None"
    and "new_reversal new_id c ts db = Inr (db', k, r, False)"
proof (cases "find_row (\<lambda>r. provider_event_ref r = rvc_event_ref c) (reversals db)")
  case None
  with assms obtain ts where "validate_reversal c = Inr ts" "new_reversal new_id c ts db = Inr (db', k, r, replay)"
    by (auto simp: reverse_top_up_in_uow_def)
  from this(2) have "\<not> replay" by (elim new_reversalD)
  with None \<open>validate_reversal c = Inr ts\<close> \<open>new_reversal new_id c ts db = Inr (db', k, r, replay)\<close> show thesis
    by (intro reversed) simp_all
next
  case (Some kr)
  obtain i x where [simp]: "kr = (i, x)" by (cases kr)
  from assms Some have "replay" "db' = db" "k = i" "r = x" "rv_order x = rvc_order c"
    by (auto simp: reverse_top_up_in_uow_def)
  moreover from find_row_Some [OF Some [simplified]]
  have "(i, x) \<in> set (reversals db)" "provider_event_ref x = rvc_event_ref c" by simp_all
  ultimately show thesis by (intro replayed) simp_all
qed

lemma reverse_top_up_ledger:
  assumes "ledger db" and "reverse_top_up_in_uow new_id c db = Inr (db', k, r, replay)"
  shows "ledger db'"
  using assms(2)
proof (cases rule: reverse_top_up_cases)
  case replayed
  with assms show ?thesis by simp
next
  case (reversed ts)
  with assms show ?thesis by (blast intro: new_reversal_ledger)
qed

text \<open>A refund settles its webhook and, when it is full, reverses the grant.\<close>

lemma settle_refund_cases:
  assumes "settle_refund env new_id i e oid ts db = Inr (db', res)"
  obtains (partial) e2 where "processing_status e = Hook_Received" and "processing_status e2 = Hook_Processed"
    and "event_name e2 = event_name e" and "db' = db\<lparr>inbox := dict_set i e2 (inbox db)\<rparr>"
    and "rf_reversal res = None" and "\<not> rf_replayed res"
  | (full) db1 k r replay e2 where "processing_status e = Hook_Received"
    and "reverse_top_up_in_uow new_id \<lparr>rvc_order = oid, rvc_event_ref = refund_event_ref e,
           rvc_reason = ''provider_full_refund'', rvc_reversed_at = Aware ts\<rparr> db = Inr (db1, k, r, replay)"
    and "db' = db1\<lparr>inbox := dict_set i e2 (inbox db1)\<rparr>"
    and "e2 = e\<lparr>processing_status := Hook_Processed, attempt_count := attempt_count e + 1,
           claimed_at := Some ts, processed_at := Some ts, rejected_at := None, last_error_code := None\<rparr>"
    and "res = \<lparr>rf_order = oid, rf_outcome = rv_outcome r, rf_reversal = Some k, rf_replayed = replay\<rparr>"
proof -
  obtain refunded charged e1 where e1: "claim_webhook ts e = Inr e1"
    and rest: "finish_refund new_id i e1 oid refunded charged ts db = Inr (db', res)"
    using assms unfolding settle_refund_def ensure_Inr fetch_Inr and_then_Inr by blast
  from e1 have claimed: "processing_status e = Hook_Received"
    "e1 = e\<lparr>processing_status := Hook_Processing, attempt_count := attempt_count e + 1,
        claimed_at := Some ts, last_error_code := None\<rparr>"
    by (auto simp: claim_webhook_def)
  then have marked: "mark_webhook_processed ts e1 = Inr e2 \<longleftrightarrow> rejected_at e = None \<and>
      e2 = e\<lparr>processing_status := Hook_Processed, attempt_count := attempt_count e + 1,
           claimed_at := Some ts, processed_at := Some ts, rejected_at := None, last_error_code := None\<rparr>" for e2
    by (auto simp: mark_webhook_processed_def)
  have ref: "refund_event_ref e1 = refund_event_ref e" by (simp add: claimed refund_event_ref_def)
  show thesis
  proof (cases "provider_status e1 = Some ''partial_refund'' \<and> refunded < charged")
    case True
    with rest obtain e2 where "mark_webhook_processed ts e1 = Inr e2"
      "db' = db\<lparr>inbox := dict_set i e2 (inbox db)\<rparr>" "rf_reversal res = None" "\<not> rf_replayed res"
      by (auto simp: finish_refund_def)
    with claimed marked show thesis by (intro partial [of e2]) simp_all
  next
    case False
    with rest obtain db1 k r replay e2 where
      "reverse_top_up_in_uow new_id \<lparr>rvc_order = oid, rvc_event_ref = refund_event_ref e,
           rvc_reason = ''provider_full_refund'', rvc_reversed_at = Aware ts\<rparr> db = Inr (db1, k, r, replay)"
      "mark_webhook_processed ts e1 = Inr e2" "db' = db1\<lparr>inbox := dict_set i e2 (inbox db1)\<rparr>"
      "res = \<lparr>rf_order = oid, rf_outcome = rv_outcome r, rf_reversal = Some k, rf_replayed = replay\<rparr>"
      by (auto simp: finish_refund_def ref split: if_split_asm)
    with claimed marked show thesis by (intro full [of db1 k r replay e2]) simp_all
  qed
qed

lemma settle_refund_ledger:
  assumes "ledger db" and "settle_refund env new_id i e oid ts db = Inr (db', res)"
  shows "ledger db'"
  using assms(2)
proof (cases rule: settle_refund_cases)
  case (partial e2)
  with assms(1) show ?thesis by (auto intro: ledger_same)
next
  case (full db1 k r replay e2)
  then have "ledger db1" using assms(1) by (blast intro: reverse_top_up_ledger)
  with full(3) show ?thesis by (auto intro: ledger_same)
qed

end
