(* ===== verification/Quota_Runs.thy ===== *)
theory Quota_Runs
  imports Quota_Steps
begin

section \<open>Runs of the commercial services\<close>

text \<open>
  Every operation on the market tables as a step of one state machine, beside the services outside
  this development, which may change plans, subscriptions, runtimes and the inbox in any way the
  constraints allow and may open an empty quota cycle. The invariant: the constraints, the ledger of
  \<open>Quota_Ledger\<close>, and that no delinquency gets beyond its second missed cycle. A step only appends to
  the ledgers and moves an order only forward.
\<close>

subsection \<open>Orders move forward, ledgers grow\<close>

definition order_progress :: "top_up_order \<Rightarrow> top_up_order \<Rightarrow> bool" where
  "order_progress v w \<longleftrightarrow> order_core (w\<lparr>to_state := to_state v\<rparr>) = order_core v \<and>
     (to_state w = to_state v \<or> to_state w = TO_Granted) \<and>
     (checkout_creation_status v \<noteq> Checkout_Not_Started \<longrightarrow> checkout_creation_status w \<noteq> Checkout_Not_Started)"

lemma order_progress_refl [simp]: "order_progress v v"
  by (cases v) (simp add: order_progress_def)

lemma order_progress_granted [simp]: "order_progress v (v\<lparr>to_state := TO_Granted\<rparr>)"
  by (cases v) (simp add: order_progress_def)

lemma order_progress_checkout:
  "order_core w = order_core v \<Longrightarrow> checkout_creation_status w \<noteq> Checkout_Not_Started \<Longrightarrow> order_progress v w"
  by (cases v; cases w) (simp add: order_progress_def order_core_def)

lemma order_progress_trans: "order_progress u v \<Longrightarrow> order_progress v w \<Longrightarrow> order_progress u w"
  by (cases u; cases v; cases w) (auto simp: order_progress_def order_core_def)

definition ledgers_grow :: "market_db \<Rightarrow> market_db \<Rightarrow> bool" where
  "ledgers_grow db db' \<longleftrightarrow> (\<exists>us. usages db' = usages db @ us) \<and> (\<exists>ps. payments db' = payments db @ ps) \<and>
     (\<exists>gs. grants db' = grants db @ gs) \<and> (\<exists>rs. reversals db' = reversals db @ rs) \<and>
     (\<forall>k v. dict_get (orders db) k = Some v \<longrightarrow> (\<exists>w. dict_get (orders db') k = Some w \<and> order_progress v w))"

lemma ledgers_grow_refl [simp]: "ledgers_grow db db"
  by (simp add: ledgers_grow_def)

lemma ledgers_grow_trans:
  assumes "ledgers_grow a b" and "ledgers_grow b c"
  shows "ledgers_grow a c"
  unfolding ledgers_grow_def
proof (intro conjI allI impI)
  show "\<exists>us. usages c = usages a @ us" "\<exists>ps. payments c = payments a @ ps"
    "\<exists>gs. grants c = grants a @ gs" "\<exists>rs. reversals c = reversals a @ rs"
    using assms by (auto simp: ledgers_grow_def)
  fix k v assume "dict_get (orders a) k = Some v"
  with assms show "\<exists>w. dict_get (orders c) k = Some w \<and> order_progress v w"
    unfolding ledgers_grow_def by (meson order_progress_trans)
qed

lemma ledgers_grow_same: "same_ledger db db' \<Longrightarrow> ledgers_grow db db'"
  by (simp add: same_ledger_def ledgers_grow_def)

lemma ledgers_grow_updates [simp]:
  "ledgers_grow (db\<lparr>runtimes := x\<rparr>) d = ledgers_grow db d" "ledgers_grow db (d\<lparr>inbox := i\<rparr>) = ledgers_grow db d"
  "ledgers_grow db (db\<lparr>cycles := c\<rparr>)" "ledgers_grow db (db\<lparr>payments := payments db @ ps\<rparr>)"
  by (simp_all add: ledgers_grow_def)

text \<open>The operations but the reconciliation of provider events also leave the delinquencies alone.\<close>

definition grows :: "market_db \<Rightarrow> market_db \<Rightarrow> bool" where
  "grows db db' \<longleftrightarrow> ledgers_grow db db' \<and> delinquencies db' = delinquencies db"

lemma grows_refl [simp]: "grows db db"
  by (simp add: grows_def)

lemma grows_trans: "grows a b \<Longrightarrow> grows b c \<Longrightarrow> grows a c"
  by (auto simp: grows_def intro: ledgers_grow_trans)

lemma grows_inbox [simp]: "grows db (d\<lparr>inbox := i\<rparr>) = grows db d"
  by (simp add: grows_def)

lemma record_usage_grows: "grows db (snd (record_usage c db))"
proof (cases rule: record_usage_cases [of db c])
  case kept
  then show ?thesis by (simp add: grows_def ledgers_grow_same)
next
  case (charged ts r exp u)
  from charged(4) show ?thesis by (elim charge_usageD) (auto simp: grows_def ledgers_grow_def)
qed

lemma rollover_quota_grows: "grows db (snd (rollover_quota new_id c db))"
proof (cases rule: rollover_quota_cases [of new_id c db])
  case kept
  then show ?thesis by simp
next
  case (rolled source plan spec end_at)
  then show ?thesis by (simp add: grows_def Let_def)
qed

lemma create_order_grows: "grows db (snd (create_order env c db))"
proof (cases rule: create_order_cases [of env c db])
  case kept
  then show ?thesis by simp
next
  case (placed ts v)
  then show ?thesis by (simp add: grows_def ledgers_grow_def dict_get_add_row)
qed

lemma checkout_change_grows: "checkout_change db db' \<Longrightarrow> grows db db'"
  by (auto simp: checkout_change_def checkout_written_def grows_def ledgers_grow_def dict_simps)
    (rule order_progress_checkout, assumption+)

lemma new_grant_grows: "new_grant new_id c ts db = Inr (db', k, g, replay) \<Longrightarrow> grows db db'"
  by (elim new_grantD) (auto simp: grows_def ledgers_grow_def dict_simps add_row_def)

lemma apply_verified_grows: "apply_verified_top_up new_id c db = Inr (db', k, g, replay) \<Longrightarrow> grows db db'"
  by (elim apply_verified_top_up_cases) (auto intro: new_grant_grows)

lemma evidence_added_grows: "evidence_added db db' \<Longrightarrow> grows db db'"
  by (auto simp: evidence_added_def grows_def)

lemma paid_grant_grows:
  assumes "ledger db" and "evidence_added db db1" and "dict_get (orders db) oid = Some v"
    and grant: "apply_verified_top_up new_id (order_grant_command oid v ref ts) (mark_paid oid v db1)
       = Inr (db', k, g, replay)"
  shows "grows db db'"
proof -
  note db1 = evidence_added_ledger [OF assms(1,2)]
  then have v: "dict_get (orders db1) oid = Some v" using assms(3) by simp
  have "grows db1 db'"
    by (rule paid_grant_cases [OF conjunct1 [OF db1] v grant]) (auto intro: new_grant_grows)
  with evidence_added_grows [OF assms(2)] show ?thesis by (rule grows_trans)
qed

lemma new_reversal_grows: "new_reversal new_id c ts db = Inr (db', k, r, replay) \<Longrightarrow> grows db db'"
  by (elim new_reversalD) (auto simp: grows_def ledgers_grow_def add_row_def)

lemma reverse_top_up_grows: "reverse_top_up_in_uow new_id c db = Inr (db', k, r, replay) \<Longrightarrow> grows db db'"
  by (elim reverse_top_up_cases) (auto intro: new_reversal_grows)

lemma settle_refund_grows: "settle_refund env new_id i e oid ts db = Inr (db', res) \<Longrightarrow> grows db db'"
  by (elim settle_refund_cases) (auto dest: reverse_top_up_grows)

lemma fulfil_paid_order_grows:
  assumes "ledger db" and "fulfil_paid_order env new_id i e ts db = Inr (db', r)"
  shows "grows db db'"
proof -
  obtain oid v amount db1 db2 k g replay e2 where v: "dict_get (orders db) oid = Some v"
    and evidence: "lemon_evidence i e oid (lemon_reference (external_resource_id e)) amount ts db = Inr db1"
    and grant: "apply_verified_top_up new_id (order_grant_command oid v (lemon_reference (external_resource_id e)) ts)
       (mark_paid oid v db1) = Inr (db2, k, g, replay)"
    and db': "db' = db2\<lparr>inbox := dict_set i e2 (inbox db2)\<rparr>"
    using assms(2) by (elim fulfil_paid_orderD) (rule that, assumption+)
  from paid_grant_grows [OF assms(1) lemon_evidence_added [OF evidence] v grant] show ?thesis by (simp add: db')
qed

subsection \<open>The webhook processors\<close>

lemma process_paid_cases:
  obtains (kept) "snd (process_paid_webhook env new_id i processed db) = db"
  | (fulfilled) e ts r where "processed = Aware ts" and "dict_get (inbox db) i = Some e"
    and "fulfil_paid_order env new_id i e ts db = Inr (snd (process_paid_webhook env new_id i processed db), r)"
    and "fst (process_paid_webhook env new_id i processed db) = Inr r"
proof (cases "snd (process_paid_webhook env new_id i processed db) = db")
  case True
  then show thesis by (rule kept)
next
  case changed: False
  then obtain ts where ts: "processed = Aware ts"
    by (cases processed) (simp_all add: process_paid_webhook_def)
  note out = commit_changed [OF changed [unfolded process_paid_webhook_def ts timestamp.case], folded ts]
  from out changed ts obtain e r where e: "dict_get (inbox db) i = Some e"
    "fulfil_paid_order env new_id i e ts db = Inr (snd (process_paid_webhook env new_id i processed db), r)"
    "fst (process_paid_webhook env new_id i processed db) = Inr r"
    by (auto simp: process_paid_webhook_def split: if_split_asm)
  with ts show thesis by (intro fulfilled)
qed

lemma process_refund_cases:
  obtains (kept) "snd (process_refund_webhook env new_id i processed db) = db"
  | (settled) e ts oid r where "processed = Aware ts" and "dict_get (inbox db) i = Some e"
    and "settle_refund env new_id i e oid ts db = Inr (snd (process_refund_webhook env new_id i processed db), r)"
    and "fst (process_refund_webhook env new_id i processed db) = Inr r"
proof (cases "snd (process_refund_webhook env new_id i processed db) = db")
  case True
  then show thesis by (rule kept)
next
  case changed: False
  then obtain ts where ts: "processed = Aware ts"
    by (cases processed) (simp_all add: process_refund_webhook_def)
  note out = commit_changed [OF changed [unfolded process_refund_webhook_def ts timestamp.case], folded ts]
  from out changed ts obtain e oid r where e: "dict_get (inbox db) i = Some e"
    "settle_refund env new_id i e oid ts db = Inr (snd (process_refund_webhook env new_id i processed db), r)"
    "fst (process_refund_webhook env new_id i processed db) = Inr r"
    by (auto simp: process_refund_webhook_def Let_def split: if_split_asm)
  with ts show thesis by (intro settled)
qed

subsection \<open>Delinquencies stay early\<close>

definition early_delinquency :: "subscription_delinquency \<Rightarrow> bool" where
  "early_delinquency d \<longleftrightarrow> missed_billing_cycles d \<le> 2 \<and> dl_state d \<in> {Grace_Degraded, Delinquency_Resolved}"

lemma rollover_delinquencies:
  "lock_rollover_for_delinquency sid ts ex db = Inr db' \<Longrightarrow> delinquencies db' = delinquencies db"
  "restore_or_expire_rollover_after_payment sid ts db = Inr db' \<Longrightarrow> delinquencies db' = delinquencies db"
  "expire_overdue_rollover sid ts db = Inr db' \<Longrightarrow> delinquencies db' = delinquencies db"
  by (auto simp: lock_rollover_for_delinquency_def restore_or_expire_rollover_after_payment_def
      expire_overdue_rollover_def)

lemma resolve_early:
  assumes "resolve_payment_delinquency sid customer ts db = Inr db'"
    and "list_all early_delinquency (rows (delinquencies db))"
  shows "list_all early_delinquency (rows (delinquencies db'))"
  using assms
  by (auto simp: resolve_payment_delinquency_def early_delinquency_def rollover_delinquencies
      split: option.splits intro!: list_all_dict_set)

text \<open>A failure keeps a delinquency early or ends its grace.\<close>

lemma payment_failure_early:
  assumes "apply_payment_failure sid customer ts db = Inr (db', d)"
    and "list_all early_delinquency (rows (delinquencies db))" and "dl_grace_until d \<noteq> None"
  shows "list_all early_delinquency (rows (delinquencies db'))"
proof (cases "dict_get (delinquencies db) sid")
  case None
  have "early_delinquency (first_delinquency customer ts)"
    by (simp add: early_delinquency_def first_delinquency_def)
  with None assms show ?thesis
    by (auto simp: apply_payment_failure_def Let_def rollover_delinquencies)
next
  case (Some old)
  with assms have d: "d = repeated_delinquency ts old"
    and db': "db' = db\<lparr>delinquencies := dict_set sid d (delinquencies db)\<rparr>"
    by (auto simp: apply_payment_failure_def Let_def)
  from assms(3) have "early_delinquency d"
    unfolding d repeated_delinquency_def Let_def early_delinquency_def
    by (auto simp: FREEZE_AFTER_MISSED_CYCLES_def PENDING_DELETION_AFTER_MISSED_CYCLES_def split: if_splits)
  then show ?thesis using assms(2) by (simp add: db' list_all_dict_set)
qed

lemma runtime_access_cases:
  assumes "apply_runtime_access b sub e did db = Inr (db', u)"
  obtains (kept) "db' = db"
  | (moved) target ts db1 d r where
    "settle_delinquency (event_name e) (fst sub) (sb_customer (snd sub)) ts db = Inr (db1, d)"
    and "event_name e = ''subscription_payment_failed'' \<Longrightarrow> target = Stage_Grace"
    and "delinquencies db' = delinquencies db1"
    and "runtimes db' = dict_set (fst sub) (moved_runtime target ts d r) (runtimes db1)"
proof (cases "db' = db")
  case True
  then show thesis by (rule kept)
next
  case changed: False
  obtain sid s where sub: "sub = (sid, s)" by (cases sub)
  let ?target = "if event_name e = ''subscription_payment_failed'' then Some Stage_Grace
     else status_stage (sb_status s)"
  from assms changed obtain target where target: "?target = Some target"
    by (cases ?target) (auto simp: apply_runtime_access_def sub)
  with assms changed obtain ts db1 d r where
    "settle_delinquency (event_name e) sid (sb_customer s) ts db = Inr (db1, d)"
    "delinquencies db' = delinquencies db1"
    "runtimes db' = dict_set sid (moved_runtime target ts d r) (runtimes db1)"
    unfolding apply_runtime_access_def sub prod.case target option.case by (auto split: if_split_asm)
  then show thesis using target sub by (intro moved [of ts db1 d target r]) auto
qed

lemma runtime_access_early:
  assumes access: "apply_runtime_access b sub e did db = Inr (db', u)" and "constraints db'"
    and early: "list_all early_delinquency (rows (delinquencies db))"
  shows "list_all early_delinquency (rows (delinquencies db'))"
  using access
proof (cases rule: runtime_access_cases)
  case kept
  with early show ?thesis by simp
next
  case (moved target ts db1 d r)
  show ?thesis
  proof (cases "event_name e = ''subscription_payment_failed''")
    case True
    with moved(1) obtain d' where failure: "d = Some d'"
      "apply_payment_failure (fst sub) (sb_customer (snd sub)) ts db = Inr (db1, d')"
      by (auto simp: settle_delinquency_def)
    have "dict_get (runtimes db') (fst sub) = Some (moved_runtime Stage_Grace ts d r)"
      using True by (simp add: moved dict_simps)
    then have "runtime_ok (moved_runtime Stage_Grace ts d r)"
      using assms(2) by (auto simp: constraints_def dest: list_all_dict_get)
    then have "dl_grace_until d' \<noteq> None"
      by (simp add: runtime_ok_def moved_runtime_def failure(1))
    with failure(2) early show ?thesis by (simp add: moved(3) payment_failure_early)
  next
    case False
    with moved(1) early show ?thesis
      by (auto simp: settle_delinquency_def moved(3) dest: resolve_early split: if_split_asm)
  qed
qed

lemma lifecycle_delinquencies:
  "apply_subscription_lifecycle b e db = Inr (db', sub) \<Longrightarrow> delinquencies db' = delinquencies db"
  by (auto simp: apply_subscription_lifecycle_def Let_def split: option.split_asm)

lemma reconcile_cases:
  obtains (kept) "snd (reconcile_provider_event b e did db) = db"
  | (lifecycle) "apply_subscription_lifecycle b e db = Inr (snd (reconcile_provider_event b e did db), None)"
  | (access) db1 x u where "apply_subscription_lifecycle b e db = Inr (db1, Some x)"
    and "apply_runtime_access b x e did db1 = Inr (snd (reconcile_provider_event b e did db), u)"
    and "constraints (snd (reconcile_provider_event b e did db))"
proof (cases "snd (reconcile_provider_event b e did db) = db")
  case True
  then show thesis by (rule kept)
next
  case False
  note out = commit_changed [OF False [unfolded reconcile_provider_event_def], folded reconcile_provider_event_def]
  then obtain db1 sub where body: "apply_subscription_lifecycle b e db = Inr (db1, sub)"
    "(case sub of None \<Rightarrow> Inr (db1, ()) | Some x \<Rightarrow> apply_runtime_access b x e did db1)
       = Inr (snd (reconcile_provider_event b e did db), ())"
    by auto
  show thesis
  proof (cases sub)
    case None
    with body show thesis by (intro lifecycle) simp
  next
    case (Some x)
    with body out show thesis by (intro access [of db1 x "()"]) auto
  qed
qed

lemma reconcile_same: "same_ledger db (snd (reconcile_provider_event b e did db))"
proof (cases rule: reconcile_cases [of b e did db])
  case kept
  then show ?thesis by simp
next
  case lifecycle
  then show ?thesis by (rule lifecycle_same)
next
  case (access db1 x u)
  from lifecycle_same [OF access(1)] runtime_access_same [OF access(2)] show ?thesis by (rule same_ledger_trans)
qed

lemma reconcile_early:
  assumes "list_all early_delinquency (rows (delinquencies db))"
  shows "list_all early_delinquency (rows (delinquencies (snd (reconcile_provider_event b e did db))))"
proof (cases rule: reconcile_cases [of b e did db])
  case kept
  with assms show ?thesis by simp
next
  case lifecycle
  with assms show ?thesis by (simp add: lifecycle_delinquencies)
next
  case (access db1 x u)
  with assms show ?thesis by (simp add: runtime_access_early lifecycle_delinquencies)
qed

subsection \<open>The state machine\<close>

definition market_inv :: "market_db \<Rightarrow> bool" where
  "market_inv db \<longleftrightarrow> constraints db \<and> ledger db \<and> list_all early_delinquency (rows (delinquencies db))"

definition market_start :: "market_db \<Rightarrow> bool" where
  "market_start db \<longleftrightarrow> constraints db \<and> usages db = [] \<and> orders db = [] \<and> payments db = [] \<and>
     grants db = [] \<and> reversals db = [] \<and> delinquencies db = [] \<and>
     list_all (\<lambda>c. used_units c = 0 \<and> top_up_units c = 0) (rows (cycles db))"

text \<open>The body of the expiry, with the commit of its caller.\<close>

definition expire_rollover :: "uuid \<Rightarrow> datetime \<Rightarrow> unit market_op" where
  "expire_rollover sid ts db = commit db (and_then (expire_overdue_rollover sid ts db) (\<lambda>db'. Inr (db', ())))"

inductive market_step :: "market_env \<Rightarrow> market_db \<Rightarrow> market_db \<Rightarrow> bool" for env where
  step_usage: "market_step env db (snd (record_usage uc db))"
| step_rollover: "market_step env db (snd (rollover_quota new_id rc db))"
| step_reconcile: "market_step env db (snd (reconcile_provider_event b e did db))"
| step_expire: "market_step env db (snd (expire_rollover sid ts db))"
| step_order: "market_step env db (snd (create_order env oc db))"
| step_begin_checkout: "market_step env db (snd (begin_checkout ck db))"
| step_fail_checkout: "market_step env db (snd (fail_checkout oid db))"
| step_finish_checkout: "market_step env db (snd (finish_checkout env ck k url db))"
| step_finish_recovery: "market_step env db (snd (finish_recovery ck x db))"
| step_grant: "market_step env db (snd (grant_top_up new_id gc db))"
| step_tunisia: "market_step env db (snd (verify_tunisia_payment new_id tc db))"
| step_paid: "market_step env db (snd (process_paid_webhook env new_id i processed db))"
| step_reverse: "market_step env db (snd (reverse_top_up new_id rvc db))"
| step_refund: "market_step env db (snd (process_refund_webhook env new_id i processed db))"
| step_others: "constraints (db\<lparr>plans := p, subscriptions := s, runtimes := r, inbox := w\<rparr>) \<Longrightarrow>
    market_step env db (db\<lparr>plans := p, subscriptions := s, runtimes := r, inbox := w\<rparr>)"
| step_open_cycle: "constraints (db\<lparr>cycles := add_row k c (cycles db)\<rparr>) \<Longrightarrow> used_units c = 0 \<Longrightarrow>
    top_up_units c = 0 \<Longrightarrow> market_step env db (db\<lparr>cycles := add_row k c (cycles db)\<rparr>)"

inductive_cases market_stepE: "market_step env db db'"

lemma constraints_kept:
  assumes "constraints db"
  shows "constraints (snd (record_usage uc db))" "constraints (snd (fail_checkout oid db))"
    "constraints (snd (verify_tunisia_payment new_id tc db))"
    "constraints (snd (process_paid_webhook env new_id i processed db))"
    "constraints (snd (process_refund_webhook env new_id i processed db))"
proof -
  show "constraints (snd (record_usage uc db))"
    using assms by (auto simp: record_usage_def commit_def split: sum.split option.split prod.split)
  show "constraints (snd (fail_checkout oid db))"
    using assms by (auto simp: fail_checkout_def commit_def split: option.split)
  show "constraints (snd (verify_tunisia_payment new_id tc db))"
    using assms by (auto simp: verify_tunisia_payment_def commit_def split: sum.split prod.split)
  show "constraints (snd (process_paid_webhook env new_id i processed db))"
    "constraints (snd (process_refund_webhook env new_id i processed db))"
    using assms by (cases processed; simp add: process_paid_webhook_def process_refund_webhook_def commit_constraints)+
qed

lemma commit_grows:
  assumes "\<And>d r. m = Inr (d, r) \<Longrightarrow> grows db d"
  shows "grows db (snd (commit db m))"
  using assms by (cases rule: commit_snd [of db m]) simp_all

lemma expire_rollover_kept:
  "same_ledger db (snd (expire_rollover sid ts db))"
  "delinquencies (snd (expire_rollover sid ts db)) = delinquencies db"
  by (cases rule: commit_snd [of db "and_then (expire_overdue_rollover sid ts db) (\<lambda>db'. Inr (db', ()))"];
      auto simp: expire_rollover_def rollover_changes_same rollover_delinquencies)+

lemma others_grow:
  "grows db (db\<lparr>plans := p, subscriptions := s, runtimes := r\<rparr>)" "grows db (db\<lparr>cycles := t\<rparr>)"
  by (simp_all add: grows_def ledgers_grow_def)

text \<open>What every step does.\<close>

lemma market_step_grows:
  assumes "market_step env db db'" and "ledger db"
  shows "ledgers_grow db db' \<and> (delinquencies db' = delinquencies db \<or>
    (\<exists>b e did. db' = snd (reconcile_provider_event b e did db)))"
proof -
  have grown: ?thesis if "grows db db'" using that by (simp add: grows_def)
  from assms(1) show ?thesis
  proof (cases rule: market_step.cases)
    case (step_reconcile b e did)
    then show ?thesis using reconcile_same by (blast intro: ledgers_grow_same)
  next
    case (step_expire sid ts)
    then show ?thesis by (simp add: expire_rollover_kept ledgers_grow_same)
  next
    case (step_grant new_id gc)
    show ?thesis
      by (rule grown) (simp add: step_grant grant_top_up_def, rule commit_grows, auto dest: apply_verified_grows)
  next
    case (step_tunisia new_id tc)
    show ?thesis
    proof (rule grown, cases rule: verify_tunisia_cases [of new_id tc db])
      case kept
      then show "grows db db'" by (simp add: step_tunisia)
    next
      case (granted ts v db1 k g)
      then show "grows db db'" using assms(2) by (simp add: step_tunisia paid_grant_grows)
    qed
  next
    case (step_paid new_id i processed)
    show ?thesis
    proof (rule grown, cases rule: process_paid_cases [of env new_id i processed db])
      case kept
      then show "grows db db'" by (simp add: step_paid)
    next
      case (fulfilled e ts r)
      with assms(2) show "grows db db'" by (simp add: step_paid fulfil_paid_order_grows)
    qed
  next
    case (step_reverse new_id rvc)
    show ?thesis
      by (rule grown) (simp add: step_reverse reverse_top_up_def, rule commit_grows, auto dest: reverse_top_up_grows)
  next
    case (step_refund new_id i processed)
    show ?thesis
    proof (rule grown, cases rule: process_refund_cases [of env new_id i processed db])
      case kept
      then show "grows db db'" by (simp add: step_refund)
    next
      case (settled e ts oid r)
      then show "grows db db'" by (simp add: step_refund settle_refund_grows)
    qed
  qed (rule grown; simp add: record_usage_grows rollover_quota_grows create_order_grows checkout_change_grows
      begin_checkout_change fail_checkout_change finish_checkout_change finish_recovery_change
      others_grow)+
qed

lemma commit_ledger:
  assumes "ledger db" and "\<And>d r. m = Inr (d, r) \<Longrightarrow> ledger d"
  shows "ledger (snd (commit db m))"
  using assms by (cases rule: commit_snd [of db m]) simp_all

lemma market_step_ledger:
  assumes "market_step env db db'" and "ledger db"
  shows "ledger db'"
  using assms(1)
proof (cases rule: market_step.cases)
  case (step_reconcile b e did)
  with assms(2) show ?thesis by (simp add: ledger_same [OF _ reconcile_same])
next
  case (step_expire sid ts)
  with assms(2) show ?thesis by (simp add: ledger_same [OF _ expire_rollover_kept(1)])
next
  case (step_grant new_id gc)
  then show ?thesis
    by (simp add: grant_top_up_def)
      (rule commit_ledger [OF assms(2)], auto intro: apply_verified_top_up_ledger [OF assms(2)])
next
  case (step_paid new_id i processed)
  then show ?thesis
    by (cases rule: process_paid_cases [of env new_id i processed db])
      (simp_all add: assms(2) fulfil_paid_order_ledger [OF assms(2)])
next
  case (step_reverse new_id rvc)
  then show ?thesis
    by (simp add: reverse_top_up_def)
      (rule commit_ledger [OF assms(2)], auto intro: reverse_top_up_ledger [OF assms(2)])
next
  case (step_refund new_id i processed)
  then show ?thesis
    by (cases rule: process_refund_cases [of env new_id i processed db])
      (simp_all add: assms(2) settle_refund_ledger [OF assms(2)])
next
  case (step_others p s r w)
  then show ?thesis using assms(2) by (auto intro: ledger_same simp: same_ledger_def)
next
  case (step_open_cycle k c)
  then show ?thesis using assms(2) by (simp add: ledger_add_cycle)
qed (simp_all add: assms(2) record_usage_ledger rollover_quota_ledger create_order_ledger verify_tunisia_ledger
    checkout_change_ledger [OF _ begin_checkout_change] checkout_change_ledger [OF _ fail_checkout_change]
    checkout_change_ledger [OF _ finish_checkout_change] checkout_change_ledger [OF _ finish_recovery_change])

lemma market_step_constraints:
  assumes "market_step env db db'" and "constraints db"
  shows "constraints db'"
  using assms
  by (cases rule: market_step.cases)
    (simp_all add: constraints_kept commit_constraints rollover_quota_def reconcile_provider_event_def
      expire_rollover_def create_order_def begin_checkout_def finish_checkout_def finish_recovery_def
      grant_top_up_def reverse_top_up_def)

lemma market_start_ledger: "market_start db \<Longrightarrow> ledger db"
  by (auto simp: market_start_def ledger_def cycles_balanced_def usages_known_def orders_settled_def
      usage_total_def granted_total_def reversed_total_def dest: list_all_dict_get)

interpretation market: transition_system market_start "market_step env" market_inv for env
proof unfold_locales
  show "market_inv db" if "market_start db" for db
    using that market_start_ledger [OF that] by (simp add: market_inv_def market_start_def)
  show "market_inv db'" if "market_inv db" "market_step env db db'" for db db'
    using that market_step_constraints [OF that(2)] market_step_ledger [OF that(2)] market_step_grows [OF that(2)]
    by (auto simp: market_inv_def reconcile_early)
qed

end
