(* ===== verification/Quota_Guards.thy ===== *)
theory Quota_Guards
  imports Quota_Runs
begin

section \<open>The guards of the services imply the constraints of the tables\<close>

text \<open>
  One lemma per kind of write says when it keeps the constraints; then every row a service writes
  after its own checks satisfies them, so that a commit of it does not fail.
\<close>

subsection \<open>Writes that keep the constraints\<close>

lemma map_filter_dict_set:
  "dict_get t k = Some w \<Longrightarrow> f v = f w \<Longrightarrow>
     List.map_filter f (rows (dict_set k v t)) = List.map_filter f (rows t)"
proof (induction t)
  case (Cons kx t)
  then show ?case by (cases kx) (simp add: map_filter_simps split: if_split_asm option.split)
qed simp

lemma map_filter_append: "List.map_filter f (xs @ ys) = List.map_filter f xs @ List.map_filter f ys"
  by (simp add: map_filter_def)

lemma constraints_set_runtime:
  "constraints db \<Longrightarrow> runtime_ok r \<Longrightarrow> constraints (db\<lparr>runtimes := dict_set k r (runtimes db)\<rparr>)"
  by (simp add: constraints_def list_all_dict_set)

lemma constraints_set_cycle:
  assumes "constraints db" and "dict_get (cycles db) k = Some c" and "cycle_ok c'"
    and "cy_subscription c' = cy_subscription c" and "cy_metric c' = cy_metric c"
    and "period_start c' = period_start c" and "cy_source c' = cy_source c"
  shows "constraints (db\<lparr>cycles := dict_set k c' (cycles db)\<rparr>)"
proof -
  have "map (\<lambda>c. (cy_subscription c, cy_metric c, period_start c)) (rows (dict_set k c' (cycles db))) =
      map (\<lambda>c. (cy_subscription c, cy_metric c, period_start c)) (rows (cycles db))"
    by (rule column_dict_set [OF assms(2)]) (simp add: assms)
  with assms(1,3) map_filter_dict_set [where f = cy_source, OF assms(2,7)] show ?thesis
    by (simp add: constraints_def list_all_dict_set)
qed

lemma constraints_add_usage:
  "constraints db \<Longrightarrow> usage_by_key (idempotency_key_hash u) db = None \<Longrightarrow>
     constraints (db\<lparr>usages := usages db @ [u]\<rparr>)"
  by (auto simp: constraints_def usage_by_key_def find_None_iff)

lemma constraints_add_order:
  assumes "constraints db" and "dict_get (orders db) k = None" and "order_ok v" and "provider_checkout_id v = None"
    and "find_row (\<lambda>x. to_idempotency_key x = to_idempotency_key v) (orders db) = None"
  shows "constraints (db\<lparr>orders := add_row k v (orders db)\<rparr>)"
  using assms by (auto simp: constraints_def find_row_None map_filter_append map_filter_simps)

lemma constraints_set_order:
  assumes "constraints db" and old: "dict_get (orders db) k = Some v" and "order_ok w"
    and "to_idempotency_key w = to_idempotency_key v" and "provider_checkout_id w = provider_checkout_id v"
  shows "constraints (db\<lparr>orders := dict_set k w (orders db)\<rparr>)"
  using assms column_dict_set [where f = to_idempotency_key, OF old assms(4)]
    map_filter_dict_set [where f = provider_checkout_id, OF old assms(5)]
  by (simp add: constraints_def list_all_dict_set)

lemma constraints_add_grant:
  assumes "constraints db" and "dict_get (grants db) k = None"
    and "find_row (\<lambda>h. gr_order h = gr_order g) (grants db) = None"
    and "find_row (\<lambda>h. grant_idempotency_key h = grant_idempotency_key g) (grants db) = None"
  shows "constraints (db\<lparr>grants := add_row k g (grants db)\<rparr>)"
  using assms by (auto simp: constraints_def find_row_None)

lemma constraints_add_reversal:
  assumes "constraints db" and "dict_get (reversals db) k = None" and "0 < rv_units r"
    and "find_row (\<lambda>x. provider_event_ref x = provider_event_ref r) (reversals db) = None"
    and "find_row (\<lambda>x. rv_grant x = rv_grant r) (reversals db) = None"
  shows "constraints (db\<lparr>reversals := add_row k r (reversals db)\<rparr>)"
  using assms by (auto simp: constraints_def find_row_None)

lemma row_ok:
  assumes "constraints db"
  shows "dict_get (cycles db) k = Some c \<Longrightarrow> cycle_ok c" "dict_get (runtimes db) j = Some r \<Longrightarrow> runtime_ok r"
    "dict_get (orders db) i = Some v \<Longrightarrow> order_ok v"
  using assms by (auto simp: constraints_def dest: list_all_dict_get)

lemma spendable_bounds: "0 \<le> rollover_units c \<Longrightarrow> 0 \<le> spendable_rollover_units c \<and>
    spendable_rollover_units c \<le> rollover_units c"
  by (simp add: spendable_rollover_units_def)

subsection \<open>Usage\<close>

lemma usage_accessD:
  assumes "usage_access c ts db = Inr (r, expired, allowed)"
  obtains s r0 where "dict_get (subscriptions db) (uc_subscription c) = Some s" "sb_status s = Sub_Active"
    "sb_customer s = uc_customer c" "dict_get (runtimes db) (uc_subscription c) = Some r0"
    "rn_customer r0 = uc_customer c" "advance_expired_runtime_stage r0 ts = Inr (r, expired)"
    "runtime_allows_usage r ts = Inr allowed"
proof -
  obtain s r0 where row: "dict_get (subscriptions db) (uc_subscription c) = Some s" "sb_status s = Sub_Active"
    "sb_customer s = uc_customer c" "dict_get (runtimes db) (uc_subscription c) = Some r0"
    "rn_customer r0 = uc_customer c"
    and body: "(case advance_expired_runtime_stage r0 ts of
         Inl _ \<Rightarrow> Inl (UsageRefused ''grace runtime requires a timezone-aware grace deadline.'')
       | Inr (r', expired) \<Rightarrow> (case runtime_allows_usage r' ts of
           Inl _ \<Rightarrow> Inl (UsageRefused ''grace runtime requires a timezone-aware grace deadline.'')
         | Inr allowed \<Rightarrow> Inr (r', expired, allowed))) = Inr (r, expired, allowed)"
    using assms unfolding usage_access_def ensure_Inr fetch_Inr by blast
  from body obtain r' expired' where advanced: "advance_expired_runtime_stage r0 ts = Inr (r', expired')"
    by (cases "advance_expired_runtime_stage r0 ts") auto
  with body have "r' = r" "expired' = expired" "runtime_allows_usage r ts = Inr allowed"
    by (cases "runtime_allows_usage r' ts"; simp)+
  with row advanced show thesis by (intro that [of s r0]) simp_all
qed

lemma advanced_runtime_ok:
  "advance_expired_runtime_stage r0 ts = Inr (r, expired) \<Longrightarrow> runtime_ok r0 \<Longrightarrow> runtime_ok r"
  by (auto simp: advance_expired_runtime_stage_def runtime_ok_def split: if_split_asm)

lemma charge_usage_constraints:
  assumes "constraints db" and "charge_usage c ts r db = Inr (db', u)" and "0 < uc_units c"
    and "usage_by_key (uc_key_hash c) db = None"
  shows "constraints db'"
  using assms(2)
proof (rule charge_usageD)
  fix cycle :: quota_cycle
  let ?cycle = "cycle\<lparr>used_units := used_units cycle + uc_units c, cy_version := cy_version cycle + 1\<rparr>"
  assume cycle: "dict_get (cycles db) (uc_cycle c) = Some cycle" and units: "uc_units c \<le> available_units cycle"
    and u: "u = usage_row c ts cycle"
    and db': "db' = db\<lparr>cycles := dict_set (uc_cycle c) ?cycle (cycles db), usages := usages db @ [u]\<rparr>"
  note ok = row_ok(1) [OF assms(1) cycle]
  then have "cycle_ok ?cycle" using units assms(3) spendable_bounds [of cycle]
    by (auto simp: cycle_ok_def available_units_def spendable_rollover_units_def max_def split: if_split_asm)
  then have "constraints (db\<lparr>cycles := dict_set (uc_cycle c) ?cycle (cycles db)\<rparr>)"
    by (intro constraints_set_cycle [OF assms(1) cycle]) simp_all
  from constraints_add_usage [OF this, of u] assms(4) show ?thesis
    by (simp add: db' u usage_row_def usage_by_key_def)
qed

text \<open>How an operation fails.\<close>

lemma raise_Inl:
  "ensure b e m = Inl x \<longleftrightarrow> \<not> b \<and> e = x \<or> b \<and> m = Inl x"
  "fetch y e f = Inl x \<longleftrightarrow> y = None \<and> e = x \<or> (\<exists>v. y = Some v \<and> f v = Inl x)"
  "and_then n g = Inl x \<longleftrightarrow> n = Inl x \<or> (\<exists>v. n = Inr v \<and> g v = Inl x)"
  by (auto simp: ensure_def fetch_def and_then_def split: option.splits sum.splits)

lemma never_violates [simp]: "raised m \<noteq> Inl ConstraintViolation" "raise_as (OrderRefused s) m \<noteq> Inl ConstraintViolation"
  by (simp_all add: raised_def raise_as_def split: sum.split)

lemma commit_never_violates:
  assumes "m \<noteq> Inl ConstraintViolation" and "\<And>d r. m = Inr (d, r) \<Longrightarrow> constraints d"
  shows "fst (commit db m) \<noteq> Inl ConstraintViolation"
  using assms by (auto simp: commit_def split: sum.split prod.split)

lemma validate_never_violates [simp]:
  "validate_usage uc \<noteq> Inl ConstraintViolation" "validate_grant gc \<noteq> Inl ConstraintViolation"
  "validate_reversal rc \<noteq> Inl ConstraintViolation" "validate_order_command oc \<noteq> Inl ConstraintViolation"
  by (auto simp: validate_usage_def validate_grant_def validate_reversal_def validate_order_command_def
      raise_Inl split: timestamp.splits)

lemma usage_access_never_violates: "usage_access c ts db \<noteq> Inl ConstraintViolation"
  by (auto simp: usage_access_def raise_Inl split: sum.splits prod.splits)

lemma charge_usage_never_violates: "charge_usage c ts r db \<noteq> Inl ConstraintViolation"
  by (auto simp: charge_usage_def enforce_degraded_grace_cap_def raise_Inl split: if_split_asm)

lemma record_usage_never_violates:
  assumes "constraints db"
  shows "fst (record_usage c db) \<noteq> Inl ConstraintViolation"
proof (cases "validate_usage c")
  case (Inl e)
  then show ?thesis using validate_never_violates(1) [of c] by (simp add: record_usage_def)
next
  case valid: (Inr ts)
  show ?thesis
  proof (cases "usage_by_key (uc_key_hash c) db")
    case (Some u)
    with valid show ?thesis by (simp add: record_usage_def)
  next
    case new: None
    show ?thesis
    proof (cases "usage_access c ts db")
      case (Inl e)
      then show ?thesis using valid new usage_access_never_violates [of c ts db] by (simp add: record_usage_def)
    next
      case (Inr x)
      then obtain r expired allowed where access: "usage_access c ts db = Inr (r, expired, allowed)" by (cases x) auto
      let ?db1 = "db\<lparr>runtimes := dict_set (uc_subscription c) r (runtimes db)\<rparr>"
      have db1: "constraints ?db1"
        using access
      proof (rule usage_accessD)
        fix s r0 assume "dict_get (runtimes db) (uc_subscription c) = Some r0"
          and "advance_expired_runtime_stage r0 ts = Inr (r, expired)"
        with assms show "constraints ?db1"
          by (intro constraints_set_runtime) (auto dest: advanced_runtime_ok row_ok(2))
      qed
      have "fst (commit db (charge_usage c ts r ?db1)) \<noteq> Inl ConstraintViolation"
      proof (rule commit_never_violates [OF charge_usage_never_violates])
        fix d u assume "charge_usage c ts r ?db1 = Inr (d, u)"
        with db1 new validate_usageD [OF valid] show "constraints d"
          by (intro charge_usage_constraints [OF db1]) (simp_all add: usage_by_key_def)
      qed
      then show ?thesis using valid new access db1 by (simp add: record_usage_def commit_def split: prod.split)
    qed
  qed
qed

subsection \<open>Grants and reversals\<close>

lemma order_ok_state [simp]: "order_ok (v\<lparr>to_state := s\<rparr>) = order_ok v"
  by (simp add: order_ok_def split: checkout_channel.split)

lemma new_grant_constraints:
  assumes "constraints db" and grant: "new_grant new_id c ts db = Inr (db', k, g, replay)"
    and "dict_get (grants db) new_id = None" and "find_row (\<lambda>g. gr_order g = gc_order c) (grants db) = None"
  shows "constraints db'"
  using grant
proof (rule new_grantD)
  fix v s spec quote and cycle :: quota_cycle
  let ?g = "grant_row c ts s spec cycle quote"
  let ?cycle = "cycle\<lparr>top_up_units := top_up_units cycle + tq_total_units quote, cy_version := cy_version cycle + 1\<rparr>"
  assume v: "dict_get (orders db) (gc_order c) = Some v" and cycle: "dict_get (cycles db) (gc_cycle c) = Some cycle"
    and units: "0 < tq_total_units quote"
    and key: "find_row (\<lambda>g. grant_idempotency_key g = grant_key (gc_order c)) (grants db) = None"
    and db': "db' = db\<lparr>grants := add_row new_id ?g (grants db), cycles := dict_set (gc_cycle c) ?cycle (cycles db),
       orders := dict_set (gc_order c) (v\<lparr>to_state := TO_Granted\<rparr>) (orders db)\<rparr>"
  let ?db1 = "db\<lparr>grants := add_row new_id ?g (grants db)\<rparr>"
  let ?db2 = "?db1\<lparr>cycles := dict_set (gc_cycle c) ?cycle (cycles db)\<rparr>"
  have "constraints ?db1"
    using assms(1,3,4) key by (intro constraints_add_grant) (simp_all add: grant_row_def)
  moreover have "cycle_ok ?cycle" using row_ok(1) [OF assms(1) cycle] units by (simp add: cycle_ok_def)
  ultimately have "constraints ?db2"
    using constraints_set_cycle [of ?db1 "gc_cycle c" cycle ?cycle] cycle by simp
  then show ?thesis
    using constraints_set_order [of ?db2 "gc_order c" v "v\<lparr>to_state := TO_Granted\<rparr>"] v row_ok(3) [OF assms(1) v]
    by (simp add: db')
qed

lemma new_grant_never_violates: "new_grant new_id c ts db \<noteq> Inl ConstraintViolation"
  by (auto simp: new_grant_def payment_settles_def raise_Inl Let_def)

lemma grant_never_violates:
  assumes "constraints db" and "dict_get (grants db) new_id = None"
  shows "fst (grant_top_up new_id c db) \<noteq> Inl ConstraintViolation"
  unfolding grant_top_up_def
proof (rule commit_never_violates)
  show "apply_verified_top_up new_id c db \<noteq> Inl ConstraintViolation"
    by (auto simp: apply_verified_top_up_def raise_Inl new_grant_never_violates split: option.split_asm)
  fix d r assume "apply_verified_top_up new_id c db = Inr (d, r)"
  then obtain k g replay where "apply_verified_top_up new_id c db = Inr (d, k, g, replay)" by (cases r) auto
  then show "constraints d"
    by (rule apply_verified_top_up_cases) (use assms in \<open>auto intro: new_grant_constraints\<close>)
qed

lemma new_reversal_constraints:
  assumes "constraints db" and reversal: "new_reversal new_id c ts db = Inr (db', k, r, replay)"
    and "dict_get (reversals db) new_id = None" and "\<forall>(i, g) \<in> set (grants db). 0 < gr_units g"
    and "find_row (\<lambda>r. provider_event_ref r = rvc_event_ref c) (reversals db) = None"
  shows "constraints db'"
  using reversal
proof (rule new_reversalD)
  fix gid and g :: top_up_grant and cycle :: quota_cycle
  let ?cycle = "cycle\<lparr>top_up_units := top_up_units cycle - gr_units g, cy_version := cy_version cycle + 1\<rparr>"
  let ?covered = "used_units cycle \<le> base_limit_units cycle + spendable_rollover_units cycle +
     (top_up_units cycle - gr_units g)"
  let ?db1 = "db\<lparr>reversals := add_row new_id r (reversals db)\<rparr>"
  assume g: "(gid, g) \<in> set (grants db)" and once: "find_row (\<lambda>r. rv_grant r = gid) (reversals db) = None"
    and cycle: "dict_get (cycles db) (gr_cycle g) = Some cycle" and units: "gr_units g \<le> top_up_units cycle"
    and r: "r = reversal_row c ts gid g ?covered"
    and db': "db' = (if rv_outcome r = Reversed
       then db\<lparr>reversals := add_row new_id r (reversals db), cycles := dict_set (gr_cycle g) ?cycle (cycles db)\<rparr>
       else ?db1)"
  have row: "rv_units r = gr_units g" "rv_grant r = gid" "provider_event_ref r = rvc_event_ref c"
    "rv_outcome r = Reversed \<longleftrightarrow> ?covered"
    by (simp_all add: r reversal_row_def)
  have "0 < gr_units g" using assms(4) g by auto
  then have db1: "constraints ?db1"
    using assms(1,3,5) once by (intro constraints_add_reversal) (simp_all add: row)
  show ?thesis
  proof (cases "rv_outcome r = Reversed")
    case False
    with db1 show ?thesis by (simp add: db')
  next
    case True
    have "cycle_ok cycle" by (rule row_ok(1) [OF assms(1) cycle])
    then have "cycle_ok ?cycle"
      using True units spendable_bounds [of cycle] by (auto simp: row cycle_ok_def)
    then show ?thesis
      using constraints_set_cycle [of ?db1 "gr_cycle g" cycle ?cycle] db1 cycle True by (simp add: db')
  qed
qed

lemma reverse_never_violates:
  assumes "constraints db" and "ledger db" and "dict_get (reversals db) new_id = None"
  shows "fst (reverse_top_up new_id c db) \<noteq> Inl ConstraintViolation"
  unfolding reverse_top_up_def
proof (rule commit_never_violates)
  show "reverse_top_up_in_uow new_id c db \<noteq> Inl ConstraintViolation"
    by (auto simp: reverse_top_up_in_uow_def new_reversal_def raise_Inl Let_def split: option.split_asm)
  have positive: "\<forall>(i, g) \<in> set (grants db). 0 < gr_units g" using assms(2) by (auto simp: ledger_def grant_paid_def)
  fix d r assume "reverse_top_up_in_uow new_id c db = Inr (d, r)"
  then obtain k x replay where "reverse_top_up_in_uow new_id c db = Inr (d, k, x, replay)" by (cases r) auto
  then show "constraints d"
    by (rule reverse_top_up_cases) (use assms positive in \<open>auto intro: new_reversal_constraints\<close>)
qed

subsection \<open>Quotes and orders\<close>

lemma quantize_cents: "quantize_half_even 2 (of_int k / 100) = of_int k / 100"
  by (simp add: quantize_half_even_def Let_def)

lemma catalog_policies:
  "list_all (\<lambda>p. case top_up_policy_of p of None \<Rightarrow> False
     | Some pol \<Rightarrow> 0 < price_per_bundle_usd pol \<and>
         price_per_bundle_usd pol = of_int \<lfloor>price_per_bundle_usd pol * 100\<rfloor> / 100 \<and> 0 < bundle_units pol \<and>
         0 < minimum_bundle_count pol)
     (map fst top_up_policy_inputs)"
  by code_simp

lemma policy_price:
  assumes "top_up_policy_of p = Some pol"
  obtains k where "0 < k" and "price_per_bundle_usd pol = of_int k / 100" and "0 < bundle_units pol"
    and "0 < minimum_bundle_count pol"
proof -
  have "p \<in> set (map fst top_up_policy_inputs)"
    using assms by (force simp: top_up_policy_of_def split: option.split_asm dest: map_of_SomeD)
  with catalog_policies assms have pol: "0 < price_per_bundle_usd pol"
    "price_per_bundle_usd pol = of_int \<lfloor>price_per_bundle_usd pol * 100\<rfloor> / 100" "0 < bundle_units pol"
    "0 < minimum_bundle_count pol"
    unfolding list_all_iff by (fastforce split: option.split_asm)+
  then have "(0::rat) < of_int \<lfloor>price_per_bundle_usd pol * 100\<rfloor> / 100" by simp
  then have "0 < \<lfloor>price_per_bundle_usd pol * 100\<rfloor>" by (simp only: zero_less_divide_iff of_int_0_less_iff) simp
  then show thesis using pol by (intro that [of "\<lfloor>price_per_bundle_usd pol * 100\<rfloor>"])
qed

lemma quote_base_fields:
  assumes "quote_top_up_base p n = Inr q"
  obtains pol where "top_up_policy_of p = Some pol" and "0 < n"
    and "tq_total_units q = 0 \<or> bundle_units pol * minimum_bundle_count pol \<le> n \<and> n mod bundle_units pol = 0 \<and>
       tq_bundle_count q = n div bundle_units pol \<and> tq_total_units q = n div bundle_units pol * bundle_units pol \<and>
       tq_total_price_usd q = quantize_half_even 2 (price_per_bundle_usd pol * of_int (n div bundle_units pol))"
proof -
  from assms obtain pol where pol: "top_up_policy_of p = Some pol" "0 < n"
    unfolding quote_top_up_base_def fetch_Inr ensure_Inr by blast
  consider "n < bundle_units pol * minimum_bundle_count pol"
    | "\<not> n < bundle_units pol * minimum_bundle_count pol" "bundle_units pol * maximum_bundle_count pol < n"
    | "\<not> n < bundle_units pol * minimum_bundle_count pol" "\<not> bundle_units pol * maximum_bundle_count pol < n"
      "n mod bundle_units pol \<noteq> 0"
    | "\<not> n < bundle_units pol * minimum_bundle_count pol" "\<not> bundle_units pol * maximum_bundle_count pol < n"
      "n mod bundle_units pol = 0"
    by metis
  then show thesis
  proof cases
    case 1
    with assms pol have "tq_total_units q = 0" by (simp add: quote_top_up_base_def) (erule subst, simp)
    with pol show thesis by (intro that) simp_all
  next
    case 2
    with assms pol have "tq_total_units q = 0" by (simp add: quote_top_up_base_def) (erule subst, simp)
    with pol show thesis by (intro that) simp_all
  next
    case 3
    with assms pol have "tq_total_units q = 0" by (simp add: quote_top_up_base_def) (erule subst, simp)
    with pol show thesis by (intro that) simp_all
  next
    case 4
    with assms pol have "tq_bundle_count q = n div bundle_units pol"
      "tq_total_units q = n div bundle_units pol * bundle_units pol"
      "tq_total_price_usd q = quantize_half_even 2 (price_per_bundle_usd pol * of_int (n div bundle_units pol))"
      by (simp_all add: quote_top_up_base_def Let_def) (erule subst, simp)+
    with 4 show thesis by (intro that [OF pol]) (simp only: not_less simp_thms)
  qed
qed

lemma quote_purchasable:
  assumes "quote_top_up_base p n = Inr q" and "0 < tq_total_units q"
  shows "tq_total_units q = n \<and> 0 < tq_bundle_count q \<and> 0 < tq_total_price_usd q"
  using assms(1)
proof (rule quote_base_fields)
  fix pol :: top_up_policy
  let ?count = "n div bundle_units pol"
  assume pol: "top_up_policy_of p = Some pol"
    and fields: "tq_total_units q = 0 \<or> bundle_units pol * minimum_bundle_count pol \<le> n \<and> n mod bundle_units pol = 0 \<and>
       tq_bundle_count q = ?count \<and> tq_total_units q = ?count * bundle_units pol \<and>
       tq_total_price_usd q = quantize_half_even 2 (price_per_bundle_usd pol * of_int ?count)"
  obtain k where k: "0 < k" "price_per_bundle_usd pol = of_int k / 100" "0 < bundle_units pol"
    using pol by (rule policy_price)
  from assms(2) fields have units: "tq_total_units q = ?count * bundle_units pol" "tq_bundle_count q = ?count"
    "n mod bundle_units pol = 0"
    and price: "tq_total_price_usd q = quantize_half_even 2 (price_per_bundle_usd pol * of_int ?count)" by auto
  have "tq_total_units q = n" using units(1,3) by (simp add: mod_0_imp_dvd)
  moreover have "0 < ?count" using assms(2) units(1) k(3) by (simp add: zero_less_mult_iff)
  moreover have "price_per_bundle_usd pol * of_int ?count = of_int (k * ?count) / 100" by (simp add: k(2))
  then have "tq_total_price_usd q = of_int (k * ?count) / 100" by (simp only: price quantize_cents)
  moreover have "0 < k * ?count" using k(1) calculation(2) by simp
  then have "(0::rat) < of_int (k * ?count) / 100" by (simp only: zero_less_divide_iff of_int_0_less_iff) simp
  ultimately show ?thesis by (simp only: units(2) simp_thms)
qed

lemma quote_top_up_Inr:
  "quote_top_up p n = Inr q \<longleftrightarrow> (\<exists>q0. quote_top_up_base p n = Inr q0 \<and>
     q = (if tq_state q0 = Ready_For_Review then q0\<lparr>tq_state := Quote_Disabled\<rparr> else q0))"
  by (simp only: quote_top_up_def and_then_Inr sum.inject eq_commute [of q])

lemma place_order_lemon_ok:
  assumes "place_order env c ts db = Inr v" and "oc_channel c = Lemon_Squeezy"
  shows "order_ok v \<and> to_idempotency_key v = oc_idempotency_key c \<and> provider_checkout_id v = None"
  using assms(1)
proof (rule place_orderD)
  fix s spec quote settlement u
  assume units: "0 < tq_total_units quote" "0 < tq_bundle_count quote"
    and settlement: "settlement_snapshot env c ts (tq_total_price_usd quote) = Inr settlement"
    and valid: "validate_channel_settlement (oc_channel c) (tq_total_price_usd quote) (fst settlement)
       (fst (snd settlement)) (snd (snd settlement)) = Inr u"
    and v: "v = order_row c ts s spec quote settlement"
  from settlement assms(2) have "settlement = (''USD'', tq_total_price_usd quote, None)"
    by (simp add: settlement_snapshot_def)
  then show ?thesis
    using units valid assms(2) by (simp add: v order_row_def order_ok_def validate_channel_settlement_def)
qed

lemma create_order_never_violates:
  assumes "constraints db" and "dict_get (orders db) (oc_order c) = None" and lemon: "oc_channel c = Lemon_Squeezy"
  shows "fst (create_order env c db) \<noteq> Inl ConstraintViolation"
  unfolding create_order_def
proof (rule commit_never_violates, goal_cases)
  case 1
  show ?case
    by (auto simp: raise_Inl place_order_def settlement_snapshot_def lemon split: option.split_asm)
next
  case (2 d r)
  then show ?case
    using assms place_order_lemon_ok [OF _ lemon]
    by (auto intro!: constraints_add_order split: option.split_asm)
qed

subsection \<open>Eligibility and orders agree\<close>

lemma strip_not_blank: "py_strip s \<noteq> [] \<Longrightarrow> \<not> blank (py_strip s)"
proof -
  assume "py_strip s \<noteq> []"
  then have "dropWhile py_isspace (rev (dropWhile py_isspace s)) \<noteq> []" by (simp add: py_strip_def)
  from hd_dropWhile [OF this] hd_in_set [OF this] show ?thesis
    by (auto simp: py_strip_def blank_def list_all_iff)
qed

lemma eligibleD:
  assumes "evaluate_eligibility c db = Inr d"
  obtains ts s plan spec cycle quote where
    "py_strip (ec_customer c) \<noteq> []" "0 < ec_requested_units c" "ec_evaluated_at c = Aware ts"
    "dict_get (subscriptions db) (ec_subscription c) = Some s" "sb_status s = Sub_Active"
    "sb_customer s = py_strip (ec_customer c)" "dict_get (plans db) (sb_plan s) = Some plan"
    "get_plan_fulfillment_spec (pl_plan_code plan) = Some spec"
    "dict_get (cycles db) (ec_cycle c) = Some cycle"
    "cycle_belongs (ec_subscription c) (py_strip (ec_customer c)) cycle" "cycle_is_current ts cycle"
    "cycle_snapshot_matches spec cycle" "consumed_enough cycle"
    "quote_top_up_base (ps_plan_code spec) (ec_requested_units c) = Inr quote"
    "0 < tq_total_units quote" "0 < tq_bundle_count quote"
    "ed_customer d = py_strip (ec_customer c)" "ed_total_units d = tq_total_units quote"
    "ed_bundle_count d = tq_bundle_count quote" "ed_total_price_usd d = tq_total_price_usd quote"
proof -
  from assms obtain ts where ts: "ec_evaluated_at c = Aware ts"
    by (cases "ec_evaluated_at c") (simp_all add: evaluate_eligibility_def Let_def)
  note assms [unfolded evaluate_eligibility_def Let_def ts timestamp.case ensure_Inr fetch_Inr and_then_Inr
      raised_Inr sum.inject quote_top_up_for_runtime_def]
  then show thesis by (elim exE conjE) (rule that, assumption+, rule ts, assumption+, auto)
qed

end
