(* ===== verification/Quota_Properties.thy ===== *)
theory Quota_Properties
  imports Quota_Guards
begin

section \<open>What the commercial services guarantee\<close>

text \<open>
  The properties of the commercial quota: the ledger balances, an order is granted once and only
  for its verified payment, checks of the services imply the constraints of the tables, usage is
  charged once and within the allowance, rollover carries exactly what is left, an eligible customer
  gets the order, a checkout is started once, month boundaries do not drift, and an account in
  arrears is never frozen, although the policy says so.
\<close>

lemma reachable:
  assumes "market.reach env db"
  shows "constraints db" "ledger db" "list_all early_delinquency (rows (delinquencies db))"
  using market.reach_inv [OF assms] by (simp_all add: market_inv_def)

lemma reach_steps: "(market_step env)\<^sup>*\<^sup>* db db' \<Longrightarrow> market.reach env db \<Longrightarrow> market.reach env db'"
  by (induction rule: rtranclp_induct) (auto intro: market.reach_step)

lemma reach_grows:
  assumes "(market_step env)\<^sup>*\<^sup>* db db'" and "market.reach env db"
  shows "ledgers_grow db db'"
  using assms(1)
proof (induction rule: rtranclp_induct)
  case base
  show ?case by simp
next
  case (step a b)
  have "ledger a" using reach_steps [OF step(1) assms(2)] by (rule reachable)
  with step(2) have "ledgers_grow a b" by (blast dest: market_step_grows)
  with step.IH show ?case by (rule ledgers_grow_trans)
qed

subsection \<open>The ledger\<close>

text \<open>C17. In every reachable state the columns of a quota cycle are its books: the used units are the
  sum of the usage rows of the cycle, the top-up units what was granted less what was reversed, both
  are nonnegative, and the used units never exceed base, rollover and top-up together.\<close>

theorem quota_ledger_balances:
  assumes "market.reach env db" and "dict_get (cycles db) k = Some c"
  shows "used_units c = usage_total k db \<and> top_up_units c = granted_total k db - reversed_total k db \<and>
    0 \<le> top_up_units c \<and> 0 \<le> used_units c \<and>
    used_units c \<le> base_limit_units c + rollover_units c + top_up_units c"
  using reachable(2) [OF assms(1)] row_ok(1) [OF reachable(1) [OF assms(1)] assms(2)] assms(2)
  by (simp add: ledger_def cycles_balanced_def cycle_ok_def)

lemma same_row:
  assumes "distinct (map f (rows t))" and "(i, x) \<in> set t" and "(j, y) \<in> set t" and "f x = f y"
  shows "i = j \<and> x = y"
proof -
  have "inj_on (\<lambda>r. f (snd r)) (set t)" using assms(1) by (simp add: distinct_map comp_def)
  from inj_onD [OF this _ assms(2,3)] assms(4) show ?thesis by simp
qed

text \<open>C18. In every reachable state every grant belongs to an order in the state granted, for the same
  units and cycle, and to a verified payment of exactly the settlement amount and currency of that
  order; no two grants share an order or a payment reference; a grant has at most one reversal, for
  exactly its units and its cycle.\<close>

theorem grants_paid_once:
  assumes "market.reach env db" and "(i, g) \<in> set (grants db)"
  shows "(\<exists>v p. dict_get (orders db) (gr_order g) = Some v \<and> to_state v = TO_Granted \<and>
      requested_units v = gr_units g \<and> to_cycle v = gr_cycle g \<and>
      p \<in> set (payments db) \<and> pe_order p = gr_order g \<and> pe_provider_reference p = gr_provider_reference g \<and>
      pe_outcome p = Payment_Verified \<and> verified_amount p = Some (settlement_amount v) \<and>
      verified_currency p = Some (py_upper (py_strip (settlement_currency v)))) \<and>
    (\<forall>(j, h) \<in> set (grants db). gr_order h = gr_order g \<or> gr_provider_reference h = gr_provider_reference g \<longrightarrow>
      j = i \<and> h = g) \<and>
    (\<forall>(m, x) \<in> set (reversals db). rv_grant x = i \<longrightarrow> rv_units x = gr_units g \<and> rv_cycle x = gr_cycle g \<and>
      (\<forall>(n, y) \<in> set (reversals db). rv_grant y = i \<longrightarrow> n = m \<and> y = x))"
proof (intro conjI ballI)
  note ok = reachable(1) [OF assms(1)] and ledger = reachable(2) [OF assms(1)]
  have paid: "grant_paid db f" if "(l, f) \<in> set (grants db)" for l f
    using that ledger by (auto simp: ledger_def)
  from paid [OF assms(2)] show "\<exists>v p. dict_get (orders db) (gr_order g) = Some v \<and> to_state v = TO_Granted \<and>
      requested_units v = gr_units g \<and> to_cycle v = gr_cycle g \<and>
      p \<in> set (payments db) \<and> pe_order p = gr_order g \<and> pe_provider_reference p = gr_provider_reference g \<and>
      pe_outcome p = Payment_Verified \<and> verified_amount p = Some (settlement_amount v) \<and>
      verified_currency p = Some (py_upper (py_strip (settlement_currency v)))"
    unfolding grant_paid_def by blast
  have once: "j = i \<and> h = g" if h: "(j, h) \<in> set (grants db)"
    and eq: "gr_order h = gr_order g \<or> gr_provider_reference h = gr_provider_reference g" for j h
  proof -
    obtain p q where p: "p \<in> set (payments db)" "pe_order p = gr_order g" "pe_provider_reference p = gr_provider_reference g"
      and q: "q \<in> set (payments db)" "pe_order q = gr_order h" "pe_provider_reference q = gr_provider_reference h"
      using paid [OF assms(2)] paid [OF h] unfolding grant_paid_def by blast
    have "inj_on pe_provider_reference (set (payments db))" using ok by (simp add: constraints_def distinct_map)
    from inj_onD [OF this _ p(1) q(1)] eq p q have "gr_order h = gr_order g" by auto
    moreover have "distinct (map gr_order (rows (grants db)))" using ok by (simp add: constraints_def)
    ultimately show ?thesis using same_row [OF _ h assms(2)] by blast
  qed
  fix x assume x: "x \<in> set (grants db)"
  show "case x of (j, h) \<Rightarrow> gr_order h = gr_order g \<or> gr_provider_reference h = gr_provider_reference g \<longrightarrow>
      j = i \<and> h = g"
    using once x by (cases x) simp
next
  note ok = reachable(1) [OF assms(1)] and ledger = reachable(2) [OF assms(1)]
  fix r assume r: "r \<in> set (reversals db)"
  obtain m x where mx: "r = (m, x)" by (cases r)
  have "rv_units x = gr_units g \<and> rv_cycle x = gr_cycle g" if grant: "rv_grant x = i"
  proof -
    have "reversal_matches db x" using r mx ledger by (auto simp: ledger_def)
    then obtain f where f: "(i, f) \<in> set (grants db)" "rv_units x = gr_units f" "rv_cycle x = gr_cycle f"
      using grant unfolding reversal_matches_def by blast
    have "dict_ok (grants db)" using ok by (simp add: constraints_def)
    with f(1) assms(2) have "f = g" by (meson eq_key_imp_eq_value)
    with f show ?thesis by simp
  qed
  moreover have "n = m \<and> y = x" if "(n, y) \<in> set (reversals db)" "rv_grant y = rv_grant x" for n y
  proof (rule same_row [OF _ that(1) _ that(2)])
    show "distinct (map rv_grant (rows (reversals db)))" using ok by (simp add: constraints_def)
    show "(m, x) \<in> set (reversals db)" using r mx by simp
  qed
  ultimately show "case r of (m, x) \<Rightarrow> rv_grant x = i \<longrightarrow> rv_units x = gr_units g \<and> rv_cycle x = gr_cycle g \<and>
      (\<forall>(n, y) \<in> set (reversals db). rv_grant y = i \<longrightarrow> n = m \<and> y = x)"
    by (auto simp: mx)
qed

text \<open>The checks of the services are complete: from a reachable state, with identifiers that are
  not in use, recording usage, placing an order through Lemon Squeezy, granting a top-up and reversing
  one never fail at their commit for a constraint of the tables.\<close>

theorem guards_imply_constraints:
  assumes "market.reach env db" and "dict_get (orders db) (oc_order oc) = None"
    and "oc_channel oc = Lemon_Squeezy" and "dict_get (grants db) gid = None"
    and "dict_get (reversals db) rid = None"
  shows "fst (record_usage uc db) \<noteq> Inl ConstraintViolation \<and>
    fst (create_order env oc db) \<noteq> Inl ConstraintViolation \<and>
    fst (grant_top_up gid gc db) \<noteq> Inl ConstraintViolation \<and>
    fst (reverse_top_up rid rvc db) \<noteq> Inl ConstraintViolation"
  using reachable [OF assms(1)] assms(2-5)
  by (simp_all add: record_usage_never_violates create_order_never_violates grant_never_violates
      reverse_never_violates)

subsection \<open>Usage\<close>

lemma usage_by_key_in:
  assumes "distinct (map idempotency_key_hash (usages db))" and "u \<in> set (usages db)"
  shows "usage_by_key (idempotency_key_hash u) db = Some u"
proof (cases "usage_by_key (idempotency_key_hash u) db")
  case None
  with assms(2) show ?thesis by (auto simp: usage_by_key_def find_None_iff)
next
  case (Some x)
  then have "x \<in> set (usages db)" "idempotency_key_hash x = idempotency_key_hash u"
    unfolding usage_by_key_def by (auto dest: find_SomeD)
  with assms have "x = u" by (auto simp: distinct_map dest: inj_onD)
  with Some show ?thesis by simp
qed

lemma record_usage_recorded:
  assumes "record_usage c db = (Inr u, db')"
  obtains ts where "validate_usage c = Inr ts" and "u \<in> set (usages db')"
    and "idempotency_key_hash u = uc_key_hash c" and "usage_replay_matches c ts u"
proof -
  from assms obtain ts where ts: "validate_usage c = Inr ts"
    by (cases "validate_usage c") (simp_all add: record_usage_def)
  show thesis
  proof (cases "usage_by_key (uc_key_hash c) db")
    case (Some x)
    with assms ts have "x = u" "db' = db" "usage_replay_matches c ts u"
      by (auto simp: record_usage_def split: if_split_asm)
    with Some ts show thesis by (auto simp: usage_by_key_def dest: find_SomeD intro: that)
  next
    case new: None
    show thesis
    proof (cases "usage_access c ts db")
      case (Inl e)
      with assms ts new show thesis by (simp add: record_usage_def)
    next
      case (Inr x)
      then obtain r expired allowed where access: "usage_access c ts db = Inr (r, expired, allowed)" by (cases x) auto
      let ?db1 = "db\<lparr>runtimes := dict_set (uc_subscription c) r (runtimes db)\<rparr>"
      from assms ts new access have "allowed"
        by (auto simp: record_usage_def split: if_split_asm prod.split_asm sum.split_asm)
      with assms ts new access have "commit db (charge_usage c ts r ?db1) = (Inr u, db')"
        by (simp add: record_usage_def)
      from commit_Inr [OF this] have "charge_usage c ts r ?db1 = Inr (db', u)" by auto
      then show thesis
        by (elim charge_usageD) (rule that [OF ts]; simp add: usage_row_def usage_replay_matches_def)
    qed
  qed
qed

text \<open>C36. Usage is charged once: after a successful call, whatever steps run in between, the same
  command returns the same ledger row and changes nothing.\<close>

theorem usage_charged_once:
  assumes "market.reach env db" and "record_usage c db = (Inr u, db1)" and "(market_step env)\<^sup>*\<^sup>* db1 db2"
  shows "record_usage c db2 = (Inr u, db2)"
proof -
  obtain ts where ts: "validate_usage c = Inr ts" and u: "u \<in> set (usages db1)"
    "idempotency_key_hash u = uc_key_hash c" "usage_replay_matches c ts u"
    using assms(2) by (rule record_usage_recorded)
  have "market_step env db db1" using step_usage [of env db c] assms(2) by simp
  with assms(1) have reach1: "market.reach env db1" by (rule market.reach_step)
  have "ledgers_grow db1 db2" using assms(3) reach1 by (rule reach_grows)
  with u(1) have "u \<in> set (usages db2)" by (auto simp: ledgers_grow_def)
  moreover have "distinct (map idempotency_key_hash (usages db2))"
    using reachable(1) [OF reach_steps [OF assms(3) reach1]] by (simp add: constraints_def)
  ultimately have "usage_by_key (uc_key_hash c) db2 = Some u" using usage_by_key_in [of db2 u] u(2) by simp
  with ts u(3) show ?thesis by (simp add: record_usage_def)
qed

text \<open>C37. When a command with a new idempotency key is recorded, the subscription is active and
  belongs to the customer, the time lies in the cycle, the units fit into what the cycle has left
  without locked or expired rollover, exactly one row with these units is added and the cycle is
  charged with them; and the runtime is active, or it is in a grace period and the usage since the
  start of that period stays within the percentage of the base that the delinquency leaves.\<close>

theorem usage_within_allowance:
  assumes "record_usage c db = (Inr u, db')" and "usage_by_key (uc_key_hash c) db = None"
  shows "\<exists>ts s r cycle. uc_occurred_at c = Aware ts \<and>
    dict_get (subscriptions db) (uc_subscription c) = Some s \<and> sb_status s = Sub_Active \<and>
    sb_customer s = uc_customer c \<and> dict_get (cycles db) (uc_cycle c) = Some cycle \<and>
    cy_subscription cycle = uc_subscription c \<and> period_start cycle \<le> ts \<and> ts < period_end cycle \<and>
    used_units cycle + uc_units c \<le> base_limit_units cycle + spendable_rollover_units cycle + top_up_units cycle \<and>
    dict_get (cycles db') (uc_cycle c) = Some (cycle\<lparr>used_units := used_units cycle + uc_units c,
      cy_version := cy_version cycle + 1\<rparr>) \<and>
    usages db' = usages db @ [u] \<and> cu_units u = uc_units c \<and> 0 < uc_units c \<and>
    dict_get (runtimes db') (uc_subscription c) = Some r \<and>
    (rn_stage r = Stage_Active \<or> rn_stage r = Stage_Grace \<and>
      (\<exists>d started until. dict_get (delinquencies db) (uc_subscription c) = Some d \<and> dl_state d = Grace_Degraded \<and>
         grace_started_at d = Some started \<and> dl_grace_until d = Some until \<and> started \<le> ts \<and> ts < until \<and>
         sum_units_since (uc_cycle c) started db' \<le> base_limit_units cycle * grace_usage_percent d div 100))"
proof -
  obtain ts where ts: "validate_usage c = Inr ts"
    using assms(1) by (cases "validate_usage c") (simp_all add: record_usage_def)
  with assms obtain r expired allowed where access: "usage_access c ts db = Inr (r, expired, allowed)"
    by (cases "usage_access c ts db") (simp_all add: record_usage_def, metis prod_cases3)
  let ?db1 = "db\<lparr>runtimes := dict_set (uc_subscription c) r (runtimes db)\<rparr>"
  from assms ts access have allowed: "allowed"
    by (auto simp: record_usage_def split: if_split_asm prod.split_asm sum.split_asm)
  with assms ts access have "commit db (charge_usage c ts r ?db1) = (Inr u, db')"
    by (simp add: record_usage_def)
  from commit_Inr [OF this] have "charge_usage c ts r ?db1 = Inr (db', u)" by auto
  then obtain cycle where cycle: "dict_get (cycles db) (uc_cycle c) = Some cycle"
    "cy_subscription cycle = uc_subscription c" "period_start cycle \<le> ts" "ts < period_end cycle"
    and cap: "rn_stage r = Stage_Grace \<Longrightarrow> enforce_degraded_grace_cap c ts cycle r ?db1 = Inr ()"
    and units: "uc_units c \<le> available_units cycle" and u: "u = usage_row c ts cycle"
    and db': "db' = ?db1\<lparr>cycles := dict_set (uc_cycle c)
           (cycle\<lparr>used_units := used_units cycle + uc_units c, cy_version := cy_version cycle + 1\<rparr>) (cycles db),
         usages := usages db @ [u]\<rparr>"
    by (elim charge_usageD) simp
  obtain s where s: "dict_get (subscriptions db) (uc_subscription c) = Some s" "sb_status s = Sub_Active"
    "sb_customer s = uc_customer c" and stage: "runtime_allows_usage r ts = Inr True"
    using access allowed by (elim usage_accessD) simp
  note valid = validate_usageD [OF ts]
  have "used_units cycle + uc_units c \<le> base_limit_units cycle + spendable_rollover_units cycle + top_up_units cycle"
    using units valid by (simp add: available_units_def max_def split: if_split_asm)
  moreover have "rn_stage r = Stage_Active \<or> rn_stage r = Stage_Grace"
    using stage by (cases "rn_stage r") (simp_all add: runtime_allows_usage_def)
  moreover have "\<exists>d started until. dict_get (delinquencies db) (uc_subscription c) = Some d \<and> dl_state d = Grace_Degraded \<and>
         grace_started_at d = Some started \<and> dl_grace_until d = Some until \<and> started \<le> ts \<and> ts < until \<and>
         sum_units_since (uc_cycle c) started db' \<le> base_limit_units cycle * grace_usage_percent d div 100"
    if "rn_stage r = Stage_Grace"
    using cap [OF that]
    by (auto simp: enforce_degraded_grace_cap_def sum_units_since_def db' u usage_row_def)
  moreover have "dict_get (runtimes db') (uc_subscription c) = Some r"
    "dict_get (cycles db') (uc_cycle c) = Some (cycle\<lparr>used_units := used_units cycle + uc_units c,
      cy_version := cy_version cycle + 1\<rparr>)" "usages db' = usages db @ [u]" "cu_units u = uc_units c"
    by (simp_all add: db' u usage_row_def dict_simps)
  ultimately show ?thesis using valid s cycle by blast
qed

subsection \<open>Rollover\<close>

lemma find_row_add_row:
  "find_row P (add_row k v t) = (case find_row P t of Some y \<Rightarrow> Some y | None \<Rightarrow> if P v then Some (k, v) else None)"
  by (induction t) (auto simp: find_row_def add_row_def)

lemma metric_code_normal [simp]: "normalize_maestro_metric_code QUOTA_METRIC_CODE = QUOTA_METRIC_CODE"
  by code_simp

lemma commit_unchanged [simp]: "commit db (Inr (db, r)) = (Inr r, db)"
  by (simp add: commit_def)

lemma rollover_quotaD:
  assumes "rollover_quota new_id c db = (Inr (k, x), db')"
    and "find_row (\<lambda>x. cy_source x = Some (rc_source c)) (cycles db) = None"
  obtains start end_at s anchor plan spec source where "validate_rollover c = Inr (start, end_at)"
    "dict_get (subscriptions db) (rc_subscription c) = Some s" "sb_status s = Sub_Active"
    "sb_starts_at s = Some anchor" "dict_get (plans db) (sb_plan s) = Some plan"
    "get_plan_fulfillment_spec (pl_plan_code plan) = Some spec"
    "normalize_maestro_metric_code (rc_metric c) = QUOTA_METRIC_CODE"
    "rc_base_limit c = monthly_unit_allowance spec"
    "next_anchored_month_boundary (Aware start) (dt_day anchor) = Inr end_at"
    "dict_get (cycles db) (rc_source c) = Some source" "period_end source = start"
    "x = rolled_cycle c start end_at (sb_customer s) spec plan source" "k = new_id"
    "db' = db\<lparr>cycles := add_row new_id x (cycles db)\<rparr>"
proof -
  from commit_Inr [OF assms(1) [unfolded rollover_quota_def]] assms(2)
  obtain start end_at s anchor plan spec source where "validate_rollover c = Inr (start, end_at)"
    "dict_get (subscriptions db) (rc_subscription c) = Some s" "sb_status s = Sub_Active"
    "sb_starts_at s = Some anchor" "dict_get (plans db) (sb_plan s) = Some plan"
    "get_plan_fulfillment_spec (pl_plan_code plan) = Some spec"
    "normalize_maestro_metric_code (rc_metric c) = QUOTA_METRIC_CODE"
    "rc_base_limit c = monthly_unit_allowance spec"
    "next_anchored_month_boundary (Aware start) (dt_day anchor) = Inr end_at"
    "dict_get (cycles db) (rc_source c) = Some source" "period_end source = start"
    "x = rolled_cycle c start end_at (sb_customer s) spec plan source" "k = new_id"
    "db' = db\<lparr>cycles := add_row new_id x (cycles db)\<rparr>"
    by (auto simp: Let_def split: prod.split_asm)
  then show thesis by (rule that)
qed

text \<open>C38. When a cycle is rolled over, the new cycle begins where its source ends, has what the source
  has left of base and spendable rollover, its whole base, and no top-up units, which never roll over;
  asking again at once returns the same cycle and changes nothing.\<close>

theorem rollover_carries_unused:
  assumes "market.reach env db" and "rollover_quota new_id c db = (Inr (k, x), db')"
    and "find_row (\<lambda>x. cy_source x = Some (rc_source c)) (cycles db) = None"
  shows "\<exists>source. dict_get (cycles db) (rc_source c) = Some source \<and> k = new_id \<and>
    cycles db' = cycles db @ [(new_id, x)] \<and> period_start x = period_end source \<and>
    rollover_units x = max (base_limit_units source + spendable_rollover_units source - used_units source) 0 \<and>
    rollover_units x \<le> base_limit_units source + rollover_units source \<and>
    top_up_units x = 0 \<and> available_units x = base_limit_units x + rollover_units x \<and>
    rollover_quota other_id c db' = (Inr (new_id, x), db')"
proof -
  obtain start end_at s anchor plan spec source where body: "validate_rollover c = Inr (start, end_at)"
    "dict_get (subscriptions db) (rc_subscription c) = Some s" "sb_status s = Sub_Active"
    "sb_starts_at s = Some anchor" "dict_get (plans db) (sb_plan s) = Some plan"
    "get_plan_fulfillment_spec (pl_plan_code plan) = Some spec"
    "normalize_maestro_metric_code (rc_metric c) = QUOTA_METRIC_CODE"
    "rc_base_limit c = monthly_unit_allowance spec"
    "next_anchored_month_boundary (Aware start) (dt_day anchor) = Inr end_at"
    and source: "dict_get (cycles db) (rc_source c) = Some source" "period_end source = start"
    and x: "x = rolled_cycle c start end_at (sb_customer s) spec plan source" and k: "k = new_id"
    and db': "db' = db\<lparr>cycles := add_row new_id x (cycles db)\<rparr>"
    using assms(2,3) by (rule rollover_quotaD)
  have "cycle_ok source" by (rule row_ok(1) [OF reachable(1) [OF assms(1)] source(1)])
  then have "rollover_units x = max (base_limit_units source + spendable_rollover_units source - used_units source) 0"
    "rollover_units x \<le> base_limit_units source + rollover_units source"
    using spendable_bounds [of source]
    by (simp_all add: x rolled_cycle_def rollover_eligible_units_def cycle_ok_def max_def)
  moreover have "0 \<le> base_limit_units x + rollover_units x"
    using body(1,8) calculation(1) by (auto simp: validate_rollover_def x rolled_cycle_def split: timestamp.split_asm)
  then have "available_units x = base_limit_units x + rollover_units x"
    by (simp add: available_units_def spendable_rollover_units_def x rolled_cycle_def)
  ultimately have left: "rollover_units x = max (base_limit_units source + spendable_rollover_units source -
      used_units source) 0 \<and> rollover_units x \<le> base_limit_units source + rollover_units source \<and>
      available_units x = base_limit_units x + rollover_units x" by blast
  have "find_row (\<lambda>x. cy_source x = Some (rc_source c)) (cycles db') = Some (new_id, x)"
    using assms(3) by (simp add: db' find_row_add_row) (simp add: x rolled_cycle_def)
  moreover have "subscriptions db' = subscriptions db" "plans db' = plans db"
    "rollover_replay_matches c start end_at (ps_plan_code spec) x"
    using body(8) by (simp_all add: db' x rolled_cycle_def rollover_replay_matches_def)
  ultimately have "rollover_quota other_id c db' = (Inr (new_id, x), db')"
    using body unfolding rollover_quota_def by (simp add: raised_def)
  moreover have "cycles db' = cycles db @ [(new_id, x)]" "period_start x = period_end source" "top_up_units x = 0"
    using source by (simp_all add: db' add_row_def x rolled_cycle_def)
  ultimately show ?thesis using source(1) k left by blast
qed

subsection \<open>Orders and checkouts\<close>

lemma USD_normal [simp]: "py_upper (py_strip ''USD'') = ''USD''"
  by code_simp

text \<open>What the eligibility service offers the order service accepts: in a reachable state, a
  customer found eligible who orders through Lemon Squeezy at the evaluated time, with an unused order
  id and an unused nonblank idempotency key, gets the order for the quoted units and price.\<close>

theorem eligible_order_accepted:
  assumes "market.reach env db" and "evaluate_eligibility ec db = Inr d"
    and "dict_get (orders db) oid = None" and "\<not> blank key"
    and "find_row (\<lambda>v. to_idempotency_key v = key) (orders db) = None"
  shows "\<exists>v. create_order env
      \<lparr>oc_order = oid, oc_customer = ed_customer d, oc_subscription = ec_subscription ec, oc_cycle = ec_cycle ec,
       oc_requested_units = ec_requested_units ec, oc_channel = Lemon_Squeezy, oc_idempotency_key = key,
       oc_created_at = ec_evaluated_at ec\<rparr> db = (Inr (oid, v, False), db\<lparr>orders := orders db @ [(oid, v)]\<rparr>) \<and>
    to_state v = TO_Awaiting_Payment \<and> requested_units v = ed_total_units d \<and>
    bundle_count v = ed_bundle_count d \<and> total_price_usd v = ed_total_price_usd d \<and>
    settlement_currency v = ''USD'' \<and> settlement_amount v = ed_total_price_usd d"
proof -
  let ?oc = "\<lparr>oc_order = oid, oc_customer = ed_customer d, oc_subscription = ec_subscription ec, oc_cycle = ec_cycle ec,
     oc_requested_units = ec_requested_units ec, oc_channel = Lemon_Squeezy, oc_idempotency_key = key,
     oc_created_at = ec_evaluated_at ec\<rparr>"
  obtain ts s plan spec cycle quote where customer: "py_strip (ec_customer ec) \<noteq> []" "0 < ec_requested_units ec"
    and ts: "ec_evaluated_at ec = Aware ts"
    and rows: "dict_get (subscriptions db) (ec_subscription ec) = Some s" "sb_status s = Sub_Active"
    "sb_customer s = py_strip (ec_customer ec)" "dict_get (plans db) (sb_plan s) = Some plan"
    "get_plan_fulfillment_spec (pl_plan_code plan) = Some spec" "dict_get (cycles db) (ec_cycle ec) = Some cycle"
    "cycle_belongs (ec_subscription ec) (py_strip (ec_customer ec)) cycle" "cycle_is_current ts cycle"
    "cycle_snapshot_matches spec cycle" "consumed_enough cycle"
    and quote: "quote_top_up_base (ps_plan_code spec) (ec_requested_units ec) = Inr quote"
    "0 < tq_total_units quote" "0 < tq_bundle_count quote"
    and d: "ed_customer d = py_strip (ec_customer ec)" "ed_total_units d = tq_total_units quote"
    "ed_bundle_count d = tq_bundle_count quote" "ed_total_price_usd d = tq_total_price_usd quote"
    using assms(2) by (rule eligibleD)
  note price = quote_purchasable [OF quote(1,2)]
  let ?quote = "if tq_state quote = Ready_For_Review then quote\<lparr>tq_state := Quote_Disabled\<rparr> else quote"
  have final: "quote_top_up (ps_plan_code spec) (ec_requested_units ec) = Inr ?quote"
    using quote(1) by (simp only: quote_top_up_Inr) blast
  have fields: "tq_total_units ?quote = tq_total_units quote" "tq_bundle_count ?quote = tq_bundle_count quote"
    "tq_total_price_usd ?quote = tq_total_price_usd quote" by simp_all
  let ?v = "order_row ?oc ts s spec ?quote (''USD'', tq_total_price_usd quote, None)"
  have place: "place_order env ?oc ts db = Inr ?v"
    using rows price quote(2,3)
    by (simp add: place_order_def d(1) final raised_def fields settlement_snapshot_def validate_channel_settlement_def
        raise_as_def del: if_split)
  moreover have "validate_order_command ?oc = Inr ts"
    using assms(4) customer strip_not_blank [OF customer(1)] by (simp add: validate_order_command_def d(1) ts)
  moreover have "constraints (db\<lparr>orders := add_row oid ?v (orders db)\<rparr>)"
    using place_order_lemon_ok [OF place] assms(3,5)
    by (intro constraints_add_order [OF reachable(1) [OF assms(1)]]) simp_all
  ultimately have "create_order env ?oc db = (Inr (oid, ?v, False), db\<lparr>orders := orders db @ [(oid, ?v)]\<rparr>)"
    using assms(5) by (simp add: create_order_def commit_def add_row_def del: if_split)
  moreover have "to_state ?v = TO_Awaiting_Payment \<and> requested_units ?v = ed_total_units d \<and>
    bundle_count ?v = ed_bundle_count d \<and> total_price_usd ?v = ed_total_price_usd d \<and>
    settlement_currency ?v = ''USD'' \<and> settlement_amount ?v = ed_total_price_usd d"
    by (simp only: order_row_def top_up_order.simps d fields) simp
  ultimately show ?thesis by blast
qed

text \<open>C39. A checkout of an order is started at most once: after a successful start every later start for
  the same order, whatever steps ran in between and whatever variant or customer it names, fails and
  changes nothing, so that the provider is not asked again.\<close>

theorem checkout_started_once:
  assumes "market.reach env db" and "begin_checkout ck db = (Inr amount, db1)"
    and "(market_step env)\<^sup>*\<^sup>* db1 db2" and "ck_order again = ck_order ck"
  shows "\<exists>e. begin_checkout again db2 = (Inl e, db2)"
proof -
  from commit_Inr [OF assms(2) [unfolded begin_checkout_def]]
  obtain v where v: "dict_get (orders db) (ck_order ck) = Some v"
    and body: "(case checkout_creation_status v of
        Checkout_Ready \<Rightarrow> Inl (CheckoutRefused
          (if provider_variant_id v \<noteq> Some (ck_variant ck) then ''checkout replay conflicts with the bound variant.''
           else if provider_checkout_id v \<in> {None, Some []} then ''ready checkout is missing provider checkout id.''
           else ''checkout already exists; retrieve it from the provider instead of creating another.''))
      | Checkout_Creating \<Rightarrow> Inl (CheckoutRefused ''checkout creation state is uncertain; reconciliation is required.'')
      | Checkout_Uncertain \<Rightarrow> Inl (CheckoutRefused ''checkout creation state is uncertain; reconciliation is required.'')
      | Checkout_Not_Started \<Rightarrow>
          Inr (db\<lparr>orders := dict_set (ck_order ck)
                 (v\<lparr>provider_variant_id := Some (ck_variant ck), checkout_creation_status := Checkout_Creating\<rparr>)
                 (orders db)\<rparr>, total_price_usd v)) = Inr (db1, amount)"
    unfolding ensure_Inr fetch_Inr and_then_Inr by blast
  from body have db1: "db1 = db\<lparr>orders := dict_set (ck_order ck) (v\<lparr>provider_variant_id := Some (ck_variant ck),
       checkout_creation_status := Checkout_Creating\<rparr>) (orders db)\<rparr>"
    by (cases "checkout_creation_status v") simp_all
  have "market_step env db db1" using step_begin_checkout [of env db ck] assms(2) by simp
  with assms(1) have "market.reach env db1" by (rule market.reach_step)
  with assms(3) have "ledgers_grow db1 db2" by (rule reach_grows)
  moreover obtain w1 where "dict_get (orders db1) (ck_order ck) = Some w1" "checkout_creation_status w1 = Checkout_Creating"
    by (simp add: db1 dict_simps)
  ultimately obtain w where w: "dict_get (orders db2) (ck_order again) = Some w"
    "checkout_creation_status w \<noteq> Checkout_Not_Started"
    unfolding ledgers_grow_def order_progress_def assms(4) by (metis checkout_status.distinct(1))
  then show ?thesis
    by (cases "checkout_creation_status w")
      (auto simp: begin_checkout_def commit_def ensure_def fetch_def and_then_def split: sum.split)
qed

subsection \<open>Months and arrears\<close>

text \<open>Month boundaries do not drift: \<open>n\<close> steps from boundary to boundary with the day of the
  activation as anchor end where adding \<open>n\<close> months to the activation ends, at a later valid time.\<close>

theorem anchored_months_do_not_drift:
  assumes "valid_datetime v" and "1 \<le> n"
  shows "((\<lambda>m. and_then m (\<lambda>d. next_anchored_month_boundary (Aware d) (dt_day v))) ^^ n) (Inr v) =
      add_calendar_months (Aware v) (int n) \<and>
    (\<exists>w. add_calendar_months (Aware v) (int n) = Inr w \<and> valid_datetime w \<and> v < w)"
  using assms(2)
proof (induction n rule: nat_induct_at_least)
  have day: "1 \<le> dt_day v" "dt_day v \<le> 31"
    using assms(1) days_in_month_bounds(3) [of "dt_year v" "dt_month v"] by (simp_all add: valid_datetime_def)
  case base
  show ?case
    using day assms(1) by (simp add: add_calendar_months_def next_anchored_month_boundary_def
        valid_month_at month_at_later)
next
  have day: "1 \<le> dt_day v" "dt_day v \<le> 31"
    using assms(1) days_in_month_bounds(3) [of "dt_year v" "dt_month v"] by (simp_all add: valid_datetime_def)
  case (Suc n)
  let ?w = "month_at v (dt_month v - 1 + int n) (dt_day v)"
  from Suc have w: "add_calendar_months (Aware v) (int n) = Inr ?w" "valid_datetime ?w" "v < ?w"
    by (simp_all add: add_calendar_months_def)
  have next_month: "month_at ?w (dt_month ?w) (dt_day v) = month_at v (dt_month v - 1 + int (Suc n)) (dt_day v)"
    using month_at_month_at [of v "dt_month v - 1 + int n" "dt_day v" "dt_day v"] by (simp add: algebra_simps)
  have "?w < month_at v (dt_month v - 1 + int (Suc n)) (dt_day v)"
    using month_at_later [OF w(2), of "dt_day v"] by (simp only: next_month)
  with w(3) have "v < month_at v (dt_month v - 1 + int (Suc n)) (dt_day v)" by (rule less_trans)
  moreover have "add_calendar_months (Aware v) (int (Suc n)) = Inr (month_at v (dt_month v - 1 + int (Suc n)) (dt_day v))"
    by (simp add: add_calendar_months_def)
  moreover have "((\<lambda>m. and_then m (\<lambda>d. next_anchored_month_boundary (Aware d) (dt_day v))) ^^ Suc n) (Inr v) =
      Inr (month_at ?w (dt_month ?w) (dt_day v))"
    using Suc w(1) day by (simp add: next_anchored_month_boundary_def)
  ultimately show ?case using valid_month_at [OF assms(1) day(1)] by (simp only: next_month) blast
qed

text \<open>C40. The policy freezes an account after three missed cycles and marks it for deletion after six.
  It never happens: in every reachable state every delinquency is in its grace or resolved, with less
  than three missed cycles, because the commit of the third failure breaks the constraint that a
  runtime in grace has a deadline.\<close>

theorem accounts_never_frozen:
  assumes "market.reach env db" and "dict_get (delinquencies db) sid = Some d"
  shows "missed_billing_cycles d < FREEZE_AFTER_MISSED_CYCLES \<and>
    (dl_state d = Grace_Degraded \<or> dl_state d = Delinquency_Resolved)"
  using list_all_dict_get [OF reachable(3) [OF assms(1)] assms(2)]
  by (simp add: early_delinquency_def FREEZE_AFTER_MISSED_CYCLES_def)

end
