(* ===== verification/Quota_Examples.thy ===== *)
theory Quota_Examples
  imports Quota_Properties
begin

section \<open>The commercial services on concrete inputs\<close>

text \<open>
  A customer of the plan \<open>starter\<close> uses nine tenths of a month, orders a top-up, pays it and is
  granted the units; the states of this run are reachable, and the properties of \<open>Quota_Properties\<close>
  are applied to them. Then the month ends and rolls over, and a second run misses its payments.
\<close>

subsection \<open>A customer, a cycle and a runtime\<close>

definition ex_env :: market_env where
  "ex_env = \<lparr>uuid_of = (\<lambda>s. if length s = 4 then Some s else None),
     decimal_of = (\<lambda>s. if s = ''5900'' then Some 5900 else None),
     local_tunisia_eligible = None, exchange_rate_provider = None\<rparr>"

definition ex_day :: "int \<Rightarrow> int \<Rightarrow> datetime" where
  "ex_day m d = DateTime 2026 m d 0"

definition ex_cycle :: "int \<Rightarrow> int \<Rightarrow> int \<Rightarrow> quota_cycle" where
  "ex_cycle used topped changes = \<lparr>cy_subscription = ''sub1'', cy_source = None, cy_customer = ''acme'',
     cy_plan_code = ''starter'', cy_catalog_version = PLAN_FULFILLMENT_CATALOG_VERSION,
     cy_entitlements = [], cy_quota_profile = ''q'', cy_metric = ''maestro_units'',
     period_start = ex_day 1 31, period_end = ex_day 2 28, base_limit_units = 10000, rollover_units = 0,
     top_up_units = topped, cy_rollover_status = Rollover_Available, rollover_expires_at = None,
     rollover_locked_at = None, rollover_restored_at = None, rollover_expired_at = None,
     used_units = used, cy_version = changes\<rparr>"

definition ex_runtime :: subscription_runtime where
  "ex_runtime = \<lparr>rn_customer = ''acme'', rn_stage = Stage_Active, rn_version = 0,
     rn_effective_at = ex_day 1 31, rn_grace_until = None, rn_suspended_at = None, rn_terminated_at = None\<rparr>"

definition ex_subscription :: market_subscription where
  "ex_subscription = \<lparr>sb_customer = ''acme'', sb_plan = ''plan'', sb_order = None, sb_offer = None,
     sb_status = Sub_Active, sb_starts_at = Some (ex_day 1 31), sb_ends_at = None\<rparr>"

definition ex_db0 :: market_db where
  "ex_db0 = \<lparr>plans = [(''plan'', \<lparr>pl_plan_code = ''starter'', pl_quota_profile = ''q''\<rparr>)],
     subscriptions = [(''sub1'', ex_subscription)], runtimes = [(''sub1'', ex_runtime)], delinquencies = [],
     cycles = [(''cyc1'', ex_cycle 0 0 0)], usages = [], orders = [], payments = [], grants = [],
     reversals = [], inbox = [], transitions = []\<rparr>"

lemma ex_market_start: "market_start ex_db0"
  by code_simp

lemma ex_reach0: "market.reach ex_env ex_db0"
  using ex_market_start by (rule market.reach_start)

subsection \<open>Usage, an order and its checkout\<close>

definition ex_usage :: usage_command where
  "ex_usage = \<lparr>uc_subscription = ''sub1'', uc_cycle = ''cyc1'', uc_customer = ''acme'',
     uc_metric = ''maestro_units'', uc_units = 9000, uc_key_hash = replicate 64 CHR ''k'',
     uc_dimensions = replicate 64 CHR ''d'', uc_occurred_at = Aware (ex_day 2 1)\<rparr>"

definition ex_row :: cycle_usage where
  "ex_row = usage_row ex_usage (ex_day 2 1) (ex_cycle 0 0 0)"

definition ex_db1 :: market_db where
  "ex_db1 = ex_db0\<lparr>cycles := [(''cyc1'', ex_cycle 9000 0 1)], usages := [ex_row]\<rparr>"

lemma ex_usage_runs: "record_usage ex_usage ex_db0 = (Inr ex_row, ex_db1)"
  by code_simp

definition ex_order_command :: "string \<Rightarrow> order_command" where
  "ex_order_command key = \<lparr>oc_order = ''ord1'', oc_customer = ''acme'', oc_subscription = ''sub1'',
     oc_cycle = ''cyc1'', oc_requested_units = 10000, oc_channel = Lemon_Squeezy,
     oc_idempotency_key = key, oc_created_at = Aware (ex_day 2 2)\<rparr>"

definition ex_order :: "string option \<Rightarrow> checkout_status \<Rightarrow> top_up_order_state \<Rightarrow> top_up_order" where
  "ex_order variant status state = \<lparr>to_customer = ''acme'', to_subscription = ''sub1'', to_cycle = ''cyc1'',
     to_plan_code = ''starter'', to_catalog_version = PLAN_FULFILLMENT_CATALOG_VERSION,
     requested_units = 10000, bundle_count = 1, total_price_usd = 59, settlement_currency = ''USD'',
     settlement_amount = 59, to_exchange_rate = None, to_channel = Lemon_Squeezy,
     provider_variant_id = variant, provider_checkout_id = None, checkout_creation_status = status,
     to_idempotency_key = ''key'', to_state = state, to_created_at = ex_day 2 2\<rparr>"

definition ex_db2 :: market_db where
  "ex_db2 = ex_db1\<lparr>orders := [(''ord1'', ex_order None Checkout_Not_Started TO_Awaiting_Payment)]\<rparr>"

lemma ex_order_runs:
  "create_order ex_env (ex_order_command ''key'') ex_db1 =
     (Inr (''ord1'', ex_order None Checkout_Not_Started TO_Awaiting_Payment, False), ex_db2)"
  by code_simp

definition ex_checkout :: checkout_command where
  "ex_checkout = \<lparr>ck_order = ''ord1'', ck_customer = ''acme'', ck_variant = ''7'', ck_store = ''1'',
     ck_success_url = ''https://maestro''\<rparr>"

definition ex_db3 :: market_db where
  "ex_db3 = ex_db2\<lparr>orders := [(''ord1'', ex_order (Some ''7'') Checkout_Creating TO_Awaiting_Payment)]\<rparr>"

lemma ex_checkout_runs: "begin_checkout ex_checkout ex_db2 = (Inr 59, ex_db3)"
  by code_simp

subsection \<open>The payment and its grant\<close>

definition ex_hook :: "webhook_status \<Rightarrow> webhook_entry" where
  "ex_hook status = \<lparr>payload_digest = ''digest'', event_name = ''order_created'', resource_type = ''orders'',
     external_resource_id = ''ext1'', wh_customer = ''acme'', order_ref = ''ord1'',
     offer_ref = TOP_UP_OFFER_REF, processing_status = status,
     attempt_count = (if status = Hook_Received then 0 else 1),
     provider_order_id = Some ''ext1'', provider_subscription_id = None, variant_id = Some ''7'',
     wh_currency = Some ''USD'', subtotal_amount = Some ''5900'', total_amount = Some ''5900'',
     refunded_amount = None, provider_status = Some ''paid'', provider_effective_at = None,
     claimed_at = (if status = Hook_Received then None else Some (ex_day 2 3)),
     processed_at = (if status = Hook_Received then None else Some (ex_day 2 3)),
     rejected_at = None, last_error_code = None\<rparr>"

definition ex_db4 :: market_db where
  "ex_db4 = ex_db3\<lparr>plans := plans ex_db3, subscriptions := subscriptions ex_db3, runtimes := runtimes ex_db3,
     inbox := [(''hook'', ex_hook Hook_Received)]\<rparr>"

definition ex_payment :: payment_evidence where
  "ex_payment = \<lparr>pe_order = ''ord1'', pe_provider_reference = ''lemon_squeezy:order:ext1'',
     pe_outcome = Payment_Verified, verified_amount = Some 59, verified_currency = Some ''USD'',
     immutable_evidence_reference = Some ''ls-inbox:hook:digest'', pe_created_at = ex_day 2 3\<rparr>"

definition ex_grant :: top_up_grant where
  "ex_grant = \<lparr>gr_order = ''ord1'', gr_subscription = ''sub1'', gr_cycle = ''cyc1'', gr_customer = ''acme'',
     gr_plan_code = ''starter'', gr_catalog_version = PLAN_FULFILLMENT_CATALOG_VERSION, gr_units = 10000,
     grant_idempotency_key = ''subscription-top-up:ord1'', gr_provider_reference = ''lemon_squeezy:order:ext1'',
     granted_at = ex_day 2 3, gr_expires_at = ex_day 2 28\<rparr>"

definition ex_db5 :: market_db where
  "ex_db5 = ex_db4\<lparr>cycles := [(''cyc1'', ex_cycle 9000 10000 2)],
     orders := [(''ord1'', ex_order (Some ''7'') Checkout_Creating TO_Granted)], payments := [ex_payment],
     grants := [(''gra1'', ex_grant)], inbox := [(''hook'', ex_hook Hook_Processed)]\<rparr>"

lemma ex_paid_runs:
  "process_paid_webhook ex_env ''gra1'' ''hook'' (Aware (ex_day 2 3)) ex_db4 =
     (Inr \<lparr>tp_order = ''ord1'', tp_grant = ''gra1'', tp_units = 10000, replayed_grant = False\<rparr>, ex_db5)"
  by code_simp

lemma ex_market_steps:
  "market_step ex_env ex_db0 ex_db1" "market_step ex_env ex_db1 ex_db2" "market_step ex_env ex_db2 ex_db3"
  "market_step ex_env ex_db3 ex_db4" "market_step ex_env ex_db4 ex_db5"
proof -
  show "market_step ex_env ex_db0 ex_db1" using step_usage [of ex_env ex_db0 ex_usage] by (simp add: ex_usage_runs)
  show "market_step ex_env ex_db1 ex_db2"
    using step_order [of ex_env ex_db1 "ex_order_command ''key''"] by (simp add: ex_order_runs)
  show "market_step ex_env ex_db2 ex_db3"
    using step_begin_checkout [of ex_env ex_db2 ex_checkout] by (simp add: ex_checkout_runs)
  have "constraints ex_db4" by code_simp
  then show "market_step ex_env ex_db3 ex_db4" unfolding ex_db4_def by (rule step_others)
  show "market_step ex_env ex_db4 ex_db5"
    using step_paid [of ex_env ex_db4 "''gra1''" "''hook''" "Aware (ex_day 2 3)"] by (simp add: ex_paid_runs)
qed

lemma ex_reach:
  "market.reach ex_env ex_db1" "market.reach ex_env ex_db2" "market.reach ex_env ex_db3"
  "market.reach ex_env ex_db4" "market.reach ex_env ex_db5"
proof -
  show r1: "market.reach ex_env ex_db1" using ex_reach0 ex_market_steps(1) by (rule market.reach_step)
  show r2: "market.reach ex_env ex_db2" using r1 ex_market_steps(2) by (rule market.reach_step)
  show r3: "market.reach ex_env ex_db3" using r2 ex_market_steps(3) by (rule market.reach_step)
  show r4: "market.reach ex_env ex_db4" using r3 ex_market_steps(4) by (rule market.reach_step)
  show "market.reach ex_env ex_db5" using r4 ex_market_steps(5) by (rule market.reach_step)
qed

lemma ex_market_run: "(market_step ex_env)\<^sup>*\<^sup>* ex_db1 ex_db5" "(market_step ex_env)\<^sup>*\<^sup>* ex_db3 ex_db5"
  using ex_market_steps by (meson converse_rtranclp_into_rtranclp rtranclp.rtrancl_refl)+

subsection \<open>The properties at this run\<close>

lemma quota_ledger_balances_witness:
  "used_units (ex_cycle 9000 10000 2) = usage_total ''cyc1'' ex_db5 \<and>
    top_up_units (ex_cycle 9000 10000 2) = granted_total ''cyc1'' ex_db5 - reversed_total ''cyc1'' ex_db5 \<and>
    0 \<le> top_up_units (ex_cycle 9000 10000 2) \<and> 0 \<le> used_units (ex_cycle 9000 10000 2) \<and>
    used_units (ex_cycle 9000 10000 2) \<le> base_limit_units (ex_cycle 9000 10000 2) +
      rollover_units (ex_cycle 9000 10000 2) + top_up_units (ex_cycle 9000 10000 2) \<and>
    usage_total ''cyc1'' ex_db5 = 9000 \<and> granted_total ''cyc1'' ex_db5 = 10000"
proof -
  have "dict_get (cycles ex_db5) ''cyc1'' = Some (ex_cycle 9000 10000 2)" by code_simp
  moreover have "usage_total ''cyc1'' ex_db5 = 9000 \<and> granted_total ''cyc1'' ex_db5 = 10000" by code_simp
  ultimately show ?thesis using quota_ledger_balances [OF ex_reach(5)] by blast
qed

lemma grants_paid_once_witness:
  "\<exists>v p. dict_get (orders ex_db5) ''ord1'' = Some v \<and> to_state v = TO_Granted \<and>
      requested_units v = 10000 \<and> to_cycle v = ''cyc1'' \<and> p \<in> set (payments ex_db5) \<and>
      pe_order p = ''ord1'' \<and> pe_provider_reference p = ''lemon_squeezy:order:ext1'' \<and>
      pe_outcome p = Payment_Verified \<and> verified_amount p = Some (settlement_amount v) \<and>
      verified_currency p = Some (py_upper (py_strip (settlement_currency v)))"
proof -
  have "(''gra1'', ex_grant) \<in> set (grants ex_db5)" by (simp add: ex_db5_def)
  from grants_paid_once [OF ex_reach(5) this] show ?thesis by (simp add: ex_grant_def)
qed

lemma guards_imply_constraints_witness:
  "fst (record_usage ex_usage ex_db1) \<noteq> Inl ConstraintViolation \<and>
    fst (create_order ex_env (ex_order_command ''key'') ex_db1) \<noteq> Inl ConstraintViolation \<and>
    fst (grant_top_up ''gra1'' (order_grant_command ''ord1'' (ex_order None Checkout_Ready TO_Granted) ''r'' (ex_day 2 3))
      ex_db1) \<noteq> Inl ConstraintViolation \<and>
    fst (reverse_top_up ''rev1'' \<lparr>rvc_order = ''ord1'', rvc_event_ref = ''e'', rvc_reason = ''refund'',
      rvc_reversed_at = Aware (ex_day 2 4)\<rparr> ex_db1) \<noteq> Inl ConstraintViolation"
proof (rule guards_imply_constraints [OF ex_reach(1)])
  show "dict_get (orders ex_db1) (oc_order (ex_order_command ''key'')) = None" by code_simp
  show "oc_channel (ex_order_command ''key'') = Lemon_Squeezy" by code_simp
  show "dict_get (grants ex_db1) ''gra1'' = None" by code_simp
  show "dict_get (reversals ex_db1) ''rev1'' = None" by code_simp
qed

lemma usage_charged_once_witness: "record_usage ex_usage ex_db5 = (Inr ex_row, ex_db5)"
  using ex_reach0 ex_usage_runs ex_market_run(1) by (rule usage_charged_once)

lemma usage_within_allowance_witness:
  "\<exists>ts s r cycle. uc_occurred_at ex_usage = Aware ts \<and>
    dict_get (subscriptions ex_db0) (uc_subscription ex_usage) = Some s \<and> sb_status s = Sub_Active \<and>
    sb_customer s = uc_customer ex_usage \<and> dict_get (cycles ex_db0) (uc_cycle ex_usage) = Some cycle \<and>
    used_units cycle + uc_units ex_usage \<le>
      base_limit_units cycle + spendable_rollover_units cycle + top_up_units cycle \<and>
    dict_get (cycles ex_db1) (uc_cycle ex_usage) = Some (cycle\<lparr>used_units := used_units cycle + uc_units ex_usage,
      cy_version := cy_version cycle + 1\<rparr>) \<and>
    usages ex_db1 = usages ex_db0 @ [ex_row] \<and> cu_units ex_row = uc_units ex_usage \<and>
    dict_get (runtimes ex_db1) (uc_subscription ex_usage) = Some r"
proof -
  have "usage_by_key (uc_key_hash ex_usage) ex_db0 = None" by code_simp
  from usage_within_allowance [OF ex_usage_runs this] show ?thesis by blast
qed

subsection \<open>The next month\<close>

definition ex_rollover :: rollover_command where
  "ex_rollover = \<lparr>rc_subscription = ''sub1'', rc_source = ''cyc1'', rc_metric = ''maestro_units'',
     rc_period_start = Aware (ex_day 2 28), rc_period_end = Aware (ex_day 3 31), rc_base_limit = 10000\<rparr>"

definition ex_rolled :: quota_cycle where
  "ex_rolled = snd (Sum_Type.projr (fst (rollover_quota ''cyc2'' ex_rollover ex_db5)))"

definition ex_db6 :: market_db where
  "ex_db6 = snd (rollover_quota ''cyc2'' ex_rollover ex_db5)"

lemma ex_rollover_runs: "rollover_quota ''cyc2'' ex_rollover ex_db5 = (Inr (''cyc2'', ex_rolled), ex_db6)"
  by code_simp

lemma rollover_carries_unused_witness:
  "(\<exists>source. dict_get (cycles ex_db5) ''cyc1'' = Some source \<and> cycles ex_db6 = cycles ex_db5 @ [(''cyc2'', ex_rolled)] \<and>
      period_start ex_rolled = period_end source \<and> top_up_units ex_rolled = 0 \<and>
      rollover_units ex_rolled = max (base_limit_units source + spendable_rollover_units source - used_units source) 0) \<and>
    rollover_quota ''cyc3'' ex_rollover ex_db6 = (Inr (''cyc2'', ex_rolled), ex_db6) \<and> rollover_units ex_rolled = 1000"
proof -
  have "find_row (\<lambda>x. cy_source x = Some (rc_source ex_rollover)) (cycles ex_db5) = None" by code_simp
  moreover have "rollover_units ex_rolled = 1000" by code_simp
  moreover have "rc_source ex_rollover = ''cyc1''" by code_simp
  ultimately show ?thesis
    using rollover_carries_unused [OF ex_reach(5) ex_rollover_runs, of "''cyc3''"] by auto
qed

subsection \<open>Eligibility and checkout\<close>

definition ex_eligibility :: eligibility_command where
  "ex_eligibility = \<lparr>ec_customer = '' acme'', ec_subscription = ''sub1'', ec_cycle = ''cyc1'',
     ec_requested_units = 10000, ec_billing_period = ''monthly'', ec_evaluated_at = Aware (ex_day 2 2)\<rparr>"

definition ex_decision :: eligibility_decision where
  "ex_decision = \<lparr>ed_customer = ''acme'', ed_plan_code = ''starter'', ed_billing_period = ''monthly'',
     monthly_base_units = 10000, monthly_used_units = 9000, minimum_used_units = 8000, ed_bundle_count = 1,
     ed_total_units = 10000, ed_total_price_usd = 59, ed_quote_state = Ready_For_Review\<rparr>"

lemma ex_eligible: "evaluate_eligibility ex_eligibility ex_db1 = Inr ex_decision"
  by code_simp

lemma eligible_order_accepted_witness:
  "\<exists>v. create_order ex_env
      \<lparr>oc_order = ''ord1'', oc_customer = ed_customer ex_decision, oc_subscription = ec_subscription ex_eligibility,
       oc_cycle = ec_cycle ex_eligibility, oc_requested_units = ec_requested_units ex_eligibility,
       oc_channel = Lemon_Squeezy, oc_idempotency_key = ''key'', oc_created_at = ec_evaluated_at ex_eligibility\<rparr> ex_db1 =
      (Inr (''ord1'', v, False), ex_db1\<lparr>orders := orders ex_db1 @ [(''ord1'', v)]\<rparr>) \<and>
    to_state v = TO_Awaiting_Payment \<and> requested_units v = ed_total_units ex_decision \<and>
    bundle_count v = ed_bundle_count ex_decision \<and> total_price_usd v = ed_total_price_usd ex_decision \<and>
    settlement_currency v = ''USD'' \<and> settlement_amount v = ed_total_price_usd ex_decision"
proof (rule eligible_order_accepted [OF ex_reach(1) ex_eligible])
  show "dict_get (orders ex_db1) ''ord1'' = None" by code_simp
  show "\<not> blank ''key''" by code_simp
  show "find_row (\<lambda>v. to_idempotency_key v = ''key'') (orders ex_db1) = None" by code_simp
qed

lemma checkout_started_once_witness: "\<exists>e. begin_checkout ex_checkout ex_db5 = (Inl e, ex_db5)"
  using ex_reach(2) ex_checkout_runs ex_market_run(2) refl by (rule checkout_started_once)

subsection \<open>Months and missed payments\<close>

lemma anchored_months_do_not_drift_witness:
  "((\<lambda>m. and_then m (\<lambda>d. next_anchored_month_boundary (Aware d) (dt_day (ex_day 1 31)))) ^^ 13) (Inr (ex_day 1 31)) =
      add_calendar_months (Aware (ex_day 1 31)) (int 13) \<and>
    (\<exists>w. add_calendar_months (Aware (ex_day 1 31)) (int 13) = Inr w \<and> valid_datetime w \<and> ex_day 1 31 < w)"
proof (rule anchored_months_do_not_drift)
  show "valid_datetime (ex_day 1 31)" by code_simp
qed simp

definition ex_binding :: provider_binding where
  "ex_binding = \<lparr>bd_subscription = Some ''sub1'', bd_order = None, bd_offer = None\<rparr>"

definition ex_failed :: "int \<Rightarrow> webhook_entry" where
  "ex_failed m = (ex_hook Hook_Received)\<lparr>event_name := ''subscription_payment_failed'',
     provider_effective_at := Some (Aware (ex_day m 5))\<rparr>"

definition ex_late1 :: market_db where
  "ex_late1 = snd (reconcile_provider_event ex_binding (ex_failed 2) ''dec1'' ex_db0)"

definition ex_late2 :: market_db where
  "ex_late2 = snd (reconcile_provider_event ex_binding (ex_failed 3) ''dec2'' ex_late1)"

lemma ex_late_reach: "market.reach ex_env ex_late2"
  unfolding ex_late2_def ex_late1_def by (intro market.reach_step [OF _ step_reconcile] ex_reach0)

text \<open>The first two missed months are recorded; the third one is refused, and nothing is written.\<close>

lemma third_failure_refused:
  "map_option missed_billing_cycles (dict_get (delinquencies ex_late1) ''sub1'') = Some 1"
  "map_option missed_billing_cycles (dict_get (delinquencies ex_late2) ''sub1'') = Some 2"
  "reconcile_provider_event ex_binding (ex_failed 4) ''dec3'' ex_late2 = (Inl ConstraintViolation, ex_late2)"
  by code_simp+

lemma accounts_never_frozen_witness:
  "\<exists>d. dict_get (delinquencies ex_late2) ''sub1'' = Some d \<and>
     missed_billing_cycles d < FREEZE_AFTER_MISSED_CYCLES \<and>
     (dl_state d = Grace_Degraded \<or> dl_state d = Delinquency_Resolved)"
proof -
  obtain d where "dict_get (delinquencies ex_late2) ''sub1'' = Some d" using third_failure_refused(2) by auto
  with accounts_never_frozen [OF ex_late_reach this] show ?thesis by blast
qed

end
