(* ===== verification/Spec2Isabelle.thy ===== *)
theory Spec2Isabelle
  imports Optimized_Runs Durable_Http Capacity_Admission Workflow_Runs Auth_Examples Rate_Limit_Runs Quota_Examples
begin

text \<open>
  \<^bold>\<open>Verification of Processual Maestro Kernel\<close>

  The repository orchestrates agents and executes their work durably, and sells that as a metered
  service. The development models the parts that carry its own logic:

  \<^item> the \<^emph>\<open>orchestration kernel\<close> (\<open>processual_kernel\<close>): agents and workflows, the governor that
    moves agents between states, the execution of workflow steps on an agent runtime;
  \<^item> \<^emph>\<open>durable execution\<close> (\<open>processual_api/execution\<close>): jobs that survive workers, kept in memory or
    in Redis, claimed under leases by workers of a pool, under capacity and concurrency limits;
  \<^item> \<^emph>\<open>runtime capacity\<close> (\<open>processual_api/middleware\<close>): weighted admission of HTTP requests and the
    accounting of what they occupy;
  \<^item> \<^emph>\<open>authentication\<close> (\<open>processual_api/auth\<close>): sessions with rotating refresh tokens, lockout and
    second factors over the identity tables;
  \<^item> the \<^emph>\<open>commercial quota\<close> (\<open>processual_api/admin_marketplace\<close>, \<open>processual_api/billing\<close>): the units
    a subscription may use in a month, what rolls over, what a late payment takes away, and top-ups
    from the order over the payment to the grant and its reversal.

  \<^bold>\<open>Theories and sources\<close>

  \<^item> \<open>Maestro_Prelude\<close>: Python exceptions, dictionaries (ordered association lists), stable minimum
    selection, and the interface \<open>transition_system\<close>, which every component interprets on its own
    step relation.
  \<^item> \<open>Durable_Job\<close>, \<open>Job_Contract\<close>, \<open>Memory_Store\<close>, \<open>Job_Lifecycle\<close>: \<open>execution/durable.py\<close>.
    \<open>Durable_Job\<close> has the data (\<open>RetryPolicy\<close>, \<open>JobSpec\<close>, \<open>ExecutionJob\<close>) with the validation of their
    constructors; \<open>Memory_Store\<close> has one definition per method of \<open>InMemoryDurableJobStore\<close>;
    \<open>Job_Contract\<close> states what every store promises of a job as the interface \<open>durable_store\<close>;
    \<open>Job_Lifecycle\<close> proves the invariant, fencing of stale leases, exclusiveness of a lease,
    idempotent submission, the order of claims, retries on every branch, recovery, and two defects: an
    attempt counter beyond 1024, which the invariant excludes, and a cancellation request that is lost.
  \<^item> \<open>Redis_Model\<close>, \<open>Redis_Store\<close>, \<open>Redis_Refinement\<close>, \<open>Redis_Claims\<close>: \<open>execution/redis_store.py\<close>.
    Redis data are a hash of jobs, an index of idempotency keys and two sorted sets. Each method is
    its optimistic loop over \<open>WATCH\<close>/\<open>MULTI\<close>/\<open>EXEC\<close>; an environment changes the data before each attempt
    and decides whether \<open>EXEC\<close> fails. The lemmas relate every call to the method of the in-memory
    store at one attempt (linearizability); the Redis store interprets \<open>durable_store\<close> too.
  \<^item> \<open>Optimized_Store\<close>, \<open>Optimized_Refinement\<close>, \<open>Optimized_Claims\<close>, \<open>Index_Repair\<close>, \<open>Optimized_Runs\<close>:
    \<open>execution/redis_store_optimized.py\<close>, \<open>redis_index_repair.py\<close> and \<open>redis_activation.py\<close>. Beside the
    data of the plain store it keeps a sorted set of waiting jobs for every priority. The overridden
    methods refine those of the plain store, the Lua claim is one atomic step that takes the first
    ready job of its window, the claim over the indexes agrees with the plain claim, and the repair
    rebuilds the indexes from any content. The store interprets \<open>durable_store\<close> as well; the last
    theory also shows how jobs that cannot be claimed fill the window for ever.
  \<^item> \<open>Domain_Capacity\<close>, \<open>Capacity_Limits\<close>: \<open>execution/capacity.py\<close>, both backends behind the interface
    \<open>capacity_backend\<close>, the Lua scripts over sorted sets whose keys expire, and the polling
    controller. The limits along any run, the simulation of the in-memory backend by the scripts,
    and the loss of renewed leases.
  \<^item> \<open>Adaptive_Concurrency\<close>: \<open>execution/adaptive.py\<close>, the additive-increase controller, the telemetry
    sampler and the gate.
  \<^item> \<open>Durable_Worker\<close>, \<open>Worker_Pool\<close>, \<open>Durable_Http\<close>: \<open>execution/worker.py\<close>, \<open>pool.py\<close>, \<open>service.py\<close> and
    \<open>http.py\<close>. A worker runs over any store that meets the interface \<open>worker_store\<close>; what happens
    while its handler runs is a list of events between the calls of the store, and \<open>wind_down\<close> says what
    the cancelled tasks raise while the \<open>finally\<close> clause awaits them.
  \<^item> \<open>Runtime_Capacity\<close>, \<open>Capacity_Admission\<close>: \<open>middleware/runtime_capacity.py\<close> and
    \<open>runtime_capacity_metrics.py\<close>. One request is dispatched over any backend that meets the
    interface \<open>weighted_backend\<close>. It may be cancelled and its tasks may raise; then it returns its
    capacity, or \<open>cancelled_dispatch_leaks\<close> shows that it does not.
  \<^item> \<open>Kernel_Types\<close>, \<open>Continuity\<close>, \<open>Governor\<close>, \<open>Maestro_Kernel\<close>: \<open>processual_kernel/contracts\<close>,
    \<open>types.py\<close>, \<open>continuity.py\<close>, \<open>cgt_bridge.py\<close>, \<open>governor.py\<close> and \<open>kernel.py\<close>, one definition per
    method. \<open>Workflow_Steps\<close> and \<open>Workflow_Runs\<close> prove the invariant of the kernel, that
    \<open>run_workflow\<close> ends, that settled steps are final, routing, and the exception a decaying
    agent ends in.
  \<^item> \<open>Auth_Store\<close>, \<open>Session_Service\<close>: \<open>auth/models.py\<close> (the columns the services use),
    \<open>session_repository.py\<close>, \<open>session_service.py\<close>, \<open>passwords.py\<close> and \<open>token_material.py\<close>. A table is a
    dictionary by primary key and a method one transaction on the tables.
  \<^item> \<open>Mfa_Crypto\<close>, \<open>Mfa_Service\<close>: \<open>auth/totp.py\<close>, \<open>mfa_crypto.py\<close>, \<open>mfa_repository.py\<close> and
    \<open>mfa_service.py\<close>; one-time passwords are truncated at the width of the code.
  \<^item> \<open>Auth_Invariant\<close>, \<open>Auth_Runs\<close>, \<open>Mfa_Runs\<close>, \<open>Auth_Examples\<close>: the invariant of the tables and what
    every method keeps of it, both services as one state machine beside the other writers of the
    tables, and the properties: a refresh token works once and its replay ends the session, lockout
    bounds the guesses, access tokens respect session and second factor, a one-time password and a
    recovery code work once whatever happens in between, the secret that enrollment returns leads to a
    working factor, removal needs a recent step-up. \<open>enroll_race\<close> treats the one check that takes no
    lock. Account recovery (\<open>account_recovery_repository.py\<close>) is a step of the state machine.
    \<open>Auth_Examples\<close> applies them to a concrete system.
  \<^item> \<open>Rate_Limits\<close>, \<open>Rate_Limit_Runs\<close>: \<open>auth/rate_limit.py\<close> and \<open>middleware/rate_limit.py\<close>. The Lua
    script over several windows, what it lets through in any interval, the address a request is
    counted for behind trusted proxies, and how the middleware, which trusts the header, is evaded.
  \<^item> \<open>Billing_Clock\<close>, \<open>Billing_Catalog\<close>: \<open>admin_marketplace/subscription_billing_period.py\<close>,
    \<open>billing/plan_fulfillment_catalog.py\<close>, \<open>commercial_quota_top_up_contracts.py\<close>,
    \<open>commercial_currency_settlement_contracts.py\<close> and the price tables of
    \<open>maestro_group1_selected_pricing.py\<close>: calendar months without drift, plans, quotes, settlement.
  \<^item> \<open>Quota_Tables\<close>: the rows of the commercial tables with the constraints they declare
    (\<open>admin_marketplace/models.py\<close>, the \<open>*_persistence.py\<close> files, \<open>billing/commercial_top_up_models.py\<close>)
    and the commit of a unit of work.
  \<^item> \<open>Subscription_Quota\<close>: \<open>subscription_quota_usage.py\<close>, \<open>subscription_quota_rollover.py\<close>,
    \<open>subscription_rollover_delinquency.py\<close>, \<open>subscription_delinquency_policy.py\<close>,
    \<open>subscription_runtime_access_policy.py\<close> and the reconciliation of provider events.
  \<^item> \<open>Top_Up_Orders\<close>, \<open>Top_Up_Grants\<close>: eligibility, orders, checkouts and their recovery, verified
    payments, grants, webhooks, reversals, refunds and the scan for stuck top-ups.
  \<^item> \<open>Quota_Ledger\<close>, \<open>Top_Up_Ledger\<close>, \<open>Quota_Steps\<close>: the ledger that the tables keep
    together (the units of a cycle are the sums of its usage, grants and reversals; every grant has
    its order and payment) and that every operation preserves it.
  \<^item> \<open>Quota_Runs\<close>, \<open>Quota_Guards\<close>, \<open>Quota_Properties\<close>, \<open>Quota_Examples\<close>: the commercial services as one
    state machine from tables without ledger entries, beside other writers of plans, subscriptions,
    runtimes and webhooks; the checks of the services against the constraints of the tables; the
    properties: the books of a cycle balance, a grant is paid exactly once, usage is charged once and
    within the allowance, rollover carries what is left, a checkout is started once, and accounts are
    never frozen, against the policy. \<open>Quota_Examples\<close> applies them to a concrete subscription.

  \<^bold>\<open>How the code is rendered\<close>

  A method that may raise returns \<open>exc + 'a\<close> beside the object it leaves behind, because several
  methods raise after they have changed their object. Clock readings, random identifiers and
  the answers of other parties are arguments. Times are rationals, the kernel's floats are reals;
  rounding and non-finite floats are not modelled, except that \<open>math.exp\<close> and the back-off raise
  \<open>OverflowError\<close> where the result exceeds the largest float. Records that the code shares by
  reference are updated in the dictionary that holds them.

  \<^bold>\<open>Bounds and fuel\<close>

  The Redis loops have the retry counts of the code (8 and 12). \<open>acquire_loop\<close> and \<open>admit_loop\<close> take
  the list of polls; the theorems show that they end at the first poll past the deadline.
  \<open>run_loop\<close> takes a number of passes; \<open>budget_left\<close>, the attempts that the pending steps may still
  use, is always enough, and more passes give the same result.

  \<^bold>\<open>Parameters\<close>

  The structural engine \<open>cgtlib.private\<close> is not in the repository (\<open>cgtlib\<close> has wrappers that raise
  without it): it is the argument \<open>ev\<close>, an arbitrary function that may raise. The agent runtime
  is an arbitrary function with a state of its own. No theorem assumes anything of either. For
  authentication the argon2 library, the keyed digest of tokens, the normalization of emails,
  HMAC-SHA1 and AES-GCM are arguments. \<open>enrollment_works\<close> and \<open>totp_code_total\<close> rely on documented
  facts of the last two: the MAC has twenty bytes, decryption undoes encryption, the tag has sixteen
  bytes. The rate limits have the keyed digest, of fixed length, and the reading, printing and
  membership of IP addresses as arguments. The commercial services have the conversions of texts to
  identifiers and decimals, the exchange-rate provider and the eligibility resolver in \<open>market_env\<close>.
  The text that Lua prints for a number is an argument of the optimized store.

  \<^bold>\<open>Not modelled\<close>

  The adaptive toolkit of the kernel, registration, the workflow of account recovery and mail delivery, orders,
  contracts and activation of subscriptions in the admin marketplace, pricing reports, integrations
  and the CGT governor service are not modelled; what the other
  services of \<open>auth\<close> do to users and sessions is an environment step. Routers, database models, static assets, migrations, notification and logging
  wrappers are input and output around libraries. Concurrent coroutines that would change the
  kernel during a run of a workflow are not modelled; those of the stores are. A database
  transaction is one step: the services lock the rows they read, interleavings inside a transaction
  are not modelled, except for the race of \<open>enroll\<close>. The conversions of JSON and decimal texts that
  the Redis stores make are the identity. The runs of the Redis stores and of a worker over Redis are
  sequences of undisturbed calls; a single call is treated under any interference. The exactness of
  the priority indexes after Lua claims is shown where Lua prints the times exactly.
\<close>

end
